(* ===== verification/Prelude.thy ===== *)
theory Prelude
  imports Complex_Main "HOL-Library.Word" "HOL-Library.Monad_Syntax"
begin

text \<open>
  The vocabulary every component shares.

  \<^item> Bytes: a \<^verbatim>\<open>Uint8Array\<close> is a list of \<open>8 word\<close>.
  \<^item> Strings: a JavaScript string is the list of the bytes of its UTF-8 form
    (type \<open>string\<close>).  Equality, concatenation, \<^verbatim>\<open>startsWith\<close>, \<^verbatim>\<open>endsWith\<close> and tests for
    the empty string mean the same on this form as on UTF-16; the places where the code
    counts or indexes characters do so on hex, base64 and other ASCII text.  The order is that
    of UTF-16 (\<open>strLe\<close>).  Strings with lone surrogates have no UTF-8 form and are left out.
  \<^item> Exceptions: a value of type \<open>exn\<close>; a fallible function returns \<open>exn + 'a\<close>,
    and a loop that may not return is wrapped in \<open>option\<close> with \<open>None\<close> for "does not return".
  \<^item> Times: \<^verbatim>\<open>Date.parse\<close> returns a number of milliseconds or NaN; a time is an
    \<open>int option\<close> with \<open>None\<close> for NaN, and a comparison with NaN is false.
  \<^item> Dynamically typed values (facts, payloads, the argument of the CBOR encoder):
    the datatype \<open>jsval\<close>.
  \<^item> \<^verbatim>\<open>Map\<close> and object literals with computed keys: an association list in insertion order
    (\<open>mput\<close> is \<^verbatim>\<open>Map.set\<close>), looked up with \<open>map_of\<close>.
\<close>

section \<open>Types\<close>

type_synonym byte = "8 word"
type_synonym bytes = "8 word list"

text \<open>The errors the code throws: the class, and the message where the code reads it.\<close>

datatype exn =
    TypeError
  | RangeError
  | Error string
  | CooLError string
  | DerError

type_synonym 'a res = "exn + 'a"

text \<open>Numbers: an IEEE double is a rational, an infinity or NaN; the code only compares them.\<close>

datatype jsnum = Fin rat | PosInf | NegInf | NaN

text \<open>Dynamically typed values.  An object keeps its entries in insertion order.\<close>

datatype jsval =
    JUndef
  | JNull
  | JBool bool
  | JNum jsnum
  | JStr string
  | JBytes bytes
  | JArr "jsval list"
  | JObj "(string \<times> jsval) list"

type_synonym time = "int option"

section \<open>Collections of rewrite rules\<close>

named_theorems js_defs \<open>definitions of the small JavaScript library operations\<close>
named_theorems check_defs \<open>unfolding rules for check records\<close>

section \<open>Fallible computations\<close>

definition rbind :: "'a res \<Rightarrow> ('a \<Rightarrow> 'b res) \<Rightarrow> 'b res" where
  "rbind r f = (case r of Inl e \<Rightarrow> Inl e | Inr x \<Rightarrow> f x)"

lemma rbind_simps [simp]:
  "rbind (Inl e) f = Inl e"
  "rbind (Inr x) f = f x"
  by (simp_all add: rbind_def)

lemma rbind_Inr_iff: "rbind r f = Inr y \<longleftrightarrow> (\<exists>x. r = Inr x \<and> f x = Inr y)"
  by (cases r) auto

text \<open>\<^verbatim>\<open>Array.prototype.map\<close> with a callback that may throw.\<close>

fun mapM :: "('a \<Rightarrow> 'b res) \<Rightarrow> 'a list \<Rightarrow> 'b list res" where
  "mapM f [] = Inr []"
| "mapM f (x # xs) = rbind (f x) (\<lambda>y. rbind (mapM f xs) (\<lambda>ys. Inr (y # ys)))"

lemma mapM_cong [fundef_cong]:
  "xs = ys \<Longrightarrow> (\<And>x. x \<in> set ys \<Longrightarrow> f x = g x) \<Longrightarrow> mapM f xs = mapM g ys"
  by (induction ys arbitrary: xs) auto

lemma mapM_Inr_iff: "mapM f xs = Inr ys \<longleftrightarrow> list_all2 (\<lambda>x y. f x = Inr y) xs ys"
  by (induction xs arbitrary: ys) (auto simp: rbind_Inr_iff list_all2_Cons1)

lemma mapM_Inr_map: "(\<And>x. x \<in> set xs \<Longrightarrow> f x = Inr (g x)) \<Longrightarrow> mapM f xs = Inr (map g xs)"
  by (induction xs) auto

lemma mapM_Inr_length: "mapM f xs = Inr ys \<Longrightarrow> length ys = length xs"
  by (auto simp: mapM_Inr_iff dest: list_all2_lengthD)

lemma mapM_Inr_mem: "mapM f xs = Inr ys \<Longrightarrow> y \<in> set ys \<Longrightarrow> \<exists>x\<in>set xs. f x = Inr y"
  by (induction xs arbitrary: ys) (auto simp: rbind_Inr_iff)

lemma mapM_Inr_target: "mapM f xs = Inr ys \<Longrightarrow> x \<in> set xs \<Longrightarrow> \<exists>y\<in>set ys. f x = Inr y"
  by (induction xs arbitrary: ys) (auto simp: rbind_Inr_iff)

text \<open>A computation that may throw and may also not return.\<close>

type_synonym 'a run = "'a res option"

definition runbind :: "'a run \<Rightarrow> ('a \<Rightarrow> 'b run) \<Rightarrow> 'b run" where
  "runbind r f = (case r of None \<Rightarrow> None | Some (Inl e) \<Rightarrow> Some (Inl e) | Some (Inr x) \<Rightarrow> f x)"

lemma runbind_simps [simp]:
  "runbind None f = None"
  "runbind (Some (Inl e)) f = Some (Inl e)"
  "runbind (Some (Inr x)) f = f x"
  by (simp_all add: runbind_def)

lemma runbind_ok_iff: "runbind r f = Some (Inr y) \<longleftrightarrow> (\<exists>x. r = Some (Inr x) \<and> f x = Some (Inr y))"
  by (auto simp: runbind_def split: option.splits sum.splits)

text \<open>\<^verbatim>\<open>try { ... } catch { return d; }\<close>.\<close>

definition catching :: "'a \<Rightarrow> 'a res \<Rightarrow> 'a" where
  "catching d r = (case r of Inl _ \<Rightarrow> d | Inr x \<Rightarrow> x)"

lemma catching_simps [simp]: "catching d (Inl e) = d" "catching d (Inr x) = x"
  by (simp_all add: catching_def)

section \<open>Comparisons with NaN\<close>

definition t_lt :: "time \<Rightarrow> time \<Rightarrow> bool" where
  "t_lt a b = (case (a, b) of (Some x, Some y) \<Rightarrow> x < y | _ \<Rightarrow> False)"

definition t_ge :: "time \<Rightarrow> time \<Rightarrow> bool" where
  "t_ge a b = (case (a, b) of (Some x, Some y) \<Rightarrow> x \<ge> y | _ \<Rightarrow> False)"

abbreviation t_gt :: "time \<Rightarrow> time \<Rightarrow> bool" where
  "t_gt a b \<equiv> t_lt b a"

lemma t_lt_simps [simp]:
  "t_lt (Some x) (Some y) = (x < y)"
  "t_lt None b = False"
  "t_lt a None = False"
  by (auto simp: t_lt_def split: option.splits)

lemma t_ge_simps [simp]:
  "t_ge (Some x) (Some y) = (x \<ge> y)"
  "t_ge None b = False"
  "t_ge a None = False"
  by (auto simp: t_ge_def split: option.splits)

definition t_add :: "time \<Rightarrow> int \<Rightarrow> time" where
  "t_add a d = map_option (\<lambda>x. x + d) a"

lemma t_add_simps [simp]: "t_add (Some x) d = Some (x + d)" "t_add None d = None"
  by (simp_all add: t_add_def)

definition js_lt :: "jsnum \<Rightarrow> jsnum \<Rightarrow> bool" where
  "js_lt a b = (case (a, b) of
       (NaN, _) \<Rightarrow> False | (_, NaN) \<Rightarrow> False
     | (Fin x, Fin y) \<Rightarrow> x < y
     | (NegInf, NegInf) \<Rightarrow> False | (NegInf, _) \<Rightarrow> True
     | (_, NegInf) \<Rightarrow> False | (PosInf, _) \<Rightarrow> False | (_, PosInf) \<Rightarrow> True)"

definition js_num_eq :: "jsnum \<Rightarrow> jsnum \<Rightarrow> bool" where
  "js_num_eq a b = (a \<noteq> NaN \<and> a = b)"

definition js_le :: "jsnum \<Rightarrow> jsnum \<Rightarrow> bool" where
  "js_le a b = (js_lt a b \<or> js_num_eq a b)"

lemma js_lt_Fin [simp]: "js_lt (Fin x) (Fin y) = (x < y)"
  by (simp add: js_lt_def)

lemma js_le_Fin [simp]: "js_le (Fin x) (Fin y) = (x \<le> y)"
  by (auto simp: js_le_def js_num_eq_def)

lemma js_lt_NaN [simp]: "\<not> js_lt NaN b" "\<not> js_lt a NaN"
  by (cases a; cases b; simp add: js_lt_def)+

lemma js_lt_asym: "js_lt a b \<Longrightarrow> \<not> js_lt b a"
  by (cases a; cases b; simp add: js_lt_def)

section \<open>Strings\<close>

fun startsWith :: "string \<Rightarrow> string \<Rightarrow> bool" where
  "startsWith s [] = True"
| "startsWith [] (c # cs) = False"
| "startsWith (x # xs) (c # cs) = (x = c \<and> startsWith xs cs)"

lemma startsWith_iff: "startsWith s p \<longleftrightarrow> (\<exists>t. s = p @ t)"
  by (induction s p rule: startsWith.induct) auto

lemma startsWith_append [simp]: "startsWith (p @ t) p"
  by (auto simp: startsWith_iff)

lemma startsWith_trans: "startsWith s p \<Longrightarrow> startsWith p q \<Longrightarrow> startsWith s q"
  by (auto simp: startsWith_iff)

text \<open>\<^verbatim>\<open>s.endsWith("*")\<close> and \<^verbatim>\<open>s.slice(0, -1)\<close>.\<close>

definition endsWithChar :: "string \<Rightarrow> char \<Rightarrow> bool" where
  "endsWithChar s c = (s \<noteq> [] \<and> last s = c)"

fun join :: "string \<Rightarrow> string list \<Rightarrow> string" where
  "join sep [] = []"
| "join sep [x] = x"
| "join sep (x # y # ys) = x @ sep @ join sep (y # ys)"

text \<open>\<^verbatim>\<open>padStart(n, c)\<close>.\<close>

definition padStart :: "nat \<Rightarrow> char \<Rightarrow> string \<Rightarrow> string" where
  "padStart n c s = replicate (n - length s) c @ s"

text \<open>Decimal numerals, as template literals print array indexes.\<close>

fun showNat :: "nat \<Rightarrow> string" where
  "showNat n = (if n < 10 then [char_of (48 + n)] else showNat (n div 10) @ [char_of (48 + n mod 10)])"

declare showNat.simps [simp del]

text \<open>The order of \<^verbatim>\<open><\<close> on strings and of the default \<^verbatim>\<open>sort\<close>: that of the UTF-16 code units.  On the UTF-8 bytes of the model it is the
  order of the bytes, except that the characters beyond the basic plane (lead bytes from \<open>0xF0\<close> on), whose surrogates begin below \<open>0xE000\<close>,
  come before those of the lead bytes \<open>0xEE\<close> and \<open>0xEF\<close>.\<close>

definition utf16Key :: "char \<Rightarrow> nat" where
  "utf16Key c = (let b = of_char c in if b < 0xEE then b else if b < 0xF0 then b + 0x10 else b - 2)"

lemma utf16Key_inj [simp]: "utf16Key a = utf16Key b \<longleftrightarrow> a = b"
proof
  assume e: "utf16Key a = utf16Key b"
  have "(of_char a :: nat) < 256" "(of_char b :: nat) < 256" by simp_all
  then have "(of_char a :: nat) = of_char b"
    using e unfolding utf16Key_def Let_def by (simp split: if_splits del: of_char_eq_iff; arith)
  then show "a = b" by simp
qed simp

lemma utf16Key_low: "(of_char c :: nat) < 128 \<Longrightarrow> utf16Key c = of_char c"
  by (simp add: utf16Key_def)

fun strLe :: "string \<Rightarrow> string \<Rightarrow> bool" where
  "strLe [] t = True"
| "strLe (a # s) [] = False"
| "strLe (a # s) (b # t) = (utf16Key a < utf16Key b \<or> (a = b \<and> strLe s t))"

lemma strLe_refl [simp]: "strLe s s"
  by (induction s) auto

section \<open>Doubles\<close>

text \<open>A sum of doubles that are natural numbers: exact below \<open>2\<^sup>53\<close>, rounded to 53 significant bits (ties to even) above.\<close>

definition dbl :: "nat \<Rightarrow> nat" where
  "dbl n = (if n < 2 ^ 53 then n
     else let k = length (takeWhile (\<lambda>i. 2 ^ (53 + i) \<le> n) [0..<64]); q = n div 2 ^ k; r = n mod 2 ^ k
          in (if 2 * r > 2 ^ k \<or> (2 * r = 2 ^ k \<and> odd q) then q + 1 else q) * 2 ^ k)"

lemma dbl_exact [simp]: "n < 2 ^ 53 \<Longrightarrow> dbl n = n"
  by (simp add: dbl_def)

lemma dbl_upto: "n \<le> 2 ^ 53 \<Longrightarrow> dbl n = n"
proof (cases "n < 2 ^ 53")
  case False
  assume "n \<le> 2 ^ 53"
  with False have n: "n = 2 ^ 53"
    by simp
  have "[0..<64] = 0 # 1 # [2..<64 :: nat]" by (simp add: upt_conv_Cons numeral_2_eq_2)
  then have "takeWhile (\<lambda>i. 2 ^ (53 + i) \<le> (2 ^ 53 :: nat)) [0..<64] = [0]" by simp
  then show ?thesis unfolding dbl_def n by (simp add: Let_def)
qed simp

text \<open>From \<open>2\<^sup>53\<close> on, adding one changes nothing: the sum is a tie and rounds back.\<close>

lemma dbl_stuck: "dbl (2 ^ 53 + 1) = 2 ^ 53"
proof -
  have "[0..<64] = 0 # 1 # [2..<64 :: nat]" by (simp add: upt_conv_Cons numeral_2_eq_2)
  then have "takeWhile (\<lambda>i. 2 ^ (53 + i) \<le> (2 ^ 53 + 1 :: nat)) [0..<64] = [0]" by simp
  then show ?thesis unfolding dbl_def by (simp add: Let_def)
qed

section \<open>Sorting\<close>

text \<open>\<^verbatim>\<open>Array.prototype.sort\<close> with a consistent comparator is a stable sort; \<open>le a b\<close> stands for
  a comparator value that is not positive.\<close>

fun insertBy :: "('a \<Rightarrow> 'a \<Rightarrow> bool) \<Rightarrow> 'a \<Rightarrow> 'a list \<Rightarrow> 'a list" where
  "insertBy le x [] = [x]"
| "insertBy le x (y # ys) = (if le x y then x # y # ys else y # insertBy le x ys)"

fun sortBy :: "('a \<Rightarrow> 'a \<Rightarrow> bool) \<Rightarrow> 'a list \<Rightarrow> 'a list" where
  "sortBy le [] = []"
| "sortBy le (x # xs) = insertBy le x (sortBy le xs)"

lemma set_insertBy [simp]: "set (insertBy le x ys) = insert x (set ys)"
  by (induction ys) auto

lemma set_sortBy [simp]: "set (sortBy le xs) = set xs"
  by (induction xs) auto

lemma length_insertBy [simp]: "length (insertBy le x ys) = Suc (length ys)"
  by (induction ys) auto

lemma length_sortBy [simp]: "length (sortBy le xs) = length xs"
  by (induction xs) auto

lemma sortBy_sorted: "sorted_wrt le xs \<Longrightarrow> sortBy le xs = xs"
proof (induction xs)
  case (Cons x xs)
  then show ?case by (cases xs) auto
qed simp

text \<open>\<^verbatim>\<open>Set.add\<close> on a set in insertion order.\<close>

definition sadd :: "'a \<Rightarrow> 'a list \<Rightarrow> 'a list" where
  "sadd x s = (if x \<in> set s then s else s @ [x])"

lemma set_sadd [simp]: "set (sadd x s) = insert x (set s)"
  by (auto simp: sadd_def)

section \<open>Maps in insertion order\<close>

fun mput :: "'k \<Rightarrow> 'v \<Rightarrow> ('k \<times> 'v) list \<Rightarrow> ('k \<times> 'v) list" where
  "mput k v [] = [(k, v)]"
| "mput k v ((k', v') # m) = (if k' = k then (k, v) # m else (k', v') # mput k v m)"

lemma map_of_mput [simp]: "map_of (mput k v m) = (map_of m)(k \<mapsto> v)"
  by (induction k v m rule: mput.induct) auto

lemma mput_keys: "fst ` set (mput k v m) = insert k (fst ` set m)"
  by (induction k v m rule: mput.induct) auto

lemma mput_new: "k \<notin> fst ` set m \<Longrightarrow> mput k v m = m @ [(k, v)]"
  by (induction k v m rule: mput.induct) auto

lemma mput_distinct: "distinct (map fst m) \<Longrightarrow> distinct (map fst (mput k v m))"
proof (induction k v m rule: mput.induct)
  case (2 k v k' v' m)
  then show ?case using mput_keys [of k v m] by (auto simp: image_iff)
qed simp

definition mdel :: "'k \<Rightarrow> ('k \<times> 'v) list \<Rightarrow> ('k \<times> 'v) list" where
  "mdel k m = filter (\<lambda>e. fst e \<noteq> k) m"

lemma map_of_mdel [simp]: "map_of (mdel k m) = (map_of m)(k := None)"
  by (induction m) (auto simp: mdel_def)

section \<open>Words\<close>

lemma unat_byte_less: "unat (b :: byte) < 256"
proof -
  have "unat b < 2 ^ LENGTH(8)" by (rule unsigned_less)
  then show ?thesis by simp
qed

lemma of_nat_unat_byte [simp]: "of_nat (unat (b :: byte)) = b"
  by simp

lemma unat_of_nat_byte: "n < 256 \<Longrightarrow> unat (of_nat n :: byte) = n"
  by (simp add: unat_of_nat)

end
