(* ===== verification/Codec.thy ===== *)
theory Codec
  imports Prelude
begin

text \<open>
  \<^verbatim>\<open>src/src/codec.ts\<close>, \<^verbatim>\<open>multihash.ts\<close> and \<^verbatim>\<open>hash.ts\<close>: hex, base64, the prefixed field forms,
  byte concatenation, the constant-time comparison, multihash strings and salted commitments.
  SHA-256 (\<^verbatim>\<open>@noble/hashes\<close>) is the parameter \<open>H\<close> of the definitions that use it.
  The main results are the round trips of hex and base64, the exactness of the comparison and
  the well-formedness of multihashes.
\<close>

unbundle bit_operations_syntax

section \<open>Hex\<close>

definition hexDigit :: "nat \<Rightarrow> char" where
  "hexDigit n = ''0123456789abcdef'' ! n"

text \<open>\<^verbatim>\<open>Number.prototype.toString(16)\<close>.\<close>

fun toString16 :: "nat \<Rightarrow> string" where
  "toString16 n = (if n < 16 then [hexDigit n] else toString16 (n div 16) @ [hexDigit (n mod 16)])"

declare toString16.simps [simp del]

fun toHex :: "bytes \<Rightarrow> string" where
  "toHex [] = []"
| "toHex (b # bs) = padStart 2 (CHR ''0'') (toString16 (unat b)) @ toHex bs"

definition isHexChar :: "char \<Rightarrow> bool" where
  "isHexChar c = (c \<in> set ''0123456789abcdefABCDEF'')"

definition hexVal :: "char \<Rightarrow> nat" where
  "hexVal c = (let n = of_char c in if n < 58 then n - 48 else if n < 71 then n - 55 else n - 87)"

text \<open>The decoding loop: \<^verbatim>\<open>Number.parseInt(hex.slice(i * 2, i * 2 + 2), 16)\<close> for each pair.\<close>

fun hexPairs :: "string \<Rightarrow> bytes" where
  "hexPairs (a # b # r) = of_nat (16 * hexVal a + hexVal b) # hexPairs r"
| "hexPairs _ = []"

definition fromHex :: "string \<Rightarrow> bytes res" where
  "fromHex s = (if \<not> list_all isHexChar s \<or> length s mod 2 \<noteq> 0 then Inl TypeError
                else Inr (hexPairs s))"

definition HEX_FIELD_PREFIX :: string where
  "HEX_FIELD_PREFIX = ''hex:''"

definition toHexField :: "bytes \<Rightarrow> string" where
  "toHexField b = HEX_FIELD_PREFIX @ toHex b"

definition fromHexField :: "string \<Rightarrow> bytes res" where
  "fromHexField s = (if \<not> startsWith s HEX_FIELD_PREFIX then Inl TypeError
                     else fromHex (drop (length HEX_FIELD_PREFIX) s))"

section \<open>Base64\<close>

text \<open>
  \<^verbatim>\<open>btoa\<close> and \<^verbatim>\<open>atob\<close> are the platform's (WHATWG forgiving base64): the encoder works on 24-bit
  groups, the decoder first removes ASCII white space and at most two padding characters.
\<close>

definition b64Alphabet :: string where
  "b64Alphabet = ''ABCDEFGHIJKLMNOPQRSTUVWXYZabcdefghijklmnopqrstuvwxyz0123456789+/''"

definition b64Char :: "nat \<Rightarrow> char" where
  "b64Char n = b64Alphabet ! n"

fun indexOf :: "char \<Rightarrow> string \<Rightarrow> nat option" where
  "indexOf c [] = None"
| "indexOf c (x # xs) = (if x = c then Some 0 else map_option Suc (indexOf c xs))"

fun enc6 :: "nat list \<Rightarrow> nat list" where
  "enc6 (a # b # c # r) =
     a div 4 # (a mod 4 * 16 + b div 16) # (b mod 16 * 4 + c div 64) # c mod 64 # enc6 r"
| "enc6 [a, b] = [a div 4, a mod 4 * 16 + b div 16, b mod 16 * 4]"
| "enc6 [a] = [a div 4, a mod 4 * 16]"
| "enc6 [] = []"

fun dec6 :: "nat list \<Rightarrow> nat list" where
  "dec6 (p # q # r # s # t) =
     (p * 4 + q div 16) # (q mod 16 * 16 + r div 4) # (r mod 4 * 64 + s) # dec6 t"
| "dec6 [p, q, r] = [p * 4 + q div 16, q mod 16 * 16 + r div 4]"
| "dec6 [p, q] = [p * 4 + q div 16]"
| "dec6 _ = []"

definition btoa :: "string \<Rightarrow> string" where
  "btoa s = map b64Char (enc6 (map of_char s)) @ replicate ((3 - length s mod 3) mod 3) (CHR ''='')"

definition isAsciiSpace :: "char \<Rightarrow> bool" where
  "isAsciiSpace c = (of_char c \<in> {9, 10, 12, 13, 32 :: nat})"

definition stripPad :: "string \<Rightarrow> string" where
  "stripPad s = (if length s mod 4 \<noteq> 0 then s
     else if endsWithChar s (CHR ''='') then
       (if endsWithChar (butlast s) (CHR ''='') then butlast (butlast s) else butlast s)
     else s)"

definition atob :: "string \<Rightarrow> string res" where
  "atob s0 = (let s = stripPad (filter (\<lambda>c. \<not> isAsciiSpace c) s0) in
     if length s mod 4 = 1 \<or> \<not> list_all (\<lambda>c. c \<in> set b64Alphabet) s
     then Inl (Error ''InvalidCharacterError'')
     else Inr (map char_of (dec6 (map (\<lambda>c. the (indexOf c b64Alphabet)) s))))"

definition CHUNK :: nat where
  "CHUNK = 32768"

text \<open>The chunked construction of the binary string handed to \<^verbatim>\<open>btoa\<close>.\<close>

function binaryOf :: "bytes \<Rightarrow> string" where
  "binaryOf bs = (if bs = [] then [] else
     map (\<lambda>b. char_of (unat b)) (take CHUNK bs) @ binaryOf (drop CHUNK bs))"
  by pat_completeness auto
termination
  by (relation "measure length") (auto simp: CHUNK_def)

declare binaryOf.simps [simp del]

definition toBase64 :: "bytes \<Rightarrow> string" where
  "toBase64 bs = btoa (binaryOf bs)"

definition fromBase64 :: "string \<Rightarrow> bytes res" where
  "fromBase64 s = rbind (atob s) (\<lambda>bin. Inr (map (\<lambda>c. of_nat (of_char c)) bin))"

definition B64_FIELD_PREFIX :: string where
  "B64_FIELD_PREFIX = ''base64:''"

definition toBase64Field :: "bytes \<Rightarrow> string" where
  "toBase64Field b = B64_FIELD_PREFIX @ toBase64 b"

definition fromBase64Field :: "string \<Rightarrow> bytes res" where
  "fromBase64Field s = (if \<not> startsWith s B64_FIELD_PREFIX then Inl TypeError
                        else fromBase64 (drop (length B64_FIELD_PREFIX) s))"

section \<open>Bytes\<close>

text \<open>The strings of the model are UTF-8 byte lists already, so the encoder reads them off. A JavaScript string with a lone surrogate, which
  the encoder writes like the string that has U+FFFD there, is not a string of the model.\<close>

definition utf8 :: "string \<Rightarrow> bytes" where
  "utf8 s = map (\<lambda>c. of_nat (of_char c)) s"

text \<open>\<^verbatim>\<open>out.set(a, off)\<close>, and the loop that copies each array behind the one before.\<close>

definition setAt :: "'a list \<Rightarrow> nat \<Rightarrow> 'a list \<Rightarrow> 'a list" where
  "setAt out off a = take off out @ a @ drop (off + length a) out"

fun copyAll :: "bytes \<Rightarrow> nat \<Rightarrow> bytes list \<Rightarrow> bytes" where
  "copyAll out off [] = out"
| "copyAll out off (a # as) = copyAll (setAt out off a) (off + length a) as"

definition concatBytes :: "bytes list \<Rightarrow> bytes" where
  "concatBytes arrays = copyAll (replicate (sum_list (map length arrays)) 0) 0 arrays"

fun diffOr :: "bytes \<Rightarrow> bytes \<Rightarrow> byte \<Rightarrow> byte" where
  "diffOr (x # xs) (y # ys) d = diffOr xs ys (d OR (x XOR y))"
| "diffOr _ _ d = d"

definition bytesEqual :: "bytes \<Rightarrow> bytes \<Rightarrow> bool" where
  "bytesEqual a b = (if length a \<noteq> length b then False else diffOr a b 0 = 0)"

section \<open>Multihashes and commitments\<close>

definition MULTIHASH_PREFIX :: string where
  "MULTIHASH_PREFIX = ''mh:sha256:''"

definition mhSha256 :: "(bytes \<Rightarrow> bytes) \<Rightarrow> bytes \<Rightarrow> string" where
  "mhSha256 H data = ''mh:sha256:'' @ toHex (H data)"

definition multihashFromDigest :: "bytes \<Rightarrow> string res" where
  "multihashFromDigest d = (if length d \<noteq> 32 then Inl TypeError else Inr (''mh:sha256:'' @ toHex d))"

definition isLowerHex :: "char \<Rightarrow> bool" where
  "isLowerHex c = (c \<in> set ''0123456789abcdef'')"

definition isMultihash :: "string \<Rightarrow> bool" where
  "isMultihash s = (startsWith s ''mh:sha256:'' \<and> length (drop 10 s) = 64
                    \<and> list_all isLowerHex (drop 10 s))"

definition multihashDigest :: "string \<Rightarrow> bytes res" where
  "multihashDigest mh = (if \<not> startsWith mh MULTIHASH_PREFIX then Inl TypeError
     else rbind (fromHex (drop (length MULTIHASH_PREFIX) mh))
       (\<lambda>d. if length d \<noteq> 32 then Inl TypeError else Inr d))"

text \<open>A salted commitment to bytes or to text (\<open>utf8\<close> of it).\<close>

definition saltedCommit :: "(bytes \<Rightarrow> bytes) \<Rightarrow> string \<Rightarrow> bytes \<Rightarrow> string res" where
  "saltedCommit H salt data =
     rbind (fromHexField salt) (\<lambda>sb. Inr (mhSha256 H (concatBytes [sb, data])))"

section \<open>Hex: lemmas\<close>

lemma toString16_byte:
  "n < 256 \<Longrightarrow> padStart 2 (CHR ''0'') (toString16 n) = [hexDigit (n div 16), hexDigit (n mod 16)]"
proof (cases "n < 16")
  case True
  then show ?thesis
    by (simp add: toString16.simps [of n] padStart_def hexDigit_def)
next
  case False
  assume "n < 256"
  then have "n div 16 < 16" by auto
  with False show ?thesis
    by (simp add: toString16.simps [of n] toString16.simps [of "n div 16"] padStart_def)
qed

lemma toHex_Cons:
  "toHex (b # bs) = hexDigit (unat b div 16) # hexDigit (unat b mod 16) # toHex bs"
  using toString16_byte [OF unat_byte_less] by simp

lemmas toHex_rules = toHex.simps(1) toHex_Cons

declare toHex.simps(2) [simp del]

lemma length_toHex [simp]: "length (toHex bs) = 2 * length bs"
  by (induction bs) (simp_all add: toHex_Cons)

lemma hexDigit_table:
  "list_all (\<lambda>n. hexVal (hexDigit n) = n \<and> isLowerHex (hexDigit n)) [0..<16]"
  by code_simp

lemma hexVal_hexDigit: "n < 16 \<Longrightarrow> hexVal (hexDigit n) = n"
  using hexDigit_table by (simp only: list_all_iff set_upt) auto

lemma isLowerHex_hexDigit: "n < 16 \<Longrightarrow> isLowerHex (hexDigit n)"
  using hexDigit_table by (simp only: list_all_iff set_upt) auto

lemma isHexChar_lower: "isLowerHex c \<Longrightarrow> isHexChar c"
  by (auto simp: isLowerHex_def isHexChar_def)

lemma toHex_lower: "list_all isLowerHex (toHex bs)"
proof (induction bs)
  case (Cons b bs)
  moreover have "unat b div 16 < 16" using unat_byte_less [of b] by auto
  ultimately show ?case by (simp add: toHex_Cons isLowerHex_hexDigit)
qed simp

lemma hexPairs_toHex: "hexPairs (toHex bs) = bs"
proof (induction bs)
  case (Cons b bs)
  have "unat b div 16 < 16" using unat_byte_less [of b] by auto
  with Cons show ?case by (simp add: toHex_Cons hexVal_hexDigit)
qed simp

lemma fromHex_toHex [simp]: "fromHex (toHex bs) = Inr bs"
proof -
  have "list_all isHexChar (toHex bs)"
    using toHex_lower [of bs] by (auto simp: list_all_iff isHexChar_lower)
  then show ?thesis by (simp add: fromHex_def hexPairs_toHex)
qed

lemma fromHexField_toHexField [simp]: "fromHexField (toHexField b) = Inr b"
  by (simp add: fromHexField_def toHexField_def)

lemma toHex_inj: "toHex a = toHex b \<Longrightarrow> a = b"
  by (metis hexPairs_toHex)

lemma hexDigit_hexVal: "isLowerHex c \<Longrightarrow> hexDigit (hexVal c) = c \<and> hexVal c < 16"
  by (auto simp: isLowerHex_def hexVal_def hexDigit_def)

lemma toHex_hexPairs: "list_all isLowerHex s \<Longrightarrow> even (length s) \<Longrightarrow> toHex (hexPairs s) = s"
proof (induction s rule: hexPairs.induct)
  case (1 a b r)
  then have d: "hexDigit (hexVal a) = a" "hexVal a < 16" "hexDigit (hexVal b) = b" "hexVal b < 16"
    using hexDigit_hexVal by auto
  then have "16 * hexVal a + hexVal b < 256" by simp
  then have "unat (of_nat (16 * hexVal a + hexVal b) :: byte) = 16 * hexVal a + hexVal b"
    by (rule unat_of_nat_byte)
  moreover have "(16 * hexVal a + hexVal b) div 16 = hexVal a" "(16 * hexVal a + hexVal b) mod 16 = hexVal b"
    using d by auto
  ultimately show ?case using 1 d by (simp add: toHex_Cons del: of_nat_add of_nat_mult)
qed auto

section \<open>Base64: lemmas\<close>

lemma dec6_enc6: "list_all (\<lambda>n. n < 256) ns \<Longrightarrow> dec6 (enc6 ns) = ns"
proof (induction ns rule: enc6.induct)
  case (1 a b c r)
  have "a div 4 * 4 + (a mod 4 * 16 + b div 16) div 16 = a"
    "(a mod 4 * 16 + b div 16) mod 16 * 16 + (b mod 16 * 4 + c div 64) div 4 = b"
    "(b mod 16 * 4 + c div 64) mod 4 * 64 + c mod 64 = c"
    using 1(2) by auto
  with 1 show ?case by simp
qed auto

lemma enc6_less: "list_all (\<lambda>n. n < 256) ns \<Longrightarrow> list_all (\<lambda>n. n < 64) (enc6 ns)"
proof (induction ns rule: enc6.induct)
  case (1 a b c r)
  have "a mod 4 * 16 + b div 16 < 64" "b mod 16 * 4 + c div 64 < 64" "a div 4 < 64"
    using 1(2) by auto
  with 1 show ?case by simp
next
  case (2 a b)
  then have "a mod 4 * 16 + b div 16 < 64" "b mod 16 * 4 < 64" "a div 4 < 64" by auto
  then show ?case by simp
qed auto

lemma length_b64Alphabet [simp]: "length b64Alphabet = 64"
  by (simp add: b64Alphabet_def)

lemma distinct_b64Alphabet: "distinct b64Alphabet"
  by (simp add: b64Alphabet_def)

lemma indexOf_nth: "distinct xs \<Longrightarrow> n < length xs \<Longrightarrow> indexOf (xs ! n) xs = Some n"
  by (induction xs arbitrary: n) (auto simp: nth_Cons split: nat.splits)

lemma b64Char_mem: "n < 64 \<Longrightarrow> b64Char n \<in> set b64Alphabet"
  by (simp add: b64Char_def)

lemma indexOf_b64Char: "n < 64 \<Longrightarrow> indexOf (b64Char n) b64Alphabet = Some n"
  by (simp add: b64Char_def indexOf_nth distinct_b64Alphabet)

lemma b64Alphabet_table: "list_all (\<lambda>c. c \<noteq> CHR ''='' \<and> \<not> isAsciiSpace c) b64Alphabet"
  by code_simp

lemma b64Alphabet_chars: "c \<in> set b64Alphabet \<Longrightarrow> c \<noteq> CHR ''='' \<and> \<not> isAsciiSpace c"
  using b64Alphabet_table by (auto simp only: list_all_iff)

lemma length_enc6:
  "length (enc6 ns) mod 4 = (if length ns mod 3 = 0 then 0 else length ns mod 3 + 1)"
  by (induction ns rule: enc6.induct) (simp_all add: Suc3_eq_add_3)

lemma stripPad_pad:
  assumes "list_all (\<lambda>c. c \<noteq> CHR ''='') s" and "k < 3" and "(length s + k) mod 4 = 0"
  shows "stripPad (s @ replicate k (CHR ''='')) = s"
proof -
  have ne: "\<not> endsWithChar s (CHR ''='')"
    using assms(1) last_in_set [of s] unfolding endsWithChar_def list_all_iff by metis
  have "k = 0 \<or> k = 1 \<or> k = 2" using assms(2) by arith
  then consider "k = 0" | "k = 1" | "k = 2" by blast
  then show ?thesis
  proof cases
    case 1
    with ne assms(3) show ?thesis by (simp add: stripPad_def)
  next
    case 2
    with ne assms(3) show ?thesis
      by (simp add: stripPad_def) (simp add: endsWithChar_def)
  next
    case 3
    then have "replicate k (CHR ''='') = [CHR ''='', CHR ''='']" by (simp add: numeral_2_eq_2)
    with ne assms(3) 3 show ?thesis
      by (simp add: stripPad_def endsWithChar_def butlast_append)
  qed
qed

lemma atob_btoa: "atob (btoa s) = Inr s"
proof -
  let ?ns = "map of_char s :: nat list"
  let ?e = "map b64Char (enc6 ?ns)"
  let ?k = "(3 - length s mod 3) mod 3"
  have small: "list_all (\<lambda>n. n < 256) ?ns" by (auto simp: list_all_iff)
  then have e64: "list_all (\<lambda>n. n < 64) (enc6 ?ns)" by (rule enc6_less)
  then have alpha: "list_all (\<lambda>c. c \<in> set b64Alphabet) ?e"
    by (auto simp: list_all_iff b64Char_mem)
  then have no_ws: "filter (\<lambda>c. \<not> isAsciiSpace c) (btoa s) = btoa s"
    using b64Alphabet_chars by (auto simp: btoa_def filter_id_conv list_all_iff isAsciiSpace_def)
  have len: "length ?e mod 4 = (if length s mod 3 = 0 then 0 else length s mod 3 + 1)"
    by (simp add: length_enc6)
  have "length s mod 3 \<in> {0, 1, 2}" by auto
  then have mod4: "(length ?e + ?k) mod 4 = 0" "length ?e mod 4 \<noteq> 1"
    using len mod_add_left_eq [of "length ?e" 4 ?k] by (auto split: if_splits)
  have strip: "stripPad (btoa s) = ?e"
    unfolding btoa_def
  proof (rule stripPad_pad)
    show "list_all (\<lambda>c. c \<noteq> CHR ''='') ?e"
      using alpha b64Alphabet_chars by (auto simp: list_all_iff)
  qed (use mod4 in auto)
  have "map (\<lambda>c. the (indexOf c b64Alphabet)) ?e = enc6 ?ns"
    using e64 by (auto simp: list_all_iff indexOf_b64Char intro!: map_idI)
  then have "map char_of (dec6 (map (\<lambda>c. the (indexOf c b64Alphabet)) ?e)) = s"
    by (simp add: dec6_enc6 [OF small] map_idI)
  with alpha mod4(2) show ?thesis
    by (simp add: atob_def no_ws strip del: map_map)
qed

lemma binaryOf_eq: "binaryOf bs = map (\<lambda>b. char_of (unat b)) bs"
proof (induction bs rule: binaryOf.induct)
  case (1 bs)
  then show ?case
    by (subst binaryOf.simps) (auto simp flip: map_append)
qed

lemma fromBase64_toBase64 [simp]: "fromBase64 (toBase64 bs) = Inr bs"
proof -
  have "of_nat (of_char (char_of (unat b) :: char)) = b" for b :: byte
    using unat_byte_less [of b] by simp
  then show ?thesis
    by (simp add: fromBase64_def toBase64_def atob_btoa binaryOf_eq map_idI)
qed

lemma fromBase64Field_toBase64Field [simp]: "fromBase64Field (toBase64Field b) = Inr b"
  by (simp add: fromBase64Field_def toBase64Field_def)

section \<open>Bytes: lemmas\<close>

lemma copyAll_eq:
  "length out = off + sum_list (map length as) \<Longrightarrow> copyAll out off as = take off out @ concat as"
proof (induction as arbitrary: out off)
  case (Cons a as)
  then have "length (setAt out off a) = off + length a + sum_list (map length as)"
    by (simp add: setAt_def)
  then have "copyAll (setAt out off a) (off + length a) as
      = take (off + length a) (setAt out off a) @ concat as"
    by (rule Cons.IH)
  then show ?case using Cons.prems by (simp add: setAt_def)
qed simp

lemma concatBytes_eq [simp]: "concatBytes as = concat as"
  by (simp add: concatBytes_def copyAll_eq)

lemma or_eq_0: "(a :: byte) OR b = 0 \<longleftrightarrow> a = 0 \<and> b = 0"
  by (auto simp: bit_eq_iff bit_or_iff)

lemma xor_eq_0: "(a :: byte) XOR b = 0 \<longleftrightarrow> a = b"
  by (auto simp: bit_eq_iff bit_xor_iff)

lemma diffOr_eq_0: "length a = length b \<Longrightarrow> diffOr a b d = 0 \<longleftrightarrow> d = 0 \<and> a = b"
  by (induction a b d rule: diffOr.induct) (auto simp: or_eq_0 xor_eq_0)

lemma bytesEqual_iff [simp]: "bytesEqual a b \<longleftrightarrow> a = b"
  by (auto simp: bytesEqual_def diffOr_eq_0)

lemma utf8_append [simp]: "utf8 (a @ b) = utf8 a @ utf8 b"
  by (simp add: utf8_def)

lemma utf8_inj: "utf8 a = utf8 b \<Longrightarrow> a = b"
proof -
  assume eq: "utf8 a = utf8 b"
  have c: "unat (of_nat (of_char c) :: byte) = of_char c" for c :: char
    by (simp add: unat_of_nat_byte)
  from eq have "map (\<lambda>w. char_of (unat w)) (utf8 a) = map (\<lambda>w. char_of (unat w)) (utf8 b)"
    by simp
  then show "a = b" by (simp add: utf8_def c o_def)
qed

section \<open>Multihashes: lemmas\<close>

lemma multihashDigest_mhSha256 [simp]:
  "length (H d) = 32 \<Longrightarrow> multihashDigest (mhSha256 H d) = Inr (H d)"
  by (simp add: multihashDigest_def mhSha256_def MULTIHASH_PREFIX_def)

lemma multihashFromDigest_ok: "length d = 32 \<Longrightarrow> multihashFromDigest d = Inr (MULTIHASH_PREFIX @ toHex d)"
  by (simp add: multihashFromDigest_def MULTIHASH_PREFIX_def)

lemma multihashDigest_prefix [simp]:
  "length d = 32 \<Longrightarrow> multihashDigest (MULTIHASH_PREFIX @ toHex d) = Inr d"
  by (simp add: multihashDigest_def)

lemma multihashDigest_length: "multihashDigest m = Inr d \<Longrightarrow> length d = 32"
  by (auto simp: multihashDigest_def rbind_Inr_iff split: if_splits)

lemma mhSha256_inj: "mhSha256 H a = mhSha256 H b \<Longrightarrow> H a = H b"
  by (auto simp: mhSha256_def dest: toHex_inj)

end
