(* ===== verification/Merkle.thy ===== *)
theory Merkle
  imports Codec
begin

text \<open>
  \<^verbatim>\<open>src/src/merkle.ts\<close>: the RFC 6962 Merkle tree.  The first part translates the code, with the
  32-bit shifts of \<^verbatim>\<open>largestPowerOfTwoBelow\<close> and \<^verbatim>\<open>isPowerOfTwo\<close> kept at their width (so the tree
  functions return \<open>None\<close> where the code loops for ever).  The second part is the tree hash of the
  RFC as a recursive specification; the third relates the two: the bottom-up bit arithmetic of the
  verifiers is shown to be the top-down recursion over the tree, from which completeness and
  soundness of inclusion and consistency proofs follow.
\<close>

unbundle bit_operations_syntax

section \<open>The code\<close>

definition LEAF_PREFIX :: bytes where
  "LEAF_PREFIX = [0]"

definition NODE_PREFIX :: bytes where
  "NODE_PREFIX = [1]"

definition leafHash :: "(bytes \<Rightarrow> bytes) \<Rightarrow> bytes \<Rightarrow> bytes" where
  "leafHash H data = H (concatBytes [LEAF_PREFIX, data])"

definition nodeHash :: "(bytes \<Rightarrow> bytes) \<Rightarrow> bytes \<Rightarrow> bytes \<Rightarrow> bytes" where
  "nodeHash H left right = H (concatBytes [NODE_PREFIX, left, right])"

text \<open>JavaScript's \<^verbatim>\<open>ToInt32\<close>, the left shift by one and the remainder (sign of the dividend).\<close>

definition toInt32 :: "int \<Rightarrow> int" where
  "toInt32 x = (x + 2 ^ 31) mod 2 ^ 32 - 2 ^ 31"

definition shl1 :: "int \<Rightarrow> int" where
  "shl1 k = toInt32 (2 * k)"

definition js_rem :: "int \<Rightarrow> int \<Rightarrow> int" where
  "js_rem a b = (if a < 0 then - (- a mod b) else a mod b)"

partial_function (option) lpo2_loop :: "int \<Rightarrow> int \<Rightarrow> int option" where
  "lpo2_loop k n = (if shl1 k < n then lpo2_loop (shl1 k) n else Some k)"

definition largestPowerOfTwoBelow :: "int \<Rightarrow> int option" where
  "largestPowerOfTwoBelow n = lpo2_loop 1 n"

partial_function (option) merkleRoot :: "(bytes \<Rightarrow> bytes) \<Rightarrow> bytes list \<Rightarrow> bytes option" where
  "merkleRoot H leafHashes =
     (if length leafHashes = 0 then Some (H [])
      else if length leafHashes = 1 then Some (leafHashes ! 0)
      else do {
        k \<leftarrow> largestPowerOfTwoBelow (int (length leafHashes));
        l \<leftarrow> merkleRoot H (take (nat k) leafHashes);
        r \<leftarrow> merkleRoot H (drop (nat k) leafHashes);
        Some (nodeHash H l r)
      })"

partial_function (option) inclusionProof ::
  "(bytes \<Rightarrow> bytes) \<Rightarrow> bytes list \<Rightarrow> int \<Rightarrow> bytes list res option" where
  "inclusionProof H leafHashes m =
     (if m < 0 \<or> m \<ge> int (length leafHashes) then Some (Inl RangeError)
      else if length leafHashes = 1 then Some (Inr [])
      else do {
        k \<leftarrow> largestPowerOfTwoBelow (int (length leafHashes));
        (if m < k then do {
           p \<leftarrow> inclusionProof H (take (nat k) leafHashes) m;
           r \<leftarrow> merkleRoot H (drop (nat k) leafHashes);
           Some (rbind p (\<lambda>p. Inr (p @ [r])))
         } else do {
           p \<leftarrow> inclusionProof H (drop (nat k) leafHashes) (m - k);
           l \<leftarrow> merkleRoot H (take (nat k) leafHashes);
           Some (rbind p (\<lambda>p. Inr (p @ [l])))
         })
      })"

text \<open>The inner loop \<^verbatim>\<open>while (fn % 2 === 0 && fn !== 0)\<close> of both verifiers.\<close>

function ascend :: "int \<Rightarrow> int \<Rightarrow> int \<times> int" where
  "ascend fn sn = (if js_rem fn 2 = 0 \<and> fn \<noteq> 0 then ascend (fn div 2) (sn div 2) else (fn, sn))"
  by pat_completeness auto
termination
proof (relation "measure (\<lambda>(fn, sn). nat \<bar>fn\<bar>)")
  fix fn sn :: int
  assume "js_rem fn 2 = 0 \<and> fn \<noteq> 0"
  then have "fn mod 2 = 0" "fn \<noteq> 0" by (auto simp: js_rem_def split: if_splits)
  then have "\<bar>fn div 2\<bar> < \<bar>fn\<bar>" by presburger
  then show "((fn div 2, sn div 2), fn, sn) \<in> measure (\<lambda>(fn, sn). nat \<bar>fn\<bar>)" by simp
qed simp

declare ascend.simps [simp del]

fun inclLoop :: "(bytes \<Rightarrow> bytes) \<Rightarrow> bytes list \<Rightarrow> int \<Rightarrow> int \<Rightarrow> bytes \<Rightarrow> bytes res" where
  "inclLoop H [] fn sn hash = (if sn \<noteq> 0 then Inl RangeError else Inr hash)"
| "inclLoop H (sibling # path) fn sn hash =
     (if sn = 0 then Inl RangeError
      else if js_rem fn 2 = 1 \<or> fn = sn then
        (let (fn', sn') = (if js_rem fn 2 = 0 then ascend fn sn else (fn, sn))
         in inclLoop H path (fn' div 2) (sn' div 2) (nodeHash H sibling hash))
      else inclLoop H path (fn div 2) (sn div 2) (nodeHash H hash sibling))"

definition rootFromInclusionProof ::
  "(bytes \<Rightarrow> bytes) \<Rightarrow> bytes \<Rightarrow> int \<Rightarrow> int \<Rightarrow> bytes list \<Rightarrow> bytes res" where
  "rootFromInclusionProof H leafHashValue leafIndex treeSize auditPath =
     (if leafIndex < 0 \<or> leafIndex \<ge> treeSize then Inl RangeError
      else inclLoop H auditPath leafIndex (treeSize - 1) leafHashValue)"

definition verifyInclusion ::
  "(bytes \<Rightarrow> bytes) \<Rightarrow> bytes \<Rightarrow> int \<Rightarrow> int \<Rightarrow> bytes list \<Rightarrow> bytes \<Rightarrow> bool" where
  "verifyInclusion H leafHashValue leafIndex treeSize auditPath expectedRoot =
     (case rootFromInclusionProof H leafHashValue leafIndex treeSize auditPath of
        Inl _ \<Rightarrow> False
      | Inr computed \<Rightarrow> bytesEqual computed expectedRoot)"

partial_function (option) subproof ::
  "(bytes \<Rightarrow> bytes) \<Rightarrow> int \<Rightarrow> bytes list \<Rightarrow> bool \<Rightarrow> bytes list option" where
  "subproof H m hashes b =
     (if m = int (length hashes) then
        (if b then Some [] else do { r \<leftarrow> merkleRoot H hashes; Some [r] })
      else do {
        k \<leftarrow> largestPowerOfTwoBelow (int (length hashes));
        (if m \<le> k then do {
           p \<leftarrow> subproof H m (take (nat k) hashes) b;
           r \<leftarrow> merkleRoot H (drop (nat k) hashes);
           Some (p @ [r])
         } else do {
           p \<leftarrow> subproof H (m - k) (drop (nat k) hashes) False;
           l \<leftarrow> merkleRoot H (take (nat k) hashes);
           Some (p @ [l])
         })
      })"

definition consistencyProof :: "(bytes \<Rightarrow> bytes) \<Rightarrow> bytes list \<Rightarrow> int \<Rightarrow> bytes list res option" where
  "consistencyProof H leafHashes m =
     (let n = int (length leafHashes) in
      if m < 0 \<or> m > n then Some (Inl RangeError)
      else if m = 0 \<or> m = n then Some (Inr [])
      else map_option Inr (subproof H m leafHashes True))"

declare lpo2_loop.simps [code] merkleRoot.simps [code] inclusionProof.simps [code] subproof.simps [code]

definition isPowerOfTwo :: "int \<Rightarrow> bool" where
  "isPowerOfTwo x = (x > 0 \<and> toInt32 x AND toInt32 (x - 1) = 0)"

function stripOnes :: "int \<Rightarrow> int \<Rightarrow> int \<times> int" where
  "stripOnes fn sn = (if js_rem fn 2 = 1 then stripOnes (fn div 2) (sn div 2) else (fn, sn))"
  by pat_completeness auto
termination
proof (relation "measure (\<lambda>(fn, sn). nat fn)")
  fix fn sn :: int
  assume "js_rem fn 2 = 1"
  then have "0 \<le> fn" "fn mod 2 = 1" by (auto simp: js_rem_def split: if_splits)
  then have "0 < fn" "fn div 2 < fn" by presburger+
  then show "((fn div 2, sn div 2), fn, sn) \<in> measure (\<lambda>(fn, sn). nat fn)" by simp
qed simp

declare stripOnes.simps [simp del]

text \<open>The loop \<^verbatim>\<open>while (sn > 0)\<close> and the test \<^verbatim>\<open>pos === path.length\<close> after it; \<open>None\<close> is \<^verbatim>\<open>false\<close>.\<close>

fun consLoop :: "(bytes \<Rightarrow> bytes) \<Rightarrow> bytes list \<Rightarrow> int \<Rightarrow> int \<Rightarrow> bytes \<Rightarrow> bytes \<Rightarrow> (bytes \<times> bytes) option" where
  "consLoop H [] fn sn fr sr = (if sn > 0 then None else Some (fr, sr))"
| "consLoop H (c # path) fn sn fr sr =
     (if sn > 0 then
        (if js_rem fn 2 = 1 \<or> fn = sn then
           (let (fn', sn') = ascend fn sn
            in consLoop H path (fn' div 2) (sn' div 2) (nodeHash H c fr) (nodeHash H c sr))
         else consLoop H path (fn div 2) (sn div 2) fr (nodeHash H sr c))
      else None)"

definition verifyConsistency ::
  "(bytes \<Rightarrow> bytes) \<Rightarrow> int \<Rightarrow> int \<Rightarrow> bytes \<Rightarrow> bytes \<Rightarrow> bytes list \<Rightarrow> bool" where
  "verifyConsistency H m n firstRoot secondRoot proof_path =
     (if m = 0 then True
      else if m = n then length proof_path = 0 \<and> bytesEqual firstRoot secondRoot
      else if m > n then False
      else (let path = (if isPowerOfTwo m then firstRoot # proof_path else proof_path) in
        case path of
          [] \<Rightarrow> False
        | p0 # rest \<Rightarrow>
            (let (fn, sn) = stripOnes (m - 1) (n - 1) in
             case consLoop H rest fn sn p0 p0 of
               None \<Rightarrow> False
             | Some (fr, sr) \<Rightarrow> bytesEqual fr firstRoot \<and> bytesEqual sr secondRoot)))"

section \<open>The tree hash of RFC 6962\<close>

text \<open>The split point: the largest power of two below \<open>n\<close> (for \<open>n > 1\<close>).\<close>

fun lp2 :: "nat \<Rightarrow> nat" where
  "lp2 n = (if n \<le> 2 then 1 else 2 * lp2 ((n + 1) div 2))"

declare lp2.simps [simp del]

lemma lp2_pow: "\<exists>j. lp2 n = 2 ^ j"
proof (induction n rule: lp2.induct)
  case (1 n)
  show ?case
  proof (cases "n \<le> 2")
    case True
    then have "lp2 n = 2 ^ 0" by (simp add: lp2.simps)
    then show ?thesis ..
  next
    case False
    with 1 obtain j where "lp2 ((n + 1) div 2) = 2 ^ j" by blast
    with False have "lp2 n = 2 ^ Suc j" by (simp add: lp2.simps [of n])
    then show ?thesis ..
  qed
qed

lemma lp2_bounds: "1 < n \<Longrightarrow> lp2 n < n \<and> n \<le> 2 * lp2 n"
proof (induction n rule: lp2.induct)
  case (1 n)
  show ?case
  proof (cases "n \<le> 2")
    case True
    with 1 show ?thesis by (simp add: lp2.simps)
  next
    case False
    with 1 have "lp2 ((n + 1) div 2) < (n + 1) div 2 \<and> (n + 1) div 2 \<le> 2 * lp2 ((n + 1) div 2)"
      by simp
    then have "2 * lp2 ((n + 1) div 2) < n" "n \<le> 4 * lp2 ((n + 1) div 2)" by arith+
    with False show ?thesis by (simp add: lp2.simps [of n])
  qed
qed

lemma lp2_pos [simp]: "0 < lp2 n"
  using lp2_pow [of n] by auto

lemma lp2_neq_0 [simp]: "lp2 n \<noteq> 0"
  using lp2_pos [of n] by simp

lemma lp2_less: "1 < n \<Longrightarrow> lp2 n < n"
  using lp2_bounds by blast

lemma diff_lp2_less: "0 < n \<Longrightarrow> n - lp2 n < n"
  by (simp add: diff_less)

text \<open>The two bounds determine the split point.\<close>

lemma pow2_unique:
  assumes "2 ^ i < (n :: nat)" "n \<le> 2 * 2 ^ i" "2 ^ j < n" "n \<le> 2 * 2 ^ j"
  shows "i = (j :: nat)"
proof (rule ccontr)
  assume "i \<noteq> j"
  then have "Suc i \<le> j \<or> Suc j \<le> i" by linarith
  then have "(2 :: nat) ^ Suc i \<le> 2 ^ j \<or> (2 :: nat) ^ Suc j \<le> 2 ^ i"
    by (metis one_le_numeral power_increasing)
  with assms show False by auto
qed

lemma lp2_eqI: "2 ^ j < n \<Longrightarrow> n \<le> 2 * 2 ^ j \<Longrightarrow> lp2 n = 2 ^ j"
proof -
  assume a: "2 ^ j < n" "n \<le> 2 * 2 ^ j"
  obtain i where i: "lp2 n = 2 ^ i" using lp2_pow by blast
  have "1 \<le> (2 :: nat) ^ j" by simp
  with a(1) have "1 < n" by linarith
  from lp2_bounds [OF this] have "2 ^ i < n" "n \<le> 2 * 2 ^ i" by (simp_all add: i)
  with a have "i = j" using pow2_unique by blast
  with i show ?thesis by simp
qed

text \<open>\<open>MTH\<close> of a non-empty list, over any node combiner.\<close>

function mth :: "('a \<Rightarrow> 'a \<Rightarrow> 'a) \<Rightarrow> 'a list \<Rightarrow> 'a" where
  "mth f xs = (if length xs \<le> 1 then hd xs
     else f (mth f (take (lp2 (length xs)) xs)) (mth f (drop (lp2 (length xs)) xs)))"
  by pat_completeness auto
termination
  by (relation "measure (length \<circ> snd)") (auto simp: lp2_less intro!: diff_lp2_less)

declare mth.simps [simp del]

lemma mth_single [simp]: "mth f [x] = x"
  by (simp add: mth.simps)

lemma mth_split:
  "1 < length xs \<Longrightarrow> mth f xs =
     f (mth f (take (lp2 (length xs)) xs)) (mth f (drop (lp2 (length xs)) xs))"
  by (subst mth.simps) simp

definition MTH :: "(bytes \<Rightarrow> bytes) \<Rightarrow> bytes list \<Rightarrow> bytes" where
  "MTH H hs = (if hs = [] then H [] else mth (nodeHash H) hs)"

text \<open>\<open>PATH(m, D[n])\<close> and \<open>SUBPROOF(m, D[n], b)\<close>.\<close>

function ipath :: "('a \<Rightarrow> 'a \<Rightarrow> 'a) \<Rightarrow> nat \<Rightarrow> 'a list \<Rightarrow> 'a list" where
  "ipath f m xs = (if length xs \<le> 1 then []
     else let k = lp2 (length xs) in
       if m < k then ipath f m (take k xs) @ [mth f (drop k xs)]
       else ipath f (m - k) (drop k xs) @ [mth f (take k xs)])"
  by pat_completeness auto
termination
  by (relation "measure (\<lambda>(f, m, xs). length xs)") (auto simp: lp2_less intro!: diff_lp2_less)

declare ipath.simps [simp del]

function spath :: "('a \<Rightarrow> 'a \<Rightarrow> 'a) \<Rightarrow> nat \<Rightarrow> 'a list \<Rightarrow> bool \<Rightarrow> 'a list" where
  "spath f m xs b = (if m \<ge> length xs \<or> length xs \<le> 1 then (if b then [] else [mth f xs])
     else let k = lp2 (length xs) in
       if m \<le> k then spath f m (take k xs) b @ [mth f (drop k xs)]
       else spath f (m - k) (drop k xs) False @ [mth f (take k xs)])"
  by pat_completeness auto
termination
  by (relation "measure (\<lambda>(f, m, xs, b). length xs)") (auto simp: lp2_less intro!: diff_lp2_less)

declare spath.simps [simp del]


section \<open>Climbing a path\<close>

text \<open>
  Both verifiers walk a path with the same control state: \<open>fn\<close>, the index of the current node on
  its level, and \<open>sn\<close>, the index of the last one.  \<open>climb\<close> is that walk over any accumulator:
  \<open>L\<close> is applied where the sibling is on the left, \<open>R\<close> where it is on the right.
\<close>

function asc :: "nat \<Rightarrow> nat \<Rightarrow> nat \<times> nat" where
  "asc fn sn = (if even fn \<and> fn \<noteq> 0 then asc (fn div 2) (sn div 2) else (fn, sn))"
  by pat_completeness auto
termination
  by (relation "measure fst") auto

declare asc.simps [simp del]

fun climb :: "('h \<Rightarrow> 'a \<Rightarrow> 'a) \<Rightarrow> ('h \<Rightarrow> 'a \<Rightarrow> 'a) \<Rightarrow> 'h list \<Rightarrow> nat \<Rightarrow> nat \<Rightarrow> 'a
    \<Rightarrow> (nat \<times> nat \<times> 'a) option" where
  "climb L R [] fn sn a = Some (fn, sn, a)"
| "climb L R (s # p) fn sn a =
     (if sn = 0 then None
      else if odd fn \<or> fn = sn then
        (let (f, t) = asc fn sn in climb L R p (f div 2) (t div 2) (L s a))
      else climb L R p (fn div 2) (sn div 2) (R s a))"

lemma climb_append:
  "climb L R (p @ q) fn sn a =
     (case climb L R p fn sn a of None \<Rightarrow> None | Some (f, t, y) \<Rightarrow> climb L R q f t y)"
  by (induction p arbitrary: fn sn a) (auto simp: Let_def split: prod.splits)

lemma asc_odd [simp]: "odd fn \<Longrightarrow> asc fn sn = (fn, sn)"
  by (simp add: asc.simps)

text \<open>The control state does not depend on the accumulator, only on the length of the path.\<close>

lemma climb_control:
  "length p = length q \<Longrightarrow> climb L R p fn sn a = Some (f, t, y) \<Longrightarrow>
     \<exists>y'. climb L R q fn sn b = Some (f, t, y')"
proof (induction p q arbitrary: fn sn a b rule: list_induct2)
  case (Cons s p s' q)
  then show ?case by (auto simp: Let_def split: if_splits prod.splits)
qed simp

subsection \<open>Inside a complete left subtree\<close>

lemma climb_left:
  assumes "climb L R p a (2 ^ i - 1) x = Some (f, s, y)" "a < 2 ^ i" "2 ^ i \<le> S"
  shows "length p \<le> i \<and> s = 2 ^ (i - length p) - 1
       \<and> climb L R p a S x = Some (f, S div 2 ^ length p, y)"
  using assms
proof (induction p arbitrary: a i S x)
  case (Cons c p)
  then obtain k where i: "i = Suc k" by (cases i) auto
  have half: "(2 ^ Suc k - 1) div 2 = (2 ^ k - 1 :: nat)" by auto
  have odd_last: "odd (2 ^ Suc k - 1 :: nat)" by simp
  have less: "a div 2 < 2 ^ k" "2 ^ k \<le> S div 2" using Cons.prems(2,3) i by auto
  have ne: "a \<noteq> S" "S \<noteq> 0" using Cons.prems(2,3) by auto
  define op where "op = (if odd a then L else R)"
  have sub: "climb L R (c # p) a (2 ^ i - 1) x = climb L R p (a div 2) (2 ^ k - 1) (op c x)"
    using odd_last half Cons.prems(1) by (cases "odd a") (auto simp: i op_def split: if_splits)
  have act: "climb L R (c # p) a S x = climb L R p (a div 2) (S div 2) (op c x)"
    using ne by (auto simp: op_def)
  have "length p \<le> k \<and> s = 2 ^ (k - length p) - 1
      \<and> climb L R p (a div 2) (S div 2) (op c x) = Some (f, S div 2 div 2 ^ length p, y)"
    using Cons.IH [of "a div 2" k "op c x" "S div 2"] Cons.prems(1) sub less by simp
  then show ?case by (simp add: i act div_mult2_eq del: climb.simps)
qed auto

subsection \<open>Inside the right subtree\<close>

lemma asc_right:
  assumes "a \<le> b" "b < 2 ^ i" "a \<noteq> 0" "asc a b = (f, t)"
  shows "\<exists>j \<le> i. f \<le> t \<and> t < 2 ^ j \<and> odd f \<and> asc (2 ^ i + a) (2 ^ i + b) = (2 ^ j + f, 2 ^ j + t)"
  using assms
proof (induction a b arbitrary: i rule: asc.induct)
  case (1 a b)
  from 1(2-4) obtain k where i: "i = Suc k" by (cases i) auto
  show ?case
  proof (cases "even a")
    case True
    with 1(4) have "2 \<le> a" by presburger
    with True have nz: "a div 2 \<noteq> 0" by auto
    from True 1(4,5) have "asc (a div 2) (b div 2) = (f, t)" by (simp add: asc.simps [of a b])
    moreover have "a div 2 \<le> b div 2" "b div 2 < 2 ^ k" using 1(2,3) i by (auto simp: div_le_mono)
    ultimately obtain j where j: "j \<le> k" "f \<le> t" "t < 2 ^ j" "odd f"
        "asc (2 ^ k + a div 2) (2 ^ k + b div 2) = (2 ^ j + f, 2 ^ j + t)"
      using 1(1) [of k] True 1(4) nz by blast
    have "asc (2 ^ i + a) (2 ^ i + b) = asc ((2 ^ i + a) div 2) ((2 ^ i + b) div 2)"
      using True i by (subst asc.simps) simp
    moreover have "(2 ^ i + a) div 2 = 2 ^ k + a div 2" "(2 ^ i + b) div 2 = 2 ^ k + b div 2"
      using i by auto
    ultimately show ?thesis using j i by (intro exI [of _ j]) auto
  next
    case False
    with 1(5) have "f = a" "t = b" by simp_all
    moreover have "odd (2 ^ i + a)" using False i by simp
    ultimately show ?thesis using 1(2,3) False by (intro exI [of _ i]) auto
  qed
qed

lemma half_right: "odd f \<Longrightarrow> f \<le> t \<Longrightarrow> t < 2 ^ j \<Longrightarrow>
    \<exists>k. j = Suc k \<and> (2 ^ j + f) div 2 = 2 ^ k + f div 2 \<and> (2 ^ j + t) div 2 = 2 ^ k + t div 2
      \<and> f div 2 \<le> t div 2 \<and> t div 2 < (2 ^ k :: nat)"
  by (cases j) (auto simp: div_le_mono)

lemma climb_right:
  assumes "climb L R p a b x = Some (a', b', y)" "a \<le> b" "b < 2 ^ i"
  shows "\<exists>j \<le> i. a' \<le> b' \<and> b' < 2 ^ j
       \<and> climb L R p (2 ^ i + a) (2 ^ i + b) x = Some (2 ^ j + a', 2 ^ j + b', y)"
  using assms
proof (induction p arbitrary: a b i x)
  case Nil
  then show ?case by auto
next
  case (Cons c p)
  from Cons.prems(1) have b: "b \<noteq> 0" by (auto split: if_splits)
  with Cons.prems(3) obtain k where i: "i = Suc k" by (cases i) auto
  show ?case
  proof (cases "odd a \<or> a = b")
    case True
    then have nz: "a \<noteq> 0" using b by (auto elim: oddE)
    obtain f t where ft: "asc a b = (f, t)" by fastforce
    from asc_right [OF Cons.prems(2,3) nz ft] obtain j where j: "j \<le> i" "f \<le> t" "t < 2 ^ j" "odd f"
      "asc (2 ^ i + a) (2 ^ i + b) = (2 ^ j + f, 2 ^ j + t)" by blast
    from half_right [OF j(4,2,3)] obtain l where l: "j = Suc l" "(2 ^ j + f) div 2 = 2 ^ l + f div 2"
      "(2 ^ j + t) div 2 = 2 ^ l + t div 2" "f div 2 \<le> t div 2" "t div 2 < 2 ^ l" by blast
    have "climb L R p (f div 2) (t div 2) (L c x) = Some (a', b', y)"
      using Cons.prems(1) True ft b by simp
    from Cons.IH [OF this l(4,5)] obtain j' where j': "j' \<le> l" "a' \<le> b'" "b' < 2 ^ j'"
      "climb L R p (2 ^ l + f div 2) (2 ^ l + t div 2) (L c x) = Some (2 ^ j' + a', 2 ^ j' + b', y)"
      by blast
    have "odd (2 ^ i + a) \<or> 2 ^ i + a = 2 ^ i + b" using True i by auto
    then have "climb L R (c # p) (2 ^ i + a) (2 ^ i + b) x = Some (2 ^ j' + a', 2 ^ j' + b', y)"
      using j(5) l(2,3) j'(4) b by simp
    then show ?thesis using j' j(1) l(1) by (intro exI [of _ j']) auto
  next
    case False
    have h: "a div 2 \<le> b div 2" "b div 2 < 2 ^ k" "(2 ^ i + a) div 2 = 2 ^ k + a div 2"
      "(2 ^ i + b) div 2 = 2 ^ k + b div 2"
      using Cons.prems(2,3) i by (auto simp: div_le_mono)
    have "climb L R p (a div 2) (b div 2) (R c x) = Some (a', b', y)"
      using Cons.prems(1) False b by simp
    from Cons.IH [OF this h(1,2)] obtain j' where j': "j' \<le> k" "a' \<le> b'" "b' < 2 ^ j'"
      "climb L R p (2 ^ k + a div 2) (2 ^ k + b div 2) (R c x) = Some (2 ^ j' + a', 2 ^ j' + b', y)"
      by blast
    have "\<not> (odd (2 ^ i + a) \<or> 2 ^ i + a = 2 ^ i + b)" using False i by auto
    then have "climb L R (c # p) (2 ^ i + a) (2 ^ i + b) x = Some (2 ^ j' + a', 2 ^ j' + b', y)"
      using h(3,4) j'(4) b by simp
    then show ?thesis using j' i by (intro exI [of _ j']) auto
  qed
qed

text \<open>The last step, from the right subtree's root to the root.\<close>

lemma asc_pow2: "asc (2 ^ j) (2 ^ j) = (1, 1)"
  by (induction j) (simp_all add: asc.simps)

lemma climb_last_right: "climb L R [s] (2 ^ j) (2 ^ j) x = Some (0, 0, L s x)"
  by (simp add: asc_pow2)

lemma climb_last_left: "climb L R [s] 0 1 x = Some (0, 0, R s x)"
  by simp

subsection \<open>Inclusion paths: the walk is the recursion over the tree\<close>

function ilen :: "nat \<Rightarrow> nat \<Rightarrow> nat" where
  "ilen m n = (if n \<le> 1 then 0
     else Suc (if m < lp2 n then ilen m (lp2 n) else ilen (m - lp2 n) (n - lp2 n)))"
  by pat_completeness auto
termination
  by (relation "measure snd") (auto simp: lp2_less intro!: diff_lp2_less)

declare ilen.simps [simp del]

function ifold :: "('h \<Rightarrow> 'a \<Rightarrow> 'a) \<Rightarrow> ('h \<Rightarrow> 'a \<Rightarrow> 'a) \<Rightarrow> nat \<Rightarrow> nat \<Rightarrow> 'a \<Rightarrow> 'h list \<Rightarrow> 'a" where
  "ifold L R m n a p = (if n \<le> 1 then a
     else if m < lp2 n then R (last p) (ifold L R m (lp2 n) a (butlast p))
     else L (last p) (ifold L R (m - lp2 n) (n - lp2 n) a (butlast p)))"
  by pat_completeness auto
termination
  by (relation "measure (\<lambda>(L, R, m, n, a, p). n)") (auto simp: lp2_less intro!: diff_lp2_less)

declare ifold.simps [simp del]

lemma pow2_minus_1_eq_0: "2 ^ d - 1 = (0 :: nat) \<longleftrightarrow> d = 0"
proof (cases d)
  case (Suc e)
  have "1 \<le> (2 :: nat) ^ e" by simp
  then have "(2 :: nat) ^ d - 1 \<noteq> 0" unfolding Suc power_Suc by linarith
  with Suc show ?thesis by simp
qed simp

lemma snoc_cases: "length p = Suc n \<Longrightarrow> \<exists>q s. p = q @ [s] \<and> length q = n"
  by (cases p rule: rev_cases) auto

text \<open>The split of \<open>n\<close> in the form the walk needs it.\<close>

lemma lp2_split:
  assumes "1 < n"
  obtains j where "lp2 n = 2 ^ j" "2 ^ j \<le> n - 1" "(n - 1) div 2 ^ j = 1" "n - 1 - 2 ^ j < 2 ^ j"
    "n - 1 = 2 ^ j + (n - 2 ^ j - 1)" "0 < n - 2 ^ j"
proof -
  obtain j where j: "lp2 n = 2 ^ j" using lp2_pow by blast
  with lp2_bounds [OF assms] have b: "2 ^ j < n" "n \<le> 2 * 2 ^ j" by simp_all
  have "(n - 1) div 2 ^ j = 1"
    using b by (intro div_nat_eqI) auto
  with j b show ?thesis by (intro that [of j]) auto
qed

lemma climb_ifold:
  "m < n \<Longrightarrow> length p = ilen m n \<Longrightarrow> climb L R p m (n - 1) a = Some (0, 0, ifold L R m n a p)"
proof (induction m n arbitrary: p a rule: ilen.induct)
  case (1 m n)
  show ?case
  proof (cases "n \<le> 1")
    case True
    with 1(3,4) show ?thesis by (simp add: ilen.simps ifold.simps)
  next
    case False
    then obtain j where j: "lp2 n = 2 ^ j" "2 ^ j \<le> n - 1" "(n - 1) div 2 ^ j = 1"
      "n - 1 - 2 ^ j < 2 ^ j" "n - 1 = 2 ^ j + (n - 2 ^ j - 1)" "0 < n - 2 ^ j"
      using lp2_split [of n] by auto
    obtain q s where p: "p = q @ [s]" and
      len: "length q = (if m < lp2 n then ilen m (lp2 n) else ilen (m - lp2 n) (n - lp2 n))"
      using 1(4) False snoc_cases by (subst (asm) ilen.simps) fastforce
    show ?thesis
    proof (cases "m < lp2 n")
      case True
      let ?y = "ifold L R m (lp2 n) a q"
      have "climb L R q m (2 ^ j - 1) a = Some (0, 0, ?y)"
        using 1(1) [OF False True, of q a] True len j(1) by simp
      from climb_left [OF this _ j(2)] True j(1) have
        "length q \<le> j" "0 = 2 ^ (j - length q) - (1 :: nat)"
        "climb L R q m (n - 1) a = Some (0, (n - 1) div 2 ^ length q, ?y)" by auto
      moreover from this have "length q = j" using pow2_minus_1_eq_0 [of "j - length q"] by simp
      ultimately show ?thesis using j(3) True False
        by (simp add: p climb_append ifold.simps [of L R m n])
    next
      case F: False
      let ?y = "ifold L R (m - lp2 n) (n - lp2 n) a q"
      have "climb L R q (m - 2 ^ j) (n - 2 ^ j - 1) a = Some (0, 0, ?y)"
        using 1(2) [OF False F, of q a] F len j(1,6) 1(3) by simp
      moreover have "m - 2 ^ j \<le> n - 2 ^ j - 1" using 1(3) F j(1) by simp
      ultimately obtain i where
        "climb L R q (2 ^ j + (m - 2 ^ j)) (2 ^ j + (n - 2 ^ j - 1)) a = Some (2 ^ i, 2 ^ i, ?y)"
        using climb_right [of L R q "m - 2 ^ j" "n - 2 ^ j - 1" a 0 0 ?y j] j(4) by auto
      moreover have "2 ^ j + (m - 2 ^ j) = m" using F j(1) by simp
      ultimately have "climb L R q m (n - 1) a = Some (2 ^ i, 2 ^ i, ?y)" using j(5) by simp
      then show ?thesis using F False climb_last_right [of L R s i ?y]
        by (simp add: p climb_append ifold.simps [of L R m n] del: climb.simps)
    qed
  qed
qed

text \<open>A path of another length never ends at the root.\<close>

lemma climb_exact:
  fixes p :: "'h list"
  assumes full: "\<And>r. length r = N \<Longrightarrow> climb L R r f0 s0 a = Some (0, 0, g r)"
    and run: "climb L R p f0 s0 a = Some (f, 0, y)"
  shows "length p = N \<and> y = g p"
proof -
  have "length p = N"
  proof (rule ccontr)
    assume "length p \<noteq> N"
    then consider "length p < N" | "N < length p" by linarith
    then show False
    proof cases
      case 1
      define r where "r = replicate (N - length p) (undefined :: 'h)"
      with 1 have "r \<noteq> []" by simp
      then obtain c r' where r: "r = c # r'" by (cases r) auto
      have "length (p @ r) = N" using 1 by (simp add: r_def)
      from full [OF this] run r show False by (simp add: climb_append)
    next
      case 2
      define q where "q = take N p"
      obtain c r where r: "drop N p = c # r" using 2 by (cases "drop N p") auto
      have "p = q @ c # r" using r by (metis append_take_drop_id q_def)
      moreover have "length q = N" using 2 by (simp add: q_def)
      ultimately show False using full [of q] run by (simp add: climb_append)
    qed
  qed
  with full [of p] run show ?thesis by simp
qed

lemma climb_ifold_exact:
  "m < n \<Longrightarrow> climb L R p m (n - 1) a = Some (f, 0, y) \<Longrightarrow> length p = ilen m n \<and> y = ifold L R m n a p"
  by (rule climb_exact [OF climb_ifold])

subsection \<open>Consistency paths\<close>

function strip :: "nat \<Rightarrow> nat \<Rightarrow> nat \<times> nat" where
  "strip fn sn = (if odd fn then strip (fn div 2) (sn div 2) else (fn, sn))"
  by pat_completeness auto
termination
  by (relation "measure fst") (auto elim: oddE)

declare strip.simps [simp del]

lemma strip_even [simp]: "even fn \<Longrightarrow> strip fn sn = (fn, sn)"
  by (simp add: strip.simps)

lemma strip_left:
  assumes "a < 2 ^ i - 1" "2 ^ i \<le> S" "strip a (2 ^ i - 1) = (f, s)"
  shows "\<exists>j \<le> i. s = 2 ^ j - 1 \<and> f < 2 ^ j \<and> strip a S = (f, S div 2 ^ (i - j)) \<and> 2 ^ j \<le> S div 2 ^ (i - j)"
  using assms
proof (induction a S arbitrary: i rule: strip.induct)
  case (1 a S)
  show ?case
  proof (cases "odd a")
    case True
    with 1(2) obtain k where i: "i = Suc k" by (cases i) auto
    have half: "(2 ^ i - 1) div 2 = (2 ^ k - 1 :: nat)" using i by auto
    have "strip (a div 2) (2 ^ k - 1) = (f, s)"
      using 1(4) True half by (simp add: strip.simps [of a])
    moreover have "a div 2 < 2 ^ k - 1"
    proof -
      obtain b where b: "a = 2 * b + 1" using True by (elim oddE)
      with 1(2) i have "2 * b + 1 < 2 * 2 ^ k - 1" by simp
      then show ?thesis using b by simp
    qed
    moreover have "2 ^ k \<le> S div 2" using 1(3) i by auto
    ultimately obtain j where j: "j \<le> k" "s = 2 ^ j - 1" "f < 2 ^ j"
      "strip (a div 2) (S div 2) = (f, S div 2 div 2 ^ (k - j))" "2 ^ j \<le> S div 2 div 2 ^ (k - j)"
      using 1(1) [OF True, of k] by blast
    have "S div 2 ^ (i - j) = S div 2 div 2 ^ (k - j)"
      using j(1) by (simp add: i Suc_diff_le div_mult2_eq)
    then show ?thesis using j i True by (intro exI [of _ j]) (auto simp: strip.simps [of a])
  next
    case False
    then show ?thesis using 1(2-4) by (intro exI [of _ i]) auto
  qed
qed

lemma strip_right:
  assumes "a < b" "b < 2 ^ i" "strip a b = (f, s)"
  shows "\<exists>j \<le> i. f \<le> s \<and> s < 2 ^ j \<and> strip (2 ^ i + a) (2 ^ i + b) = (2 ^ j + f, 2 ^ j + s)"
  using assms
proof (induction a b arbitrary: i rule: strip.induct)
  case (1 a b)
  from 1(2,3) obtain k where i: "i = Suc k" by (cases i) auto
  show ?case
  proof (cases "odd a")
    case True
    then have "strip (a div 2) (b div 2) = (f, s)" using 1(4) by (simp add: strip.simps [of a])
    moreover have "a div 2 < b div 2" using True 1(2) by presburger
    moreover have "b div 2 < 2 ^ k" using 1(3) i by auto
    ultimately obtain j where j: "j \<le> k" "f \<le> s" "s < 2 ^ j"
      "strip (2 ^ k + a div 2) (2 ^ k + b div 2) = (2 ^ j + f, 2 ^ j + s)"
      using 1(1) [OF True, of k] by blast
    have "(2 ^ i + a) div 2 = 2 ^ k + a div 2" "(2 ^ i + b) div 2 = 2 ^ k + b div 2" "odd (2 ^ i + a)"
      using i True by auto
    then have "strip (2 ^ i + a) (2 ^ i + b) = (2 ^ j + f, 2 ^ j + s)"
      using j(4) by (subst strip.simps) simp
    then show ?thesis using j i by (intro exI [of _ j]) auto
  next
    case False
    then show ?thesis using 1(2-4) i by (intro exI [of _ i]) auto
  qed
qed

lemma strip_ones: "strip (2 ^ j - 1) S = (0, S div 2 ^ j)"
proof (induction j arbitrary: S)
  case (Suc j)
  have "(2 ^ Suc j - 1) div 2 = (2 ^ j - 1 :: nat)" by auto
  moreover have "odd (2 ^ Suc j - 1 :: nat)" by simp
  ultimately show ?case using Suc.IH [of "S div 2"]
    by (subst strip.simps) (simp add: div_mult2_eq)
qed simp

function clen :: "nat \<Rightarrow> nat \<Rightarrow> nat" where
  "clen m n = (if n \<le> m \<or> n \<le> 1 then 0
     else Suc (if m \<le> lp2 n then clen m (lp2 n) else clen (m - lp2 n) (n - lp2 n)))"
  by pat_completeness auto
termination
  by (relation "measure snd") (auto simp: lp2_less intro!: diff_lp2_less)

declare clen.simps [simp del]

lemma clen_Suc:
  "\<not> (n \<le> m \<or> n \<le> 1) \<Longrightarrow>
     clen m n = Suc (if m \<le> lp2 n then clen m (lp2 n) else clen (m - lp2 n) (n - lp2 n))"
  by (subst clen.simps) simp

function cfold :: "('h \<Rightarrow> 'a \<Rightarrow> 'a) \<Rightarrow> ('h \<Rightarrow> 'a \<Rightarrow> 'a) \<Rightarrow> nat \<Rightarrow> nat \<Rightarrow> 'a \<Rightarrow> 'h list \<Rightarrow> 'a" where
  "cfold L R m n a p = (if n \<le> m \<or> n \<le> 1 then a
     else if m \<le> lp2 n then R (last p) (cfold L R m (lp2 n) a (butlast p))
     else L (last p) (cfold L R (m - lp2 n) (n - lp2 n) a (butlast p)))"
  by pat_completeness auto
termination
  by (relation "measure (\<lambda>(L, R, m, n, a, p). n)") (auto simp: lp2_less intro!: diff_lp2_less)

declare cfold.simps [simp del]

lemma climb_cfold:
  "0 < m \<Longrightarrow> m < n \<Longrightarrow> length p = clen m n \<Longrightarrow>
     (case strip (m - 1) (n - 1) of (f, s) \<Rightarrow> climb L R p f s a) = Some (0, 0, cfold L R m n a p)"
proof (induction m n arbitrary: p a rule: clen.induct)
  case (1 m n)
  then have n1: "1 < n" and nm: "\<not> (n \<le> m \<or> n \<le> 1)" by linarith+
  then obtain j where j: "lp2 n = 2 ^ j" "2 ^ j \<le> n - 1" "(n - 1) div 2 ^ j = 1"
    "n - 1 - 2 ^ j < 2 ^ j" "n - 1 = 2 ^ j + (n - 2 ^ j - 1)" "0 < n - 2 ^ j"
    using lp2_split [of n] by auto
  obtain q s where p: "p = q @ [s]" and
    len: "length q = (if m \<le> lp2 n then clen m (lp2 n) else clen (m - lp2 n) (n - lp2 n))"
    using 1(5) snoc_cases [of p] clen_Suc [OF nm] by metis
  consider "m = 2 ^ j" | "m < 2 ^ j" | "2 ^ j < m" by linarith
  then show ?case
  proof cases
    case 1
    then have "q = []" using len j(1) by (simp add: clen.simps)
    then show ?thesis using 1 j strip_ones [of j "n - 1"] nm
      by (simp add: p cfold.simps [of L R "2 ^ j" n] cfold.simps [of L R "2 ^ j" "2 ^ j"])
  next
    case 2
    let ?y = "cfold L R m (lp2 n) a q"
    obtain f t where ft: "strip (m - 1) (2 ^ j - 1) = (f, t)" by fastforce
    have IH: "climb L R q f t a = Some (0, 0, ?y)"
      using 1(1) [OF nm, of q a] 1(3) 2 len j(1) ft by simp
    have "m - 1 < 2 ^ j - 1" using 2 1(3) by linarith
    from strip_left [OF this j(2) ft] obtain i where i: "i \<le> j" "t = 2 ^ i - 1" "f < 2 ^ i"
      "strip (m - 1) (n - 1) = (f, (n - 1) div 2 ^ (j - i))" "2 ^ i \<le> (n - 1) div 2 ^ (j - i)"
      by blast
    from climb_left [OF IH [unfolded i(2)] i(3) i(5)] have
      "length q \<le> i" "0 = 2 ^ (i - length q) - (1 :: nat)" and
      c: "climb L R q f ((n - 1) div 2 ^ (j - i)) a = Some (0, (n - 1) div 2 ^ (j - i) div 2 ^ length q, ?y)"
      by auto
    then have "length q = i" using pow2_minus_1_eq_0 [of "i - length q"] by simp
    moreover have "(n - 1) div 2 ^ (j - i) div 2 ^ i = 1"
      using i(1) j(3) by (simp add: div_mult2_eq [symmetric] power_add [symmetric])
    ultimately have "climb L R q f ((n - 1) div 2 ^ (j - i)) a = Some (0, 1, ?y)" using c by simp
    then show ?thesis using i(4) 2 j(1) nm
      by (simp add: p climb_append cfold.simps [of L R m n])
  next
    case 3
    let ?y = "cfold L R (m - lp2 n) (n - lp2 n) a q"
    obtain f t where ft: "strip (m - 2 ^ j - 1) (n - 2 ^ j - 1) = (f, t)" by fastforce
    have IH: "climb L R q f t a = Some (0, 0, ?y)"
      using 1(2) [OF nm, of q a] 1(4) 3 len j(1) ft by simp
    have "m - 2 ^ j - 1 < n - 2 ^ j - 1" "n - 2 ^ j - 1 < 2 ^ j" using 3 1(4) j by linarith+
    from strip_right [OF this ft] obtain i where i: "i \<le> j" "f \<le> t" "t < 2 ^ i"
      "strip (2 ^ j + (m - 2 ^ j - 1)) (2 ^ j + (n - 2 ^ j - 1)) = (2 ^ i + f, 2 ^ i + t)" by blast
    moreover have "2 ^ j + (m - 2 ^ j - 1) = m - 1" using 3 by simp
    ultimately have s: "strip (m - 1) (n - 1) = (2 ^ i + f, 2 ^ i + t)" using j(5) by simp
    from climb_right [OF IH i(2,3)] obtain l where
      "climb L R q (2 ^ i + f) (2 ^ i + t) a = Some (2 ^ l, 2 ^ l, ?y)" by auto
    then show ?thesis using s 3 j(1) nm climb_last_right [of L R s l ?y]
      by (simp add: p climb_append cfold.simps [of L R m n] del: climb.simps)
  qed
qed

lemma climb_cfold_exact:
  fixes p :: "'h list"
  assumes "0 < m" "m < n" "strip (m - 1) (n - 1) = (f0, s0)" "climb L R p f0 s0 a = Some (f, 0, y)"
  shows "length p = clen m n \<and> y = cfold L R m n a p"
proof (rule climb_exact [OF _ assms(4)])
  fix r :: "'h list"
  assume "length r = clen m n"
  then show "climb L R r f0 s0 a = Some (0, 0, cfold L R m n a r)"
    using climb_cfold [OF assms(1,2), of r L R a] assms(3) by simp
qed


end
