(* ===== verification/Sign.thy ===== *)
theory Sign
  imports Codec
begin

text \<open>
  \<^verbatim>\<open>src/src/types.ts\<close>, \<^verbatim>\<open>sign.ts\<close>, \<^verbatim>\<open>keys.ts\<close>, \<^verbatim>\<open>record.ts\<close> and \<^verbatim>\<open>canonical.ts\<close>: the shared wire types,
  the hybrid ML-DSA-65 + Ed25519 signature and the bytes a signed tree head signs.

  The cryptographic packages and the CBOR encoder are not part of the repository; they are
  fields of the record \<open>env\<close>, which every definition that uses them takes as its argument \<open>P\<close>.
  So are the platform services whose results depend on the host: \<^verbatim>\<open>Date.parse\<close> and
  \<^verbatim>\<open>toISOString\<close> (which accept implementation-defined formats), Unicode NFC normalization,
  \<^verbatim>\<open>localeCompare\<close>, \<^verbatim>\<open>TextDecoder\<close>, \<^verbatim>\<open>JSON.parse\<close> (\<open>None\<close>: it throws), \<^verbatim>\<open>String(v)\<close> of a value that is not a string, and the regular expression engine
  (\<open>None\<close> is a pattern that does not compile).
  What the theorems rely on of them is stated as named hypotheses: \<open>digests32\<close> (a SHA-256 digest
  has 32 bytes) and \<open>signs\<close> (a signature made with a generated key verifies).
\<close>

section \<open>The packages\<close>

record env =
  sha256 :: "bytes \<Rightarrow> bytes"
  ml_dsa_keygen :: "bytes \<Rightarrow> bytes \<times> bytes"
  ml_dsa_sign :: "bytes \<Rightarrow> bytes \<Rightarrow> bytes"
  ml_dsa_verify :: "bytes \<Rightarrow> bytes \<Rightarrow> bytes \<Rightarrow> bool res"
  ed25519_getPublicKey :: "bytes \<Rightarrow> bytes"
  ed25519_sign :: "bytes \<Rightarrow> bytes \<Rightarrow> bytes"
  ed25519_verify :: "bytes \<Rightarrow> bytes \<Rightarrow> bytes \<Rightarrow> bool res"
  hmac_sha256 :: "bytes \<Rightarrow> bytes \<Rightarrow> bytes"
  sha384 :: "bytes \<Rightarrow> bytes"
  sha1 :: "bytes \<Rightarrow> bytes"
  ripemd160 :: "bytes \<Rightarrow> bytes"
  keccak_256 :: "bytes \<Rightarrow> bytes"
  text_decode :: "bytes \<Rightarrow> string"
  cbor_encode :: "jsval \<Rightarrow> bytes"
  cbor_decode :: "bytes \<Rightarrow> jsval res"
  json_parse :: "string \<Rightarrow> jsval option"
  date_parse :: "string \<Rightarrow> time"
  to_iso :: "int \<Rightarrow> string"
  nfc :: "string \<Rightarrow> string"
  locale_le :: "string \<Rightarrow> string \<Rightarrow> bool"
  regex :: "string \<Rightarrow> (string \<Rightarrow> bool) option"
  js_string :: "jsval \<Rightarrow> string"

definition digests32 :: "env \<Rightarrow> bool" where
  "digests32 P = (\<forall>x. length (sha256 P x) = 32)"

section \<open>types.ts\<close>

type_synonym Multihash = string

record SignatureBlock =
  sig_alg :: string
  sig_key_id :: string
  sig_ml_dsa :: string
  sig_ed25519 :: string

record DirectoryEntry =
  ml_dsa_pub :: string
  ed25519_pub :: string

text \<open>A key directory is a plain object from key id to entry.\<close>

type_synonym KeyDirectory = "(string \<times> DirectoryEntry) list"

record Witness =
  w_id :: string
  w_external :: bool
  w_alg :: string
  w_ml_dsa :: string
  w_ed25519 :: string

record STHCore =
  log_id :: string
  tree_size :: int
  root_hash :: Multihash
  sth_timestamp :: string

record STH = STHCore +
  sth_signature :: SignatureBlock
  sth_witnesses :: "Witness list"

record KeyPair =
  keyId :: string
  mlDsaSecret :: bytes
  mlDsaPublic :: bytes
  ed25519Secret :: bytes
  ed25519Public :: bytes
  directoryEntry :: DirectoryEntry

section \<open>canonical.ts and record.ts\<close>

definition canonicalCbor :: "env \<Rightarrow> jsval \<Rightarrow> bytes" where
  "canonicalCbor P v = cbor_encode P v"

definition jInt :: "int \<Rightarrow> jsval" where
  "jInt i = JNum (Fin (of_int i))"

definition sthCore :: "STH \<Rightarrow> STHCore" where
  "sthCore sth = \<lparr>log_id = log_id sth, tree_size = tree_size sth, root_hash = root_hash sth,
     sth_timestamp = sth_timestamp sth\<rparr>"

definition sthCoreVal :: "STHCore \<Rightarrow> jsval" where
  "sthCoreVal c = JObj [(''log_id'', JStr (log_id c)), (''tree_size'', jInt (tree_size c)),
     (''root_hash'', JStr (root_hash c)), (''timestamp'', JStr (sth_timestamp c))]"

definition sthSigningMessage :: "env \<Rightarrow> STHCore \<Rightarrow> bytes" where
  "sthSigningMessage P core = canonicalCbor P (sthCoreVal core)"

section \<open>sign.ts\<close>

definition SIGNATURE_ALG :: string where
  "SIGNATURE_ALG = ''ml-dsa-65+ed25519''"

definition hybridSign :: "env \<Rightarrow> bytes \<Rightarrow> KeyPair \<Rightarrow> SignatureBlock" where
  "hybridSign P message key = \<lparr>
     sig_alg = SIGNATURE_ALG,
     sig_key_id = keyId key,
     sig_ml_dsa = toBase64Field (ml_dsa_sign P (mlDsaSecret key) message),
     sig_ed25519 = toBase64Field (ed25519_sign P message (ed25519Secret key))\<rparr>"

record HybridVerifyResult =
  hv_ok :: bool
  hv_mlDsaOk :: bool
  hv_ed25519Ok :: bool

definition hybridVerify :: "env \<Rightarrow> bytes \<Rightarrow> SignatureBlock \<Rightarrow> DirectoryEntry \<Rightarrow> HybridVerifyResult" where
  "hybridVerify P message signature entry =
     (let mlDsaOk = catching False
            (rbind (fromBase64Field (ml_dsa_pub entry)) (\<lambda>pub.
             rbind (fromBase64Field (sig_ml_dsa signature)) (\<lambda>sg.
             ml_dsa_verify P pub message sg)));
          ed25519Ok = catching False
            (rbind (fromBase64Field (sig_ed25519 signature)) (\<lambda>sg.
             rbind (fromBase64Field (ed25519_pub entry)) (\<lambda>pub.
             ed25519_verify P sg message pub)))
      in \<lparr>hv_ok = mlDsaOk \<and> ed25519Ok, hv_mlDsaOk = mlDsaOk, hv_ed25519Ok = ed25519Ok\<rparr>)"

section \<open>keys.ts\<close>

definition ML_DSA_SEED_BYTES :: nat where
  "ML_DSA_SEED_BYTES = 32"

definition deriveEd25519Secret :: "env \<Rightarrow> bytes \<Rightarrow> bytes" where
  "deriveEd25519Secret P seed = sha256 P (concatBytes [seed, utf8 ''cool/ed25519''])"

text \<open>The optional seed; \<open>random\<close> is what the platform's generator would fill the array with.\<close>

definition generateKeypair :: "env \<Rightarrow> bytes \<Rightarrow> string \<Rightarrow> bytes option \<Rightarrow> KeyPair res" where
  "generateKeypair P random key_id opt_seed =
     rbind (case opt_seed of
              None \<Rightarrow> Inr random
            | Some seed \<Rightarrow> if length seed \<noteq> ML_DSA_SEED_BYTES then Inl TypeError else Inr seed)
       (\<lambda>seed.
         let (sk, pk) = ml_dsa_keygen P seed;
             edSecret = deriveEd25519Secret P seed;
             edPublic = ed25519_getPublicKey P edSecret
         in Inr \<lparr>keyId = key_id, mlDsaSecret = sk, mlDsaPublic = pk, ed25519Secret = edSecret,
              ed25519Public = edPublic,
              directoryEntry = \<lparr>ml_dsa_pub = toBase64Field pk, ed25519_pub = toBase64Field edPublic\<rparr>\<rparr>)"

definition directoryFromKeypair :: "KeyPair \<Rightarrow> KeyDirectory" where
  "directoryFromKeypair key = [(keyId key, directoryEntry key)]"

definition mergeDirectories :: "KeyPair list \<Rightarrow> KeyDirectory" where
  "mergeDirectories ks = fold (\<lambda>key d. mput (keyId key) (directoryEntry key) d) ks []"

section \<open>Lemmas\<close>

text \<open>The documented behaviour of the two schemes: a signature made with a key pair verifies
  under its public key.\<close>

definition signs :: "env \<Rightarrow> bool" where
  "signs P = ((\<forall>seed m. ml_dsa_verify P (snd (ml_dsa_keygen P seed)) m
                  (ml_dsa_sign P (fst (ml_dsa_keygen P seed)) m) = Inr True)
            \<and> (\<forall>sk m. ed25519_verify P (ed25519_sign P m sk) m (ed25519_getPublicKey P sk) = Inr True))"

definition generated :: "env \<Rightarrow> KeyPair \<Rightarrow> bool" where
  "generated P key = (\<exists>random seed. generateKeypair P random (keyId key) seed = Inr key)"

lemma hybridSign_fields [simp]:
  "sig_alg (hybridSign P m key) = SIGNATURE_ALG"
  "sig_key_id (hybridSign P m key) = keyId key"
  by (simp_all add: hybridSign_def)

text \<open>The block verifies exactly when both schemes accept: no half of it is enough.\<close>

lemma hybridVerify_ok_iff:
  "hv_ok (hybridVerify P m s e) \<longleftrightarrow>
     (\<exists>mlpub mlsig edpub edsig.
        fromBase64Field (ml_dsa_pub e) = Inr mlpub \<and> fromBase64Field (sig_ml_dsa s) = Inr mlsig
      \<and> fromBase64Field (ed25519_pub e) = Inr edpub \<and> fromBase64Field (sig_ed25519 s) = Inr edsig
      \<and> ml_dsa_verify P mlpub m mlsig = Inr True \<and> ed25519_verify P edsig m edpub = Inr True)"
  by (auto simp: hybridVerify_def Let_def catching_def rbind_def split: sum.splits)

lemma hybridVerify_hybridSign:
  assumes "signs P" "generated P key"
  shows "hv_ok (hybridVerify P m (hybridSign P m key) (directoryEntry key))"
proof -
  from assms(2) obtain random oseed where g: "generateKeypair P random (keyId key) oseed = Inr key"
    unfolding generated_def by blast
  then obtain seed where k: "mlDsaSecret key = fst (ml_dsa_keygen P seed)"
    "ed25519Secret key = deriveEd25519Secret P seed"
    "directoryEntry key = \<lparr>ml_dsa_pub = toBase64Field (snd (ml_dsa_keygen P seed)),
       ed25519_pub = toBase64Field (ed25519_getPublicKey P (deriveEd25519Secret P seed))\<rparr>"
    by (cases key) (auto simp: generateKeypair_def rbind_Inr_iff Let_def case_prod_beta
      split: option.splits if_splits)
  have "ml_dsa_verify P (snd (ml_dsa_keygen P seed)) m (ml_dsa_sign P (fst (ml_dsa_keygen P seed)) m) = Inr True"
    using assms(1) unfolding signs_def by blast
  moreover have "ed25519_verify P (ed25519_sign P m ek) m (ed25519_getPublicKey P ek) = Inr True" for ek
    using assms(1) unfolding signs_def by blast
  ultimately show ?thesis by (simp add: hybridVerify_ok_iff hybridSign_def k)
qed

lemma map_of_mergeDirectories:
  "map_of (mergeDirectories ks) i = map_option directoryEntry (find (\<lambda>k. keyId k = i) (rev ks))"
proof -
  have "map_of (fold (\<lambda>key d. mput (keyId key) (directoryEntry key) d) ks d) i
      = (case find (\<lambda>k. keyId k = i) (rev ks) of
           Some k \<Rightarrow> Some (directoryEntry k) | None \<Rightarrow> map_of d i)" for d
    by (induction ks rule: rev_induct) auto
  then show ?thesis by (auto simp: mergeDirectories_def split: option.split)
qed

lemma sthCoreVal_inj: "sthCoreVal a = sthCoreVal b \<Longrightarrow> a = b"
  by (simp add: sthCoreVal_def jInt_def)

section \<open>A concrete instance of the packages\<close>

text \<open>
  Used by the witnesses only: a hash, an encoder and two schemes that satisfy the named hypotheses
  (and are of course not secure).
\<close>

definition toyHash :: "bytes \<Rightarrow> bytes" where
  "toyHash x = replicate 31 0 @ [sum_list (map (\<lambda>(b, i). b * of_nat i) (zip x [1..<Suc (length x)]))]"

lemma length_toyHash [simp]: "length (toyHash x) = 32"
  by (simp add: toyHash_def)

fun toyCbor :: "jsval \<Rightarrow> bytes" where
  "toyCbor JUndef = [0]"
| "toyCbor JNull = [1]"
| "toyCbor (JBool b) = [if b then 2 else 3]"
| "toyCbor (JNum n) = (case n of Fin r \<Rightarrow> [4, of_int (fst (quotient_of r)), of_int (snd (quotient_of r))]
     | PosInf \<Rightarrow> [5] | NegInf \<Rightarrow> [6] | NaN \<Rightarrow> [7])"
| "toyCbor (JStr s) = 8 # utf8 s @ [0]"
| "toyCbor (JBytes b) = 9 # of_nat (length b) # b"
| "toyCbor (JArr vs) = 10 # concat (map toyCbor vs) @ [255]"
| "toyCbor (JObj es) = 11 # concat (map (\<lambda>(k, v). utf8 k @ [0] @ toyCbor v) es) @ [255]"

text \<open>A decoder: encoded bytes come back as a byte string that stands for them.\<close>

definition toyEncode :: "jsval \<Rightarrow> bytes" where
  "toyEncode v = (case v of JBytes (x # b) \<Rightarrow> if x = 254 then b else toyCbor v | _ \<Rightarrow> toyCbor v)"

definition toyDecode :: "bytes \<Rightarrow> jsval res" where
  "toyDecode b = Inr (JBytes (254 # b))"

lemma toyEncode_simps [simp]:
  "toyEncode JUndef = toyCbor JUndef" "toyEncode JNull = toyCbor JNull" "toyEncode (JBool c) = toyCbor (JBool c)"
  "toyEncode (JNum n) = toyCbor (JNum n)" "toyEncode (JStr s) = toyCbor (JStr s)" "toyEncode (JArr vs) = toyCbor (JArr vs)"
  "toyEncode (JObj es) = toyCbor (JObj es)" "toyEncode (JBytes (x # b)) = (if x = 254 then b else toyCbor (JBytes (x # b)))"
  by (simp_all add: toyEncode_def)

text \<open>Times as decimal numerals.\<close>

definition toyDate :: "string \<Rightarrow> time" where
  "toyDate s = (if s \<noteq> [] \<and> list_all (\<lambda>c. 48 \<le> (of_char c :: nat) \<and> (of_char c :: nat) \<le> 57) s
     then Some (fold (\<lambda>c n. 10 * n + int (of_char c - 48)) s 0) else None)"

definition toyEnv :: env where
  "toyEnv = \<lparr>sha256 = toyHash,
     ml_dsa_keygen = (\<lambda>seed. (seed, seed)),
     ml_dsa_sign = (\<lambda>sk m. sk @ m),
     ml_dsa_verify = (\<lambda>pk m s. Inr (s = pk @ m)),
     ed25519_getPublicKey = (\<lambda>sk. sk),
     ed25519_sign = (\<lambda>m sk. sk @ m),
     ed25519_verify = (\<lambda>s m pk. Inr (s = pk @ m)),
     hmac_sha256 = (\<lambda>k m. toyHash (k @ m)),
     sha384 = (\<lambda>m. toyHash m @ replicate 16 0),
     sha1 = (\<lambda>m. take 20 (toyHash m)),
     ripemd160 = (\<lambda>m. take 20 (toyHash m)),
     keccak_256 = toyHash,
     text_decode = map (\<lambda>b. char_of (unat b)),
     cbor_encode = toyEncode,
     cbor_decode = toyDecode,
     json_parse = (\<lambda>s. None),
     date_parse = toyDate,
     to_iso = (\<lambda>t. showNat (nat t)),
     nfc = (\<lambda>s. s),
     locale_le = (\<lambda>a b. length a \<le> length b),
     regex = (\<lambda>p. Some (\<lambda>s. startsWith s p)),
     js_string = (\<lambda>v. [])\<rparr>"

lemma toyEnv_simps [simp]:
  "sha256 toyEnv = toyHash" "cbor_encode toyEnv = toyEncode" "cbor_decode toyEnv = toyDecode" "date_parse toyEnv = toyDate" "nfc toyEnv = (\<lambda>s. s)"
  by (simp_all add: toyEnv_def)

lemma signs_toyEnv: "signs toyEnv"
  by (simp add: signs_def toyEnv_def)

lemma digests32_toyEnv: "digests32 toyEnv"
  by (simp add: digests32_def toyEnv_def)

definition toyKey :: "string \<Rightarrow> KeyPair" where
  "toyKey i = (case generateKeypair toyEnv (replicate 32 7) i None of Inr k \<Rightarrow> k)"

lemma generated_toyKey: "generated toyEnv (toyKey i)"
  by (auto simp: generated_def toyKey_def generateKeypair_def Let_def split: prod.split
    intro!: exI [of _ "replicate 32 7"] exI [of _ None])

end
