(* ===== verification/MerkleProofs.thy ===== *)
theory MerkleProofs
  imports Merkle Sign
begin

text \<open>
  What the Merkle code of \<^verbatim>\<open>src/src/merkle.ts\<close> computes: the tree hash, inclusion and consistency
  proofs agree with the recursive specification up to \<open>2 ^ 30\<close> leaves (and never return above), the
  verifiers accept every proof the prover makes, and an accepted proof binds the leaves up to a
  collision of the hash among the inputs hashed.
\<close>

section \<open>The code computes the specification\<close>

lemma toInt32_id: "- (2 ^ 31) \<le> x \<Longrightarrow> x < 2 ^ 31 \<Longrightarrow> toInt32 x = x"
  by (simp add: toInt32_def mod_pos_pos_trivial)

lemma shl1_pow:
  assumes "i < 30"
  shows "shl1 (2 ^ i) = 2 ^ Suc i"
proof -
  have "Suc i \<le> 30" using assms by simp
  then have "(2 :: int) ^ Suc i \<le> 2 ^ 30" by (rule power_increasing) simp
  then have "(2 :: int) ^ Suc i < 2 ^ 31" by (rule order.strict_trans1) simp
  moreover have "- (2 ^ 31) \<le> (2 :: int) ^ Suc i" by (rule order.trans [of _ 0]) simp_all
  ultimately have "toInt32 (2 ^ Suc i) = 2 ^ Suc i" by (intro toInt32_id)
  then show ?thesis by (simp add: shl1_def)
qed

lemma pow2_int_less_30: "(2 :: int) ^ j < 2 ^ 30 \<Longrightarrow> j < 30"
  by (rule power_less_imp_less_exp [of 2]) auto

lemma lpo2_loop_pow:
  assumes "i \<le> j" "2 ^ j < n" "n \<le> 2 ^ Suc j" "n \<le> 2 ^ 30"
  shows "lpo2_loop (2 ^ i) n = Some (2 ^ j)"
  using assms(1)
proof (induction "j - i" arbitrary: i)
  case 0
  have "(2 :: int) ^ j < 2 ^ 30" using assms(2,4) by linarith
  then have "j < 30" by (rule pow2_int_less_30)
  with 0 assms(3) show ?case by (simp add: lpo2_loop.simps [of "2 ^ i"] shl1_pow)
next
  case (Suc d)
  then have le: "Suc i \<le> j" by simp
  have "(2 :: int) ^ j < 2 ^ 30" using assms(2,4) by linarith
  then have "j < 30" by (rule pow2_int_less_30)
  moreover have "(2 :: int) ^ Suc i \<le> 2 ^ j" using le by (intro power_increasing) auto
  ultimately have "lpo2_loop (2 ^ i) n = lpo2_loop (2 ^ Suc i) n"
    using le assms(2) by (simp add: lpo2_loop.simps [of "2 ^ i"] shl1_pow)
  then show ?case using Suc.hyps(1) [of "Suc i"] Suc.hyps(2) le by simp
qed

lemma largestPowerOfTwoBelow_eq:
  assumes "1 < n" "n \<le> 2 ^ 30"
  shows "largestPowerOfTwoBelow (int n) = Some (int (lp2 n))"
proof -
  obtain j where j: "lp2 n = 2 ^ j" using lp2_pow by blast
  with lp2_bounds [OF assms(1)] have "2 ^ j < n" "n \<le> 2 ^ Suc j" by simp_all
  then have "int (2 ^ j) < int n" "int n \<le> int (2 ^ Suc j)" by (simp_all only: of_nat_less_iff of_nat_le_iff)
  then have "(2 :: int) ^ j < int n" "int n \<le> 2 ^ Suc j" by (simp_all only: of_nat_power of_nat_numeral)
  moreover have "int n \<le> 2 ^ 30" using assms(2) by simp
  ultimately show ?thesis
    using lpo2_loop_pow [of 0 j "int n"] by (simp add: largestPowerOfTwoBelow_def j)
qed

lemma lpo2_loop_0: "0 < n \<Longrightarrow> lpo2_loop 0 n = None"
proof (rule ccontr)
  assume n: "0 < n" and "lpo2_loop 0 n \<noteq> None"
  then obtain r where "lpo2_loop 0 n = Some r" by blast
  then have "\<not> (0 = (0 :: int) \<and> 0 < n)"
  proof (rule lpo2_loop.raw_induct [where P = "\<lambda>k n r. \<not> (k = 0 \<and> 0 < n)", rotated])
    fix f k n r
    assume IH: "\<And>k n r. f k n = Some r \<Longrightarrow> \<not> (k = (0 :: int) \<and> 0 < (n :: int))"
      and eq: "(if shl1 k < n then f (shl1 k) n else Some k) = Some (r :: int)"
    show "\<not> (k = 0 \<and> 0 < n)"
    proof
      assume "k = 0 \<and> 0 < n"
      moreover have "shl1 0 = 0" by (simp add: shl1_def toInt32_def)
      ultimately show False using IH [of 0 n r] eq by (auto split: if_splits)
    qed
  qed
  with n show False by simp
qed

text \<open>Above \<open>2 ^ 30\<close> leaves the shift overflows and the loop never ends.\<close>

lemma largestPowerOfTwoBelow_diverges:
  assumes "2 ^ 30 < n"
  shows "largestPowerOfTwoBelow n = None"
proof -
  have up: "i \<le> 30 \<Longrightarrow> lpo2_loop (2 ^ i) n = lpo2_loop (2 ^ 30) n" for i
  proof (induction "30 - i" arbitrary: i)
    case (Suc d)
    then have i: "i < 30" by simp
    then have "(2 :: int) ^ Suc i \<le> 2 ^ 30" by (intro power_increasing) auto
    with assms i have "lpo2_loop (2 ^ i) n = lpo2_loop (2 ^ Suc i) n"
      by (simp add: lpo2_loop.simps [of "2 ^ i"] shl1_pow)
    with Suc.hyps(1) [of "Suc i"] Suc.hyps(2) i show ?case by simp
  qed auto
  have "lpo2_loop (2 ^ 30) n = lpo2_loop (- (2 ^ 31)) n"
    using assms by (subst lpo2_loop.simps) (simp add: shl1_def toInt32_def)
  also have "\<dots> = lpo2_loop 0 n"
    using assms by (subst lpo2_loop.simps) (simp add: shl1_def toInt32_def)
  also have "\<dots> = None" using assms by (intro lpo2_loop_0) simp
  finally show ?thesis using up [of 0] by (simp add: largestPowerOfTwoBelow_def)
qed

lemma merkleRoot_mth:
  "hs \<noteq> [] \<Longrightarrow> length hs \<le> 2 ^ 30 \<Longrightarrow> merkleRoot H hs = Some (mth (nodeHash H) hs)"
proof (induction "nodeHash H" hs rule: mth.induct)
  case (1 hs)
  show ?case
  proof (cases "length hs \<le> 1")
    case True
    with 1(3) have "length hs = 1" by (cases hs) auto
    then show ?thesis using 1(3) by (simp add: merkleRoot.simps [of H hs] mth.simps hd_conv_nth)
  next
    case False
    let ?k = "lp2 (length hs)"
    have k: "?k < length hs" using False by (simp add: lp2_less)
    have "largestPowerOfTwoBelow (int (length hs)) = Some (int ?k)"
      using False 1(4) by (simp add: largestPowerOfTwoBelow_eq)
    moreover have "merkleRoot H (take ?k hs) = Some (mth (nodeHash H) (take ?k hs))"
      using 1(1) [OF False] 1(3,4) k by simp
    moreover have "merkleRoot H (drop ?k hs) = Some (mth (nodeHash H) (drop ?k hs))"
      using 1(2) [OF False] 1(4) k by simp
    ultimately show ?thesis using False
      by (subst merkleRoot.simps, subst mth_split) auto
  qed
qed

lemma merkleRoot_MTH: "length hs \<le> 2 ^ 30 \<Longrightarrow> merkleRoot H hs = Some (MTH H hs)"
proof (cases "hs = []")
  case True
  then show ?thesis by (simp add: MTH_def merkleRoot.simps)
next
  case False
  assume "length hs \<le> 2 ^ 30"
  with False show ?thesis using merkleRoot_mth [of hs H] by (simp add: MTH_def)
qed

lemma merkleRoot_diverges: "2 ^ 30 < length hs \<Longrightarrow> merkleRoot H hs = None"
proof -
  assume a: "2 ^ 30 < length hs"
  then have "(2 :: int) ^ 30 < int (length hs)" by simp
  then have "largestPowerOfTwoBelow (int (length hs)) = None"
    by (rule largestPowerOfTwoBelow_diverges)
  with a show ?thesis by (subst merkleRoot.simps) auto
qed

lemma inclusionProof_ipath:
  "m < length hs \<Longrightarrow> length hs \<le> 2 ^ 30 \<Longrightarrow>
     inclusionProof H hs (int m) = Some (Inr (ipath (nodeHash H) m hs))"
proof (induction "nodeHash H" m hs rule: ipath.induct)
  case (1 m hs)
  show ?case
  proof (cases "length hs \<le> 1")
    case True
    with 1(3) have "length hs = 1" by linarith
    then show ?thesis using 1(3) by (simp add: inclusionProof.simps [of H hs] ipath.simps)
  next
    case False
    let ?k = "lp2 (length hs)"
    have k: "?k < length hs" using False by (simp add: lp2_less)
    have lk: "largestPowerOfTwoBelow (int (length hs)) = Some (int ?k)"
      using False 1(4) by (simp add: largestPowerOfTwoBelow_eq)
    have roots: "merkleRoot H (take ?k hs) = Some (mth (nodeHash H) (take ?k hs))"
      "merkleRoot H (drop ?k hs) = Some (mth (nodeHash H) (drop ?k hs))"
      using k 1(4) by (auto intro!: merkleRoot_mth)
    show ?thesis
    proof (cases "m < ?k")
      case True
      then have "inclusionProof H (take ?k hs) (int m) = Some (Inr (ipath (nodeHash H) m (take ?k hs)))"
        using 1(1) [OF False refl True] 1(4) k by simp
      then show ?thesis using False True lk roots 1(3)
        by (subst inclusionProof.simps, subst ipath.simps) (simp add: Let_def)
    next
      case F: False
      then have "inclusionProof H (drop ?k hs) (int (m - ?k))
          = Some (Inr (ipath (nodeHash H) (m - ?k) (drop ?k hs)))"
        using 1(2) [OF False refl F] 1(3,4) k by simp
      then show ?thesis using False F lk roots 1(3)
        by (subst inclusionProof.simps, subst ipath.simps) (simp add: Let_def of_nat_diff)
    qed
  qed
qed

lemma subproof_spath:
  "0 < m \<Longrightarrow> m \<le> length hs \<Longrightarrow> length hs \<le> 2 ^ 30 \<Longrightarrow>
     subproof H (int m) hs b = Some (spath (nodeHash H) m hs b)"
proof (induction "nodeHash H" m hs b rule: spath.induct)
  case (1 m hs b)
  show ?case
  proof (cases "m = length hs")
    case True
    then show ?thesis using 1(3,5) merkleRoot_mth [of hs H]
      by (auto simp: subproof.simps [of H _ hs] spath.simps [of _ "length hs" hs])
  next
    case False
    then have nb: "\<not> (length hs \<le> m \<or> length hs \<le> 1)" using 1(3,4) by linarith
    let ?k = "lp2 (length hs)"
    have k: "?k < length hs" using nb by (simp add: lp2_less)
    have lk: "largestPowerOfTwoBelow (int (length hs)) = Some (int ?k)"
      using nb 1(5) by (simp add: largestPowerOfTwoBelow_eq)
    have roots: "merkleRoot H (take ?k hs) = Some (mth (nodeHash H) (take ?k hs))"
      "merkleRoot H (drop ?k hs) = Some (mth (nodeHash H) (drop ?k hs))"
      using k 1(5) by (auto intro!: merkleRoot_mth)
    show ?thesis
    proof (cases "m \<le> ?k")
      case True
      then have "subproof H (int m) (take ?k hs) b = Some (spath (nodeHash H) m (take ?k hs) b)"
        using 1(1) [OF nb refl True] 1(3,5) k by simp
      then show ?thesis using False nb True lk roots
        by (subst subproof.simps, subst spath.simps) (simp add: Let_def)
    next
      case F: False
      then have "subproof H (int (m - ?k)) (drop ?k hs) False
          = Some (spath (nodeHash H) (m - ?k) (drop ?k hs) False)"
        using 1(2) [OF nb refl F] 1(4,5) k by simp
      then show ?thesis using False nb F lk roots
        by (subst subproof.simps, subst spath.simps) (simp add: Let_def of_nat_diff)
    qed
  qed
qed


section \<open>The verifiers' loops as climbs\<close>

lemma js_rem_int [simp]: "js_rem (int n) 2 = int (n mod 2)"
  by (simp add: js_rem_def zmod_int)

lemma ascend_asc: "ascend (int f) (int s) = map_prod int int (asc f s)"
proof (induction f s rule: asc.induct)
  case (1 f s)
  have half: "int x div 2 = int (x div 2)" for x by (simp add: zdiv_int)
  show ?case
    using 1 by (subst ascend.simps, subst asc.simps) (simp add: half even_iff_mod_2_eq_zero)
qed

lemma stripOnes_strip: "stripOnes (int f) (int s) = map_prod int int (strip f s)"
proof (induction f s rule: strip.induct)
  case (1 f s)
  have half: "int x div 2 = int (x div 2)" for x by (simp add: zdiv_int)
  show ?case
    using 1 by (subst stripOnes.simps, subst strip.simps) (simp add: half odd_iff_mod_2_eq_one)
qed

definition walked :: "(nat \<times> nat \<times> 'a) option \<Rightarrow> 'a option" where
  "walked r = (case r of Some (f, s, y) \<Rightarrow> (if s = 0 then Some y else None) | None \<Rightarrow> None)"

lemma walked_Some: "walked r = Some y \<longleftrightarrow> (\<exists>f. r = Some (f, 0, y))"
  by (auto simp: walked_def split: option.splits if_splits)

lemma int_div_2: "int x div 2 = int (x div 2)"
  by (simp add: zdiv_int)

lemma inclLoop_climb:
  "inclLoop H p (int fn) (int sn) h =
     (case walked (climb (nodeHash H) (\<lambda>s h. nodeHash H h s) p fn sn h) of Some y \<Rightarrow> Inr y | None \<Rightarrow> Inl RangeError)"
proof (induction p arbitrary: fn sn h)
  case Nil
  show ?case by (simp add: walked_def)
next
  case (Cons s p)
  obtain f t where ft: "asc fn sn = (f, t)" by fastforce
  show ?case
  proof (cases "even fn")
    case True
    then show ?thesis using Cons.IH ft
      by (auto simp: walked_def int_div_2 ascend_asc even_iff_mod_2_eq_zero)
  next
    case False
    then have "(f, t) = (fn, sn)" using ft by simp
    with False show ?thesis using Cons.IH ft
      by (auto simp: walked_def int_div_2 odd_iff_mod_2_eq_one)
  qed
qed

definition consL :: "('h \<Rightarrow> 'h \<Rightarrow> 'h) \<Rightarrow> 'h \<Rightarrow> 'h \<times> 'h \<Rightarrow> 'h \<times> 'h" where
  "consL f c = (\<lambda>(fr, sr). (f c fr, f c sr))"

definition consR :: "('h \<Rightarrow> 'h \<Rightarrow> 'h) \<Rightarrow> 'h \<Rightarrow> 'h \<times> 'h \<Rightarrow> 'h \<times> 'h" where
  "consR f c = (\<lambda>(fr, sr). (fr, f sr c))"

lemma consLoop_climb:
  "consLoop H p (int fn) (int sn) fr sr = walked (climb (consL (nodeHash H)) (consR (nodeHash H)) p fn sn (fr, sr))"
proof (induction p arbitrary: fn sn fr sr)
  case Nil
  show ?case by (simp add: walked_def)
next
  case (Cons c p)
  obtain f t where ft: "asc fn sn = (f, t)" by fastforce
  show ?case
  proof (cases "even fn")
    case True
    then show ?thesis using Cons.IH ft
      by (auto simp: walked_def int_div_2 ascend_asc even_iff_mod_2_eq_zero consL_def consR_def)
  next
    case False
    then have "(f, t) = (fn, sn)" using ft by simp
    with False show ?thesis using Cons.IH ft
      by (auto simp: walked_def int_div_2 odd_iff_mod_2_eq_one ascend_asc consL_def consR_def)
  qed
qed

text \<open>The inclusion verifier computes exactly the recursive fold over the tree shape.\<close>

lemma rootFromInclusionProof_iff:
  assumes "i < n"
  shows "rootFromInclusionProof H h (int i) (int n) p = Inr r \<longleftrightarrow>
    length p = ilen i n \<and> r = ifold (nodeHash H) (\<lambda>s h. nodeHash H h s) i n h p"
proof -
  have "rootFromInclusionProof H h (int i) (int n) p = inclLoop H p (int i) (int (n - 1)) h"
    using assms by (simp add: rootFromInclusionProof_def of_nat_diff)
  then have "rootFromInclusionProof H h (int i) (int n) p = Inr r \<longleftrightarrow>
      (\<exists>f. climb (nodeHash H) (\<lambda>s h. nodeHash H h s) p i (n - 1) h = Some (f, 0, r))"
    by (auto simp: inclLoop_climb walked_def split: option.splits if_splits)
  also have "\<dots> \<longleftrightarrow> length p = ilen i n \<and> r = ifold (nodeHash H) (\<lambda>s h. nodeHash H h s) i n h p"
    using climb_ifold_exact [OF assms] climb_ifold [OF assms] by fastforce
  finally show ?thesis .
qed

lemma verifyInclusion_iff:
  assumes "i < n"
  shows "verifyInclusion H h (int i) (int n) p r \<longleftrightarrow>
    length p = ilen i n \<and> r = ifold (nodeHash H) (\<lambda>s h. nodeHash H h s) i n h p"
proof -
  have "verifyInclusion H h (int i) (int n) p r \<longleftrightarrow> rootFromInclusionProof H h (int i) (int n) p = Inr r"
    by (auto simp: verifyInclusion_def bytesEqual_iff split: sum.splits)
  with rootFromInclusionProof_iff [OF assms] show ?thesis by simp
qed

section \<open>Powers of two\<close>

lemma and_even_odd: "(2 * a) AND (1 + 2 * b) = 2 * (a AND b :: int)"
  by (subst and_int_rec) simp

lemma and_pred_0:
  "0 < n \<Longrightarrow> (int n AND int (n - 1) = 0) = (\<exists>j. n = 2 ^ j)"
proof (induction n rule: less_induct)
  case (less n)
  show ?case
  proof (cases "even n")
    case True
    with less.prems obtain k where k: "n = 2 * k" "0 < k" by (auto elim: evenE)
    then have "int n = 2 * int k" "int (n - 1) = 1 + 2 * int (k - 1)" by (auto simp: of_nat_diff)
    then have "int n AND int (n - 1) = 2 * (int k AND int (k - 1))"
      by (simp only: and_even_odd)
    then have "(int n AND int (n - 1) = 0) = (int k AND int (k - 1) = 0)" by simp
    also have "\<dots> = (\<exists>j. k = 2 ^ j)" using less.IH [of k] k by simp
    also have "\<dots> = (\<exists>j. n = 2 ^ j)"
    proof
      assume "\<exists>j. k = 2 ^ j"
      then obtain j where "n = 2 ^ Suc j" using k by auto
      then show "\<exists>j. n = 2 ^ j" ..
    next
      assume "\<exists>j. n = 2 ^ j"
      then obtain j where j: "n = 2 ^ j" ..
      with True have "j \<noteq> 0" by (cases j) auto
      with j k show "\<exists>j. k = 2 ^ j" by (cases j) auto
    qed
    finally show ?thesis .
  next
    case False
    then obtain k where k: "n = 2 * k + 1" by (auto elim: oddE)
    then have "int n = 1 + 2 * int k" "int (n - 1) = 2 * int k" by auto
    then have "(int n AND int (n - 1) = 0) = (k = 0)"
      by (subst and_int_rec) simp
    also have "\<dots> = (\<exists>j. n = 2 ^ j)"
    proof
      assume "k = 0"
      with k have "n = 2 ^ 0" by simp
      then show "\<exists>j. n = 2 ^ j" ..
    next
      assume "\<exists>j. n = 2 ^ j"
      then obtain j where j: "n = 2 ^ j" ..
      with False have "j = 0" by (cases j) auto
      with j k show "k = 0" by simp
    qed
    finally show ?thesis .
  qed
qed

lemma isPowerOfTwo_iff:
  assumes "0 < m" "m \<le> 2 ^ 30"
  shows "isPowerOfTwo (int m) \<longleftrightarrow> (\<exists>j. m = 2 ^ j)"
proof -
  have "toInt32 (int m) = int m" "toInt32 (int m - 1) = int (m - 1)"
    using assms by (auto simp: toInt32_def of_nat_diff)
  with assms and_pred_0 [of m] show ?thesis by (simp add: isPowerOfTwo_def)
qed


section \<open>Completeness\<close>

lemma length_ipath: "m < length xs \<Longrightarrow> length (ipath f m xs) = ilen m (length xs)"
proof (induction f m xs rule: ipath.induct)
  case (1 f m xs)
  show ?case
  proof (cases "length xs \<le> 1")
    case False
    then have "lp2 (length xs) < length xs" by (simp add: lp2_less)
    with 1 False show ?thesis
      by (subst ipath.simps, subst ilen.simps) (auto simp: Let_def)
  qed (simp add: ipath.simps ilen.simps)
qed

lemma ifold_ipath:
  "m < length xs \<Longrightarrow> ifold f (\<lambda>s h. f h s) m (length xs) (xs ! m) (ipath f m xs) = mth f xs"
proof (induction f m xs rule: ipath.induct)
  case (1 f m xs)
  show ?case
  proof (cases "length xs \<le> 1")
    case True
    with 1(3) have "length xs = 1" by linarith
    then obtain x where "xs = [x]" by (auto simp: length_Suc_conv)
    with 1(3) show ?thesis by (simp add: ifold.simps)
  next
    case False
    let ?k = "lp2 (length xs)"
    have k: "?k < length xs" using False by (simp add: lp2_less)
    show ?thesis
    proof (cases "m < ?k")
      case True
      then have "ifold f (\<lambda>s h. f h s) m ?k (xs ! m) (ipath f m (take ?k xs)) = mth f (take ?k xs)"
        using 1(1) [OF False refl True] k by simp
      then show ?thesis using False True
        by (simp add: ifold.simps [of _ _ m "length xs"] ipath.simps [of f m xs] mth_split [of xs] Let_def)
    next
      case F: False
      then have "ifold f (\<lambda>s h. f h s) (m - ?k) (length xs - ?k) (xs ! m) (ipath f (m - ?k) (drop ?k xs))
          = mth f (drop ?k xs)"
        using 1(2) [OF False refl F] 1(3) F k by (simp add: nth_drop diff_less_mono)
      then show ?thesis using False F
        by (simp add: ifold.simps [of _ _ m "length xs"] ipath.simps [of f m xs] mth_split [of xs] Let_def)
    qed
  qed
qed

lemma lp2_between: "lp2 n < m \<Longrightarrow> m \<le> n \<Longrightarrow> lp2 m = lp2 n"
proof -
  assume a: "lp2 n < m" "m \<le> n"
  obtain j where j: "lp2 n = 2 ^ j" using lp2_pow by blast
  have "0 < lp2 n" by simp
  with a have "1 < n" by linarith
  from lp2_bounds [OF this] a j have "lp2 m = 2 ^ j" by (intro lp2_eqI) auto
  with j show ?thesis by simp
qed

lemma mth_split_at:
  "lp2 n < m \<Longrightarrow> m \<le> n \<Longrightarrow> length ys = m \<Longrightarrow>
     mth f ys = f (mth f (take (lp2 n) ys)) (mth f (drop (lp2 n) ys))"
  using lp2_between [of n m] mth_split [of ys f] lp2_pos [of n] by simp

lemma spath_cfold:
  "0 < m \<Longrightarrow> m \<le> length xs \<Longrightarrow> \<exists>a p. spath f m xs False = a # p \<and> length p = clen m (length xs)
     \<and> cfold (consL f) (consR f) m (length xs) (a, a) p = (mth f (take m xs), mth f xs)"
proof (induction f m xs "False" rule: spath.induct)
  case (1 f m xs)
  show ?case
  proof (cases "m = length xs")
    case True
    then show ?thesis
      by (simp add: spath.simps [of f "length xs"] clen.simps [of "length xs"]
        cfold.simps [of _ _ "length xs"])
  next
    case False
    with 1 have nb: "\<not> (length xs \<le> m \<or> length xs \<le> 1)" by linarith
    let ?k = "lp2 (length xs)"
    have k: "?k < length xs" using nb by (simp add: lp2_less)
    show ?thesis
    proof (cases "m \<le> ?k")
      case True
      with 1(1) [OF nb refl True] 1(3) k obtain a p where
        "spath f m (take ?k xs) False = a # p" "length p = clen m ?k"
        "cfold (consL f) (consR f) m ?k (a, a) p = (mth f (take m xs), mth f (take ?k xs))"
        by (auto simp: min_def)
      then show ?thesis using nb True
        by (subst spath.simps, subst cfold.simps, subst clen.simps, subst (3) mth_split)
          (auto simp: Let_def consR_def)
    next
      case F: False
      with 1(2) [OF nb refl F] 1(4) k obtain a p where
        "spath f (m - ?k) (drop ?k xs) False = a # p" "length p = clen (m - ?k) (length xs - ?k)"
        "cfold (consL f) (consR f) (m - ?k) (length xs - ?k) (a, a) p
           = (mth f (take (m - ?k) (drop ?k xs)), mth f (drop ?k xs))"
        by (auto simp: diff_le_mono)
      moreover have "mth f (take m xs) = f (mth f (take ?k xs)) (mth f (take (m - ?k) (drop ?k xs)))"
        using mth_split_at [of "length xs" m "take m xs" f] F 1(4) by (simp add: drop_take min_def)
      moreover have "mth f xs = f (mth f (take ?k xs)) (mth f (drop ?k xs))"
        using nb by (simp add: mth_split)
      ultimately show ?thesis using nb F
        by (subst spath.simps, subst cfold.simps, subst clen.simps)
          (auto simp: Let_def consL_def)
    qed
  qed
qed

text \<open>The proof the prover sends omits the first node when it is the old root itself.\<close>

lemma spath_seed:
  "0 < m \<Longrightarrow> m < length xs \<or> (m = length xs \<and> (\<exists>j. length xs = 2 ^ j)) \<Longrightarrow>
     spath f m xs False = (if \<exists>j. m = 2 ^ j then mth f (take m xs) # spath f m xs True else spath f m xs True)"
proof (induction f m xs "True" rule: spath.induct)
  case (1 f m xs)
  show ?case
  proof (cases "m = length xs")
    case True
    then have "spath f m xs b = (if b then [] else [mth f xs])" for b by (simp add: spath.simps)
    with True 1(4) show ?thesis by auto
  next
    case False
    with 1 have nb: "\<not> (length xs \<le> m \<or> length xs \<le> 1)" by linarith
    let ?k = "lp2 (length xs)"
    have k: "?k < length xs" using nb by (simp add: lp2_less)
    obtain j where j: "?k = 2 ^ j" using lp2_pow by blast
    show ?thesis
    proof (cases "m \<le> ?k")
      case True
      have "m < length (take ?k xs) \<or> m = length (take ?k xs) \<and> (\<exists>j. length (take ?k xs) = 2 ^ j)"
        using True k j by auto
      from 1(1) [OF nb refl True 1(3) this] True k nb show ?thesis
        by (subst (1 2 3) spath.simps) (auto simp: Let_def min_def)
    next
      case F: False
      have "\<not> (\<exists>i. m = 2 ^ i)"
      proof
        assume "\<exists>i. m = 2 ^ i"
        then obtain i where i: "m = 2 ^ i" ..
        have "m < 2 * 2 ^ j" using lp2_bounds [of "length xs"] nb j by auto
        then have "2 ^ i < (2 ^ Suc j :: nat)" "2 ^ j < (2 ^ i :: nat)" using i F j by auto
        then have "i < Suc j" "j < i" by (metis one_less_numeral_iff power_less_imp_less_exp semiring_norm(76))+
        then show False by simp
      qed
      then show ?thesis using F nb by (subst (1 2 3) spath.simps) (auto simp: Let_def)
    qed
  qed
qed

lemma verifyConsistency_cfold:
  assumes "0 < m" "m < n"
  shows "verifyConsistency H (int m) (int n) r1 r2 p \<longleftrightarrow>
    (case (if isPowerOfTwo (int m) then r1 # p else p) of [] \<Rightarrow> False
     | a # q \<Rightarrow> length q = clen m n \<and> cfold (consL (nodeHash H)) (consR (nodeHash H)) m n (a, a) q = (r1, r2))"
proof -
  obtain f0 s0 where fs: "strip (m - 1) (n - 1) = (f0, s0)" by fastforce
  let ?cl = "\<lambda>q a. climb (consL (nodeHash H)) (consR (nodeHash H)) q f0 s0 (a, a)"
  let ?cf = "\<lambda>q a. cfold (consL (nodeHash H)) (consR (nodeHash H)) m n (a, a) q"
  have "stripOnes (int m - 1) (int n - 1) = map_prod int int (strip (m - 1) (n - 1))"
    using assms by (subst stripOnes_strip [symmetric]) (simp add: of_nat_diff)
  then have st: "stripOnes (int m - 1) (int n - 1) = (int f0, int s0)" unfolding fs by simp
  have key: "walked (?cl q a) = Some y \<longleftrightarrow> length q = clen m n \<and> y = ?cf q a" for q a y
    using climb_cfold_exact [OF assms fs, of "consL (nodeHash H)" "consR (nodeHash H)" q "(a, a)"]
      climb_cfold [OF assms, of q "consL (nodeHash H)" "consR (nodeHash H)" "(a, a)"]
    unfolding walked_Some fs prod.case by blast
  have "(case walked (?cl q a) of None \<Rightarrow> False | Some (fr, sr) \<Rightarrow> bytesEqual fr r1 \<and> bytesEqual sr r2)
      \<longleftrightarrow> walked (?cl q a) = Some (r1, r2)" for q a
    by (auto simp: bytesEqual_iff split: option.splits)
  then show ?thesis using assms
    by (simp add: verifyConsistency_def st consLoop_climb key Let_def eq_commute [of "(r1, r2)"]
      split: list.split)
qed

section \<open>Soundness\<close>

text \<open>
  The inputs that computing a root, and that checking a proof, feed to the hash.  Soundness is
  stated relative to the hash being injective on these finitely many inputs: a forged proof is a
  collision among them.
\<close>

definition nodeInput :: "bytes \<times> bytes \<Rightarrow> bytes" where
  "nodeInput = (\<lambda>(l, r). concatBytes [NODE_PREFIX, l, r])"

function mthPairs :: "('h \<Rightarrow> 'h \<Rightarrow> 'h) \<Rightarrow> 'h list \<Rightarrow> ('h \<times> 'h) list" where
  "mthPairs f xs = (if length xs \<le> 1 then []
     else let k = lp2 (length xs) in
       (mth f (take k xs), mth f (drop k xs)) # mthPairs f (take k xs) @ mthPairs f (drop k xs))"
  by pat_completeness auto
termination
  by (relation "measure (length \<circ> snd)") (auto simp: lp2_less intro!: diff_lp2_less)

function ifoldPairs :: "('h \<Rightarrow> 'h \<Rightarrow> 'h) \<Rightarrow> nat \<Rightarrow> nat \<Rightarrow> 'h \<Rightarrow> 'h list \<Rightarrow> ('h \<times> 'h) list" where
  "ifoldPairs f m n a p = (if n \<le> 1 then []
     else if m < lp2 n then
       (ifold f (\<lambda>s h. f h s) m (lp2 n) a (butlast p), last p) # ifoldPairs f m (lp2 n) a (butlast p)
     else (last p, ifold f (\<lambda>s h. f h s) (m - lp2 n) (n - lp2 n) a (butlast p))
       # ifoldPairs f (m - lp2 n) (n - lp2 n) a (butlast p))"
  by pat_completeness auto
termination
  by (relation "measure (\<lambda>(f, m, n, a, p). n)") (auto simp: lp2_less intro!: diff_lp2_less)

function cfoldPairs :: "('h \<Rightarrow> 'h \<Rightarrow> 'h) \<Rightarrow> nat \<Rightarrow> nat \<Rightarrow> 'h \<Rightarrow> 'h list \<Rightarrow> ('h \<times> 'h) list" where
  "cfoldPairs f m n a p = (if n \<le> m \<or> n \<le> 1 then []
     else if m \<le> lp2 n then
       (snd (cfold (consL f) (consR f) m (lp2 n) (a, a) (butlast p)), last p)
         # cfoldPairs f m (lp2 n) a (butlast p)
     else (let (fr, sr) = cfold (consL f) (consR f) (m - lp2 n) (n - lp2 n) (a, a) (butlast p) in
       (last p, fr) # (last p, sr) # cfoldPairs f (m - lp2 n) (n - lp2 n) a (butlast p)))"
  by pat_completeness auto
termination
  by (relation "measure (\<lambda>(f, m, n, a, p). n)") (auto simp: lp2_less intro!: diff_lp2_less)

declare mthPairs.simps [simp del] ifoldPairs.simps [simp del] cfoldPairs.simps [simp del]

definition treeInputs :: "(bytes \<Rightarrow> bytes) \<Rightarrow> bytes list \<Rightarrow> bytes list" where
  "treeInputs H hs = map nodeInput (mthPairs (nodeHash H) hs)"

definition inclusionInputs :: "(bytes \<Rightarrow> bytes) \<Rightarrow> bytes \<Rightarrow> nat \<Rightarrow> nat \<Rightarrow> bytes list \<Rightarrow> bytes list" where
  "inclusionInputs H h i n p = map nodeInput (ifoldPairs (nodeHash H) i n h p)"

definition consistencyInputs :: "(bytes \<Rightarrow> bytes) \<Rightarrow> nat \<Rightarrow> nat \<Rightarrow> bytes \<Rightarrow> bytes list \<Rightarrow> bytes list" where
  "consistencyInputs H m n r1 p =
     (let path = (if isPowerOfTwo (int m) then r1 # p else p)
      in map nodeInput (cfoldPairs (nodeHash H) m n (hd path) (tl path)))"

definition collisionFree :: "(bytes \<Rightarrow> bytes) \<Rightarrow> bytes list \<Rightarrow> bool" where
  "collisionFree H xs = list_all (\<lambda>x. list_all (\<lambda>y. H x = H y \<longrightarrow> x = y) xs) xs"

lemma collisionFree_inj: "collisionFree H xs \<longleftrightarrow> inj_on H (set xs)"
  by (auto simp: collisionFree_def list_all_iff inj_on_def)

lemma nodeHash_nodeInput: "nodeHash H l r = H (nodeInput (l, r))"
  by (simp add: nodeHash_def nodeInput_def)

text \<open>Equal node hashes over an injective set of inputs have equal children, once one child on
  each side is a digest.\<close>

lemma node_inj:
  assumes "inj_on H (nodeInput ` S)" "(l, r) \<in> S" "(l', r') \<in> S"
    "nodeHash H l r = nodeHash H l' r'" "length l = length l' \<or> length r = length r'"
  shows "l = l' \<and> r = r'"
proof -
  have "nodeInput (l, r) = nodeInput (l', r')"
  proof (rule inj_onD [OF assms(1)])
    show "H (nodeInput (l, r)) = H (nodeInput (l', r'))" using assms(4) by (simp only: nodeHash_nodeInput)
  qed (use assms(2,3) in blast)+
  then have "l @ r = l' @ r'" by (simp add: nodeInput_def concatBytes_eq)
  with append_eq_append_conv [OF assms(5)] show ?thesis by simp
qed

lemma length_nodeHash: "\<forall>x. length (H x) = 32 \<Longrightarrow> length (nodeHash H l r) = 32"
  by (simp add: nodeHash_def)

lemma length_mth:
  assumes "\<forall>x. length (H x) = 32" "xs \<noteq> []" "\<forall>x \<in> set xs. length x = 32"
  shows "length (mth (nodeHash H) xs) = 32"
proof (cases "length xs \<le> 1")
  case True
  with assms(2) obtain x where "xs = [x]" by (cases xs) auto
  with assms(3) show ?thesis by simp
next
  case False
  then show ?thesis using assms(1) by (simp add: mth_split [of xs] length_nodeHash)
qed

lemma ifold_sound:
  assumes len: "\<forall>x. length (H x) = 32"
  shows "inj_on H (nodeInput ` S) \<Longrightarrow>
     set (mthPairs (nodeHash H) xs) \<union> set (ifoldPairs (nodeHash H) m (length xs) a p) \<subseteq> S \<Longrightarrow>
     m < length xs \<Longrightarrow> \<forall>x \<in> set xs. length x = 32 \<Longrightarrow> length a = 32 \<Longrightarrow>
     ifold (nodeHash H) (\<lambda>s h. nodeHash H h s) m (length xs) a p = mth (nodeHash H) xs \<Longrightarrow> a = xs ! m"
proof (induction "nodeHash H" m xs arbitrary: p rule: ipath.induct)
  case (1 m xs)
  let ?f = "nodeHash H" and ?k = "lp2 (length xs)"
  show ?case
  proof (cases "length xs \<le> 1")
    case True
    with 1(5) obtain x where "xs = [x]" by (cases xs) auto
    with 1(5,8) show ?thesis by (simp add: ifold.simps)
  next
    case False
    have k: "?k < length xs" using False by (simp add: lp2_less)
    have ll: "length (mth ?f (take ?k xs)) = 32" "length (mth ?f (drop ?k xs)) = 32"
      using 1(6) k by (auto intro!: length_mth [OF len] dest: in_set_takeD in_set_dropD)
    have la: "length (ifold ?f (\<lambda>s h. ?f h s) i n a q) = 32" for i n q
      using 1(7) by (subst ifold.simps) (auto simp: length_nodeHash [OF len])
    have tree: "(mth ?f (take ?k xs), mth ?f (drop ?k xs)) \<in> S"
      "set (mthPairs ?f (take ?k xs)) \<subseteq> S" "set (mthPairs ?f (drop ?k xs)) \<subseteq> S"
      using 1(4) False by (auto simp: mthPairs.simps [of _ xs] Let_def)
    have sub: "\<forall>x \<in> set (take ?k xs). length x = 32" "\<forall>x \<in> set (drop ?k xs). length x = 32"
      using 1(6) by (auto dest: in_set_takeD in_set_dropD)
    show ?thesis
    proof (cases "m < ?k")
      case True
      let ?h = "ifold ?f (\<lambda>s h. ?f h s) m ?k a (butlast p)"
      have path: "(?h, last p) \<in> S" "set (ifoldPairs ?f m ?k a (butlast p)) \<subseteq> S"
        using 1(4) False True by (auto simp: ifoldPairs.simps [of _ m])
      have "?f ?h (last p) = ?f (mth ?f (take ?k xs)) (mth ?f (drop ?k xs))"
        using 1(8) False True by (simp add: ifold.simps [of _ _ m] mth_split)
      from node_inj [OF 1(3) path(1) tree(1) this] la ll have "?h = mth ?f (take ?k xs)" by simp
      with 1(1) [OF False refl True 1(3), of "butlast p"] 1(7) True k tree(2) path(2) sub(1)
      show ?thesis by simp
    next
      case F: False
      let ?h = "ifold ?f (\<lambda>s h. ?f h s) (m - ?k) (length xs - ?k) a (butlast p)"
      have path: "(last p, ?h) \<in> S" "set (ifoldPairs ?f (m - ?k) (length xs - ?k) a (butlast p)) \<subseteq> S"
        using 1(4) False F by (auto simp: ifoldPairs.simps [of _ m])
      have "?f (last p) ?h = ?f (mth ?f (take ?k xs)) (mth ?f (drop ?k xs))"
        using 1(8) False F by (simp add: ifold.simps [of _ _ m] mth_split)
      from node_inj [OF 1(3) path(1) tree(1) this] la ll have "?h = mth ?f (drop ?k xs)" by simp
      with 1(2) [OF False refl F 1(3), of "butlast p"] 1(5,7) F k tree(3) path(2) sub(2)
      show ?thesis by simp
    qed
  qed
qed

lemma mth_inj:
  assumes len: "\<forall>x. length (H x) = 32"
  shows "inj_on H (nodeInput ` S) \<Longrightarrow>
     set (mthPairs (nodeHash H) xs) \<union> set (mthPairs (nodeHash H) ys) \<subseteq> S \<Longrightarrow>
     xs \<noteq> [] \<Longrightarrow> length xs = length ys \<Longrightarrow> \<forall>x \<in> set xs \<union> set ys. length x = 32 \<Longrightarrow>
     mth (nodeHash H) xs = mth (nodeHash H) ys \<Longrightarrow> xs = ys"
proof (induction "nodeHash H" xs arbitrary: ys rule: mth.induct)
  case (1 xs)
  let ?f = "nodeHash H" and ?k = "lp2 (length xs)"
  show ?case
  proof (cases "length xs \<le> 1")
    case True
    with 1(5,6) obtain x y where "xs = [x]" "ys = [y]" by (cases xs; cases ys) auto
    with 1(8) show ?thesis by simp
  next
    case False
    have k: "?k < length xs" using False by (simp add: lp2_less)
    have sub: "\<forall>x \<in> set (take ?k xs) \<union> set (take ?k ys). length x = 32"
      "\<forall>x \<in> set (drop ?k xs) \<union> set (drop ?k ys). length x = 32"
      using 1(7) by (auto dest: in_set_takeD in_set_dropD)
    have ll: "length (mth ?f (take ?k xs)) = 32" "length (mth ?f (take ?k ys)) = 32"
      using sub(1) k 1(5,6) by (auto intro!: length_mth [OF len])
    have tx: "(mth ?f (take ?k xs), mth ?f (drop ?k xs)) \<in> S"
      "set (mthPairs ?f (take ?k xs)) \<subseteq> S" "set (mthPairs ?f (drop ?k xs)) \<subseteq> S"
      using 1(4) False by (auto simp: mthPairs.simps [of _ xs] Let_def)
    have ty: "(mth ?f (take ?k ys), mth ?f (drop ?k ys)) \<in> S"
      "set (mthPairs ?f (take ?k ys)) \<subseteq> S" "set (mthPairs ?f (drop ?k ys)) \<subseteq> S"
      using 1(4,6) False by (auto simp: mthPairs.simps [of _ ys] Let_def)
    have "?f (mth ?f (take ?k xs)) (mth ?f (drop ?k xs)) = ?f (mth ?f (take ?k ys)) (mth ?f (drop ?k ys))"
      using 1(6,8) False by (simp add: mth_split [of xs] mth_split [of ys])
    from node_inj [OF 1(3) tx(1) ty(1) this] ll
    have "mth ?f (take ?k xs) = mth ?f (take ?k ys)" "mth ?f (drop ?k xs) = mth ?f (drop ?k ys)" by auto
    moreover have "length (take ?k xs) = length (take ?k ys)" "take ?k xs \<noteq> []"
      "length (drop ?k xs) = length (drop ?k ys)" "drop ?k xs \<noteq> []"
      using 1(5,6) k by auto
    ultimately have "take ?k xs = take ?k ys" "drop ?k xs = drop ?k ys"
      using 1(1) [OF False 1(3), of "take ?k ys"] 1(2) [OF False 1(3), of "drop ?k ys"] sub tx ty
      by blast+
    then show ?thesis by (metis append_take_drop_id)
  qed
qed

lemma length_cfold_snd:
  assumes "\<forall>x. length (H x) = 32" "m < n" "0 < m"
  shows "length (snd (cfold (consL (nodeHash H)) (consR (nodeHash H)) m n (a, a) p)) = 32"
  using assms by (subst cfold.simps) (auto simp: consL_def consR_def length_nodeHash split: prod.split)

lemma cfold_sound:
  assumes len: "\<forall>x. length (H x) = 32"
  shows "inj_on H (nodeInput ` S) \<Longrightarrow>
     set (mthPairs (nodeHash H) xs) \<union> set (mthPairs (nodeHash H) ys)
       \<union> set (cfoldPairs (nodeHash H) m (length ys) a p) \<subseteq> S \<Longrightarrow>
     0 < m \<Longrightarrow> m \<le> length ys \<Longrightarrow> length xs = m \<Longrightarrow>
     \<forall>x \<in> set xs \<union> set ys. length x = 32 \<Longrightarrow>
     cfold (consL (nodeHash H)) (consR (nodeHash H)) m (length ys) (a, a) p
       = (mth (nodeHash H) xs, mth (nodeHash H) ys) \<Longrightarrow> xs = take m ys"
proof (induction "nodeHash H" m ys "False" arbitrary: xs p rule: spath.induct)
  case (1 m ys)
  let ?f = "nodeHash H" and ?k = "lp2 (length ys)"
  let ?cf = "cfold (consL ?f) (consR ?f)"
  show ?case
  proof (cases "m = length ys")
    case True
    then have "a = mth ?f xs" "a = mth ?f ys" using 1(9) by (auto simp: cfold.simps [of _ _ "length ys"])
    then have "mth ?f xs = mth ?f ys" by simp
    then have "xs = ys" using 1(4,5,7,8) True by (intro mth_inj [OF len 1(3)]) auto
    with True show ?thesis by simp
  next
    case False
    with 1(5,6) have nb: "\<not> (length ys \<le> m \<or> length ys \<le> 1)" by linarith
    have k: "?k < length ys" using nb by (simp add: lp2_less)
    have sub: "\<forall>x \<in> set (take ?k ys). length x = 32" "\<forall>x \<in> set (drop ?k ys). length x = 32"
      "\<forall>x \<in> set (take ?k xs). length x = 32" "\<forall>x \<in> set (drop ?k xs). length x = 32"
      using 1(8) by (auto dest: in_set_takeD in_set_dropD)
    have ll: "length (mth ?f (take ?k ys)) = 32" "length (mth ?f (drop ?k ys)) = 32"
      using sub k by (auto intro!: length_mth [OF len])
    have ty: "(mth ?f (take ?k ys), mth ?f (drop ?k ys)) \<in> S"
      "set (mthPairs ?f (take ?k ys)) \<subseteq> S" "set (mthPairs ?f (drop ?k ys)) \<subseteq> S"
      using 1(4) nb by (auto simp: mthPairs.simps [of _ ys] Let_def)
    show ?thesis
    proof (cases "m \<le> ?k")
      case True
      obtain fr sr where in_: "?cf m ?k (a, a) (butlast p) = (fr, sr)" by fastforce
      have path: "(sr, last p) \<in> S" "set (cfoldPairs ?f m ?k a (butlast p)) \<subseteq> S"
        using 1(4) nb True in_ by (auto simp: cfoldPairs.simps [of _ m])
      have eqs: "fr = mth ?f xs" "?f sr (last p) = ?f (mth ?f (take ?k ys)) (mth ?f (drop ?k ys))"
        using 1(9) nb True in_ by (auto simp: cfold.simps [of _ _ m] mth_split [of ys] consR_def)
      have "length (mth ?f xs) = 32" using 1(5,7,8) by (intro length_mth [OF len]) auto
      then have "length sr = 32"
      proof (cases "m = ?k")
        case True
        then have "sr = fr" using in_ by (auto simp: cfold.simps [of _ _ ?k])
        with eqs(1) \<open>length (mth ?f xs) = 32\<close> show ?thesis by simp
      next
        case False
        then show ?thesis using length_cfold_snd [OF len _ 1(5), of ?k a "butlast p"] True in_ by simp
      qed
      with node_inj [OF 1(3) path(1) ty(1) eqs(2)] ll have "sr = mth ?f (take ?k ys)" by simp
      moreover have "length (take ?k ys) = ?k" using k by simp
      ultimately have "xs = take m (take ?k ys)"
        using 1(1) [OF nb refl True 1(3), of xs "butlast p"] 1(4,5,7,8) True ty(2) path(2) sub(1) in_ eqs(1)
        by auto
      with True show ?thesis by (simp add: min_def)
    next
      case F: False
      obtain fr sr where in_: "?cf (m - ?k) (length ys - ?k) (a, a) (butlast p) = (fr, sr)" by fastforce
      have path: "(last p, fr) \<in> S" "(last p, sr) \<in> S"
        "set (cfoldPairs ?f (m - ?k) (length ys - ?k) a (butlast p)) \<subseteq> S"
        using 1(4) nb F in_ by (auto simp: cfoldPairs.simps [of _ m])
      have lpm: "lp2 m = ?k" using F 1(6) by (intro lp2_between) auto
      have tx: "(mth ?f (take ?k xs), mth ?f (drop ?k xs)) \<in> S"
        "set (mthPairs ?f (take ?k xs)) \<subseteq> S" "set (mthPairs ?f (drop ?k xs)) \<subseteq> S"
        using 1(4,7) F lpm lp2_pos [of "length ys"] by (auto simp: mthPairs.simps [of _ xs] Let_def)
      have lx: "length (mth ?f (take ?k xs)) = 32"
        using sub(3) F 1(5,7) by (intro length_mth [OF len]) auto
      have e1: "?f (last p) fr = ?f (mth ?f (take ?k xs)) (mth ?f (drop ?k xs))"
        and e2: "?f (last p) sr = ?f (mth ?f (take ?k ys)) (mth ?f (drop ?k ys))"
        using 1(9) nb F in_ mth_split_at [of "length ys" m xs ?f] 1(6,7)
        by (auto simp: cfold.simps [of _ _ m] mth_split [of ys] consL_def)
      have "length sr = 32"
        using length_cfold_snd [OF len, of "m - ?k" "length ys - ?k" a "butlast p"] F nb in_ by auto
      with node_inj [OF 1(3) path(2) ty(1) e2] ll
      have s2: "last p = mth ?f (take ?k ys)" "sr = mth ?f (drop ?k ys)" by auto
      with node_inj [OF 1(3) path(1) tx(1) e1] ll lx
      have s1: "mth ?f (take ?k xs) = mth ?f (take ?k ys)" "fr = mth ?f (drop ?k xs)" by auto
      have "take ?k xs = take ?k ys"
        using s1(1) tx(2) ty(2) sub F 1(5,7) k by (intro mth_inj [OF len 1(3)]) auto
      moreover have "drop ?k xs = take (m - ?k) (drop ?k ys)"
        using 1(2) [OF nb refl F 1(3), of "drop ?k xs" "butlast p"] 1(6,7) F tx(3) ty(3) path(3) sub in_ s1(2) s2(2)
        by (simp add: ball_Un diff_le_mono)
      moreover have "take m ys = take ?k ys @ take (m - ?k) (drop ?k ys)"
        using F by (metis le_add_diff_inverse nat_le_linear take_add)
      ultimately show ?thesis by (metis append_take_drop_id)
    qed
  qed
qed

section \<open>Properties\<close>

lemma merkleRoot_SomeD: "merkleRoot H hs = Some r \<Longrightarrow> length hs \<le> 2 ^ 30 \<and> r = MTH H hs"
  using merkleRoot_diverges [of hs H] merkleRoot_MTH [of hs H] by (cases "2 ^ 30 < length hs") auto

text \<open>
  An inclusion proof made for any leaf of a tree of at most \<open>2 ^ 30\<close> leaves exists, and
  \<^verbatim>\<open>verifyInclusion\<close> accepts it against the root \<^verbatim>\<open>merkleRoot\<close> returns.
\<close>

theorem inclusion_complete:
  assumes "i < length hs" "length hs \<le> 2 ^ 30"
  shows "\<exists>p r. inclusionProof H hs (int i) = Some (Inr p) \<and> merkleRoot H hs = Some r
    \<and> verifyInclusion H (hs ! i) (int i) (int (length hs)) p r"
proof -
  have "hs \<noteq> []" using assms(1) by auto
  then have "merkleRoot H hs = Some (mth (nodeHash H) hs)" using assms(2) by (rule merkleRoot_mth)
  moreover have "verifyInclusion H (hs ! i) (int i) (int (length hs)) (ipath (nodeHash H) i hs) (mth (nodeHash H) hs)"
    using assms(1) by (simp add: verifyInclusion_iff length_ipath ifold_ipath)
  ultimately show ?thesis using inclusionProof_ipath [OF assms] by blast
qed

text \<open>
  \<^bold>\<open>C1.\<close> Soundness of inclusion: if \<^verbatim>\<open>verifyInclusion\<close> accepts a leaf hash at an index against the root
  of a tree, whatever the path, then the tree has that leaf hash at that index, provided the hash
  does not collide on the inputs hashed to compute the root and to check the path.
\<close>

theorem inclusion_sound:
  assumes "\<forall>x. length (H x) = 32" "\<forall>x \<in> set hs. length x = 32" "length h = 32"
    and "merkleRoot H hs = Some r" "verifyInclusion H h (int i) (int (length hs)) p r"
    and "collisionFree H (treeInputs H hs @ inclusionInputs H h i (length hs) p)"
  shows "i < length hs \<and> h = hs ! i"
proof -
  have i: "i < length hs" using assms(5)
    by (cases "i < length hs") (auto simp: verifyInclusion_def rootFromInclusionProof_def)
  let ?S = "set (mthPairs (nodeHash H) hs) \<union> set (ifoldPairs (nodeHash H) i (length hs) h p)"
  have "inj_on H (nodeInput ` ?S)"
    using assms(6) by (simp add: collisionFree_inj treeInputs_def inclusionInputs_def image_Un)
  moreover have "r = mth (nodeHash H) hs" using merkleRoot_SomeD [OF assms(4)] i by (auto simp: MTH_def)
  then have "ifold (nodeHash H) (\<lambda>s h. nodeHash H h s) i (length hs) h p = mth (nodeHash H) hs"
    using assms(5) i by (simp add: verifyInclusion_iff)
  ultimately have "h = hs ! i" using i assms(2,3) by (intro ifold_sound [OF assms(1)]) auto
  with i show ?thesis by simp
qed

lemma consistency_proof_verifies:
  assumes "0 < m" "m \<le> length hs" "length hs \<le> 2 ^ 30"
  shows "\<exists>p r1 r2. consistencyProof H hs (int m) = Some (Inr p) \<and> merkleRoot H (take m hs) = Some r1
    \<and> merkleRoot H hs = Some r2 \<and> verifyConsistency H (int m) (int (length hs)) r1 r2 p"
proof (cases "m = length hs")
  case True
  then show ?thesis using merkleRoot_MTH [OF assms(3), of H] assms(1)
    by (auto simp: consistencyProof_def verifyConsistency_def bytesEqual_iff)
next
  case False
  then have mn: "m < length hs" using assms(2) by simp
  let ?f = "nodeHash H"
  let ?r1 = "mth ?f (take m hs)" and ?r2 = "mth ?f hs" and ?p = "spath ?f m hs True"
  have roots: "merkleRoot H (take m hs) = Some ?r1" "merkleRoot H hs = Some ?r2"
    using assms by (auto intro!: merkleRoot_mth)
  have cp: "consistencyProof H hs (int m) = Some (Inr ?p)"
    using subproof_spath [of m hs H True] assms mn by (simp add: consistencyProof_def)
  obtain a q where aq: "spath ?f m hs False = a # q" "length q = clen m (length hs)"
    "cfold (consL ?f) (consR ?f) m (length hs) (a, a) q = (?r1, ?r2)"
    using spath_cfold [OF assms(1,2)] by blast
  have "isPowerOfTwo (int m) \<longleftrightarrow> (\<exists>j. m = 2 ^ j)" using assms by (intro isPowerOfTwo_iff) auto
  with spath_seed [of m hs ?f] assms(1) mn aq(1)
  have "(if isPowerOfTwo (int m) then ?r1 # ?p else ?p) = a # q" by simp
  with aq(2,3) have "verifyConsistency H (int m) (int (length hs)) ?r1 ?r2 ?p"
    by (simp only: verifyConsistency_cfold [OF assms(1) mn] list.case)
  with cp roots show ?thesis by blast
qed

text \<open>
  A consistency proof between a tree of at most \<open>2 ^ 30\<close> leaves and any of its non-empty
  prefixes exists and \<^verbatim>\<open>verifyConsistency\<close> accepts it against the two roots.
\<close>

theorem consistency_complete:
  assumes "0 < m" "m \<le> length hs" "length hs \<le> 2 ^ 30"
  shows "\<exists>p r1 r2. consistencyProof H hs (int m) = Some (Inr p) \<and> merkleRoot H (take m hs) = Some r1
    \<and> merkleRoot H hs = Some r2 \<and> verifyConsistency H (int m) (int (length hs)) r1 r2 p"
  using assms by (rule consistency_proof_verifies)

text \<open>
  \<^bold>\<open>C2.\<close> Soundness of consistency: if \<^verbatim>\<open>verifyConsistency\<close> accepts, whatever the proof, for the roots
  of a tree of \<open>m > 0\<close> leaves and of a tree with at least as many, then the first list of leaves is
  a prefix of the second (the log was only appended to), provided the hash does not collide on the inputs
  hashed to compute the roots and to check the proof.
\<close>

theorem consistency_sound:
  assumes "\<forall>x. length (H x) = 32" "\<forall>x \<in> set xs \<union> set ys. length x = 32"
    and "xs \<noteq> []" "merkleRoot H xs = Some r1" "merkleRoot H ys = Some r2"
    and "verifyConsistency H (int (length xs)) (int (length ys)) r1 r2 p"
    and "collisionFree H (treeInputs H xs @ treeInputs H ys @ consistencyInputs H (length xs) (length ys) r1 p)"
  shows "xs = take (length xs) ys"
proof -
  let ?m = "length xs" and ?f = "nodeHash H"
  define path where "path = (if isPowerOfTwo (int ?m) then r1 # p else p)"
  let ?S = "set (mthPairs ?f xs) \<union> set (mthPairs ?f ys) \<union> set (cfoldPairs ?f ?m (length ys) (hd path) (tl path))"
  have inj: "inj_on H (nodeInput ` ?S)"
    using assms(7) by (simp add: collisionFree_inj treeInputs_def consistencyInputs_def Let_def
      path_def image_Un Un_assoc)
  have le: "?m \<le> length ys" and m: "0 < ?m"
    using assms(3,6) by (auto simp: verifyConsistency_def split: if_splits)
  then have r: "r1 = mth ?f xs" "r2 = mth ?f ys"
    using merkleRoot_SomeD [OF assms(4)] merkleRoot_SomeD [OF assms(5)] by (auto simp: MTH_def)
  show ?thesis
  proof (cases "?m = length ys")
    case True
    then have "length ys \<noteq> 0" "int ?m = int (length ys)" using assms(3) by auto
    then have "r1 = r2" using assms(6) by (simp add: verifyConsistency_def bytesEqual_iff)
    with r have "mth ?f xs = mth ?f ys" by simp
    with True assms(2,3) have "xs = ys" by (intro mth_inj [OF assms(1) inj]) auto
    then show ?thesis by simp
  next
    case False
    with le have "?m < length ys" by simp
    from assms(6) [unfolded verifyConsistency_cfold [OF m this], folded path_def]
    have "cfold (consL ?f) (consR ?f) ?m (length ys) (hd path, hd path) (tl path) = (mth ?f xs, mth ?f ys)"
      by (cases path) (auto simp: r)
    then show ?thesis using m le assms(2) by (intro cfold_sound [OF assms(1) inj]) auto
  qed
qed

text \<open>
  \<^bold>\<open>C3.\<close> \<^verbatim>\<open>merkleRoot\<close> is the Merkle tree hash of RFC 6962 on every list of at most \<open>2 ^ 30\<close> leaf
  hashes; on a longer one the 32-bit shift of \<^verbatim>\<open>largestPowerOfTwoBelow\<close> overflows and it never returns.
\<close>

theorem merkleRoot_spec:
  "merkleRoot H hs = (if length hs \<le> 2 ^ 30 then Some (MTH H hs) else None)"
  using merkleRoot_MTH [of hs H] merkleRoot_diverges [of hs H] by (simp add: not_le)

text \<open>
  The guards of \<^verbatim>\<open>verifyConsistency\<close> reject \<open>m > n\<close> only: an old size of zero accepts any root and
  any proof, and a negative one a proof of its own root.
\<close>

lemma verifyConsistency_zero: "verifyConsistency H 0 n r1 r2 p"
  by (simp add: verifyConsistency_def)

lemma verifyConsistency_negative: "verifyConsistency H (- 1) 1 r r [r]"
  by (simp add: verifyConsistency_def isPowerOfTwo_def stripOnes.simps js_rem_def bytesEqual_iff)

section \<open>Witnesses\<close>

definition toyLeaves :: "bytes list" where
  "toyLeaves = [replicate 32 1, replicate 32 2, replicate 32 3]"

theorem inclusion_complete_witness:
  "\<exists>p r. inclusionProof toyHash toyLeaves (int 1) = Some (Inr p) \<and> merkleRoot toyHash toyLeaves = Some r
    \<and> verifyInclusion toyHash (toyLeaves ! 1) (int 1) (int (length toyLeaves)) p r"
  by (rule inclusion_complete) (simp_all add: toyLeaves_def)

theorem consistency_complete_witness:
  "\<exists>p r1 r2. consistencyProof toyHash toyLeaves (int 2) = Some (Inr p)
    \<and> merkleRoot toyHash (take 2 toyLeaves) = Some r1 \<and> merkleRoot toyHash toyLeaves = Some r2
    \<and> verifyConsistency toyHash (int 2) (int (length toyLeaves)) r1 r2 p"
  by (rule consistency_complete) (simp_all add: toyLeaves_def)

definition toyRoot :: bytes where
  "toyRoot = the (merkleRoot toyHash toyLeaves)"

lemma toyRoot: "merkleRoot toyHash toyLeaves = Some toyRoot"
  using merkleRoot_MTH [of toyLeaves toyHash] by (simp add: toyRoot_def toyLeaves_def)

theorem inclusion_sound_witness:
  "1 < length toyLeaves \<and> replicate 32 2 = toyLeaves ! 1"
proof (rule inclusion_sound [where H = toyHash and r = toyRoot and p = "[replicate 32 1, replicate 32 3]"])
  show "verifyInclusion toyHash (replicate 32 2) (int 1) (int (length toyLeaves)) [replicate 32 1, replicate 32 3] toyRoot"
    by code_simp
  show "collisionFree toyHash (treeInputs toyHash toyLeaves
      @ inclusionInputs toyHash (replicate 32 2) 1 (length toyLeaves) [replicate 32 1, replicate 32 3])"
    by code_simp
qed (simp_all add: length_toyHash toyRoot, simp_all add: toyLeaves_def)

theorem consistency_sound_witness:
  "take 2 toyLeaves = take (length (take 2 toyLeaves)) toyLeaves"
proof (rule consistency_sound [where H = toyHash and ?r1.0 = "the (merkleRoot toyHash (take 2 toyLeaves))"
    and ?r2.0 = toyRoot and p = "[replicate 32 3]"])
  show "verifyConsistency toyHash (int (length (take 2 toyLeaves))) (int (length toyLeaves))
      (the (merkleRoot toyHash (take 2 toyLeaves))) toyRoot [replicate 32 3]"
    by code_simp
  show "collisionFree toyHash (treeInputs toyHash (take 2 toyLeaves) @ treeInputs toyHash toyLeaves
      @ consistencyInputs toyHash (length (take 2 toyLeaves)) (length toyLeaves)
          (the (merkleRoot toyHash (take 2 toyLeaves))) [replicate 32 3])"
    by code_simp
  show "merkleRoot toyHash (take 2 toyLeaves) = Some (the (merkleRoot toyHash (take 2 toyLeaves)))"
    by (simp add: merkleRoot_MTH toyLeaves_def)
qed (simp_all add: length_toyHash toyRoot, simp_all add: toyLeaves_def)
end
