(* ===== verification/Log.thy ===== *)
theory Log
  imports MerkleProofs
begin

text \<open>
  The append-only logs: \<^verbatim>\<open>MemoryLog\<close> (\<^verbatim>\<open>src/src/log-memory.ts\<close>) and \<^verbatim>\<open>FileLog\<close>
  (\<^verbatim>\<open>src/src/phala/log-file.ts\<close>), which both implement the interface \<^verbatim>\<open>EvidenceLog\<close>
  (\<^verbatim>\<open>src/src/phala/log.ts\<close>).  The interface is the locale \<open>evidence_log\<close>: its lemmas say that the
  audit path of every appended leaf verifies against the current root and that a grown log is
  consistent with what it was; both logs interpret it.  \<^verbatim>\<open>FileLog\<close> also survives a restart: replaying
  the file gives the hashes appended before.
\<close>

section \<open>log-memory.ts\<close>

record AppendResult =
  ar_leafIndex :: nat
  ar_treeSize :: nat

record MemoryLog =
  ml_logId :: string
  ml_logKey :: KeyPair
  ml_leaves :: "bytes list"
  ml_leafHashes :: "bytes list"

definition newMemoryLog :: "string \<Rightarrow> KeyPair \<Rightarrow> MemoryLog" where
  "newMemoryLog i key = \<lparr>ml_logId = i, ml_logKey = key, ml_leaves = [], ml_leafHashes = []\<rparr>"

definition ml_size :: "MemoryLog \<Rightarrow> nat" where
  "ml_size lg = length (ml_leaves lg)"

definition ml_append :: "env \<Rightarrow> bytes \<Rightarrow> MemoryLog \<Rightarrow> AppendResult \<times> MemoryLog" where
  "ml_append P leafData lg =
     (let leafIndex = length (ml_leaves lg);
          lg' = lg\<lparr>ml_leaves := ml_leaves lg @ [leafData],
                     ml_leafHashes := ml_leafHashes lg @ [leafHash (sha256 P) leafData]\<rparr>
      in (\<lparr>ar_leafIndex = leafIndex, ar_treeSize = length (ml_leaves lg')\<rparr>, lg'))"

text \<open>The audit path and the root of a list of leaf hashes as multihashes; both logs write this out.\<close>

definition auditPathOf :: "(bytes \<Rightarrow> bytes) \<Rightarrow> bytes list \<Rightarrow> int \<Rightarrow> Multihash list run" where
  "auditPathOf H hashes i =
     runbind (inclusionProof H hashes i) (\<lambda>p. Some (mapM multihashFromDigest p))"

definition rootOf :: "(bytes \<Rightarrow> bytes) \<Rightarrow> bytes list \<Rightarrow> Multihash run" where
  "rootOf H hashes = runbind (map_option Inr (merkleRoot H hashes)) (\<lambda>r. Some (multihashFromDigest r))"

definition ml_inclusionAuditPath :: "env \<Rightarrow> MemoryLog \<Rightarrow> int \<Rightarrow> Multihash list run" where
  "ml_inclusionAuditPath P lg leafIndex = auditPathOf (sha256 P) (ml_leafHashes lg) leafIndex"

definition ml_rootHash :: "env \<Rightarrow> MemoryLog \<Rightarrow> Multihash run" where
  "ml_rootHash P lg = rootOf (sha256 P) (ml_leafHashes lg)"

text \<open>A signed tree head with its self co-signature, from its core.\<close>

definition signSTH :: "env \<Rightarrow> KeyPair \<Rightarrow> STHCore \<Rightarrow> STH" where
  "signSTH P key core =
     (let signature = hybridSign P (sthSigningMessage P core) key;
          selfWitness = \<lparr>w_id = ''cool-self'', w_external = False, w_alg = sig_alg signature,
            w_ml_dsa = sig_ml_dsa signature, w_ed25519 = sig_ed25519 signature\<rparr>
      in \<lparr>log_id = log_id core, tree_size = tree_size core, root_hash = root_hash core,
           sth_timestamp = sth_timestamp core, sth_signature = signature, sth_witnesses = [selfWitness]\<rparr>)"

definition ml_buildSTH :: "env \<Rightarrow> MemoryLog \<Rightarrow> string \<Rightarrow> STH run" where
  "ml_buildSTH P lg timestamp =
     runbind (ml_rootHash P lg) (\<lambda>root.
       Some (Inr (signSTH P (ml_logKey lg)
         \<lparr>log_id = ml_logId lg, tree_size = int (length (ml_leaves lg)), root_hash = root,
          sth_timestamp = timestamp\<rparr>)))"

section \<open>phala/log-file.ts\<close>

text \<open>The directory of a file log: the leaf file (absent before the first append) and the last
  checkpoint written.\<close>

record LogDir =
  ld_leaves :: "string option"
  ld_checkpoint :: "STH option"

record FileLog =
  fl_leafHashes :: "bytes list"
  fl_logId :: string
  fl_logKey :: KeyPair
  fl_dir :: LogDir

text \<open>\<^verbatim>\<open>text.split("\n")\<close>.\<close>

fun splitLines :: "string \<Rightarrow> string list" where
  "splitLines [] = [[]]"
| "splitLines (c # cs) = (if c = CHR 0x0A then [] # splitLines cs
     else case splitLines cs of [] \<Rightarrow> [[c]] | l # ls \<Rightarrow> (c # l) # ls)"

definition isDigestLine :: "string \<Rightarrow> bool" where
  "isDigestLine line = (length line = 64 \<and> list_all isLowerHex line)"

definition fl_replay :: "LogDir \<Rightarrow> bytes list res" where
  "fl_replay d = (case ld_leaves d of
       None \<Rightarrow> Inr []
     | Some text \<Rightarrow> mapM (\<lambda>line. if \<not> isDigestLine line then Inl (Error ''corrupt log'') else fromHex line)
                      (filter (\<lambda>line. length line > 0) (splitLines text)))"

definition openFileLog :: "string \<Rightarrow> KeyPair \<Rightarrow> LogDir \<Rightarrow> FileLog res" where
  "openFileLog i key d = rbind (fl_replay d) (\<lambda>hs.
     Inr \<lparr>fl_leafHashes = hs, fl_logId = i, fl_logKey = key, fl_dir = d\<rparr>)"

definition fl_size :: "FileLog \<Rightarrow> nat" where
  "fl_size lg = length (fl_leafHashes lg)"

text \<open>\<^verbatim>\<open>appendFileSync\<close> on the leaf file.\<close>

definition appendLeafFile :: "string \<Rightarrow> LogDir \<Rightarrow> LogDir" where
  "appendLeafFile s d = d\<lparr>ld_leaves := Some ((case ld_leaves d of None \<Rightarrow> [] | Some t \<Rightarrow> t) @ s)\<rparr>"

definition fl_write :: "env \<Rightarrow> bytes \<Rightarrow> FileLog \<Rightarrow> FileLog" where
  "fl_write P leafData lg =
     lg\<lparr>fl_dir := appendLeafFile (toHex (leafHash (sha256 P) leafData) @ [CHR 0x0A]) (fl_dir lg)\<rparr>"

text \<open>The states \<^verbatim>\<open>append\<close> goes through, in the order of its statements: a process that dies between two
  of them leaves the directory of one of these states behind.\<close>

definition fl_points :: "env \<Rightarrow> bytes \<Rightarrow> FileLog \<Rightarrow> FileLog list" where
  "fl_points P leafData lg =
     (let hash = leafHash (sha256 P) leafData;
          lg1 = fl_write P leafData lg;
          lg2 = lg1\<lparr>fl_leafHashes := fl_leafHashes lg1 @ [hash]\<rparr>
      in [lg, lg1, lg2])"

definition fl_append :: "env \<Rightarrow> bytes \<Rightarrow> FileLog \<Rightarrow> AppendResult \<times> FileLog" where
  "fl_append P leafData lg =
     (let leafIndex = length (fl_leafHashes lg);
          lg2 = last (fl_points P leafData lg)
      in (\<lparr>ar_leafIndex = leafIndex, ar_treeSize = length (fl_leafHashes lg2)\<rparr>, lg2))"

text \<open>The write itself is not atomic: a process that dies inside \<^verbatim>\<open>appendFileSync\<close> leaves the first
  \<open>k\<close> characters of the line on disk.\<close>

definition fl_torn :: "env \<Rightarrow> nat \<Rightarrow> bytes \<Rightarrow> FileLog \<Rightarrow> FileLog" where
  "fl_torn P k leafData lg =
     lg\<lparr>fl_dir := appendLeafFile (take k (toHex (leafHash (sha256 P) leafData) @ [CHR 0x0A])) (fl_dir lg)\<rparr>"

definition fl_inclusionAuditPath :: "env \<Rightarrow> FileLog \<Rightarrow> int \<Rightarrow> Multihash list run" where
  "fl_inclusionAuditPath P lg leafIndex = auditPathOf (sha256 P) (fl_leafHashes lg) leafIndex"

definition fl_rootHash :: "env \<Rightarrow> FileLog \<Rightarrow> Multihash run" where
  "fl_rootHash P lg = rootOf (sha256 P) (fl_leafHashes lg)"

definition fl_buildSTH :: "env \<Rightarrow> FileLog \<Rightarrow> string \<Rightarrow> (STH \<times> FileLog) run" where
  "fl_buildSTH P lg timestamp =
     runbind (fl_rootHash P lg) (\<lambda>root.
       let sth = signSTH P (fl_logKey lg)
             \<lparr>log_id = fl_logId lg, tree_size = int (length (fl_leafHashes lg)), root_hash = root,
              sth_timestamp = timestamp\<rparr>
       in Some (Inr (sth, lg\<lparr>fl_dir := (fl_dir lg)\<lparr>ld_checkpoint := Some sth\<rparr>\<rparr>)))"

definition lastCheckpoint :: "FileLog \<Rightarrow> STH option" where
  "lastCheckpoint lg = ld_checkpoint (fl_dir lg)"

definition fl_consistency :: "env \<Rightarrow> FileLog \<Rightarrow> int \<Rightarrow> Multihash list run" where
  "fl_consistency P lg fromSize =
     runbind (consistencyProof (sha256 P) (fl_leafHashes lg) fromSize) (\<lambda>p. Some (mapM multihashFromDigest p))"

section \<open>Digests and multihashes\<close>

lemma mapM_multihash:
  "\<forall>d \<in> set ds. length d = 32 \<Longrightarrow>
     mapM multihashFromDigest ds = Inr (map (\<lambda>d. MULTIHASH_PREFIX @ toHex d) ds)"
  by (rule mapM_Inr_map) (simp add: multihashFromDigest_ok)

lemma mapM_digest:
  "\<forall>d \<in> set ds. length d = 32 \<Longrightarrow>
     mapM multihashDigest (map (\<lambda>d. MULTIHASH_PREFIX @ toHex d) ds) = Inr ds"
  by (induction ds) auto

lemma multihash_roundtrip:
  assumes "\<forall>d \<in> set ds. length d = 32"
  obtains ms where "mapM multihashFromDigest ds = Inr ms" "mapM multihashDigest ms = Inr ds"
  using mapM_multihash [OF assms] mapM_digest [OF assms] by blast

text \<open>Every node of the tree, hence every element of a proof, is a digest.\<close>

lemma ipath_digests:
  assumes "\<forall>x. length (H x) = 32"
  shows "\<forall>x \<in> set xs. length x = 32 \<Longrightarrow> m < length xs \<Longrightarrow> \<forall>d \<in> set (ipath (nodeHash H) m xs). length d = 32"
proof (induction "nodeHash H" m xs rule: ipath.induct)
  case (1 m xs)
  show ?case
  proof (cases "length xs \<le> 1")
    case False
    then have k: "lp2 (length xs) < length xs" by (simp add: lp2_less)
    have sub: "\<forall>x \<in> set (take (lp2 (length xs)) xs). length x = 32"
      "\<forall>x \<in> set (drop (lp2 (length xs)) xs). length x = 32"
      using 1(3) by (auto dest: in_set_takeD in_set_dropD)
    then have "length (mth (nodeHash H) (take (lp2 (length xs)) xs)) = 32"
      "length (mth (nodeHash H) (drop (lp2 (length xs)) xs)) = 32"
      using k by (auto intro!: length_mth [OF assms])
    then show ?thesis using 1(1) [OF False refl _ sub(1)] 1(2) [OF False refl _ sub(2)] 1(4) k False
      by (subst ipath.simps) (auto simp: Let_def)
  qed (simp add: ipath.simps)
qed

lemma spath_digests:
  assumes "\<forall>x. length (H x) = 32"
  shows "\<forall>x \<in> set xs. length x = 32 \<Longrightarrow> xs \<noteq> [] \<Longrightarrow> \<forall>d \<in> set (spath (nodeHash H) m xs b). length d = 32"
proof (induction "nodeHash H" m xs b rule: spath.induct)
  case (1 m xs b)
  show ?case
  proof (cases "length xs \<le> m \<or> length xs \<le> 1")
    case True
    then show ?thesis using length_mth [OF assms 1(4,3)] by (simp add: spath.simps)
  next
    case False
    then have k: "lp2 (length xs) < length xs" by (simp add: lp2_less)
    have sub: "\<forall>x \<in> set (take (lp2 (length xs)) xs). length x = 32"
      "\<forall>x \<in> set (drop (lp2 (length xs)) xs). length x = 32"
      using 1(3) by (auto dest: in_set_takeD in_set_dropD)
    have ne: "take (lp2 (length xs)) xs \<noteq> []" "drop (lp2 (length xs)) xs \<noteq> []" using k by auto
    show ?thesis using 1(1) [OF False refl _ sub(1) ne(1)] 1(2) [OF False refl _ sub(2) ne(2)]
        length_mth [OF assms ne(1) sub(1)] length_mth [OF assms ne(2) sub(2)] False
      by (subst spath.simps) (auto simp: Let_def)
  qed
qed

section \<open>The interface\<close>

text \<open>
  \<open>hashes\<close> is the abstract content of a log: the leaf hashes in the order of the appends; \<open>ok\<close> its
  well-formedness.  The provider promises that \<^verbatim>\<open>append\<close> adds the hash of the leaf at the end and
  returns its position, and that the audit path and the root are those of the content.
\<close>

locale evidence_log =
  fixes H :: "bytes \<Rightarrow> bytes"
    and size_of :: "'s \<Rightarrow> nat"
    and append :: "bytes \<Rightarrow> 's \<Rightarrow> AppendResult \<times> 's"
    and audit :: "'s \<Rightarrow> int \<Rightarrow> Multihash list run"
    and root :: "'s \<Rightarrow> Multihash run"
    and hashes :: "'s \<Rightarrow> bytes list"
    and ok :: "'s \<Rightarrow> bool"
  assumes digest: "ok s \<Longrightarrow> length (H x) = 32"
    and digests: "ok s \<Longrightarrow> h \<in> set (hashes s) \<Longrightarrow> length h = 32"
    and size: "ok s \<Longrightarrow> size_of s = length (hashes s)"
    and append_ok: "ok s \<Longrightarrow> ok (snd (append d s))"
    and append_hashes: "ok s \<Longrightarrow> hashes (snd (append d s)) = hashes s @ [leafHash H d]"
    and append_result: "ok s \<Longrightarrow>
      fst (append d s) = \<lparr>ar_leafIndex = size_of s, ar_treeSize = Suc (size_of s)\<rparr>"
    and audit_eq: "ok s \<Longrightarrow> audit s i = auditPathOf H (hashes s) i"
    and root_eq: "ok s \<Longrightarrow> root s = rootOf H (hashes s)"
begin

abbreviation appendAll :: "bytes list \<Rightarrow> 's \<Rightarrow> 's" where
  "appendAll ds s \<equiv> fold (\<lambda>d s. snd (append d s)) ds s"

lemma appendAll_ok: "ok s \<Longrightarrow> ok (appendAll ds s)"
  by (induction ds arbitrary: s) (auto simp: append_ok)

lemma appendAll_hashes: "ok s \<Longrightarrow> hashes (appendAll ds s) = hashes s @ map (leafHash H) ds"
  by (induction ds arbitrary: s) (auto simp: append_ok append_hashes)

lemma audit_complete:
  assumes "ok s" "i < size_of s" "size_of s \<le> 2 ^ 30"
  shows "\<exists>path rt ps r. audit s (int i) = Some (Inr path) \<and> root s = Some (Inr rt)
    \<and> mapM multihashDigest path = Inr ps \<and> multihashDigest rt = Inr r
    \<and> verifyInclusion H (hashes s ! i) (int i) (int (size_of s)) ps r"
proof -
  have H: "\<forall>x. length (H x) = 32" using digest [OF assms(1)] by blast
  have sz: "size_of s = length (hashes s)" using size [OF assms(1)] .
  have i: "i < length (hashes s)" "length (hashes s) \<le> 2 ^ 30" using assms(2,3) sz by simp_all
  from inclusionProof_ipath [OF i] have p: "inclusionProof H (hashes s) (int i) = Some (Inr (ipath (nodeHash H) i (hashes s)))" .
  have ds: "\<forall>d \<in> set (ipath (nodeHash H) i (hashes s)). length d = 32"
    using digests [OF assms(1)] i(1) by (intro ipath_digests [OF H]) auto
  obtain ms where ms: "mapM multihashFromDigest (ipath (nodeHash H) i (hashes s)) = Inr ms"
    "mapM multihashDigest ms = Inr (ipath (nodeHash H) i (hashes s))"
    using multihash_roundtrip [OF ds] by blast
  have ne: "hashes s \<noteq> []" using i(1) by auto
  have r: "merkleRoot H (hashes s) = Some (mth (nodeHash H) (hashes s))" using ne i(2) by (rule merkleRoot_mth)
  have "length (mth (nodeHash H) (hashes s)) = 32" using digests [OF assms(1)] by (intro length_mth [OF H ne]) blast
  then have "multihashFromDigest (mth (nodeHash H) (hashes s)) = Inr (MULTIHASH_PREFIX @ toHex (mth (nodeHash H) (hashes s)))"
    "multihashDigest (MULTIHASH_PREFIX @ toHex (mth (nodeHash H) (hashes s))) = Inr (mth (nodeHash H) (hashes s))"
    by (simp_all add: multihashFromDigest_ok)
  moreover have "verifyInclusion H (hashes s ! i) (int i) (int (length (hashes s))) (ipath (nodeHash H) i (hashes s)) (mth (nodeHash H) (hashes s))"
    using i(1) by (simp add: verifyInclusion_iff length_ipath ifold_ipath)
  ultimately show ?thesis using ms
    by (simp add: audit_eq [OF assms(1)] root_eq [OF assms(1)] auditPathOf_def rootOf_def p r sz)
qed

text \<open>Whatever is appended before and after it, a leaf verifies at the index its append returned.\<close>

lemma appended_leaf_verifies:
  assumes "ok s" "s1 = appendAll before s" "append d s1 = (res, s2)" "s3 = appendAll after s2"
    and "size_of s3 \<le> 2 ^ 30"
  shows "\<exists>path rt ps r. audit s3 (int (ar_leafIndex res)) = Some (Inr path) \<and> root s3 = Some (Inr rt)
    \<and> mapM multihashDigest path = Inr ps \<and> multihashDigest rt = Inr r
    \<and> verifyInclusion H (leafHash H d) (int (ar_leafIndex res)) (int (size_of s3)) ps r"
proof -
  have ok1: "ok s1" using assms(1,2) appendAll_ok by blast
  have ok2: "ok s2" using append_ok [OF ok1, of d] assms(3) by simp
  have ok3: "ok s3" using assms(4) appendAll_ok [OF ok2] by blast
  have idx: "ar_leafIndex res = length (hashes s1)"
    using append_result [OF ok1, of d] assms(3) size [OF ok1] by simp
  have "hashes s3 = hashes s1 @ [leafHash H d] @ map (leafHash H) after"
    using appendAll_hashes [OF ok2] append_hashes [OF ok1, of d] assms(3,4) by simp
  then have "hashes s3 ! ar_leafIndex res = leafHash H d" "ar_leafIndex res < size_of s3"
    using idx size [OF ok3] by (simp_all add: nth_append)
  with audit_complete [OF ok3, of "ar_leafIndex res"] assms(5) show ?thesis by simp
qed

text \<open>A log that has grown proves itself consistent with its earlier root.\<close>

lemma grown_log_consistent:
  assumes "ok s" "0 < size_of s" "s' = appendAll ds s" "size_of s' \<le> 2 ^ 30"
  shows "\<exists>p r r'. consistencyProof H (hashes s') (int (size_of s)) = Some (Inr p)
    \<and> merkleRoot H (hashes s) = Some r \<and> merkleRoot H (hashes s') = Some r'
    \<and> verifyConsistency H (int (size_of s)) (int (size_of s')) r r' p"
proof -
  have ok': "ok s'" using assms(1,3) appendAll_ok by blast
  have h: "hashes s' = hashes s @ map (leafHash H) ds" using assms(1,3) appendAll_hashes by blast
  have sz: "size_of s = length (hashes s)" "size_of s' = length (hashes s')"
    using size [OF assms(1)] size [OF ok'] .
  have "take (length (hashes s)) (hashes s') = hashes s" "length (hashes s) \<le> length (hashes s')"
    using h by simp_all
  moreover have "0 < length (hashes s)" "length (hashes s') \<le> 2 ^ 30" using assms(2,4) sz by simp_all
  ultimately show ?thesis
    using consistency_proof_verifies [of "length (hashes s)" "hashes s'" H] by (simp add: sz)
qed

end

section \<open>The two logs\<close>

definition ml_ok :: "env \<Rightarrow> MemoryLog \<Rightarrow> bool" where
  "ml_ok P lg = (digests32 P \<and> ml_leafHashes lg = map (leafHash (sha256 P)) (ml_leaves lg))"

lemma length_leafHash: "digests32 P \<Longrightarrow> length (leafHash (sha256 P) d) = 32"
  by (simp add: digests32_def leafHash_def)

interpretation ml: evidence_log "sha256 P" ml_size "ml_append P" "ml_inclusionAuditPath P"
    "ml_rootHash P" ml_leafHashes "ml_ok P" for P
proof unfold_locales
  fix s :: MemoryLog and h
  assume "ml_ok P s" "h \<in> set (ml_leafHashes s)"
  then show "length h = 32" using length_leafHash by (auto simp: ml_ok_def)
qed (auto simp: ml_ok_def ml_size_def ml_append_def ml_inclusionAuditPath_def ml_rootHash_def digests32_def Let_def)

lemma newMemoryLog_ok: "digests32 P \<Longrightarrow> ml_ok P (newMemoryLog i key)"
  by (simp add: ml_ok_def newMemoryLog_def)

text \<open>The leaf file holds one line for each leaf hash.\<close>

definition leafLines :: "bytes list \<Rightarrow> string" where
  "leafLines hs = concat (map (\<lambda>h. toHex h @ [CHR 0x0A]) hs)"

definition fl_ok :: "env \<Rightarrow> FileLog \<Rightarrow> bool" where
  "fl_ok P lg = (digests32 P \<and> (\<forall>h \<in> set (fl_leafHashes lg). length h = 32)
     \<and> (case ld_leaves (fl_dir lg) of None \<Rightarrow> fl_leafHashes lg = []
        | Some t \<Rightarrow> t = leafLines (fl_leafHashes lg)))"

lemma fl_append_ok: "fl_ok P s \<Longrightarrow> fl_ok P (snd (fl_append P d s))"
  by (auto simp: fl_ok_def fl_append_def fl_points_def fl_write_def appendLeafFile_def Let_def leafLines_def
      length_leafHash split: option.splits)

interpretation fl: evidence_log "sha256 P" fl_size "fl_append P" "fl_inclusionAuditPath P"
    "fl_rootHash P" fl_leafHashes "fl_ok P" for P
proof unfold_locales
  fix s d
  assume "fl_ok P s"
  then show "fl_ok P (snd (fl_append P d s))" by (rule fl_append_ok)
qed (auto simp: fl_ok_def fl_size_def fl_append_def fl_points_def fl_write_def fl_inclusionAuditPath_def
    fl_rootHash_def digests32_def Let_def)

section \<open>Restart\<close>

lemma newline_not_hex: "list_all isLowerHex s \<Longrightarrow> CHR 0x0A \<notin> set s"
proof -
  have "\<not> isLowerHex (CHR 0x0A)" by code_simp
  then show "list_all isLowerHex s \<Longrightarrow> CHR 0x0A \<notin> set s" by (auto simp: list_all_iff)
qed

lemma splitLines_line: "CHR 0x0A \<notin> set l \<Longrightarrow> splitLines (l @ CHR 0x0A # t) = l # splitLines t"
  by (induction l) auto

lemma splitLines_lines: "splitLines (leafLines hs @ t) = map toHex hs @ splitLines t"
proof (induction hs)
  case (Cons h hs)
  have "splitLines (toHex h @ CHR 0x0A # (leafLines hs @ t)) = toHex h # splitLines (leafLines hs @ t)"
    using newline_not_hex [OF toHex_lower] by (rule splitLines_line)
  with Cons show ?case by (simp add: leafLines_def)
qed (simp add: leafLines_def)

lemma splitLines_whole: "CHR 0x0A \<notin> set t \<Longrightarrow> splitLines t = [t]"
  by (induction t) auto

lemma splitLines_leafLines: "splitLines (leafLines hs) = map toHex hs @ [[]]"
  using splitLines_lines [of hs "[]"] by simp

lemma toHex_Nil_iff [simp]: "toHex a = [] \<longleftrightarrow> a = []"
  using length_toHex [of a] by (cases a) (auto simp: toHex_Cons)

lemma replay_leafLines:
  assumes "ld_leaves d = Some (leafLines hs)" "\<forall>h \<in> set hs. length h = 32"
  shows "fl_replay d = Inr hs"
proof -
  have "filter (\<lambda>line. length line > 0) (splitLines (leafLines hs)) = map toHex hs"
    using assms(2) unfolding splitLines_leafLines by (induction hs) auto
  moreover have "mapM (\<lambda>line. if \<not> isDigestLine line then Inl (Error ''corrupt log'') else fromHex line)
      (map toHex hs) = Inr hs"
    using assms(2) by (induction hs) (auto simp: isDigestLine_def toHex_lower)
  ultimately show ?thesis using assms(1) by (simp add: fl_replay_def)
qed

lemma fl_ok_replay: "fl_ok P s \<Longrightarrow> fl_replay (fl_dir s) = Inr (fl_leafHashes s)"
  using replay_leafLines [of "fl_dir s" "fl_leafHashes s"]
  by (auto simp: fl_ok_def fl_replay_def split: option.splits)

lemma leafLines_snoc: "leafLines hs @ toHex h @ [CHR 0x0A] = leafLines (hs @ [h])"
  by (simp add: leafLines_def)

text \<open>A last line without its newline counts when it has all of its 64 characters, and stops the start
  when it has fewer; the empty one is skipped.\<close>

lemma mapM_hexLines:
  assumes "\<forall>h \<in> set hs. length h = 32"
  shows "mapM (\<lambda>line. if \<not> isDigestLine line then Inl (Error ''corrupt log'') else fromHex line)
      (filter (\<lambda>line. length line > 0) (map toHex hs @ ts))
    = rbind (mapM (\<lambda>line. if \<not> isDigestLine line then Inl (Error ''corrupt log'') else fromHex line)
        (filter (\<lambda>line. length line > 0) ts)) (\<lambda>ys. Inr (hs @ ys))"
  using assms
proof (induction hs)
  case (Cons h hs)
  let ?m = "mapM (\<lambda>line. if \<not> isDigestLine line then Inl (Error ''corrupt log'') else fromHex line)
    (filter (\<lambda>line. length line > 0) ts)"
  have "toHex h \<noteq> []" "isDigestLine (toHex h)" using Cons.prems by (auto simp: isDigestLine_def toHex_lower)
  with Cons show ?case by (cases ?m) auto
qed (simp add: rbind_def split: sum.split)

lemma replay_torn:
  assumes "ld_leaves d = Some (leafLines hs @ t)" "\<forall>h \<in> set hs. length h = 32" "CHR 0x0A \<notin> set t"
  shows "fl_replay d = (if t = [] then Inr hs
    else if isDigestLine t then rbind (fromHex t) (\<lambda>h. Inr (hs @ [h])) else Inl (Error ''corrupt log''))"
  using assms(1) mapM_hexLines [OF assms(2), of "[t]"]
  by (cases "fromHex t") (auto simp: fl_replay_def splitLines_lines splitLines_whole [OF assms(3)])

text \<open>A log opened on a directory that holds whole lines of digests (or nothing) is well formed.\<close>

lemma openFileLog_ok:
  assumes "digests32 P" "openFileLog i key d = Inr lg"
    "ld_leaves d = None \<or> (\<exists>hs. ld_leaves d = Some (leafLines hs) \<and> (\<forall>h \<in> set hs. length h = 32))"
  shows "fl_ok P lg"
  using assms replay_leafLines [of d]
  by (auto simp: openFileLog_def rbind_Inr_iff fl_ok_def fl_replay_def)

section \<open>Properties\<close>

text \<open>
  Whatever is appended to a \<^verbatim>\<open>MemoryLog\<close> before and after a leaf, the audit path the log
  returns for the index its append gave, and the root it returns, decode to digests under which
  \<^verbatim>\<open>verifyInclusion\<close> accepts the leaf.
\<close>

theorem memory_log_leaf_verifies:
  assumes "digests32 P" "s1 = fold (\<lambda>d s. snd (ml_append P d s)) before (newMemoryLog i key)"
    and "ml_append P d s1 = (res, s2)" "s3 = fold (\<lambda>d s. snd (ml_append P d s)) after s2"
    and "ml_size s3 \<le> 2 ^ 30"
  shows "\<exists>path rt ps r. ml_inclusionAuditPath P s3 (int (ar_leafIndex res)) = Some (Inr path)
    \<and> ml_rootHash P s3 = Some (Inr rt)
    \<and> mapM multihashDigest path = Inr ps \<and> multihashDigest rt = Inr r
    \<and> verifyInclusion (sha256 P) (leafHash (sha256 P) d) (int (ar_leafIndex res)) (int (ml_size s3)) ps r"
  using newMemoryLog_ok [OF assms(1)] assms(2-5) by (rule ml.appended_leaf_verifies)

lemma appended_dir:
  assumes "digests32 P" "openFileLog i key \<lparr>ld_leaves = None, ld_checkpoint = c\<rparr> = Inr s0"
    and "s = fold (\<lambda>d s. snd (fl_append P d s)) ds s0"
  shows "fl_ok P s" "fl_leafHashes s = map (leafHash (sha256 P)) ds"
    "(ld_leaves (fl_dir s) = None \<and> ds = []) \<or> ld_leaves (fl_dir s) = Some (leafLines (map (leafHash (sha256 P)) ds))"
proof -
  have s0: "fl_ok P s0" "fl_leafHashes s0 = []"
    using assms(1,2) by (auto simp: openFileLog_def fl_replay_def fl_ok_def)
  show ok: "fl_ok P s" using fl.appendAll_ok [OF s0(1)] assms(3) by blast
  show h: "fl_leafHashes s = map (leafHash (sha256 P)) ds"
    using fl.appendAll_hashes [OF s0(1), of ds] s0(2) assms(3) by simp
  show "(ld_leaves (fl_dir s) = None \<and> ds = []) \<or> ld_leaves (fl_dir s) = Some (leafLines (map (leafHash (sha256 P)) ds))"
    using ok h by (auto simp: fl_ok_def split: option.splits)
qed

lemma torn_dir:
  assumes "fl_ok P s"
  shows "ld_leaves (fl_dir (fl_torn P k d s))
    = Some (leafLines (fl_leafHashes s) @ take k (toHex (leafHash (sha256 P) d) @ [CHR 0x0A]))"
  using assms by (auto simp: fl_torn_def appendLeafFile_def fl_ok_def leafLines_def split: option.splits)

lemma replay_fl_torn:
  assumes "fl_ok P s"
  shows "fl_replay (fl_dir (fl_torn P k d s)) = (if k = 0 then Inr (fl_leafHashes s)
    else if k < 64 then Inl (Error ''corrupt log'') else Inr (fl_leafHashes s @ [leafHash (sha256 P) d]))"
proof -
  let ?h = "leafHash (sha256 P) d"
  have h: "length ?h = 32" "\<forall>h \<in> set (fl_leafHashes s). length h = 32"
    using assms length_leafHash by (auto simp: fl_ok_def)
  have l: "length (toHex ?h) = 64" using h by simp
  show ?thesis
  proof (cases "k \<le> 64")
    case True
    then have t: "take k (toHex ?h @ [CHR 0x0A]) = take k (toHex ?h)" using l by simp
    have "CHR 0x0A \<notin> set (take k (toHex ?h))"
      using newline_not_hex [OF toHex_lower] by (auto dest: in_set_takeD)
    from replay_torn [OF torn_dir [OF assms, of k d, unfolded t] h(2) this] show ?thesis
      using True l by (auto simp: isDigestLine_def toHex_lower)
  next
    case False
    then have t: "take k (toHex ?h @ [CHR 0x0A]) = toHex ?h @ [CHR 0x0A]" using l by simp
    from replay_leafLines [OF torn_dir [OF assms, of k d, unfolded t leafLines_snoc]] h False
    show ?thesis by auto
  qed
qed

text \<open>
  One crash is not survived: when all of the line but its newline reached the disk, the reopened log
  counts the leaf, writes the next one onto the same line, and the start after that refuses.
\<close>

lemma missing_newline_breaks_next_start:
  assumes "fl_ok P s" "openFileLog i key (fl_dir (fl_torn P 64 d s)) = Inr s'"
  shows "fl_leafHashes s' = fl_leafHashes s @ [leafHash (sha256 P) d]"
    and "openFileLog i key (fl_dir (snd (fl_append P d' s'))) = Inl (Error ''corrupt log'')"
proof -
  let ?h = "leafHash (sha256 P) d" and ?h' = "leafHash (sha256 P) d'"
  show hs: "fl_leafHashes s' = fl_leafHashes s @ [?h]"
    using assms(2) replay_fl_torn [OF assms(1), of 64 d] by (auto simp: openFileLog_def)
  have h: "length ?h = 32" "length ?h' = 32" "\<forall>h \<in> set (fl_leafHashes s). length h = 32"
    using assms(1) length_leafHash by (auto simp: fl_ok_def)
  have d: "ld_leaves (fl_dir s') = Some (leafLines (fl_leafHashes s) @ toHex ?h)"
    using assms(2) torn_dir [OF assms(1), of 64 d] h(1) by (auto simp: openFileLog_def rbind_Inr_iff)
  let ?t = "toHex ?h @ toHex ?h'"
  have ne: "?h \<noteq> []" using h(1) by auto
  have nl: "CHR 0x0A \<notin> set ?t" using newline_not_hex [OF toHex_lower] by simp
  have "ld_leaves (fl_dir (snd (fl_append P d' s'))) = Some (leafLines (fl_leafHashes s) @ ?t @ [CHR 0x0A])"
    using d by (simp add: fl_append_def fl_points_def fl_write_def appendLeafFile_def Let_def)
  moreover have "splitLines (leafLines (fl_leafHashes s) @ ?t @ [CHR 0x0A]) = map toHex (fl_leafHashes s) @ [?t, []]"
    using splitLines_line [OF nl, of "[]"] by (simp add: splitLines_lines)
  ultimately show "openFileLog i key (fl_dir (snd (fl_append P d' s'))) = Inl (Error ''corrupt log'')"
    using mapM_hexLines [OF h(3), of "[?t, []]"] h(1,2) ne
    by (simp add: openFileLog_def fl_replay_def isDigestLine_def)
qed

text \<open>
  \<^bold>\<open>C4.\<close> A \<^verbatim>\<open>FileLog\<close> survives the process.  Take a log opened on a fresh directory, any sequence of
  appends to it, and one more append during which the process dies.  If it dies between two statements
  of \<^verbatim>\<open>append\<close>, reopening the directory succeeds, gives the leaf hashes of the completed appends in
  order, with the hash of the interrupted one at the end exactly when it was written, and in either case every hash
  the dead process held in memory.  If it dies inside the write, after \<open>k\<close> of the 65 characters of the line, reopening
  gives the completed appends (\<open>k = 0\<close>), also the interrupted one (\<open>k \<ge> 64\<close>), or refuses to start
  (\<open>0 < k < 64\<close>): it never gives a history in which a leaf is missing or altered.
\<close>

theorem file_log_recovers:
  assumes "digests32 P" "openFileLog i key \<lparr>ld_leaves = None, ld_checkpoint = c\<rparr> = Inr s0"
    and "s = fold (\<lambda>d s. snd (fl_append P d s)) ds s0"
  shows "(\<forall>n < length (fl_points P d s). \<exists>s'. openFileLog i key (fl_dir (fl_points P d s ! n)) = Inr s'
      \<and> fl_leafHashes s' = map (leafHash (sha256 P)) (if n = 0 then ds else ds @ [d])
      \<and> (\<exists>more. fl_leafHashes s' = fl_leafHashes (fl_points P d s ! n) @ more))
    \<and> (\<forall>k. case openFileLog i key (fl_dir (fl_torn P k d s)) of
         Inl e \<Rightarrow> 0 < k \<and> k < 64
       | Inr s' \<Rightarrow> (k = 0 \<and> fl_leafHashes s' = map (leafHash (sha256 P)) ds)
           \<or> (64 \<le> k \<and> fl_leafHashes s' = map (leafHash (sha256 P)) (ds @ [d])))"
proof (rule conjI)
  note s = appended_dir [OF assms]
  have "fl_dir (snd (fl_append P d s)) = fl_dir (fl_write P d s)"
    by (simp add: fl_append_def fl_points_def fl_write_def Let_def)
  then have w: "fl_replay (fl_dir (fl_write P d s)) = Inr (fl_leafHashes s @ [leafHash (sha256 P) d])"
    using fl_ok_replay [OF fl_append_ok [OF s(1), of d]]
    by (simp add: fl_append_def fl_points_def fl_write_def Let_def)
  show "\<forall>n < length (fl_points P d s). \<exists>s'. openFileLog i key (fl_dir (fl_points P d s ! n)) = Inr s'
      \<and> fl_leafHashes s' = map (leafHash (sha256 P)) (if n = 0 then ds else ds @ [d])
      \<and> (\<exists>more. fl_leafHashes s' = fl_leafHashes (fl_points P d s ! n) @ more)"
    using fl_ok_replay [OF s(1)] s(2) w
    by (auto simp: fl_points_def Let_def openFileLog_def less_Suc_eq fl_write_def nth_Cons')
  show "\<forall>k. case openFileLog i key (fl_dir (fl_torn P k d s)) of
         Inl e \<Rightarrow> 0 < k \<and> k < 64
       | Inr s' \<Rightarrow> (k = 0 \<and> fl_leafHashes s' = map (leafHash (sha256 P)) ds)
           \<or> (64 \<le> k \<and> fl_leafHashes s' = map (leafHash (sha256 P)) (ds @ [d]))"
    using s(2) by (simp add: openFileLog_def replay_fl_torn [OF s(1)])
qed

text \<open>
  The tree head a \<^verbatim>\<open>FileLog\<close> signs commits to its leaves: with a generated key it verifies
  under the key's directory entry, its size and root are those of the leaves appended, and it is the
  checkpoint kept on disk.
\<close>

theorem file_log_sth:
  assumes "signs P" "generated P (fl_logKey s)" "fl_ok P s" "fl_size s \<le> 2 ^ 30"
  shows "\<exists>sth s'. fl_buildSTH P s ts = Some (Inr (sth, s'))
    \<and> hv_ok (hybridVerify P (sthSigningMessage P (sthCore sth)) (sth_signature sth)
         (directoryEntry (fl_logKey s)))
    \<and> tree_size sth = int (fl_size s)
    \<and> multihashDigest (root_hash sth) = Inr (MTH (sha256 P) (fl_leafHashes s))
    \<and> lastCheckpoint s' = Some sth"
proof -
  have H: "\<forall>x. length (sha256 P x) = 32" using assms(3) by (simp add: fl_ok_def digests32_def)
  have r: "merkleRoot (sha256 P) (fl_leafHashes s) = Some (MTH (sha256 P) (fl_leafHashes s))"
    using assms(4) by (intro merkleRoot_MTH) (simp add: fl_size_def)
  have "length (MTH (sha256 P) (fl_leafHashes s)) = 32"
    using H assms(3) by (auto simp: MTH_def fl_ok_def intro!: length_mth)
  then have mh: "multihashFromDigest (MTH (sha256 P) (fl_leafHashes s))
        = Inr (MULTIHASH_PREFIX @ toHex (MTH (sha256 P) (fl_leafHashes s)))"
    "multihashDigest (MULTIHASH_PREFIX @ toHex (MTH (sha256 P) (fl_leafHashes s)))
        = Inr (MTH (sha256 P) (fl_leafHashes s))"
    by (simp_all add: multihashFromDigest_ok)
  have "sthCore (signSTH P k core) = core" for k core
    by (simp add: sthCore_def signSTH_def Let_def)
  then show ?thesis using hybridVerify_hybridSign [OF assms(1,2)]
    by (simp add: fl_buildSTH_def fl_rootHash_def rootOf_def r mh Let_def lastCheckpoint_def)
      (simp add: signSTH_def Let_def fl_size_def mh)
qed

section \<open>Witnesses\<close>

definition toyFileLog :: FileLog where
  "toyFileLog = (case openFileLog ''log'' (toyKey ''log-key'') \<lparr>ld_leaves = None, ld_checkpoint = None\<rparr> of
     Inr s \<Rightarrow> s)"

lemma toyFileLog: "openFileLog ''log'' (toyKey ''log-key'') \<lparr>ld_leaves = None, ld_checkpoint = None\<rparr> = Inr toyFileLog"
  by (simp add: toyFileLog_def openFileLog_def fl_replay_def)

theorem memory_log_leaf_verifies_witness:
  "\<exists>path rt ps r s3. ml_inclusionAuditPath toyEnv s3 1 = Some (Inr path)
    \<and> ml_rootHash toyEnv s3 = Some (Inr rt)
    \<and> mapM multihashDigest path = Inr ps \<and> multihashDigest rt = Inr r
    \<and> verifyInclusion (sha256 toyEnv) (leafHash (sha256 toyEnv) [2]) 1 (int (ml_size s3)) ps r"
proof -
  let ?s1 = "snd (ml_append toyEnv [1] (newMemoryLog ''log'' (toyKey ''k'')))"
  let ?s3 = "snd (ml_append toyEnv [3] (snd (ml_append toyEnv [2] ?s1)))"
  from memory_log_leaf_verifies [OF digests32_toyEnv, of ?s1 "[[1]]" "''log''" "toyKey ''k''" "[2]"
      "fst (ml_append toyEnv [2] ?s1)" "snd (ml_append toyEnv [2] ?s1)" ?s3 "[[3]]"]
  show ?thesis by (fastforce simp: ml_append_def ml_size_def newMemoryLog_def Let_def)
qed

text \<open>Two appends and a third one that dies: before it, after the write, and after 10 and after 65 characters.\<close>

theorem file_log_recovers_witness:
  "let lg = snd (fl_append toyEnv [2] (snd (fl_append toyEnv [1] toyFileLog)));
       H = leafHash (sha256 toyEnv); open1 = openFileLog ''log'' (toyKey ''log-key'')
   in (\<exists>s'. open1 (fl_dir (fl_points toyEnv [3] lg ! 0)) = Inr s' \<and> fl_leafHashes s' = [H [1], H [2]])
    \<and> (\<exists>s'. open1 (fl_dir (fl_points toyEnv [3] lg ! 1)) = Inr s' \<and> fl_leafHashes s' = [H [1], H [2], H [3]])
    \<and> (\<exists>e. open1 (fl_dir (fl_torn toyEnv 10 [3] lg)) = Inl e)
    \<and> (\<exists>s'. open1 (fl_dir (fl_torn toyEnv 65 [3] lg)) = Inr s' \<and> fl_leafHashes s' = [H [1], H [2], H [3]])"
proof -
  let ?lg = "snd (fl_append toyEnv [2] (snd (fl_append toyEnv [1] toyFileLog)))"
  have "?lg = fold (\<lambda>d s. snd (fl_append toyEnv d s)) [[1], [2]] toyFileLog" by simp
  note r = file_log_recovers [OF digests32_toyEnv toyFileLog this, of "[3]"]
  have "length (fl_points toyEnv [3] ?lg) = 3" by (simp add: fl_points_def Let_def)
  with r [THEN conjunct1, rule_format, of 0] r [THEN conjunct1, rule_format, of 1]
    r [THEN conjunct2, rule_format, of 10] r [THEN conjunct2, rule_format, of 65]
  show ?thesis by (auto simp: Let_def split: sum.splits)
qed

theorem file_log_sth_witness:
  "\<exists>sth s'. fl_buildSTH toyEnv toyFileLog ''now'' = Some (Inr (sth, s'))
    \<and> hv_ok (hybridVerify toyEnv (sthSigningMessage toyEnv (sthCore sth)) (sth_signature sth)
         (directoryEntry (fl_logKey toyFileLog)))
    \<and> tree_size sth = int (fl_size toyFileLog)
    \<and> multihashDigest (root_hash sth) = Inr (MTH (sha256 toyEnv) (fl_leafHashes toyFileLog))
    \<and> lastCheckpoint s' = Some sth"
proof (rule file_log_sth [OF signs_toyEnv])
  show "fl_ok toyEnv toyFileLog"
    by (rule openFileLog_ok [OF digests32_toyEnv toyFileLog]) simp
qed (simp_all add: toyFileLog_def openFileLog_def fl_replay_def fl_size_def generated_toyKey)

end
