(* ===== verification/Status.thy ===== *)
theory Status
  imports Sign
begin

text \<open>
  \<^verbatim>\<open>src/src/platform/status.ts\<close>, \<^verbatim>\<open>outcome.ts\<close> and \<^verbatim>\<open>algorithms.ts\<close>: the result vocabulary, the two
  folds of a report of checks into a headline, and the algorithm registry.  A check is its status and
  its reason code; the display fields (\<^verbatim>\<open>detail\<close>, \<^verbatim>\<open>evidence_ref\<close>, \<^verbatim>\<open>limitation\<close>, the algorithm label) are
  text for people and no code reads them.
\<close>

section \<open>status.ts\<close>

datatype CheckStatus = Pass | Fail | Unknown | NotApplicable | NotChecked

datatype OverallStatus = OPass | OFail | OUnknown

record Check =
  c_status :: CheckStatus
  c_reason :: string

definition check :: "CheckStatus \<Rightarrow> string \<Rightarrow> Check" where
  "check s r = \<lparr>c_status = s, c_reason = r\<rparr>"

lemma check_simps [simp]: "c_status (check s r) = s" "c_reason (check s r) = r"
  by (simp_all add: check_def)

lemma check_inject [simp]: "check s r = check s' r' \<longleftrightarrow> s = s' \<and> r = r'"
  by (simp add: check_def)

type_synonym Checks = "(string \<times> Check) list"

definition fine :: "CheckStatus \<Rightarrow> bool" where
  "fine s = (s = Pass \<or> s = NotApplicable)"

definition overallStep :: "Checks \<Rightarrow> string \<Rightarrow> OverallStatus \<times> string list \<Rightarrow> OverallStatus \<times> string list" where
  "overallStep checks name = (\<lambda>(overall, reasons).
     case map_of checks name of
       None \<Rightarrow> (if overall = OFail then OFail else OUnknown, reasons @ [name @ '': missing''])
     | Some c \<Rightarrow>
         if c_status c = Pass \<or> c_status c = NotApplicable then (overall, reasons)
         else (if c_status c = Fail then OFail else if overall = OPass then OUnknown else overall,
               reasons @ [name @ '': '' @ c_reason c]))"

definition overallOf :: "Checks \<Rightarrow> string list \<Rightarrow> OverallStatus \<times> string list" where
  "overallOf checks required = fold (overallStep checks) required (OPass, [])"

section \<open>outcome.ts\<close>

datatype Outcome = Verified | Invalid | Unsupported | Stale | Incomplete | Indeterminate

definition STALE :: "string list" where
  "STALE = [''attestation_stale'', ''trust_snapshot_stale'', ''checkpoint_stale'', ''trust_bundle_stale'',
     ''certificate_expired'', ''collateral_stale'', ''decision_expired'', ''request_expired'']"

definition INCOMPLETE :: "string list" where
  "INCOMPLETE = [''missing_evidence'', ''sequence_gap'', ''no_confirmation'', ''confirmation_unavailable'',
     ''incomplete_interval'']"

definition UNSUPPORTED :: "string list" where
  "UNSUPPORTED = [''unsupported_algorithm'', ''unsupported_schema'', ''unsupported_platform'',
     ''unexpected_critical_field'', ''unsupported_version'']"

record Found =
  f_invalid :: bool
  f_unsupported :: bool
  f_stale :: bool
  f_incomplete :: bool
  f_indeterminate :: bool

definition classifyStep :: "Checks \<Rightarrow> string \<Rightarrow> Found \<times> string list \<Rightarrow> Found \<times> string list" where
  "classifyStep checks name = (\<lambda>(found, reasons).
     case map_of checks name of
       None \<Rightarrow> (found\<lparr>f_indeterminate := True\<rparr>, reasons @ [name @ '': missing''])
     | Some c \<Rightarrow>
         if c_status c = Pass \<or> c_status c = NotApplicable then (found, reasons)
         else (if c_reason c \<in> set UNSUPPORTED then found\<lparr>f_unsupported := True\<rparr>
               else if c_reason c \<in> set STALE then found\<lparr>f_stale := True\<rparr>
               else if c_reason c \<in> set INCOMPLETE then found\<lparr>f_incomplete := True\<rparr>
               else if c_status c = Fail then found\<lparr>f_invalid := True\<rparr>
               else found\<lparr>f_indeterminate := True\<rparr>,
               reasons @ [name @ '': '' @ c_reason c]))"

definition noneFound :: Found where
  "noneFound = \<lparr>f_invalid = False, f_unsupported = False, f_stale = False, f_incomplete = False,
     f_indeterminate = False\<rparr>"

definition headline :: "Found \<Rightarrow> Outcome" where
  "headline found = (if f_invalid found then Invalid else if f_unsupported found then Unsupported
     else if f_stale found then Stale else if f_incomplete found then Incomplete
     else if f_indeterminate found then Indeterminate else Verified)"

definition classifyOutcome :: "Checks \<Rightarrow> string list \<Rightarrow> Outcome \<times> string list" where
  "classifyOutcome checks required =
     (let (found, reasons) = fold (classifyStep checks) required (noneFound, [])
      in (headline found, reasons))"

section \<open>algorithms.ts\<close>

datatype AlgorithmPurpose = ASignature | ADigest | ACanonicalization | ACommitment | ATransparency

datatype AlgorithmStatus = AActive | ADeprecated | ARetired

record AlgorithmEntry =
  alg_id :: string
  alg_purpose :: AlgorithmPurpose
  alg_status :: AlgorithmStatus

definition ALGORITHMS :: "AlgorithmEntry list" where
  "ALGORITHMS = [
     \<lparr>alg_id = ''ml-dsa-65+ed25519'', alg_purpose = ASignature, alg_status = AActive\<rparr>,
     \<lparr>alg_id = ''sha-256'', alg_purpose = ADigest, alg_status = AActive\<rparr>,
     \<lparr>alg_id = ''cbor-cde'', alg_purpose = ACanonicalization, alg_status = AActive\<rparr>,
     \<lparr>alg_id = ''salted-sha-256'', alg_purpose = ACommitment, alg_status = AActive\<rparr>,
     \<lparr>alg_id = ''hmac-sha-256'', alg_purpose = ACommitment, alg_status = AActive\<rparr>,
     \<lparr>alg_id = ''rfc6962-sha-256'', alg_purpose = ATransparency, alg_status = AActive\<rparr>]"

definition usableAlgorithm :: "string \<Rightarrow> AlgorithmPurpose \<Rightarrow> AlgorithmEntry option" where
  "usableAlgorithm i purpose = (case find (\<lambda>a. alg_id a = i) ALGORITHMS of
       None \<Rightarrow> None
     | Some entry \<Rightarrow> if alg_purpose entry \<noteq> purpose \<or> alg_status entry = ARetired then None else Some entry)"

section \<open>Lemmas\<close>

definition statusOf :: "Checks \<Rightarrow> string \<Rightarrow> CheckStatus option" where
  "statusOf checks name = map_option c_status (map_of checks name)"

lemma overall_fold:
  "fst (fold (overallStep checks) required (o0, rs)) =
     (if o0 = OFail \<or> (\<exists>n \<in> set required. statusOf checks n = Some Fail) then OFail
      else if o0 = OUnknown \<or> (\<exists>n \<in> set required. statusOf checks n \<notin> {Some Pass, Some NotApplicable})
      then OUnknown else OPass)"
proof (induction required arbitrary: o0 rs)
  case Nil
  show ?case by (cases o0) auto
next
  case (Cons n ns)
  show ?case
  proof (cases "map_of checks n")
    case None
    then show ?thesis by (cases o0) (auto simp: overallStep_def [of checks n] Cons.IH statusOf_def [of checks n])
  next
    case (Some c)
    then show ?thesis
      by (cases o0; cases "c_status c") (auto simp: overallStep_def [of checks n] Cons.IH statusOf_def [of checks n])
  qed
qed

lemma overall_spec:
  "fst (overallOf checks required) =
     (if \<exists>n \<in> set required. statusOf checks n = Some Fail then OFail
      else if \<exists>n \<in> set required. statusOf checks n \<notin> {Some Pass, Some NotApplicable} then OUnknown
      else OPass)"
  by (simp add: overallOf_def overall_fold)

definition whichFound :: "Checks \<Rightarrow> string \<Rightarrow> Outcome" where
  "whichFound checks n = (case map_of checks n of None \<Rightarrow> Indeterminate
     | Some c \<Rightarrow> if fine (c_status c) then Verified
         else if c_reason c \<in> set UNSUPPORTED then Unsupported
         else if c_reason c \<in> set STALE then Stale
         else if c_reason c \<in> set INCOMPLETE then Incomplete
         else if c_status c = Fail then Invalid else Indeterminate)"

lemma classify_fold:
  "fst (fold (classifyStep checks) required (f, rs)) =
     \<lparr>f_invalid = f_invalid f \<or> (\<exists>n \<in> set required. whichFound checks n = Invalid),
      f_unsupported = f_unsupported f \<or> (\<exists>n \<in> set required. whichFound checks n = Unsupported),
      f_stale = f_stale f \<or> (\<exists>n \<in> set required. whichFound checks n = Stale),
      f_incomplete = f_incomplete f \<or> (\<exists>n \<in> set required. whichFound checks n = Incomplete),
      f_indeterminate = f_indeterminate f \<or> (\<exists>n \<in> set required. whichFound checks n = Indeterminate)\<rparr>"
proof (induction required arbitrary: f rs)
  case (Cons n ns)
  show ?case
  proof (cases "map_of checks n")
    case None
    then show ?thesis by (simp add: classifyStep_def [of checks n] Cons.IH whichFound_def [of checks n])
  next
    case (Some c)
    then show ?thesis by (simp add: classifyStep_def [of checks n] Cons.IH whichFound_def [of checks n] fine_def)
  qed
qed simp

lemma classifyOutcome_spec:
  "fst (classifyOutcome checks required) =
     (let W = whichFound checks ` set required in
      if Invalid \<in> W then Invalid else if Unsupported \<in> W then Unsupported else if Stale \<in> W then Stale
      else if Incomplete \<in> W then Incomplete else if Indeterminate \<in> W then Indeterminate else Verified)"
proof -
  have mem: "(x \<in> whichFound checks ` set required) = (\<exists>n \<in> set required. whichFound checks n = x)" for x
    by auto
  have "fst (classifyOutcome checks required) = headline (fst (fold (classifyStep checks) required (noneFound, [])))"
    by (simp add: classifyOutcome_def case_prod_beta)
  then show ?thesis by (simp add: classify_fold mem headline_def Let_def) (simp add: noneFound_def)
qed

lemma whichFound_Verified: "whichFound checks n = Verified \<longleftrightarrow> statusOf checks n \<in> {Some Pass, Some NotApplicable}"
  by (auto simp: whichFound_def statusOf_def fine_def split: option.splits)

lemma outcome_verified_iff:
  "fst (classifyOutcome checks required) = Verified \<longleftrightarrow>
     (\<forall>n \<in> set required. statusOf checks n \<in> {Some Pass, Some NotApplicable})"
proof -
  have only: "W \<subseteq> {Verified}" if "Invalid \<notin> W" "Unsupported \<notin> W" "Stale \<notin> W" "Incomplete \<notin> W"
    "Indeterminate \<notin> W" for W
  proof
    fix x assume "x \<in> W"
    with that show "x \<in> {Verified}" by (cases x) auto
  qed
  have "fst (classifyOutcome checks required) = Verified \<longleftrightarrow> whichFound checks ` set required \<subseteq> {Verified}"
    unfolding classifyOutcome_spec Let_def using only [of "whichFound checks ` set required"]
    by (auto split: if_splits)
  also have "\<dots> \<longleftrightarrow> (\<forall>n \<in> set required. whichFound checks n = Verified)" by auto
  finally have "fst (classifyOutcome checks required) = Verified \<longleftrightarrow> (\<forall>n \<in> set required. whichFound checks n = Verified)" .
  then show ?thesis by (simp only: whichFound_Verified)
qed

text \<open>Reports list each check once and require all of them.\<close>

lemma outcome_verified_all:
  assumes "distinct (map fst checks)"
  shows "fst (classifyOutcome checks (map fst checks)) = Verified \<longleftrightarrow>
    (\<forall>(n, c) \<in> set checks. c_status c \<in> {Pass, NotApplicable})"
proof -
  have "statusOf checks (fst e) = Some (c_status (snd e))" if "e \<in> set checks" for e
    using map_of_is_SomeI [OF assms, of "fst e" "snd e"] that by (simp add: statusOf_def)
  then have "(\<forall>e \<in> set checks. statusOf checks (fst e) \<in> {Some Pass, Some NotApplicable})
      = (\<forall>e \<in> set checks. c_status (snd e) \<in> {Pass, NotApplicable})" by (intro ball_cong refl) simp
  then show ?thesis unfolding outcome_verified_iff by (simp add: case_prod_beta)
qed

lemma usable_signature_iff:
  "(\<exists>e. usableAlgorithm i ASignature = Some e) = (i = SIGNATURE_ALG)"
proof
  assume "\<exists>e. usableAlgorithm i ASignature = Some e"
  then obtain e where e: "find (\<lambda>a. alg_id a = i) ALGORITHMS = Some e" "alg_purpose e = ASignature"
    by (auto simp: usableAlgorithm_def split: option.splits if_splits)
  have "list_all (\<lambda>e. alg_purpose e = ASignature \<longrightarrow> alg_id e = SIGNATURE_ALG) ALGORITHMS" by code_simp
  moreover from e(1) have "e \<in> set ALGORITHMS" "alg_id e = i" unfolding find_Some_iff by auto
  ultimately show "i = SIGNATURE_ALG" using e(2) unfolding list_all_iff by blast
next
  assume "i = SIGNATURE_ALG"
  moreover have "usableAlgorithm SIGNATURE_ALG ASignature \<noteq> None" by code_simp
  ultimately show "\<exists>e. usableAlgorithm i ASignature = Some e" by blast
qed

section \<open>Properties\<close>

text \<open>
  The two headlines agree and never promote: a report is \<^verbatim>\<open>pass\<close> (and its outcome \<^verbatim>\<open>verified\<close>)
  exactly when every required check is present and is \<^verbatim>\<open>pass\<close> or \<^verbatim>\<open>not_applicable\<close>; one \<^verbatim>\<open>fail\<close> among them
  makes it \<^verbatim>\<open>fail\<close>, wherever it stands in the list.
\<close>

theorem headlines_never_promote:
  "(fst (overallOf checks required) = OPass) = (\<forall>n \<in> set required. statusOf checks n \<in> {Some Pass, Some NotApplicable})
   \<and> (fst (overallOf checks required) = OFail) = (\<exists>n \<in> set required. statusOf checks n = Some Fail)
   \<and> (fst (classifyOutcome checks required) = Verified) = (fst (overallOf checks required) = OPass)"
  by (auto simp: overall_spec outcome_verified_iff)

theorem headlines_never_promote_witness:
  "fst (overallOf [(''a'', check Pass ''ok''), (''b'', check Unknown ''trust_snapshot_stale'')] [''a'', ''b'']) \<noteq> OPass
   \<and> fst (classifyOutcome [(''a'', check Pass ''ok''), (''b'', check Unknown ''trust_snapshot_stale'')] [''a'', ''b'']) \<noteq> Verified"
proof -
  let ?c = "[(''a'', check Pass ''ok''), (''b'', check Unknown ''trust_snapshot_stale'')]"
  have "statusOf ?c ''b'' = Some Unknown" by (simp add: statusOf_def)
  then show ?thesis using headlines_never_promote [of ?c "[''a'', ''b'']"] by simp
qed

text \<open>
  The registry fails closed: an identifier is usable for a purpose only if it is listed for that
  purpose and not retired, and the hybrid scheme is the only usable signature algorithm.
\<close>

theorem usable_signature_algorithms:
  "(\<exists>e. usableAlgorithm i ASignature = Some e) = (i = SIGNATURE_ALG)"
  by (rule usable_signature_iff)

end
