(* ===== verification/Trust.thy ===== *)
theory Trust
  imports Status
begin

text \<open>
  \<^verbatim>\<open>src/src/platform/trust.ts\<close>: the verifier's trust snapshot and \<^verbatim>\<open>TrustStore.evaluate\<close>, which decides
  whether a key is accepted for a purpose at a time.  The results characterise a \<^verbatim>\<open>pass\<close> completely, show
  that a revoked or compromised key passes only with an independent proof of the signing time, and that a stale
  snapshot never gives a \<^verbatim>\<open>pass\<close>.
\<close>

section \<open>trust.ts\<close>

datatype KeyPurpose =
    PEvidence | PLog | PWitness | PBuilder | PPolicy | PEnforcement | PSource | PIdentityIssuer | PEvaluator

datatype KeyStatus = KActive | KRotated | KRevoked | KCompromised

record KeyRecord =
  kr_key_id :: string
  kr_entry :: DirectoryEntry
  kr_purposes :: "KeyPurpose list"
  kr_owner :: string
  kr_valid_from :: string
  kr_valid_until :: "string option"
  kr_status :: KeyStatus
  kr_rotated_at :: "string option"
  kr_successor :: "string option"
  kr_revoked_at :: "string option"
  kr_compromised_since :: "string option"

record TrustSnapshot =
  ts_schema :: string
  ts_id :: string
  ts_as_of :: string
  ts_max_age_ms :: "int option"
  ts_keys :: "KeyRecord list"

text \<open>Times are milliseconds or NaN; an option around one is a field that may be absent.\<close>

record TrustQuery =
  q_keyId :: string
  q_purpose :: KeyPurpose
  q_now :: time
  q_claimedSignedAt :: "time option"
  q_provenSignedBefore :: "time option"

record TrustStore =
  st_keys :: "(string \<times> KeyRecord) list"
  st_id :: string
  st_as_of :: string
  st_max_age_ms :: "int option"

definition newTrustStore :: "TrustSnapshot \<Rightarrow> TrustStore res" where
  "newTrustStore snapshot =
     (if ts_schema snapshot \<noteq> ''cool.trust-snapshot.v1'' then Inl (Error ''unsupported trust snapshot'')
      else Inr \<lparr>st_keys = fold (\<lambda>k m. mput (kr_key_id k) k m) (ts_keys snapshot) [],
           st_id = ts_id snapshot, st_as_of = ts_as_of snapshot,
           st_max_age_ms = (case ts_max_age_ms snapshot of Some m \<Rightarrow> if m = 0 then None else Some m | None \<Rightarrow> None)\<rparr>)"

definition trust_empty :: "env \<Rightarrow> string \<Rightarrow> TrustStore res" where
  "trust_empty P i = newTrustStore \<lparr>ts_schema = ''cool.trust-snapshot.v1'', ts_id = i,
     ts_as_of = to_iso P 0, ts_max_age_ms = None, ts_keys = []\<rparr>"

definition trust_get :: "TrustStore \<Rightarrow> string \<Rightarrow> KeyRecord option" where
  "trust_get st key_id = map_of (st_keys st) key_id"

definition trust_snapshot :: "TrustStore \<Rightarrow> TrustSnapshot" where
  "trust_snapshot st = \<lparr>ts_schema = ''cool.trust-snapshot.v1'', ts_id = st_id st, ts_as_of = st_as_of st,
     ts_max_age_ms = st_max_age_ms st, ts_keys = map snd (st_keys st)\<rparr>"

text \<open>A string field that is absent or empty is falsy.\<close>

definition truthy :: "string option \<Rightarrow> bool" where
  "truthy s = (case s of Some t \<Rightarrow> t \<noteq> [] | None \<Rightarrow> False)"

definition signedAt :: "TrustQuery \<Rightarrow> time" where
  "signedAt q = (case q_provenSignedBefore q of Some t \<Rightarrow> t
     | None \<Rightarrow> case q_claimedSignedAt q of Some t \<Rightarrow> t | None \<Rightarrow> q_now q)"

text \<open>The age of the snapshot; NaN when one of the two times is.\<close>

definition t_diff :: "time \<Rightarrow> time \<Rightarrow> time" where
  "t_diff a b = (case (a, b) of (Some x, Some y) \<Rightarrow> Some (x - y) | _ \<Rightarrow> None)"

definition snapshotStale :: "env \<Rightarrow> TrustStore \<Rightarrow> time \<Rightarrow> bool" where
  "snapshotStale P st now = (case st_max_age_ms st of None \<Rightarrow> False
     | Some m \<Rightarrow> t_gt (t_diff now (date_parse P (st_as_of st))) (Some m))"

definition evaluate :: "env \<Rightarrow> TrustStore \<Rightarrow> TrustQuery \<Rightarrow> Check" where
  "evaluate P st q =
     (case map_of (st_keys st) (q_keyId q) of
        None \<Rightarrow> check Fail ''untrusted_key''
      | Some k \<Rightarrow>
          if q_purpose q \<notin> set (kr_purposes k) then check Fail ''wrong_key_purpose''
          else if t_lt (signedAt q) (date_parse P (kr_valid_from k)) then check Fail ''key_not_yet_valid''
          else if truthy (kr_valid_until k) \<and> t_gt (signedAt q) (date_parse P (the (kr_valid_until k)))
          then check Fail ''key_expired''
          else if kr_status k = KCompromised
            \<and> (let since = date_parse P (case kr_compromised_since k of Some t \<Rightarrow> t | None \<Rightarrow> kr_valid_from k)
               in case q_provenSignedBefore q of None \<Rightarrow> True | Some t \<Rightarrow> t_ge t since)
          then check Fail ''key_compromised''
          else if kr_status k = KRevoked
            \<and> (let revoked = date_parse P (case kr_revoked_at k of Some t \<Rightarrow> t | None \<Rightarrow> kr_valid_from k)
               in case q_provenSignedBefore q of None \<Rightarrow> True | Some t \<Rightarrow> t_ge t revoked)
          then check Fail ''key_revoked''
          else if kr_status k = KRotated \<and> truthy (kr_rotated_at k)
            \<and> t_gt (signedAt q) (date_parse P (the (kr_rotated_at k)))
          then check Fail ''key_rotated''
          else if snapshotStale P st (q_now q) then check Unknown ''trust_snapshot_stale''
          else check Pass ''key_trusted'')"

section \<open>Lemmas\<close>

text \<open>When a key stopped being good: its compromise, revocation or rotation.\<close>

definition endedAt :: "env \<Rightarrow> KeyRecord \<Rightarrow> time option" where
  "endedAt P k = (case kr_status k of
       KActive \<Rightarrow> None
     | KCompromised \<Rightarrow> Some (date_parse P (case kr_compromised_since k of Some t \<Rightarrow> t | None \<Rightarrow> kr_valid_from k))
     | KRevoked \<Rightarrow> Some (date_parse P (case kr_revoked_at k of Some t \<Rightarrow> t | None \<Rightarrow> kr_valid_from k))
     | KRotated \<Rightarrow> (if truthy (kr_rotated_at k) then Some (date_parse P (the (kr_rotated_at k))) else None))"

lemma evaluate_pass_iff:
  "c_status (evaluate P st q) = Pass \<longleftrightarrow>
     (\<exists>k. trust_get st (q_keyId q) = Some k \<and> q_purpose q \<in> set (kr_purposes k)
        \<and> \<not> t_lt (signedAt q) (date_parse P (kr_valid_from k))
        \<and> \<not> (truthy (kr_valid_until k) \<and> t_gt (signedAt q) (date_parse P (the (kr_valid_until k))))
        \<and> (kr_status k \<in> {KCompromised, KRevoked} \<longrightarrow>
             (\<exists>t. q_provenSignedBefore q = Some t \<and> \<not> t_ge t (the (endedAt P k))))
        \<and> (kr_status k = KRotated \<and> truthy (kr_rotated_at k) \<longrightarrow> \<not> t_gt (signedAt q) (the (endedAt P k)))
        \<and> \<not> snapshotStale P st (q_now q))"
  by (cases "map_of (st_keys st) (q_keyId q)")
    (auto simp: evaluate_def trust_get_def endedAt_def Let_def split: option.splits)

text \<open>What an accepted key is, read off the record: in the snapshot and for the purpose; the signing time taken for the
  signature (the proven one if there is one, else the claimed one, else now) not before \<^verbatim>\<open>valid_from\<close> and not after \<^verbatim>\<open>valid_until\<close>;
  revoked or compromised only with a proven time that is not at or after that; rotated only if signed no later; the snapshot
  fresh.  Comparisons with an unreadable date are false.\<close>

definition keyAccepted :: "env \<Rightarrow> TrustStore \<Rightarrow> TrustQuery \<Rightarrow> KeyRecord \<Rightarrow> bool" where
  "keyAccepted P st q k = (trust_get st (q_keyId q) = Some k \<and> q_purpose q \<in> set (kr_purposes k)
     \<and> \<not> t_lt (signedAt q) (date_parse P (kr_valid_from k))
     \<and> (\<forall>u. kr_valid_until k = Some u \<longrightarrow> u \<noteq> [] \<longrightarrow> \<not> t_gt (signedAt q) (date_parse P u))
     \<and> (kr_status k \<in> {KCompromised, KRevoked} \<longrightarrow>
          (\<exists>t. q_provenSignedBefore q = Some t \<and> \<not> t_ge t (the (endedAt P k))))
     \<and> (kr_status k = KRotated \<longrightarrow> (\<forall>r. kr_rotated_at k = Some r \<longrightarrow> r \<noteq> [] \<longrightarrow> \<not> t_gt (signedAt q) (date_parse P r)))
     \<and> (\<forall>m. st_max_age_ms st = Some m \<longrightarrow> \<not> t_gt (t_diff (q_now q) (date_parse P (st_as_of st))) (Some m)))"

lemma evaluate_accepted: "c_status (evaluate P st q) = Pass \<longleftrightarrow> (\<exists>k. keyAccepted P st q k)"
proof -
  have "keyAccepted P st q k \<longleftrightarrow> (trust_get st (q_keyId q) = Some k \<and> q_purpose q \<in> set (kr_purposes k)
        \<and> \<not> t_lt (signedAt q) (date_parse P (kr_valid_from k))
        \<and> \<not> (truthy (kr_valid_until k) \<and> t_gt (signedAt q) (date_parse P (the (kr_valid_until k))))
        \<and> (kr_status k \<in> {KCompromised, KRevoked} \<longrightarrow>
             (\<exists>t. q_provenSignedBefore q = Some t \<and> \<not> t_ge t (the (endedAt P k))))
        \<and> (kr_status k = KRotated \<and> truthy (kr_rotated_at k) \<longrightarrow> \<not> t_gt (signedAt q) (the (endedAt P k)))
        \<and> \<not> snapshotStale P st (q_now q))" for k
    by (auto simp: keyAccepted_def truthy_def snapshotStale_def endedAt_def split: option.splits)
  then show ?thesis unfolding evaluate_pass_iff by simp
qed

text \<open>A time that can be read and is not outside two dates, as far as these can be read.\<close>

definition withinDates :: "env \<Rightarrow> string \<Rightarrow> string \<Rightarrow> time \<Rightarrow> bool" where
  "withinDates P first final tm = (case tm of None \<Rightarrow> False | Some t \<Rightarrow>
     (case date_parse P first of None \<Rightarrow> True | Some f \<Rightarrow> f \<le> t)
     \<and> (case date_parse P final of None \<Rightarrow> True | Some u \<Rightarrow> t \<le> u))"

lemma withinDatesI:
  "tm \<noteq> None \<Longrightarrow> \<not> t_lt tm (date_parse P first) \<Longrightarrow> \<not> t_gt tm (date_parse P final) \<Longrightarrow> withinDates P first final tm"
  by (auto simp: withinDates_def not_less split: option.splits)

lemma evaluate_statuses: "c_status (evaluate P st q) \<in> {Pass, Fail, Unknown}"
  by (auto simp: evaluate_def split: option.split)

lemma newTrustStore_get:
  "newTrustStore s = Inr st \<Longrightarrow> trust_get st i = find (\<lambda>k. kr_key_id k = i) (rev (ts_keys s))"
proof -
  assume "newTrustStore s = Inr st"
  then have "st_keys st = fold (\<lambda>k m. mput (kr_key_id k) k m) (ts_keys s) []"
    by (auto simp: newTrustStore_def split: if_splits)
  moreover have all: "map_of (fold (\<lambda>k m. mput (kr_key_id k) k m) ks m) i
      = (case find (\<lambda>k. kr_key_id k = i) (rev ks) of Some k \<Rightarrow> Some k | None \<Rightarrow> map_of m i)" for ks m
    by (induction ks rule: rev_induct) auto
  from all [of "ts_keys s" "[]"]
  have "map_of (fold (\<lambda>k m. mput (kr_key_id k) k m) (ts_keys s) []) i = find (\<lambda>k. kr_key_id k = i) (rev (ts_keys s))"
    by (simp split: option.splits)
  ultimately show ?thesis by (simp add: trust_get_def)
qed

section \<open>Properties\<close>

text \<open>
  The comparison is \<^verbatim>\<open>provenSignedBefore >= since\<close>, which is false of NaN: a proof whose time cannot be read
  is taken as one that predates the revocation.
\<close>

lemma unreadable_proof_accepted:
  assumes "trust_get st (q_keyId q) = Some k" "q_purpose q \<in> set (kr_purposes k)"
    and "kr_status k \<in> {KCompromised, KRevoked}" "q_provenSignedBefore q = Some None"
    and "\<not> snapshotStale P st (q_now q)"
  shows "c_status (evaluate P st q) = Pass"
  unfolding evaluate_pass_iff using assms by (auto simp: signedAt_def)

text \<open>
  \<^bold>\<open>C8.\<close> Revocation and compromise are conservative: if a key whose record says revoked or compromised at a
  readable time is accepted, and the query does not carry a proven signing time that is unreadable (NaN), then the
  query carries an independently proven signing time strictly before the revocation; and what the evidence
  claims about its own signing time never decides: with the proof any claim is accepted, without it none is.
\<close>

theorem revoked_key_needs_proof:
  assumes "c_status (evaluate P st q) = Pass" "trust_get st (q_keyId q) = Some k"
    and "kr_status k \<in> {KCompromised, KRevoked}" "endedAt P k = Some (Some since)"
    and "q_provenSignedBefore q \<noteq> Some None"
  shows "(\<exists>x. q_provenSignedBefore q = Some (Some x) \<and> x < since)
    \<and> (\<forall>claim. c_status (evaluate P st (q\<lparr>q_claimedSignedAt := claim\<rparr>)) = Pass
        \<and> c_status (evaluate P st (q\<lparr>q_claimedSignedAt := claim, q_provenSignedBefore := None\<rparr>)) = Fail)"
proof -
  from assms(1)[unfolded evaluate_pass_iff] assms(2,3)
  obtain t where t: "q_provenSignedBefore q = Some t" "\<not> t_ge t (the (endedAt P k))" by auto
  with assms(4,5) have "\<exists>x. q_provenSignedBefore q = Some (Some x) \<and> x < since"
    by (cases t) (auto simp: not_le)
  moreover have "evaluate P st (q\<lparr>q_claimedSignedAt := claim\<rparr>) = evaluate P st q" for claim
    using t(1) by (cases "map_of (st_keys st) (q_keyId q)") (simp_all add: evaluate_def signedAt_def)
  moreover have "c_status (evaluate P st (q\<lparr>q_claimedSignedAt := claim, q_provenSignedBefore := None\<rparr>)) = Fail" for claim
    using assms(2,3) by (auto simp: evaluate_def trust_get_def)
  ultimately show ?thesis using assms(1) by simp
qed

text \<open>
  A trust answer relies on the snapshot alone: a key that is not in it, or not for the purpose, is never
  accepted, and once the snapshot is older than its stated bound no key is.
\<close>

theorem trust_needs_fresh_snapshot:
  assumes "c_status (evaluate P st q) = Pass"
  shows "(\<exists>k. trust_get st (q_keyId q) = Some k \<and> q_purpose q \<in> set (kr_purposes k))
    \<and> (\<forall>m n a. st_max_age_ms st = Some m \<longrightarrow> q_now q = Some n \<longrightarrow> date_parse P (st_as_of st) = Some a \<longrightarrow> n - a \<le> m)"
  using assms unfolding evaluate_pass_iff by (fastforce simp: snapshotStale_def t_diff_def)

section \<open>Witnesses\<close>

definition toyKeyRecord :: "string \<Rightarrow> KeyPurpose list \<Rightarrow> KeyRecord" where
  "toyKeyRecord i ps = \<lparr>kr_key_id = i, kr_entry = directoryEntry (toyKey i), kr_purposes = ps, kr_owner = ''o'',
     kr_valid_from = ''0'', kr_valid_until = None, kr_status = KActive, kr_rotated_at = None, kr_successor = None,
     kr_revoked_at = None, kr_compromised_since = None\<rparr>"

definition toyTrust :: "KeyRecord list \<Rightarrow> TrustStore" where
  "toyTrust ks = \<lparr>st_keys = map (\<lambda>k. (kr_key_id k, k)) ks, st_id = ''t'', st_as_of = ''100'', st_max_age_ms = Some 1000\<rparr>"

definition toyRevoked :: KeyRecord where
  "toyRevoked = (toyKeyRecord ''k'' [PLog])\<lparr>kr_status := KRevoked, kr_revoked_at := Some ''50''\<rparr>"

definition toyQuery :: TrustQuery where
  "toyQuery = \<lparr>q_keyId = ''k'', q_purpose = PLog, q_now = Some 200, q_claimedSignedAt = None,
     q_provenSignedBefore = Some (Some 40)\<rparr>"

lemma toyDates: "toyDate ''0'' = Some 0" "toyDate ''50'' = Some 50" "toyDate ''100'' = Some 100"
  by code_simp+

lemmas toy_trust = toyTrust_def toyQuery_def toyRevoked_def toyKeyRecord_def trust_get_def endedAt_def
  signedAt_def snapshotStale_def t_diff_def truthy_def toyDates

lemma toyRevoked_accepted: "c_status (evaluate toyEnv (toyTrust [toyRevoked]) toyQuery) = Pass"
  by (simp add: evaluate_pass_iff toy_trust)

theorem revoked_key_needs_proof_witness:
  "(\<exists>x. q_provenSignedBefore toyQuery = Some (Some x) \<and> x < 50)
    \<and> (\<forall>claim. c_status (evaluate toyEnv (toyTrust [toyRevoked]) (toyQuery\<lparr>q_claimedSignedAt := claim\<rparr>)) = Pass
        \<and> c_status (evaluate toyEnv (toyTrust [toyRevoked])
             (toyQuery\<lparr>q_claimedSignedAt := claim, q_provenSignedBefore := None\<rparr>)) = Fail)"
  by (rule revoked_key_needs_proof [OF toyRevoked_accepted, of toyRevoked]) (simp_all add: toy_trust)

theorem trust_needs_fresh_snapshot_witness:
  "(\<exists>k. trust_get (toyTrust [toyRevoked]) (q_keyId toyQuery) = Some k \<and> q_purpose toyQuery \<in> set (kr_purposes k))
    \<and> (200 :: int) - 100 \<le> 1000"
  using trust_needs_fresh_snapshot [OF toyRevoked_accepted] by (simp add: toy_trust)

end
