(* ===== verification/Signed.thy ===== *)
theory Signed
  imports Trust
begin

text \<open>
  \<^verbatim>\<open>src/src/authz/signed.ts\<close>: the signed objects of the authorization protocol.  A body type comes with its JSON
  value (\<open>enc\<close>), which is what is hashed.  The results: a signed object verifies; an object that verifies as trusted
  was signed under the key of the verifier's own snapshot (a substituted key is refused); and a digest binds its
  context and its body.
\<close>

section \<open>signed.ts\<close>

record 'b Signed =
  s_body :: 'b
  s_digest :: Multihash
  s_signature :: SignatureBlock
  s_signer :: DirectoryEntry

text \<open>Drop undefined members, at every depth.\<close>

fun clean :: "jsval \<Rightarrow> jsval" where
  "clean (JArr vs) = JArr (map clean vs)"
| "clean (JObj es) = JObj (map (\<lambda>(k, v). (k, clean v)) (filter (\<lambda>(k, v). v \<noteq> JUndef) es))"
| "clean v = v"

definition digestOf :: "env \<Rightarrow> string \<Rightarrow> jsval \<Rightarrow> Multihash" where
  "digestOf P context body =
     mhSha256 (sha256 P) (concatBytes [utf8 (context @ [CHR 0x00]), canonicalCbor P (clean body)])"

definition sigMessage :: "string \<Rightarrow> Multihash \<Rightarrow> bytes res" where
  "sigMessage context digest =
     rbind (multihashDigest digest) (\<lambda>d. Inr (concatBytes [utf8 (context @ ''.sig'' @ [CHR 0x00]), d]))"

definition signObject :: "env \<Rightarrow> ('b \<Rightarrow> jsval) \<Rightarrow> string \<Rightarrow> 'b \<Rightarrow> KeyPair \<Rightarrow> 'b Signed res" where
  "signObject P enc context body key =
     (let digest = digestOf P context (clean (enc body)) in
      rbind (sigMessage context digest) (\<lambda>m.
        Inr \<lparr>s_body = body, s_digest = digest, s_signature = hybridSign P m key, s_signer = directoryEntry key\<rparr>))"

text \<open>A key held by a service: \<^verbatim>\<open>sign\<close> may fail.\<close>

record AsyncSigner =
  as_keyId :: string
  as_sign :: "bytes \<Rightarrow> SignatureBlock res"
  as_directoryEntry :: DirectoryEntry

datatype SigningKey = InMemory KeyPair | Remote AsyncSigner

definition isAsyncSigner :: "SigningKey \<Rightarrow> bool" where
  "isAsyncSigner k = (case k of Remote _ \<Rightarrow> True | InMemory _ \<Rightarrow> False)"

definition signObjectAsync :: "env \<Rightarrow> ('b \<Rightarrow> jsval) \<Rightarrow> string \<Rightarrow> 'b \<Rightarrow> SigningKey \<Rightarrow> 'b Signed res" where
  "signObjectAsync P enc context body key = (case key of
       InMemory k \<Rightarrow> signObject P enc context body k
     | Remote k \<Rightarrow>
         (let digest = digestOf P context (clean (enc body)) in
          rbind (sigMessage context digest) (\<lambda>m.
          rbind (as_sign k m) (\<lambda>sig.
            Inr \<lparr>s_body = body, s_digest = digest, s_signature = sig, s_signer = as_directoryEntry k\<rparr>))))"

text \<open>Comparing a malformed key throws.\<close>

definition sameKey :: "DirectoryEntry \<Rightarrow> DirectoryEntry \<Rightarrow> bool res" where
  "sameKey a b =
     rbind (fromBase64Field (ed25519_pub a)) (\<lambda>ea.
     rbind (fromBase64Field (ed25519_pub b)) (\<lambda>eb.
       if \<not> bytesEqual ea eb then Inr False
       else rbind (fromBase64Field (ml_dsa_pub a)) (\<lambda>ma.
            rbind (fromBase64Field (ml_dsa_pub b)) (\<lambda>mb. Inr (bytesEqual ma mb)))))"

definition verifyIntegrity ::
  "env \<Rightarrow> ('b \<Rightarrow> jsval) \<Rightarrow> string \<Rightarrow> 'b Signed \<Rightarrow> DirectoryEntry option \<Rightarrow> (Check \<times> Check) res" where
  "verifyIntegrity P enc context s expectedKey =
     (let integrity = (if digestOf P context (enc (s_body s)) = s_digest s
            then check Pass ''digest_matches'' else check Fail ''digest_mismatch'')
      in if c_status integrity \<noteq> Pass then Inr (integrity, check NotChecked ''prerequisite_failed'')
      else rbind (case expectedKey of None \<Rightarrow> Inr True | Some k \<Rightarrow> sameKey k (s_signer s)) (\<lambda>same.
        if \<not> same then Inr (integrity, check Fail ''key_substitution'')
        else rbind (sigMessage context (s_digest s)) (\<lambda>m.
          let ok = hv_ok (hybridVerify P m (s_signature s) (case expectedKey of Some k \<Rightarrow> k | None \<Rightarrow> s_signer s))
          in Inr (integrity, if ok then check Pass ''signature_valid'' else check Fail ''signature_invalid''))))"

definition verifyTrusted ::
  "env \<Rightarrow> ('b \<Rightarrow> jsval) \<Rightarrow> string \<Rightarrow> 'b Signed \<Rightarrow> TrustStore \<Rightarrow> KeyPurpose \<Rightarrow> time \<Rightarrow> (Check \<times> Check \<times> Check) res" where
  "verifyTrusted P enc context s trust purpose now =
     rbind (verifyIntegrity P enc context s (map_option kr_entry (trust_get trust (sig_key_id (s_signature s)))))
       (\<lambda>(integrity, signature).
         let trusted = (if c_status signature \<noteq> Pass then check NotChecked ''prerequisite_failed''
              else evaluate P trust \<lparr>q_keyId = sig_key_id (s_signature s), q_purpose = purpose, q_now = now,
                     q_claimedSignedAt = None, q_provenSignedBefore = None\<rparr>)
         in Inr (integrity, signature, trusted))"

section \<open>Lemmas\<close>

lemma clean_JUndef [simp]: "clean v = JUndef \<longleftrightarrow> v = JUndef"
  by (cases v) simp_all

lemma clean_idem [simp]: "clean (clean v) = clean v"
proof (induction v rule: clean.induct)
  case (2 es)
  have keep: "filter (\<lambda>(k, v). v \<noteq> JUndef) (map (\<lambda>(k, v). (k, clean v)) (filter (\<lambda>(k, v). v \<noteq> JUndef) es))
      = map (\<lambda>(k, v). (k, clean v)) (filter (\<lambda>(k, v). v \<noteq> JUndef) es)"
    by (rule filter_True) (simp add: case_prod_beta)
  have "clean (clean (JObj es)) = JObj (map (\<lambda>(k, v). (k, clean v)) (map (\<lambda>(k, v). (k, clean v))
      (filter (\<lambda>(k, v). v \<noteq> JUndef) es)))" by (simp only: clean.simps keep)
  also have "\<dots> = clean (JObj es)" using 2 by (auto simp del: filter_map)
  finally show ?case .
qed auto

lemma sigMessage_ok: "digests32 P \<Longrightarrow> \<exists>m. sigMessage context (digestOf P context' v) = Inr m"
  by (auto simp: sigMessage_def digestOf_def digests32_def)

lemma sameKey_refl: "sameKey a b = Inr True \<Longrightarrow>
    fromBase64Field (ed25519_pub a) = fromBase64Field (ed25519_pub b)
  \<and> fromBase64Field (ml_dsa_pub a) = fromBase64Field (ml_dsa_pub b)"
  by (auto simp: sameKey_def rbind_Inr_iff split: if_splits)

lemma verifyIntegrity_pass:
  assumes "verifyIntegrity P enc context s e = Inr (i, g)" "c_status g = Pass"
  shows "c_status i = Pass \<and> s_digest s = digestOf P context (enc (s_body s))
    \<and> (\<exists>m. sigMessage context (s_digest s) = Inr m
        \<and> hv_ok (hybridVerify P m (s_signature s) (case e of Some k \<Rightarrow> k | None \<Rightarrow> s_signer s)))
    \<and> (\<forall>k. e = Some k \<longrightarrow> sameKey k (s_signer s) = Inr True)"
  using assms
  by (auto simp: verifyIntegrity_def Let_def rbind_Inr_iff split: if_splits option.splits)

lemma verifyIntegrity_signature_fails:
  "verifyIntegrity P enc context s e = Inr (i, g) \<Longrightarrow> c_status i \<noteq> Pass \<Longrightarrow> c_status g = NotChecked"
  by (auto simp: verifyIntegrity_def Let_def rbind_Inr_iff split: if_splits)

lemma signObject_total:
  assumes "digests32 P"
  obtains s where "signObject P enc context body key = Inr s" "s_body s = body"
    "sig_key_id (s_signature s) = keyId key" "s_signer s = directoryEntry key"
  using sigMessage_ok [OF assms, of "context" "context" "clean (enc body)"]
  by (auto simp: signObject_def Let_def)

lemma signObject_fields:
  "signObject P enc context body key = Inr s \<Longrightarrow>
     s_body s = body \<and> sig_key_id (s_signature s) = keyId key \<and> s_signer s = directoryEntry key"
  by (auto simp: signObject_def Let_def rbind_Inr_iff)

lemma signObject_verifies:
  assumes "digests32 P" "signs P" "generated P key" "signObject P enc context body key = Inr s"
  shows "verifyIntegrity P enc context s (Some (directoryEntry key))
    = Inr (check Pass ''digest_matches'', check Pass ''signature_valid'')"
proof -
  from assms(4) obtain m where m: "sigMessage context (digestOf P context (clean (enc body))) = Inr m"
    and s: "s = \<lparr>s_body = body, s_digest = digestOf P context (clean (enc body)),
       s_signature = hybridSign P m key, s_signer = directoryEntry key\<rparr>"
    by (auto simp: signObject_def Let_def rbind_Inr_iff)
  have d: "digestOf P context (clean (enc body)) = digestOf P context (enc body)" by (simp add: digestOf_def)
  obtain random oseed where "generateKeypair P random (keyId key) oseed = Inr key"
    using assms(3) unfolding generated_def by blast
  then have "\<exists>pk ek. directoryEntry key = \<lparr>ml_dsa_pub = toBase64Field pk, ed25519_pub = toBase64Field ek\<rparr>"
    by (cases key) (auto simp: generateKeypair_def rbind_Inr_iff Let_def case_prod_beta)
  then have "sameKey (directoryEntry key) (directoryEntry key) = Inr True" by (auto simp: sameKey_def)
  with m hybridVerify_hybridSign [OF assms(2,3), of m] show ?thesis
    by (simp add: verifyIntegrity_def s d Let_def)
qed

lemma append_NUL_inj: "CHR 0x00 \<notin> set a \<Longrightarrow> CHR 0x00 \<notin> set b \<Longrightarrow> a @ CHR 0x00 # x = b @ CHR 0x00 # y \<Longrightarrow> a = b \<and> x = y"
  by (induction a arbitrary: b) (auto simp: Cons_eq_append_conv)

section \<open>Properties\<close>

definition digestInput :: "env \<Rightarrow> string \<Rightarrow> jsval \<Rightarrow> bytes" where
  "digestInput P context v = utf8 (context @ [CHR 0x00]) @ canonicalCbor P (clean v)"

text \<open>The trusted signer's key record, opened.\<close>

lemma verifyTrusted_accepted:
  assumes "verifyTrusted P enc context s trust purpose now = Inr (i, g, t)" "c_status t = Pass"
  shows "s_digest s = digestOf P context (enc (s_body s))
    \<and> (\<exists>rec m. keyAccepted P trust \<lparr>q_keyId = sig_key_id (s_signature s), q_purpose = purpose, q_now = now,
             q_claimedSignedAt = None, q_provenSignedBefore = None\<rparr> rec
        \<and> sigMessage context (s_digest s) = Inr m \<and> hv_ok (hybridVerify P m (s_signature s) (kr_entry rec)))"
proof -
  let ?e = "map_option kr_entry (trust_get trust (sig_key_id (s_signature s)))"
  let ?q = "\<lparr>q_keyId = sig_key_id (s_signature s), q_purpose = purpose, q_now = now,
         q_claimedSignedAt = None, q_provenSignedBefore = None\<rparr>"
  from assms have v: "verifyIntegrity P enc context s ?e = Inr (i, g)" and g: "c_status g = Pass"
    and ev: "c_status (evaluate P trust ?q) = Pass"
    by (auto simp: verifyTrusted_def rbind_Inr_iff Let_def split: prod.splits if_splits)
  from ev obtain rec where rec: "keyAccepted P trust ?q rec" unfolding evaluate_accepted by blast
  then have "trust_get trust (sig_key_id (s_signature s)) = Some rec" by (simp add: keyAccepted_def)
  with verifyIntegrity_pass [OF v g] rec show ?thesis by auto
qed

text \<open>
  Trust never comes from the object: if \<^verbatim>\<open>verifyTrusted\<close> reports the signer trusted, then the digest is that
  of the body, the snapshot holds a record for the key id, accepted for the purpose, and the hybrid signature over
  the digest verifies under the public keys of that record.
\<close>

theorem verifyTrusted_sound:
  assumes "verifyTrusted P enc context s trust purpose now = Inr (i, g, t)" "c_status t = Pass"
  shows "c_status i = Pass \<and> c_status g = Pass \<and> s_digest s = digestOf P context (enc (s_body s))
    \<and> (\<exists>rec m. trust_get trust (sig_key_id (s_signature s)) = Some rec \<and> purpose \<in> set (kr_purposes rec)
        \<and> kr_status rec \<notin> {KRevoked, KCompromised}
        \<and> sigMessage context (s_digest s) = Inr m
        \<and> hv_ok (hybridVerify P m (s_signature s) (kr_entry rec)))"
proof -
  let ?e = "map_option kr_entry (trust_get trust (sig_key_id (s_signature s)))"
  from assms have v: "verifyIntegrity P enc context s ?e = Inr (i, g)" and g: "c_status g = Pass"
    and ev: "c_status (evaluate P trust \<lparr>q_keyId = sig_key_id (s_signature s), q_purpose = purpose, q_now = now,
         q_claimedSignedAt = None, q_provenSignedBefore = None\<rparr>) = Pass"
    by (auto simp: verifyTrusted_def rbind_Inr_iff Let_def split: prod.splits if_splits)
  from ev obtain rec where rec: "trust_get trust (sig_key_id (s_signature s)) = Some rec"
    "purpose \<in> set (kr_purposes rec)" "kr_status rec \<notin> {KCompromised, KRevoked}"
    unfolding evaluate_pass_iff by auto
  from verifyIntegrity_pass [OF v g] rec g show ?thesis by auto
qed

text \<open>
  Round trip: what \<^verbatim>\<open>signObject\<close> makes with a generated key verifies, and is reported trusted by every
  verifier whose snapshot accepts that key for the purpose.
\<close>

theorem signObject_trusted:
  assumes "digests32 P" "signs P" "generated P key" "trust_get trust (keyId key) = Some rec"
    and "kr_entry rec = directoryEntry key"
    and "c_status (evaluate P trust \<lparr>q_keyId = keyId key, q_purpose = purpose, q_now = now,
           q_claimedSignedAt = None, q_provenSignedBefore = None\<rparr>) = Pass"
  shows "\<exists>s i g t. signObject P enc context body key = Inr s \<and> s_body s = body
    \<and> verifyTrusted P enc context s trust purpose now = Inr (i, g, t)
    \<and> c_status i = Pass \<and> c_status g = Pass \<and> c_status t = Pass"
proof -
  obtain s where s: "signObject P enc context body key = Inr s" "s_body s = body"
    "sig_key_id (s_signature s) = keyId key"
    by (rule signObject_total [OF assms(1)])
  from signObject_verifies [OF assms(1-3) s(1)] assms(4-6) s show ?thesis
    by (auto simp: verifyTrusted_def Let_def)
qed

text \<open>
  A digest binds its context and its body: two objects with the same digest, under contexts without a NUL
  character, have the same context and the same canonical encoding, unless the hash collides on the two inputs.
\<close>

theorem digest_binds:
  assumes "digestOf P c v = digestOf P c' v'" "CHR 0x00 \<notin> set c" "CHR 0x00 \<notin> set c'"
    and "inj_on (sha256 P) {digestInput P c v, digestInput P c' v'}"
  shows "c = c' \<and> canonicalCbor P (clean v) = canonicalCbor P (clean v')"
proof -
  have "sha256 P (digestInput P c v) = sha256 P (digestInput P c' v')"
    using assms(1) mhSha256_inj by (fastforce simp: digestOf_def digestInput_def)
  then have eq: "digestInput P c v = digestInput P c' v'" using assms(4) by (auto dest: inj_onD)
  have bytes: "map (\<lambda>w. char_of (unat w) :: char) (utf8 s) = s" for s
    by (simp add: utf8_def o_def unat_of_nat_byte map_idI)
  from eq have "map (\<lambda>w. char_of (unat w) :: char) (digestInput P c v) = map (\<lambda>w. char_of (unat w)) (digestInput P c' v')"
    by simp
  then have "c @ CHR 0x00 # map (\<lambda>w. char_of (unat w)) (canonicalCbor P (clean v))
      = c' @ CHR 0x00 # map (\<lambda>w. char_of (unat w)) (canonicalCbor P (clean v'))"
    unfolding digestInput_def map_append bytes by simp
  from append_NUL_inj [OF assms(2,3) this] have cc: "c = c'" by simp
  with eq show ?thesis by (simp add: digestInput_def)
qed

section \<open>Witnesses\<close>

definition toyStore :: TrustStore where
  "toyStore = toyTrust [toyKeyRecord ''k'' [PEvaluator]]"

lemma toyStore_accepts:
  "0 \<le> t \<Longrightarrow> t \<le> 1000 \<Longrightarrow> c_status (evaluate toyEnv toyStore \<lparr>q_keyId = ''k'', q_purpose = PEvaluator, q_now = Some t,
     q_claimedSignedAt = None, q_provenSignedBefore = None\<rparr>) = Pass"
  by (simp add: evaluate_pass_iff toyStore_def toy_trust)

lemma keyId_toyKey [simp]: "keyId (toyKey i) = i"
  by (simp add: toyKey_def generateKeypair_def Let_def split: prod.split)

lemma toyStore_get: "trust_get toyStore ''k'' = Some (toyKeyRecord ''k'' [PEvaluator])"
  by (simp add: toyStore_def toy_trust)

theorem signObject_trusted_witness:
  "\<exists>s i g t. signObject toyEnv JStr ''ctx'' ''hello'' (toyKey ''k'') = Inr s \<and> s_body s = ''hello''
    \<and> verifyTrusted toyEnv JStr ''ctx'' s toyStore PEvaluator (Some 200) = Inr (i, g, t)
    \<and> c_status i = Pass \<and> c_status g = Pass \<and> c_status t = Pass"
  by (rule signObject_trusted [OF digests32_toyEnv signs_toyEnv generated_toyKey])
    (simp_all add: toyStore_get toyStore_accepts, simp add: toyKeyRecord_def)

theorem verifyTrusted_sound_witness:
  "\<exists>(s :: string Signed) rec. s_digest s = digestOf toyEnv ''ctx'' (JStr (s_body s))
    \<and> trust_get toyStore (sig_key_id (s_signature s)) = Some rec \<and> PEvaluator \<in> set (kr_purposes rec)"
proof -
  obtain m where "sigMessage ''ctx'' (digestOf toyEnv ''ctx'' (clean (JStr ''hello''))) = Inr m"
    using sigMessage_ok [OF digests32_toyEnv] by blast
  then obtain s where s: "signObject toyEnv JStr ''ctx'' ''hello'' (toyKey ''k'') = Inr s"
    "sig_key_id (s_signature s) = ''k''" by (auto simp: signObject_def Let_def)
  have "kr_entry (toyKeyRecord ''k'' [PEvaluator]) = directoryEntry (toyKey ''k'')" by (simp add: toyKeyRecord_def)
  with signObject_verifies [OF digests32_toyEnv signs_toyEnv generated_toyKey s(1)] toyStore_accepts s(2)
  have "\<exists>i g t. verifyTrusted toyEnv JStr ''ctx'' s toyStore PEvaluator (Some 200) = Inr (i, g, t) \<and> c_status t = Pass"
    by (auto simp: verifyTrusted_def Let_def toyStore_get)
  then show ?thesis using verifyTrusted_sound [of toyEnv JStr "''ctx''" s toyStore PEvaluator "Some 200"] by blast
qed

theorem digest_binds_witness:
  "''a'' = ''a'' \<and> canonicalCbor toyEnv (clean (JObj [(''x'', JUndef), (''y'', JBool True)]))
     = canonicalCbor toyEnv (clean (JObj [(''y'', JBool True)]))"
  by (rule digest_binds [of toyEnv "''a''" _ "''a''"]) (simp_all add: digestOf_def digestInput_def)

end
