(* ===== verification/Principal.thy ===== *)
theory Principal
  imports Signed
begin

text \<open>
  \<^verbatim>\<open>src/src/authz/principal.ts\<close>: principals, their issuer-signed lifecycle events and the verifier's directory.
  The results: only records signed by their trusted issuer enter the directory and an enrolled record is never
  replaced; an event changes no state before its own time; a revoked or decommissioned principal stays unusable
  whatever events follow.

  \<^verbatim>\<open>check\<close> prints the time it judged, and printing an unreadable time throws: the model returns \<open>RangeError\<close> there.
\<close>

section \<open>principal.ts\<close>

datatype PrincipalStatus = PActive | PSuspended | PRevoked | PDecommissioned

record PrincipalRecord =
  pr_principal_id :: string
  pr_kind :: string
  pr_issuer :: string
  pr_owner :: string
  pr_tenant :: "string option"
  pr_basis :: string
  pr_sponsor :: "string option"
  pr_parent :: "string option"
  pr_workload_id :: "string option"
  pr_created_at :: string
  pr_expires_at :: "string option"
  pr_keys :: "(string \<times> DirectoryEntry) list"

datatype PrincipalEventKind = KeyBound | KeyRetired | Suspended | Reinstated | RevokedEv | DecommissionedEv

record PrincipalEvent =
  pe_event_id :: string
  pe_principal_id :: string
  pe_kind :: PrincipalEventKind
  pe_at :: string
  pe_key_id :: "string option"
  pe_entry :: "DirectoryEntry option"
  pe_reason :: "string option"

definition entryVal :: "DirectoryEntry \<Rightarrow> jsval" where
  "entryVal e = JObj [(''ml_dsa_pub'', JStr (ml_dsa_pub e)), (''ed25519_pub'', JStr (ed25519_pub e))]"

definition optStr :: "string option \<Rightarrow> jsval" where
  "optStr s = (case s of Some t \<Rightarrow> JStr t | None \<Rightarrow> JUndef)"

definition principalVal :: "PrincipalRecord \<Rightarrow> jsval" where
  "principalVal r = JObj [(''schema'', JStr ''cool.principal.v1''), (''principal_id'', JStr (pr_principal_id r)),
     (''kind'', JStr (pr_kind r)), (''issuer'', JStr (pr_issuer r)), (''owner'', JStr (pr_owner r)),
     (''tenant'', optStr (pr_tenant r)), (''basis'', JStr (pr_basis r)), (''sponsor'', optStr (pr_sponsor r)),
     (''parent'', optStr (pr_parent r)), (''workload_id'', optStr (pr_workload_id r)),
     (''created_at'', JStr (pr_created_at r)), (''expires_at'', optStr (pr_expires_at r)),
     (''keys'', JArr (map (\<lambda>(k, e). JObj [(''key_id'', JStr k), (''entry'', entryVal e)]) (pr_keys r)))]"

definition eventKindName :: "PrincipalEventKind \<Rightarrow> string" where
  "eventKindName k = (case k of KeyBound \<Rightarrow> ''key_bound'' | KeyRetired \<Rightarrow> ''key_retired'' | Suspended \<Rightarrow> ''suspended''
     | Reinstated \<Rightarrow> ''reinstated'' | RevokedEv \<Rightarrow> ''revoked'' | DecommissionedEv \<Rightarrow> ''decommissioned'')"

definition principalEventVal :: "PrincipalEvent \<Rightarrow> jsval" where
  "principalEventVal e = JObj [(''schema'', JStr ''cool.principal-event.v1''), (''event_id'', JStr (pe_event_id e)),
     (''principal_id'', JStr (pe_principal_id e)), (''kind'', JStr (eventKindName (pe_kind e))), (''at'', JStr (pe_at e)),
     (''key_id'', optStr (pe_key_id e)), (''entry'', case pe_entry e of Some d \<Rightarrow> entryVal d | None \<Rightarrow> JUndef),
     (''reason'', optStr (pe_reason e))]"

definition enrollPrincipal :: "env \<Rightarrow> PrincipalRecord \<Rightarrow> KeyPair \<Rightarrow> PrincipalRecord Signed res" where
  "enrollPrincipal P r issuerKey = signObject P principalVal ''cool.principal.v1'' r issuerKey"

definition principalEvent :: "env \<Rightarrow> PrincipalEvent \<Rightarrow> KeyPair \<Rightarrow> PrincipalEvent Signed res" where
  "principalEvent P e issuerKey = signObject P principalEventVal ''cool.principal-event.v1'' e issuerKey"

record Entry =
  e_record :: PrincipalRecord
  e_events :: "PrincipalEvent list"

record PrincipalDirectory =
  dir_entries :: "(string \<times> Entry) list"
  dir_trust :: TrustStore

definition newDirectory :: "TrustStore \<Rightarrow> PrincipalDirectory" where
  "newDirectory trust = \<lparr>dir_entries = [], dir_trust = trust\<rparr>"

record PrincipalState =
  ps_status :: "PrincipalStatus option"
  ps_record :: "PrincipalRecord option"
  ps_keys :: "(string \<times> DirectoryEntry) list"

definition enroll :: "env \<Rightarrow> PrincipalDirectory \<Rightarrow> time \<Rightarrow> PrincipalRecord Signed \<Rightarrow> (Check \<times> PrincipalDirectory) res" where
  "enroll P dir now s =
     rbind (verifyTrusted P principalVal ''cool.principal.v1'' s (dir_trust dir) PIdentityIssuer now)
       (\<lambda>(integrity, signature, trusted).
         if c_status integrity \<noteq> Pass then Inr (integrity, dir)
         else if c_status signature \<noteq> Pass then Inr (signature, dir)
         else if c_status trusted \<noteq> Pass then Inr (trusted, dir)
         else if pr_issuer (s_body s) \<noteq> sig_key_id (s_signature s) then Inr (check Fail ''issuer_mismatch'', dir)
         else if map_of (dir_entries dir) (pr_principal_id (s_body s)) \<noteq> None
         then Inr (check Fail ''duplicate_principal'', dir)
         else Inr (check Pass ''enrolled'',
           dir\<lparr>dir_entries := mput (pr_principal_id (s_body s)) \<lparr>e_record = s_body s, e_events = []\<rparr> (dir_entries dir)\<rparr>))"

text \<open>The comparator \<^verbatim>\<open>Date.parse(a.at) - Date.parse(b.at)\<close> is not positive.\<close>

definition eventLe :: "env \<Rightarrow> PrincipalEvent \<Rightarrow> PrincipalEvent \<Rightarrow> bool" where
  "eventLe P a b = (\<not> t_gt (date_parse P (pe_at a)) (date_parse P (pe_at b)))"

definition apply_event :: "env \<Rightarrow> PrincipalDirectory \<Rightarrow> PrincipalEvent Signed \<Rightarrow> (Check \<times> PrincipalDirectory) res" where
  "apply_event P dir s =
     (let ev = s_body s in
      case map_of (dir_entries dir) (pe_principal_id ev) of
        None \<Rightarrow> Inr (check Fail ''unknown_principal'', dir)
      | Some e \<Rightarrow>
          rbind (verifyIntegrity P principalEventVal ''cool.principal-event.v1'' s
                   (map_option kr_entry (trust_get (dir_trust dir) (pr_issuer (e_record e)))))
            (\<lambda>(integrity, signature).
              if c_status integrity \<noteq> Pass then Inr (integrity, dir)
              else if c_status signature \<noteq> Pass then Inr (signature, dir)
              else if sig_key_id (s_signature s) \<noteq> pr_issuer (e_record e) then Inr (check Fail ''issuer_mismatch'', dir)
              else if pe_kind ev = KeyBound \<and> (\<not> truthy (pe_key_id ev) \<or> pe_entry ev = None)
              then Inr (check Fail ''malformed'', dir)
              else Inr (check Pass ''applied'',
                dir\<lparr>dir_entries := mput (pe_principal_id ev)
                      (e\<lparr>e_events := sortBy (eventLe P) (e_events e @ [ev])\<rparr>) (dir_entries dir)\<rparr>)))"

definition stepState :: "PrincipalEvent \<Rightarrow> PrincipalStatus \<times> (string \<times> DirectoryEntry) list
    \<Rightarrow> PrincipalStatus \<times> (string \<times> DirectoryEntry) list" where
  "stepState ev = (\<lambda>(status, keys). case pe_kind ev of
       KeyBound \<Rightarrow> (status, mput (the (pe_key_id ev)) (the (pe_entry ev)) keys)
     | KeyRetired \<Rightarrow> (status, case pe_key_id ev of Some k \<Rightarrow> mdel k keys | None \<Rightarrow> keys)
     | Suspended \<Rightarrow> (if status = PActive then PSuspended else status, keys)
     | Reinstated \<Rightarrow> (if status = PSuspended then PActive else status, keys)
     | RevokedEv \<Rightarrow> (PRevoked, keys)
     | DecommissionedEv \<Rightarrow> (PDecommissioned, keys))"

text \<open>The loop over the events, which stops at the first one after \<open>tm\<close>.\<close>

fun runEvents :: "env \<Rightarrow> time \<Rightarrow> PrincipalEvent list \<Rightarrow> PrincipalStatus \<times> (string \<times> DirectoryEntry) list
    \<Rightarrow> PrincipalStatus \<times> (string \<times> DirectoryEntry) list" where
  "runEvents P tm [] st = st"
| "runEvents P tm (ev # evs) st =
     (if t_gt (date_parse P (pe_at ev)) tm then st else runEvents P tm evs (stepState ev st))"

definition stateAt :: "env \<Rightarrow> PrincipalDirectory \<Rightarrow> string \<Rightarrow> time \<Rightarrow> PrincipalState" where
  "stateAt P dir i tm = (case map_of (dir_entries dir) i of
       None \<Rightarrow> \<lparr>ps_status = None, ps_record = None, ps_keys = []\<rparr>
     | Some e \<Rightarrow>
         if t_lt tm (date_parse P (pr_created_at (e_record e)))
         then \<lparr>ps_status = None, ps_record = None, ps_keys = []\<rparr>
         else (let (status, keys) = runEvents P tm (e_events e)
                     (PActive, fold (\<lambda>(k, d) m. mput k d m) (pr_keys (e_record e)) [])
               in \<lparr>ps_status = Some status, ps_record = Some (e_record e), ps_keys = keys\<rparr>))"

definition statusName :: "PrincipalStatus \<Rightarrow> string" where
  "statusName s = (case s of PActive \<Rightarrow> ''active'' | PSuspended \<Rightarrow> ''suspended'' | PRevoked \<Rightarrow> ''revoked''
     | PDecommissioned \<Rightarrow> ''decommissioned'')"

definition principal_check :: "env \<Rightarrow> PrincipalDirectory \<Rightarrow> string \<Rightarrow> time \<Rightarrow> string option \<Rightarrow> Check res" where
  "principal_check P dir i tm key_id =
     (let s = stateAt P dir i tm in
      if tm = None then Inl RangeError
      else case ps_status s of
        None \<Rightarrow> Inr (check Fail ''unknown_principal'')
      | Some status \<Rightarrow>
          if truthy (pr_expires_at (the (ps_record s))) \<and> t_gt tm (date_parse P (the (pr_expires_at (the (ps_record s)))))
          then Inr (check Fail ''principal_expired'')
          else if status \<noteq> PActive then Inr (check Fail (''principal_'' @ statusName status))
          else if truthy key_id \<and> map_of (ps_keys s) (the key_id) = None then Inr (check Fail ''key_not_bound'')
          else Inr (check Pass ''principal_active''))"

text \<open>What the check establishes: the time can be read, the principal is enrolled, created by then, active after the events up to
  then, and not expired as far as its expiry can be read.\<close>

definition activeAt :: "env \<Rightarrow> PrincipalDirectory \<Rightarrow> string \<Rightarrow> time \<Rightarrow> bool" where
  "activeAt P dir i tm = (case (tm, map_of (dir_entries dir) i) of
       (Some t, Some e) \<Rightarrow> \<not> t_lt (Some t) (date_parse P (pr_created_at (e_record e)))
         \<and> fst (runEvents P tm (e_events e) (PActive, fold (\<lambda>(k, d) m. mput k d m) (pr_keys (e_record e)) [])) = PActive
         \<and> (case pr_expires_at (e_record e) of None \<Rightarrow> True
            | Some u \<Rightarrow> u = [] \<or> (case date_parse P u of None \<Rightarrow> True | Some x \<Rightarrow> t \<le> x))
     | _ \<Rightarrow> False)"

lemma activeAt_time: "activeAt P dir i tm \<Longrightarrow> tm \<noteq> None"
  by (cases tm) (auto simp: activeAt_def)

lemma principal_check_activeAt:
  assumes "principal_check P dir i tm k = Inr c" "c_status c = Pass"
  shows "activeAt P dir i tm"
proof -
  from assms obtain t where tm: "tm = Some t" by (auto simp: principal_check_def Let_def split: if_splits)
  from assms obtain e where e: "map_of (dir_entries dir) i = Some e" "\<not> t_lt tm (date_parse P (pr_created_at (e_record e)))"
    by (auto simp: principal_check_def stateAt_def Let_def split: if_splits option.splits)
  with assms tm show ?thesis
    by (auto simp: principal_check_def stateAt_def activeAt_def Let_def truthy_def case_prod_beta not_less
      split: if_splits option.splits)
qed

definition keyAt :: "env \<Rightarrow> PrincipalDirectory \<Rightarrow> string \<Rightarrow> string \<Rightarrow> time \<Rightarrow> DirectoryEntry option" where
  "keyAt P dir i key_id tm = map_of (ps_keys (stateAt P dir i tm)) key_id"

section \<open>The directory's invariant\<close>

text \<open>Every entry is stored under its own id and its issuer is in the snapshot, as an identity issuer.\<close>

definition dir_ok :: "PrincipalDirectory \<Rightarrow> bool" where
  "dir_ok dir = (\<forall>i e. map_of (dir_entries dir) i = Some e \<longrightarrow> pr_principal_id (e_record e) = i
     \<and> (\<exists>rec. trust_get (dir_trust dir) (pr_issuer (e_record e)) = Some rec \<and> PIdentityIssuer \<in> set (kr_purposes rec)))"

lemma newDirectory_ok: "dir_ok (newDirectory trust)"
  by (simp add: dir_ok_def newDirectory_def)

lemma enroll_cases:
  assumes "enroll P dir now s = Inr (c, dir')"
  shows "(dir' = dir \<and> c_status c \<noteq> Pass)
    \<or> (c = check Pass ''enrolled'' \<and> map_of (dir_entries dir) (pr_principal_id (s_body s)) = None
       \<and> dir' = dir\<lparr>dir_entries := mput (pr_principal_id (s_body s)) \<lparr>e_record = s_body s, e_events = []\<rparr> (dir_entries dir)\<rparr>
       \<and> pr_issuer (s_body s) = sig_key_id (s_signature s)
       \<and> (\<exists>i g t. verifyTrusted P principalVal ''cool.principal.v1'' s (dir_trust dir) PIdentityIssuer now = Inr (i, g, t)
            \<and> c_status t = Pass))"
  using assms by (auto simp: enroll_def rbind_Inr_iff split: prod.splits if_splits)

lemma enroll_ok:
  assumes "dir_ok dir" "enroll P dir now s = Inr (c, dir')"
  shows "dir_ok dir'"
  using enroll_cases [OF assms(2)]
proof (elim disjE conjE exE)
  fix i g t
  assume v: "verifyTrusted P principalVal ''cool.principal.v1'' s (dir_trust dir) PIdentityIssuer now = Inr (i, g, t)"
    "c_status t = Pass" and iss: "pr_issuer (s_body s) = sig_key_id (s_signature s)"
    and d: "dir' = dir\<lparr>dir_entries := mput (pr_principal_id (s_body s)) \<lparr>e_record = s_body s, e_events = []\<rparr> (dir_entries dir)\<rparr>"
  from v obtain rec where "trust_get (dir_trust dir) (sig_key_id (s_signature s)) = Some rec"
    "PIdentityIssuer \<in> set (kr_purposes rec)"
    by (auto simp: verifyTrusted_def rbind_Inr_iff Let_def evaluate_pass_iff split: prod.splits if_splits)
  with assms(1) iss d show ?thesis by (auto simp: dir_ok_def)
qed (use assms(1) in simp)

lemma apply_cases:
  assumes "apply_event P dir s = Inr (c, dir')"
  shows "(dir' = dir \<and> c_status c \<noteq> Pass)
    \<or> (\<exists>e. c = check Pass ''applied'' \<and> map_of (dir_entries dir) (pe_principal_id (s_body s)) = Some e
       \<and> sig_key_id (s_signature s) = pr_issuer (e_record e)
       \<and> dir' = dir\<lparr>dir_entries := mput (pe_principal_id (s_body s))
             (e\<lparr>e_events := sortBy (eventLe P) (e_events e @ [s_body s])\<rparr>) (dir_entries dir)\<rparr>
       \<and> (\<exists>i g. verifyIntegrity P principalEventVal ''cool.principal-event.v1'' s
              (map_option kr_entry (trust_get (dir_trust dir) (pr_issuer (e_record e)))) = Inr (i, g) \<and> c_status g = Pass))"
  using assms by (auto simp: apply_event_def Let_def rbind_Inr_iff split: prod.splits if_splits option.splits)

lemma apply_ok: "dir_ok dir \<Longrightarrow> apply_event P dir s = Inr (c, dir') \<Longrightarrow> dir_ok dir'"
  using apply_cases [of P dir s c dir'] by (fastforce simp: dir_ok_def)

section \<open>States over time\<close>

lemma stepState_final:
  "fst st \<in> {PRevoked, PDecommissioned} \<Longrightarrow> fst (stepState ev st) \<in> {PRevoked, PDecommissioned}"
  by (cases st) (auto simp: stepState_def split: PrincipalEventKind.splits)

lemma fold_stepState_final:
  "fst st \<in> {PRevoked, PDecommissioned} \<Longrightarrow> fst (fold stepState evs st) \<in> {PRevoked, PDecommissioned}"
proof (induction evs arbitrary: st)
  case (Cons ev evs)
  then show ?case using Cons.IH [OF stepState_final [OF Cons.prems, of ev]] by simp
qed simp

text \<open>All times readable, and the list in time order.\<close>

definition readable :: "env \<Rightarrow> PrincipalEvent list \<Rightarrow> bool" where
  "readable P evs = (\<forall>ev \<in> set evs. date_parse P (pe_at ev) \<noteq> None)"

definition timeOf :: "env \<Rightarrow> PrincipalEvent \<Rightarrow> int" where
  "timeOf P ev = the (date_parse P (pe_at ev))"

lemma eventLe_timeOf:
  "date_parse P (pe_at a) \<noteq> None \<Longrightarrow> date_parse P (pe_at b) \<noteq> None \<Longrightarrow> eventLe P a b = (timeOf P a \<le> timeOf P b)"
  by (auto simp: eventLe_def timeOf_def)

lemma insertBy_sorted:
  "readable P (x # evs) \<Longrightarrow> sorted (map (timeOf P) evs) \<Longrightarrow> sorted (map (timeOf P) (insertBy (eventLe P) x evs))"
proof (induction evs)
  case (Cons y ys)
  then show ?case
    by (auto simp: readable_def eventLe_timeOf)
qed simp

lemma sortBy_times: "readable P evs \<Longrightarrow> sorted (map (timeOf P) (sortBy (eventLe P) evs))"
proof (induction evs)
  case (Cons x xs)
  then have "readable P (x # sortBy (eventLe P) xs)" by (simp add: readable_def)
  with Cons show ?case by (auto simp: readable_def intro!: insertBy_sorted)
qed simp

text \<open>The loop runs exactly the events that are not after \<open>tm\<close>.\<close>

definition upTo :: "env \<Rightarrow> int \<Rightarrow> PrincipalEvent list \<Rightarrow> PrincipalEvent list" where
  "upTo P tm evs = filter (\<lambda>ev. timeOf P ev \<le> tm) evs"

lemma runEvents_upTo:
  "readable P evs \<Longrightarrow> sorted (map (timeOf P) evs) \<Longrightarrow>
     runEvents P (Some tm) evs st = fold stepState (upTo P tm evs) st"
proof (induction evs arbitrary: st)
  case (Cons ev evs)
  from Cons.prems have d: "date_parse P (pe_at ev) = Some (timeOf P ev)" by (auto simp: readable_def timeOf_def)
  show ?case
  proof (cases "timeOf P ev \<le> tm")
    case True
    with Cons d show ?thesis by (simp add: upTo_def readable_def)
  next
    case False
    with Cons.prems have "upTo P tm (ev # evs) = []" by (auto simp: upTo_def filter_empty_conv)
    with False d show ?thesis by simp
  qed
qed (simp add: upTo_def)

lemma insertBy_after:
  "(\<And>y. y \<in> set ys \<Longrightarrow> timeOf P y \<le> tm \<Longrightarrow> date_parse P (pe_at y) \<noteq> None) \<Longrightarrow>
     tm < timeOf P x \<Longrightarrow> upTo P tm (insertBy (eventLe P) x ys) = upTo P tm ys"
  by (induction ys) (auto simp: upTo_def)

lemma upTo_append_after:
  "tm < timeOf P x \<Longrightarrow> readable P (evs @ [x]) \<Longrightarrow>
     upTo P tm (sortBy (eventLe P) (evs @ [x])) = upTo P tm (sortBy (eventLe P) evs)"
proof (induction evs)
  case Nil
  then show ?case by (simp add: upTo_def)
next
  case (Cons e evs)
  have ins: "upTo P tm (insertBy (eventLe P) e (sortBy (eventLe P) zs))
      = (if timeOf P e \<le> tm then insertBy (eventLe P) e (upTo P tm (sortBy (eventLe P) zs))
         else upTo P tm (sortBy (eventLe P) zs))" if "readable P (e # zs)" for zs
  proof -
    have "upTo P tm (insertBy (eventLe P) e ys)
      = (if timeOf P e \<le> tm then insertBy (eventLe P) e (upTo P tm ys) else upTo P tm ys)"
      if "readable P (e # ys)" "sorted (map (timeOf P) ys)" for ys
      using that
    proof (induction ys)
      case Nil
      then show ?case by (simp add: upTo_def)
    next
      case (Cons y ys)
      then have le: "eventLe P e y = (timeOf P e \<le> timeOf P y)" by (intro eventLe_timeOf) (auto simp: readable_def)
      have IH: "upTo P tm (insertBy (eventLe P) e ys)
          = (if timeOf P e \<le> tm then insertBy (eventLe P) e (upTo P tm ys) else upTo P tm ys)"
        using Cons by (simp add: readable_def)
      have *: "upTo P tm ys = []" if "tm < timeOf P y"
        using that Cons.prems(2) by (auto simp: upTo_def filter_empty_conv)
      show ?case using le IH * by (auto simp: upTo_def)
    qed
    then show ?thesis using that sortBy_times [of P zs] by (auto simp: readable_def)
  qed
  have "readable P (e # evs)" "readable P (e # (evs @ [x]))" using Cons.prems(2) by (auto simp: readable_def)
  from ins [OF this(1)] ins [OF this(2)] Cons show ?case by (simp add: readable_def)
qed

section \<open>Properties\<close>

text \<open>
  Nothing unsigned enters the directory and nothing in it is replaced: every enrolment and every event keeps
  the invariant that each principal's issuer is an identity issuer of the snapshot, and a principal that is known
  keeps its record.
\<close>

theorem directory_invariant:
  assumes "dir_ok dir" "enroll P dir now s = Inr (c, dir') \<or> apply_event P dir ev = Inr (c, dir')"
  shows "dir_ok dir' \<and> dir_trust dir' = dir_trust dir
    \<and> (\<forall>i e. map_of (dir_entries dir) i = Some e \<longrightarrow>
         (\<exists>e'. map_of (dir_entries dir') i = Some e' \<and> e_record e' = e_record e \<and> set (e_events e) \<subseteq> set (e_events e')))"
  using assms(2)
proof
  assume a: "enroll P dir now s = Inr (c, dir')"
  with enroll_ok [OF assms(1) a] enroll_cases [OF a] show ?thesis by auto
next
  assume a: "apply_event P dir ev = Inr (c, dir')"
  with apply_ok [OF assms(1) a] apply_cases [OF a] show ?thesis by auto
qed

text \<open>
  Revocation is final: once a revocation or decommissioning event dated no later than the time asked for is in
  the directory (all event times being readable), the principal is not active at that time, so \<^verbatim>\<open>check\<close> refuses it,
  whatever reinstatements are recorded.
\<close>

theorem revocation_final:
  assumes "map_of (dir_entries dir) i = Some e" "readable P (e_events e)" "e_events e = sortBy (eventLe P) evs"
    and "ev \<in> set (e_events e)" "pe_kind ev \<in> {RevokedEv, DecommissionedEv}" "timeOf P ev \<le> tm"
  shows "\<exists>c. principal_check P dir i (Some tm) k = Inr c \<and> c_status c = Fail"
proof -
  let ?st = "(PActive, fold (\<lambda>(k, d) m. mput k d m) (pr_keys (e_record e)) [])"
  have "readable P evs" using assms(2,3) by (simp add: readable_def)
  then have sorted: "sorted (map (timeOf P) (e_events e))" using sortBy_times assms(3) by simp
  have run: "runEvents P (Some tm) (e_events e) ?st = fold stepState (upTo P tm (e_events e)) ?st"
    by (rule runEvents_upTo [OF assms(2) sorted])
  have "ev \<in> set (upTo P tm (e_events e))" using assms(4,6) by (simp add: upTo_def)
  then obtain us vs where split: "upTo P tm (e_events e) = us @ ev # vs" by (auto simp: in_set_conv_decomp)
  let ?mid = "stepState ev (fold stepState us ?st)"
  have "fst ?mid \<in> {PRevoked, PDecommissioned}"
    using assms(5) by (auto simp: stepState_def split: prod.split)
  then have "fst (fold stepState vs ?mid) \<in> {PRevoked, PDecommissioned}" by (rule fold_stepState_final)
  then have "fst (runEvents P (Some tm) (e_events e) ?st) \<noteq> PActive" unfolding run split by auto
  then show ?thesis using assms(1) by (auto simp: principal_check_def stateAt_def Let_def case_prod_beta)
qed

text \<open>
  History does not change: an event applied now but dated after a point in time leaves the state at that point
  (status, record and bound keys) as it was, for every principal (all event times being readable and the entry's events
  in the order the directory keeps them).
\<close>

theorem later_events_keep_history:
  assumes "apply_event P dir s = Inr (c, dir')" "tm < timeOf P (s_body s)" "date_parse P (pe_at (s_body s)) \<noteq> None"
    and "\<forall>i e. map_of (dir_entries dir) i = Some e \<longrightarrow> readable P (e_events e) \<and> sorted (map (timeOf P) (e_events e))
           \<and> sortBy (eventLe P) (e_events e) = e_events e"
  shows "stateAt P dir' i (Some tm) = stateAt P dir i (Some tm)"
  using apply_cases [OF assms(1)]
proof (elim disjE conjE exE)
  fix e
  assume e: "map_of (dir_entries dir) (pe_principal_id (s_body s)) = Some e"
    and d: "dir' = dir\<lparr>dir_entries := mput (pe_principal_id (s_body s))
             (e\<lparr>e_events := sortBy (eventLe P) (e_events e @ [s_body s])\<rparr>) (dir_entries dir)\<rparr>"
  from assms(4) e have r: "readable P (e_events e)" "sorted (map (timeOf P) (e_events e))"
    "sortBy (eventLe P) (e_events e) = e_events e" by blast+
  have r': "readable P (e_events e @ [s_body s])" using r(1) assms(3) by (simp add: readable_def)
  then have "readable P (sortBy (eventLe P) (e_events e @ [s_body s]))" by (simp add: readable_def)
  then have "runEvents P (Some tm) (sortBy (eventLe P) (e_events e @ [s_body s])) st
      = runEvents P (Some tm) (e_events e) st" for st
    using runEvents_upTo [OF r(1,2)] runEvents_upTo [OF _ sortBy_times [OF r']] upTo_append_after [OF assms(2) r'] r(3)
    by simp
  with e d show ?thesis by (auto simp: stateAt_def)
qed simp

section \<open>Witnesses\<close>

definition toyPrincipal :: "string \<Rightarrow> PrincipalRecord" where
  "toyPrincipal i = \<lparr>pr_principal_id = i, pr_kind = ''agent'', pr_issuer = ''issuer'', pr_owner = ''o'', pr_tenant = None,
     pr_basis = ''issuer_attested'', pr_sponsor = None, pr_parent = None, pr_workload_id = None, pr_created_at = ''0'',
     pr_expires_at = None, pr_keys = [(i, directoryEntry (toyKey i))]\<rparr>"

definition toyEvent :: "PrincipalEventKind \<Rightarrow> string \<Rightarrow> PrincipalEvent" where
  "toyEvent k t = \<lparr>pe_event_id = ''e'', pe_principal_id = ''a'', pe_kind = k, pe_at = t, pe_key_id = None, pe_entry = None,
     pe_reason = None\<rparr>"

definition toyDir :: "PrincipalEvent list \<Rightarrow> PrincipalDirectory" where
  "toyDir evs = \<lparr>dir_entries = [(''a'', \<lparr>e_record = toyPrincipal ''a'', e_events = evs\<rparr>)],
     dir_trust = toyTrust [toyKeyRecord ''issuer'' [PIdentityIssuer]]\<rparr>"

theorem revocation_final_witness:
  "\<exists>c. principal_check toyEnv (toyDir [toyEvent RevokedEv ''50'', toyEvent Reinstated ''100'']) ''a'' (Some 200) None = Inr c
     \<and> c_status c = Fail"
  by (rule revocation_final [where e = "\<lparr>e_record = toyPrincipal ''a'', e_events = [toyEvent RevokedEv ''50'', toyEvent Reinstated ''100'']\<rparr>"
        and evs = "[toyEvent RevokedEv ''50'', toyEvent Reinstated ''100'']" and ev = "toyEvent RevokedEv ''50''"])
    (simp_all add: toyDir_def toyEvent_def readable_def timeOf_def toyDates eventLe_def)

lemma toyDir_ok: "dir_ok (toyDir evs)"
  by (auto simp: dir_ok_def toyDir_def toyPrincipal_def toy_trust split: if_splits)

definition toySignedEvent :: "PrincipalEvent Signed" where
  "toySignedEvent = (case principalEvent toyEnv (toyEvent Suspended ''100'') (toyKey ''issuer'') of Inr s \<Rightarrow> s)"

lemma toySignedEvent: "principalEvent toyEnv (toyEvent Suspended ''100'') (toyKey ''issuer'') = Inr toySignedEvent"
proof -
  obtain s where "signObject toyEnv principalEventVal ''cool.principal-event.v1'' (toyEvent Suspended ''100'') (toyKey ''issuer'') = Inr s"
    by (rule signObject_total [OF digests32_toyEnv])
  then show ?thesis by (simp add: toySignedEvent_def principalEvent_def)
qed

lemma toySignedEvent_fields:
  "s_body toySignedEvent = toyEvent Suspended ''100''" "sig_key_id (s_signature toySignedEvent) = ''issuer''"
  using signObject_fields [OF toySignedEvent [unfolded principalEvent_def]] by simp_all

lemma toyApply:
  "\<exists>dir'. apply_event toyEnv (toyDir []) toySignedEvent = Inr (check Pass ''applied'', dir')"
proof -
  have "verifyIntegrity toyEnv principalEventVal ''cool.principal-event.v1'' toySignedEvent (Some (directoryEntry (toyKey ''issuer'')))
      = Inr (check Pass ''digest_matches'', check Pass ''signature_valid'')"
    using signObject_verifies [OF digests32_toyEnv signs_toyEnv generated_toyKey] toySignedEvent
    by (auto simp: principalEvent_def)
  then show ?thesis
    by (simp add: apply_event_def toySignedEvent_fields toyEvent_def toyDir_def toyPrincipal_def toy_trust)
qed

theorem directory_invariant_witness:
  "\<exists>dir'. apply_event toyEnv (toyDir []) toySignedEvent = Inr (check Pass ''applied'', dir') \<and> dir_ok dir'"
  using toyApply directory_invariant [OF toyDir_ok] by blast

theorem later_events_keep_history_witness:
  "\<exists>dir'. apply_event toyEnv (toyDir []) toySignedEvent = Inr (check Pass ''applied'', dir')
     \<and> stateAt toyEnv dir' ''a'' (Some 50) = stateAt toyEnv (toyDir []) ''a'' (Some 50)"
proof -
  obtain dir' where d: "apply_event toyEnv (toyDir []) toySignedEvent = Inr (check Pass ''applied'', dir')"
    using toyApply by blast
  have "stateAt toyEnv dir' ''a'' (Some 50) = stateAt toyEnv (toyDir []) ''a'' (Some 50)"
    by (rule later_events_keep_history [OF d])
      (auto simp: toySignedEvent_fields toyEvent_def timeOf_def toyDates toyDir_def readable_def split: if_splits)
  with d show ?thesis by blast
qed

end
