(* ===== verification/Delegation.thy ===== *)
theory Delegation
  imports Principal
begin

text \<open>
  \<^verbatim>\<open>src/src/authz/delegation.ts\<close>: scopes, delegations and the verification of a delegation chain.  The results: an
  accepted chain starts at an allowed root, its links follow each other and carry valid signatures of keys bound to
  their delegators, every link is unexpired and unrevoked, and authority only narrows along it.
\<close>

section \<open>delegation.ts\<close>

record Scope =
  sc_actions :: "string list"
  sc_resources :: "string list"
  sc_max_amount :: "jsnum option"

record Delegation =
  dg_delegation_id :: string
  dg_delegator :: string
  dg_delegate :: string
  dg_scope :: Scope
  dg_audience :: string
  dg_not_before :: string
  dg_expires_at :: string
  dg_nonce :: string
  dg_parent :: "string option"
  dg_issued_at :: string

definition scopeVal :: "Scope \<Rightarrow> jsval" where
  "scopeVal s = JObj [(''actions'', JArr (map JStr (sc_actions s))), (''resources'', JArr (map JStr (sc_resources s))),
     (''max_amount'', case sc_max_amount s of Some n \<Rightarrow> JNum n | None \<Rightarrow> JUndef)]"

definition delegationVal :: "Delegation \<Rightarrow> jsval" where
  "delegationVal d = JObj [(''schema'', JStr ''cool.delegation.v1''), (''delegation_id'', JStr (dg_delegation_id d)),
     (''delegator'', JStr (dg_delegator d)), (''delegate'', JStr (dg_delegate d)), (''scope'', scopeVal (dg_scope d)),
     (''audience'', JStr (dg_audience d)), (''not_before'', JStr (dg_not_before d)),
     (''expires_at'', JStr (dg_expires_at d)), (''nonce'', JStr (dg_nonce d)), (''parent'', optStr (dg_parent d)),
     (''issued_at'', JStr (dg_issued_at d))]"

definition grantDelegation :: "env \<Rightarrow> Delegation \<Rightarrow> KeyPair \<Rightarrow> Delegation Signed res" where
  "grantDelegation P d delegatorKey = signObject P delegationVal ''cool.delegation.v1'' d delegatorKey"

definition covers :: "string \<Rightarrow> string \<Rightarrow> bool" where
  "covers pattern v = (if endsWithChar pattern (CHR 0x2A) then startsWith v (butlast pattern) else pattern = v)"

definition within_scope :: "string \<Rightarrow> string \<Rightarrow> bool" where
  "within_scope r p = (if \<not> endsWithChar p (CHR 0x2A) then \<not> endsWithChar r (CHR 0x2A) \<and> r = p
     else startsWith (if endsWithChar r (CHR 0x2A) then butlast r else r) (butlast p))"

text \<open>\<open>Some\<close> names what exceeds; an extra action or resource that is the empty string is falsy.\<close>

definition scopeExcess :: "Scope \<Rightarrow> Scope \<Rightarrow> string option" where
  "scopeExcess child parent =
     (let extraAction = find (\<lambda>a. a \<notin> set (sc_actions parent)) (sc_actions child);
          extraResource = find (\<lambda>r. \<not> list_ex (within_scope r) (sc_resources parent)) (sc_resources child)
      in if truthy extraAction then Some (''action '' @ the extraAction)
      else if truthy extraResource then Some (''resource '' @ the extraResource)
      else case sc_max_amount parent of
          None \<Rightarrow> None
        | Some pm \<Rightarrow> (case sc_max_amount child of
              None \<Rightarrow> Some ''amount ceiling''
            | Some cm \<Rightarrow> if js_lt pm cm then Some ''amount ceiling'' else None))"

record ChainRequest =
  cr_requester :: string
  cr_action :: string
  cr_resource :: string
  cr_audience :: string
  cr_amount :: "jsnum option"

record ChainOptions =
  co_directory :: PrincipalDirectory
  co_roots :: "string list"
  co_at :: time
  co_revoked :: "string list option"
  co_maxDepth :: "nat option"

text \<open>The three principal checks of a link: the first that does not pass fails the chain.\<close>

fun principalChecks :: "env \<Rightarrow> PrincipalDirectory \<Rightarrow> (string \<times> time) list \<Rightarrow> Check option res" where
  "principalChecks P dir [] = Inr None"
| "principalChecks P dir ((who, tm) # r) =
     rbind (principal_check P dir who tm None) (\<lambda>c.
       if c_status c \<noteq> Pass then Inr (Some (check Fail (c_reason c))) else principalChecks P dir r)"

text \<open>One turn of the loop: \<open>Some\<close> is an early return.  \<open>prev\<close> is the link before, if any.\<close>

definition chainLink :: "env \<Rightarrow> ChainOptions \<Rightarrow> Delegation option \<Rightarrow> string list \<Rightarrow> string list \<Rightarrow> Delegation Signed
    \<Rightarrow> Check option res" where
  "chainLink P opt prev seenIds seenPrincipals s =
     (let d = s_body s; issuedAt = date_parse P (dg_issued_at d) in
      if dg_delegation_id d \<in> set seenIds \<or> dg_delegate d \<in> set seenPrincipals
      then Inr (Some (check Fail ''delegation_cycle''))
      else case keyAt P (co_directory opt) (dg_delegator d) (sig_key_id (s_signature s)) issuedAt of
        None \<Rightarrow> Inr (Some (check Fail ''key_not_bound''))
      | Some key \<Rightarrow>
          rbind (verifyIntegrity P delegationVal ''cool.delegation.v1'' s (Some key)) (\<lambda>(integrity, signature).
            if c_status integrity \<noteq> Pass then Inr (Some integrity)
            else if c_status signature \<noteq> Pass then Inr (Some (check Fail (c_reason signature)))
            else rbind (principalChecks P (co_directory opt)
                   [(dg_delegator d, issuedAt), (dg_delegator d, co_at opt), (dg_delegate d, co_at opt)]) (\<lambda>pc.
              case pc of Some c \<Rightarrow> Inr (Some c) | None \<Rightarrow>
              Inr (if (case co_revoked opt of Some rs \<Rightarrow> dg_delegation_id d \<in> set rs | None \<Rightarrow> False)
                then Some (check Fail ''delegation_revoked'')
              else if t_lt (co_at opt) (date_parse P (dg_not_before d)) then Some (check Fail ''delegation_not_yet_valid'')
              else if t_gt (co_at opt) (date_parse P (dg_expires_at d)) then Some (check Fail ''delegation_expired'')
              else case prev of
                None \<Rightarrow>
                  if truthy (dg_parent d) then Some (check Fail ''broken_chain'')
                  else if dg_delegator d \<notin> set (co_roots opt) then Some (check Fail ''untrusted_root'')
                  else None
              | Some p \<Rightarrow>
                  if dg_parent d \<noteq> Some (dg_delegation_id p) \<or> dg_delegator d \<noteq> dg_delegate p
                  then Some (check Fail ''broken_chain'')
                  else if truthy (scopeExcess (dg_scope d) (dg_scope p)) then Some (check Fail ''privilege_amplification'')
                  else if t_gt (date_parse P (dg_expires_at d)) (date_parse P (dg_expires_at p))
                  then Some (check Fail ''privilege_amplification'')
                  else None))))"

fun chainLoop :: "env \<Rightarrow> ChainOptions \<Rightarrow> Delegation option \<Rightarrow> string list \<Rightarrow> string list \<Rightarrow> Delegation Signed list
    \<Rightarrow> Check option res" where
  "chainLoop P opt prev seenIds seenPrincipals [] = Inr None"
| "chainLoop P opt prev seenIds seenPrincipals (s # chain) =
     rbind (chainLink P opt prev seenIds seenPrincipals s) (\<lambda>r. case r of
         Some c \<Rightarrow> Inr (Some c)
       | None \<Rightarrow> chainLoop P opt (Some (s_body s)) (dg_delegation_id (s_body s) # seenIds)
                   (dg_delegate (s_body s) # seenPrincipals) chain)"

definition leafCheck :: "Delegation \<Rightarrow> ChainRequest \<Rightarrow> Check" where
  "leafCheck leaf request =
     (if dg_delegate leaf \<noteq> cr_requester request then check Fail ''wrong_delegate''
      else if dg_audience leaf \<noteq> [CHR 0x2A] \<and> dg_audience leaf \<noteq> cr_audience request then check Fail ''wrong_audience''
      else if cr_action request \<notin> set (sc_actions (dg_scope leaf)) then check Fail ''scope_exceeded''
      else if \<not> list_ex (\<lambda>p. covers p (cr_resource request)) (sc_resources (dg_scope leaf)) then check Fail ''scope_exceeded''
      else if (case sc_max_amount (dg_scope leaf) of None \<Rightarrow> False
               | Some m \<Rightarrow> (case cr_amount request of None \<Rightarrow> True | Some a \<Rightarrow> js_lt m a))
      then check Fail ''scope_exceeded''
      else check Pass ''chain_valid'')"

definition verifyDelegationChain :: "env \<Rightarrow> Delegation Signed list \<Rightarrow> ChainRequest \<Rightarrow> ChainOptions \<Rightarrow> Check res" where
  "verifyDelegationChain P chain request opt =
     (if chain = [] then Inr (check Fail ''no_delegation'')
      else if length chain > (case co_maxDepth opt of Some m \<Rightarrow> m | None \<Rightarrow> 4) then Inr (check Fail ''delegation_too_deep'')
      else rbind (chainLoop P opt None [] [dg_delegator (s_body (hd chain))] chain) (\<lambda>r. case r of
          Some c \<Rightarrow> Inr c
        | None \<Rightarrow> Inr (leafCheck (s_body (last chain)) request)))"

section \<open>Scopes\<close>

text \<open>What a scope permits: an action on a resource, for an amount.\<close>

definition permits :: "Scope \<Rightarrow> string \<Rightarrow> string \<Rightarrow> jsnum option \<Rightarrow> bool" where
  "permits sc action resource amount = (action \<in> set (sc_actions sc)
     \<and> (\<exists>p \<in> set (sc_resources sc). covers p resource)
     \<and> (case sc_max_amount sc of None \<Rightarrow> True
        | Some m \<Rightarrow> (case amount of None \<Rightarrow> False | Some a \<Rightarrow> \<not> js_lt m a)))"

text \<open>A scope without empty strings and without a NaN ceiling.\<close>

definition plainScope :: "Scope \<Rightarrow> bool" where
  "plainScope sc = ([] \<notin> set (sc_actions sc) \<and> [] \<notin> set (sc_resources sc) \<and> sc_max_amount sc \<noteq> Some NaN)"

lemma within_covers: "within_scope r p \<Longrightarrow> covers r v \<Longrightarrow> covers p v"
  by (auto simp: within_scope_def covers_def split: if_splits intro: startsWith_trans)

lemma js_lt_chain: "b \<noteq> NaN \<Longrightarrow> \<not> js_lt b a \<Longrightarrow> \<not> js_lt c b \<Longrightarrow> \<not> js_lt c a"
  by (cases a; cases b; cases c) (auto simp: js_lt_def)

lemma find_None_all: "find P xs = None \<Longrightarrow> x \<in> set xs \<Longrightarrow> \<not> P x"
  by (auto simp: find_None_iff)

lemma scopeExcess_None:
  assumes "\<not> truthy (scopeExcess child parent)" "plainScope child"
  shows "set (sc_actions child) \<subseteq> set (sc_actions parent)
    \<and> (\<forall>r \<in> set (sc_resources child). \<exists>p \<in> set (sc_resources parent). within_scope r p)
    \<and> (\<forall>pm. sc_max_amount parent = Some pm \<longrightarrow> (\<exists>cm. sc_max_amount child = Some cm \<and> \<not> js_lt pm cm))"
proof -
  let ?ea = "find (\<lambda>a. a \<notin> set (sc_actions parent)) (sc_actions child)"
  let ?er = "find (\<lambda>r. \<not> list_ex (within_scope r) (sc_resources parent)) (sc_resources child)"
  have "\<not> truthy ?ea" "\<not> truthy ?er"
    using assms(1) by (auto simp: scopeExcess_def truthy_def Let_def split: option.splits if_splits)
  moreover have "?ea \<noteq> Some []" "?er \<noteq> Some []"
    using assms(2) by (auto simp: plainScope_def find_Some_iff) (metis nth_mem)+
  ultimately have n: "?ea = None" "?er = None" by (auto simp: truthy_def split: option.splits)
  have "\<forall>pm. sc_max_amount parent = Some pm \<longrightarrow> (\<exists>cm. sc_max_amount child = Some cm \<and> \<not> js_lt pm cm)"
    using assms(1) n by (auto simp: scopeExcess_def truthy_def Let_def split: option.splits if_splits)
  with find_None_all [OF n(1)] find_None_all [OF n(2)] show ?thesis by (auto simp: list_ex_iff)
qed

text \<open>A child scope that does not exceed its parent permits no more.\<close>

lemma permits_mono:
  assumes "\<not> truthy (scopeExcess child parent)" "plainScope child" "permits child a r amt"
  shows "permits parent a r amt"
proof -
  note ex = scopeExcess_None [OF assms(1,2)]
  have "\<exists>p \<in> set (sc_resources parent). covers p r"
    using ex assms(3) within_covers unfolding permits_def by blast
  moreover have "case sc_max_amount parent of None \<Rightarrow> True
      | Some m \<Rightarrow> (case amt of None \<Rightarrow> False | Some a \<Rightarrow> \<not> js_lt m a)"
  proof (cases "sc_max_amount parent")
    case (Some pm)
    with ex obtain cm where cm: "sc_max_amount child = Some cm" "\<not> js_lt pm cm" by blast
    then obtain b where b: "amt = Some b" "\<not> js_lt cm b"
      using assms(3) by (auto simp: permits_def split: option.splits)
    have "cm \<noteq> NaN" using assms(2) cm(1) by (auto simp: plainScope_def)
    with b cm Some show ?thesis using js_lt_chain by auto
  qed simp
  ultimately show ?thesis using ex assms(3) by (auto simp: permits_def)
qed

section \<open>Chains\<close>

text \<open>What one accepted link establishes.\<close>

definition linkOk :: "env \<Rightarrow> ChainOptions \<Rightarrow> Delegation Signed \<Rightarrow> bool" where
  "linkOk P opt s = (let d = s_body s; issuedAt = date_parse P (dg_issued_at d) in
     (\<exists>key m. keyAt P (co_directory opt) (dg_delegator d) (sig_key_id (s_signature s)) issuedAt = Some key
        \<and> s_digest s = digestOf P ''cool.delegation.v1'' (delegationVal d)
        \<and> sigMessage ''cool.delegation.v1'' (s_digest s) = Inr m
        \<and> hv_ok (hybridVerify P m (s_signature s) key))
     \<and> activeAt P (co_directory opt) (dg_delegator d) issuedAt
     \<and> activeAt P (co_directory opt) (dg_delegator d) (co_at opt)
     \<and> activeAt P (co_directory opt) (dg_delegate d) (co_at opt)
     \<and> (\<forall>rs. co_revoked opt = Some rs \<longrightarrow> dg_delegation_id d \<notin> set rs)
     \<and> withinDates P (dg_not_before d) (dg_expires_at d) (co_at opt))"

definition follows :: "env \<Rightarrow> Delegation \<Rightarrow> Delegation \<Rightarrow> bool" where
  "follows P p d = (dg_parent d = Some (dg_delegation_id p) \<and> dg_delegator d = dg_delegate p
     \<and> \<not> truthy (scopeExcess (dg_scope d) (dg_scope p))
     \<and> \<not> t_gt (date_parse P (dg_expires_at d)) (date_parse P (dg_expires_at p)))"

lemma principalChecks_None:
  "principalChecks P dir ws = Inr None \<Longrightarrow> (who, tm) \<in> set ws \<Longrightarrow> activeAt P dir who tm"
  by (induction P dir ws rule: principalChecks.induct)
    (auto simp: rbind_Inr_iff split: if_splits intro: principal_check_activeAt)

lemma chainLink_None:
  assumes "chainLink P opt prev ids prins s = Inr None"
  shows "linkOk P opt s \<and> dg_delegation_id (s_body s) \<notin> set ids \<and> dg_delegate (s_body s) \<notin> set prins
    \<and> (case prev of None \<Rightarrow> dg_delegator (s_body s) \<in> set (co_roots opt) | Some p \<Rightarrow> follows P p (s_body s))"
proof -
  let ?d = "s_body s"
  let ?ws = "[(dg_delegator ?d, date_parse P (dg_issued_at ?d)), (dg_delegator ?d, co_at opt), (dg_delegate ?d, co_at opt)]"
  from assms obtain key i g where
    k: "keyAt P (co_directory opt) (dg_delegator ?d) (sig_key_id (s_signature s)) (date_parse P (dg_issued_at ?d)) = Some key"
    and v: "verifyIntegrity P delegationVal ''cool.delegation.v1'' s (Some key) = Inr (i, g)" "c_status g = Pass"
    and pc: "principalChecks P (co_directory opt) ?ws = Inr None"
    and ids: "dg_delegation_id ?d \<notin> set ids" "dg_delegate ?d \<notin> set prins"
    and rest: "\<forall>rs. co_revoked opt = Some rs \<longrightarrow> dg_delegation_id ?d \<notin> set rs"
      "\<not> t_lt (co_at opt) (date_parse P (dg_not_before ?d))" "\<not> t_gt (co_at opt) (date_parse P (dg_expires_at ?d))"
      "case prev of None \<Rightarrow> dg_delegator ?d \<in> set (co_roots opt) | Some p \<Rightarrow> follows P p ?d"
    by (auto simp: chainLink_def Let_def rbind_Inr_iff follows_def split: if_splits option.splits prod.splits)
  have act: "activeAt P (co_directory opt) who tm" if "(who, tm) \<in> set ?ws" for who tm
    using principalChecks_None [OF pc that] .
  have dates: "withinDates P (dg_not_before ?d) (dg_expires_at ?d) (co_at opt)"
    using act [of "dg_delegator ?d" "co_at opt"] rest(2,3) by (intro withinDatesI) (auto dest: activeAt_time)
  from verifyIntegrity_pass [OF v] k act dates rest ids
  show ?thesis unfolding linkOk_def Let_def by auto
qed

lemma chainLoop_None:
  "chainLoop P opt prev ids prins chain = Inr None \<Longrightarrow>
     (\<forall>s \<in> set chain. linkOk P opt s)
   \<and> successively (follows P) ((case prev of None \<Rightarrow> [] | Some p \<Rightarrow> [p]) @ map s_body chain)
   \<and> (prev = None \<and> chain \<noteq> [] \<longrightarrow> dg_delegator (s_body (hd chain)) \<in> set (co_roots opt))
   \<and> distinct (map (dg_delegation_id \<circ> s_body) chain) \<and> set (map (dg_delegation_id \<circ> s_body) chain) \<inter> set ids = {}"
proof (induction P opt prev ids prins chain rule: chainLoop.induct)
  case (1 P opt prev ids prins)
  then show ?case by (auto split: option.splits)
next
  case (2 P opt prev ids prins s chain)
  then have link: "chainLink P opt prev ids prins s = Inr None"
    and loop: "chainLoop P opt (Some (s_body s)) (dg_delegation_id (s_body s) # ids) (dg_delegate (s_body s) # prins) chain = Inr None"
    by (auto simp: rbind_Inr_iff split: option.splits)
  from 2(1) [OF loop] chainLink_None [OF link] show ?case
    by (auto split: option.splits simp: successively_Cons)
qed

text \<open>An early return is a failure.\<close>

lemma verifyIntegrity_integrity: "verifyIntegrity P enc ctx s e = Inr (i, g) \<Longrightarrow> c_status i \<in> {Pass, Fail}"
  by (auto simp: verifyIntegrity_def Let_def rbind_Inr_iff split: if_splits)

lemma principalChecks_Some: "principalChecks P dir ws = Inr (Some c) \<Longrightarrow> c_status c = Fail"
  by (induction P dir ws rule: principalChecks.induct) (auto simp: rbind_Inr_iff split: if_splits)

lemma chainLink_Some:
  assumes "chainLink P opt prev ids prins s = Inr (Some c)"
  shows "c_status c = Fail"
proof -
  let ?d = "s_body s"
  let ?ws = "[(dg_delegator ?d, date_parse P (dg_issued_at ?d)), (dg_delegator ?d, co_at opt), (dg_delegate ?d, co_at opt)]"
  have "(\<exists>r. c = check Fail r) \<or> (c_status c \<noteq> Pass \<and> (\<exists>key g. verifyIntegrity P delegationVal ''cool.delegation.v1'' s (Some key) = Inr (c, g)))
      \<or> principalChecks P (co_directory opt) ?ws = Inr (Some c)"
    using assms unfolding chainLink_def Let_def
    by (simp add: rbind_Inr_iff case_prod_beta del: principalChecks.simps split: if_splits option.splits) blast+
  then show ?thesis using principalChecks_Some [of P "co_directory opt" ?ws c]
    by (elim disjE) (auto simp del: principalChecks.simps dest: verifyIntegrity_integrity)
qed

lemma chainLoop_Some: "chainLoop P opt prev ids prins ch = Inr (Some c) \<Longrightarrow> c_status c = Fail"
proof (induction P opt prev ids prins ch rule: chainLoop.induct)
  case (2 P opt prev ids prins s chain)
  then show ?case using chainLink_Some [of P opt prev ids prins s c]
    by (auto simp: rbind_Inr_iff split: option.splits)
qed simp

lemma leafCheck_permits:
  "c_status (leafCheck leaf request) = Pass \<Longrightarrow> dg_delegate leaf = cr_requester request
     \<and> (dg_audience leaf = [CHR 0x2A] \<or> dg_audience leaf = cr_audience request)
     \<and> permits (dg_scope leaf) (cr_action request) (cr_resource request) (cr_amount request)"
  by (auto simp: leafCheck_def permits_def list_ex_iff split: if_splits option.splits)

lemma chain_permits:
  "successively (follows P) ds \<Longrightarrow> ds \<noteq> [] \<Longrightarrow> \<forall>d \<in> set (tl ds). plainScope (dg_scope d) \<Longrightarrow>
     permits (dg_scope (last ds)) a r amt \<Longrightarrow> d \<in> set ds \<Longrightarrow> permits (dg_scope d) a r amt"
proof (induction ds rule: rev_induct)
  case (snoc x xs)
  show ?case
  proof (cases "xs = []")
    case True
    with snoc show ?thesis by simp
  next
    case False
    with snoc.prems(1) have f: "follows P (last xs) x" "successively (follows P) xs"
      by (auto simp: successively_append_iff)
    from False snoc.prems(3) have plain: "plainScope (dg_scope x)" "\<forall>d \<in> set (tl xs). plainScope (dg_scope d)" by auto
    have "permits (dg_scope (last xs)) a r amt"
      using permits_mono [OF _ plain(1), of "dg_scope (last xs)"] f(1) snoc.prems(4) by (auto simp: follows_def)
    with snoc.IH [OF f(2) False plain(2)] snoc.prems(4,5) show ?thesis by auto
  qed
qed simp

lemma chain_pass:
  assumes "verifyDelegationChain P chain request opt = Inr c" "c_status c = Pass"
  shows "chain \<noteq> [] \<and> length chain \<le> (case co_maxDepth opt of Some m \<Rightarrow> m | None \<Rightarrow> 4)
    \<and> (\<forall>s \<in> set chain. linkOk P opt s) \<and> successively (follows P) (map s_body chain)
    \<and> dg_delegator (s_body (hd chain)) \<in> set (co_roots opt) \<and> distinct (map (dg_delegation_id \<circ> s_body) chain)
    \<and> c_status (leafCheck (s_body (last chain)) request) = Pass"
proof -
  have ne: "chain \<noteq> []" and len: "length chain \<le> (case co_maxDepth opt of Some m \<Rightarrow> m | None \<Rightarrow> 4)"
    using assms by (auto simp: verifyDelegationChain_def not_less split: if_splits)
  from assms(1) ne len obtain r where r: "chainLoop P opt None [] [dg_delegator (s_body (hd chain))] chain = Inr r"
    "c = (case r of Some c \<Rightarrow> c | None \<Rightarrow> leafCheck (s_body (last chain)) request)"
    by (auto simp: verifyDelegationChain_def rbind_Inr_iff split: option.splits)
  have "r = None"
  proof (cases r)
    case (Some c')
    with r(2) have "r = Some c" by simp
    with r(1) chainLoop_Some [of P opt None] assms(2) show ?thesis by fastforce
  qed
  with r assms(2) chainLoop_None [of P opt None "[]" _ chain] ne len show ?thesis by simp
qed

lemma chain_statuses: "verifyDelegationChain P chain request opt = Inr c \<Longrightarrow> c_status c \<in> {Pass, Fail}"
  by (auto simp: verifyDelegationChain_def rbind_Inr_iff leafCheck_def dest: chainLoop_Some split: if_splits option.splits)

section \<open>Properties\<close>

text \<open>
  \<^bold>\<open>C6.\<close> Authority only narrows, provided that no scope below the first one lists the empty string as an action or a resource or
  has a NaN ceiling (with an empty string it can widen: \<open>empty_action_amplifies\<close>).  If \<^verbatim>\<open>verifyDelegationChain\<close>
  accepts such a chain for a request, then the chain begins with a principal allowed to originate authority; each delegator is the
  delegate of the link before, and no link outlives that one as far as the two dates can be read; the last link is the requester's and
  permits the requested action on the requested resource for the requested amount; and whatever the last link permits,
  requested or not, every delegation of the chain up to the root permits.
\<close>

theorem chain_no_amplification:
  assumes "verifyDelegationChain P chain request opt = Inr c" "c_status c = Pass"
    and "\<forall>s \<in> set (tl chain). plainScope (dg_scope (s_body s))"
  shows "chain \<noteq> [] \<and> dg_delegator (s_body (hd chain)) \<in> set (co_roots opt)
    \<and> successively (\<lambda>p d. dg_delegator d = dg_delegate p
        \<and> \<not> t_gt (date_parse P (dg_expires_at d)) (date_parse P (dg_expires_at p))) (map s_body chain)
    \<and> dg_delegate (s_body (last chain)) = cr_requester request
    \<and> permits (dg_scope (s_body (last chain))) (cr_action request) (cr_resource request) (cr_amount request)
    \<and> (\<forall>action resource amount. permits (dg_scope (s_body (last chain))) action resource amount \<longrightarrow>
        (\<forall>s \<in> set chain. permits (dg_scope (s_body s)) action resource amount))"
proof -
  note cp = chain_pass [OF assms(1,2)]
  have last: "last (map s_body chain) = s_body (last chain)" using cp by (simp add: last_map)
  have plain: "\<forall>d \<in> set (tl (map s_body chain)). plainScope (dg_scope d)" using assms(3) by (simp add: map_tl [symmetric])
  have "permits (dg_scope (s_body s)) action resource amount"
    if "permits (dg_scope (s_body (last chain))) action resource amount" "s \<in> set chain" for action resource amount s
    using chain_permits [of P "map s_body chain", OF _ _ plain] cp that last by auto
  moreover have "successively (\<lambda>p d. dg_delegator d = dg_delegate p
      \<and> \<not> t_gt (date_parse P (dg_expires_at d)) (date_parse P (dg_expires_at p))) (map s_body chain)"
    using cp by (elim conjE) (erule successively_mono, auto simp: follows_def)
  ultimately show ?thesis using cp leafCheck_permits by blast
qed

text \<open>
  Every link of an accepted chain stands on its own: it is signed, over its exact body, by a key the directory binds
  to its delegator at issue time; delegator and delegate are active at the event time; it is not revoked, not expired and
  not early; it continues the link before it; no delegation occurs twice and the chain is within the depth bound.
\<close>

theorem chain_links_verified:
  assumes "verifyDelegationChain P chain request opt = Inr c" "c_status c = Pass"
  shows "chain \<noteq> [] \<and> length chain \<le> (case co_maxDepth opt of Some m \<Rightarrow> m | None \<Rightarrow> 4)
    \<and> (\<forall>s \<in> set chain. linkOk P opt s) \<and> successively (follows P) (map s_body chain)
    \<and> distinct (map (dg_delegation_id \<circ> s_body) chain)
    \<and> dg_delegate (s_body (last chain)) = cr_requester request"
  using chain_pass [OF assms] leafCheck_permits by blast

text \<open>
  The search for an extra action stops at the first one and its result is tested for truth, so an empty string hides
  whatever follows it: a child scope may name any action at all.
\<close>

lemma empty_action_amplifies:
  "scopeExcess \<lparr>sc_actions = ['''', ''admin''], sc_resources = [], sc_max_amount = None\<rparr>
     \<lparr>sc_actions = [''read''], sc_resources = [], sc_max_amount = None\<rparr> = None"
  by (simp add: scopeExcess_def truthy_def)

section \<open>Witnesses\<close>

definition toyDirectory :: PrincipalDirectory where
  "toyDirectory = \<lparr>dir_entries = map (\<lambda>i. (i, \<lparr>e_record = toyPrincipal i, e_events = []\<rparr>)) [''a'', ''b'', ''c''],
     dir_trust = toyTrust [toyKeyRecord ''issuer'' [PIdentityIssuer]]\<rparr>"

text \<open>\<^verbatim>\<open>a\<close> lets \<^verbatim>\<open>b\<close> read and write all documents; \<^verbatim>\<open>b\<close> lets \<^verbatim>\<open>c\<close> read the first.\<close>

definition toyDelegation :: Delegation where
  "toyDelegation = \<lparr>dg_delegation_id = ''d'', dg_delegator = ''a'', dg_delegate = ''b'',
     dg_scope = \<lparr>sc_actions = [''read'', ''write''], sc_resources = [''doc/*''], sc_max_amount = None\<rparr>, dg_audience = ''gw'',
     dg_not_before = ''0'', dg_expires_at = ''100'', dg_nonce = ''n'', dg_parent = None, dg_issued_at = ''0''\<rparr>"

definition toySubDelegation :: Delegation where
  "toySubDelegation = \<lparr>dg_delegation_id = ''e'', dg_delegator = ''b'', dg_delegate = ''c'',
     dg_scope = \<lparr>sc_actions = [''read''], sc_resources = [''doc/1''], sc_max_amount = None\<rparr>, dg_audience = ''gw'',
     dg_not_before = ''0'', dg_expires_at = ''50'', dg_nonce = ''n'', dg_parent = Some ''d'', dg_issued_at = ''0''\<rparr>"

definition toyGrant :: "Delegation \<Rightarrow> Delegation Signed" where
  "toyGrant d = (case grantDelegation toyEnv d (toyKey (dg_delegator d)) of Inr s \<Rightarrow> s)"

lemma toyGrant: "grantDelegation toyEnv d (toyKey (dg_delegator d)) = Inr (toyGrant d)"
proof -
  obtain s where "signObject toyEnv delegationVal ''cool.delegation.v1'' d (toyKey (dg_delegator d)) = Inr s"
    by (rule signObject_total [OF digests32_toyEnv])
  then show ?thesis by (simp add: toyGrant_def grantDelegation_def)
qed

lemma toyGrant_fields: "s_body (toyGrant d) = d" "sig_key_id (s_signature (toyGrant d)) = dg_delegator d"
  using signObject_fields [OF toyGrant [unfolded grantDelegation_def], of d] by simp_all

lemma toyGrant_verifies:
  "verifyIntegrity toyEnv delegationVal ''cool.delegation.v1'' (toyGrant d) (Some (directoryEntry (toyKey (dg_delegator d))))
    = Inr (check Pass ''digest_matches'', check Pass ''signature_valid'')"
  by (rule signObject_verifies [OF digests32_toyEnv signs_toyEnv generated_toyKey toyGrant [unfolded grantDelegation_def]])

definition toyChain :: "Delegation Signed list" where
  "toyChain = [toyGrant toyDelegation, toyGrant toySubDelegation]"

definition toyChainOptions :: ChainOptions where
  "toyChainOptions = \<lparr>co_directory = toyDirectory, co_roots = [''a''], co_at = Some 50, co_revoked = Some [], co_maxDepth = None\<rparr>"

definition toyChainRequest :: ChainRequest where
  "toyChainRequest = \<lparr>cr_requester = ''c'', cr_action = ''read'', cr_resource = ''doc/1'', cr_audience = ''gw'', cr_amount = None\<rparr>"

lemma toyDirectory_active:
  "i \<in> {''a'', ''b'', ''c''} \<Longrightarrow> t \<ge> 0 \<Longrightarrow>
     principal_check toyEnv toyDirectory i (Some t) None = Inr (check Pass ''principal_active'')"
  by (auto simp: principal_check_def stateAt_def toyDirectory_def toyPrincipal_def toyDates truthy_def Let_def)

lemma toyDirectory_key:
  "i \<in> {''a'', ''b''} \<Longrightarrow> keyAt toyEnv toyDirectory i i (Some 0) = Some (directoryEntry (toyKey i))"
  by (auto simp: keyAt_def stateAt_def toyDirectory_def toyPrincipal_def toyDates Let_def)

lemma toyScopes: "scopeExcess (dg_scope toySubDelegation) (dg_scope toyDelegation) = None" "plainScope (dg_scope toySubDelegation)"
  "\<not> permits (dg_scope toySubDelegation) ''write'' ''doc/1'' None"
  by (simp_all add: toySubDelegation_def toyDelegation_def scopeExcess_def within_scope_def endsWithChar_def plainScope_def
    permits_def truthy_def Let_def)

lemma toyChain_first:
  "chainLink toyEnv toyChainOptions None [] [''a''] (toyGrant toyDelegation) = Inr None"
  using toyGrant_verifies [of toyDelegation] toyDirectory_key [of "''a''"]
  by (simp add: chainLink_def toyGrant_fields toyDelegation_def toyChainOptions_def toyDirectory_active toyDates truthy_def Let_def)

lemma toyChain_second:
  "chainLink toyEnv toyChainOptions (Some toyDelegation) [''d''] [''b'', ''a''] (toyGrant toySubDelegation) = Inr None"
proof -
  have "dg_delegation_id toySubDelegation = ''e''" "dg_delegator toySubDelegation = ''b''" "dg_delegate toySubDelegation = ''c''"
    "dg_not_before toySubDelegation = ''0''" "dg_expires_at toySubDelegation = ''50''" "dg_parent toySubDelegation = Some ''d''"
    "dg_issued_at toySubDelegation = ''0''" "dg_delegation_id toyDelegation = ''d''" "dg_delegate toyDelegation = ''b''"
    "dg_expires_at toyDelegation = ''100''"
    by (simp_all add: toySubDelegation_def toyDelegation_def)
  with toyGrant_verifies [of toySubDelegation] toyDirectory_key [of "''b''"] toyScopes(1) show ?thesis
    by (simp add: chainLink_def toyGrant_fields toyChainOptions_def toyDirectory_active toyDates truthy_def Let_def)
qed

lemma toyChain_accepted:
  "verifyDelegationChain toyEnv toyChain toyChainRequest toyChainOptions = Inr (check Pass ''chain_valid'')"
proof -
  have f: "dg_delegation_id toyDelegation = ''d''" "dg_delegator toyDelegation = ''a''" "dg_delegate toyDelegation = ''b''"
    by (simp_all add: toyDelegation_def)
  have "leafCheck toySubDelegation toyChainRequest = check Pass ''chain_valid''"
    by (simp add: leafCheck_def toyChainRequest_def toySubDelegation_def covers_def endsWithChar_def)
  then show ?thesis
    by (simp add: verifyDelegationChain_def toyChain_def toyGrant_fields f toyChain_first toyChain_second)
      (simp add: toyChainOptions_def)
qed

theorem chain_no_amplification_witness:
  "permits (dg_scope toyDelegation) ''read'' ''doc/1'' None \<and> \<not> permits (dg_scope toySubDelegation) ''write'' ''doc/1'' None"
  using chain_no_amplification [OF toyChain_accepted] toyScopes(2,3)
  by (simp add: toyChain_def toyGrant_fields toyChainRequest_def)

theorem chain_links_verified_witness:
  "linkOk toyEnv toyChainOptions (toyGrant toySubDelegation)"
  using chain_links_verified [OF toyChain_accepted] by (simp add: toyChain_def)

end
