(* ===== verification/Policy.thy ===== *)
theory Policy
  imports Status
begin

text \<open>
  \<^verbatim>\<open>src/src/platform/policy.ts\<close>: the policy engine.  Conditions are evaluated in three-valued logic with the
  short-circuit loops of the code, which collect the facts they could not read; \<open>sem\<close> is the same logic without the
  loops.  The results: a validated policy always evaluates, the most restrictive contribution wins whatever the
  order of the rules, and an answer that was definite stays the same when more facts become known.

  A document is typed as its interface says, except that decisions and the mode are strings (the validator checks
  them) and \<open>CBad\<close> stands for a condition that is not an object, whose fact is not a string or whose operator is
  unknown.  A fact is looked up among the own properties of the facts object.
\<close>

section \<open>policy.ts: documents\<close>

datatype Op = OpEq | OpNeq | OpIn | OpExists | OpLt | OpLte | OpGt | OpGte | OpMatches

datatype Condition =
    CAll "Condition list"
  | CAny "Condition list"
  | CNot Condition
  | CFact string Op jsval
  | CBad

record PolicyRule =
  r_id :: string
  r_description :: "string option"
  r_when :: Condition
  r_decision :: string
  r_reason :: string
  r_on_unknown :: "string option"

record PolicyDocument =
  p_schema :: string
  p_id :: string
  p_version :: string
  p_description :: "string option"
  p_mode :: string
  p_default :: string
  p_on_unknown :: "string option"
  p_rules :: "PolicyRule list"

type_synonym Facts = "(string \<times> jsval) list"

datatype Tri = TT | TF | TU

record MatchedRule =
  m_id :: string
  m_result :: Tri
  m_decision :: string
  m_reason :: string
  m_unknown_facts :: "string list"

record PolicyDecisionRecord =
  d_policy_id :: string
  d_policy_version :: string
  d_policy_digest :: Multihash
  d_mode :: string
  d_decision :: string
  d_enforced :: bool
  d_matched_rules :: "MatchedRule list"
  d_reason_codes :: "string list"
  d_input_digest :: Multihash
  d_input_refs :: "string list"
  d_evaluated_at :: string

definition SEVERITY :: "(string \<times> nat) list" where
  "SEVERITY = [(''allow'', 0), (''audit_only'', 1), (''defer'', 2), (''require_approval'', 3), (''quarantine'', 4),
     (''deny'', 5)]"

definition DECISIONS :: "string list" where
  "DECISIONS = map fst SEVERITY"

section \<open>policy.ts: evaluation\<close>

text \<open>\<^verbatim>\<open>===\<close>: objects and arrays of different documents are never identical.\<close>

definition strictEq :: "jsval \<Rightarrow> jsval \<Rightarrow> bool" where
  "strictEq a b = (case (a, b) of
       (JUndef, JUndef) \<Rightarrow> True | (JNull, JNull) \<Rightarrow> True
     | (JBool x, JBool y) \<Rightarrow> x = y | (JNum x, JNum y) \<Rightarrow> js_num_eq x y | (JStr x, JStr y) \<Rightarrow> x = y
     | _ \<Rightarrow> False)"

text \<open>\<^verbatim>\<open>Array.prototype.includes\<close> compares with \<^verbatim>\<open>SameValueZero\<close>, where NaN equals itself.\<close>

definition sameValueZero :: "jsval \<Rightarrow> jsval \<Rightarrow> bool" where
  "sameValueZero a b = (strictEq a b \<or> (a = JNum NaN \<and> b = JNum NaN))"

definition factValue :: "Facts \<Rightarrow> string \<Rightarrow> jsval" where
  "factValue facts f = (case map_of facts f of Some v \<Rightarrow> v | None \<Rightarrow> JUndef)"

definition nullish :: "jsval \<Rightarrow> bool" where
  "nullish v = (v = JUndef \<or> v = JNull)"

definition numCompare :: "(jsnum \<Rightarrow> jsnum \<Rightarrow> bool) \<Rightarrow> jsval \<Rightarrow> jsval \<Rightarrow> bool" where
  "numCompare rel a b = (case (a, b) of (JNum x, JNum y) \<Rightarrow> rel x y | _ \<Rightarrow> False)"

definition testOp :: "env \<Rightarrow> Op \<Rightarrow> jsval \<Rightarrow> jsval \<Rightarrow> bool res" where
  "testOp P op value cvalue = (case op of
       OpEq \<Rightarrow> Inr (strictEq value cvalue)
     | OpNeq \<Rightarrow> Inr (\<not> strictEq value cvalue)
     | OpIn \<Rightarrow> Inr (case cvalue of JArr vs \<Rightarrow> list_ex (\<lambda>v. sameValueZero v value) vs | _ \<Rightarrow> False)
     | OpLt \<Rightarrow> Inr (numCompare js_lt value cvalue)
     | OpLte \<Rightarrow> Inr (numCompare js_le value cvalue)
     | OpGt \<Rightarrow> Inr (numCompare (\<lambda>x y. js_lt y x) value cvalue)
     | OpGte \<Rightarrow> Inr (numCompare (\<lambda>x y. js_le y x) value cvalue)
     | OpMatches \<Rightarrow> (case (value, cvalue) of
           (JStr s, JStr p) \<Rightarrow> (case regex P p of None \<Rightarrow> Inl (Error ''SyntaxError'') | Some f \<Rightarrow> Inr (f s))
         | _ \<Rightarrow> Inr False)
     | OpExists \<Rightarrow> Inr (\<not> nullish value))"

definition triOf :: "bool \<Rightarrow> Tri" where
  "triOf b = (if b then TT else TF)"

fun triNot :: "Tri \<Rightarrow> Tri" where
  "triNot TT = TF"
| "triNot TF = TT"
| "triNot TU = TU"

text \<open>The second component is the set \<^verbatim>\<open>unknowns\<close>; \<open>evalAll\<close> and \<open>evalAny\<close> are the two loops, with
  their flag \<^verbatim>\<open>sawUnknown\<close>.\<close>

fun evaluateCondition :: "env \<Rightarrow> Facts \<Rightarrow> Condition \<Rightarrow> string list \<Rightarrow> (Tri \<times> string list) res"
  and evalAll :: "env \<Rightarrow> Facts \<Rightarrow> Condition list \<Rightarrow> bool \<Rightarrow> string list \<Rightarrow> (Tri \<times> string list) res"
  and evalAny :: "env \<Rightarrow> Facts \<Rightarrow> Condition list \<Rightarrow> bool \<Rightarrow> string list \<Rightarrow> (Tri \<times> string list) res" where
  "evaluateCondition P facts (CAll cs) u = evalAll P facts cs False u"
| "evaluateCondition P facts (CAny cs) u = evalAny P facts cs False u"
| "evaluateCondition P facts (CNot c) u =
     rbind (evaluateCondition P facts c u) (\<lambda>(v, u). Inr (triNot v, u))"
| "evaluateCondition P facts (CFact f op cv) u =
     (let value = factValue facts f in
      if op = OpExists then Inr (triOf (\<not> nullish value), u)
      else if nullish value then Inr (TU, sadd f u)
      else rbind (testOp P op value cv) (\<lambda>b. Inr (triOf b, u)))"
| "evaluateCondition P facts CBad u = Inl TypeError"
| "evalAll P facts [] saw u = Inr (if saw then TU else TT, u)"
| "evalAll P facts (c # cs) saw u =
     rbind (evaluateCondition P facts c u) (\<lambda>(v, u).
       if v = TF then Inr (TF, u) else evalAll P facts cs (saw \<or> v = TU) u)"
| "evalAny P facts [] saw u = Inr (if saw then TU else TF, u)"
| "evalAny P facts (c # cs) saw u =
     rbind (evaluateCondition P facts c u) (\<lambda>(v, u).
       if v = TT then Inr (TT, u) else evalAny P facts cs (saw \<or> v = TU) u)"

section \<open>policy.ts: validation\<close>

text \<open>\<^verbatim>\<open>String(c.value)\<close>, which the code hands to the regular expression constructor.\<close>

definition regexValue :: "env \<Rightarrow> jsval \<Rightarrow> string" where
  "regexValue P v = (case v of JStr s \<Rightarrow> s | _ \<Rightarrow> js_string P v)"

fun walk :: "env \<Rightarrow> string \<Rightarrow> Condition \<Rightarrow> string list"
  and walkList :: "env \<Rightarrow> string \<Rightarrow> nat \<Rightarrow> Condition list \<Rightarrow> string list" where
  "walk P path (CAll cs) = walkList P (path @ ''.all['') 0 cs"
| "walk P path (CAny cs) = walkList P (path @ ''.any['') 0 cs"
| "walk P path (CNot c) = walk P (path @ ''.not'') c"
| "walk P path (CFact f op v) =
     (if op = OpMatches \<and> regex P (regexValue P v) = None then [path @ '': invalid regex''] else [])"
| "walk P path CBad = [path @ '': needs fact and a known op'']"
| "walkList P path i [] = []"
| "walkList P path i (c # cs) = walk P (path @ showNat i @ '']'') c @ walkList P path (Suc i) cs"

definition rulePath :: "nat \<Rightarrow> string" where
  "rulePath i = ''rules['' @ showNat i @ '']''"

definition nonEmpty :: "string option \<Rightarrow> bool" where
  "nonEmpty s = (case s of Some t \<Rightarrow> t \<noteq> [] | None \<Rightarrow> False)"

fun validateRules :: "env \<Rightarrow> nat \<Rightarrow> string list \<Rightarrow> PolicyRule list \<Rightarrow> string list" where
  "validateRules P i ids [] = []"
| "validateRules P i ids (rule # rules) =
     (if r_id rule = [] \<or> r_id rule \<in> set ids then [rulePath i @ '': id missing or duplicated''] else [])
     @ (if r_decision rule \<notin> set DECISIONS then [rulePath i @ '': unknown decision''] else [])
     @ (if nonEmpty (r_on_unknown rule) \<and> the (r_on_unknown rule) \<notin> set DECISIONS
        then [rulePath i @ '': unknown on_unknown''] else [])
     @ (if r_reason rule = [] then [rulePath i @ '': reason code required''] else [])
     @ walk P (rulePath i @ ''.when'') (r_when rule)
     @ validateRules P (Suc i) (r_id rule # ids) rules"

definition validatePolicy :: "env \<Rightarrow> PolicyDocument \<Rightarrow> string list" where
  "validatePolicy P p =
     (if p_schema p \<noteq> ''cool.policy.v1'' then [''schema must be cool.policy.v1''] else [])
     @ (if p_id p = [] \<or> p_version p = [] then [''id and version are required''] else [])
     @ (if p_mode p \<notin> {''observe'', ''enforce''} then [''mode must be observe or enforce''] else [])
     @ (if p_default p \<notin> set DECISIONS then [''default must be one of '' @ join '', '' DECISIONS] else [])
     @ (if nonEmpty (p_on_unknown p) \<and> the (p_on_unknown p) \<notin> set DECISIONS
        then [''on_unknown is not a decision''] else [])
     @ validateRules P 0 [] (p_rules p)"

section \<open>policy.ts: decisions\<close>

definition optField :: "string \<Rightarrow> string option \<Rightarrow> (string \<times> jsval) list" where
  "optField k v = (case v of Some s \<Rightarrow> [(k, JStr s)] | None \<Rightarrow> [])"

definition opName :: "Op \<Rightarrow> string" where
  "opName op = (case op of OpEq \<Rightarrow> ''eq'' | OpNeq \<Rightarrow> ''neq'' | OpIn \<Rightarrow> ''in'' | OpExists \<Rightarrow> ''exists'' | OpLt \<Rightarrow> ''lt''
     | OpLte \<Rightarrow> ''lte'' | OpGt \<Rightarrow> ''gt'' | OpGte \<Rightarrow> ''gte'' | OpMatches \<Rightarrow> ''matches'')"

fun conditionVal :: "Condition \<Rightarrow> jsval" where
  "conditionVal (CAll cs) = JObj [(''all'', JArr (map conditionVal cs))]"
| "conditionVal (CAny cs) = JObj [(''any'', JArr (map conditionVal cs))]"
| "conditionVal (CNot c) = JObj [(''not'', conditionVal c)]"
| "conditionVal (CFact f op v) =
     JObj ([(''fact'', JStr f), (''op'', JStr (opName op))] @ (if v = JUndef then [] else [(''value'', v)]))"
| "conditionVal CBad = JNull"

definition ruleVal :: "PolicyRule \<Rightarrow> jsval" where
  "ruleVal r = JObj ([(''id'', JStr (r_id r))] @ optField ''description'' (r_description r)
     @ [(''when'', conditionVal (r_when r)), (''decision'', JStr (r_decision r)), (''reason'', JStr (r_reason r))]
     @ optField ''on_unknown'' (r_on_unknown r))"

definition policyVal :: "PolicyDocument \<Rightarrow> jsval" where
  "policyVal p = JObj ([(''schema'', JStr (p_schema p)), (''id'', JStr (p_id p)), (''version'', JStr (p_version p))]
     @ optField ''description'' (p_description p)
     @ [(''mode'', JStr (p_mode p)), (''default'', JStr (p_default p))] @ optField ''on_unknown'' (p_on_unknown p)
     @ [(''rules'', JArr (map ruleVal (p_rules p)))])"

definition policyDigest :: "env \<Rightarrow> PolicyDocument \<Rightarrow> Multihash" where
  "policyDigest P p = mhSha256 (sha256 P) (canonicalCbor P (policyVal p))"

definition onUnknown :: "PolicyDocument \<Rightarrow> PolicyRule \<Rightarrow> string" where
  "onUnknown p rule = (case r_on_unknown rule of Some d \<Rightarrow> d
     | None \<Rightarrow> case p_on_unknown p of Some d \<Rightarrow> d | None \<Rightarrow> ''defer'')"

text \<open>The loop over the rules.\<close>

definition matchRule :: "env \<Rightarrow> PolicyDocument \<Rightarrow> Facts \<Rightarrow> PolicyRule \<Rightarrow> MatchedRule option res" where
  "matchRule P p facts rule =
     rbind (evaluateCondition P facts (r_when rule) []) (\<lambda>(v, unknowns).
       Inr (case v of
          TT \<Rightarrow> Some \<lparr>m_id = r_id rule, m_result = TT, m_decision = r_decision rule, m_reason = r_reason rule,
                  m_unknown_facts = []\<rparr>
        | TU \<Rightarrow> Some \<lparr>m_id = r_id rule, m_result = TU, m_decision = onUnknown p rule,
                  m_reason = r_reason rule @ '':unknown_input'', m_unknown_facts = sortBy strLe unknowns\<rparr>
        | TF \<Rightarrow> None))"

definition moreSevere :: "string \<Rightarrow> string \<Rightarrow> bool" where
  "moreSevere a b = (case (map_of SEVERITY a, map_of SEVERITY b) of (Some x, Some y) \<Rightarrow> x > y | _ \<Rightarrow> False)"

definition combine :: "PolicyDocument \<Rightarrow> MatchedRule list \<Rightarrow> string" where
  "combine p matched = (if matched = [] then p_default p
     else fold (\<lambda>m acc. if moreSevere (m_decision m) acc then m_decision m else acc) matched ''allow'')"

definition evaluatePolicy :: "env \<Rightarrow> PolicyDocument \<Rightarrow> Facts \<Rightarrow> int \<Rightarrow> string list \<Rightarrow> PolicyDecisionRecord res" where
  "evaluatePolicy P p facts now inputRefs =
     (if validatePolicy P p \<noteq> [] then Inl (Error (''invalid policy '' @ join ''; '' (validatePolicy P p)))
      else rbind (mapM (matchRule P p facts) (p_rules p)) (\<lambda>ms.
        let matched = List.map_filter (\<lambda>m. m) ms;
            sortedFacts = sortBy (\<lambda>a b. locale_le P (fst a) (fst b)) (filter (\<lambda>(k, v). v \<noteq> JUndef) facts)
        in Inr \<lparr>
          d_policy_id = p_id p,
          d_policy_version = p_version p,
          d_policy_digest = policyDigest P p,
          d_mode = p_mode p,
          d_decision = combine p matched,
          d_enforced = (p_mode p = ''enforce''),
          d_matched_rules = matched,
          d_reason_codes = (if matched = [] then [''no_rule_matched:default'']
                            else map (\<lambda>m. m_id m @ '':'' @ m_reason m) matched),
          d_input_digest = mhSha256 (sha256 P) (canonicalCbor P (JObj sortedFacts)),
          d_input_refs = inputRefs,
          d_evaluated_at = to_iso P now\<rparr>))"

definition simulatePolicy :: "env \<Rightarrow> PolicyDocument \<Rightarrow> (string \<times> Facts) list \<Rightarrow> (string \<times> string \<times> string list) list res" where
  "simulatePolicy P p cases =
     mapM (\<lambda>(name, facts). rbind (evaluatePolicy P (p\<lparr>p_mode := ''observe''\<rparr>) facts 0 [])
       (\<lambda>r. Inr (name, d_decision r, d_reason_codes r))) cases"

section \<open>Three-valued semantics\<close>

definition atom :: "env \<Rightarrow> Facts \<Rightarrow> string \<Rightarrow> Op \<Rightarrow> jsval \<Rightarrow> Tri" where
  "atom P facts f op cv = (let value = factValue facts f in
     if op = OpExists then triOf (\<not> nullish value) else if nullish value then TU
     else case testOp P op value cv of Inr b \<Rightarrow> triOf b | Inl _ \<Rightarrow> TF)"

definition kAnd :: "Tri set \<Rightarrow> Tri" where
  "kAnd V = (if TF \<in> V then TF else if TU \<in> V then TU else TT)"

definition kOr :: "Tri set \<Rightarrow> Tri" where
  "kOr V = (if TT \<in> V then TT else if TU \<in> V then TU else TF)"

primrec sem :: "env \<Rightarrow> Facts \<Rightarrow> Condition \<Rightarrow> Tri" where
  "sem P facts (CAll cs) = kAnd (set (map (sem P facts) cs))"
| "sem P facts (CAny cs) = kOr (set (map (sem P facts) cs))"
| "sem P facts (CNot c) = triNot (sem P facts c)"
| "sem P facts (CFact f op cv) = atom P facts f op cv"
| "sem P facts CBad = TF"

text \<open>What the validator establishes of a condition: no \<open>CBad\<close>, and every pattern compiles.\<close>

primrec wfCond :: "env \<Rightarrow> Condition \<Rightarrow> bool" where
  "wfCond P (CAll cs) = list_all (wfCond P) cs"
| "wfCond P (CAny cs) = list_all (wfCond P) cs"
| "wfCond P (CNot c) = wfCond P c"
| "wfCond P (CFact f op cv) = (op = OpMatches \<longrightarrow> regex P (regexValue P cv) \<noteq> None)"
| "wfCond P CBad = False"

lemma walk_wf:
  "walk P path c = [] \<Longrightarrow> wfCond P c"
  "walkList P path i cs = [] \<Longrightarrow> list_all (wfCond P) cs"
  by (induction P path c and P path i cs rule: walk_walkList.induct) (auto split: if_splits)

lemma testOp_ok: "wfCond P (CFact f op cv) \<Longrightarrow> \<exists>b. testOp P op v cv = Inr b"
  by (auto simp: testOp_def regexValue_def split: Op.splits jsval.splits option.splits)

text \<open>The loops compute the semantics and never throw on a validated condition.\<close>

lemma evaluateCondition_sem:
  "wfCond P c \<Longrightarrow> \<exists>u'. evaluateCondition P facts c u = Inr (sem P facts c, u')"
  "list_all (wfCond P) cs \<Longrightarrow> \<exists>u'. evalAll P facts cs saw u =
     Inr (kAnd (set (map (sem P facts) cs) \<union> (if saw then {TU} else {})), u')"
  "list_all (wfCond P) cs \<Longrightarrow> \<exists>u'. evalAny P facts cs saw u =
     Inr (kOr (set (map (sem P facts) cs) \<union> (if saw then {TU} else {})), u')"
proof (induction P facts c u and P facts cs saw u and P facts cs saw u rule: evaluateCondition_evalAll_evalAny.induct)
  case (1 P facts cs u)
  then show ?case by simp
next
  case (2 P facts cs u)
  then show ?case by simp
next
  case (3 P facts c u)
  then show ?case by fastforce
next
  case (4 P facts f op cv u)
  then show ?case using testOp_ok [of P f op cv "factValue facts f"]
    by (auto simp: atom_def Let_def)
next
  case (5 P facts u)
  then show ?case by simp
next
  case (6 P facts saw u)
  then show ?case by (simp add: kAnd_def)
next
  case (7 P facts c cs saw u)
  then obtain u1 where u1: "evaluateCondition P facts c u = Inr (sem P facts c, u1)" by auto
  show ?case
  proof (cases "sem P facts c = TF")
    case True
    with u1 show ?thesis by (simp add: kAnd_def)
  next
    case False
    from 7(2) [OF False, of u1] False u1 7(3) obtain u2 where
      "evalAll P facts cs (saw \<or> sem P facts c = TU) u1 =
         Inr (kAnd (set (map (sem P facts) cs) \<union> (if saw \<or> sem P facts c = TU then {TU} else {})), u2)"
      by auto
    with u1 False show ?thesis by (cases "sem P facts c") (auto simp: kAnd_def)
  qed
next
  case (8 P facts saw u)
  then show ?case by (simp add: kOr_def)
next
  case (9 P facts c cs saw u)
  then obtain u1 where u1: "evaluateCondition P facts c u = Inr (sem P facts c, u1)" by auto
  show ?case
  proof (cases "sem P facts c = TT")
    case True
    with u1 show ?thesis by (simp add: kOr_def)
  next
    case False
    from 9(2) [OF False, of u1] False u1 9(3) obtain u2 where
      "evalAny P facts cs (saw \<or> sem P facts c = TU) u1 =
         Inr (kOr (set (map (sem P facts) cs) \<union> (if saw \<or> sem P facts c = TU then {TU} else {})), u2)"
      by auto
    with u1 False show ?thesis by (cases "sem P facts c") (auto simp: kOr_def)
  qed
qed

text \<open>Facts that agree wherever the first are known, and conditions without \<^verbatim>\<open>exists\<close>.\<close>

definition moreKnown :: "Facts \<Rightarrow> Facts \<Rightarrow> bool" where
  "moreKnown F G = (\<forall>f. \<not> nullish (factValue F f) \<longrightarrow> factValue G f = factValue F f)"

primrec existsFree :: "Condition \<Rightarrow> bool" where
  "existsFree (CAll cs) = list_all existsFree cs"
| "existsFree (CAny cs) = list_all existsFree cs"
| "existsFree (CNot c) = existsFree c"
| "existsFree (CFact f op cv) = (op \<noteq> OpExists)"
| "existsFree CBad = True"

lemma sem_mono:
  assumes "moreKnown F G"
  shows "existsFree c \<Longrightarrow> sem P F c \<noteq> TU \<Longrightarrow> sem P G c = sem P F c"
proof (induction c)
  case (CAll cs)
  then have IH: "\<And>c. c \<in> set cs \<Longrightarrow> sem P F c \<noteq> TU \<Longrightarrow> sem P G c = sem P F c"
    by (auto simp: list_all_iff)
  show ?case
  proof (cases "TF \<in> sem P F ` set cs")
    case True
    then obtain c where "c \<in> set cs" "sem P F c = TF" by auto
    with IH [of c] have "sem P G c = TF" by simp
    with \<open>c \<in> set cs\<close> True show ?thesis by (auto simp: kAnd_def image_iff intro: bexI [of _ c])
  next
    case False
    with CAll.prems have "TU \<notin> sem P F ` set cs" by (auto simp: kAnd_def split: if_splits)
    with IH have "sem P G ` set cs = sem P F ` set cs" by (auto simp: image_iff intro!: image_cong)
    then show ?thesis by simp
  qed
next
  case (CAny cs)
  then have IH: "\<And>c. c \<in> set cs \<Longrightarrow> sem P F c \<noteq> TU \<Longrightarrow> sem P G c = sem P F c"
    by (auto simp: list_all_iff)
  show ?case
  proof (cases "TT \<in> sem P F ` set cs")
    case True
    then obtain c where "c \<in> set cs" "sem P F c = TT" by auto
    with IH [of c] have "sem P G c = TT" by simp
    with \<open>c \<in> set cs\<close> True show ?thesis by (auto simp: kOr_def image_iff intro: bexI [of _ c])
  next
    case False
    with CAny.prems have "TU \<notin> sem P F ` set cs" by (auto simp: kOr_def split: if_splits)
    with IH have "sem P G ` set cs = sem P F ` set cs" by (auto simp: image_iff intro!: image_cong)
    then show ?thesis by simp
  qed
next
  case (CNot c)
  then show ?case by (cases "sem P F c") auto
next
  case (CFact f op cv)
  with assms show ?case by (auto simp: atom_def Let_def moreKnown_def split: if_splits)
qed simp

section \<open>Validated policies\<close>

lemma validateRules_wf:
  "validateRules P i ids rules = [] \<Longrightarrow> rule \<in> set rules \<Longrightarrow>
     wfCond P (r_when rule) \<and> r_decision rule \<in> set DECISIONS
   \<and> (nonEmpty (r_on_unknown rule) \<longrightarrow> the (r_on_unknown rule) \<in> set DECISIONS)"
  by (induction P i ids rules rule: validateRules.induct) (auto split: if_splits dest: walk_wf)

lemma validatePolicy_rules:
  "validatePolicy P p = [] \<Longrightarrow> validateRules P 0 [] (p_rules p) = []"
  by (simp add: validatePolicy_def)

definition contribution :: "env \<Rightarrow> PolicyDocument \<Rightarrow> Facts \<Rightarrow> PolicyRule \<Rightarrow> string option" where
  "contribution P p facts rule = (case sem P facts (r_when rule) of
     TT \<Rightarrow> Some (r_decision rule) | TU \<Rightarrow> Some (onUnknown p rule) | TF \<Rightarrow> None)"

lemma matchRule_contribution:
  assumes "wfCond P (r_when rule)"
  shows "\<exists>m. matchRule P p facts rule = Inr m \<and> map_option m_decision m = contribution P p facts rule"
proof -
  obtain u where "evaluateCondition P facts (r_when rule) [] = Inr (sem P facts (r_when rule), u)"
    using evaluateCondition_sem(1) [OF assms] by blast
  then show ?thesis
    by (cases "sem P facts (r_when rule)") (simp_all add: matchRule_def contribution_def)
qed

lemma matchRules_contributions:
  "(\<And>rule. rule \<in> set rules \<Longrightarrow> wfCond P (r_when rule)) \<Longrightarrow>
     \<exists>ms. mapM (matchRule P p facts) rules = Inr ms
       \<and> map m_decision (List.map_filter (\<lambda>m. m) ms) = List.map_filter (contribution P p facts) rules"
proof (induction rules)
  case Nil
  show ?case by (simp add: List.map_filter_simps)
next
  case (Cons rule rules)
  from Cons.prems have wf: "wfCond P (r_when rule)" by simp
  from matchRule_contribution [OF wf] obtain m where m: "matchRule P p facts rule = Inr m"
    "map_option m_decision m = contribution P p facts rule" by blast
  moreover from Cons obtain ms where "mapM (matchRule P p facts) rules = Inr ms"
    "map m_decision (List.map_filter (\<lambda>m. m) ms) = List.map_filter (contribution P p facts) rules" by auto
  ultimately show ?case
    by (cases m) (auto simp: List.map_filter_simps eq_commute [of _ "contribution P p facts rule"])
qed

definition foldSevere :: "string list \<Rightarrow> string \<Rightarrow> string" where
  "foldSevere ds acc = fold (\<lambda>d acc. if moreSevere d acc then d else acc) ds acc"

lemma combine_contributions:
  "map m_decision ms = ds \<Longrightarrow> combine p ms = (if ds = [] then p_default p else foldSevere ds ''allow'')"
proof -
  have "fold (\<lambda>m acc. if moreSevere (m_decision m) acc then m_decision m else acc) ms a
      = foldSevere (map m_decision ms) a" for a
    by (simp add: foldSevere_def fold_map o_def)
  then show "map m_decision ms = ds \<Longrightarrow> combine p ms = (if ds = [] then p_default p else foldSevere ds ''allow'')"
    by (auto simp: combine_def)
qed

definition sev :: "string \<Rightarrow> nat" where
  "sev d = the (map_of SEVERITY d)"

lemma sev_table: "list_all (\<lambda>a. list_all (\<lambda>b. sev a = sev b \<longrightarrow> a = b) DECISIONS) DECISIONS"
  by code_simp

lemma moreSevere_table: "list_all (\<lambda>a. list_all (\<lambda>b. moreSevere a b = (sev b < sev a)) DECISIONS) DECISIONS"
  by code_simp

lemma sev_inj: "a \<in> set DECISIONS \<Longrightarrow> b \<in> set DECISIONS \<Longrightarrow> sev a = sev b \<Longrightarrow> a = b"
  using sev_table unfolding list_all_iff by blast

lemma moreSevere_sev:
  "a \<in> set DECISIONS \<Longrightarrow> b \<in> set DECISIONS \<Longrightarrow> moreSevere a b \<longleftrightarrow> sev b < sev a"
  using moreSevere_table unfolding list_all_iff by blast

lemma allow_decision: "''allow'' \<in> set DECISIONS" "sev ''allow'' = 0" "''deny'' \<in> set DECISIONS" "sev ''deny'' = 5"
  by (simp_all add: DECISIONS_def SEVERITY_def sev_def)

lemma foldSevere_max:
  "set ds \<subseteq> set DECISIONS \<Longrightarrow> a \<in> set DECISIONS \<Longrightarrow>
     foldSevere ds a \<in> set (a # ds) \<and> (\<forall>d \<in> set (a # ds). sev d \<le> sev (foldSevere ds a))"
proof (induction ds arbitrary: a)
  case Nil
  show ?case by (simp add: foldSevere_def)
next
  case (Cons d ds)
  let ?b = "if moreSevere d a then d else a"
  have b: "?b \<in> set DECISIONS" "sev a \<le> sev ?b" "sev d \<le> sev ?b"
    using Cons.prems by (auto simp: moreSevere_sev)
  have "foldSevere (d # ds) a = foldSevere ds ?b" by (simp add: foldSevere_def)
  moreover have "foldSevere ds ?b \<in> set (?b # ds)" "\<forall>x \<in> set (?b # ds). sev x \<le> sev (foldSevere ds ?b)"
    using Cons.IH [OF _ b(1)] Cons.prems(1) by auto
  ultimately show ?case using b by (auto split: if_splits)
qed

text \<open>
  An empty \<^verbatim>\<open>on_unknown\<close> passes the validator and is no decision: its severity is undefined, so it outranks
  nothing and counts as the \<^verbatim>\<open>allow\<close> the reduction starts from.
\<close>

definition effective :: "string \<Rightarrow> string" where
  "effective d = (if d = [] then ''allow'' else d)"

lemma contribution_decision:
  assumes "validatePolicy P p = []" "rule \<in> set (p_rules p)" "contribution P p facts rule = Some d"
  shows "effective d \<in> set DECISIONS"
proof -
  have "''defer'' \<in> set DECISIONS" by (simp add: DECISIONS_def SEVERITY_def)
  moreover have "nonEmpty (p_on_unknown p) \<longrightarrow> the (p_on_unknown p) \<in> set DECISIONS"
    using assms(1) by (auto simp: validatePolicy_def split: if_splits)
  ultimately show ?thesis
    using validateRules_wf [OF validatePolicy_rules [OF assms(1)] assms(2)] assms(3) allow_decision(1)
    by (auto simp: contribution_def onUnknown_def nonEmpty_def effective_def split: Tri.splits option.splits)
qed

lemma moreSevere_effective:
  assumes "effective d \<in> set DECISIONS" "a \<in> set DECISIONS"
  shows "(if moreSevere d a then d else a) = (if moreSevere (effective d) a then effective d else a)"
proof (cases "d = []")
  case True
  have "\<not> moreSevere [] a" by (simp add: moreSevere_def SEVERITY_def)
  moreover have "\<not> moreSevere ''allow'' a" using assms(2) allow_decision by (simp add: moreSevere_sev)
  ultimately show ?thesis using True by (simp add: effective_def)
qed (simp add: effective_def)

lemma foldSevere_effective:
  "\<forall>d \<in> set ds. effective d \<in> set DECISIONS \<Longrightarrow> a \<in> set DECISIONS \<Longrightarrow>
     foldSevere ds a = foldSevere (map effective ds) a"
proof (induction ds arbitrary: a)
  case (Cons d ds)
  let ?b = "if moreSevere (effective d) a then effective d else a"
  have "foldSevere (d # ds) a = foldSevere ds ?b"
    using moreSevere_effective [of d a] Cons.prems by (simp add: foldSevere_def)
  also have "\<dots> = foldSevere (map effective ds) ?b" using Cons by auto
  finally show ?case by (simp add: foldSevere_def)
qed (simp add: foldSevere_def)

lemma foldSevere_contributions:
  assumes "\<forall>d \<in> set ds. effective d \<in> set DECISIONS" "ds \<noteq> []"
  shows "foldSevere ds ''allow'' \<in> effective ` set ds"
    and "\<forall>d \<in> set ds. sev (effective d) \<le> sev (foldSevere ds ''allow'')"
proof -
  let ?f = "foldSevere ds ''allow''"
  have eq: "?f = foldSevere (map effective ds) ''allow''"
    using assms(1) allow_decision(1) by (rule foldSevere_effective)
  have sub: "set (map effective ds) \<subseteq> set DECISIONS" using assms(1) by auto
  from foldSevere_max [OF sub allow_decision(1)]
  have fm: "?f \<in> insert ''allow'' (effective ` set ds)" "\<forall>d \<in> set ds. sev (effective d) \<le> sev ?f"
    unfolding eq by simp_all
  from fm(2) show "\<forall>d \<in> set ds. sev (effective d) \<le> sev ?f" .
  obtain d where d: "d \<in> set ds" using assms(2) by (cases ds) auto
  show "?f \<in> effective ` set ds"
  proof (cases "?f = ''allow''")
    case True
    then have "effective d = ''allow''"
      using fm(2) d assms(1) allow_decision by (intro sev_inj) auto
    with True d show ?thesis by force
  qed (use fm(1) in auto)
qed

lemma evaluatePolicy_ok:
  assumes "validatePolicy P p = []"
  shows "\<exists>r. evaluatePolicy P p facts now refs = Inr r
    \<and> d_decision r = (let ds = List.map_filter (contribution P p facts) (p_rules p)
        in if ds = [] then p_default p else foldSevere ds ''allow'')
    \<and> d_policy_digest r = policyDigest P p"
proof -
  have "wfCond P (r_when rule)" if "rule \<in> set (p_rules p)" for rule
    using validateRules_wf [OF validatePolicy_rules [OF assms] that] by blast
  from matchRules_contributions [of "p_rules p" P p facts, OF this] obtain ms where
    ms: "mapM (matchRule P p facts) (p_rules p) = Inr ms"
      "map m_decision (List.map_filter (\<lambda>m. m) ms) = List.map_filter (contribution P p facts) (p_rules p)"
    by blast
  from combine_contributions [OF ms(2), of p] show ?thesis
    by (simp add: evaluatePolicy_def assms ms(1) Let_def)
qed

section \<open>Properties\<close>

text \<open>The contributions of a policy and the decision they make.\<close>

lemma evaluatePolicy_contributions:
  assumes "validatePolicy P p = []"
  obtains r ds where "evaluatePolicy P p facts now refs = Inr r"
    "\<And>d. d \<in> set ds \<longleftrightarrow> (\<exists>rule \<in> set (p_rules p). contribution P p facts rule = Some d)"
    "ds = [] \<Longrightarrow> d_decision r = p_default p" "ds \<noteq> [] \<Longrightarrow> d_decision r \<in> effective ` set ds"
    "\<forall>d \<in> set ds. sev (effective d) \<le> sev (d_decision r)"
proof -
  let ?ds = "List.map_filter (contribution P p facts) (p_rules p)"
  have mem: "d \<in> set ?ds \<longleftrightarrow> (\<exists>rule \<in> set (p_rules p). contribution P p facts rule = Some d)" for d
    by (force simp: List.map_filter_def image_iff)
  have eff: "\<forall>d \<in> set ?ds. effective d \<in> set DECISIONS"
    using contribution_decision [OF assms] mem by blast
  obtain r where r: "evaluatePolicy P p facts now refs = Inr r"
    "d_decision r = (if ?ds = [] then p_default p else foldSevere ?ds ''allow'')"
    using evaluatePolicy_ok [OF assms(1), of facts now refs] by (auto simp: Let_def)
  show ?thesis
  proof (cases "?ds = []")
    case True
    with r mem show ?thesis by (intro that [of r ?ds]) auto
  next
    case False
    with r mem foldSevere_contributions [OF eff False] show ?thesis by (intro that [of r ?ds]) auto
  qed
qed

text \<open>
  \<^bold>\<open>C9.\<close> Evaluation is total on validated policies and the most restrictive contribution wins.  A rule
  contributes its decision when its condition is true and its \<^verbatim>\<open>on_unknown\<close> (the policy's, else \<^verbatim>\<open>defer\<close>)
  when it is unknown, in three-valued logic.  If no rule contributes, the decision is the default; otherwise the default
  plays no part, the decision is one of the contributions and it is at least as severe as every one of them.  An
  \<^verbatim>\<open>on_unknown\<close> that is the empty string, which validation lets through, counts as \<^verbatim>\<open>allow\<close> (\<open>effective\<close>).
\<close>

theorem policy_most_restrictive_wins:
  assumes "validatePolicy P p = []"
  shows "\<exists>r. evaluatePolicy P p facts now refs = Inr r
    \<and> (if \<forall>rule \<in> set (p_rules p). contribution P p facts rule = None then d_decision r = p_default p
       else (\<exists>rule \<in> set (p_rules p). \<exists>d. contribution P p facts rule = Some d \<and> d_decision r = effective d)
         \<and> (\<forall>rule \<in> set (p_rules p). \<forall>d. contribution P p facts rule = Some d \<longrightarrow>
              sev (effective d) \<le> sev (d_decision r)))"
proof (rule evaluatePolicy_contributions [OF assms, of facts now refs])
  fix r ds
  assume r: "evaluatePolicy P p facts now refs = Inr r"
    and mem: "\<And>d. d \<in> set ds \<longleftrightarrow> (\<exists>rule \<in> set (p_rules p). contribution P p facts rule = Some d)"
    and dec: "ds = [] \<Longrightarrow> d_decision r = p_default p" "ds \<noteq> [] \<Longrightarrow> d_decision r \<in> effective ` set ds"
      "\<forall>d \<in> set ds. sev (effective d) \<le> sev (d_decision r)"
  have none: "(\<forall>rule \<in> set (p_rules p). contribution P p facts rule = None) \<longleftrightarrow> ds = []"
  proof (cases ds)
    case Nil
    with mem show ?thesis by (metis empty_iff not_Some_eq set_empty)
  next
    case (Cons d ds')
    with mem [of d] show ?thesis by auto
  qed
  show ?thesis
  proof (cases "ds = []")
    case True
    with r none dec(1) show ?thesis by auto
  next
    case False
    then obtain d where "d \<in> set ds" "d_decision r = effective d" using dec(2) by auto
    with mem [of d] have "\<exists>rule \<in> set (p_rules p). \<exists>d. contribution P p facts rule = Some d \<and> d_decision r = effective d"
      by blast
    moreover have "\<forall>rule \<in> set (p_rules p). \<forall>d. contribution P p facts rule = Some d \<longrightarrow>
        sev (effective d) \<le> sev (d_decision r)"
      using mem dec(3) by blast
    ultimately show ?thesis unfolding none using r False by (intro exI [of _ r]) simp
  qed
qed

text \<open>
  Deny is final: if a rule that decides \<^verbatim>\<open>deny\<close> holds, the decision of the policy is \<^verbatim>\<open>deny\<close>, whatever the other
  rules, their order and the default say.
\<close>

theorem policy_deny_wins:
  assumes "validatePolicy P p = []" "rule \<in> set (p_rules p)"
    and "r_decision rule = ''deny''" "sem P facts (r_when rule) = TT"
  shows "\<exists>r. evaluatePolicy P p facts now refs = Inr r \<and> d_decision r = ''deny''"
proof (rule evaluatePolicy_contributions [OF assms(1), of facts now refs])
  fix r ds
  assume r: "evaluatePolicy P p facts now refs = Inr r"
    and mem: "\<And>d. d \<in> set ds \<longleftrightarrow> (\<exists>rule \<in> set (p_rules p). contribution P p facts rule = Some d)"
    and dec: "ds \<noteq> [] \<Longrightarrow> d_decision r \<in> effective ` set ds" "\<forall>d \<in> set ds. sev (effective d) \<le> sev (d_decision r)"
  have "contribution P p facts rule = Some ''deny''" using assms(3,4) by (simp add: contribution_def)
  then have deny: "''deny'' \<in> set ds" using assms(2) mem by blast
  then have "d_decision r \<in> set DECISIONS"
    using dec(1) contribution_decision [OF assms(1)] mem by fastforce
  moreover have "sev ''deny'' \<le> sev (d_decision r)" using dec(2) deny by (force simp: effective_def)
  moreover have "list_all (\<lambda>d. sev ''deny'' \<le> sev d \<longrightarrow> d = ''deny'') DECISIONS" by code_simp
  ultimately show ?thesis using r unfolding list_all_iff by blast
qed

text \<open>
  Not knowing never becomes safe by accident: for a validated condition without \<^verbatim>\<open>exists\<close>, an answer that is
  true or false stays the same when facts that were missing or null become known; only an unknown answer can change.
\<close>

theorem condition_definite_stable:
  assumes "wfCond P c" "existsFree c" "moreKnown F G"
    and "evaluateCondition P F c u = Inr (v, u1)" "v \<noteq> TU"
  shows "\<exists>u2. evaluateCondition P G c u = Inr (v, u2)"
proof -
  have "v = sem P F c" using evaluateCondition_sem(1) [OF assms(1), of F u] assms(4) by auto
  then have "sem P G c = v" using sem_mono [OF assms(3,2)] assms(5) by simp
  then show ?thesis using evaluateCondition_sem(1) [OF assms(1), of G u] by auto
qed

text \<open>
  The validator takes an empty \<^verbatim>\<open>on_unknown\<close> for an absent one, the evaluator does not: the rule then contributes a
  string that is not a decision and outranks nothing, and an unknown input is allowed.
\<close>

definition emptyUnknownPolicy :: PolicyDocument where
  "emptyUnknownPolicy = \<lparr>p_schema = ''cool.policy.v1'', p_id = ''p'', p_version = ''1'', p_description = None,
     p_mode = ''enforce'', p_default = ''deny'', p_on_unknown = None,
     p_rules = [\<lparr>r_id = ''r'', r_description = None, r_when = CFact ''risk'' OpEq (JStr ''high''),
       r_decision = ''deny'', r_reason = ''high_risk'', r_on_unknown = Some []\<rparr>]\<rparr>"

lemma empty_on_unknown_allows:
  "validatePolicy P emptyUnknownPolicy = []
   \<and> (\<exists>r. evaluatePolicy P emptyUnknownPolicy [] now refs = Inr r \<and> d_decision r = ''allow'')"
proof -
  have "validatePolicy P emptyUnknownPolicy = []"
    by (simp add: validatePolicy_def emptyUnknownPolicy_def DECISIONS_def SEVERITY_def nonEmpty_def)
  moreover have "List.map_filter (contribution P emptyUnknownPolicy []) (p_rules emptyUnknownPolicy) = [[]]"
    by (simp add: emptyUnknownPolicy_def contribution_def atom_def factValue_def nullish_def onUnknown_def
      List.map_filter_simps)
  moreover have "foldSevere [[]] ''allow'' = ''allow''" by code_simp
  ultimately show ?thesis using evaluatePolicy_ok [of P emptyUnknownPolicy "[]" now refs] by (auto simp: Let_def)
qed

section \<open>Witnesses\<close>

definition toyPolicy :: PolicyDocument where
  "toyPolicy = \<lparr>p_schema = ''cool.policy.v1'', p_id = ''p'', p_version = ''1'', p_description = None,
     p_mode = ''enforce'', p_default = ''allow'', p_on_unknown = None,
     p_rules = [\<lparr>r_id = ''r1'', r_description = None, r_when = CFact ''env'' OpEq (JStr ''prod''),
         r_decision = ''audit_only'', r_reason = ''prod'', r_on_unknown = None\<rparr>,
       \<lparr>r_id = ''r2'', r_description = None, r_when = CAll [CFact ''risk'' OpEq (JStr ''high''), CFact ''env'' OpEq (JStr ''prod'')],
         r_decision = ''deny'', r_reason = ''high_risk'', r_on_unknown = None\<rparr>]\<rparr>"

definition toyFacts :: Facts where
  "toyFacts = [(''env'', JStr ''prod''), (''risk'', JStr ''high'')]"

lemma toyPolicy_valid: "validatePolicy P toyPolicy = []"
  by (simp add: validatePolicy_def toyPolicy_def DECISIONS_def SEVERITY_def nonEmpty_def)

text \<open>One rule is true (\<^verbatim>\<open>audit_only\<close>), the other cannot be decided (\<^verbatim>\<open>defer\<close>).\<close>

lemma toyPolicy_contributions:
  "map (contribution toyEnv toyPolicy [(''env'', JStr ''prod'')]) (p_rules toyPolicy) = [Some ''audit_only'', Some ''defer'']"
  by (simp add: toyPolicy_def contribution_def atom_def factValue_def nullish_def onUnknown_def testOp_def
    strictEq_def kAnd_def triOf_def)

theorem policy_most_restrictive_wins_witness:
  "\<exists>r. evaluatePolicy toyEnv toyPolicy [(''env'', JStr ''prod'')] 0 [] = Inr r \<and> d_decision r = ''defer''"
proof -
  let ?c = "contribution toyEnv toyPolicy [(''env'', JStr ''prod'')]"
  obtain r1 r2 where rules: "p_rules toyPolicy = [r1, r2]" "?c r1 = Some ''audit_only''" "?c r2 = Some ''defer''"
    using toyPolicy_contributions by (auto simp: toyPolicy_def)
  have "effective ''audit_only'' = ''audit_only''" "effective ''defer'' = ''defer''"
    "\<not> sev ''defer'' \<le> sev ''audit_only''" by code_simp+
  with rules policy_most_restrictive_wins [OF toyPolicy_valid, of toyEnv "[(''env'', JStr ''prod'')]" 0 "[]"]
  show ?thesis by auto
qed

theorem policy_deny_wins_witness:
  "\<exists>r. evaluatePolicy toyEnv toyPolicy toyFacts 0 [] = Inr r \<and> d_decision r = ''deny''"
  by (rule policy_deny_wins [OF toyPolicy_valid, of "p_rules toyPolicy ! 1"])
    (simp_all add: toyPolicy_def toyFacts_def atom_def factValue_def nullish_def testOp_def strictEq_def kAnd_def triOf_def)

theorem condition_definite_stable_witness:
  "\<exists>u2. evaluateCondition toyEnv toyFacts (r_when (p_rules toyPolicy ! 0)) [] = Inr (TT, u2)"
  by (rule condition_definite_stable [where F = "[(''env'', JStr ''prod'')]" and ?u1.0 = "[]"])
    (simp_all add: toyPolicy_def toyFacts_def moreKnown_def factValue_def nullish_def testOp_def strictEq_def triOf_def)

end
