(* ===== verification/Decision.thy ===== *)
theory Decision
  imports Delegation Request Policy
begin

text \<open>
  \<^verbatim>\<open>src/src/authz/decision.ts\<close>: authorization decisions and their verification.  The results: a decision made on a valid
  policy verifies and replays identically, and a verified decision binds the request, was signed by a trusted evaluator,
  and was taken while the principal was active and the delegation chain valid.

  Times enter as arguments; a date the verifier prints but cannot read throws (\<open>RangeError\<close>).
\<close>

section \<open>decision.ts\<close>

definition EVALUATOR_ID :: string where
  "EVALUATOR_ID = ''cool-nwc/policy-engine''"

definition EVALUATOR_VERSION :: string where
  "EVALUATOR_VERSION = ''cool.policy.v1/1''"

record AuthorizationDecision =
  ad_decision_id :: string
  ad_decision :: string
  ad_request_id :: string
  ad_request_digest :: Multihash
  ad_principal :: string
  ad_nonce :: string
  ad_policy_id :: string
  ad_policy_version :: string
  ad_policy_digest :: Multihash
  ad_evaluator_id :: string
  ad_evaluator_version :: string
  ad_input_digest :: Multihash
  ad_assurance :: string
  ad_reasons :: "string list"
  ad_decided_at :: string
  ad_valid_until :: string

definition decisionVal :: "AuthorizationDecision \<Rightarrow> jsval" where
  "decisionVal d = JObj [(''schema'', JStr ''cool.authz-decision.v1''), (''decision_id'', JStr (ad_decision_id d)),
     (''decision'', JStr (ad_decision d)), (''request_id'', JStr (ad_request_id d)),
     (''request_digest'', JStr (ad_request_digest d)), (''principal'', JStr (ad_principal d)), (''nonce'', JStr (ad_nonce d)),
     (''policy'', JObj [(''id'', JStr (ad_policy_id d)), (''version'', JStr (ad_policy_version d)), (''digest'', JStr (ad_policy_digest d))]),
     (''evaluator'', JObj [(''id'', JStr (ad_evaluator_id d)), (''version'', JStr (ad_evaluator_version d))]),
     (''input_digest'', JStr (ad_input_digest d)), (''assurance'', JStr (ad_assurance d)),
     (''reasons'', JArr (map JStr (ad_reasons d))), (''decided_at'', JStr (ad_decided_at d)), (''valid_until'', JStr (ad_valid_until d))]"

definition decisionFacts :: "AuthorizationRequest \<Rightarrow> Facts \<Rightarrow> Facts" where
  "decisionFacts request facts =
     mput ''request.audience'' (JStr (rq_audience request))
      (mput ''request.resource'' (JStr (rq_resource request))
        (mput ''request.action'' (JStr (rq_action request))
          (mput ''request.principal'' (JStr (rq_principal request)) facts)))"

definition MAP :: "(string \<times> string) list" where
  "MAP = [(''allow'', ''permit''), (''audit_only'', ''permit''), (''deny'', ''deny''), (''quarantine'', ''deny''),
     (''require_approval'', ''indeterminate''), (''defer'', ''indeterminate'')]"

record DecideInput =
  di_request :: AuthorizationRequest
  di_policy :: PolicyDocument
  di_facts :: Facts
  di_now :: int
  di_decisionId :: "string option"

definition exnMessage :: "exn \<Rightarrow> string" where
  "exnMessage e = (case e of TypeError \<Rightarrow> ''TypeError'' | RangeError \<Rightarrow> ''RangeError'' | Error s \<Rightarrow> s | CooLError s \<Rightarrow> s)"

text \<open>The \<^verbatim>\<open>try\<close> block: decision, reasons and policy digest.\<close>

definition evaluateRequest :: "env \<Rightarrow> DecideInput \<Rightarrow> string \<times> string list \<times> Multihash" where
  "evaluateRequest P input =
     (let r = (if t_gt (Some (di_now input)) (date_parse P (rq_expires_at (di_request input)))
               then Inr (''deny'', [''request_expired''])
               else rbind (evaluatePolicy P (di_policy input) (decisionFacts (di_request input) (di_facts input)) (di_now input) [])
                      (\<lambda>d. Inr (the (map_of MAP (d_decision d)), d_reason_codes d)))
      in case r of
           Inr (decision, reasons) \<Rightarrow> (decision, reasons, policyDigest P (di_policy input))
         | Inl e \<Rightarrow> (''error'', [''evaluation_error:'' @ take 120 (exnMessage e)],
                     digestOf P ''cool.policy.invalid'' (policyVal (di_policy input))))"

definition decisionBody :: "env \<Rightarrow> bytes \<Rightarrow> DecideInput \<Rightarrow> AuthorizationDecision" where
  "decisionBody P random input =
     (let (decision, reasons, pdigest) = evaluateRequest P input; r = di_request input in
      \<lparr>ad_decision_id = (case di_decisionId input of Some i \<Rightarrow> i | None \<Rightarrow> ''dec_'' @ toHex random),
       ad_decision = decision,
       ad_request_id = rq_request_id r,
       ad_request_digest = requestDigest P r,
       ad_principal = rq_principal r,
       ad_nonce = rq_nonce r,
       ad_policy_id = p_id (di_policy input),
       ad_policy_version = p_version (di_policy input),
       ad_policy_digest = pdigest,
       ad_evaluator_id = EVALUATOR_ID,
       ad_evaluator_version = EVALUATOR_VERSION,
       ad_input_digest = digestOf P ''cool.authz.facts.v1'' (JObj (decisionFacts r (di_facts input))),
       ad_assurance = ''reproducible'',
       ad_reasons = reasons,
       ad_decided_at = to_iso P (di_now input),
       ad_valid_until = rq_expires_at r\<rparr>)"

definition decide :: "env \<Rightarrow> bytes \<Rightarrow> DecideInput \<Rightarrow> KeyPair \<Rightarrow> AuthorizationDecision Signed res" where
  "decide P random input key = signObject P decisionVal ''cool.authz-decision.v1'' (decisionBody P random input) key"

definition decideAsync :: "env \<Rightarrow> bytes \<Rightarrow> DecideInput \<Rightarrow> SigningKey \<Rightarrow> AuthorizationDecision Signed res" where
  "decideAsync P random input key = signObjectAsync P decisionVal ''cool.authz-decision.v1'' (decisionBody P random input) key"

datatype VerifyMode = Enforcement | Historical

record DelegationInput =
  dl_chain :: "Delegation Signed list"
  dl_roots :: "string list"
  dl_revoked :: "string list option"
  dl_amount :: "jsnum option"

record VerifyDecisionOptions =
  vo_request :: AuthorizationRequest
  vo_trust :: TrustStore
  vo_mode :: VerifyMode
  vo_now :: int
  vo_policy :: "PolicyDocument option"
  vo_facts :: "Facts option"
  vo_directory :: "PrincipalDirectory option"
  vo_delegation :: "DelegationInput option"

record DecisionReport =
  dr_decision :: string
  dr_assurance :: string
  dr_outcome :: Outcome
  dr_checks :: Checks
  dr_reasons :: "string list"

definition requestBinding :: "env \<Rightarrow> AuthorizationRequest \<Rightarrow> AuthorizationDecision \<Rightarrow> Check" where
  "requestBinding P r d =
     (if requestDigest P r \<noteq> ad_request_digest d \<or> rq_request_id r \<noteq> ad_request_id d \<or> rq_principal r \<noteq> ad_principal d
       \<or> rq_nonce r \<noteq> ad_nonce d
      then check Fail ''request_mismatch'' else check Pass ''request_bound'')"

definition policyBinding :: "env \<Rightarrow> PolicyDocument option \<Rightarrow> AuthorizationDecision \<Rightarrow> Check" where
  "policyBinding P policy d = (case policy of
       None \<Rightarrow> check NotChecked ''no_policy''
     | Some p \<Rightarrow> if policyDigest P p \<noteq> ad_policy_digest d then check Fail ''policy_mismatch'' else check Pass ''policy_bound'')"

definition reproduce :: "env \<Rightarrow> VerifyDecisionOptions \<Rightarrow> AuthorizationDecision \<Rightarrow> Check res" where
  "reproduce P vo d =
     (if ad_evaluator_id d \<noteq> EVALUATOR_ID \<or> ad_evaluator_version d \<noteq> EVALUATOR_VERSION
      then Inr (check Unknown ''unsupported_evaluator'')
      else case (vo_policy vo, vo_facts vo) of
        (Some p, Some facts) \<Rightarrow>
          if c_status (policyBinding P (vo_policy vo) d) \<noteq> Pass then Inr (check NotChecked ''prerequisite_failed'')
          else (let allFacts = decisionFacts (vo_request vo) facts in
            if digestOf P ''cool.authz.facts.v1'' (JObj allFacts) \<noteq> ad_input_digest d then Inr (check Fail ''input_mismatch'')
            else rbind (if t_gt (date_parse P (ad_decided_at d)) (date_parse P (rq_expires_at (vo_request vo)))
                        then Inr (Some ''deny'')
                        else (case date_parse P (ad_decided_at d) of
                            None \<Rightarrow> Inl RangeError
                          | Some tm \<Rightarrow> rbind (evaluatePolicy P p allFacts tm []) (\<lambda>r. Inr (map_of MAP (d_decision r)))))
              (\<lambda>again. Inr (if again = Some (ad_decision d) then check Pass ''replayed_identically''
                             else check Fail ''replay_mismatch'')))
      | _ \<Rightarrow> Inr (check NotChecked ''no_replay_inputs''))"

definition freshness :: "env \<Rightarrow> VerifyDecisionOptions \<Rightarrow> AuthorizationDecision \<Rightarrow> Check" where
  "freshness P vo d =
     (let r = vo_request vo in
      if t_lt (date_parse P (ad_decided_at d)) (t_add (date_parse P (rq_issued_at r)) (- 60000))
      then check Fail ''decided_before_request''
      else if t_gt (date_parse P (ad_valid_until d)) (date_parse P (rq_expires_at r)) then check Fail ''validity_exceeds_request''
      else if vo_mode vo = Enforcement \<and> t_gt (Some (vo_now vo)) (date_parse P (ad_valid_until d)) then check Fail ''decision_expired''
      else check Pass ''fresh'')"

definition delegationCheck :: "env \<Rightarrow> VerifyDecisionOptions \<Rightarrow> AuthorizationDecision \<Rightarrow> Check res" where
  "delegationCheck P vo d =
     (let r = vo_request vo in
      if \<not> truthy (rq_delegation r) then Inr (check NotApplicable ''no_delegation'')
      else case (vo_delegation vo, vo_directory vo) of
        (Some dl, Some dir) \<Rightarrow>
          if dl_chain dl = [] \<or> Some (dg_delegation_id (s_body (last (dl_chain dl)))) \<noteq> rq_delegation r
          then Inr (check Fail ''wrong_delegation'')
          else verifyDelegationChain P (dl_chain dl)
            \<lparr>cr_requester = rq_principal r, cr_action = rq_action r, cr_resource = rq_resource r, cr_audience = rq_audience r,
             cr_amount = dl_amount dl\<rparr>
            \<lparr>co_directory = dir, co_roots = dl_roots dl, co_at = date_parse P (ad_decided_at d), co_revoked = dl_revoked dl,
             co_maxDepth = None\<rparr>
      | _ \<Rightarrow> Inr (check NotChecked ''no_chain''))"

definition verifyDecision :: "env \<Rightarrow> AuthorizationDecision Signed \<Rightarrow> VerifyDecisionOptions \<Rightarrow> DecisionReport res" where
  "verifyDecision P s vo =
     (let d = s_body s in
      rbind (verifyTrusted P decisionVal ''cool.authz-decision.v1'' s (vo_trust vo) PEvaluator (Some (vo_now vo)))
        (\<lambda>(integrity, signature, trusted).
      rbind (reproduce P vo d) (\<lambda>reproduced.
      rbind (case vo_directory vo of None \<Rightarrow> Inr (check NotChecked ''no_directory'')
             | Some dir \<Rightarrow> principal_check P dir (rq_principal (vo_request vo)) (date_parse P (ad_decided_at d)) None)
        (\<lambda>principal_state.
      rbind (delegationCheck P vo d) (\<lambda>delegation.
        let checks = [(''integrity'', integrity), (''signature'', signature), (''evaluator_trusted'', trusted),
              (''request_binding'', requestBinding P (vo_request vo) d), (''policy_binding'', policyBinding P (vo_policy vo) d),
              (''reproduced'', reproduced), (''freshness'', freshness P vo d), (''principal_state'', principal_state),
              (''delegation'', delegation)];
            (outcome, reasons) = classifyOutcome checks (map fst checks)
        in Inr \<lparr>dr_decision = ad_decision d,
             dr_assurance = (if c_status reproduced = Pass then ''reproducible'' else ''trusted''),
             dr_outcome = outcome, dr_checks = checks, dr_reasons = reasons\<rparr>)))))"

section \<open>Lemmas\<close>

lemma verifyDecision_parts:
  assumes "verifyDecision P s vo = Inr rep"
  shows "\<exists>i g t re ps dc.
    verifyTrusted P decisionVal ''cool.authz-decision.v1'' s (vo_trust vo) PEvaluator (Some (vo_now vo)) = Inr (i, g, t)
    \<and> reproduce P vo (s_body s) = Inr re
    \<and> (case vo_directory vo of None \<Rightarrow> ps = check NotChecked ''no_directory''
       | Some dir \<Rightarrow> principal_check P dir (rq_principal (vo_request vo)) (date_parse P (ad_decided_at (s_body s))) None = Inr ps)
    \<and> delegationCheck P vo (s_body s) = Inr dc
    \<and> dr_decision rep = ad_decision (s_body s)
    \<and> dr_checks rep = [(''integrity'', i), (''signature'', g), (''evaluator_trusted'', t),
        (''request_binding'', requestBinding P (vo_request vo) (s_body s)), (''policy_binding'', policyBinding P (vo_policy vo) (s_body s)),
        (''reproduced'', re), (''freshness'', freshness P vo (s_body s)), (''principal_state'', ps), (''delegation'', dc)]
    \<and> dr_outcome rep = fst (classifyOutcome (dr_checks rep) (map fst (dr_checks rep)))"
proof -
  from assms obtain i g t re ps dc where
    "verifyTrusted P decisionVal ''cool.authz-decision.v1'' s (vo_trust vo) PEvaluator (Some (vo_now vo)) = Inr (i, g, t)"
    "reproduce P vo (s_body s) = Inr re" "delegationCheck P vo (s_body s) = Inr dc"
    "(case vo_directory vo of None \<Rightarrow> Inr (check NotChecked ''no_directory'')
       | Some dir \<Rightarrow> principal_check P dir (rq_principal (vo_request vo)) (date_parse P (ad_decided_at (s_body s))) None) = Inr ps"
    by (auto simp: verifyDecision_def Let_def rbind_Inr_iff)
  with assms show ?thesis
    by (cases "vo_directory vo") (auto simp: verifyDecision_def Let_def case_prod_beta)
qed

lemma MAP_DECISIONS: "d \<in> set DECISIONS \<Longrightarrow> map_of MAP d \<noteq> None"
proof -
  have "list_all (\<lambda>d. map_of MAP d \<noteq> None) DECISIONS" by code_simp
  then show "d \<in> set DECISIONS \<Longrightarrow> map_of MAP d \<noteq> None" unfolding list_all_iff by blast
qed

lemma foldSevere_decision: "foldSevere ds a \<in> insert a (set DECISIONS)"
proof (induction ds arbitrary: a)
  case (Cons d ds)
  have "moreSevere d a \<Longrightarrow> d \<in> set DECISIONS"
    by (auto simp: moreSevere_def DECISIONS_def split: option.splits dest!: map_of_SomeD) force
  then have "insert (if moreSevere d a then d else a) (set DECISIONS) \<subseteq> insert a (set DECISIONS)" by auto
  with Cons.IH [of "if moreSevere d a then d else a"] show ?case by (auto simp: foldSevere_def)
qed (simp add: foldSevere_def)

lemma evaluatePolicy_decision:
  assumes "validatePolicy P p = []"
  shows "\<exists>r. evaluatePolicy P p facts now refs = Inr r \<and> d_decision r \<in> set DECISIONS
    \<and> (\<forall>now' refs'. \<exists>r'. evaluatePolicy P p facts now' refs' = Inr r' \<and> d_decision r' = d_decision r)"
proof -
  have "p_default p \<in> set DECISIONS" using assms by (auto simp: validatePolicy_def split: if_splits)
  moreover have "foldSevere ds ''allow'' \<in> set DECISIONS" for ds
    using foldSevere_decision [of ds "''allow''"] allow_decision(1) by auto
  ultimately have "(let ds = List.map_filter (contribution P p facts) (p_rules p)
      in if ds = [] then p_default p else foldSevere ds ''allow'') \<in> set DECISIONS" by (simp add: Let_def)
  then show ?thesis using evaluatePolicy_ok [OF assms, of facts] by metis
qed

lemma verifyTrusted_statuses:
  "verifyTrusted P enc ctx s trust purpose now = Inr (i, g, t) \<Longrightarrow> c_status t \<in> {Pass, Fail, Unknown, NotChecked}"
  using evaluate_statuses by (fastforce simp: verifyTrusted_def rbind_Inr_iff Let_def split: prod.splits if_splits)

lemma principal_check_statuses: "principal_check P dir who tm k = Inr c \<Longrightarrow> c_status c \<in> {Pass, Fail}"
  by (auto simp: principal_check_def Let_def split: if_splits option.splits)

lemma delegationCheck_statuses:
  "delegationCheck P vo d = Inr c \<Longrightarrow> truthy (rq_delegation (vo_request vo)) \<Longrightarrow> c_status c \<in> {Pass, Fail, NotChecked}"
  by (auto simp: delegationCheck_def Let_def dest: chain_statuses split: if_splits option.splits)

text \<open>A delegation check that passes: the chain that was given ends with the delegation the request names, begins at a root,
  and each of its links was verified at decision time.\<close>

definition delegationVerified :: "env \<Rightarrow> VerifyDecisionOptions \<Rightarrow> AuthorizationDecision \<Rightarrow> bool" where
  "delegationVerified P vo d = (\<exists>dl dir. vo_delegation vo = Some dl \<and> vo_directory vo = Some dir \<and> dl_chain dl \<noteq> []
     \<and> length (dl_chain dl) \<le> 4
     \<and> rq_delegation (vo_request vo) = Some (dg_delegation_id (s_body (last (dl_chain dl))))
     \<and> dg_delegate (s_body (last (dl_chain dl))) = rq_principal (vo_request vo)
     \<and> dg_audience (s_body (last (dl_chain dl))) \<in> {[CHR 0x2A], rq_audience (vo_request vo)}
     \<and> permits (dg_scope (s_body (last (dl_chain dl)))) (rq_action (vo_request vo)) (rq_resource (vo_request vo)) (dl_amount dl)
     \<and> dg_delegator (s_body (hd (dl_chain dl))) \<in> set (dl_roots dl)
     \<and> successively (follows P) (map s_body (dl_chain dl))
     \<and> (\<forall>s \<in> set (dl_chain dl). linkOk P
          \<lparr>co_directory = dir, co_roots = dl_roots dl, co_at = date_parse P (ad_decided_at d), co_revoked = dl_revoked dl,
           co_maxDepth = None\<rparr> s))"

lemma delegationCheck_verified:
  assumes "delegationCheck P vo d = Inr c" "c_status c = Pass" "truthy (rq_delegation (vo_request vo))"
  shows "delegationVerified P vo d"
proof -
  from assms obtain dl dir where dl: "vo_delegation vo = Some dl" "vo_directory vo = Some dir" "dl_chain dl \<noteq> []"
    "rq_delegation (vo_request vo) = Some (dg_delegation_id (s_body (last (dl_chain dl))))"
    and v: "verifyDelegationChain P (dl_chain dl)
        \<lparr>cr_requester = rq_principal (vo_request vo), cr_action = rq_action (vo_request vo), cr_resource = rq_resource (vo_request vo),
         cr_audience = rq_audience (vo_request vo), cr_amount = dl_amount dl\<rparr>
        \<lparr>co_directory = dir, co_roots = dl_roots dl, co_at = date_parse P (ad_decided_at d), co_revoked = dl_revoked dl,
         co_maxDepth = None\<rparr> = Inr c"
    by (auto simp: delegationCheck_def Let_def split: if_splits option.splits)
  note cp = chain_pass [OF v assms(2)]
  with leafCheck_permits [of "s_body (last (dl_chain dl))"] dl show ?thesis
    unfolding delegationVerified_def by fastforce
qed

text \<open>A fresh decision, read by a verifier that trusts its key and holds the same inputs.\<close>

lemma decide_trusted:
  assumes "digests32 P" "signs P" "generated P key" "decide P random input key = Inr s"
    and "trust_get trust (keyId key) = Some rec" "kr_entry rec = directoryEntry key"
    and "c_status (evaluate P trust \<lparr>q_keyId = keyId key, q_purpose = PEvaluator, q_now = now,
           q_claimedSignedAt = None, q_provenSignedBefore = None\<rparr>) = Pass"
  shows "\<exists>t. verifyTrusted P decisionVal ''cool.authz-decision.v1'' s trust PEvaluator now
      = Inr (check Pass ''digest_matches'', check Pass ''signature_valid'', t) \<and> c_status t = Pass"
  using signObject_verifies [OF assms(1-3) assms(4) [unfolded decide_def]] assms(5-7)
    signObject_fields [OF assms(4) [unfolded decide_def]]
  by (auto simp: verifyTrusted_def Let_def)

lemma decision_reproduced:
  assumes "validatePolicy P (di_policy input) = []" "date_parse P (to_iso P (di_now input)) = Some (di_now input)"
    and "vo_request vo = di_request input" "vo_policy vo = Some (di_policy input)" "vo_facts vo = Some (di_facts input)"
  shows "requestBinding P (vo_request vo) (decisionBody P random input) = check Pass ''request_bound''
    \<and> policyBinding P (vo_policy vo) (decisionBody P random input) = check Pass ''policy_bound''
    \<and> reproduce P vo (decisionBody P random input) = Inr (check Pass ''replayed_identically'')"
proof -
  let ?b = "decisionBody P random input" and ?r = "di_request input" and ?p = "di_policy input"
  let ?facts = "decisionFacts ?r (di_facts input)"
  obtain pr where pr: "evaluatePolicy P ?p ?facts (di_now input) [] = Inr pr" "d_decision pr \<in> set DECISIONS"
    using evaluatePolicy_decision [OF assms(1)] by blast
  then obtain dec where dec: "map_of MAP (d_decision pr) = Some dec" using MAP_DECISIONS by blast
  have rb: "requestBinding P (vo_request vo) ?b = check Pass ''request_bound''"
    by (simp add: requestBinding_def assms(3) decisionBody_def Let_def case_prod_beta)
  have pb: "policyBinding P (vo_policy vo) ?b = check Pass ''policy_bound''"
    using pr(1) by (simp add: policyBinding_def assms(4) decisionBody_def evaluateRequest_def Let_def)
  have "reproduce P vo ?b = Inr (check Pass ''replayed_identically'')"
    using pb pr(1) dec assms(2,3,5)
    by (simp add: reproduce_def assms(4) decisionBody_def evaluateRequest_def Let_def)
  with rb pb show ?thesis by simp
qed

section \<open>Properties\<close>

text \<open>
  A decision is reproducible: a decision made with a generated key on a valid policy, checked by a verifier whose
  snapshot accepts that evaluator and who holds the same request, policy and facts, has a valid and trusted signature, is bound
  to the request and the policy, and replays to the same result (reading back the time that was written).
\<close>

theorem decision_replays:
  assumes "digests32 P" "signs P" "generated P key" "validatePolicy P (di_policy input) = []"
    and "trust_get (vo_trust vo) (keyId key) = Some rec" "kr_entry rec = directoryEntry key"
    and "c_status (evaluate P (vo_trust vo) \<lparr>q_keyId = keyId key, q_purpose = PEvaluator, q_now = Some (vo_now vo),
           q_claimedSignedAt = None, q_provenSignedBefore = None\<rparr>) = Pass"
    and "date_parse P (to_iso P (di_now input)) = Some (di_now input)"
    and "vo_request vo = di_request input" "vo_policy vo = Some (di_policy input)" "vo_facts vo = Some (di_facts input)"
    and "decide P random input key = Inr s" "verifyDecision P s vo = Inr rep"
  shows "\<forall>n \<in> {''integrity'', ''signature'', ''evaluator_trusted'', ''request_binding'', ''policy_binding'', ''reproduced''}.
           statusOf (dr_checks rep) n = Some Pass"
proof -
  have s: "s_body s = decisionBody P random input"
    using signObject_fields [OF assms(12) [unfolded decide_def]] by simp
  have "\<exists>i g t. verifyTrusted P decisionVal ''cool.authz-decision.v1'' s (vo_trust vo) PEvaluator (Some (vo_now vo)) = Inr (i, g, t)
      \<and> c_status i = Pass \<and> c_status g = Pass \<and> c_status t = Pass"
    using decide_trusted [OF assms(1-3,12,5-7)] by fastforce
  with verifyDecision_parts [OF assms(13)] s decision_reproduced [OF assms(4,8-11)] show ?thesis by (auto simp: statusOf_def)
qed

text \<open>
  \<^bold>\<open>C5.\<close> What a verified decision means: if the outcome is \<^verbatim>\<open>verified\<close>, then the signature verifies, over the exact body, under
  a key the snapshot accepts for an evaluator now (in it, for the purpose, in its dates, neither revoked nor compromised, the snapshot
  fresh); the decision names this request's digest, id, principal and nonce and the policy that was supplied; at a
  decision time that can be read the principal was enrolled, active and not past its expiry; and if the request relies on a
  delegation, a chain of at most four was supplied that ends with exactly that delegation, made out to the principal for this
  audience and permitting the action, and begins at an accepted root, each link of which was, at decision time, signed by its
  delegator's key, between active principals, not revoked and within its dates.  Dates bind as far as they can be read: a
  comparison with an unreadable one is false in the code and never expires anything.
\<close>

theorem verified_decision_sound:
  assumes "verifyDecision P s vo = Inr rep" "dr_outcome rep = Verified"
  shows "ad_request_digest (s_body s) = requestDigest P (vo_request vo) \<and> ad_nonce (s_body s) = rq_nonce (vo_request vo)
    \<and> ad_principal (s_body s) = rq_principal (vo_request vo) \<and> ad_request_id (s_body s) = rq_request_id (vo_request vo)
    \<and> (\<exists>p. vo_policy vo = Some p \<and> ad_policy_digest (s_body s) = policyDigest P p)
    \<and> s_digest s = digestOf P ''cool.authz-decision.v1'' (decisionVal (s_body s))
    \<and> (\<exists>rec m. keyAccepted P (vo_trust vo) \<lparr>q_keyId = sig_key_id (s_signature s), q_purpose = PEvaluator,
             q_now = Some (vo_now vo), q_claimedSignedAt = None, q_provenSignedBefore = None\<rparr> rec
        \<and> kr_status rec \<notin> {KRevoked, KCompromised}
        \<and> sigMessage ''cool.authz-decision.v1'' (s_digest s) = Inr m \<and> hv_ok (hybridVerify P m (s_signature s) (kr_entry rec)))
    \<and> (\<exists>dir. vo_directory vo = Some dir
        \<and> activeAt P dir (rq_principal (vo_request vo)) (date_parse P (ad_decided_at (s_body s))))
    \<and> (truthy (rq_delegation (vo_request vo)) \<longrightarrow> delegationVerified P vo (s_body s))"
proof -
  obtain i g t re ps dc where parts:
    "verifyTrusted P decisionVal ''cool.authz-decision.v1'' s (vo_trust vo) PEvaluator (Some (vo_now vo)) = Inr (i, g, t)"
    "case vo_directory vo of None \<Rightarrow> ps = check NotChecked ''no_directory''
       | Some dir \<Rightarrow> principal_check P dir (rq_principal (vo_request vo)) (date_parse P (ad_decided_at (s_body s))) None = Inr ps"
    "delegationCheck P vo (s_body s) = Inr dc"
    and cs: "dr_checks rep = [(''integrity'', i), (''signature'', g), (''evaluator_trusted'', t),
        (''request_binding'', requestBinding P (vo_request vo) (s_body s)), (''policy_binding'', policyBinding P (vo_policy vo) (s_body s)),
        (''reproduced'', re), (''freshness'', freshness P vo (s_body s)), (''principal_state'', ps), (''delegation'', dc)]"
    and out: "dr_outcome rep = fst (classifyOutcome (dr_checks rep) (map fst (dr_checks rep)))"
    using verifyDecision_parts [OF assms(1)] by blast
  have "distinct (map fst (dr_checks rep))" by (simp add: cs)
  from outcome_verified_all [OF this] out assms(2)
  have all: "\<forall>(n, c) \<in> set (dr_checks rep). c_status c \<in> {Pass, NotApplicable}" by simp
  have fine: "c_status c \<in> {Pass, NotApplicable}"
    if "c \<in> {t, requestBinding P (vo_request vo) (s_body s), policyBinding P (vo_policy vo) (s_body s), ps, dc}" for c
    using all that unfolding cs by auto
  have t: "c_status t = Pass" using fine [of t] verifyTrusted_statuses [OF parts(1)] by auto
  have rb: "c_status (requestBinding P (vo_request vo) (s_body s)) = Pass"
    using fine [of "requestBinding P (vo_request vo) (s_body s)"] by (auto simp: requestBinding_def split: if_splits)
  have pb: "\<exists>p. vo_policy vo = Some p \<and> ad_policy_digest (s_body s) = policyDigest P p"
    using fine [of "policyBinding P (vo_policy vo) (s_body s)"] by (auto simp: policyBinding_def split: if_splits option.splits)
  have ps: "\<exists>dir. vo_directory vo = Some dir
      \<and> activeAt P dir (rq_principal (vo_request vo)) (date_parse P (ad_decided_at (s_body s)))"
    using parts(2) fine [of ps] by (auto split: option.splits dest: principal_check_statuses intro: principal_check_activeAt)
  have dl: "truthy (rq_delegation (vo_request vo)) \<longrightarrow> delegationVerified P vo (s_body s)"
    using fine [of dc] delegationCheck_statuses [OF parts(3)] delegationCheck_verified [OF parts(3)] by auto
  from verifyTrusted_accepted [OF parts(1) t] have key: "s_digest s = digestOf P ''cool.authz-decision.v1'' (decisionVal (s_body s))"
    "\<exists>rec m. keyAccepted P (vo_trust vo) \<lparr>q_keyId = sig_key_id (s_signature s), q_purpose = PEvaluator,
             q_now = Some (vo_now vo), q_claimedSignedAt = None, q_provenSignedBefore = None\<rparr> rec
        \<and> kr_status rec \<notin> {KRevoked, KCompromised}
        \<and> sigMessage ''cool.authz-decision.v1'' (s_digest s) = Inr m \<and> hv_ok (hybridVerify P m (s_signature s) (kr_entry rec))"
    by (auto simp: keyAccepted_def)
  show ?thesis using rb pb ps dl key by (auto simp: requestBinding_def split: if_splits)
qed

section \<open>Witnesses\<close>

definition toyRequest :: AuthorizationRequest where
  "toyRequest = (case createAuthorizationRequest toyEnv toyRandom toyInput of Inr (r, sec) \<Rightarrow> r)
     \<lparr>rq_issued_at := ''50'', rq_expires_at := ''100''\<rparr>"

definition toyDecideInput :: DecideInput where
  "toyDecideInput = \<lparr>di_request = toyRequest, di_policy = toyPolicy, di_facts = [(''env'', JStr ''prod''), (''risk'', JStr ''low'')],
     di_now = 50, di_decisionId = Some ''dec''\<rparr>"

definition toyVerify :: VerifyDecisionOptions where
  "toyVerify = \<lparr>vo_request = toyRequest, vo_trust = toyStore, vo_mode = Enforcement, vo_now = 100, vo_policy = Some toyPolicy,
     vo_facts = Some (di_facts toyDecideInput), vo_directory = Some toyDirectory,
     vo_delegation = Some \<lparr>dl_chain = toyChain, dl_roots = [''a''], dl_revoked = Some [], dl_amount = None\<rparr>\<rparr>"

definition toyDecision :: "AuthorizationDecision Signed" where
  "toyDecision = (case decide toyEnv [] toyDecideInput (toyKey ''k'') of Inr s \<Rightarrow> s)"

lemma toyDecision: "decide toyEnv [] toyDecideInput (toyKey ''k'') = Inr toyDecision"
proof -
  obtain s where "signObject toyEnv decisionVal ''cool.authz-decision.v1'' (decisionBody toyEnv [] toyDecideInput) (toyKey ''k'') = Inr s"
    by (rule signObject_total [OF digests32_toyEnv])
  then show ?thesis by (simp add: toyDecision_def decide_def)
qed

lemma toyRequest_fields: "rq_principal toyRequest = ''c''" "rq_delegation toyRequest = Some ''e''" "rq_expires_at toyRequest = ''100''"
  "rq_issued_at toyRequest = ''50''" "rq_nonce toyRequest = ''n''" "rq_audience toyRequest = ''gw''" "rq_action toyRequest = ''read''"
  "rq_resource toyRequest = ''doc/1''" "rq_execution toyRequest = None"
  by (simp_all add: toyRequest_def createAuthorizationRequest_def toyInput_def toyRandom_def commitValue_def Let_def)

lemma toyIso: "to_iso toyEnv 50 = ''50''"
  unfolding toyEnv_def by code_simp

lemma toyDecision_body: "s_body toyDecision = decisionBody toyEnv [] toyDecideInput"
  using signObject_fields [OF toyDecision [unfolded decide_def]] by simp

lemma toyDecision_times: "ad_decided_at (s_body toyDecision) = ''50''" "ad_valid_until (s_body toyDecision) = ''100''"
  unfolding toyDecision_body
  by (simp_all add: decisionBody_def case_prod_beta Let_def toyDecideInput_def toyIso toyRequest_fields)

text \<open>The policy's first rule matches, so the answer is \<^verbatim>\<open>audit_only\<close>: a permit.\<close>

lemma toyPolicy_permits:
  "ad_decision (s_body toyDecision) = ''permit''"
proof -
  let ?F = "decisionFacts toyRequest [(''env'', JStr ''prod''), (''risk'', JStr ''low'')]"
  have "List.map_filter (contribution toyEnv toyPolicy ?F) (p_rules toyPolicy) = [''audit_only'']"
    by (simp add: toyPolicy_def contribution_def atom_def factValue_def nullish_def testOp_def strictEq_def kAnd_def triOf_def
      decisionFacts_def List.map_filter_def)
  moreover have "foldSevere [''audit_only''] ''allow'' = ''audit_only''" by code_simp
  ultimately obtain r where "evaluatePolicy toyEnv toyPolicy ?F 50 [] = Inr r" "d_decision r = ''audit_only''"
    using evaluatePolicy_ok [OF toyPolicy_valid(1), of toyEnv ?F 50 "[]"] by auto
  then show ?thesis unfolding toyDecision_body
    by (simp add: decisionBody_def evaluateRequest_def case_prod_beta Let_def toyDecideInput_def toyRequest_fields toyDates MAP_def)
qed

lemma toyVerify_ok:
  "\<exists>rep. verifyDecision toyEnv toyDecision toyVerify = Inr rep \<and> dr_outcome rep = Verified \<and> dr_decision rep = ''permit''
    \<and> (\<forall>(n, c) \<in> set (dr_checks rep). c_status c \<in> {Pass, NotApplicable})
    \<and> statusOf (dr_checks rep) ''delegation'' = Some Pass"
proof -
  obtain t where t: "verifyTrusted toyEnv decisionVal ''cool.authz-decision.v1'' toyDecision toyStore PEvaluator (Some 100)
      = Inr (check Pass ''digest_matches'', check Pass ''signature_valid'', t)" "c_status t = Pass"
    using decide_trusted [OF digests32_toyEnv signs_toyEnv generated_toyKey toyDecision, of toyStore _ "Some 100"]
      toyStore_accepts [of 100] by (fastforce simp: toyStore_get toyKeyRecord_def)
  have r: "requestBinding toyEnv toyRequest (s_body toyDecision) = check Pass ''request_bound''
    \<and> policyBinding toyEnv (Some toyPolicy) (s_body toyDecision) = check Pass ''policy_bound''
    \<and> reproduce toyEnv toyVerify (s_body toyDecision) = Inr (check Pass ''replayed_identically'')"
    using decision_reproduced [of toyEnv toyDecideInput toyVerify "[]"]
    by (simp add: toyDecision_body toyDecideInput_def toyVerify_def toyPolicy_valid toyIso toyDates)
  have f: "freshness toyEnv toyVerify (s_body toyDecision) = check Pass ''fresh''"
    by (simp add: freshness_def toyDecision_times toyVerify_def toyRequest_fields toyDates)
  have p: "principal_check toyEnv toyDirectory ''c'' (Some 50) None = Inr (check Pass ''principal_active'')"
    by (rule toyDirectory_active) simp_all
  have "toyChain \<noteq> []" "dg_delegation_id (s_body (last toyChain)) = ''e''"
    by (simp_all add: toyChain_def toyGrant_fields toySubDelegation_def)
  with toyChain_accepted [unfolded toyChainRequest_def toyChainOptions_def]
  have d: "delegationCheck toyEnv toyVerify (s_body toyDecision) = Inr (check Pass ''chain_valid'')"
    by (simp add: delegationCheck_def toyVerify_def toyRequest_fields truthy_def toyDecision_times toyDates)
  have o: "vo_request toyVerify = toyRequest" "vo_trust toyVerify = toyStore" "vo_now toyVerify = 100"
    "vo_directory toyVerify = Some toyDirectory" "vo_policy toyVerify = Some toyPolicy"
    by (simp_all add: toyVerify_def)
  show ?thesis
    using t r f p d
    by (simp add: verifyDecision_def o toyRequest_fields toyDecision_times toyDates Let_def case_prod_beta toyPolicy_permits)
      (simp add: outcome_verified_iff statusOf_def)
qed

theorem decision_replays_witness:
  "\<exists>rep. verifyDecision toyEnv toyDecision toyVerify = Inr rep \<and> statusOf (dr_checks rep) ''reproduced'' = Some Pass"
proof -
  obtain rep where rep: "verifyDecision toyEnv toyDecision toyVerify = Inr rep" using toyVerify_ok by blast
  have "\<forall>n \<in> {''integrity'', ''signature'', ''evaluator_trusted'', ''request_binding'', ''policy_binding'', ''reproduced''}.
           statusOf (dr_checks rep) n = Some Pass"
    by (rule decision_replays [OF digests32_toyEnv signs_toyEnv generated_toyKey _ _ _ _ _ _ _ _ toyDecision rep,
          of "toyKeyRecord ''k'' [PEvaluator]"])
      (simp_all add: toyDecideInput_def toyVerify_def toyPolicy_valid toyStore_get toyStore_accepts toyIso toyDates,
       simp add: toyKeyRecord_def)
  with rep show ?thesis by simp
qed

theorem verified_decision_sound_witness:
  "ad_request_digest (s_body toyDecision) = requestDigest toyEnv toyRequest
   \<and> activeAt toyEnv toyDirectory ''c'' (Some 50)
   \<and> rq_delegation toyRequest = Some ''e'' \<and> delegationVerified toyEnv toyVerify (s_body toyDecision)"
proof -
  obtain rep where rep: "verifyDecision toyEnv toyDecision toyVerify = Inr rep" "dr_outcome rep = Verified"
    using toyVerify_ok by blast
  have "vo_request toyVerify = toyRequest" "vo_directory toyVerify = Some toyDirectory" "truthy (rq_delegation toyRequest)"
    by (simp_all add: toyVerify_def toyRequest_fields truthy_def)
  with verified_decision_sound [OF rep] show ?thesis by (simp add: toyRequest_fields toyDecision_times toyDates)
qed

end
