(* ===== verification/Replay.thy ===== *)
theory Replay
  imports Signed
begin

text \<open>
  \<^verbatim>\<open>src/src/authz/replay.ts\<close> and the generic store of \<^verbatim>\<open>replay-shared.ts\<close>: nonce stores.  The interface \<^verbatim>\<open>NonceStore\<close> is the
  locale \<open>nonce_store\<close>; its lemma is the contract of replay resistance: in any sequence of uses, in any order and with any
  failures of the medium, a nonce of a scope is consumed at most once.  The in-process and the file store interpret it.

  The parameter \<open>io\<close> of a use stands for what the medium does: nothing for the in-process store, and for the file store
  whether opening (other than on an existing file) or writing fails.
\<close>

section \<open>replay.ts\<close>

datatype ConsumeResult = Consumed | Replayed | Unavailable

definition nonceKey :: "string \<Rightarrow> string \<Rightarrow> string" where
  "nonceKey scope nonce = scope @ [CHR 0x00] @ nonce"

record MemoryNonceStore =
  mn_used :: "(string \<times> string) list"

definition mem_consume :: "unit \<Rightarrow> string \<Rightarrow> string \<Rightarrow> string \<Rightarrow> MemoryNonceStore \<Rightarrow> ConsumeResult \<times> MemoryNonceStore" where
  "mem_consume io scope nonce requestId st =
     (let k = nonceKey scope nonce in
      if map_of (mn_used st) k \<noteq> None then (Replayed, st)
      else (Consumed, st\<lparr>mn_used := mput k requestId (mn_used st)\<rparr>))"

record FsFault =
  open_fails :: bool
  write_fails :: bool

record FileNonceStore =
  fn_files :: "(string \<times> string) list"

definition nonceFile :: "env \<Rightarrow> string \<Rightarrow> string \<Rightarrow> string" where
  "nonceFile P scope nonce = toHex (sha256 P (utf8 (nonceKey scope nonce)))"

text \<open>\<^verbatim>\<open>openSync(name, "wx")\<close> creates the file or fails with \<^verbatim>\<open>EEXIST\<close>; a failed write leaves the empty file.\<close>

definition file_consume :: "env \<Rightarrow> FsFault \<Rightarrow> string \<Rightarrow> string \<Rightarrow> string \<Rightarrow> FileNonceStore \<Rightarrow> ConsumeResult \<times> FileNonceStore" where
  "file_consume P io scope nonce requestId st =
     (let name = nonceFile P scope nonce in
      if open_fails io then (Unavailable, st)
      else if map_of (fn_files st) name \<noteq> None then (Replayed, st)
      else if write_fails io then (Unavailable, st\<lparr>fn_files := mput name [] (fn_files st)\<rparr>)
      else (Consumed, st\<lparr>fn_files := mput name requestId (fn_files st)\<rparr>))"

section \<open>replay-shared.ts\<close>

text \<open>\<^verbatim>\<open>SharedNonceStore\<close> over a backend \<open>insertIfAbsent\<close>, which may throw; \<open>timedOut\<close> says that the timer won the race, whatever
  the backend did meanwhile.\<close>

record SharedOptions =
  so_ttlMs :: int
  so_prefix :: "string option"

definition newSharedNonceStore :: "SharedOptions \<Rightarrow> unit res" where
  "newSharedNonceStore opt = (if \<not> so_ttlMs opt > 0 then Inl (Error ''ttlMs must be positive'') else Inr ())"

definition keyOf :: "env \<Rightarrow> string \<Rightarrow> string \<Rightarrow> string \<Rightarrow> string" where
  "keyOf P prefix scope nonce = prefix @ toHex (sha256 P (utf8 (nonceKey scope nonce)))"

definition shared_consume ::
  "env \<Rightarrow> (string \<Rightarrow> string \<Rightarrow> int \<Rightarrow> 's \<Rightarrow> bool res \<times> 's) \<Rightarrow> SharedOptions \<Rightarrow> bool \<Rightarrow> string \<Rightarrow> string \<Rightarrow> string \<Rightarrow> 's
    \<Rightarrow> ConsumeResult \<times> 's" where
  "shared_consume P insertIfAbsent opt timedOut scope nonce requestId s =
     (let key = keyOf P (case so_prefix opt of Some p \<Rightarrow> p | None \<Rightarrow> ''cool:nonce:'') scope nonce;
          (won, s') = insertIfAbsent key requestId (so_ttlMs opt) s
      in (if timedOut then Unavailable
          else case won of Inr True \<Rightarrow> Consumed | Inr False \<Rightarrow> Replayed | Inl _ \<Rightarrow> Unavailable, s'))"

section \<open>The interface\<close>

locale nonce_store =
  fixes consume :: "'io \<Rightarrow> string \<Rightarrow> string \<Rightarrow> string \<Rightarrow> 's \<Rightarrow> ConsumeResult \<times> 's"
    and key :: "string \<Rightarrow> string \<Rightarrow> string"
    and used :: "'s \<Rightarrow> string set"
  assumes consumed: "consume io scope nonce r s = (Consumed, s') \<Longrightarrow> key scope nonce \<notin> used s \<and> key scope nonce \<in> used s'"
    and grows: "used s \<subseteq> used (snd (consume io scope nonce r s))"
begin

text \<open>A sequence of uses, and the keys consumed in it.\<close>

fun consumeAll :: "('io \<times> string \<times> string \<times> string) list \<Rightarrow> 's \<Rightarrow> string list \<times> 's" where
  "consumeAll [] s = ([], s)"
| "consumeAll ((io, scope, nonce, r) # us) s =
     (let (res, s1) = consume io scope nonce r s; (ks, s2) = consumeAll us s1
      in (if res = Consumed then key scope nonce # ks else ks, s2))"

lemma consumeAll_fresh:
  "distinct (fst (consumeAll us s)) \<and> set (fst (consumeAll us s)) \<inter> used s = {}
   \<and> used s \<union> set (fst (consumeAll us s)) \<subseteq> used (snd (consumeAll us s))"
proof (induction us s rule: consumeAll.induct)
  case (2 io scope nonce r us s)
  obtain res s1 where c: "consume io scope nonce r s = (res, s1)" by fastforce
  obtain ks s2 where ks: "consumeAll us s1 = (ks, s2)" by fastforce
  have IH: "distinct ks" "set ks \<inter> used s1 = {}" "used s1 \<union> set ks \<subseteq> used s2"
    using 2 [OF c [symmetric] refl] ks by auto
  have g: "used s \<subseteq> used s1" using grows [of s io scope nonce r] c by simp
  show ?case
  proof (cases "res = Consumed")
    case True
    with consumed c have "key scope nonce \<notin> used s" "key scope nonce \<in> used s1" by blast+
    with IH g True show ?thesis by (auto simp: c ks)
  next
    case False
    with IH g show ?thesis by (auto simp: c ks)
  qed
qed simp

lemma at_most_once: "distinct (fst (consumeAll us s))"
  using consumeAll_fresh by blast

end

interpretation mstore: nonce_store mem_consume nonceKey "\<lambda>st. fst ` set (mn_used st)"
proof unfold_locales
  fix io scope nonce r s s'
  assume "mem_consume io scope nonce r s = (Consumed, s')"
  then show "nonceKey scope nonce \<notin> fst ` set (mn_used s) \<and> nonceKey scope nonce \<in> fst ` set (mn_used s')"
    by (auto simp: mem_consume_def Let_def mput_keys map_of_eq_None_iff split: if_splits)
next
  fix s :: MemoryNonceStore and io scope nonce r
  show "fst ` set (mn_used s) \<subseteq> fst ` set (mn_used (snd (mem_consume io scope nonce r s)))"
    by (auto simp: mem_consume_def Let_def mput_keys)
qed

interpretation fstore: nonce_store "file_consume P" "nonceFile P" "\<lambda>st. fst ` set (fn_files st)" for P
proof unfold_locales
  fix io scope nonce r s s'
  assume "file_consume P io scope nonce r s = (Consumed, s')"
  then show "nonceFile P scope nonce \<notin> fst ` set (fn_files s) \<and> nonceFile P scope nonce \<in> fst ` set (fn_files s')"
    by (auto simp: file_consume_def Let_def mput_keys map_of_eq_None_iff split: if_splits)
next
  fix s :: FileNonceStore and io scope nonce r
  show "fst ` set (fn_files s) \<subseteq> fst ` set (fn_files (snd (file_consume P io scope nonce r s)))"
    by (auto simp: file_consume_def Let_def mput_keys)
qed

section \<open>Properties\<close>

text \<open>A sequence of uses of the file store: what each one answered.\<close>

fun fileUses :: "env \<Rightarrow> (FsFault \<times> string \<times> string \<times> string) list \<Rightarrow> FileNonceStore \<Rightarrow> (string \<times> string) list" where
  "fileUses P [] s = []"
| "fileUses P ((io, scope, nonce, r) # us) s =
     (let (res, s1) = file_consume P io scope nonce r s
      in (if res = Consumed then (scope, nonce) # fileUses P us s1 else fileUses P us s1))"

lemma fileUses_keys: "map (\<lambda>(sc, n). nonceFile P sc n) (fileUses P us s) = fst (fstore.consumeAll P us s)"
  by (induction P us s rule: fileUses.induct) (auto simp: Let_def split: prod.split)

text \<open>
  \<^bold>\<open>C7.\<close> Replay resistance of the file store: over any sequence of uses by any processes, with any of them failing to open
  or to write, no nonce is reported consumed twice in the same scope.
\<close>

theorem file_store_at_most_once: "distinct (fileUses P us s)"
proof -
  have "distinct (map (\<lambda>(sc, n). nonceFile P sc n) (fileUses P us s))"
    unfolding fileUses_keys by (rule fstore.at_most_once)
  then show ?thesis by (simp add: distinct_map)
qed

text \<open>
  The shared store fails closed and never guesses: it answers \<^verbatim>\<open>consumed\<close> only if the backend reported, in time, that it
  inserted the key itself; a timeout, an exception or an existing key never permits.
\<close>

theorem shared_store_consumed:
  "(fst (shared_consume P ins opt timedOut scope nonce r s) = Consumed) =
     (\<not> timedOut \<and> fst (ins (keyOf P (case so_prefix opt of Some p \<Rightarrow> p | None \<Rightarrow> ''cool:nonce:'') scope nonce) r (so_ttlMs opt) s) = Inr True)"
  by (auto simp: shared_consume_def Let_def split: prod.split sum.split bool.splits)

end
