(* ===== verification/Gateway.thy ===== *)
theory Gateway
  imports Decision Replay
begin

text \<open>
  \<^verbatim>\<open>src/src/authz/gateway.ts\<close>: the tool gateway.  \<^verbatim>\<open>invoke\<close> is an async method, so other invocations run between its two
  halves: \<open>admit\<close> is everything up to and including the atomic consumption of the nonce, \<open>perform\<close> is the call of the tool and
  the confirmation of what happened.  The step relation \<open>gstep\<close> interleaves the halves of any number of invocations over one
  nonce store, whose interface is the locale \<open>nonce_store\<close>.

  Results: a tool runs only for an authorised invocation; in every reachable state every nonce of the audience has been spent by
  at most one executed invocation; a gateway without a principal directory rejects everything; what the confirmation says is what
  happened.
\<close>

section \<open>gateway.ts\<close>

datatype ConfirmationOutcome = CCompleted | CRejected | CFailed

record ExternalConfirmation =
  ec_confirmation_id :: string
  ec_target :: string
  ec_tool :: string
  ec_request_id :: string
  ec_request_digest :: Multihash
  ec_decision_id :: string
  ec_outcome :: ConfirmationOutcome
  ec_reason :: string
  ec_response_digest :: "Multihash option"
  ec_external_ref :: "string option"
  ec_confirmed_at :: string

definition outcomeName :: "ConfirmationOutcome \<Rightarrow> string" where
  "outcomeName c = (case c of CCompleted \<Rightarrow> ''completed'' | CRejected \<Rightarrow> ''rejected'' | CFailed \<Rightarrow> ''failed'')"

definition confirmationVal :: "ExternalConfirmation \<Rightarrow> jsval" where
  "confirmationVal c = JObj [(''schema'', JStr ''cool.external-confirmation.v1''), (''confirmation_id'', JStr (ec_confirmation_id c)),
     (''target'', JStr (ec_target c)), (''tool'', JStr (ec_tool c)), (''request_id'', JStr (ec_request_id c)),
     (''request_digest'', JStr (ec_request_digest c)), (''decision_id'', JStr (ec_decision_id c)),
     (''outcome'', JStr (outcomeName (ec_outcome c))), (''reason'', JStr (ec_reason c)),
     (''response_digest'', optStr (ec_response_digest c)), (''external_ref'', optStr (ec_external_ref c)),
     (''confirmed_at'', JStr (ec_confirmed_at c))]"

text \<open>A tool's side effect is outside the gateway: its answer (a response with an optional reference, or an exception) is an
  argument of \<open>perform\<close>.\<close>

record ToolDefinition =
  t_action :: string
  t_resource :: string

record ToolOutput =
  to_response :: jsval
  to_external_ref :: "string option"

record GatewayOptions =
  go_id :: string
  go_audience :: string
  go_key :: SigningKey
  go_trust :: TrustStore
  go_directory :: "PrincipalDirectory option"
  go_roots :: "string list option"
  go_revokedDelegations :: "string list option"
  go_observedExecution :: "ExecutionContext option"

record Invocation =
  iv_tool :: string
  iv_request :: AuthorizationRequest
  iv_params :: "(string \<times> jsval) list"
  iv_params_salt :: string
  iv_decision :: "AuthorizationDecision Signed"
  iv_delegation :: "Delegation Signed list option"
  iv_policy :: "PolicyDocument option"
  iv_facts :: "Facts option"
  iv_commitmentKey :: "bytes option"

record ToolGateway =
  tg_tools :: "(string \<times> ToolDefinition) list"
  tg_o :: GatewayOptions

definition newGateway :: "GatewayOptions \<Rightarrow> ToolGateway" where
  "newGateway opt = \<lparr>tg_tools = [], tg_o = opt\<rparr>"

definition register :: "string \<Rightarrow> ToolDefinition \<Rightarrow> ToolGateway \<Rightarrow> ToolGateway res" where
  "register name tool g =
     (if map_of (tg_tools g) name \<noteq> None then Inl (Error (''tool '' @ name @ '' is already registered''))
      else Inr (g\<lparr>tg_tools := mput name tool (tg_tools g)\<rparr>))"

text \<open>The clock and the random bytes of a confirmation are its arguments.\<close>

definition confirm :: "env \<Rightarrow> ToolGateway \<Rightarrow> bytes \<Rightarrow> int \<Rightarrow> Invocation \<Rightarrow> ConfirmationOutcome \<Rightarrow> string \<Rightarrow> Multihash option \<Rightarrow> string option
    \<Rightarrow> ExternalConfirmation Signed res" where
  "confirm P g random now iv outcome reason response_digest external_ref =
     signObjectAsync P confirmationVal ''cool.external-confirmation.v1''
       \<lparr>ec_confirmation_id = ''conf_'' @ toHex random, ec_target = go_id (tg_o g), ec_tool = iv_tool iv,
        ec_request_id = rq_request_id (iv_request iv), ec_request_digest = requestDigest P (iv_request iv),
        ec_decision_id = ad_decision_id (s_body (iv_decision iv)), ec_outcome = outcome, ec_reason = reason,
        ec_response_digest = response_digest, ec_external_ref = external_ref, ec_confirmed_at = to_iso P now\<rparr>
       (go_key (tg_o g))"

definition amountOf :: "(string \<times> jsval) list \<Rightarrow> jsnum option" where
  "amountOf params = (case map_of params ''amount'' of Some (JNum n) \<Rightarrow> Some n | _ \<Rightarrow> None)"

definition enforcementOptions :: "ToolGateway \<Rightarrow> int \<Rightarrow> Invocation \<Rightarrow> VerifyDecisionOptions" where
  "enforcementOptions g now iv = \<lparr>vo_request = iv_request iv, vo_trust = go_trust (tg_o g), vo_mode = Enforcement, vo_now = now,
     vo_policy = iv_policy iv, vo_facts = iv_facts iv, vo_directory = go_directory (tg_o g),
     vo_delegation = map_option (\<lambda>chain. \<lparr>dl_chain = chain, dl_roots = (case go_roots (tg_o g) of Some r \<Rightarrow> r | None \<Rightarrow> []),
       dl_revoked = Some (case go_revokedDelegations (tg_o g) of Some r \<Rightarrow> r | None \<Rightarrow> []),
       dl_amount = amountOf (iv_params iv)\<rparr>) (iv_delegation iv)\<rparr>"

definition isBlocking :: "string \<times> Check \<Rightarrow> bool" where
  "isBlocking = (\<lambda>(name, c). c_status c = Fail \<or> (c_status c \<noteq> Pass \<and> c_status c \<noteq> NotApplicable
     \<and> \<not> (name \<in> {''policy_binding'', ''reproduced''} \<and> c_status c = NotChecked)))"

text \<open>The checks before the nonce is consumed: the reason of the rejection, or the accepted report.\<close>

datatype Verdict = Reject string "DecisionReport option" | Accept DecisionReport

definition authorise :: "env \<Rightarrow> ToolGateway \<Rightarrow> int \<Rightarrow> Invocation \<Rightarrow> Verdict res" where
  "authorise P g now iv =
     (let r = iv_request iv in
      case map_of (tg_tools g) (iv_tool iv) of
        None \<Rightarrow> Inr (Reject ''unknown_tool'' None)
      | Some tool \<Rightarrow>
          if t_action tool \<noteq> rq_action r \<or> \<not> covers (t_resource tool) (rq_resource r) then Inr (Reject ''tool_action_mismatch'' None)
          else if rq_audience r \<noteq> go_audience (tg_o g) then Inr (Reject ''wrong_audience'' None)
          else if \<not> paramsMatch P r (JObj (iv_params iv)) (iv_params_salt iv) (iv_commitmentKey iv)
          then Inr (Reject ''parameter_mismatch'' None)
          else rbind (verifyDecision P (iv_decision iv) (enforcementOptions g now iv)) (\<lambda>report.
            case find isBlocking (dr_checks report) of
              Some blocking \<Rightarrow>
                Inr (Reject (''decision_not_acceptable:'' @ fst blocking @ '':'' @ c_reason (snd blocking)) (Some report))
            | None \<Rightarrow>
                if truthy (rq_delegation r) \<and> statusOf (dr_checks report) ''delegation'' \<noteq> Some Pass
                then Inr (Reject ''delegation_not_verified'' (Some report))
                else if dr_decision report \<noteq> ''permit'' then Inr (Reject (''decision_'' @ dr_decision report) (Some report))
                else let exec = compareExecution (rq_execution r) (go_observedExecution (tg_o g)) in
                  if c_status exec = Fail \<or> c_status exec = Unknown then Inr (Reject (c_reason exec) (Some report))
                  else Inr (Accept report)))"

text \<open>\<open>admit\<close>: the checks, then \<^verbatim>\<open>consume\<close>; the store is not touched by a rejected invocation.\<close>

definition admit :: "env \<Rightarrow> (string \<Rightarrow> string \<Rightarrow> string \<Rightarrow> 's \<Rightarrow> ConsumeResult \<times> 's) \<Rightarrow> ToolGateway \<Rightarrow> int \<Rightarrow> Invocation \<Rightarrow> 's
    \<Rightarrow> (Verdict \<times> 's) res" where
  "admit P consume g now iv store =
     rbind (authorise P g now iv) (\<lambda>v. case v of
         Reject reason rep \<Rightarrow> Inr (v, store)
       | Accept report \<Rightarrow>
           (let (res, store') = consume (go_audience (tg_o g)) (rq_nonce (iv_request iv)) (rq_request_id (iv_request iv)) store in
            Inr (case res of Consumed \<Rightarrow> Accept report
                 | Replayed \<Rightarrow> Reject ''replayed'' (Some report)
                 | Unavailable \<Rightarrow> Reject ''replay_store_unavailable'' (Some report), store')))"

record InvocationResult =
  ir_confirmation :: "ExternalConfirmation Signed"
  ir_decisionReport :: "DecisionReport option"
  ir_response :: "jsval option"

definition reject :: "env \<Rightarrow> ToolGateway \<Rightarrow> bytes \<Rightarrow> int \<Rightarrow> Invocation \<Rightarrow> string \<Rightarrow> DecisionReport option \<Rightarrow> InvocationResult res" where
  "reject P g random now iv reason rep =
     rbind (confirm P g random now iv CRejected reason None None) (\<lambda>c.
       Inr \<lparr>ir_confirmation = c, ir_decisionReport = rep, ir_response = None\<rparr>)"

text \<open>\<open>JSON.parse(JSON.stringify(v))\<close> is the parameter \<open>json\<close>, which throws on values JSON cannot hold.\<close>

definition perform :: "env \<Rightarrow> (jsval \<Rightarrow> jsval res) \<Rightarrow> ToolGateway \<Rightarrow> bytes \<Rightarrow> int \<Rightarrow> Invocation \<Rightarrow> DecisionReport \<Rightarrow> ToolOutput res
    \<Rightarrow> InvocationResult res" where
  "perform P json g random now iv report out =
     (let completed = rbind out (\<lambda>o1.
          rbind (json (if nullish (to_response o1) then JNull else to_response o1)) (\<lambda>v.
          rbind (confirm P g random now iv CCompleted ''executed'' (Some (mhSha256 (sha256 P) (canonicalCbor P v)))
                  (if truthy (to_external_ref o1) then to_external_ref o1 else None)) (\<lambda>c.
            Inr \<lparr>ir_confirmation = c, ir_decisionReport = Some report, ir_response = Some (to_response o1)\<rparr>)))
      in case completed of
           Inr r \<Rightarrow> Inr r
         | Inl err \<Rightarrow> rbind (confirm P g random now iv CFailed (''tool_error:'' @ take 120 (exnMessage err)) None None) (\<lambda>c.
             Inr \<lparr>ir_confirmation = c, ir_decisionReport = Some report, ir_response = None\<rparr>))"

text \<open>The whole method, when nothing runs in between.\<close>

definition invoke :: "env \<Rightarrow> (jsval \<Rightarrow> jsval res) \<Rightarrow> (string \<Rightarrow> string \<Rightarrow> string \<Rightarrow> 's \<Rightarrow> ConsumeResult \<times> 's) \<Rightarrow> ToolGateway \<Rightarrow> bytes \<Rightarrow> int
    \<Rightarrow> Invocation \<Rightarrow> ToolOutput res \<Rightarrow> 's \<Rightarrow> (InvocationResult \<times> 's) res" where
  "invoke P json consume g random now iv out store =
     rbind (admit P consume g now iv store) (\<lambda>(v, store'). case v of
         Reject reason rep \<Rightarrow> rbind (reject P g random now iv reason rep) (\<lambda>r. Inr (r, store'))
       | Accept report \<Rightarrow> rbind (perform P json g random now iv report out) (\<lambda>r. Inr (r, store')))"

definition verifyConfirmation :: "env \<Rightarrow> ExternalConfirmation Signed \<Rightarrow> AuthorizationRequest \<Rightarrow> TrustStore \<Rightarrow> int
    \<Rightarrow> (ConfirmationOutcome option \<times> Checks) res" where
  "verifyConfirmation P s request trust now =
     rbind (verifyTrusted P confirmationVal ''cool.external-confirmation.v1'' s trust PEnforcement (Some now)) (\<lambda>(i, g, t).
       let binding = (if ec_request_digest (s_body s) = requestDigest P request \<and> ec_request_id (s_body s) = rq_request_id request
              then check Pass ''request_bound'' else check Fail ''request_mismatch'');
           checks = [(''integrity'', i), (''signature'', g), (''enforcement_trusted'', t), (''request_binding'', binding)]
       in Inr (if list_all (\<lambda>(n, c). c_status c = Pass) checks then Some (ec_outcome (s_body s)) else None, checks))"

section \<open>Interleaved invocations\<close>

text \<open>An admitted invocation, with the gateway and the time it was admitted at.\<close>

record Admitted =
  am_gateway :: ToolGateway
  am_now :: int
  am_inv :: Invocation
  am_report :: DecisionReport

record 's GState =
  gs_gateway :: ToolGateway
  gs_store :: 's
  gs_running :: "Admitted list"
  gs_executed :: "Admitted list"

text \<open>The store's \<open>consume\<close> takes what the medium does (\<open>io\<close>) as its first argument.  A tool starts when an admitted invocation
  resumes; from then on it counts as executed, whether it succeeds or not.\<close>

inductive gstep :: "env \<Rightarrow> ('io \<Rightarrow> string \<Rightarrow> string \<Rightarrow> string \<Rightarrow> 's \<Rightarrow> ConsumeResult \<times> 's) \<Rightarrow> 's GState \<Rightarrow> 's GState \<Rightarrow> bool"
  for P consume where
  registers: "register name tool (gs_gateway st) = Inr g \<Longrightarrow> gstep P consume st (st\<lparr>gs_gateway := g\<rparr>)"
| rejects: "admit P (consume io) (gs_gateway st) now iv (gs_store st) = Inr (Reject reason rep, store)
    \<Longrightarrow> gstep P consume st (st\<lparr>gs_store := store\<rparr>)"
| admits: "admit P (consume io) (gs_gateway st) now iv (gs_store st) = Inr (Accept rep, store)
    \<Longrightarrow> gstep P consume st (st\<lparr>gs_store := store, gs_running := gs_running st @
          [\<lparr>am_gateway = gs_gateway st, am_now = now, am_inv = iv, am_report = rep\<rparr>]\<rparr>)"
| executes: "gs_running st = before @ a # after
    \<Longrightarrow> gstep P consume st (st\<lparr>gs_running := before @ after, gs_executed := gs_executed st @ [a]\<rparr>)"

definition gstart :: "GatewayOptions \<Rightarrow> 's \<Rightarrow> 's GState" where
  "gstart opt store = \<lparr>gs_gateway = newGateway opt, gs_store = store, gs_running = [], gs_executed = []\<rparr>"

section \<open>Lemmas\<close>

text \<open>What an accepted invocation established.\<close>

definition authorised :: "env \<Rightarrow> ToolGateway \<Rightarrow> int \<Rightarrow> Invocation \<Rightarrow> bool" where
  "authorised P g now iv = (let r = iv_request iv; d = s_body (iv_decision iv) in
     (\<exists>tool. map_of (tg_tools g) (iv_tool iv) = Some tool \<and> t_action tool = rq_action r \<and> covers (t_resource tool) (rq_resource r))
   \<and> rq_audience r = go_audience (tg_o g)
   \<and> paramsMatch P r (JObj (iv_params iv)) (iv_params_salt iv) (iv_commitmentKey iv)
   \<and> ad_decision d = ''permit''
   \<and> requestDigest P r = ad_request_digest d \<and> rq_principal r = ad_principal d \<and> rq_nonce r = ad_nonce d
   \<and> (\<exists>rec m. trust_get (go_trust (tg_o g)) (sig_key_id (s_signature (iv_decision iv))) = Some rec \<and> PEvaluator \<in> set (kr_purposes rec)
        \<and> kr_status rec \<notin> {KRevoked, KCompromised}
        \<and> s_digest (iv_decision iv) = digestOf P ''cool.authz-decision.v1'' (decisionVal d)
        \<and> sigMessage ''cool.authz-decision.v1'' (s_digest (iv_decision iv)) = Inr m
        \<and> hv_ok (hybridVerify P m (s_signature (iv_decision iv)) (kr_entry rec)))
   \<and> \<not> t_gt (Some now) (date_parse P (ad_valid_until d))
   \<and> (\<exists>dir. go_directory (tg_o g) = Some dir \<and> activeAt P dir (rq_principal r) (date_parse P (ad_decided_at d)))
   \<and> (truthy (rq_delegation r) \<longrightarrow> delegationVerified P (enforcementOptions g now iv) d)
   \<and> (rq_execution r \<noteq> None \<longrightarrow> go_observedExecution (tg_o g) = rq_execution r))"

lemma not_blocking:
  assumes "find isBlocking cs = None" "(n, c) \<in> set cs" "n \<notin> {''policy_binding'', ''reproduced''}"
  shows "c_status c \<in> {Pass, NotApplicable}"
proof -
  from assms(1,2) have "\<not> isBlocking (n, c)" unfolding find_None_iff by blast
  with assms(3) show ?thesis by (auto simp: isBlocking_def)
qed

lemma compareExecution_ok:
  "c_status (compareExecution planned observed) \<noteq> Fail \<Longrightarrow> c_status (compareExecution planned observed) \<noteq> Unknown
    \<Longrightarrow> planned \<noteq> None \<Longrightarrow> observed = planned"
  using compareExecution_pass_iff [of planned observed]
  by (cases "c_status (compareExecution planned observed)") (auto simp: compareExecution_def split: option.splits if_splits)

lemma authorise_accept_parts:
  assumes "authorise P g now iv = Inr (Accept rep)"
  shows "(\<exists>tool. map_of (tg_tools g) (iv_tool iv) = Some tool \<and> t_action tool = rq_action (iv_request iv)
        \<and> covers (t_resource tool) (rq_resource (iv_request iv)))
    \<and> rq_audience (iv_request iv) = go_audience (tg_o g)
    \<and> paramsMatch P (iv_request iv) (JObj (iv_params iv)) (iv_params_salt iv) (iv_commitmentKey iv)
    \<and> verifyDecision P (iv_decision iv) (enforcementOptions g now iv) = Inr rep
    \<and> find isBlocking (dr_checks rep) = None
    \<and> (truthy (rq_delegation (iv_request iv)) \<longrightarrow> statusOf (dr_checks rep) ''delegation'' = Some Pass)
    \<and> dr_decision rep = ''permit''
    \<and> (rq_execution (iv_request iv) \<noteq> None \<longrightarrow> go_observedExecution (tg_o g) = rq_execution (iv_request iv))"
  using assms compareExecution_ok [of "rq_execution (iv_request iv)" "go_observedExecution (tg_o g)"]
  by (cases "find isBlocking (dr_checks rep)")
    (auto simp: authorise_def Let_def rbind_Inr_iff split: option.splits if_splits)

lemma authorise_accept:
  assumes "authorise P g now iv = Inr (Accept rep)"
  shows "authorised P g now iv"
proof -
  let ?vo = "enforcementOptions g now iv" and ?s = "iv_decision iv"
  note A = authorise_accept_parts [OF assms]
  have vo: "vo_request ?vo = iv_request iv" "vo_trust ?vo = go_trust (tg_o g)" "vo_mode ?vo = Enforcement" "vo_now ?vo = now"
    "vo_directory ?vo = go_directory (tg_o g)"
    by (simp_all add: enforcementOptions_def)
  from A have v: "verifyDecision P ?s ?vo = Inr rep" and nb: "find isBlocking (dr_checks rep) = None" by blast+
  obtain i g' t re ps dc where parts:
    "verifyTrusted P decisionVal ''cool.authz-decision.v1'' ?s (vo_trust ?vo) PEvaluator (Some (vo_now ?vo)) = Inr (i, g', t)"
    "case vo_directory ?vo of None \<Rightarrow> ps = check NotChecked ''no_directory''
       | Some dir \<Rightarrow> principal_check P dir (rq_principal (vo_request ?vo)) (date_parse P (ad_decided_at (s_body ?s))) None = Inr ps"
    "delegationCheck P ?vo (s_body ?s) = Inr dc" "dr_decision rep = ad_decision (s_body ?s)"
    and cs: "dr_checks rep = [(''integrity'', i), (''signature'', g'), (''evaluator_trusted'', t),
        (''request_binding'', requestBinding P (vo_request ?vo) (s_body ?s)), (''policy_binding'', policyBinding P (vo_policy ?vo) (s_body ?s)),
        (''reproduced'', re), (''freshness'', freshness P ?vo (s_body ?s)), (''principal_state'', ps), (''delegation'', dc)]"
    using verifyDecision_parts [OF v] by blast
  note fine = not_blocking [OF nb, unfolded cs]
  have t: "c_status t = Pass"
    using fine [of "''evaluator_trusted''" t] verifyTrusted_statuses [OF parts(1)] by auto
  have rb: "requestDigest P (iv_request iv) = ad_request_digest (s_body ?s)" "rq_principal (iv_request iv) = ad_principal (s_body ?s)"
    "rq_nonce (iv_request iv) = ad_nonce (s_body ?s)"
    using fine [of "''request_binding''" "requestBinding P (vo_request ?vo) (s_body ?s)"]
    by (auto simp: requestBinding_def vo split: if_splits)
  have fr: "\<not> t_gt (Some now) (date_parse P (ad_valid_until (s_body ?s)))"
    using fine [of "''freshness''" "freshness P ?vo (s_body ?s)"] by (auto simp: freshness_def vo Let_def split: if_splits)
  have "c_status ps \<in> {Pass, NotApplicable}" using fine [of "''principal_state''" ps] by simp
  then have ps: "\<exists>dir. go_directory (tg_o g) = Some dir
      \<and> activeAt P dir (rq_principal (iv_request iv)) (date_parse P (ad_decided_at (s_body ?s)))"
    using parts(2) by (auto simp: vo split: option.splits dest: principal_check_statuses intro: principal_check_activeAt)
  have "truthy (rq_delegation (iv_request iv)) \<longrightarrow> c_status dc = Pass" using A by (auto simp: cs statusOf_def)
  then have dc: "truthy (rq_delegation (iv_request iv)) \<longrightarrow> delegationVerified P ?vo (s_body ?s)"
    using delegationCheck_verified [OF parts(3)] vo(1) by simp
  from A verifyTrusted_sound [OF parts(1) [unfolded vo] t] rb fr ps dc parts(3,4) show ?thesis
    unfolding authorised_def Let_def by auto
qed

lemma authorise_no_directory:
  assumes "go_directory (tg_o g) = None"
  shows "authorise P g now iv \<noteq> Inr (Accept rep)"
  using authorise_accept [of P g now iv rep] assms by (auto simp: authorised_def Let_def)

lemma admit_cases:
  assumes "admit P consume g now iv store = Inr (v, store')"
  shows "(\<exists>reason rep. v = Reject reason rep \<and> authorise P g now iv = Inr v \<and> store' = store)
    \<or> (\<exists>report res. authorise P g now iv = Inr (Accept report)
        \<and> consume (go_audience (tg_o g)) (rq_nonce (iv_request iv)) (rq_request_id (iv_request iv)) store = (res, store')
        \<and> v = (case res of Consumed \<Rightarrow> Accept report | Replayed \<Rightarrow> Reject ''replayed'' (Some report)
                 | Unavailable \<Rightarrow> Reject ''replay_store_unavailable'' (Some report)))"
proof (cases "authorise P g now iv")
  case (Inr w)
  with assms show ?thesis by (cases w) (auto simp: admit_def Let_def split: prod.splits)
qed (use assms in \<open>simp add: admit_def\<close>)

lemma admit_accept:
  assumes "admit P consume g now iv store = Inr (Accept rep, store')"
  shows "authorise P g now iv = Inr (Accept rep)
    \<and> consume (go_audience (tg_o g)) (rq_nonce (iv_request iv)) (rq_request_id (iv_request iv)) store = (Consumed, store')"
  using admit_cases [OF assms]
proof (elim disjE exE conjE)
  fix report res
  assume "authorise P g now iv = Inr (Accept report)"
    "consume (go_audience (tg_o g)) (rq_nonce (iv_request iv)) (rq_request_id (iv_request iv)) store = (res, store')"
    "Accept rep = (case res of Consumed \<Rightarrow> Accept report | Replayed \<Rightarrow> Reject ''replayed'' (Some report)
       | Unavailable \<Rightarrow> Reject ''replay_store_unavailable'' (Some report))"
  then show ?thesis by (cases res) simp_all
qed simp

lemma register_options: "register name tool g = Inr g' \<Longrightarrow> tg_o g' = tg_o g"
  by (auto simp: register_def split: if_splits)

text \<open>The invariant, over any nonce store: the nonces of admitted invocations are spent and pairwise different, and each of them
  was authorised.\<close>

definition nonceOf :: "Admitted \<Rightarrow> string" where
  "nonceOf a = rq_nonce (iv_request (am_inv a))"

context nonce_store
begin

definition g_ok :: "env \<Rightarrow> GatewayOptions \<Rightarrow> 's GState \<Rightarrow> bool" where
  "g_ok P opt st = (tg_o (gs_gateway st) = opt
     \<and> distinct (map (\<lambda>a. key (go_audience opt) (nonceOf a)) (gs_executed st @ gs_running st))
     \<and> (\<forall>a \<in> set (gs_executed st @ gs_running st). key (go_audience opt) (nonceOf a) \<in> used (gs_store st)
          \<and> tg_o (am_gateway a) = opt \<and> authorised P (am_gateway a) (am_now a) (am_inv a)))"

lemma g_ok_store: "g_ok P opt st \<Longrightarrow> used (gs_store st) \<subseteq> used s \<Longrightarrow> g_ok P opt (st\<lparr>gs_store := s\<rparr>)"
  by (auto simp: g_ok_def)

lemma g_ok_step:
  assumes "gstep P consume st st'" "g_ok P opt st"
  shows "g_ok P opt st'"
  using assms
proof (induction rule: gstep.induct)
  case (registers name tool st g)
  then show ?case using register_options [OF registers(1)] by (simp add: g_ok_def)
next
  case (rejects io st now iv reason rep store)
  have "used (gs_store st) \<subseteq> used store"
    using admit_cases [OF rejects(1)]
  proof (elim disjE exE conjE)
    fix report res
    assume c: "consume io (go_audience (tg_o (gs_gateway st))) (rq_nonce (iv_request iv)) (rq_request_id (iv_request iv)) (gs_store st)
      = (res, store)"
    from grows [of "gs_store st" io] c show ?thesis by (metis snd_conv)
  qed simp
  with rejects(2) show ?case by (rule g_ok_store)
next
  case (admits io st now iv rep store)
  from admit_accept [OF admits(1)] have au: "authorise P (gs_gateway st) now iv = Inr (Accept rep)"
    and c: "consume io (go_audience (tg_o (gs_gateway st))) (rq_nonce (iv_request iv)) (rq_request_id (iv_request iv)) (gs_store st)
      = (Consumed, store)" by blast+
  have o: "tg_o (gs_gateway st) = opt" using admits(2) by (simp add: g_ok_def)
  from consumed [OF c] have k: "key (go_audience opt) (rq_nonce (iv_request iv)) \<notin> used (gs_store st)"
    "key (go_audience opt) (rq_nonce (iv_request iv)) \<in> used store" by (simp_all add: o)
  have g: "used (gs_store st) \<subseteq> used store" using grows [of "gs_store st" io] c by (metis snd_conv)
  from admits(2) k g authorise_accept [OF au] o show ?case by (auto simp: g_ok_def nonceOf_def)
next
  case (executes st before a after)
  then show ?case by (auto simp: g_ok_def)
qed

lemma g_ok_reachable:
  assumes "(gstep P consume)\<^sup>*\<^sup>* (gstart opt store) st"
  shows "g_ok P opt st"
  using assms
proof (induction rule: rtranclp_induct)
  case base
  show ?case by (simp add: g_ok_def gstart_def newGateway_def)
qed (rule g_ok_step)

lemma executed_once:
  assumes "(gstep P consume)\<^sup>*\<^sup>* (gstart opt store) st"
  shows "distinct (map nonceOf (gs_executed st))"
proof -
  have "distinct (map (\<lambda>a. key (go_audience opt) (nonceOf a)) (gs_executed st))"
    using g_ok_reachable [OF assms] by (simp add: g_ok_def)
  then have "distinct (map (key (go_audience opt)) (map nonceOf (gs_executed st)))" by (simp add: o_def)
  then show ?thesis by (rule distinct_map [THEN iffD1, THEN conjunct1])
qed

lemma executed_authorised:
  assumes "(gstep P consume)\<^sup>*\<^sup>* (gstart opt store) st" "a \<in> set (gs_executed st)"
  shows "tg_o (am_gateway a) = opt \<and> authorised P (am_gateway a) (am_now a) (am_inv a)"
  using g_ok_reachable [OF assms(1)] assms(2) by (simp add: g_ok_def)

end

text \<open>The confirmation tells what happened.\<close>

lemma confirm_outcome:
  "confirm P g random now iv outcome reason rd er = Inr c \<Longrightarrow> ec_outcome (s_body c) = outcome
     \<and> ec_request_digest (s_body c) = requestDigest P (iv_request iv) \<and> ec_request_id (s_body c) = rq_request_id (iv_request iv)"
  by (auto simp: confirm_def signObjectAsync_def signObject_def Let_def rbind_Inr_iff split: SigningKey.splits)

lemma perform_outcome:
  assumes "perform P json g random now iv report out = Inr r"
  shows "ec_outcome (s_body (ir_confirmation r)) \<noteq> CRejected
    \<and> (ec_outcome (s_body (ir_confirmation r)) = CCompleted \<longrightarrow> (\<exists>o1. out = Inr o1 \<and> ir_response r = Some (to_response o1)))"
  using assms confirm_outcome
  by (auto simp: perform_def Let_def rbind_def split: sum.splits dest!: confirm_outcome)

lemma invoke_parts:
  assumes "invoke P json consume g random now iv out store = Inr (r, store')"
  shows "\<exists>v. admit P consume g now iv store = Inr (v, store')
    \<and> (case v of Reject reason rep \<Rightarrow> reject P g random now iv reason rep | Accept report \<Rightarrow> perform P json g random now iv report out) = Inr r"
proof -
  from assms obtain v st where v: "admit P consume g now iv store = Inr (v, st)"
    by (auto simp: invoke_def rbind_Inr_iff)
  with assms show ?thesis by (cases v) (auto simp: invoke_def rbind_Inr_iff)
qed

section \<open>Properties\<close>

text \<open>
  \<^bold>\<open>C10.\<close> A nonce authorises at most one execution: in every state reachable by registering tools and interleaving the two halves
  of any invocations in any way, over the file store with any of its operations failing, no two executed invocations carry the
  same nonce.
\<close>

theorem gateway_executes_once:
  assumes "(gstep P (file_consume P))\<^sup>*\<^sup>* (gstart opt store) st"
  shows "distinct (map nonceOf (gs_executed st))"
  using assms by (rule fstore.executed_once)

text \<open>
  The gateway mediates completely: every executed invocation was authorised when it was admitted.  Its tool was registered
  for the request's action and resource, the request was for this gateway's audience and committed to exactly these parameters,
  a trusted, unrevoked evaluator key signed a permit for this request that had not expired, the principal was active when it was
  decided, a delegation the request names was verified, and the workload is the one the request planned.
\<close>

theorem executed_invocations_authorised:
  assumes "(gstep P mem_consume)\<^sup>*\<^sup>* (gstart opt store) st" "a \<in> set (gs_executed st)"
  shows "tg_o (am_gateway a) = opt \<and> authorised P (am_gateway a) (am_now a) (am_inv a)"
  using assms by (rule mstore.executed_authorised)

text \<open>
  \<^bold>\<open>C11.\<close> Fail closed: with no principal directory, a missing or failing nonce store, or a decision other than permit, no invocation
  is admitted, so the tool is never reached: neither what the tool would answer nor how its output would be written as
  JSON has any influence on what \<^verbatim>\<open>invoke\<close> does.  An invocation that returns is confirmed as rejected and returns no response;
  one that does not return has thrown (a malformed key, digest or date), and then there is no confirmation and still no execution.
\<close>

theorem invoke_fails_closed:
  assumes "go_directory (tg_o g) = None \<or> ad_decision (s_body (iv_decision iv)) \<noteq> ''permit''
      \<or> (\<forall>sc n i s. fst (consume sc n i s) \<noteq> Consumed)"
  shows "(\<forall>rep store'. admit P consume g now iv store \<noteq> Inr (Accept rep, store'))
    \<and> (\<forall>out' json'. invoke P json' consume g random now iv out' store = invoke P json consume g random now iv out store)
    \<and> (case invoke P json consume g random now iv out store of
         Inl e \<Rightarrow> True
       | Inr (r, store') \<Rightarrow> ec_outcome (s_body (ir_confirmation r)) = CRejected \<and> ir_response r = None)"
proof -
  have no: "admit P consume g now iv store \<noteq> Inr (Accept rep, store')" for rep store'
  proof
    assume "admit P consume g now iv store = Inr (Accept rep, store')"
    from admit_accept [OF this]
    have a: "authorise P g now iv = Inr (Accept rep)"
      "consume (go_audience (tg_o g)) (rq_nonce (iv_request iv)) (rq_request_id (iv_request iv)) store = (Consumed, store')" by auto
    from authorise_accept [OF a(1)] have "go_directory (tg_o g) \<noteq> None" "ad_decision (s_body (iv_decision iv)) = ''permit''"
      by (auto simp: authorised_def Let_def)
    moreover have "\<exists>sc n i s. fst (consume sc n i s) = Consumed" using a(2) by (metis fst_conv)
    ultimately show False using assms by auto
  qed
  show ?thesis
  proof (cases "admit P consume g now iv store")
    case (Inl e)
    then show ?thesis by (simp add: invoke_def)
  next
    case (Inr v)
    with no obtain reason rep store' where v: "v = (Reject reason rep, store')" by (cases v; cases "fst v") auto
    with Inr have "invoke P js consume g random now iv ou store
        = rbind (reject P g random now iv reason rep) (\<lambda>r. Inr (r, store'))" for js ou
      by (simp add: invoke_def)
    with no show ?thesis
      by (auto simp: reject_def rbind_def dest: confirm_outcome split: sum.split)
  qed
qed

text \<open>
  Confirmations are evidence: a confirmation the gateway makes with a generated key verifies, for the request, under any
  snapshot that accepts the key for enforcement, and reports the outcome it was made with; and a confirmation made for a request
  with another digest never verifies as anything.
\<close>

theorem confirmation_verifies:
  assumes "digests32 P" "signs P" "generated P key" "go_key (tg_o g) = InMemory key"
    and "trust_get trust (keyId key) = Some rec" "kr_entry rec = directoryEntry key"
    and "c_status (evaluate P trust \<lparr>q_keyId = keyId key, q_purpose = PEnforcement, q_now = Some now',
           q_claimedSignedAt = None, q_provenSignedBefore = None\<rparr>) = Pass"
    and "confirm P g random now iv outcome reason rd er = Inr c"
  shows "(\<exists>checks. verifyConfirmation P c (iv_request iv) trust now' = Inr (Some outcome, checks))
    \<and> (requestDigest P request \<noteq> requestDigest P (iv_request iv) \<longrightarrow>
      (\<exists>checks. verifyConfirmation P c request trust now' = Inr (None, checks)))"
proof -
  have s: "\<exists>body. signObject P confirmationVal ''cool.external-confirmation.v1'' body key = Inr c"
    using assms(4,8) by (auto simp: confirm_def signObjectAsync_def)
  then have "verifyTrusted P confirmationVal ''cool.external-confirmation.v1'' c trust PEnforcement (Some now')
      = Inr (check Pass ''digest_matches'', check Pass ''signature_valid'', evaluate P trust \<lparr>q_keyId = keyId key,
          q_purpose = PEnforcement, q_now = Some now', q_claimedSignedAt = None, q_provenSignedBefore = None\<rparr>)"
    using signObject_verifies [OF assms(1-3)] signObject_fields assms(5,6) by (fastforce simp: verifyTrusted_def Let_def)
  with confirm_outcome [OF assms(8)] assms(7) show ?thesis by (auto simp: verifyConfirmation_def Let_def)
qed

section \<open>Witnesses\<close>

definition toyOptions :: GatewayOptions where
  "toyOptions = \<lparr>go_id = ''gw'', go_audience = ''gw'', go_key = InMemory (toyKey ''e''), go_trust = toyStore,
     go_directory = Some toyDirectory, go_roots = Some [''a''], go_revokedDelegations = None, go_observedExecution = None\<rparr>"

definition toyGateway :: ToolGateway where
  "toyGateway = \<lparr>tg_tools = [(''t'', \<lparr>t_action = ''read'', t_resource = ''doc/1''\<rparr>)], tg_o = toyOptions\<rparr>"

definition toyInvocation :: Invocation where
  "toyInvocation = \<lparr>iv_tool = ''t'', iv_request = toyRequest, iv_params = [(''a'', JNull), (''x'', JUndef)],
     iv_params_salt = toHex [1, 2], iv_decision = toyDecision, iv_delegation = Some toyChain, iv_policy = Some toyPolicy,
     iv_facts = Some (di_facts toyDecideInput), iv_commitmentKey = None\<rparr>"

lemma toyParams: "paramsMatch toyEnv toyRequest (JObj [(''a'', JNull), (''x'', JUndef)]) (toHex [1, 2]) None"
  by (simp add: toyRequest_def createAuthorizationRequest_def toyInput_def toyRandom_def commitValue_def paramsMatch_def Let_def)

lemma toyAuthorise: "\<exists>rep. authorise toyEnv toyGateway 100 toyInvocation = Inr (Accept rep)"
proof -
  have vo: "enforcementOptions toyGateway 100 toyInvocation = toyVerify"
    by (simp add: enforcementOptions_def toyGateway_def toyOptions_def toyInvocation_def toyVerify_def amountOf_def)
  obtain rep where rep: "verifyDecision toyEnv toyDecision toyVerify = Inr rep" "dr_decision rep = ''permit''"
    "\<forall>(n, c) \<in> set (dr_checks rep). c_status c \<in> {Pass, NotApplicable}"
    "statusOf (dr_checks rep) ''delegation'' = Some Pass" using toyVerify_ok by blast
  then have "find isBlocking (dr_checks rep) = None" by (auto simp: find_None_iff isBlocking_def)
  with rep vo have "authorise toyEnv toyGateway 100 toyInvocation = Inr (Accept rep)"
    by (simp add: authorise_def toyGateway_def toyInvocation_def toyRequest_fields toyOptions_def toyParams covers_def endsWithChar_def
      truthy_def compareExecution_def Let_def)
  then show ?thesis ..
qed

lemma toyRun:
  assumes "consume io ''gw'' ''n'' (rq_request_id toyRequest) store = (Consumed, store')"
  shows "\<exists>st. (gstep toyEnv consume)\<^sup>*\<^sup>* (gstart toyOptions store) st \<and> map am_inv (gs_executed st) = [toyInvocation]"
proof -
  obtain rep where rep: "authorise toyEnv toyGateway 100 toyInvocation = Inr (Accept rep)" using toyAuthorise by blast
  let ?a = "\<lparr>am_gateway = toyGateway, am_now = 100, am_inv = toyInvocation, am_report = rep\<rparr>"
  let ?s1 = "(gstart toyOptions store)\<lparr>gs_gateway := toyGateway\<rparr>"
  let ?s2 = "?s1\<lparr>gs_store := store', gs_running := gs_running ?s1 @ [\<lparr>am_gateway = gs_gateway ?s1, am_now = 100, am_inv = toyInvocation, am_report = rep\<rparr>]\<rparr>"
  let ?s3 = "?s2\<lparr>gs_running := [] @ [], gs_executed := gs_executed ?s2 @ [?a]\<rparr>"
  have "gstep toyEnv consume (gstart toyOptions store) ?s1"
    by (rule gstep.registers [of "''t''" "\<lparr>t_action = ''read'', t_resource = ''doc/1''\<rparr>"])
      (simp add: register_def gstart_def newGateway_def toyGateway_def)
  moreover have "gstep toyEnv consume ?s1 ?s2"
    using assms rep
    by (intro gstep.admits [of toyEnv consume io])
      (simp add: admit_def gstart_def toyInvocation_def toyRequest_fields toyGateway_def toyOptions_def Let_def)
  moreover have "gstep toyEnv consume ?s2 ?s3"
    by (rule gstep.executes) (simp add: gstart_def)
  ultimately have "(gstep toyEnv consume)\<^sup>*\<^sup>* (gstart toyOptions store) ?s3"
    by (meson converse_rtranclp_into_rtranclp r_into_rtranclp)
  then show ?thesis by (intro exI [of _ ?s3]) (simp add: gstart_def)
qed

theorem gateway_executes_once_witness:
  "\<exists>st :: FileNonceStore GState. map am_inv (gs_executed st) = [toyInvocation] \<and> distinct (map nonceOf (gs_executed st))"
proof -
  have "\<exists>store'. file_consume toyEnv \<lparr>open_fails = False, write_fails = False\<rparr> ''gw'' ''n'' (rq_request_id toyRequest) \<lparr>fn_files = []\<rparr>
      = (Consumed, store')" by (simp add: file_consume_def Let_def)
  then obtain st where st: "(gstep toyEnv (file_consume toyEnv))\<^sup>*\<^sup>* (gstart toyOptions \<lparr>fn_files = []\<rparr>) st"
    "map am_inv (gs_executed st) = [toyInvocation]" using toyRun [of "file_consume toyEnv"] by metis
  with gateway_executes_once [OF st(1)] show ?thesis by (intro exI [of _ st]) simp
qed

theorem executed_invocations_authorised_witness:
  "\<exists>a :: Admitted. am_inv a = toyInvocation \<and> authorised toyEnv (am_gateway a) (am_now a) (am_inv a)"
proof -
  have "\<exists>store'. mem_consume () ''gw'' ''n'' (rq_request_id toyRequest) \<lparr>mn_used = []\<rparr> = (Consumed, store')"
    by (simp add: mem_consume_def Let_def)
  then obtain st where st: "(gstep toyEnv mem_consume)\<^sup>*\<^sup>* (gstart toyOptions \<lparr>mn_used = []\<rparr>) st"
    "map am_inv (gs_executed st) = [toyInvocation]" using toyRun [of mem_consume] by metis
  then obtain a where "a \<in> set (gs_executed st)" "am_inv a = toyInvocation" by auto
  with executed_invocations_authorised [OF st(1), of a] show ?thesis by (intro exI [of _ a]) simp
qed

lemma toyConfirm:
  obtains c where "confirm toyEnv (newGateway toyOptions) [] 100 toyInvocation outcome reason None None = Inr c"
  unfolding confirm_def newGateway_def toyOptions_def signObjectAsync_def
  by (simp, rule signObject_total [OF digests32_toyEnv])

text \<open>An invocation with everything in order (\<open>toyAuthorise\<close>) on a gateway whose nonce store fails.\<close>

theorem invoke_fails_closed_witness:
  "\<exists>r store'. invoke toyEnv Inr (\<lambda>sc n i s. (Unavailable, s)) toyGateway [] 100 toyInvocation (Inl TypeError) () = Inr (r, store')
     \<and> ec_reason (s_body (ir_confirmation r)) = ''replay_store_unavailable''
     \<and> ec_outcome (s_body (ir_confirmation r)) = CRejected \<and> ir_response r = None"
proof -
  let ?consume = "\<lambda>(sc :: string) (n :: string) (i :: string) (s :: unit). (Unavailable, s)"
  obtain rep where rep: "authorise toyEnv toyGateway 100 toyInvocation = Inr (Accept rep)" using toyAuthorise by blast
  obtain c where c: "signObject toyEnv confirmationVal ''cool.external-confirmation.v1''
       \<lparr>ec_confirmation_id = ''conf_'' @ toHex [], ec_target = ''gw'', ec_tool = iv_tool toyInvocation,
        ec_request_id = rq_request_id (iv_request toyInvocation), ec_request_digest = requestDigest toyEnv (iv_request toyInvocation),
        ec_decision_id = ad_decision_id (s_body (iv_decision toyInvocation)), ec_outcome = CRejected,
        ec_reason = ''replay_store_unavailable'', ec_response_digest = None, ec_external_ref = None,
        ec_confirmed_at = to_iso toyEnv 100\<rparr> (toyKey ''e'') = Inr c"
    by (rule signObject_total [OF digests32_toyEnv])
  then have k: "confirm toyEnv toyGateway [] 100 toyInvocation CRejected ''replay_store_unavailable'' None None = Inr c"
    by (simp add: confirm_def toyGateway_def toyOptions_def signObjectAsync_def)
  have r: "invoke toyEnv Inr ?consume toyGateway [] 100 toyInvocation (Inl TypeError) ()
      = Inr (\<lparr>ir_confirmation = c, ir_decisionReport = Some rep, ir_response = None\<rparr>, ())"
    by (simp add: invoke_def admit_def rep reject_def k)
  have "case invoke toyEnv Inr ?consume toyGateway [] 100 toyInvocation (Inl TypeError) () of Inl e \<Rightarrow> True
    | Inr (r, store') \<Rightarrow> ec_outcome (s_body (ir_confirmation r)) = CRejected \<and> ir_response r = None"
    by (rule invoke_fails_closed [THEN conjunct2, THEN conjunct2]) simp
  then have "ec_outcome (s_body c) = CRejected" unfolding r by simp
  moreover have "ec_reason (s_body c) = ''replay_store_unavailable''" using signObject_fields [OF c] by simp
  ultimately show ?thesis unfolding r by simp
qed

definition toyEnforcer :: TrustStore where
  "toyEnforcer = toyTrust [toyKeyRecord ''e'' [PEnforcement]]"

theorem confirmation_verifies_witness:
  "\<exists>c checks. confirm toyEnv (newGateway toyOptions) [] 100 toyInvocation CRejected ''unknown_tool'' None None = Inr c
     \<and> verifyConfirmation toyEnv c toyRequest toyEnforcer 100 = Inr (Some CRejected, checks)"
proof -
  obtain c where c: "confirm toyEnv (newGateway toyOptions) [] 100 toyInvocation CRejected ''unknown_tool'' None None = Inr c"
    by (rule toyConfirm)
  have "\<exists>checks. verifyConfirmation toyEnv c (iv_request toyInvocation) toyEnforcer 100 = Inr (Some CRejected, checks)"
    by (rule confirmation_verifies [OF digests32_toyEnv signs_toyEnv generated_toyKey _ _ _ _ c,
        where rec = "toyKeyRecord ''e'' [PEnforcement]", THEN conjunct1])
      (simp_all add: newGateway_def toyOptions_def toyEnforcer_def evaluate_pass_iff toy_trust)
  with c show ?thesis by (auto simp: toyInvocation_def)
qed

end
