(* ===== verification/Ulid.thy ===== *)
theory Ulid
  imports Codec
begin

text \<open>
  \<^verbatim>\<open>src/src/phala/ulid.ts\<close>: the monotonic identifier generator.  The clock and the random bytes are arguments of a call.  The
  result: identifiers have 26 characters of the alphabet and, as long as the clock does not go back, each is greater than the one
  before it in string order; a clock that does go back breaks the order.
\<close>

section \<open>ulid.ts\<close>

definition ALPHABET :: string where
  "ALPHABET = ''0123456789ABCDEFGHJKMNPQRSTVWXYZ''"

definition TIME_CHARS :: nat where
  "TIME_CHARS = 10"

definition RANDOM_CHARS :: nat where
  "RANDOM_CHARS = 16"

definition MAX_TIME :: int where
  "MAX_TIME = 281474976710655"

text \<open>\<^verbatim>\<open>Number.isInteger\<close>, with the integer.\<close>

definition intOf :: "jsnum \<Rightarrow> int option" where
  "intOf n = (case n of Fin r \<Rightarrow> if snd (quotient_of r) = 1 then Some (fst (quotient_of r)) else None | _ \<Rightarrow> None)"

fun encodeDigits :: "nat \<Rightarrow> nat \<Rightarrow> string \<Rightarrow> string" where
  "encodeDigits 0 v out = out"
| "encodeDigits (Suc i) v out = encodeDigits i (v div 32) (ALPHABET ! (v mod 32) # out)"

definition encodeTime :: "jsnum \<Rightarrow> string res" where
  "encodeTime ms = (case intOf ms of
       None \<Rightarrow> Inl RangeError
     | Some i \<Rightarrow> if i < 0 \<or> i > MAX_TIME then Inl RangeError else Inr (encodeDigits TIME_CHARS (nat i) []))"

definition randomChars :: "bytes \<Rightarrow> string" where
  "randomChars bs = map (\<lambda>b. ALPHABET ! (unat b mod 32)) (take RANDOM_CHARS bs)"

text \<open>The loop from the last character to the first, on the reversed string; \<open>None\<close> is the end of the loop.  A character that is
  not in the alphabet has index -1.\<close>

fun incrementRev :: "string \<Rightarrow> string option" where
  "incrementRev [] = None"
| "incrementRev (c # cs) =
     (case indexOf c ALPHABET of
        None \<Rightarrow> Some (ALPHABET ! 0 # cs)
      | Some index \<Rightarrow> if index < length ALPHABET - 1 then Some (ALPHABET ! (index + 1) # cs)
                   else map_option ((#) (ALPHABET ! 0)) (incrementRev cs))"

definition increment :: "string \<Rightarrow> string res" where
  "increment chars = (case incrementRev (rev chars) of
       None \<Rightarrow> Inl (Error ''ulid: randomness overflow within a single millisecond'')
     | Some r \<Rightarrow> Inr (rev r))"

record UlidState =
  lastTime :: jsnum
  lastRandom :: string

definition createUlid :: UlidState where
  "createUlid = \<lparr>lastTime = Fin (- 1), lastRandom = []\<rparr>"

text \<open>One call.  The state is updated before the time is encoded, so also when that throws.\<close>

definition ulid_next :: "jsnum \<Rightarrow> bytes \<Rightarrow> UlidState \<Rightarrow> string res \<times> UlidState" where
  "ulid_next time random st =
     (if js_num_eq time (lastTime st)
      then (case increment (lastRandom st) of
          Inl e \<Rightarrow> (Inl e, st)
        | Inr r \<Rightarrow> (rbind (encodeTime time) (\<lambda>t. Inr (t @ r)), st\<lparr>lastRandom := r\<rparr>))
      else let st' = \<lparr>lastTime = time, lastRandom = randomChars random\<rparr>
           in (rbind (encodeTime time) (\<lambda>t. Inr (t @ lastRandom st')), st'))"

section \<open>Digits\<close>

text \<open>A string of the alphabet is a list of base-32 digits.\<close>

definition chars :: "nat list \<Rightarrow> string" where
  "chars ds = map (\<lambda>d. ALPHABET ! d) ds"

definition digits :: "nat list \<Rightarrow> bool" where
  "digits ds = (\<forall>d \<in> set ds. d < 32)"

fun val :: "nat list \<Rightarrow> nat" where
  "val [] = 0"
| "val (d # ds) = d * 32 ^ length ds + val ds"

lemma length_ALPHABET [simp]: "length ALPHABET = 32"
  by (simp add: ALPHABET_def)

lemma distinct_ALPHABET: "distinct ALPHABET"
  by (simp add: ALPHABET_def)

lemma ALPHABET_table: "sorted_wrt (\<lambda>a b. (of_char a :: nat) < of_char b) ALPHABET"
  by code_simp

lemma ALPHABET_less: "i < 32 \<Longrightarrow> j < 32 \<Longrightarrow> (of_char (ALPHABET ! i) :: nat) < of_char (ALPHABET ! j) \<longleftrightarrow> i < j"
  using ALPHABET_table unfolding sorted_wrt_iff_nth_less length_ALPHABET
  by (metis linorder_neqE_nat order_less_asym order_less_irrefl)

lemma ALPHABET_key: "i < 32 \<Longrightarrow> utf16Key (ALPHABET ! i) = of_char (ALPHABET ! i)"
proof -
  have "\<forall>c\<in>set ALPHABET. (of_char c :: nat) < 128" by code_simp
  then show "i < 32 \<Longrightarrow> utf16Key (ALPHABET ! i) = of_char (ALPHABET ! i)" by (intro utf16Key_low) (simp add: length_ALPHABET)
qed

lemma ALPHABET_inj: "i < 32 \<Longrightarrow> j < 32 \<Longrightarrow> ALPHABET ! i = ALPHABET ! j \<longleftrightarrow> i = j"
  using distinct_ALPHABET by (simp add: nth_eq_iff_index_eq)

lemma val_bound: "digits ds \<Longrightarrow> val ds < 32 ^ length ds"
proof (induction ds)
  case (Cons d ds)
  then have "d < 32" "val ds < 32 ^ length ds" by (auto simp: digits_def)
  then have "d * 32 ^ length ds + val ds < (d + 1) * 32 ^ length ds" by (simp add: algebra_simps)
  also have "\<dots> \<le> 32 * 32 ^ length ds" using \<open>d < 32\<close> by (intro mult_right_mono) auto
  finally show ?case by simp
qed (simp add: digits_def)

lemma val_append: "val (xs @ ys) = val xs * 32 ^ length ys + val ys"
  by (induction xs) (auto simp: power_add algebra_simps)

lemma digits_simps [simp]: "digits [] = True" "digits (d # ds) = (d < 32 \<and> digits ds)"
  "digits (xs @ ys) = (digits xs \<and> digits ys)" "digits (rev xs) = digits xs"
  by (auto simp: digits_def)

text \<open>String order on identifiers of one length is the order of their values.\<close>

lemma strLe_chars:
  "length xs = length ys \<Longrightarrow> digits xs \<Longrightarrow> digits ys \<Longrightarrow> strLe (chars xs) (chars ys) \<longleftrightarrow> val xs \<le> val ys"
proof (induction xs ys rule: list_induct2)
  case (Cons x xs y ys)
  then have b: "x < 32" "y < 32" "val xs < 32 ^ length xs" "val ys < 32 ^ length xs"
    using val_bound [of xs] val_bound [of ys] by auto
  consider "x < y" | "x = y" | "y < x" by linarith
  then show ?case
  proof cases
    case 1
    then have "(x + 1) * 32 ^ length xs \<le> y * 32 ^ length xs" by (intro mult_right_mono) auto
    with 1 b Cons.hyps show ?thesis by (simp add: chars_def ALPHABET_key ALPHABET_less algebra_simps)
  next
    case 2
    with Cons b show ?thesis by (simp add: chars_def)
  next
    case 3
    then have "(y + 1) * 32 ^ length xs \<le> x * 32 ^ length xs" by (intro mult_right_mono) auto
    with 3 b Cons.hyps show ?thesis by (simp add: chars_def ALPHABET_key ALPHABET_less ALPHABET_inj algebra_simps)
  qed
qed (simp add: chars_def)

lemma chars_inj:
  "length xs = length ys \<Longrightarrow> digits xs \<Longrightarrow> digits ys \<Longrightarrow> chars xs = chars ys \<longleftrightarrow> xs = ys"
  by (induction xs ys rule: list_induct2) (auto simp: chars_def ALPHABET_inj)

lemma encodeDigits_val:
  "\<exists>ds. encodeDigits n v out = chars ds @ out \<and> digits ds \<and> length ds = n \<and> val ds = v mod 32 ^ n"
proof (induction n arbitrary: v out)
  case 0
  show ?case by (simp add: chars_def)
next
  case (Suc n)
  obtain ds where ds: "encodeDigits n (v div 32) (ALPHABET ! (v mod 32) # out) = chars ds @ ALPHABET ! (v mod 32) # out"
    "digits ds" "length ds = n" "val ds = v div 32 mod 32 ^ n" using Suc.IH by blast
  have "val (ds @ [v mod 32]) = v mod 32 ^ Suc n"
    using ds(4) by (simp add: val_append mod_mult2_eq [symmetric] mult.commute)
  with ds show ?case by (intro exI [of _ "ds @ [v mod 32]"]) (simp add: chars_def)
qed

lemma incrementRev_val:
  assumes "digits ds" "incrementRev (chars ds) = Some r"
  shows "\<exists>es. r = chars es \<and> digits es \<and> length es = length ds \<and> val (rev es) = Suc (val (rev ds))"
  using assms
proof (induction ds arbitrary: r)
  case Nil
  then show ?case by (simp add: chars_def)
next
  case (Cons d ds)
  have i: "indexOf (ALPHABET ! d) ALPHABET = Some d" using Cons.prems(1) indexOf_nth [OF distinct_ALPHABET] by simp
  show ?case
  proof (cases "d < 31")
    case True
    with Cons.prems i have "r = chars (Suc d # ds)" by (simp add: chars_def)
    with True Cons.prems(1) show ?thesis by (intro exI [of _ "Suc d # ds"]) (simp add: val_append)
  next
    case False
    with Cons.prems(1) have d: "d = 31" by simp
    with Cons.prems i obtain r' where r': "incrementRev (chars ds) = Some r'" "r = ALPHABET ! 0 # r'"
      by (auto simp: chars_def)
    from Cons.IH [OF _ r'(1)] Cons.prems(1) obtain es where
      "r' = chars es" "digits es" "length es = length ds" "val (rev es) = Suc (val (rev ds))" by auto
    with r'(2) d show ?thesis by (intro exI [of _ "0 # es"]) (simp add: chars_def val_append)
  qed
qed

lemma increment_val:
  assumes "digits ds" "increment (chars ds) = Inr r"
  shows "\<exists>es. r = chars es \<and> digits es \<and> length es = length ds \<and> val es = Suc (val ds)"
proof -
  have "rev (chars ds) = chars (rev ds)" by (simp add: chars_def rev_map)
  with assms(2) obtain q where q: "incrementRev (chars (rev ds)) = Some q" "r = rev q"
    by (auto simp: increment_def split: option.splits)
  from incrementRev_val [OF _ q(1)] assms(1) obtain es where
    "q = chars es" "digits es" "length es = length ds" "val (rev es) = Suc (val ds)" by auto
  with q(2) show ?thesis by (intro exI [of _ "rev es"]) (simp add: chars_def rev_map)
qed

lemma encodeTime_val:
  assumes "encodeTime t = Inr s"
  shows "\<exists>i ds. intOf t = Some i \<and> 0 \<le> i \<and> s = chars ds \<and> digits ds \<and> length ds = 10 \<and> int (val ds) = i"
proof -
  from assms obtain i where i: "intOf t = Some i" "0 \<le> i" "i \<le> MAX_TIME" "s = encodeDigits 10 (nat i) []"
    by (auto simp: encodeTime_def TIME_CHARS_def not_less split: option.splits if_splits)
  obtain ds where ds: "encodeDigits 10 (nat i) [] = chars ds @ []" "digits ds" "length ds = 10" "val ds = nat i mod 32 ^ 10"
    using encodeDigits_val by blast
  have "nat i < 32 ^ 10" using i(3) by (simp add: MAX_TIME_def)
  with i ds show ?thesis by auto
qed

lemma randomChars_digits: "\<exists>ds. randomChars bs = chars ds \<and> digits ds \<and> length ds = min (length bs) 16"
  by (intro exI [of _ "map (\<lambda>b. unat b mod 32) (take RANDOM_CHARS bs)"])
    (auto simp: randomChars_def chars_def digits_def RANDOM_CHARS_def)

section \<open>Runs\<close>

text \<open>The state after a call holds the time and the random part of the last identifier.\<close>

definition idOf :: "nat list \<Rightarrow> nat list \<Rightarrow> nat" where
  "idOf t r = val t * 32 ^ 16 + val r"

lemma ulid_next_shape:
  assumes "ulid_next t bs st = (Inr s, st')" "length bs = 16"
    and "js_num_eq t (lastTime st) \<Longrightarrow> \<exists>ds. lastRandom st = chars ds \<and> digits ds \<and> length ds = 16"
  shows "\<exists>i td rd. intOf t = Some i \<and> s = chars (td @ rd) \<and> digits td \<and> digits rd \<and> length td = 10 \<and> length rd = 16
    \<and> int (val td) = i \<and> lastTime st' = t \<and> lastRandom st' = chars rd
    \<and> (js_num_eq t (lastTime st) \<longrightarrow> (\<forall>ds. digits ds \<longrightarrow> length ds = 16 \<longrightarrow> lastRandom st = chars ds \<longrightarrow> val rd = Suc (val ds)))"
proof (cases "js_num_eq t (lastTime st)")
  case True
  from assms(3) [OF True] obtain ds where ds: "lastRandom st = chars ds" "digits ds" "length ds = 16" by blast
  from assms(1) True obtain r u where r: "increment (lastRandom st) = Inr r" "encodeTime t = Inr u" "s = u @ r"
    "st' = st\<lparr>lastRandom := r\<rparr>"
    by (auto simp: ulid_next_def rbind_Inr_iff split: sum.splits)
  obtain es where es: "r = chars es" "digits es" "length es = 16" "val es = Suc (val ds)"
    using increment_val [OF ds(2)] r(1) ds by auto
  moreover have "lastTime st = t" using True by (simp add: js_num_eq_def)
  moreover have "val es = Suc (val ds')" if "digits ds'" "length ds' = 16" "lastRandom st = chars ds'" for ds'
    using that ds es(4) chars_inj [of ds ds'] by simp
  ultimately show ?thesis using encodeTime_val [OF r(2)] r(3,4)
    by (fastforce simp: chars_def)
next
  case False
  from assms(1) False obtain u where u: "encodeTime t = Inr u" "s = u @ randomChars bs"
    "st' = \<lparr>lastTime = t, lastRandom = randomChars bs\<rparr>"
    by (auto simp: ulid_next_def rbind_Inr_iff Let_def)
  obtain rd where "randomChars bs = chars rd" "digits rd" "length rd = 16" using randomChars_digits [of bs] assms(2) by auto
  with encodeTime_val [OF u(1)] u False show ?thesis by (fastforce simp: chars_def)
qed

text \<open>A sequence of calls; the results of those that return.\<close>

fun ulids :: "(jsnum \<times> bytes) list \<Rightarrow> UlidState \<Rightarrow> string res list" where
  "ulids [] st = []"
| "ulids ((t, bs) # calls) st = (let (r, st') = ulid_next t bs st in r # ulids calls st')"

lemma intOf_Some: "intOf t = Some i \<Longrightarrow> t = Fin (of_int i)"
proof (cases t)
  case (Fin q)
  assume "intOf t = Some i"
  with Fin have "quotient_of q = (i, 1)" by (cases "quotient_of q") (auto simp: intOf_def split: if_splits)
  from quotient_of_div [OF this] Fin show ?thesis by simp
qed (simp_all add: intOf_def)

definition at_val :: "UlidState \<Rightarrow> nat \<Rightarrow> bool" where
  "at_val st v = (\<exists>i rd. intOf (lastTime st) = Some i \<and> 0 \<le> i \<and> lastRandom st = chars rd \<and> digits rd \<and> length rd = 16
     \<and> v = nat i * 32 ^ 16 + val rd)"

lemma ulid_next_grows:
  assumes "ulid_next t bs st = (Inr s, st')" "length bs = 16" "at_val st v"
    and "the (intOf (lastTime st)) \<le> the (intOf t)"
  shows "\<exists>ds. s = chars ds \<and> digits ds \<and> length ds = 26 \<and> v < val ds \<and> at_val st' (val ds) \<and> lastTime st' = t"
proof -
  from assms(3) obtain i rd0 where st: "intOf (lastTime st) = Some i" "0 \<le> i" "lastRandom st = chars rd0" "digits rd0" "length rd0 = 16"
    "v = nat i * 32 ^ 16 + val rd0" by (auto simp: at_val_def)
  obtain j td rd where n: "intOf t = Some j" "s = chars (td @ rd)" "digits td" "digits rd" "length td = 10" "length rd = 16"
    "int (val td) = j" "lastTime st' = t" "lastRandom st' = chars rd"
    "js_num_eq t (lastTime st) \<longrightarrow> (\<forall>ds. digits ds \<longrightarrow> length ds = 16 \<longrightarrow> lastRandom st = chars ds \<longrightarrow> val rd = Suc (val ds))"
    using ulid_next_shape [OF assms(1,2)] st(3-5) by blast
  have "v < val td * 32 ^ 16 + val rd"
  proof (cases "js_num_eq t (lastTime st)")
    case True
    with n(1) st(1) have "j = i" by (auto simp: js_num_eq_def)
    with True n(7,10) st(3-6) show ?thesis by auto
  next
    case False
    with intOf_Some [OF n(1)] intOf_Some [OF st(1)] have "i \<noteq> j" by (auto simp: js_num_eq_def)
    with assms(4) n(1,7) st(1,2) have "nat i + 1 \<le> val td" by auto
    then have "(nat i + 1) * 32 ^ 16 \<le> val td * 32 ^ 16" by (rule mult_right_mono) simp
    with st(6) val_bound [OF st(4)] st(5) show ?thesis by (simp add: algebra_simps)
  qed
  moreover have "val (td @ rd) = val td * 32 ^ 16 + val rd" by (simp add: val_append n(6))
  moreover have "at_val st' (val td * 32 ^ 16 + val rd)" using n by (auto simp: at_val_def)
  ultimately show ?thesis using n by (intro exI [of _ "td @ rd"]) simp
qed

definition notBefore :: "jsnum \<times> bytes \<Rightarrow> jsnum \<times> bytes \<Rightarrow> bool" where
  "notBefore c d = (the (intOf (fst c)) \<le> the (intOf (fst d)))"

lemma ulids_grow:
  assumes "ulids calls st = map Inr ids" "at_val st v" "\<forall>c \<in> set calls. length (snd c) = 16"
    and "successively notBefore ((lastTime st, []) # calls)"
  shows "\<exists>dss. ids = map chars dss \<and> (\<forall>ds \<in> set dss. digits ds \<and> length ds = 26) \<and> sorted_wrt (<) (v # map val dss)"
  using assms
proof (induction calls arbitrary: st ids v)
  case (Cons c calls)
  obtain t bs where c: "c = (t, bs)" by fastforce
  obtain r st' where n: "ulid_next t bs st = (r, st')" by fastforce
  from Cons.prems(1) c n obtain s ids' where ids: "ids = s # ids'" "r = Inr s" "ulids calls st' = map Inr ids'"
    by (cases ids) auto
  have le: "the (intOf (lastTime st)) \<le> the (intOf t)" and bs: "length bs = 16"
    using Cons.prems(3,4) c by (auto simp: notBefore_def)
  obtain ds where ds: "s = chars ds" "digits ds" "length ds = 26" "v < val ds" "at_val st' (val ds)" "lastTime st' = t"
    using ulid_next_grows [OF n [unfolded ids(2)] bs Cons.prems(2) le] by blast
  have "successively notBefore ((lastTime st', []) # calls)"
    using Cons.prems(4) ds(6) c by (cases calls) (auto simp: notBefore_def)
  from Cons.IH [OF ids(3) ds(5) _ this] Cons.prems(3) obtain dss where
    "ids' = map chars dss" "\<forall>ds \<in> set dss. digits ds \<and> length ds = 26" "sorted_wrt (<) (val ds # map val dss)" by auto
  with ids(1) ds(1-4) show ?case by (intro exI [of _ "ds # dss"]) auto
qed simp

section \<open>Properties\<close>

text \<open>
  Identifiers are monotonic: any sequence of calls of a fresh generator that all return, with 16 random bytes each and a
  clock that never goes back, gives identifiers that strictly increase in string order; each has 26 characters.
\<close>

theorem ulid_monotonic:
  assumes "ulids calls createUlid = map Inr ids" "\<forall>c \<in> set calls. length (snd c) = 16" "successively notBefore calls"
  shows "sorted_wrt (\<lambda>a b. strLe a b \<and> a \<noteq> b) ids \<and> (\<forall>s \<in> set ids. length s = 26)"
proof (cases calls)
  case Nil
  with assms(1) show ?thesis by simp
next
  case (Cons c rest)
  obtain t bs where c: "c = (t, bs)" by fastforce
  obtain r st' where n: "ulid_next t bs createUlid = (r, st')" by fastforce
  from assms(1) Cons c n obtain s ids' where ids: "ids = s # ids'" "r = Inr s" "ulids rest st' = map Inr ids'"
    by (cases ids) auto
  have "\<not> js_num_eq t (lastTime createUlid)"
    using n ids(2) by (auto simp: ulid_next_def createUlid_def increment_def)
  with ulid_next_shape [OF n [unfolded ids(2)]] assms(2) Cons c obtain i td rd where sh:
    "intOf t = Some i" "s = chars (td @ rd)" "digits td" "digits rd" "length td = 10" "length rd = 16"
    "int (val td) = i" "lastTime st' = t" "lastRandom st' = chars rd" by auto
  then have "at_val st' (val (td @ rd))" by (auto simp: at_val_def val_append)
  moreover have "successively notBefore ((lastTime st', []) # rest)"
    using assms(3) Cons c sh(8) by (cases rest) (auto simp: notBefore_def)
  ultimately obtain dss where dss: "ids' = map chars dss" "\<forall>ds \<in> set dss. digits ds \<and> length ds = 26"
    "sorted_wrt (<) (val (td @ rd) # map val dss)"
    using ulids_grow [OF ids(3)] assms(2) Cons by fastforce
  let ?all = "(td @ rd) # dss"
  have all: "ids = map chars ?all" "\<forall>ds \<in> set ?all. digits ds \<and> length ds = 26" using ids(1) sh dss(1,2) by auto
  have "sorted_wrt (\<lambda>a b. strLe (chars a) (chars b) \<and> chars a \<noteq> chars b) ?all"
  proof (rule sorted_wrt_mono_rel)
    show "sorted_wrt (\<lambda>a b. val a < val b) ?all" using dss(3) by (simp add: sorted_wrt_map)
    fix a b assume "a \<in> set ?all" "b \<in> set ?all" "val a < val b"
    with all(2) show "strLe (chars a) (chars b) \<and> chars a \<noteq> chars b"
      by (metis strLe_chars chars_inj less_imp_le less_irrefl)
  qed
  then have "sorted_wrt (\<lambda>a b. strLe a b \<and> a \<noteq> b) ids" unfolding all(1) sorted_wrt_map .
  moreover have "\<forall>s \<in> set ids. length s = 26" using all by (auto simp: chars_def)
  ultimately show ?thesis ..
qed

theorem ulid_monotonic_witness:
  "\<exists>ids. ulids [(Fin 5, replicate 16 31), (Fin 6, replicate 16 0), (Fin 6, replicate 16 9)] createUlid = map Inr ids
    \<and> sorted_wrt (\<lambda>a b. strLe a b \<and> a \<noteq> b) ids \<and> length ids = 3"
proof -
  let ?calls = "[(Fin 5, replicate 16 31), (Fin 6, replicate 16 0), (Fin 6, replicate 16 9)] :: (jsnum \<times> bytes) list"
  let ?ids = "[''0000000005ZZZZZZZZZZZZZZZZ'', ''00000000060000000000000000'', ''00000000060000000000000001'']"
  have "ulids ?calls createUlid = map Inr ?ids" by code_simp
  moreover have "successively notBefore ?calls" by code_simp
  ultimately show ?thesis using ulid_monotonic [of ?calls ?ids] by (intro exI [of _ ?ids]) simp
qed

text \<open>A clock that goes back by one millisecond gives a smaller identifier.\<close>

lemma ulid_clock_back:
  "ulids [(Fin 6, replicate 16 0), (Fin 5, replicate 16 0)] createUlid
     = [Inr ''00000000060000000000000000'', Inr ''00000000050000000000000000'']"
  by code_simp

end
