(* ===== verification/Payloads.thy ===== *)
theory Payloads
  imports Request
begin

text \<open>
  \<^verbatim>\<open>src/src/platform/payloads.ts\<close>: the typed payload families and their strict validation.  The result characterises what a valid
  payload is; the one gap in the strictness is that the \<^verbatim>\<open>in\<close> operator also finds the names every object inherits.
\<close>

section \<open>payloads.ts\<close>

datatype FieldType = FString | FDigest | FInt | FBool | FTimestamp | FStrings | FDigests | FEnum string

record FieldSpec =
  fs_type :: FieldType
  fs_required :: bool

record PayloadSchema =
  sch_id :: string
  sch_event_type :: string
  sch_fields :: "(string \<times> FieldSpec) list"

definition reqd :: "FieldType \<Rightarrow> FieldSpec" where
  "reqd t = \<lparr>fs_type = t, fs_required = True\<rparr>"

definition opt :: "FieldType \<Rightarrow> FieldSpec" where
  "opt t = \<lparr>fs_type = t, fs_required = False\<rparr>"

definition FAMILIES :: "(string \<times> (string \<times> FieldSpec) list) list" where
  "FAMILIES = [
     (''ai.inference'', [(''model'', reqd FString), (''model_version'', reqd FString), (''weights_digest'', opt FDigest),
        (''input_commitment'', reqd FDigest), (''output_commitment'', reqd FDigest), (''params_digest'', opt FDigest)]),
     (''scm.commit'', [(''repository'', reqd FString), (''commit'', reqd FString), (''tree'', opt FString),
        (''branch'', opt FString), (''author'', reqd FString), (''committer'', opt FString), (''signed'', reqd FBool)]),
     (''build.started'', [(''build_id'', reqd FString), (''builder_id'', reqd FString),
        (''source_repository'', reqd FString), (''source_commit'', reqd FString)]),
     (''build.completed'', [(''build_id'', reqd FString), (''builder_id'', reqd FString),
        (''source_repository'', reqd FString), (''source_commit'', reqd FString),
        (''result'', reqd (FEnum ''success|failure'')), (''artifact_digests'', reqd FDigests)]),
     (''artifact.created'', [(''artifact_name'', reqd FString), (''artifact_digest'', reqd FDigest),
        (''build_id'', opt FString), (''size_bytes'', opt FInt)]),
     (''artifact.published'', [(''artifact_name'', reqd FString), (''artifact_digest'', reqd FDigest),
        (''registry'', reqd FString), (''reference'', opt FString)]),
     (''dependency.inventory'', [(''artifact_digest'', reqd FDigest), (''format'', reqd (FEnum ''spdx|cyclonedx|cool'')),
        (''sbom_digest'', reqd FDigest), (''component_count'', reqd FInt)]),
     (''release.approved'', [(''release_id'', reqd FString), (''artifact_digest'', reqd FDigest),
        (''approver'', reqd FString), (''policy_ref'', opt FString)]),
     (''release.rejected'', [(''release_id'', reqd FString), (''artifact_digest'', reqd FDigest),
        (''approver'', reqd FString), (''reason'', reqd FString)]),
     (''deployment.requested'', [(''deployment_id'', reqd FString), (''artifact_digest'', reqd FDigest),
        (''environment'', reqd FString), (''target'', reqd FString)]),
     (''deployment.completed'', [(''deployment_id'', reqd FString), (''artifact_digest'', reqd FDigest),
        (''environment'', reqd FString), (''target'', reqd FString),
        (''outcome'', reqd (FEnum ''succeeded|failed|rejected'')), (''confirmed'', reqd FBool)]),
     (''identity.authenticated'', [(''subject'', reqd FString), (''issuer'', reqd FString), (''method'', reqd FString),
        (''assurance'', opt FString)]),
     (''identity.credential_used'', [(''credential_ref'', reqd FString), (''subject'', reqd FString),
        (''issuer'', reqd FString)]),
     (''authorization.evaluated'', [(''subject'', reqd FString), (''permission'', reqd FString),
        (''resource_ref'', reqd FString), (''environment'', opt FString), (''decision'', reqd (FEnum ''allow|deny''))]),
     (''authorization.denied'', [(''subject'', reqd FString), (''permission'', reqd FString),
        (''resource_ref'', reqd FString), (''reason'', reqd FString)]),
     (''secret.accessed'', [(''secret_ref'', reqd FString), (''accessor'', reqd FString), (''vault'', reqd FString)]),
     (''key.used'', [(''key_ref'', reqd FString), (''purpose'', reqd FString), (''operation'', reqd FString)]),
     (''certificate.issued'', [(''serial'', reqd FString), (''issuer'', reqd FString), (''subject'', reqd FString),
        (''fingerprint'', reqd FDigest), (''not_after'', reqd FTimestamp)]),
     (''certificate.revoked'', [(''serial'', reqd FString), (''issuer'', reqd FString), (''reason'', reqd FString)]),
     (''credential.lifecycle'', [(''credential_ref'', reqd FString), (''from_state'', reqd FString),
        (''to_state'', reqd FString), (''provider'', reqd FString), (''confirmed'', reqd FBool)]),
     (''configuration.changed'', [(''config_ref'', reqd FString), (''before_digest'', opt FDigest),
        (''after_digest'', reqd FDigest), (''change_id'', opt FString), (''approval_ref'', opt FString)]),
     (''configuration.drift_detected'', [(''config_ref'', reqd FString), (''expected_digest'', reqd FDigest),
        (''observed_digest'', reqd FDigest)]),
     (''rollout.stage'', [(''rollout_id'', reqd FString), (''artifact_digest'', reqd FDigest), (''stage'', reqd FString),
        (''percent'', reqd FInt), (''health'', reqd (FEnum ''pass|fail|unknown'')),
        (''action'', reqd (FEnum ''promote|hold|rollback''))]),
     (''runtime.process'', [(''workload'', reqd FString), (''process'', reqd FString), (''executable_digest'', opt FDigest),
        (''pid'', opt FInt)]),
     (''runtime.network'', [(''workload'', reqd FString), (''destination'', reqd FString), (''port'', reqd FInt),
        (''protocol'', reqd FString)]),
     (''runtime.privilege_change'', [(''workload'', reqd FString), (''from'', reqd FString), (''to'', reqd FString)]),
     (''runtime.heartbeat'', [(''source'', reqd FString), (''sequence'', reqd FInt)]),
     (''incident.opened'', [(''incident_id'', reqd FString), (''title'', reqd FString),
        (''severity'', reqd (FEnum ''low|medium|high|critical''))]),
     (''incident.evidence_added'', [(''incident_id'', reqd FString), (''evidence_ref'', reqd FDigest),
        (''label'', reqd (FEnum ''verified|source-asserted|inferred|unknown|contradicted|missing''))]),
     (''incident.closed'', [(''incident_id'', reqd FString), (''resolution'', reqd FString)]),
     (''principal.enrolled'', [(''principal_id'', reqd FString), (''kind'', reqd (FEnum ''agent|human|service|workload'')),
        (''issuer'', reqd FString), (''basis'', reqd (FEnum ''self_asserted|issuer_attested|hardware_bound|federated'')),
        (''record_digest'', reqd FDigest)]),
     (''principal.key_rotated'', [(''principal_id'', reqd FString), (''key_id'', reqd FString),
        (''retired_key_id'', opt FString), (''event_digest'', reqd FDigest)]),
     (''principal.status_changed'', [(''principal_id'', reqd FString),
        (''status'', reqd (FEnum ''active|suspended|revoked|decommissioned'')), (''reason'', opt FString),
        (''event_digest'', reqd FDigest)]),
     (''delegation.granted'', [(''delegation_id'', reqd FString), (''delegator'', reqd FString),
        (''delegate'', reqd FString), (''audience'', reqd FString), (''expires_at'', reqd FTimestamp),
        (''parent'', opt FString), (''delegation_digest'', reqd FDigest)]),
     (''delegation.revoked'', [(''delegation_id'', reqd FString), (''revoked_by'', reqd FString),
        (''reason'', reqd FString)]),
     (''authorization.requested'', [(''request_id'', reqd FString), (''request_digest'', reqd FDigest),
        (''principal'', reqd FString), (''action'', reqd FString), (''resource'', reqd FString),
        (''audience'', reqd FString), (''policy_selector'', reqd FString), (''params_commitment'', reqd FDigest),
        (''expires_at'', reqd FTimestamp), (''delegation'', opt FString)]),
     (''authorization.decided'', [(''decision_id'', reqd FString),
        (''decision'', reqd (FEnum ''permit|deny|indeterminate|error'')), (''request_id'', reqd FString),
        (''request_digest'', reqd FDigest), (''policy_digest'', reqd FDigest), (''evaluator'', reqd FString),
        (''assurance'', reqd (FEnum ''trusted|reproducible'')), (''decision_digest'', reqd FDigest)]),
     (''policy.updated'', [(''policy_id'', reqd FString), (''version'', reqd FString), (''policy_digest'', reqd FDigest),
        (''previous_digest'', opt FDigest)]),
     (''execution.started'', [(''workload_id'', reqd FString), (''artifact_digest'', reqd FDigest),
        (''config_digest'', reqd FDigest), (''platform'', reqd FString)]),
     (''tool.invoked'', [(''tool'', reqd FString), (''request_id'', reqd FString), (''decision_id'', opt FString)]),
     (''external.confirmed'', [(''confirmation_id'', reqd FString), (''target'', reqd FString),
        (''request_id'', reqd FString), (''decision_id'', opt FString),
        (''outcome'', reqd (FEnum ''completed|rejected|failed|unknown|timed_out'')), (''reason'', reqd FString),
        (''response_digest'', opt FDigest), (''confirmation_digest'', reqd FDigest)]),
     (''attestation.recorded'', [(''platform'', reqd (FEnum ''aws-nitro|intel-tdx|amd-sev-snp|nvidia-cc|phala-dstack'')),
        (''document_digest'', reqd FDigest),
        (''outcome'', reqd (FEnum ''verified|invalid|unsupported|stale|incomplete|indeterminate''))]),
     (''receipt.published'', [(''receipt_digest'', reqd FDigest), (''log_id'', reqd FString), (''leaf_index'', reqd FInt)]),
     (''checkpoint.signed'', [(''log_id'', reqd FString), (''tree_size'', reqd FInt), (''root_hash'', reqd FDigest)]),
     (''witness.signed'', [(''witness_id'', reqd FString), (''log_id'', reqd FString), (''tree_size'', reqd FInt),
        (''root_hash'', reqd FDigest)]),
     (''incident.annotated'', [(''incident_id'', reqd FString), (''annotation_digest'', reqd FDigest),
        (''analyst'', reqd FString)]),
     (''legacy.receipt'', [(''legacy_schema'', reqd (FEnum ''cool.receipt.v2'')), (''record_id'', reqd FString),
        (''receipt_digest'', reqd FDigest)]),
     (''policy.lifecycle'', [(''policy_id'', reqd FString), (''version'', reqd FString), (''from_state'', reqd FString),
        (''to_state'', reqd FString), (''actor'', reqd FString)]),
     (''enforcement.requested'', [(''request_id'', reqd FString), (''adapter'', reqd FString), (''action'', reqd FString),
        (''target'', reqd FString), (''dry_run'', reqd FBool), (''decision_ref'', reqd FDigest)]),
     (''enforcement.result'', [(''request_id'', reqd FString), (''adapter'', reqd FString),
        (''state'', reqd (FEnum ''not_executed|accepted|completed|failed|rejected|timed_out|unknown'')),
        (''confirmed'', reqd FBool), (''external_ref'', opt FString)])]"

text \<open>The pattern \<^verbatim>\<open>/(secret|password|passphrase|token|private_?key|credential)(_value)?$/i\<close>.\<close>

definition toLowerChar :: "char \<Rightarrow> char" where
  "toLowerChar c = (let n = of_char c :: nat in if 65 \<le> n \<and> n \<le> 90 then char_of (n + 32) else c)"

definition endsWith :: "string \<Rightarrow> string \<Rightarrow> bool" where
  "endsWith s t = startsWith (rev s) (rev t)"

definition SENSITIVE_NAME :: "string \<Rightarrow> bool" where
  "SENSITIVE_NAME name =
     (let n = map toLowerChar name;
          base = (if endsWith n ''_value'' then take (length n - 6) n else n)
      in list_ex (endsWith base) [''secret'', ''password'', ''passphrase'', ''token'', ''private_key'', ''privatekey'', ''credential''])"

record PayloadRegistry =
  rg_schemas :: "(string \<times> PayloadSchema) list"

definition newRegistry :: PayloadRegistry where
  "newRegistry = \<lparr>rg_schemas = []\<rparr>"

definition rg_register :: "PayloadSchema \<Rightarrow> PayloadRegistry \<Rightarrow> PayloadRegistry res" where
  "rg_register schema reg =
     (if map_of (rg_schemas reg) (sch_id schema) \<noteq> None
      then Inl (Error (''payload schema '' @ sch_id schema @ '' is already registered''))
      else Inr (reg\<lparr>rg_schemas := mput (sch_id schema) schema (rg_schemas reg)\<rparr>))"

definition standard :: "PayloadRegistry res" where
  "standard = fold (\<lambda>(ty, flds) r. rbind r (rg_register \<lparr>sch_id = ty @ ''.v1'', sch_event_type = ty, sch_fields = flds\<rparr>))
     FAMILIES (Inr newRegistry)"

definition rg_get :: "PayloadRegistry \<Rightarrow> string \<Rightarrow> PayloadSchema option" where
  "rg_get reg i = map_of (rg_schemas reg) i"

text \<open>\<^verbatim>\<open>Number(/\.v(\d+)$/.exec(id)?.[1] ?? 0)\<close>.\<close>

definition isDigitChar :: "char \<Rightarrow> bool" where
  "isDigitChar c = (let n = of_char c :: nat in 48 \<le> n \<and> n \<le> 57)"

definition schemaVersion :: "string \<Rightarrow> nat" where
  "schemaVersion i =
     (let ds = takeWhile isDigitChar (rev i); rest = dropWhile isDigitChar (rev i)
      in if ds \<noteq> [] \<and> startsWith rest (rev ''.v'') then fold (\<lambda>c n. 10 * n + (of_char c - 48)) (rev ds) 0 else 0)"

definition schemaFor :: "PayloadRegistry \<Rightarrow> string \<Rightarrow> string option" where
  "schemaFor reg eventType =
     fold (\<lambda>(_, s) best. if sch_event_type s = eventType
             \<and> (\<not> truthy best \<or> schemaVersion (sch_id s) > schemaVersion (the best)) then Some (sch_id s) else best)
       (rg_schemas reg) None"

definition eventTypes :: "PayloadRegistry \<Rightarrow> string list" where
  "eventTypes reg = sortBy strLe (fold (\<lambda>(_, s). sadd (sch_event_type s)) (rg_schemas reg) [])"

fun splitOn :: "char \<Rightarrow> string \<Rightarrow> string list" where
  "splitOn c [] = [[]]"
| "splitOn c (x # xs) = (if x = c then [] # splitOn c xs else (case splitOn c xs of (w # ws) \<Rightarrow> (x # w) # ws | [] \<Rightarrow> [[x]]))"

definition isDigestVal :: "jsval \<Rightarrow> bool" where
  "isDigestVal v = (case v of JStr s \<Rightarrow> isMultihash s | _ \<Rightarrow> False)"

definition typeProblem :: "env \<Rightarrow> FieldType \<Rightarrow> jsval \<Rightarrow> string option" where
  "typeProblem P ty v = (case ty of
       FString \<Rightarrow> (case v of JStr s \<Rightarrow> if s \<noteq> [] then None else Some ''must be a non-empty string'' | _ \<Rightarrow> Some ''must be a non-empty string'')
     | FDigest \<Rightarrow> if isDigestVal v then None else Some ''must be a mh:sha256: digest''
     | FInt \<Rightarrow> (case v of JNum n \<Rightarrow> if isSafeInteger n then None else Some ''must be an integer'' | _ \<Rightarrow> Some ''must be an integer'')
     | FBool \<Rightarrow> (case v of JBool _ \<Rightarrow> None | _ \<Rightarrow> Some ''must be a boolean'')
     | FTimestamp \<Rightarrow> (case v of JStr s \<Rightarrow> if date_parse P s \<noteq> None then None else Some ''must be an ISO-8601 timestamp''
                    | _ \<Rightarrow> Some ''must be an ISO-8601 timestamp'')
     | FStrings \<Rightarrow> (case v of JArr vs \<Rightarrow> if list_all (\<lambda>x. case x of JStr _ \<Rightarrow> True | _ \<Rightarrow> False) vs then None
                    else Some ''must be an array of strings'' | _ \<Rightarrow> Some ''must be an array of strings'')
     | FDigests \<Rightarrow> (case v of JArr vs \<Rightarrow> if list_all isDigestVal vs then None else Some ''must be an array of digests''
                    | _ \<Rightarrow> Some ''must be an array of digests'')
     | FEnum alts \<Rightarrow> (let allowed = splitOn (CHR ''|'') alts in
         case v of JStr s \<Rightarrow> if s \<in> set allowed then None else Some (''must be one of '' @ join '', '' allowed)
         | _ \<Rightarrow> Some (''must be one of '' @ join '', '' allowed)))"

text \<open>The names every object inherits: \<^verbatim>\<open>in\<close> finds them, and reading one gives a function or an object, which no field type
  accepts (here an empty object stands for it).\<close>

definition INHERITED :: "string list" where
  "INHERITED = [''constructor'', ''__defineGetter__'', ''__defineSetter__'', ''hasOwnProperty'', ''__lookupGetter__'',
     ''__lookupSetter__'', ''isPrototypeOf'', ''propertyIsEnumerable'', ''toString'', ''valueOf'', ''__proto__'', ''toLocaleString'']"

definition readMember :: "(string \<times> jsval) list \<Rightarrow> string \<Rightarrow> jsval" where
  "readMember es name = (case map_of es name of Some v \<Rightarrow> v | None \<Rightarrow> if name \<in> set INHERITED then JObj [] else JUndef)"

text \<open>The entries of a value that is an object and not an array.\<close>

definition entriesOf :: "jsval \<Rightarrow> (string \<times> jsval) list option" where
  "entriesOf v = (case v of JObj es \<Rightarrow> Some es
     | JBytes bs \<Rightarrow> Some (map (\<lambda>i. (showNat i, jInt (uint (bs ! i)))) [0..<length bs])
     | _ \<Rightarrow> None)"

definition fieldProblems :: "env \<Rightarrow> (string \<times> jsval) list \<Rightarrow> string \<times> FieldSpec \<Rightarrow> string list" where
  "fieldProblems P es = (\<lambda>(name, spec).
     let v = readMember es name in
     if v = JUndef \<or> v = JNull then (if fs_required spec then [''missing required field '' @ name] else [])
     else (case typeProblem P (fs_type spec) v of Some bad \<Rightarrow> [name @ '': '' @ bad] | None \<Rightarrow> [])
        @ (if SENSITIVE_NAME name \<and> \<not> isDigestVal v then [name @ '': looks like a secret value; commit it as a digest instead''] else []))"

definition validate :: "env \<Rightarrow> PayloadRegistry \<Rightarrow> string \<Rightarrow> jsval \<Rightarrow> string list" where
  "validate P reg schemaId payload = (case map_of (rg_schemas reg) schemaId of
       None \<Rightarrow> [''unknown payload schema '' @ schemaId]
     | Some schema \<Rightarrow> (case entriesOf payload of
           None \<Rightarrow> [''payload must be an object'']
         | Some es \<Rightarrow>
             map (\<lambda>k. ''unexpected field '' @ k)
               (filter (\<lambda>k. k \<notin> fst ` set (sch_fields schema) \<and> k \<notin> set INHERITED) (map fst es))
             @ concat (map (fieldProblems P es) (sch_fields schema))))"

section \<open>Lemmas\<close>

text \<open>What a field value of each type is.\<close>

definition hasType :: "env \<Rightarrow> FieldType \<Rightarrow> jsval \<Rightarrow> bool" where
  "hasType P ty v = (case ty of
       FString \<Rightarrow> (\<exists>s. v = JStr s \<and> s \<noteq> [])
     | FDigest \<Rightarrow> (\<exists>s. v = JStr s \<and> isMultihash s)
     | FInt \<Rightarrow> (\<exists>n. v = JNum n \<and> isSafeInteger n)
     | FBool \<Rightarrow> (\<exists>b. v = JBool b)
     | FTimestamp \<Rightarrow> (\<exists>s t. v = JStr s \<and> date_parse P s = Some t)
     | FStrings \<Rightarrow> (\<exists>ss. v = JArr (map JStr ss))
     | FDigests \<Rightarrow> (\<exists>ss. v = JArr (map JStr ss) \<and> (\<forall>s \<in> set ss. isMultihash s))
     | FEnum alts \<Rightarrow> (\<exists>s. v = JStr s \<and> s \<in> set (splitOn (CHR ''|'') alts)))"

lemma isDigestVal_iff: "isDigestVal v \<longleftrightarrow> (\<exists>s. v = JStr s \<and> isMultihash s)"
  by (auto simp: isDigestVal_def split: jsval.splits)

lemma strings_iff: "list_all (\<lambda>x. case x of JStr _ \<Rightarrow> True | _ \<Rightarrow> False) vs \<longleftrightarrow> (\<exists>ss. vs = map JStr ss)"
proof (induction vs)
  case (Cons v vs)
  then show ?case by (cases v) (auto simp: Cons_eq_map_conv)
qed simp

lemma digests_iff: "list_all isDigestVal vs \<longleftrightarrow> (\<exists>ss. vs = map JStr ss \<and> (\<forall>s \<in> set ss. isMultihash s))"
proof (induction vs)
  case (Cons v vs)
  then show ?case by (auto simp: Cons_eq_map_conv isDigestVal_iff) (metis list.set_intros list.simps(9) set_ConsD)+
qed simp

lemma typeProblem_None: "typeProblem P ty v = None \<longleftrightarrow> hasType P ty v"
  by (cases ty; cases v) (auto simp: typeProblem_def hasType_def isDigestVal_def strings_iff digests_iff Let_def)

lemma hasType_present: "hasType P ty v \<Longrightarrow> v \<noteq> JUndef \<and> v \<noteq> JNull"
  by (cases ty) (auto simp: hasType_def)

lemma fieldProblems_Nil:
  "fieldProblems P es (name, spec) = [] \<longleftrightarrow>
     (let v = readMember es name in
      (fs_required spec \<longrightarrow> v \<noteq> JUndef \<and> v \<noteq> JNull)
      \<and> (v \<noteq> JUndef \<and> v \<noteq> JNull \<longrightarrow> hasType P (fs_type spec) v \<and> (SENSITIVE_NAME name \<longrightarrow> hasType P FDigest v)))"
  by (auto simp: fieldProblems_def Let_def typeProblem_None [symmetric] typeProblem_def [of P FDigest] split: option.splits if_splits)

text \<open>Registering families with different types.\<close>

definition familySchema :: "string \<times> (string \<times> FieldSpec) list \<Rightarrow> string \<times> PayloadSchema" where
  "familySchema = (\<lambda>(ty, flds). (ty @ ''.v1'', \<lparr>sch_id = ty @ ''.v1'', sch_event_type = ty, sch_fields = flds\<rparr>))"

lemma register_all:
  "distinct (map fst fs) \<Longrightarrow> (\<forall>f \<in> set fs. fst f @ ''.v1'' \<notin> fst ` set (rg_schemas reg)) \<Longrightarrow>
   fold (\<lambda>(ty, flds) r. rbind r (rg_register \<lparr>sch_id = ty @ ''.v1'', sch_event_type = ty, sch_fields = flds\<rparr>)) fs (Inr reg)
     = Inr (reg\<lparr>rg_schemas := rg_schemas reg @ map familySchema fs\<rparr>)"
proof (induction fs arbitrary: reg)
  case (Cons f fs)
  obtain ty flds where f: "f = (ty, flds)" by fastforce
  let ?sch = "\<lparr>sch_id = ty @ ''.v1'', sch_event_type = ty, sch_fields = flds\<rparr>"
  have "rg_register ?sch reg = Inr (reg\<lparr>rg_schemas := rg_schemas reg @ [(ty @ ''.v1'', ?sch)]\<rparr>)"
    using Cons.prems(2) f by (simp add: rg_register_def mput_new map_of_eq_None_iff)
  moreover have "\<forall>g \<in> set fs. fst g @ ''.v1'' \<notin> fst ` set (rg_schemas reg @ [(ty @ ''.v1'', ?sch)])"
    using Cons.prems f by (auto simp: image_iff)
  ultimately show ?case using Cons.IH Cons.prems(1) f by (simp add: familySchema_def)
qed simp

lemma schemaFor_families:
  assumes "distinct (map fst fs)" "(ty, flds) \<in> set fs" "ty \<noteq> []"
  shows "schemaFor \<lparr>rg_schemas = map familySchema fs\<rparr> ty = Some (ty @ ''.v1'')"
proof -
  let ?step = "\<lambda>(_, s) best. if sch_event_type s = ty \<and> (\<not> truthy best \<or> schemaVersion (sch_id s) > schemaVersion (the best))
      then Some (sch_id s) else best"
  have skip: "ty \<notin> fst ` set gs \<Longrightarrow> fold ?step (map familySchema gs) b = b" for gs :: "(string \<times> (string \<times> FieldSpec) list) list" and b
    by (induction gs arbitrary: b) (auto simp: familySchema_def)
  obtain before after where fs: "fs = before @ (ty, flds) # after" using split_list [OF assms(2)] by blast
  with assms(1) have "ty \<notin> fst ` set before" "ty \<notin> fst ` set after" by auto
  with skip show ?thesis unfolding schemaFor_def fs by (simp add: familySchema_def truthy_def)
qed

lemma FAMILIES_distinct: "distinct (map fst FAMILIES)" "[] \<notin> set (map fst FAMILIES)"
  by code_simp+

section \<open>Properties\<close>

text \<open>
  \<^bold>\<open>C12.\<close> What a valid payload is: the schema is registered, the payload is an object, each of its own fields is one of the schema's
  or has a name every object inherits, each required field is present, each present field has its declared type, and a field whose
  name says it holds a secret holds a digest.
\<close>

theorem validate_characterised:
  "validate P reg schemaId payload = [] \<longleftrightarrow>
     (\<exists>schema es. rg_get reg schemaId = Some schema \<and> entriesOf payload = Some es
      \<and> fst ` set es \<subseteq> fst ` set (sch_fields schema) \<union> set INHERITED
      \<and> (\<forall>(name, spec) \<in> set (sch_fields schema). let v = readMember es name in
          (fs_required spec \<longrightarrow> v \<noteq> JUndef \<and> v \<noteq> JNull)
          \<and> (v \<noteq> JUndef \<and> v \<noteq> JNull \<longrightarrow> hasType P (fs_type spec) v \<and> (SENSITIVE_NAME name \<longrightarrow> hasType P FDigest v))))"
proof -
  have keys: "filter (\<lambda>k. k \<notin> A \<and> k \<notin> B) (map fst es) = [] \<longleftrightarrow> fst ` set es \<subseteq> A \<union> B" for A B and es :: "(string \<times> jsval) list"
    by (auto simp: filter_empty_conv)
  have fields: "concat (map (fieldProblems P es) fs) = [] \<longleftrightarrow> (\<forall>(name, spec) \<in> set fs. fieldProblems P es (name, spec) = [])" for es fs
    by auto
  show ?thesis
    unfolding validate_def rg_get_def
    by (simp only: append_is_Nil_conv map_is_Nil_conv keys fields fieldProblems_Nil list.distinct split: option.split) simp
qed

text \<open>An inherited name passes as a field of any payload.\<close>

lemma inherited_name_accepted:
  "validate toyEnv \<lparr>rg_schemas = [(''s.v1'', \<lparr>sch_id = ''s.v1'', sch_event_type = ''s'', sch_fields = []\<rparr>)]\<rparr> ''s.v1''
     (JObj [(''constructor'', JStr ''hidden'')]) = []"
  by (simp add: validate_def entriesOf_def INHERITED_def)

text \<open>
  The standard registry builds without a clash, and for each of its event families \<^verbatim>\<open>schemaFor\<close> gives the family's version 1
  schema, whose fields are the family's.
\<close>

theorem standard_registry:
  "\<exists>reg. standard = Inr reg \<and> (\<forall>(ty, flds) \<in> set FAMILIES. schemaFor reg ty = Some (ty @ ''.v1'')
     \<and> rg_get reg (ty @ ''.v1'') = Some \<lparr>sch_id = ty @ ''.v1'', sch_event_type = ty, sch_fields = flds\<rparr>)"
proof -
  let ?reg = "\<lparr>rg_schemas = map familySchema FAMILIES\<rparr>"
  have "standard = Inr ?reg"
    unfolding standard_def using register_all [OF FAMILIES_distinct(1), of newRegistry] by (simp add: newRegistry_def)
  moreover have "distinct (map fst (map familySchema FAMILIES))"
  proof -
    have "map fst (map familySchema FAMILIES) = map (\<lambda>ty. ty @ ''.v1'') (map fst FAMILIES)"
      by (simp add: familySchema_def case_prod_beta)
    then show ?thesis using FAMILIES_distinct(1) by (simp only: distinct_map) (simp add: inj_on_def)
  qed
  then have "rg_get ?reg (ty @ ''.v1'') = Some \<lparr>sch_id = ty @ ''.v1'', sch_event_type = ty, sch_fields = flds\<rparr>"
    if "(ty, flds) \<in> set FAMILIES" for ty flds
    using that unfolding rg_get_def
    by (simp only: PayloadRegistry.simps) (rule map_of_is_SomeI, auto simp: familySchema_def image_iff intro!: bexI [of _ "(ty, flds)"])
  moreover have "schemaFor ?reg ty = Some (ty @ ''.v1'')" if "(ty, flds) \<in> set FAMILIES" for ty flds
    using schemaFor_families [OF FAMILIES_distinct(1) that] FAMILIES_distinct(2) that by (force simp: image_iff)
  ultimately show ?thesis by (intro exI [of _ ?reg]) auto
qed

section \<open>Witnesses\<close>

definition toyRegistry :: PayloadRegistry where
  "toyRegistry = \<lparr>rg_schemas = [familySchema (''runtime.heartbeat'', [(''source'', reqd FString), (''sequence'', reqd FInt)])]\<rparr>"

definition toyPayload :: jsval where
  "toyPayload = JObj [(''source'', JStr ''a''), (''sequence'', JNum (Fin 3))]"

theorem validate_characterised_witness:
  "validate toyEnv toyRegistry ''runtime.heartbeat.v1'' toyPayload = []"
  unfolding validate_characterised
  by (simp add: toyRegistry_def toyPayload_def familySchema_def rg_get_def entriesOf_def readMember_def reqd_def hasType_def
    isSafeInteger_def SENSITIVE_NAME_def endsWith_def toLowerChar_def Let_def)

theorem standard_registry_witness:
  "\<exists>reg. standard = Inr reg \<and> schemaFor reg ''ai.inference'' = Some ''ai.inference.v1''"
proof -
  obtain reg where reg: "standard = Inr reg" "\<forall>(ty, flds) \<in> set FAMILIES. schemaFor reg ty = Some (ty @ ''.v1'')"
    using standard_registry by fastforce
  have "FAMILIES \<noteq> []" by (simp add: FAMILIES_def)
  then have "hd FAMILIES \<in> set FAMILIES" by simp
  moreover have "fst (hd FAMILIES) = ''ai.inference''" by (simp add: FAMILIES_def)
  ultimately show ?thesis using reg by (fastforce simp: case_prod_beta)
qed

end
