(* ===== verification/Envelope.thy ===== *)
theory Envelope
  imports Payloads Policy Merkle
begin

text \<open>
  \<^verbatim>\<open>src/src/platform/envelope.ts\<close>: signed evidence envelopes.  The verification of an attached Nitro attestation document is a
  function of the options (\<open>ev_nitro\<close>).  Results: an envelope that is created, signed and verified under a snapshot that accepts
  the signers passes; what a pass establishes; and that the key a signature is checked against is the one the envelope carries, so
  the snapshot decides on the key's name only.

  \<open>cbor_stable\<close> is what the code relies on of the CBOR package: the bytes it encodes decode to a value that encodes to them again.
\<close>

section \<open>envelope.ts\<close>

definition ENVELOPE_SCHEMA :: string where
  "ENVELOPE_SCHEMA = ''cool.envelope.v1''"

definition DIGEST_DOMAIN :: bytes where
  "DIGEST_DOMAIN = utf8 (''cool.envelope.v1'' @ [CHR 0x00])"

definition SIGNATURE_DOMAIN :: bytes where
  "SIGNATURE_DOMAIN = utf8 (''cool.envelope.sig.v1'' @ [CHR 0x00])"

record EnvSource =
  src_system :: string
  src_instance :: "string option"
  src_event_id :: "string option"

record EnvActor =
  actor_id :: string
  actor_type :: string
  actor_issuer :: "string option"

record EnvResource =
  res_type :: string
  res_ref :: string

record EnvPolicy =
  pol_policy_id :: string
  pol_policy_version :: string
  pol_decision :: string
  pol_decision_ref :: Multihash

record EnvelopeInput =
  ei_event_type :: string
  ei_payload_schema :: "string option"
  ei_occurred_at :: string
  ei_observed_at :: "string option"
  ei_source :: EnvSource
  ei_actor :: EnvActor
  ei_action :: string
  ei_resource :: EnvResource
  ei_payload :: jsval
  ei_provenance :: "(string \<times> Multihash list option) option"
  ei_relations :: "(string \<times> Multihash) list option"
  ei_policy :: "EnvPolicy option"
  ei_sequence :: "(jsnum \<times> jsnum) option"
  ei_attestation :: "bytes option"
  ei_event_id :: "string option"

record EnvelopeCore =
  co_schema :: string
  co_event_id :: string
  co_event_type :: string
  co_payload_schema :: string
  co_occurred_at :: string
  co_observed_at :: string
  co_source :: EnvSource
  co_actor :: EnvActor
  co_action :: string
  co_resource :: EnvResource
  co_collection_method :: string
  co_refs :: "Multihash list"
  co_relations :: "(string \<times> Multihash) list"
  co_policy :: "EnvPolicy option"
  co_sequence :: "(jsnum \<times> jsnum) option"
  co_attestation_ref :: "string option"
  co_payload :: jsval

record Checkpoint =
  cp_sth :: STH
  cp_leaf_index :: int
  cp_audit_path :: "Multihash list"

record SignedEnvelope =
  se_format :: string
  se_core :: EnvelopeCore
  se_encoding :: string
  se_core_cbor :: string
  se_digest_alg :: string
  se_digest :: Multihash
  se_signatures :: "SignatureBlock list"
  se_key_directory :: KeyDirectory
  se_checkpoint :: "Checkpoint option"
  se_attestation :: "string option"

text \<open>The value a core is encoded as; an absent field is not in it.\<close>

definition relationVal :: "string \<times> Multihash \<Rightarrow> jsval" where
  "relationVal = (\<lambda>(ty, ref). JObj [(''type'', JStr ty), (''ref'', JStr ref)])"

definition envPolicyVal :: "EnvPolicy \<Rightarrow> jsval" where
  "envPolicyVal p = JObj [(''policy_id'', JStr (pol_policy_id p)), (''policy_version'', JStr (pol_policy_version p)),
     (''decision'', JStr (pol_decision p)), (''decision_ref'', JStr (pol_decision_ref p))]"

definition coreVal :: "EnvelopeCore \<Rightarrow> jsval" where
  "coreVal c = JObj ([(''schema'', JStr (co_schema c)), (''event_id'', JStr (co_event_id c)), (''event_type'', JStr (co_event_type c)),
       (''payload_schema'', JStr (co_payload_schema c)), (''occurred_at'', JStr (co_occurred_at c)),
       (''observed_at'', JStr (co_observed_at c)),
       (''source'', JObj ((''system'', JStr (src_system (co_source c))) # optField ''instance'' (src_instance (co_source c))
          @ optField ''event_id'' (src_event_id (co_source c)))),
       (''actor'', JObj ([(''id'', JStr (actor_id (co_actor c))), (''type'', JStr (actor_type (co_actor c)))]
          @ optField ''issuer'' (actor_issuer (co_actor c)))),
       (''action'', JStr (co_action c)),
       (''resource'', JObj [(''type'', JStr (res_type (co_resource c))), (''ref'', JStr (res_ref (co_resource c)))]),
       (''provenance'', JObj [(''collection_method'', JStr (co_collection_method c)), (''refs'', JArr (map JStr (co_refs c)))]),
       (''relations'', JArr (map relationVal (co_relations c)))]
     @ (case co_policy c of None \<Rightarrow> [] | Some p \<Rightarrow> [(''policy'', envPolicyVal p)])
     @ (case co_sequence c of None \<Rightarrow> [] | Some (e, n) \<Rightarrow> [(''sequence'', JObj [(''epoch'', JNum e), (''number'', JNum n)])])
     @ optField ''attestation_ref'' (co_attestation_ref c)
     @ [(''payload'', co_payload c)])"

text \<open>The clock and the identifier generator are the arguments \<open>now\<close> and \<open>fresh\<close>.\<close>

definition createEnvelope :: "env \<Rightarrow> EnvelopeInput \<Rightarrow> PayloadRegistry \<Rightarrow> int \<Rightarrow> string \<Rightarrow> EnvelopeCore res" where
  "createEnvelope P input registry now fresh =
     (let schemaId = (case ei_payload_schema input of Some s \<Rightarrow> Some s | None \<Rightarrow> schemaFor registry (ei_event_type input));
          refs = (case ei_provenance input of Some (_, Some rs) \<Rightarrow> rs | _ \<Rightarrow> []);
          relations = (case ei_relations input of Some rs \<Rightarrow> rs | None \<Rightarrow> []);
          invalid = Inl (CooLError ''COOL_EVIDENCE_INVALID'')
      in if \<not> truthy schemaId then invalid
      else (case rg_get registry (the schemaId) of
          None \<Rightarrow> invalid
        | Some schema \<Rightarrow>
            if sch_event_type schema \<noteq> ei_event_type input then invalid
            else if validate P registry (the schemaId) (ei_payload input) \<noteq> [] then invalid
            else if list_ex (\<lambda>t. date_parse P t = None)
                (filter (\<lambda>t. t \<noteq> []) (ei_occurred_at input # (case ei_observed_at input of Some t \<Rightarrow> [t] | None \<Rightarrow> []))) then invalid
            else if list_ex (\<lambda>ref. \<not> isMultihash ref) (refs @ map snd relations) then invalid
            else Inr \<lparr>co_schema = ENVELOPE_SCHEMA,
              co_event_id = (case ei_event_id input of Some i \<Rightarrow> i | None \<Rightarrow> fresh),
              co_event_type = ei_event_type input, co_payload_schema = the schemaId, co_occurred_at = ei_occurred_at input,
              co_observed_at = (case ei_observed_at input of Some t \<Rightarrow> t | None \<Rightarrow> to_iso P now),
              co_source = ei_source input, co_actor = ei_actor input, co_action = ei_action input, co_resource = ei_resource input,
              co_collection_method = (case ei_provenance input of Some (m, _) \<Rightarrow> m | None \<Rightarrow> ''emitted''),
              co_refs = refs, co_relations = relations, co_policy = ei_policy input, co_sequence = ei_sequence input,
              co_attestation_ref = map_option (\<lambda>d. toHex (sha256 P d)) (ei_attestation input),
              co_payload = clean (ei_payload input)\<rparr>))"

definition canonicalize :: "env \<Rightarrow> EnvelopeCore \<Rightarrow> bytes" where
  "canonicalize P core = canonicalCbor P (coreVal core)"

definition commit :: "env \<Rightarrow> bytes \<Rightarrow> Multihash" where
  "commit P coreCbor = mhSha256 (sha256 P) (concatBytes [DIGEST_DOMAIN, coreCbor])"

definition signatureMessage :: "Multihash \<Rightarrow> bytes res" where
  "signatureMessage digest = rbind (multihashDigest digest) (\<lambda>d. Inr (concatBytes [SIGNATURE_DOMAIN, d]))"

record Signer =
  sg_keyId :: string
  sg_directoryEntry :: DirectoryEntry
  sg_sign :: "bytes \<Rightarrow> SignatureBlock res"

definition localSigner :: "env \<Rightarrow> KeyPair \<Rightarrow> Signer" where
  "localSigner P key = \<lparr>sg_keyId = keyId key, sg_directoryEntry = directoryEntry key, sg_sign = (\<lambda>m. Inr (hybridSign P m key))\<rparr>"

datatype EnvelopeKey = EKeyPair KeyPair | ESigner Signer | EAsync AsyncSigner

text \<open>A key as a signer; an asynchronous signer is used as it is.\<close>

definition asSigner :: "env \<Rightarrow> EnvelopeKey \<Rightarrow> Signer" where
  "asSigner P k = (case k of ESigner s \<Rightarrow> s | EKeyPair key \<Rightarrow> localSigner P key
     | EAsync a \<Rightarrow> \<lparr>sg_keyId = as_keyId a, sg_directoryEntry = as_directoryEntry a, sg_sign = as_sign a\<rparr>)"

text \<open>\<^verbatim>\<open>signEnvelope\<close> and \<^verbatim>\<open>signEnvelopeAsync\<close> build the same envelope; the second also takes asynchronous signers.  The final
  \<^verbatim>\<open>clean\<close> only reaches the payload.\<close>

definition signEnvelopeAsync :: "env \<Rightarrow> EnvelopeCore \<Rightarrow> EnvelopeKey list \<Rightarrow> bytes option \<Rightarrow> SignedEnvelope res" where
  "signEnvelopeAsync P core ks attestation =
     (if ks = [] then Inl (CooLError ''COOL_CRYPTOGRAPHY_FAILED'')
      else if (case attestation of Some d \<Rightarrow> Some (toHex (sha256 P d)) \<noteq> co_attestation_ref core | None \<Rightarrow> False)
      then Inl (CooLError ''COOL_EVIDENCE_INVALID'')
      else let bytes = canonicalize P core; digest = commit P bytes; signers = map (asSigner P) ks in
        rbind (signatureMessage digest) (\<lambda>message.
        rbind (mapM (\<lambda>k. sg_sign k message) signers) (\<lambda>signatures.
          Inr \<lparr>se_format = ''cool.signed-envelope.v1'', se_core = core\<lparr>co_payload := clean (co_payload core)\<rparr>,
            se_encoding = ''cbor-cde'', se_core_cbor = toBase64 bytes, se_digest_alg = ''sha-256'', se_digest = digest,
            se_signatures = signatures,
            se_key_directory = fold (\<lambda>k m. mput (sg_keyId k) (sg_directoryEntry k) m) signers [],
            se_checkpoint = None, se_attestation = map_option toBase64 attestation\<rparr>)))"

definition signEnvelope :: "env \<Rightarrow> EnvelopeCore \<Rightarrow> EnvelopeKey list \<Rightarrow> bytes option \<Rightarrow> SignedEnvelope res" where
  "signEnvelope P core ks attestation = signEnvelopeAsync P core ks attestation"

definition withCheckpoint :: "SignedEnvelope \<Rightarrow> Checkpoint \<Rightarrow> SignedEnvelope" where
  "withCheckpoint env cp = env\<lparr>se_checkpoint := Some cp\<rparr>"

definition envelopeLeaf :: "SignedEnvelope \<Rightarrow> bytes res" where
  "envelopeLeaf env = multihashDigest (se_digest env)"

record Inspection =
  in_verified :: bool
  in_core :: EnvelopeCore

definition inspectEnvelope :: "SignedEnvelope \<Rightarrow> Inspection" where
  "inspectEnvelope env = \<lparr>in_verified = False, in_core = se_core env\<rparr>"

section \<open>Verification\<close>

record VerifyEnvelopeOptions =
  ev_registry :: PayloadRegistry
  ev_trust :: TrustStore
  ev_purpose :: "string \<Rightarrow> KeyPurpose"
  ev_now :: int
  ev_clockSkewMs :: int
  ev_requireCheckpoint :: bool
  ev_maxCheckpointAgeMs :: "int option"
  ev_witnessThreshold :: nat
  ev_requireAttestation :: bool
  ev_nitro :: "bytes \<Rightarrow> string \<Rightarrow> DirectoryEntry \<Rightarrow> OverallStatus"
  ev_authorize :: "(EnvelopeCore \<Rightarrow> string \<Rightarrow> Check) option"
  ev_resolve :: "(Multihash \<Rightarrow> bool) option"

record VerificationReport =
  vr_subject :: "(string \<times> string \<times> string) option"
  vr_overall :: OverallStatus
  vr_outcome :: Outcome
  vr_checks :: Checks
  vr_reasons :: "string list"

definition NC :: Check where
  "NC = check NotChecked ''prerequisite_failed''"

definition schemaCheck :: "env \<Rightarrow> PayloadRegistry \<Rightarrow> SignedEnvelope \<Rightarrow> Check" where
  "schemaCheck P registry env =
     (let core = se_core env in
      if se_format env \<noteq> ''cool.signed-envelope.v1'' \<or> co_schema core \<noteq> ENVELOPE_SCHEMA then check Fail ''unsupported_schema''
      else case rg_get registry (co_payload_schema core) of
          None \<Rightarrow> check Fail ''payload_invalid''
        | Some ps \<Rightarrow>
            if sch_event_type ps \<noteq> co_event_type core then check Fail ''payload_invalid''
            else if validate P registry (co_payload_schema core) (co_payload core) \<noteq> [] then check Fail ''payload_invalid''
            else check Pass ''schema_valid'')"

definition canonicalCheck :: "env \<Rightarrow> SignedEnvelope \<Rightarrow> Check" where
  "canonicalCheck P env = catching (check Fail ''malformed_encoding'')
     (rbind (fromBase64 (se_core_cbor env)) (\<lambda>bytes.
      rbind (cbor_decode P bytes) (\<lambda>decoded. Inr
        (if \<not> bytesEqual (canonicalCbor P decoded) bytes then check Fail ''non_canonical_encoding''
         else if \<not> bytesEqual (canonicalize P (se_core env)) bytes then check Fail ''core_mismatch''
         else check Pass ''canonical''))))"

definition digestCheck :: "env \<Rightarrow> SignedEnvelope \<Rightarrow> Check" where
  "digestCheck P env = (case fromBase64 (se_core_cbor env) of
       Inl _ \<Rightarrow> NC
     | Inr bytes \<Rightarrow>
         if c_status (canonicalCheck P env) \<noteq> Pass then NC
         else if se_digest_alg env \<noteq> ''sha-256'' \<or> usableAlgorithm (se_digest_alg env) ADigest = None then check Fail ''unsupported_algorithm''
         else if commit P bytes = se_digest env then check Pass ''digest_matches''
         else check Fail ''digest_mismatch'')"

text \<open>One turn of the signature loop: the signer if the signature verifies.\<close>

definition validSignature :: "env \<Rightarrow> SignedEnvelope \<Rightarrow> bytes \<Rightarrow> SignatureBlock \<Rightarrow> bool" where
  "validSignature P env message sig =
     (usableAlgorithm (sig_alg sig) ASignature \<noteq> None
      \<and> (case map_of (se_key_directory env) (sig_key_id sig) of None \<Rightarrow> False
         | Some entry \<Rightarrow> hv_ok (hybridVerify P message sig entry)))"

definition signatureCheck :: "env \<Rightarrow> SignedEnvelope \<Rightarrow> (Check \<times> string list) res" where
  "signatureCheck P env =
     (if c_status (digestCheck P env) \<noteq> Pass then Inr (NC, [])
      else if se_signatures env = [] then Inr (check Fail ''unsigned'', [])
      else rbind (signatureMessage (se_digest env)) (\<lambda>message.
        Inr (if list_ex (\<lambda>sig. \<not> validSignature P env message sig) (se_signatures env) then check Fail ''signature_invalid''
             else check Pass ''signature_valid'',
             map sig_key_id (filter (validSignature P env message) (se_signatures env)))))"

definition trustQuery :: "string \<Rightarrow> KeyPurpose \<Rightarrow> int \<Rightarrow> TrustQuery" where
  "trustQuery i purpose now = \<lparr>q_keyId = i, q_purpose = purpose, q_now = Some now, q_claimedSignedAt = None, q_provenSignedBefore = None\<rparr>"

definition inclusionOf :: "env \<Rightarrow> SignedEnvelope \<Rightarrow> Checkpoint \<Rightarrow> bool" where
  "inclusionOf P env cp = catching False
     (rbind (envelopeLeaf env) (\<lambda>leaf.
      rbind (mapM multihashDigest (cp_audit_path cp)) (\<lambda>path.
      rbind (multihashDigest (root_hash (cp_sth cp))) (\<lambda>root.
        Inr (verifyInclusion (sha256 P) (leafHash (sha256 P) leaf) (cp_leaf_index cp) (tree_size (cp_sth cp)) path root)))))"

definition witnessBlock :: "Witness \<Rightarrow> SignatureBlock" where
  "witnessBlock w = \<lparr>sig_alg = w_alg w, sig_key_id = w_id w, sig_ml_dsa = w_ml_dsa w, sig_ed25519 = w_ed25519 w\<rparr>"

definition trustedWitness :: "env \<Rightarrow> TrustStore \<Rightarrow> int \<Rightarrow> STH \<Rightarrow> Witness \<Rightarrow> bool" where
  "trustedWitness P trust now sth w =
     (case trust_get trust (w_id w) of
        None \<Rightarrow> False
      | Some rec \<Rightarrow> w_external w \<and> c_status (evaluate P trust (trustQuery (w_id w) PWitness now)) = Pass
          \<and> hv_ok (hybridVerify P (sthSigningMessage P (sthCore sth)) (witnessBlock w) (kr_entry rec)))"

definition sthSigned :: "env \<Rightarrow> TrustStore \<Rightarrow> STH \<Rightarrow> bool" where
  "sthSigned P trust sth = (case trust_get trust (sig_key_id (sth_signature sth)) of
       None \<Rightarrow> False
     | Some logKey \<Rightarrow> hv_ok (hybridVerify P (sthSigningMessage P (sthCore sth)) (sth_signature sth) (kr_entry logKey)))"

definition checkpointCheck :: "env \<Rightarrow> VerifyEnvelopeOptions \<Rightarrow> Checkpoint \<Rightarrow> Check" where
  "checkpointCheck P opts cp =
     (let sth = cp_sth cp; trust = ev_trust opts; now = ev_now opts;
          logTrust = evaluate P trust (trustQuery (sig_key_id (sth_signature sth)) PLog now);
          age = t_diff (Some now) (date_parse P (sth_timestamp sth));
          witnessKeys = filter (trustedWitness P trust now sth) (sth_witnesses sth)
      in if \<not> sthSigned P trust sth then check Fail ''checkpoint_signature_invalid''
      else if c_status logTrust \<noteq> Pass then check (if c_status logTrust = Unknown then Unknown else Fail) (c_reason logTrust)
      else if (case ev_maxCheckpointAgeMs opts of Some m \<Rightarrow> t_gt age (Some m) | None \<Rightarrow> False) then check Unknown ''checkpoint_stale''
      else if length witnessKeys < ev_witnessThreshold opts then check Fail ''insufficient_witnesses''
      else check Pass ''checkpoint_trusted'')"

text \<open>Inclusion, checkpoint, and the signing time a trusted checkpoint proves.\<close>

definition checkpointChecks :: "env \<Rightarrow> VerifyEnvelopeOptions \<Rightarrow> SignedEnvelope \<Rightarrow> Check \<times> Check \<times> time option" where
  "checkpointChecks P opts env = (case se_checkpoint env of
       None \<Rightarrow> (let c = (if ev_requireCheckpoint opts then check Fail ''checkpoint_required'' else check NotChecked ''no_checkpoint'')
                in (c, c, None))
     | Some cp \<Rightarrow>
         if c_status (digestCheck P env) \<noteq> Pass then (NC, NC, None)
         else let inclusion = (if inclusionOf P env cp then check Pass ''included'' else check Fail ''inclusion_invalid'');
                  checkpoint = checkpointCheck P opts cp
              in (inclusion, checkpoint,
                  if c_status checkpoint = Pass \<and> c_status inclusion = Pass then Some (date_parse P (sth_timestamp (cp_sth cp))) else None))"

definition signerTrust :: "env \<Rightarrow> VerifyEnvelopeOptions \<Rightarrow> EnvelopeCore \<Rightarrow> string list \<Rightarrow> time option \<Rightarrow> Check" where
  "signerTrust P opts core validSigners provenBefore =
     (let results = map (\<lambda>i. evaluate P (ev_trust opts) \<lparr>q_keyId = i, q_purpose = ev_purpose opts (co_event_type core), q_now = Some (ev_now opts),
            q_claimedSignedAt = Some (date_parse P (co_observed_at core)), q_provenSignedBefore = provenBefore\<rparr>) validSigners
      in case find (\<lambda>c. c_status c = Fail) results of
           Some c \<Rightarrow> c
         | None \<Rightarrow> (case find (\<lambda>c. c_status c = Unknown) results of Some c \<Rightarrow> c | None \<Rightarrow> hd results))"

definition timestampCheck :: "env \<Rightarrow> VerifyEnvelopeOptions \<Rightarrow> SignedEnvelope \<Rightarrow> Check \<Rightarrow> Check" where
  "timestampCheck P opts env checkpoint =
     (let occurred = date_parse P (co_occurred_at (se_core env)); observed = date_parse P (co_observed_at (se_core env));
          skew = ev_clockSkewMs opts
      in if occurred = None \<or> observed = None then check Fail ''invalid_time''
      else if t_gt occurred (t_add observed skew) then check Fail ''occurred_after_observed''
      else if t_gt observed (Some (ev_now opts + skew)) then check Fail ''time_in_future''
      else if (case se_checkpoint env of None \<Rightarrow> False
               | Some cp \<Rightarrow> c_status checkpoint = Pass \<and> t_gt observed (t_add (date_parse P (sth_timestamp (cp_sth cp))) skew))
      then check Fail ''observed_after_checkpoint''
      else check Pass ''times_consistent'')"

definition attestationCheck :: "env \<Rightarrow> VerifyEnvelopeOptions \<Rightarrow> SignedEnvelope \<Rightarrow> Check \<Rightarrow> string list \<Rightarrow> Check res" where
  "attestationCheck P opts env signature validSigners = (case se_attestation env of
       None \<Rightarrow> Inr (if ev_requireAttestation opts then check Fail ''attestation_required'' else check NotApplicable ''no_attestation'')
     | Some doc64 \<Rightarrow>
         if c_status signature \<noteq> Pass then Inr NC
         else rbind (fromBase64 doc64) (\<lambda>doc. Inr
           (if Some (toHex (sha256 P doc)) \<noteq> co_attestation_ref (se_core env) then check Fail ''attestation_not_bound''
            else let signer = hd validSigners in
              (case ev_nitro opts doc signer (the (map_of (se_key_directory env) signer)) of
                 OPass \<Rightarrow> check Pass ''attestation_valid''
               | OFail \<Rightarrow> check Fail ''attestation_not_valid''
               | OUnknown \<Rightarrow> check Unknown ''attestation_not_valid''))))"

definition completeCheck :: "VerifyEnvelopeOptions \<Rightarrow> EnvelopeCore \<Rightarrow> Check" where
  "completeCheck opts core = (case ev_resolve opts of
       None \<Rightarrow> check NotChecked ''no_resolver''
     | Some resolve \<Rightarrow> if list_ex (\<lambda>ref. \<not> resolve ref) (co_refs core @ map snd (co_relations core))
         then check Fail ''missing_evidence'' else check Pass ''references_resolved'')"

definition requiredOf :: "VerifyEnvelopeOptions \<Rightarrow> SignedEnvelope \<Rightarrow> string list" where
  "requiredOf opts env = [''schema_valid'', ''canonical_encoding_valid'', ''digest_valid'', ''signature_valid'', ''signer_trusted'',
       ''timestamp_valid'', ''attestation_valid'']
     @ (if se_checkpoint env \<noteq> None \<or> ev_requireCheckpoint opts then [''inclusion_proof_valid'', ''checkpoint_trusted''] else [])
     @ (if ev_authorize opts \<noteq> None then [''signer_authorized''] else [])
     @ (if ev_resolve opts \<noteq> None then [''evidence_complete''] else [])"

definition verifyEnvelope :: "env \<Rightarrow> SignedEnvelope \<Rightarrow> VerifyEnvelopeOptions \<Rightarrow> VerificationReport res" where
  "verifyEnvelope P env opts =
     (let core = se_core env; schema = schemaCheck P (ev_registry opts) env in
      if c_status schema = Fail then
        (let checks = (''schema_valid'', schema) # map (\<lambda>n. (n, NC)) [''canonical_encoding_valid'', ''digest_valid'', ''signature_valid'',
            ''signer_trusted'', ''signer_authorized'', ''timestamp_valid'', ''inclusion_proof_valid'', ''checkpoint_trusted'',
            ''attestation_valid'', ''evidence_complete'']
         in Inr \<lparr>vr_subject = None, vr_overall = OFail, vr_outcome = fst (classifyOutcome checks [''schema_valid'']), vr_checks = checks,
              vr_reasons = [''schema_valid: '' @ c_reason schema]\<rparr>)
      else
        rbind (signatureCheck P env) (\<lambda>(signature, validSigners).
        let (inclusion, checkpoint, provenBefore) = checkpointChecks P opts env;
            trusted = (if c_status signature \<noteq> Pass then NC else signerTrust P opts core validSigners provenBefore);
            authorized = (case ev_authorize opts of
                None \<Rightarrow> check NotChecked ''no_policy_context''
              | Some authorize \<Rightarrow> if c_status trusted \<noteq> Pass then NC else authorize core (hd validSigners));
            timestamp = timestampCheck P opts env checkpoint
        in rbind (attestationCheck P opts env signature validSigners) (\<lambda>attestation.
        let checks = [(''schema_valid'', schema), (''canonical_encoding_valid'', canonicalCheck P env), (''digest_valid'', digestCheck P env),
              (''signature_valid'', signature), (''signer_trusted'', trusted), (''signer_authorized'', authorized),
              (''timestamp_valid'', timestamp), (''inclusion_proof_valid'', inclusion), (''checkpoint_trusted'', checkpoint),
              (''attestation_valid'', attestation), (''evidence_complete'', completeCheck opts core)];
            required = requiredOf opts env;
            (overall, reasons) = overallOf checks required
        in Inr \<lparr>vr_subject = Some (co_event_id core, co_event_type core, se_digest env), vr_overall = overall,
             vr_outcome = fst (classifyOutcome checks required), vr_checks = checks, vr_reasons = reasons\<rparr>)))"

section \<open>Lemmas\<close>

definition cbor_stable :: "env \<Rightarrow> jsval \<Rightarrow> bool" where
  "cbor_stable P v = (\<exists>w. cbor_decode P (cbor_encode P v) = Inr w \<and> cbor_encode P w = cbor_encode P v)"

lemma signatureMessage_ok: "digests32 P \<Longrightarrow> \<exists>m. signatureMessage (commit P bs) = Inr m"
  by (simp add: signatureMessage_def commit_def digests32_def)

lemma canonicalCheck_pass:
  "c_status (canonicalCheck P env) = Pass \<Longrightarrow> fromBase64 (se_core_cbor env) = Inr (canonicalize P (se_core env))"
  by (auto simp: canonicalCheck_def catching_def rbind_def bytesEqual_iff split: sum.splits if_splits)

lemma digestCheck_pass:
  assumes "c_status (digestCheck P env) = Pass"
  shows "c_status (canonicalCheck P env) = Pass \<and> se_digest env = commit P (canonicalize P (se_core env))"
proof -
  have c: "c_status (canonicalCheck P env) = Pass"
    using assms by (auto simp: digestCheck_def NC_def split: sum.splits if_splits)
  with assms canonicalCheck_pass [OF c] show ?thesis by (auto simp: digestCheck_def NC_def split: if_splits)
qed

lemma signatureCheck_pass:
  assumes "signatureCheck P env = Inr (c, signers)" "c_status c = Pass"
  shows "c_status (digestCheck P env) = Pass \<and> se_signatures env \<noteq> [] \<and> signers = map sig_key_id (se_signatures env)
    \<and> (\<exists>m. signatureMessage (se_digest env) = Inr m \<and> (\<forall>sig \<in> set (se_signatures env). validSignature P env m sig))"
proof -
  from assms have d: "c_status (digestCheck P env) = Pass" "se_signatures env \<noteq> []"
    by (auto simp: signatureCheck_def NC_def split: if_splits)
  with assms obtain m where m: "signatureMessage (se_digest env) = Inr m"
    "\<not> list_ex (\<lambda>sig. \<not> validSignature P env m sig) (se_signatures env)"
    "signers = map sig_key_id (filter (validSignature P env m) (se_signatures env))"
    by (auto simp: signatureCheck_def rbind_Inr_iff split: if_splits)
  then have all: "\<forall>sig \<in> set (se_signatures env). validSignature P env m sig" by (auto simp: list_ex_iff)
  then have "filter (validSignature P env m) (se_signatures env) = se_signatures env" by (rule filter_True)
  with m d all show ?thesis by auto
qed

lemma signerTrust_pass:
  assumes "c_status (signerTrust P opts core signers pb) = Pass" "i \<in> set signers"
  shows "c_status (evaluate P (ev_trust opts) \<lparr>q_keyId = i, q_purpose = ev_purpose opts (co_event_type core), q_now = Some (ev_now opts),
    q_claimedSignedAt = Some (date_parse P (co_observed_at core)), q_provenSignedBefore = pb\<rparr>) = Pass" (is "c_status (?e i) = Pass")
proof -
  let ?rs = "map ?e signers"
  have "find (\<lambda>c. c_status c = Fail) ?rs = None"
  proof (cases "find (\<lambda>c. c_status c = Fail) ?rs")
    case (Some c)
    then have "c_status c = Fail" by (auto simp: find_Some_iff)
    with Some assms(1) show ?thesis by (simp add: signerTrust_def Let_def)
  qed
  moreover have "find (\<lambda>c. c_status c = Unknown) ?rs = None"
  proof (cases "find (\<lambda>c. c_status c = Unknown) ?rs")
    case (Some c)
    then have "c_status c = Unknown" by (auto simp: find_Some_iff)
    with Some \<open>find (\<lambda>c. c_status c = Fail) ?rs = None\<close> assms(1) show ?thesis by (simp add: signerTrust_def Let_def)
  qed
  ultimately have "c_status (?e i) \<noteq> Fail" "c_status (?e i) \<noteq> Unknown" using assms(2) by (auto simp: find_None_iff)
  with evaluate_statuses [of P "ev_trust opts" "\<lparr>q_keyId = i, q_purpose = ev_purpose opts (co_event_type core), q_now = Some (ev_now opts),
    q_claimedSignedAt = Some (date_parse P (co_observed_at core)), q_provenSignedBefore = pb\<rparr>"] show ?thesis by auto
qed

lemma signerTrust_statuses:
  assumes "signers \<noteq> []"
  shows "c_status (signerTrust P opts core signers pb) \<in> {Pass, Fail, Unknown}"
proof -
  let ?e = "\<lambda>i. evaluate P (ev_trust opts) \<lparr>q_keyId = i, q_purpose = ev_purpose opts (co_event_type core), q_now = Some (ev_now opts),
    q_claimedSignedAt = Some (date_parse P (co_observed_at core)), q_provenSignedBefore = pb\<rparr>"
  have found: "c \<in> set rs" if "find Q rs = Some c" for Q c and rs :: "Check list"
    using that by (auto simp: find_Some_iff)
  have "hd (map ?e signers) \<in> set (map ?e signers)" using assms by (intro list.set_sel(1)) simp
  then have "signerTrust P opts core signers pb \<in> set (map ?e signers)"
    using found [of _ "map ?e signers"] by (simp add: signerTrust_def Let_def split: option.splits)
  then obtain i where "signerTrust P opts core signers pb = ?e i" by auto
  then show ?thesis by (simp only: evaluate_statuses)
qed

lemma schemaCheck_pass:
  "c_status (schemaCheck P reg env) \<noteq> Fail \<Longrightarrow> validate P reg (co_payload_schema (se_core env)) (co_payload (se_core env)) = []
    \<and> co_schema (se_core env) = ENVELOPE_SCHEMA"
  by (auto simp: schemaCheck_def Let_def split: if_splits option.splits)

text \<open>A passing report, taken apart.\<close>

lemma verifyEnvelope_parts:
  assumes "verifyEnvelope P env opts = Inr rep" "c_status (schemaCheck P (ev_registry opts) env) \<noteq> Fail"
  obtains g signers inc cp pb att t a where "signatureCheck P env = Inr (g, signers)" "checkpointChecks P opts env = (inc, cp, pb)"
    "attestationCheck P opts env g signers = Inr att"
    "t = (if c_status g \<noteq> Pass then NC else signerTrust P opts (se_core env) signers pb)"
    "a = (case ev_authorize opts of None \<Rightarrow> check NotChecked ''no_policy_context''
       | Some authorize \<Rightarrow> if c_status t \<noteq> Pass then NC else authorize (se_core env) (hd signers))"
    "vr_checks rep = [(''schema_valid'', schemaCheck P (ev_registry opts) env), (''canonical_encoding_valid'', canonicalCheck P env),
       (''digest_valid'', digestCheck P env), (''signature_valid'', g), (''signer_trusted'', t), (''signer_authorized'', a),
       (''timestamp_valid'', timestampCheck P opts env cp), (''inclusion_proof_valid'', inc), (''checkpoint_trusted'', cp),
       (''attestation_valid'', att), (''evidence_complete'', completeCheck opts (se_core env))]"
    "vr_overall rep = fst (overallOf (vr_checks rep) (requiredOf opts env))"
    "vr_outcome rep = fst (classifyOutcome (vr_checks rep) (requiredOf opts env))"
proof -
  obtain inc cp pb where c: "checkpointChecks P opts env = (inc, cp, pb)" by (cases "checkpointChecks P opts env")
  from assms obtain g signers where s: "signatureCheck P env = Inr (g, signers)"
    by (auto simp: verifyEnvelope_def Let_def rbind_Inr_iff)
  from assms s c obtain att where att: "attestationCheck P opts env g signers = Inr att"
    by (auto simp: verifyEnvelope_def Let_def rbind_Inr_iff)
  from assms s c att show thesis
    by (intro that [OF s c att refl refl]) (auto simp: verifyEnvelope_def Let_def case_prod_beta)
qed

text \<open>Every check a passing report requires passed or did not apply.\<close>

lemma verifyEnvelope_pass:
  assumes "verifyEnvelope P env opts = Inr rep" "vr_overall rep = OPass"
  obtains g signers inc cp pb att where "c_status (schemaCheck P (ev_registry opts) env) \<noteq> Fail"
    "signatureCheck P env = Inr (g, signers)" "c_status g = Pass"
    "checkpointChecks P opts env = (inc, cp, pb)" "c_status (signerTrust P opts (se_core env) signers pb) = Pass"
    "se_checkpoint env \<noteq> None \<or> ev_requireCheckpoint opts \<Longrightarrow> c_status inc \<in> {Pass, NotApplicable} \<and> c_status cp \<in> {Pass, NotApplicable}"
    "c_status (timestampCheck P opts env cp) \<in> {Pass, NotApplicable}"
    "attestationCheck P opts env g signers = Inr att" "c_status att \<in> {Pass, NotApplicable}"
    "\<forall>f. ev_authorize opts = Some f \<longrightarrow> c_status (f (se_core env) (hd signers)) \<in> {Pass, NotApplicable}"
    "ev_resolve opts \<noteq> None \<Longrightarrow> c_status (completeCheck opts (se_core env)) \<in> {Pass, NotApplicable}"
proof -
  have sc: "c_status (schemaCheck P (ev_registry opts) env) \<noteq> Fail"
    using assms by (auto simp: verifyEnvelope_def Let_def)
  obtain g signers inc cp pb att t a where p: "signatureCheck P env = Inr (g, signers)" "checkpointChecks P opts env = (inc, cp, pb)"
    "attestationCheck P opts env g signers = Inr att"
    and t: "t = (if c_status g \<noteq> Pass then NC else signerTrust P opts (se_core env) signers pb)"
    and a: "a = (case ev_authorize opts of None \<Rightarrow> check NotChecked ''no_policy_context''
       | Some authorize \<Rightarrow> if c_status t \<noteq> Pass then NC else authorize (se_core env) (hd signers))"
    and cs: "vr_checks rep = [(''schema_valid'', schemaCheck P (ev_registry opts) env), (''canonical_encoding_valid'', canonicalCheck P env),
       (''digest_valid'', digestCheck P env), (''signature_valid'', g), (''signer_trusted'', t), (''signer_authorized'', a),
       (''timestamp_valid'', timestampCheck P opts env cp), (''inclusion_proof_valid'', inc), (''checkpoint_trusted'', cp),
       (''attestation_valid'', att), (''evidence_complete'', completeCheck opts (se_core env))]"
    and ov: "vr_overall rep = fst (overallOf (vr_checks rep) (requiredOf opts env))"
    by (rule verifyEnvelope_parts [OF assms(1) sc]) blast
  have all: "\<forall>n \<in> set (requiredOf opts env). statusOf (vr_checks rep) n \<in> {Some Pass, Some NotApplicable}"
    using ov assms(2) by (auto simp: overall_spec split: if_splits)
  have st: "c_status c \<in> {Pass, NotApplicable}"
    if "n \<in> set (requiredOf opts env)" "statusOf (vr_checks rep) n = Some (c_status c)" for n c
    using all that by fastforce
  have g: "c_status g \<in> {Pass, NotApplicable}" by (rule st [of "''signature_valid''"]) (simp_all add: requiredOf_def cs statusOf_def)
  moreover have "c_status g \<noteq> NotApplicable" using p(1) by (auto simp: signatureCheck_def NC_def rbind_Inr_iff split: if_splits)
  ultimately have gp: "c_status g = Pass" by simp
  have ts: "c_status t \<in> {Pass, NotApplicable}" by (rule st [of "''signer_trusted''"]) (simp_all add: requiredOf_def cs statusOf_def)
  have "signers \<noteq> []" using signatureCheck_pass [OF p(1) gp] by simp
  with ts gp t signerTrust_statuses [of signers P opts "se_core env" pb] have tp: "c_status t = Pass" by auto
  have tm: "c_status (timestampCheck P opts env cp) \<in> {Pass, NotApplicable}"
    by (rule st [of "''timestamp_valid''"]) (simp_all add: requiredOf_def cs statusOf_def)
  have at': "c_status att \<in> {Pass, NotApplicable}"
    by (rule st [of "''attestation_valid''"]) (simp_all add: requiredOf_def cs statusOf_def)
  have ck: "c_status inc \<in> {Pass, NotApplicable} \<and> c_status cp \<in> {Pass, NotApplicable}"
    if "se_checkpoint env \<noteq> None \<or> ev_requireCheckpoint opts"
    using st [of "''inclusion_proof_valid''" inc] st [of "''checkpoint_trusted''" cp] that by (simp add: requiredOf_def cs statusOf_def)
  have au: "\<forall>f. ev_authorize opts = Some f \<longrightarrow> c_status (f (se_core env) (hd signers)) \<in> {Pass, NotApplicable}"
    using st [of "''signer_authorized''" a] a tp by (auto simp: requiredOf_def cs statusOf_def)
  have re: "c_status (completeCheck opts (se_core env)) \<in> {Pass, NotApplicable}" if "ev_resolve opts \<noteq> None"
    using st [of "''evidence_complete''" "completeCheck opts (se_core env)"] that by (simp add: requiredOf_def cs statusOf_def)
  have tr: "c_status (signerTrust P opts (se_core env) signers pb) = Pass" using t tp gp by simp
  show thesis by (rule that [OF sc p(1) gp p(2) tr ck tm p(3) at' au re])
qed

text \<open>What a trusted checkpoint is: the envelope's digest is a leaf of the tree its head commits to; the head is signed by a key
  the snapshot accepts for the log now; it is no older than the bound, if there is one and its time can be read; and as many of its
  witness signatures as required are external ones of keys accepted for witnessing that verify over the head.\<close>

definition witnessAccepted :: "env \<Rightarrow> TrustStore \<Rightarrow> int \<Rightarrow> STH \<Rightarrow> Witness \<Rightarrow> bool" where
  "witnessAccepted P trust now sth w = (w_external w
     \<and> (\<exists>rec. keyAccepted P trust (trustQuery (w_id w) PWitness now) rec
         \<and> hv_ok (hybridVerify P (sthSigningMessage P (sthCore sth)) (witnessBlock w) (kr_entry rec))))"

definition checkpointOk :: "env \<Rightarrow> VerifyEnvelopeOptions \<Rightarrow> SignedEnvelope \<Rightarrow> Checkpoint \<Rightarrow> bool" where
  "checkpointOk P opts env cp = (let sth = cp_sth cp; trust = ev_trust opts; now = ev_now opts in
     (\<exists>leaf path root. multihashDigest (se_digest env) = Inr leaf \<and> mapM multihashDigest (cp_audit_path cp) = Inr path
        \<and> multihashDigest (root_hash sth) = Inr root
        \<and> verifyInclusion (sha256 P) (leafHash (sha256 P) leaf) (cp_leaf_index cp) (tree_size sth) path root)
     \<and> (\<exists>rec. keyAccepted P trust (trustQuery (sig_key_id (sth_signature sth)) PLog now) rec
          \<and> hv_ok (hybridVerify P (sthSigningMessage P (sthCore sth)) (sth_signature sth) (kr_entry rec)))
     \<and> (\<forall>m t. ev_maxCheckpointAgeMs opts = Some m \<longrightarrow> date_parse P (sth_timestamp sth) = Some t \<longrightarrow> now - t \<le> m)
     \<and> ev_witnessThreshold opts \<le> length (filter (witnessAccepted P trust now sth) (sth_witnesses sth)))"

lemma trustedWitness_accepted: "trustedWitness P trust now sth w \<longleftrightarrow> witnessAccepted P trust now sth w"
proof -
  have get: "keyAccepted P trust (trustQuery i pu now) rec \<Longrightarrow> trust_get trust i = Some rec" for i pu rec
    by (simp add: keyAccepted_def trustQuery_def)
  then show ?thesis
    by (auto simp: trustedWitness_def witnessAccepted_def evaluate_accepted split: option.splits dest: get)
qed

lemma inclusionOf_opened:
  "inclusionOf P env cp \<Longrightarrow> \<exists>leaf path root. multihashDigest (se_digest env) = Inr leaf \<and> mapM multihashDigest (cp_audit_path cp) = Inr path
     \<and> multihashDigest (root_hash (cp_sth cp)) = Inr root
     \<and> verifyInclusion (sha256 P) (leafHash (sha256 P) leaf) (cp_leaf_index cp) (tree_size (cp_sth cp)) path root"
  by (auto simp: inclusionOf_def envelopeLeaf_def catching_def rbind_def split: sum.splits)

lemma checkpointCheck_pass:
  assumes "c_status (checkpointCheck P opts cp) = Pass" "inclusionOf P env cp"
  shows "checkpointOk P opts env cp"
proof -
  let ?sth = "cp_sth cp"
  have c: "sthSigned P (ev_trust opts) ?sth"
    "c_status (evaluate P (ev_trust opts) (trustQuery (sig_key_id (sth_signature ?sth)) PLog (ev_now opts))) = Pass"
    "\<And>m. ev_maxCheckpointAgeMs opts = Some m \<Longrightarrow> \<not> t_gt (t_diff (Some (ev_now opts)) (date_parse P (sth_timestamp ?sth))) (Some m)"
    "ev_witnessThreshold opts \<le> length (filter (trustedWitness P (ev_trust opts) (ev_now opts) ?sth) (sth_witnesses ?sth))"
    using assms(1) by (auto simp: checkpointCheck_def Let_def not_less split: if_splits)
  from c(2) obtain rec where rec: "keyAccepted P (ev_trust opts) (trustQuery (sig_key_id (sth_signature ?sth)) PLog (ev_now opts)) rec"
    unfolding evaluate_accepted by blast
  then have "trust_get (ev_trust opts) (sig_key_id (sth_signature ?sth)) = Some rec" by (simp add: keyAccepted_def trustQuery_def)
  with c(1) have "hv_ok (hybridVerify P (sthSigningMessage P (sthCore ?sth)) (sth_signature ?sth) (kr_entry rec))"
    by (simp add: sthSigned_def)
  moreover have "ev_now opts - t \<le> m" if "ev_maxCheckpointAgeMs opts = Some m" "date_parse P (sth_timestamp ?sth) = Some t" for m t
    using c(3) [OF that(1)] that(2) by (simp add: t_diff_def not_less)
  moreover have "trustedWitness P (ev_trust opts) (ev_now opts) ?sth = witnessAccepted P (ev_trust opts) (ev_now opts) ?sth"
    by (intro ext) (rule trustedWitness_accepted)
  ultimately show ?thesis using inclusionOf_opened [OF assms(2)] rec c(4) unfolding checkpointOk_def Let_def by auto
qed

lemma checkpointCheck_statuses: "c_status (checkpointCheck P opts cp) \<noteq> NotApplicable"
  by (auto simp: checkpointCheck_def Let_def)

lemma timestampCheck_pass:
  assumes "c_status (timestampCheck P opts env c) \<in> {Pass, NotApplicable}"
  obtains occ obs where "date_parse P (co_occurred_at (se_core env)) = Some occ" "date_parse P (co_observed_at (se_core env)) = Some obs"
    "occ \<le> obs + ev_clockSkewMs opts" "obs \<le> ev_now opts + ev_clockSkewMs opts"
    "\<And>cp t. se_checkpoint env = Some cp \<Longrightarrow> c_status c = Pass \<Longrightarrow> date_parse P (sth_timestamp (cp_sth cp)) = Some t \<Longrightarrow>
       obs \<le> t + ev_clockSkewMs opts"
proof -
  from assms obtain occ obs where d: "date_parse P (co_occurred_at (se_core env)) = Some occ"
    "date_parse P (co_observed_at (se_core env)) = Some obs"
    by (auto simp: timestampCheck_def Let_def split: if_splits)
  with assms have b: "occ \<le> obs + ev_clockSkewMs opts" "obs \<le> ev_now opts + ev_clockSkewMs opts"
    by (auto simp: timestampCheck_def Let_def not_less split: if_splits)
  have "obs \<le> t + ev_clockSkewMs opts"
    if "se_checkpoint env = Some cp" "c_status c = Pass" "date_parse P (sth_timestamp (cp_sth cp)) = Some t" for cp t
    using assms d that by (auto simp: timestampCheck_def Let_def not_less split: if_splits)
  with d b show thesis by (rule that)
qed

section \<open>Signing\<close>

lemma key_directory_of:
  "distinct (map keyId ks) \<Longrightarrow> k \<in> set ks \<Longrightarrow>
     map_of (fold (\<lambda>s m. mput (sg_keyId s) (sg_directoryEntry s) m) (map (asSigner P \<circ> EKeyPair) ks) m) (keyId k) = Some (directoryEntry k)"
proof (induction ks rule: rev_induct)
  case (snoc x ks)
  show ?case
  proof (cases "k = x")
    case False
    with snoc.prems have "k \<in> set ks" "keyId k \<noteq> keyId x" by (auto simp: image_iff)
    with snoc show ?thesis by (simp add: asSigner_def localSigner_def)
  qed (simp add: asSigner_def localSigner_def)
qed simp

text \<open>Envelopes signed with generated keys: signed, canonical, with a matching digest and valid signatures.\<close>

lemma signEnvelope_checks:
  assumes "digests32 P" "signs P" "cbor_stable P (coreVal core)" "clean (co_payload core) = co_payload core"
    and "ks \<noteq> []" "distinct (map keyId ks)" "\<forall>k \<in> set ks. generated P k"
  shows "\<exists>env. signEnvelope P core (map EKeyPair ks) None = Inr env \<and> se_core env = core \<and> se_format env = ''cool.signed-envelope.v1''
    \<and> se_checkpoint env = None \<and> se_attestation env = None
    \<and> canonicalCheck P env = check Pass ''canonical'' \<and> digestCheck P env = check Pass ''digest_matches''
    \<and> signatureCheck P env = Inr (check Pass ''signature_valid'', map keyId ks)"
proof -
  let ?b = "canonicalize P core" and ?signers = "map (asSigner P \<circ> EKeyPair) ks"
  let ?d = "commit P ?b"
  obtain m where m: "signatureMessage ?d = Inr m" using signatureMessage_ok [OF assms(1)] by blast
  have sigs: "mapM (\<lambda>s. sg_sign s m) ?signers = Inr (map (\<lambda>k. hybridSign P m k) ks)"
    by (simp add: mapM_Inr_iff list_all2_conv_all_nth asSigner_def localSigner_def)
  define env where "env = \<lparr>se_format = ''cool.signed-envelope.v1'', se_core = core, se_encoding = ''cbor-cde'',
    se_core_cbor = toBase64 ?b, se_digest_alg = ''sha-256'', se_digest = ?d, se_signatures = map (\<lambda>k. hybridSign P m k) ks,
    se_key_directory = fold (\<lambda>s m. mput (sg_keyId s) (sg_directoryEntry s) m) ?signers [],
    se_checkpoint = None, se_attestation = None\<rparr>"
  have "core\<lparr>co_payload := clean (co_payload core)\<rparr> = core" using assms(4) by simp
  then have e: "signEnvelope P core (map EKeyPair ks) None = Inr env"
    using assms(5) m sigs by (simp add: signEnvelope_def signEnvelopeAsync_def env_def Let_def)
  have c: "canonicalCheck P env = check Pass ''canonical''"
    using assms(3) by (auto simp: canonicalCheck_def env_def cbor_stable_def canonicalize_def canonicalCbor_def)
  have "usableAlgorithm ''sha-256'' ADigest \<noteq> None" by code_simp
  then have d: "digestCheck P env = check Pass ''digest_matches''"
    using c by (simp add: digestCheck_def) (simp add: env_def)
  have "validSignature P env m (hybridSign P m k)" if "k \<in> set ks" for k
  proof -
    have "usableAlgorithm SIGNATURE_ALG ASignature \<noteq> None" by code_simp
    moreover have "map_of (se_key_directory env) (keyId k) = Some (directoryEntry k)"
      using key_directory_of [OF assms(6) that, of P "[]"] by (simp add: env_def)
    moreover have "hv_ok (hybridVerify P m (hybridSign P m k) (directoryEntry k))"
      using assms(2,7) that by (blast intro: hybridVerify_hybridSign)
    ultimately show ?thesis by (simp add: validSignature_def hybridSign_fields)
  qed
  then have "signatureCheck P env = Inr (check Pass ''signature_valid'', map keyId ks)"
    using d m assms(5)
    by (simp add: signatureCheck_def list_ex_iff) (simp add: env_def hybridSign_fields o_def filter_map)
  with e c d show ?thesis by (intro exI [of _ env]) (simp add: env_def)
qed

lemma usable_signature: "usableAlgorithm i ASignature = Some e \<Longrightarrow> i = SIGNATURE_ALG"
  using usable_signature_iff [of i] by blast

text \<open>A core that was created is valid for the registry it was created with.\<close>

lemma createEnvelope_ok:
  assumes "createEnvelope P input reg now fresh = Inr core"
  shows "co_schema core = ENVELOPE_SCHEMA \<and> (\<exists>ps. rg_get reg (co_payload_schema core) = Some ps \<and> sch_event_type ps = co_event_type core)
    \<and> validate P reg (co_payload_schema core) (ei_payload input) = [] \<and> co_payload core = clean (ei_payload input)"
proof -
  let ?sid = "case ei_payload_schema input of Some s \<Rightarrow> Some s | None \<Rightarrow> schemaFor reg (ei_event_type input)"
  have t: "truthy ?sid" using assms by (simp add: createEnvelope_def Let_def split: if_split_asm)
  show ?thesis
  proof (cases "rg_get reg (the ?sid)")
    case None
    with assms t show ?thesis by (simp add: createEnvelope_def Let_def)
  next
    case (Some ps)
    with assms t show ?thesis by (auto simp: createEnvelope_def Let_def split: if_split_asm)
  qed
qed

lemma signed_envelope_passes:
  assumes "digests32 P" "signs P" "cbor_stable P (coreVal core)"
    and "createEnvelope P input reg now fresh = Inr core" "clean (ei_payload input) = ei_payload input"
    and "ks \<noteq> []" "distinct (map keyId ks)" "\<forall>k \<in> set ks. generated P k"
    and "ev_registry opts = reg" "\<not> ev_requireCheckpoint opts" "\<not> ev_requireAttestation opts"
    and "ev_authorize opts = None"
    and "case ev_resolve opts of None \<Rightarrow> True | Some f \<Rightarrow> list_all f (co_refs core @ map snd (co_relations core))"
    and "date_parse P (co_occurred_at core) = Some a" "date_parse P (co_observed_at core) = Some b"
    and "a \<le> b + ev_clockSkewMs opts" "b \<le> ev_now opts + ev_clockSkewMs opts"
    and "\<forall>k \<in> set ks. c_status (evaluate P (ev_trust opts) \<lparr>q_keyId = keyId k, q_purpose = ev_purpose opts (co_event_type core),
           q_now = Some (ev_now opts), q_claimedSignedAt = Some (Some b), q_provenSignedBefore = None\<rparr>) = Pass"
  shows "\<exists>env rep. signEnvelope P core (map EKeyPair ks) None = Inr env \<and> se_core env = core
    \<and> verifyEnvelope P env opts = Inr rep \<and> vr_overall rep = OPass \<and> vr_outcome rep = Verified"
proof -
  have cl: "clean (co_payload core) = co_payload core"
    using createEnvelope_ok [OF assms(4)] assms(5) by simp
  obtain env where e: "signEnvelope P core (map EKeyPair ks) None = Inr env" "se_core env = core"
    "se_format env = ''cool.signed-envelope.v1''" "se_checkpoint env = None" "se_attestation env = None"
    "canonicalCheck P env = check Pass ''canonical''" "digestCheck P env = check Pass ''digest_matches''"
    "signatureCheck P env = Inr (check Pass ''signature_valid'', map keyId ks)"
    using signEnvelope_checks [OF assms(1-3) cl assms(6-8)] by blast
  have sc: "schemaCheck P (ev_registry opts) env = check Pass ''schema_valid''"
    using createEnvelope_ok [OF assms(4)] assms(5,9) e(2,3) by (auto simp: schemaCheck_def Let_def)
  have "c_status (signerTrust P opts core (map keyId ks) None) = Pass"
  proof -
    let ?rs = "map (\<lambda>i. evaluate P (ev_trust opts) \<lparr>q_keyId = i, q_purpose = ev_purpose opts (co_event_type core), q_now = Some (ev_now opts),
      q_claimedSignedAt = Some (date_parse P (co_observed_at core)), q_provenSignedBefore = None\<rparr>) (map keyId ks)"
    have pass: "\<forall>c \<in> set ?rs. c_status c = Pass" using assms(15,18) by auto
    then have n: "find (\<lambda>c. c_status c = Fail) ?rs = None" "find (\<lambda>c. c_status c = Unknown) ?rs = None" by (auto simp: find_None_iff)
    have "signerTrust P opts core (map keyId ks) None = hd ?rs" unfolding signerTrust_def Let_def n option.case ..
    moreover have "hd ?rs \<in> set ?rs" using assms(6) by (intro list.set_sel(1)) simp
    ultimately show ?thesis using pass by metis
  qed
  moreover have "timestampCheck P opts env (check NotChecked ''no_checkpoint'') = check Pass ''times_consistent''"
    using assms(14-17) e(2,4) by (simp add: timestampCheck_def Let_def)
  ultimately show ?thesis using e sc assms(10-13)
    by (simp add: verifyEnvelope_def checkpointChecks_def attestationCheck_def Let_def case_prod_beta)
      (auto simp: requiredOf_def overall_spec outcome_verified_iff statusOf_def completeCheck_def list_ex_iff list_all_iff split: option.splits)
qed

section \<open>Properties\<close>

text \<open>
  \<^bold>\<open>C13.\<close> Round trip: an envelope created from an accepted input, signed with generated keys of different names and verified under
  the same registry and a snapshot that accepts each of these names passes, provided its times are readable and in order and its
  references resolve if the verifier resolves them.  The
  verifier needs no further condition on the public keys the snapshot holds.
\<close>

theorem envelope_roundtrip:
  assumes "digests32 P" "signs P" "cbor_stable P (coreVal core)"
    and "createEnvelope P input reg now fresh = Inr core" "clean (ei_payload input) = ei_payload input"
    and "ks \<noteq> []" "distinct (map keyId ks)" "\<forall>k \<in> set ks. generated P k"
    and "ev_registry opts = reg" "\<not> ev_requireCheckpoint opts" "\<not> ev_requireAttestation opts"
    and "ev_authorize opts = None"
    and "case ev_resolve opts of None \<Rightarrow> True | Some f \<Rightarrow> list_all f (co_refs core @ map snd (co_relations core))"
    and "date_parse P (co_occurred_at core) = Some a" "date_parse P (co_observed_at core) = Some b"
    and "a \<le> b + ev_clockSkewMs opts" "b \<le> ev_now opts + ev_clockSkewMs opts"
    and "\<forall>k \<in> set ks. c_status (evaluate P (ev_trust opts) \<lparr>q_keyId = keyId k, q_purpose = ev_purpose opts (co_event_type core),
           q_now = Some (ev_now opts), q_claimedSignedAt = Some (Some b), q_provenSignedBefore = None\<rparr>) = Pass"
  shows "\<exists>env rep. signEnvelope P core (map EKeyPair ks) None = Inr env \<and> se_core env = core
    \<and> verifyEnvelope P env opts = Inr rep \<and> vr_overall rep = OPass \<and> vr_outcome rep = Verified"
  using assms by (rule signed_envelope_passes)


section \<open>Witnesses\<close>

definition toyEnvelopeInput :: EnvelopeInput where
  "toyEnvelopeInput = \<lparr>ei_event_type = ''runtime.heartbeat'', ei_payload_schema = Some ''runtime.heartbeat.v1'', ei_occurred_at = ''50'',
     ei_observed_at = Some ''100'', ei_source = \<lparr>src_system = ''s'', src_instance = None, src_event_id = None\<rparr>,
     ei_actor = \<lparr>actor_id = ''a'', actor_type = ''service'', actor_issuer = None\<rparr>, ei_action = ''beat'',
     ei_resource = \<lparr>res_type = ''host'', res_ref = ''h''\<rparr>, ei_payload = toyPayload, ei_provenance = None, ei_relations = None,
     ei_policy = None, ei_sequence = None, ei_attestation = None, ei_event_id = Some ''e''\<rparr>"

definition toyEvidenceTrust :: TrustStore where
  "toyEvidenceTrust = toyTrust [toyKeyRecord ''k'' [PEvidence]]"

definition toyEnvelopeOptions :: VerifyEnvelopeOptions where
  "toyEnvelopeOptions = \<lparr>ev_registry = toyRegistry, ev_trust = toyEvidenceTrust, ev_purpose = (\<lambda>_. PEvidence), ev_now = 200,
     ev_clockSkewMs = 300000, ev_requireCheckpoint = False, ev_maxCheckpointAgeMs = None, ev_witnessThreshold = 0,
     ev_requireAttestation = False, ev_nitro = (\<lambda>_ _ _. OFail), ev_authorize = None, ev_resolve = None\<rparr>"

definition toyCore :: EnvelopeCore where
  "toyCore = (case createEnvelope toyEnv toyEnvelopeInput toyRegistry 200 [] of Inr c \<Rightarrow> c)"

lemma toyPayload_valid: "validate toyEnv toyRegistry ''runtime.heartbeat.v1'' toyPayload = []"
  unfolding validate_def
  by (simp add: toyRegistry_def toyPayload_def familySchema_def entriesOf_def fieldProblems_def readMember_def reqd_def typeProblem_def
    isSafeInteger_def SENSITIVE_NAME_def endsWith_def toLowerChar_def Let_def)

lemma toyCore: "createEnvelope toyEnv toyEnvelopeInput toyRegistry 200 [] = Inr toyCore"
  and toyCore_fields: "co_occurred_at toyCore = ''50''" "co_observed_at toyCore = ''100''" "co_event_type toyCore = ''runtime.heartbeat''"
  using toyPayload_valid
  by (simp_all add: toyCore_def createEnvelope_def toyEnvelopeInput_def truthy_def rg_get_def Let_def toyDates)
    (simp_all add: toyRegistry_def familySchema_def)

lemma toyStable: "cbor_stable toyEnv v"
  by (simp add: cbor_stable_def toyDecode_def)

lemma toyPayload_clean: "clean toyPayload = toyPayload"
  by (simp add: toyPayload_def)

text \<open>Any generated key named \<open>k\<close> passes, whatever its public key.\<close>

lemma toyEnvelope_passes:
  assumes "generated toyEnv key" "keyId key = ''k''"
  shows "\<exists>env rep. signEnvelope toyEnv toyCore [EKeyPair key] None = Inr env \<and> se_core env = toyCore
    \<and> verifyEnvelope toyEnv env toyEnvelopeOptions = Inr rep \<and> vr_overall rep = OPass \<and> vr_outcome rep = Verified"
  using signed_envelope_passes [OF digests32_toyEnv signs_toyEnv toyStable toyCore, of "[key]" toyEnvelopeOptions 50 100] assms
  by (simp add: toyEnvelopeOptions_def toyCore_fields toyDates toyPayload_clean toyEvidenceTrust_def evaluate_pass_iff toy_trust)
    (simp add: toyEnvelopeInput_def toyPayload_clean)

theorem envelope_roundtrip_witness:
  "\<exists>env rep. signEnvelope toyEnv toyCore (map EKeyPair [toyKey ''k'']) None = Inr env \<and> se_core env = toyCore
    \<and> verifyEnvelope toyEnv env toyEnvelopeOptions = Inr rep \<and> vr_overall rep = OPass \<and> vr_outcome rep = Verified"
  by (rule envelope_roundtrip [OF digests32_toyEnv signs_toyEnv toyStable toyCore, where a = 50 and b = 100])
    (simp_all add: toyEnvelopeOptions_def toyCore_fields toyDates toyEvidenceTrust_def evaluate_pass_iff toy_trust generated_toyKey
      toyEnvelopeInput_def toyPayload_clean)

text \<open>An envelope with a checkpoint: the only leaf of a log whose head the log key \<^verbatim>\<open>l\<close> signed and the witness \<^verbatim>\<open>w\<close>
  co-signed, under options that require all of that.\<close>

definition toyHead :: "SignedEnvelope \<Rightarrow> STH" where
  "toyHead env = (let core = \<lparr>log_id = ''log'', tree_size = 1,
         root_hash = mhSha256 (sha256 toyEnv) (LEAF_PREFIX @ sha256 toyEnv (concatBytes [DIGEST_DOMAIN, canonicalize toyEnv (se_core env)])),
         sth_timestamp = ''100''\<rparr>;
       m = sthSigningMessage toyEnv core; w = hybridSign toyEnv m (toyKey ''w'')
     in \<lparr>log_id = log_id core, tree_size = tree_size core, root_hash = root_hash core, sth_timestamp = sth_timestamp core,
         sth_signature = hybridSign toyEnv m (toyKey ''l''),
         sth_witnesses = [\<lparr>w_id = ''w'', w_external = True, w_alg = sig_alg w, w_ml_dsa = sig_ml_dsa w, w_ed25519 = sig_ed25519 w\<rparr>]\<rparr>)"

definition toyCheckpointOptions :: VerifyEnvelopeOptions where
  "toyCheckpointOptions = toyEnvelopeOptions\<lparr>
     ev_trust := toyTrust [toyKeyRecord ''k'' [PEvidence], toyKeyRecord ''l'' [PLog], toyKeyRecord ''w'' [PWitness]],
     ev_requireCheckpoint := True, ev_maxCheckpointAgeMs := Some 100, ev_witnessThreshold := 1\<rparr>"

lemma checkpoint_ignored:
  "canonicalCheck P (withCheckpoint env cp) = canonicalCheck P env"
  "digestCheck P (withCheckpoint env cp) = digestCheck P env"
  "signatureCheck P (withCheckpoint env cp) = signatureCheck P env"
proof -
  show c: "canonicalCheck P (withCheckpoint env cp) = canonicalCheck P env"
    by (simp add: canonicalCheck_def withCheckpoint_def cong del: if_weak_cong)
  show d: "digestCheck P (withCheckpoint env cp) = digestCheck P env"
    unfolding digestCheck_def c by (simp add: withCheckpoint_def cong del: if_weak_cong sum.case_cong_weak)
  have "validSignature P (withCheckpoint env cp) = validSignature P env"
    by (intro ext) (simp add: validSignature_def withCheckpoint_def)
  then show "signatureCheck P (withCheckpoint env cp) = signatureCheck P env"
    unfolding signatureCheck_def d by (simp add: withCheckpoint_def cong del: if_weak_cong)
qed

lemma toyCheckpointed:
  "\<exists>env rep. se_core env = toyCore \<and> se_checkpoint env = Some \<lparr>cp_sth = toyHead env, cp_leaf_index = 0, cp_audit_path = []\<rparr>
    \<and> verifyEnvelope toyEnv env toyCheckpointOptions = Inr rep \<and> vr_overall rep = OPass"
proof -
  have cl: "clean (co_payload toyCore) = co_payload toyCore"
    using createEnvelope_ok [OF toyCore] by (simp add: toyEnvelopeInput_def toyPayload_clean)
  obtain e0 where e0: "se_core e0 = toyCore" "se_format e0 = ''cool.signed-envelope.v1''" "se_attestation e0 = None"
    "canonicalCheck toyEnv e0 = check Pass ''canonical''" "digestCheck toyEnv e0 = check Pass ''digest_matches''"
    "signatureCheck toyEnv e0 = Inr (check Pass ''signature_valid'', [''k''])"
    using signEnvelope_checks [OF digests32_toyEnv signs_toyEnv toyStable cl, of "[toyKey ''k'']"] by (auto simp: generated_toyKey)
  define cp where "cp = \<lparr>cp_sth = toyHead e0, cp_leaf_index = 0, cp_audit_path = []\<rparr>"
  define env where "env = withCheckpoint e0 cp"
  have f: "se_core env = toyCore" "se_format env = ''cool.signed-envelope.v1''" "se_attestation env = None" "se_checkpoint env = Some cp"
    "se_digest env = se_digest e0"
    by (simp_all add: env_def withCheckpoint_def e0)
  have c: "canonicalCheck toyEnv env = check Pass ''canonical''" "digestCheck toyEnv env = check Pass ''digest_matches''"
    "signatureCheck toyEnv env = Inr (check Pass ''signature_valid'', [''k''])"
    by (simp_all add: env_def checkpoint_ignored e0)
  note d = c(2) and g = c(3)
  let ?x = "concatBytes [DIGEST_DOMAIN, canonicalize toyEnv toyCore]"
  have h: "length (sha256 toyEnv z) = 32" for z using digests32_toyEnv by (simp add: digests32_def)
  have dig: "se_digest env = mhSha256 (sha256 toyEnv) ?x"
    using digestCheck_pass [of toyEnv env] d f(1) by (simp add: commit_def)
  have hd: "tree_size (toyHead e0) = 1" "sth_timestamp (toyHead e0) = ''100''" "sig_key_id (sth_signature (toyHead e0)) = ''l''"
    "root_hash (toyHead e0) = mhSha256 (sha256 toyEnv) (LEAF_PREFIX @ sha256 toyEnv ?x)"
    by (simp_all add: toyHead_def Let_def hybridSign_fields e0(1))
  have inc: "inclusionOf toyEnv env cp"
    by (simp add: inclusionOf_def envelopeLeaf_def dig h cp_def hd verifyInclusion_def rootFromInclusionProof_def leafHash_def
      concatBytes_def bytesEqual_iff)
  have sv: "hv_ok (hybridVerify toyEnv m (hybridSign toyEnv m (toyKey i)) (directoryEntry (toyKey i)))" for m i
    by (rule hybridVerify_hybridSign [OF signs_toyEnv generated_toyKey])
  have sig: "sth_signature (toyHead e0) = hybridSign toyEnv (sthSigningMessage toyEnv (sthCore (toyHead e0))) (toyKey ''l'')"
    by (simp add: toyHead_def Let_def sthCore_def)
  have wit: "map witnessBlock (sth_witnesses (toyHead e0)) = [hybridSign toyEnv (sthSigningMessage toyEnv (sthCore (toyHead e0))) (toyKey ''w'')]"
    "\<forall>w \<in> set (sth_witnesses (toyHead e0)). w_external w \<and> w_id w = ''w''"
    by (simp_all add: toyHead_def Let_def sthCore_def witnessBlock_def hybridSign_def)
  let ?trust = "toyTrust [toyKeyRecord ''k'' [PEvidence], toyKeyRecord ''l'' [PLog], toyKeyRecord ''w'' [PWitness]]"
  have o: "ev_trust toyCheckpointOptions = ?trust" "ev_now toyCheckpointOptions = 200" "ev_registry toyCheckpointOptions = toyRegistry"
    "ev_clockSkewMs toyCheckpointOptions = 300000" "ev_maxCheckpointAgeMs toyCheckpointOptions = Some 100"
    "ev_witnessThreshold toyCheckpointOptions = 1" "ev_requireAttestation toyCheckpointOptions = False"
    "ev_authorize toyCheckpointOptions = None" "ev_resolve toyCheckpointOptions = None" "ev_purpose toyCheckpointOptions = (\<lambda>_. PEvidence)"
    by (simp_all add: toyCheckpointOptions_def toyEnvelopeOptions_def)
  have get: "trust_get ?trust ''l'' = Some (toyKeyRecord ''l'' [PLog])" "trust_get ?trust ''w'' = Some (toyKeyRecord ''w'' [PWitness])"
    by (simp_all add: toy_trust)
  have log: "sthSigned toyEnv ?trust (toyHead e0)"
    using sv [of "sthSigningMessage toyEnv (sthCore (toyHead e0))" "''l''"]
    by (simp add: sthSigned_def hd get) (simp add: sig toyKeyRecord_def)
  have ev: "c_status (evaluate toyEnv ?trust (trustQuery ''l'' PLog 200)) = Pass"
    "c_status (evaluate toyEnv ?trust (trustQuery ''w'' PWitness 200)) = Pass"
    "c_status (evaluate toyEnv ?trust \<lparr>q_keyId = ''k'', q_purpose = PEvidence, q_now = Some 200, q_claimedSignedAt = Some (Some 100),
        q_provenSignedBefore = Some (Some 100)\<rparr>) = Pass"
    by (simp_all add: evaluate_pass_iff toy_trust trustQuery_def)
  obtain w where w: "sth_witnesses (toyHead e0) = [w]" "witnessBlock w = hybridSign toyEnv (sthSigningMessage toyEnv (sthCore (toyHead e0))) (toyKey ''w'')"
    "w_external w" "w_id w = ''w''" using wit by auto
  have tw: "trustedWitness toyEnv ?trust 200 (toyHead e0) w"
    using sv [of "sthSigningMessage toyEnv (sthCore (toyHead e0))" "''w''"] ev(2)
    by (simp add: trustedWitness_def w(3,4) get) (simp add: w(2) toyKeyRecord_def)
  have ck: "checkpointCheck toyEnv toyCheckpointOptions cp = check Pass ''checkpoint_trusted''"
    using log ev(1) tw by (simp add: checkpointCheck_def cp_def o hd w(1) toyDates t_diff_def Let_def)
  have cks: "checkpointChecks toyEnv toyCheckpointOptions env = (check Pass ''included'', check Pass ''checkpoint_trusted'', Some (Some 100))"
    using inc by (simp add: checkpointChecks_def f(4) d ck) (simp add: cp_def hd toyDates)
  have tr: "c_status (signerTrust toyEnv toyCheckpointOptions toyCore [''k''] (Some (Some 100))) = Pass"
    using ev(3) by (simp add: signerTrust_def o toyCore_fields toyDates Let_def)
  have tm: "timestampCheck toyEnv toyCheckpointOptions env (check Pass ''checkpoint_trusted'') = check Pass ''times_consistent''"
    by (simp add: timestampCheck_def f toyCore_fields toyDates o Let_def) (simp add: cp_def hd toyDates)
  have sc: "schemaCheck toyEnv toyRegistry env = check Pass ''schema_valid''"
    using createEnvelope_ok [OF toyCore] f(1,2) by (auto simp: schemaCheck_def Let_def toyEnvelopeInput_def toyPayload_clean)
  have "\<exists>rep. verifyEnvelope toyEnv env toyCheckpointOptions = Inr rep \<and> vr_overall rep = OPass"
    by (simp add: verifyEnvelope_def sc g cks tm o f attestationCheck_def Let_def case_prod_beta)
      (simp add: requiredOf_def overall_spec statusOf_def f o c d tr completeCheck_def)
  moreover have "toyHead env = toyHead e0" by (simp add: toyHead_def f(1) e0(1))
  ultimately show ?thesis using f(1,4) by (intro exI [of _ env]) (simp add: cp_def)
qed


text \<open>A substituted key: an envelope signed with another key under a trusted name, carrying that other key, passes.\<close>

definition otherKey :: KeyPair where
  "otherKey = (case generateKeypair toyEnv (replicate 32 9) ''k'' None of Inr k \<Rightarrow> k)"

lemma substituted_key_passes:
  "kr_entry (toyKeyRecord ''k'' [PEvidence]) \<noteq> directoryEntry otherKey
   \<and> trust_get toyEvidenceTrust ''k'' = Some (toyKeyRecord ''k'' [PEvidence])
   \<and> (\<exists>env rep. signEnvelope toyEnv toyCore [EKeyPair otherKey] None = Inr env
        \<and> verifyEnvelope toyEnv env toyEnvelopeOptions = Inr rep \<and> vr_overall rep = OPass)"
proof -
  have g: "generated toyEnv otherKey" "keyId otherKey = ''k''"
    by (auto simp: generated_def otherKey_def generateKeypair_def Let_def toyEnv_def split: prod.split
      intro!: exI [of _ "replicate 32 9"] exI [of _ None])
  have "fromBase64Field (ml_dsa_pub (directoryEntry otherKey)) = Inr (replicate 32 9)"
    "fromBase64Field (ml_dsa_pub (directoryEntry (toyKey ''k''))) = Inr (replicate 32 7)"
    by (simp_all add: otherKey_def toyKey_def generateKeypair_def Let_def toyEnv_def)
  then have "directoryEntry (toyKey ''k'') \<noteq> directoryEntry otherKey" by (auto simp: numeral_eq_Suc)
  then show ?thesis using toyEnvelope_passes [OF g] by (auto simp: toyEvidenceTrust_def toy_trust)
qed

end
