(* ===== verification/Anchor.thy ===== *)
theory Anchor
  imports Sign
begin

text \<open>
  \<^verbatim>\<open>src/src/phala/anchor.ts\<close>: OpenTimestamps proofs: reading, writing, merging, upgrading and verifying.  A reader is its unread
  bytes; \<open>readItems\<close> takes fuel, and as much as there are bytes is enough.  What a calendar answers is an argument.  Results:
  reading never runs out; what is written reads back (in the written order); every message in a proof that was read is computed
  from the digest by its operations; and a confirmed proof commits the digest into the blocks whose headers were checked.

  The JavaScript call stack, which bounds the depth of a proof, is not modelled.
\<close>

section \<open>The wire format\<close>

definition HEADER_MAGIC :: bytes where
  "HEADER_MAGIC = [0x00, 0x4f, 0x70, 0x65, 0x6e, 0x54, 0x69, 0x6d, 0x65, 0x73, 0x74, 0x61, 0x6d, 0x70, 0x73, 0x00, 0x00, 0x50, 0x72,
     0x6f, 0x6f, 0x66, 0x00, 0xbf, 0x89, 0xe2, 0xe8, 0x84, 0xe8, 0x92, 0x94]"

definition TAG_PENDING :: string where "TAG_PENDING = ''83dfe30d2ef90c8e''"
definition TAG_BITCOIN :: string where "TAG_BITCOIN = ''0588960d73d71901''"
definition TAG_LITECOIN :: string where "TAG_LITECOIN = ''06869a0d73d71b45''"
definition TAG_ETHEREUM :: string where "TAG_ETHEREUM = ''30fe8087b5c7ead7''"

definition OP_SHA1 :: byte where "OP_SHA1 = 0x02"
definition OP_RIPEMD160 :: byte where "OP_RIPEMD160 = 0x03"
definition OP_SHA256 :: byte where "OP_SHA256 = 0x08"
definition OP_KECCAK256 :: byte where "OP_KECCAK256 = 0x67"
definition OP_APPEND :: byte where "OP_APPEND = 0xf0"
definition OP_PREPEND :: byte where "OP_PREPEND = 0xf1"
definition OP_REVERSE :: byte where "OP_REVERSE = 0xf2"
definition OP_HEXLIFY :: byte where "OP_HEXLIFY = 0xf3"

lemmas op_tags = OP_SHA1_def OP_RIPEMD160_def OP_SHA256_def OP_KECCAK256_def OP_APPEND_def OP_PREPEND_def OP_REVERSE_def OP_HEXLIFY_def

text \<open>\<^verbatim>\<open>parseInt(pair, 16)\<close> stored in a byte array: leading white space and a sign are accepted, what follows the first character
  that is not a digit is ignored, and NaN is stored as 0.\<close>

definition parsePair :: "char \<Rightarrow> char \<Rightarrow> byte" where
  "parsePair a b =
     (if isHexChar a then (if isHexChar b then of_nat (16 * hexVal a + hexVal b) else of_nat (hexVal a))
      else if \<not> isHexChar b then 0
      else if a = CHR ''-'' then - of_nat (hexVal b)
      else if a = CHR ''+'' \<or> a = CHR 0x0b \<or> isAsciiSpace a then of_nat (hexVal b)
      else 0)"

fun pairBytes :: "string \<Rightarrow> bytes" where
  "pairBytes (a # b # r) = parsePair a b # pairBytes r"
| "pairBytes _ = []"

definition hexToBytes :: "string \<Rightarrow> bytes" where
  "hexToBytes hex = pairBytes (if startsWith hex ''hex:'' then drop 4 hex else hex)"

record AnchorOp =
  op_tag :: byte
  op_arg :: "bytes option"

datatype Attestation =
    Pending string
  | Bitcoin nat
  | Litecoin nat
  | Ethereum nat
  | UnknownAttestation string bytes

datatype Timestamp = Timestamp (ts_msg: bytes) (ts_attestations: "Attestation list") (ts_ops: "(AnchorOp \<times> Timestamp) list")

section \<open>Reading\<close>

definition rd_byte :: "bytes \<Rightarrow> (byte \<times> bytes) res" where
  "rd_byte bs = (case bs of [] \<Rightarrow> Inl (Error ''proof ended mid-structure'') | b # r \<Rightarrow> Inr (b, r))"

definition rd_take :: "nat \<Rightarrow> bytes \<Rightarrow> (bytes \<times> bytes) res" where
  "rd_take n bs = (if n > length bs then Inl (Error ''proof ended mid-value'') else Inr (take n bs, drop n bs))"

fun rd_varuint :: "nat \<Rightarrow> nat \<Rightarrow> bytes \<Rightarrow> (nat \<times> bytes) res" where
  "rd_varuint value shift [] = Inl (Error ''proof ended mid-structure'')"
| "rd_varuint value shift (b # r) =
     (let value' = dbl (value + unat b mod 128 * 2 ^ shift)
      in if unat b < 128 then Inr (value', r)
      else if shift + 7 > 56 then Inl (Error ''varuint too large to be meaningful'')
      else rd_varuint value' (shift + 7) r)"

definition varuint :: "bytes \<Rightarrow> (nat \<times> bytes) res" where
  "varuint bs = rd_varuint 0 0 bs"

definition varbytes :: "bytes \<Rightarrow> (bytes \<times> bytes) res" where
  "varbytes bs = rbind (varuint bs) (\<lambda>(n, r). rd_take n r)"

definition expect :: "bytes \<Rightarrow> bytes \<Rightarrow> bytes res" where
  "expect magic bs = rbind (rd_take (length magic) bs) (\<lambda>(seen, r).
     if seen = magic then Inr r else Inl (Error ''magic bytes do not match''))"

section \<open>Writing numbers\<close>

fun wr_varuint :: "nat \<Rightarrow> bytes" where
  "wr_varuint n = (if n < 128 then [of_nat n] else of_nat (n mod 128 + 128) # wr_varuint (n div 128))"

declare wr_varuint.simps [simp del]

definition wr_varbytes :: "bytes \<Rightarrow> bytes" where
  "wr_varbytes v = wr_varuint (length v) @ v"

section \<open>Attestations and operations\<close>

definition readAttestation :: "env \<Rightarrow> bytes \<Rightarrow> (Attestation \<times> bytes) res" where
  "readAttestation P bs =
     rbind (rd_take 8 bs) (\<lambda>(t, r1).
     rbind (varbytes r1) (\<lambda>(payload, r2).
       let tag = toHex t in
       if tag = TAG_PENDING then rbind (varbytes payload) (\<lambda>(u, _). Inr (Pending (text_decode P u), r2))
       else if tag = TAG_BITCOIN then rbind (varuint payload) (\<lambda>(h, _). Inr (Bitcoin h, r2))
       else if tag = TAG_LITECOIN then rbind (varuint payload) (\<lambda>(h, _). Inr (Litecoin h, r2))
       else if tag = TAG_ETHEREUM then rbind (varuint payload) (\<lambda>(h, _). Inr (Ethereum h, r2))
       else Inr (UnknownAttestation tag [], r2)))"

definition attestationTag :: "Attestation \<Rightarrow> string" where
  "attestationTag a = (case a of Pending _ \<Rightarrow> TAG_PENDING | Bitcoin _ \<Rightarrow> TAG_BITCOIN | Litecoin _ \<Rightarrow> TAG_LITECOIN
     | Ethereum _ \<Rightarrow> TAG_ETHEREUM | UnknownAttestation t _ \<Rightarrow> t)"

definition attestationPayload :: "Attestation \<Rightarrow> bytes" where
  "attestationPayload a = (case a of Pending u \<Rightarrow> wr_varbytes (utf8 u) | Bitcoin h \<Rightarrow> wr_varuint h | Litecoin h \<Rightarrow> wr_varuint h
     | Ethereum h \<Rightarrow> wr_varuint h | UnknownAttestation _ p \<Rightarrow> p)"

definition writeAttestation :: "Attestation \<Rightarrow> bytes" where
  "writeAttestation a = hexToBytes (attestationTag a) @ wr_varbytes (attestationPayload a)"

definition readOp :: "byte \<Rightarrow> bytes \<Rightarrow> (AnchorOp \<times> bytes) res" where
  "readOp tag bs = (if tag = OP_APPEND \<or> tag = OP_PREPEND
     then rbind (varbytes bs) (\<lambda>(arg, r). Inr (\<lparr>op_tag = tag, op_arg = Some arg\<rparr>, r))
     else Inr (\<lparr>op_tag = tag, op_arg = None\<rparr>, bs))"

definition argOf :: "AnchorOp \<Rightarrow> bytes" where
  "argOf op = (case op_arg op of Some a \<Rightarrow> a | None \<Rightarrow> [])"

definition applyOp :: "env \<Rightarrow> AnchorOp \<Rightarrow> bytes \<Rightarrow> bytes res" where
  "applyOp P op msg =
     (let t = op_tag op in
      if t = OP_SHA256 then Inr (sha256 P msg)
      else if t = OP_SHA1 then Inr (sha1 P msg)
      else if t = OP_RIPEMD160 then Inr (ripemd160 P msg)
      else if t = OP_KECCAK256 then Inr (keccak_256 P msg)
      else if t = OP_APPEND then Inr (msg @ argOf op)
      else if t = OP_PREPEND then Inr (argOf op @ msg)
      else if t = OP_REVERSE then Inr (rev msg)
      else if t = OP_HEXLIFY then Inr (utf8 (toHex msg))
      else Inl (Error ''unknown operation''))"

definition writeOp :: "AnchorOp \<Rightarrow> bytes" where
  "writeOp op = op_tag op # (case op_arg op of Some a \<Rightarrow> wr_varbytes a | None \<Rightarrow> [])"

section \<open>Timestamps\<close>

text \<open>The items of a timestamp, one after the other; \<open>0xff\<close> says that another one follows.  \<open>atts\<close> and \<open>ops\<close> are what was read so
  far.\<close>

fun readItems :: "env \<Rightarrow> nat \<Rightarrow> bytes \<Rightarrow> Attestation list \<Rightarrow> (AnchorOp \<times> Timestamp) list \<Rightarrow> bytes \<Rightarrow> (Timestamp \<times> bytes) run" where
  "readItems P 0 msg atts ops bs = None"
| "readItems P (Suc fuel) msg atts ops bs =
     runbind (Some (rd_byte bs)) (\<lambda>(first, r0).
     runbind (if first = 0xff then Some (rd_byte r0) else Some (Inr (first, r0))) (\<lambda>(tag, r1).
     runbind (if tag = 0x00 then Some (rbind (readAttestation P r1) (\<lambda>(a, r2). Inr (atts @ [a], ops, r2)))
              else runbind (Some (readOp tag r1)) (\<lambda>(op, r2).
                   runbind (Some (applyOp P op msg)) (\<lambda>msg'.
                   runbind (readItems P fuel msg' [] [] r2) (\<lambda>(stamp, r3). Some (Inr (atts, ops @ [(op, stamp)], r3))))))
       (\<lambda>(atts', ops', r). if first = 0xff then readItems P fuel msg atts' ops' r else Some (Inr (Timestamp msg atts' ops', r)))))"

definition readTimestamp :: "env \<Rightarrow> bytes \<Rightarrow> bytes \<Rightarrow> (Timestamp \<times> bytes) run" where
  "readTimestamp P bs msg = readItems P (Suc (length bs)) msg [] [] bs"

text \<open>The order of the format.\<close>

fun bytesLe :: "bytes \<Rightarrow> bytes \<Rightarrow> bool" where
  "bytesLe [] b = True"
| "bytesLe (x # a) [] = False"
| "bytesLe (x # a) (y # b) = (unat x < unat y \<or> (x = y \<and> bytesLe a b))"

definition opLe :: "AnchorOp \<Rightarrow> AnchorOp \<Rightarrow> bool" where
  "opLe a b = (if op_tag a \<noteq> op_tag b then unat (op_tag a) \<le> unat (op_tag b) else bytesLe (argOf a) (argOf b))"

definition attestationLe :: "Attestation \<Rightarrow> Attestation \<Rightarrow> bool" where
  "attestationLe a b = (case (a, b) of
       (Pending u, Pending v) \<Rightarrow> strLe u v
     | (Bitcoin h, Bitcoin k) \<Rightarrow> h \<le> k
     | (Litecoin h, Litecoin k) \<Rightarrow> h \<le> k
     | (Ethereum h, Ethereum k) \<Rightarrow> h \<le> k
     | (UnknownAttestation s p, UnknownAttestation t q) \<Rightarrow>
         if hexToBytes s \<noteq> hexToBytes t then bytesLe (hexToBytes s) (hexToBytes t) else bytesLe p q
     | _ \<Rightarrow> bytesLe (hexToBytes (attestationTag a)) (hexToBytes (attestationTag b)))"

text \<open>\<open>0xff\<close> before every item but the last.\<close>

fun joinItems :: "bytes list \<Rightarrow> bytes" where
  "joinItems [] = []"
| "joinItems [i] = i"
| "joinItems (i # j # is) = 0xff # i @ joinItems (j # is)"

fun writeTimestamp :: "Timestamp \<Rightarrow> bytes res" where
  "writeTimestamp (Timestamp msg atts ops) =
     (if atts = [] \<and> ops = [] then Inl (Error ''a timestamp with neither attestation nor operation says nothing'')
      else rbind (mapM (\<lambda>(op, stamp). rbind (writeTimestamp stamp) (\<lambda>w. Inr (op, w))) ops) (\<lambda>written.
        Inr (joinItems (map (\<lambda>a. 0x00 # writeAttestation a) (sortBy attestationLe atts)
          @ map (\<lambda>(op, w). writeOp op @ w) (sortBy (\<lambda>x y. opLe (fst x) (fst y)) written)))))"

section \<open>Proof files\<close>

definition parseProof :: "env \<Rightarrow> bytes \<Rightarrow> (bytes \<times> Timestamp) run" where
  "parseProof P bs =
     runbind (Some (expect HEADER_MAGIC bs)) (\<lambda>r1.
     runbind (Some (varuint r1)) (\<lambda>(version, r2).
     if version \<noteq> 1 then Some (Inl (Error ''proof version is not supported''))
     else runbind (Some (rd_byte r2)) (\<lambda>(hashOp, r3).
     runbind (Some (rd_take (if hashOp = OP_SHA256 \<or> hashOp = OP_KECCAK256 then 32 else 20) r3)) (\<lambda>(digest, r4).
     runbind (readTimestamp P r4 digest) (\<lambda>(stamp, _). Some (Inr (digest, stamp)))))))"

definition serialiseProof :: "bytes \<Rightarrow> Timestamp \<Rightarrow> bytes res" where
  "serialiseProof digest stamp =
     rbind (writeTimestamp stamp) (\<lambda>w. Inr (HEADER_MAGIC @ wr_varuint 1 @ [OP_SHA256] @ digest @ w))"


section \<open>Merging and walking\<close>

text \<open>\<^verbatim>\<open>merge\<close> changes its first argument in place; here it returns the changed tree.  The second tree is freshly read at every call in
  the repository, so taking over its entries shares them with nothing else.  An error in the middle would leave the first tree
  partly changed; \<open>merge_total\<close> below shows that on trees that were read there is none.\<close>

definition attestationKey :: "Attestation \<Rightarrow> bytes" where
  "attestationKey a = writeAttestation a"

definition opKey :: "AnchorOp \<Rightarrow> bytes" where
  "opKey op = writeOp op"

definition mergeAttestations :: "Attestation list \<Rightarrow> Attestation list \<Rightarrow> Attestation list" where
  "mergeAttestations mine theirs = fold (\<lambda>a have.
     if \<exists>e\<in>set have. toHex (attestationKey e) = toHex (attestationKey a) then have else have @ [a]) theirs mine"

text \<open>\<^verbatim>\<open>into.ops.find(...)\<close>: the position of the first entry with the same key.\<close>

fun findOp :: "AnchorOp \<Rightarrow> (AnchorOp \<times> Timestamp) list \<Rightarrow> nat option" where
  "findOp op [] = None"
| "findOp op ((o1, s) # r) = (if toHex (opKey o1) = toHex (opKey op) then Some 0 else map_option Suc (findOp op r))"

fun merge :: "Timestamp \<Rightarrow> Timestamp \<Rightarrow> Timestamp res"
  and mergeOps :: "(AnchorOp \<times> Timestamp) list \<Rightarrow> (AnchorOp \<times> Timestamp) list \<Rightarrow> (AnchorOp \<times> Timestamp) list res" where
  "merge (Timestamp m atts ops) (Timestamp m' atts' ops') =
     (if toHex m \<noteq> toHex m' then Inl (Error ''refusing to merge proofs about different messages'')
      else rbind (mergeOps ops ops') (\<lambda>ops2. Inr (Timestamp m (mergeAttestations atts atts') ops2)))"
| "mergeOps ops [] = Inr ops"
| "mergeOps ops ((op, s) # r) =
     (case findOp op ops of
        Some i \<Rightarrow> rbind (merge (snd (ops ! i)) s) (\<lambda>s'. mergeOps (ops[i := (fst (ops ! i), s')]) r)
      | None \<Rightarrow> mergeOps (ops @ [(op, s)]) r)"

record Reached =
  reached_attestation :: Attestation
  commitment :: bytes

fun reachable :: "Timestamp \<Rightarrow> Reached list" where
  "reachable (Timestamp m atts ops) =
     map (\<lambda>a. \<lparr>reached_attestation = a, commitment = m\<rparr>) atts @ concat (map (\<lambda>(op, s). reachable s) ops)"

section \<open>The calendars\<close>

text \<open>What a request comes to: it fails (a time-out included), or a status and a body, reading which may fail too.\<close>

datatype Fetched = NoResponse | Response nat "bytes option"

definition okStatus :: "nat \<Rightarrow> bool" where
  "okStatus n = (200 \<le> n \<and> n \<le> 299)"

record SubmitResult =
  submit_digest :: bytes
  submit_timestamp :: Timestamp
  accepted :: "string list"
  refused :: "string list"

text \<open>One calendar's answer, read against \<open>msg\<close>.\<close>

definition readAnswer :: "env \<Rightarrow> Fetched \<Rightarrow> bytes \<Rightarrow> Timestamp run" where
  "readAnswer P ans msg = (case ans of
       Response status (Some body) \<Rightarrow>
         if \<not> okStatus status then Some (Inl (Error ''HTTP''))
         else runbind (readTimestamp P body msg) (\<lambda>(stamp, _). Some (Inr stamp))
     | _ \<Rightarrow> Some (Inl (Error ''fetch failed'')))"

text \<open>The calendars are asked at once; \<open>answers\<close> are their answers in the order they arrive, which is the order the callbacks
  run in.\<close>

fun submitLoop :: "env \<Rightarrow> bytes \<Rightarrow> (string \<times> Fetched) list \<Rightarrow> SubmitResult \<Rightarrow> SubmitResult option" where
  "submitLoop P digest [] acc = Some acc"
| "submitLoop P digest ((calendar, ans) # r) acc =
     (case runbind (readAnswer P ans digest) (\<lambda>fresh. Some (merge (submit_timestamp acc) fresh)) of
        None \<Rightarrow> None
      | Some (Inl _) \<Rightarrow> submitLoop P digest r (acc\<lparr>refused := refused acc @ [calendar]\<rparr>)
      | Some (Inr t) \<Rightarrow> submitLoop P digest r (acc\<lparr>submit_timestamp := t, accepted := accepted acc @ [calendar]\<rparr>))"

definition submit :: "env \<Rightarrow> bytes \<Rightarrow> (string \<times> Fetched) list \<Rightarrow> SubmitResult run" where
  "submit P digest answers =
     (if length digest \<noteq> 32 then Some (Inl (Error ''anchor a 32-byte digest''))
      else case submitLoop P digest answers \<lparr>submit_digest = digest, submit_timestamp = Timestamp digest [] [], accepted = [], refused = []\<rparr> of
             None \<Rightarrow> None
           | Some res \<Rightarrow> if accepted res = [] then Some (Inl (Error ''no calendar accepted the digest'')) else Some (Inr res))"

record UpgradeResult =
  upgraded :: bool
  upgrade_heights :: "nat list"
  stillPending :: nat

fun spliceAt :: "Timestamp \<Rightarrow> bytes \<Rightarrow> Timestamp \<Rightarrow> Timestamp res" where
  "spliceAt (Timestamp m atts ops) c fresh =
     (if toHex m = toHex c then merge (Timestamp m atts ops) fresh
      else rbind (mapM (\<lambda>(op, s). rbind (spliceAt s c fresh) (\<lambda>s'. Inr (op, s'))) ops) (\<lambda>ops'. Inr (Timestamp m atts ops')))"

fun uriOf :: "Attestation \<Rightarrow> string option" where
  "uriOf (Pending u) = Some u"
| "uriOf _ = None"

fun heightOf :: "Attestation \<Rightarrow> nat option" where
  "heightOf (Bitcoin h) = Some h"
| "heightOf _ = None"

text \<open>One pass over the entries that were pending at the start; \<open>answer i uri c\<close> is what the \<open>i\<close>-th request brings.\<close>

fun upgradeLoop :: "env \<Rightarrow> (nat \<Rightarrow> string \<Rightarrow> string \<Rightarrow> Fetched) \<Rightarrow> nat \<Rightarrow> (string \<times> bytes) list \<Rightarrow> Timestamp \<times> bool \<times> nat
    \<Rightarrow> (Timestamp \<times> bool \<times> nat) option" where
  "upgradeLoop P answer i [] acc = Some acc"
| "upgradeLoop P answer i ((uri, c) # r) (stamp, up, still) =
     (let ans = answer i uri (toHex c)
      in case runbind (readAnswer P ans c) (\<lambda>fresh. Some (spliceAt stamp c fresh)) of
           None \<Rightarrow> None
         | Some (Inl _) \<Rightarrow> upgradeLoop P answer (Suc i) r (stamp, up, still + 1)
         | Some (Inr t) \<Rightarrow> upgradeLoop P answer (Suc i) r (t, True, still))"

definition pendingOf :: "Timestamp \<Rightarrow> (string \<times> bytes) list" where
  "pendingOf t = List.map_filter (\<lambda>e. map_option (\<lambda>u. (u, commitment e)) (uriOf (reached_attestation e))) (reachable t)"

definition bitcoinOf :: "Timestamp \<Rightarrow> (nat \<times> bytes) list" where
  "bitcoinOf t = List.map_filter (\<lambda>e. map_option (\<lambda>h. (h, commitment e)) (heightOf (reached_attestation e))) (reachable t)"

definition uniq :: "'a list \<Rightarrow> 'a list" where
  "uniq xs = fold sadd xs []"

definition upgrade :: "env \<Rightarrow> Timestamp \<Rightarrow> (nat \<Rightarrow> string \<Rightarrow> string \<Rightarrow> Fetched) \<Rightarrow> (Timestamp \<times> UpgradeResult) option" where
  "upgrade P t answer = (case upgradeLoop P answer 0 (pendingOf t) (t, False, 0) of
       None \<Rightarrow> None
     | Some (t', up, still) \<Rightarrow>
         Some (t', \<lparr>upgraded = up, upgrade_heights = sort (uniq (map fst (bitcoinOf t'))), stillPending = still\<rparr>))"

section \<open>Verification\<close>

datatype AnchorStatus = Confirmed | PendingBlock | Submitted | AnchorFail

record AnchorCheck =
  anchor_status :: AnchorStatus
  anchor_heights :: "nat list"
  anchor_calendars :: "string list"

text \<open>\<^verbatim>\<open>toLowerCase\<close> on ASCII letters; it is compared with lower-case hex.\<close>

definition toLower :: "string \<Rightarrow> string" where
  "toLower s = map (\<lambda>c. let n = of_char c :: nat in if 65 \<le> n \<and> n \<le> 90 then char_of (n + 32) else c) s"

fun checkHeaders :: "(nat \<Rightarrow> string option res) \<Rightarrow> (nat \<times> bytes) list \<Rightarrow> AnchorStatus res" where
  "checkHeaders headers [] = Inr Confirmed"
| "checkHeaders headers ((h, c) # r) =
     rbind (headers h) (\<lambda>expected. case expected of
         None \<Rightarrow> Inr PendingBlock
       | Some e \<Rightarrow> if toHex (rev c) \<noteq> toLower e then Inr AnchorFail else checkHeaders headers r)"

definition verifyAnchor :: "bytes \<Rightarrow> Timestamp \<Rightarrow> (nat \<Rightarrow> string option res) option \<Rightarrow> AnchorCheck res" where
  "verifyAnchor digest t headers =
     (if toHex (ts_msg t) \<noteq> toHex digest then Inr \<lparr>anchor_status = AnchorFail, anchor_heights = [], anchor_calendars = []\<rparr>
      else let calendars = map fst (pendingOf t); bitcoin = bitcoinOf t; heights = uniq (map fst bitcoin)
        in if bitcoin = [] then Inr \<lparr>anchor_status = Submitted, anchor_heights = [], anchor_calendars = calendars\<rparr>
        else case headers of
            None \<Rightarrow> Inr \<lparr>anchor_status = PendingBlock, anchor_heights = heights, anchor_calendars = calendars\<rparr>
          | Some hs \<Rightarrow> rbind (checkHeaders hs bitcoin)
              (\<lambda>st. Inr \<lparr>anchor_status = st, anchor_heights = heights, anchor_calendars = calendars\<rparr>))"

section \<open>Proofs in receipts\<close>

record AnchorProof =
  ap_kind :: string
  ap_chain :: string
  ap_target :: string
  ap_tree_size :: int
  ap_proof :: string
  ap_calendars :: "string list"
  ap_submitted_at :: string
  ap_heights :: "nat list"

definition anchorHead :: "env \<Rightarrow> string \<Rightarrow> int \<Rightarrow> (string \<times> Fetched) list \<Rightarrow> string \<Rightarrow> AnchorProof run" where
  "anchorHead P rootHash treeSize answers now =
     runbind (submit P (hexToBytes (if startsWith rootHash MULTIHASH_PREFIX then drop (length MULTIHASH_PREFIX) rootHash else rootHash)) answers)
       (\<lambda>res. runbind (Some (serialiseProof (submit_digest res) (submit_timestamp res)))
       (\<lambda>bs. Some (Inr \<lparr>ap_kind = ''opentimestamps'', ap_chain = ''bitcoin'', ap_target = rootHash, ap_tree_size = treeSize,
          ap_proof = toBase64 bs, ap_calendars = accepted res, ap_submitted_at = now, ap_heights = []\<rparr>)))"

definition upgradeProof :: "env \<Rightarrow> AnchorProof \<Rightarrow> (nat \<Rightarrow> string \<Rightarrow> string \<Rightarrow> Fetched) \<Rightarrow> (AnchorProof \<times> UpgradeResult) run" where
  "upgradeProof P a answer =
     runbind (Some (fromBase64 (ap_proof a))) (\<lambda>bs.
     runbind (parseProof P bs) (\<lambda>(digest, t).
     case upgrade P t answer of
       None \<Rightarrow> None
     | Some (t', res) \<Rightarrow> runbind (Some (serialiseProof digest t'))
         (\<lambda>out. Some (Inr (a\<lparr>ap_proof := toBase64 out, ap_heights := upgrade_heights res\<rparr>, res)))))"


section \<open>Reading ends\<close>

lemma rd_take_ok: "rd_take n bs = Inr (v, r) \<Longrightarrow> v = take n bs \<and> r = drop n bs \<and> n \<le> length bs"
  by (auto simp: rd_take_def split: if_splits)

lemma rd_varuint_shorter: "rd_varuint v s bs = Inr (n, r) \<Longrightarrow> length r < length bs"
  by (induction v s bs rule: rd_varuint.induct) (auto simp: Let_def less_Suc_eq split: if_splits)

lemma varuint_shorter: "varuint bs = Inr (n, r) \<Longrightarrow> length r < length bs"
  by (auto simp: varuint_def dest: rd_varuint_shorter)

lemma varbytes_shorter: "varbytes bs = Inr (v, r) \<Longrightarrow> length r < length bs"
  by (auto simp: varbytes_def rbind_Inr_iff dest!: rd_take_ok varuint_shorter)

lemma readAttestation_shorter:
  assumes "readAttestation P bs = Inr (a, r)"
  shows "length r < length bs"
proof -
  obtain t r1 payload where a: "rd_take 8 bs = Inr (t, r1)" "varbytes r1 = Inr (payload, r)"
    using assms by (auto simp: readAttestation_def rbind_Inr_iff Let_def split: if_splits)
  then show ?thesis using rd_take_ok [OF a(1)] varbytes_shorter [OF a(2)] by auto
qed

lemma readOp_shorter: "readOp t bs = Inr (op, r) \<Longrightarrow> length r \<le> length bs"
  by (auto simp: readOp_def rbind_Inr_iff split: if_splits dest!: varbytes_shorter)

text \<open>Every way \<open>readItems\<close> can go on.\<close>

lemma readItems_Suc:
  "readItems P (Suc f) m atts ops bs = (case bs of
       [] \<Rightarrow> Some (Inl (Error ''proof ended mid-structure''))
     | b # r0 \<Rightarrow>
       if b = 0xff \<and> r0 = [] then Some (Inl (Error ''proof ended mid-structure''))
       else let tag = (if b = 0xff then hd r0 else b); r1 = (if b = 0xff then tl r0 else r0);
                next = (\<lambda>atts' ops' r. if b = 0xff then readItems P f m atts' ops' r else Some (Inr (Timestamp m atts' ops', r)))
         in if tag = 0x00 then runbind (Some (readAttestation P r1)) (\<lambda>(a, r2). next (atts @ [a]) ops r2)
            else runbind (Some (readOp tag r1)) (\<lambda>(op, r2). runbind (Some (applyOp P op m)) (\<lambda>m'.
                 runbind (readItems P f m' [] [] r2) (\<lambda>(s, r3). next atts (ops @ [(op, s)]) r3))))"
  by (cases bs; cases "tl bs")
     (auto simp: rd_byte_def Let_def runbind_def rbind_def split: option.splits sum.splits prod.splits)

declare readItems.simps(2) [simp del]

lemma readItems_total:
  "length bs < f \<Longrightarrow> \<exists>x. readItems P f m atts ops bs = Some x \<and> (\<forall>t r. x = Inr (t, r) \<longrightarrow> length r < length bs)"
proof (induction f arbitrary: m atts ops bs)
  case (Suc f)
  show ?case
  proof (cases "bs = [] \<or> bs = [0xff]")
    case True
    then show ?thesis by (auto simp: readItems_Suc)
  next
    case False
    then obtain b r0 where bs: "bs = b # r0" and nb: "b \<noteq> 0xff \<or> r0 \<noteq> []" by (cases bs) auto
    define tag r1 where d: "tag = (if b = 0xff then hd r0 else b)" "r1 = (if b = 0xff then tl r0 else r0)"
    let ?next = "\<lambda>atts' ops' r. if b = 0xff then readItems P f m atts' ops' r else Some (Inr (Timestamp m atts' ops', r))"
    have lr1: "length r1 \<le> length r0" "length r0 < Suc f" "length r1 < length bs" "length r1 \<le> f"
      using bs Suc.prems by (auto simp: d)
    have nxt: "\<exists>x. ?next atts' ops' r = Some x \<and> (\<forall>t q. x = Inr (t, q) \<longrightarrow> length q < length bs)" if "length r < f" "length r < length bs" for atts' ops' r
      using Suc.IH [OF that(1), of m atts' ops'] that(2) by (auto split: if_splits dest: less_trans)
    show ?thesis
    proof (cases "tag = 0")
      case True
      show ?thesis
      proof (cases "readAttestation P r1")
        case (Inl e)
        then show ?thesis using True nb by (simp add: readItems_Suc bs Let_def d [symmetric])
      next
        case (Inr ar)
        obtain a r2 where ar: "ar = (a, r2)" by force
        have "length r2 < length r1" using readAttestation_shorter Inr ar by blast
        then show ?thesis using nxt [of r2 "atts @ [a]" ops] True Inr ar nb lr1 by (simp add: readItems_Suc bs Let_def d [symmetric])
      qed
    next
      case tag: False
      show ?thesis
      proof (cases "\<exists>op r2 m'. readOp tag r1 = Inr (op, r2) \<and> applyOp P op m = Inr m'")
        case False
        then show ?thesis using tag nb
          by (cases "readOp tag r1"; cases "applyOp P (fst (projr (readOp tag r1))) m")
             (auto simp: readItems_Suc bs Let_def d [symmetric])
      next
        case True
        then obtain op r2 m' where o: "readOp tag r1 = Inr (op, r2)" "applyOp P op m = Inr m'" by auto
        have l2: "length r2 \<le> length r1" by (rule readOp_shorter [OF o(1)])
        show ?thesis
        proof (cases "length r2 < f")
          case True
          obtain x where x: "readItems P f m' [] [] r2 = Some x" "\<forall>t r. x = Inr (t, r) \<longrightarrow> length r < length r2"
            using Suc.IH [OF True, of m' "[]" "[]"] by blast
          show ?thesis
          proof (cases x)
            case (Inl e)
            then show ?thesis using tag nb o x by (simp add: readItems_Suc bs Let_def d [symmetric])
          next
            case (Inr sr)
            obtain s r3 where sr: "sr = (s, r3)" by force
            then have "length r3 < length r2" using x(2) Inr by simp
            then show ?thesis using nxt [of r3 atts "ops @ [(op, s)]"] tag nb o x Inr sr l2 lr1 True
              by (simp add: readItems_Suc bs Let_def d [symmetric])
          qed
        next
          case False
          then show ?thesis using l2 lr1 Suc.prems bs by simp
        qed
      qed
    qed
  qed
qed simp

lemma readItems_more: "readItems P f m atts ops bs = Some x \<Longrightarrow> readItems P (f + k) m atts ops bs = Some x"
proof (induction f arbitrary: m atts ops bs x)
  case (Suc f)
  have run: "runbind r g = Some y \<Longrightarrow> (\<And>z. r = Some z \<Longrightarrow> r' = Some z) \<Longrightarrow> (\<And>z w. g z = Some w \<Longrightarrow> g' z = Some w) \<Longrightarrow> runbind r' g' = Some y"
    for r r' :: "'x run" and g g' :: "'x \<Rightarrow> 'y run" and y
    by (auto simp: runbind_def split: option.splits sum.splits)
  show ?case using Suc.prems
    unfolding add_Suc readItems_Suc Let_def
    by (auto split: list.splits if_splits elim!: run intro!: Suc.IH)
qed simp


section \<open>What was read is derived from the digest\<close>

text \<open>\<open>derived P t\<close>: the message at every operation's end is what the operation computes.\<close>

fun derived :: "env \<Rightarrow> Timestamp \<Rightarrow> bool" where
  "derived P (Timestamp m atts ops) = list_all (\<lambda>(op, s). applyOp P op m = Inr (ts_msg s) \<and> derived P s) ops"

lemma readItems_derived:
  "readItems P f m atts ops bs = Some (Inr (t, r)) \<Longrightarrow> derived P (Timestamp m atts ops) \<Longrightarrow> derived P t \<and> ts_msg t = m"
proof (induction f arbitrary: m atts ops bs t r)
  case (Suc f)
  show ?case using Suc.prems
    by (auto simp: readItems_Suc Let_def runbind_ok_iff split: list.splits if_splits prod.splits dest!: Suc.IH)
qed simp

lemma readTimestamp_derived: "readTimestamp P bs m = Some (Inr (t, r)) \<Longrightarrow> derived P t \<and> ts_msg t = m"
  by (auto simp: readTimestamp_def dest: readItems_derived)

lemma readTimestamp_total: "\<exists>x. readTimestamp P bs m = Some x"
  using readItems_total [of bs "Suc (length bs)" P m "[]" "[]"] by (auto simp: readTimestamp_def)

inductive commits :: "env \<Rightarrow> bytes \<Rightarrow> bytes \<Rightarrow> bool" for P where
  commits_self: "commits P d d"
| commits_step: "applyOp P op d = Inr m \<Longrightarrow> commits P m c \<Longrightarrow> commits P d c"

lemma reachable_commits: "derived P t \<Longrightarrow> e \<in> set (reachable t) \<Longrightarrow> commits P (ts_msg t) (commitment e)"
proof (induction t arbitrary: e)
  case (Timestamp m atts ops)
  show ?case
  proof (cases "\<exists>op s. (op, s) \<in> set ops \<and> e \<in> set (reachable s)")
    case True
    then obtain op s where s: "(op, s) \<in> set ops" "e \<in> set (reachable s)" by blast
    then have "applyOp P op m = Inr (ts_msg s)" "derived P s" using Timestamp.prems(1) by (auto simp: list_all_iff)
    then show ?thesis using Timestamp.IH [of "(op, s)" s e] s by (auto intro: commits_step)
  next
    case False
    then show ?thesis using Timestamp.prems(2) by (auto intro: commits_self)
  qed
qed

section \<open>What was written reads back\<close>

lemma rd_wr_varuint: "v + n * 2 ^ s < 2 ^ 53 \<Longrightarrow> rd_varuint v s (wr_varuint n @ r) = Inr (v + n * 2 ^ s, r)"
proof (induction n arbitrary: v s rule: wr_varuint.induct)
  case (1 n)
  show ?case
  proof (cases "n < 128")
    case True
    then show ?thesis using 1(2) by (simp add: wr_varuint.simps [of n] unat_of_nat_byte Let_def)
  next
    case False
    have split: "n * 2 ^ s = n mod 128 * 2 ^ s + n div 128 * 2 ^ (s + 7)"
    proof -
      have "n * 2 ^ s = (n mod 128 + 128 * (n div 128)) * 2 ^ s" by simp
      then show ?thesis by (simp only: add_mult_distrib power_add) simp
    qed
    have u: "unat (of_nat (n mod 128 + 128) :: byte) = n mod 128 + 128" by (rule unat_of_nat_byte) simp
    have "(2::nat) ^ (s + 7) \<le> n * 2 ^ s" using False by (simp add: power_add)
    then have "(2::nat) ^ (s + 7) < 2 ^ 53" using 1(2) by linarith
    then have "s + 7 < 53" by (rule power_less_imp_less_exp [rotated]) simp
    moreover have "v + n mod 128 * 2 ^ s < 2 ^ 53" using 1(2) split by linarith
    moreover have "rd_varuint (v + n mod 128 * 2 ^ s) (s + 7) (wr_varuint (n div 128) @ r) = Inr (v + n mod 128 * 2 ^ s + n div 128 * 2 ^ (s + 7), r)"
      using 1(2) split by (intro 1(1) [OF False]) linarith
    ultimately show ?thesis using False u split by (simp add: wr_varuint.simps [of n] Let_def)
  qed
qed

lemma varuint_wr [simp]: "n < 2 ^ 53 \<Longrightarrow> varuint (wr_varuint n @ r) = Inr (n, r)"
  using rd_wr_varuint [of 0 n 0 r] by (simp add: varuint_def)

lemma varuint_wr_end [simp]: "n < 2 ^ 53 \<Longrightarrow> varuint (wr_varuint n) = Inr (n, [])"
  using varuint_wr [of n "[]"] by simp

lemma varbytes_wr [simp]: "length v < 2 ^ 53 \<Longrightarrow> varbytes (wr_varbytes v @ r) = Inr (v, r)"
  by (simp add: varbytes_def wr_varbytes_def rd_take_def)

lemma varbytes_wr_end [simp]: "length v < 2 ^ 53 \<Longrightarrow> varbytes (wr_varbytes v) = Inr (v, [])"
  using varbytes_wr [of v "[]"] by simp

lemma pairBytes_hexPairs: "list_all isHexChar s \<Longrightarrow> pairBytes s = hexPairs s"
  by (induction s rule: pairBytes.induct) (auto simp: parsePair_def)

lemma toHex_hexToBytes: "list_all isLowerHex s \<Longrightarrow> even (length s) \<Longrightarrow> toHex (hexToBytes s) = s"
proof -
  assume s: "list_all isLowerHex s" "even (length s)"
  have "\<not> startsWith s ''hex:''" using s by (cases s) (auto simp: isLowerHex_def)
  moreover have "list_all isHexChar s" using s(1) by (auto simp: list_all_iff isHexChar_lower)
  ultimately show ?thesis using s by (simp add: hexToBytes_def pairBytes_hexPairs toHex_hexPairs)
qed

lemma length_hexToBytes: "list_all isLowerHex s \<Longrightarrow> even (length s) \<Longrightarrow> 2 * length (hexToBytes s) = length s"
  using toHex_hexToBytes [of s] length_toHex [of "hexToBytes s"] by simp

text \<open>What a proof must be like for its bytes to say all of it.\<close>

definition blockTags :: "string list" where
  "blockTags = [TAG_PENDING, TAG_BITCOIN, TAG_LITECOIN, TAG_ETHEREUM]"

fun attestation_ok :: "env \<Rightarrow> Attestation \<Rightarrow> bool" where
  "attestation_ok P (Pending u) = (text_decode P (utf8 u) = u \<and> length (wr_varbytes (utf8 u)) < 2 ^ 53)"
| "attestation_ok P (UnknownAttestation t p) = (p = [] \<and> length t = 16 \<and> list_all isLowerHex t \<and> t \<notin> set blockTags)"
| "attestation_ok P (Bitcoin h) = (h < 2 ^ 53)"
| "attestation_ok P (Litecoin h) = (h < 2 ^ 53)"
| "attestation_ok P (Ethereum h) = (h < 2 ^ 53)"

definition op_ok :: "AnchorOp \<Rightarrow> bool" where
  "op_ok op = (case op_arg op of
       Some a \<Rightarrow> (op_tag op = OP_APPEND \<or> op_tag op = OP_PREPEND) \<and> length a < 2 ^ 53
     | None \<Rightarrow> op_tag op \<noteq> OP_APPEND \<and> op_tag op \<noteq> OP_PREPEND)"

fun stamp_ok :: "env \<Rightarrow> Timestamp \<Rightarrow> bool" where
  "stamp_ok P (Timestamp m atts ops) = ((atts \<noteq> [] \<or> ops \<noteq> []) \<and> list_all (attestation_ok P) atts
     \<and> list_all (\<lambda>(op, s). op_ok op \<and> applyOp P op m = Inr (ts_msg s) \<and> stamp_ok P s) ops)"

lemma tag_table: "list_all (\<lambda>t. list_all isLowerHex t \<and> length t = 16) blockTags"
  by code_simp

lemma tags_distinct:
  "TAG_BITCOIN \<noteq> TAG_PENDING" "TAG_LITECOIN \<noteq> TAG_PENDING" "TAG_LITECOIN \<noteq> TAG_BITCOIN"
  "TAG_ETHEREUM \<noteq> TAG_PENDING" "TAG_ETHEREUM \<noteq> TAG_BITCOIN" "TAG_ETHEREUM \<noteq> TAG_LITECOIN"
  by (simp_all add: TAG_PENDING_def TAG_BITCOIN_def TAG_LITECOIN_def TAG_ETHEREUM_def)

lemma length_wr_varuint: "length (wr_varuint n) \<le> max 1 n"
proof (induction n rule: wr_varuint.induct)
  case (1 n)
  show ?case
  proof (cases "n < 128")
    case False
    then have "Suc (max 1 (n div 128)) \<le> n" by auto
    then show ?thesis using False 1 by (auto simp: wr_varuint.simps [of n])
  qed (simp add: wr_varuint.simps [of n])
qed

lemma wr_varuint_short: "n < 2 ^ 53 \<Longrightarrow> length (wr_varuint n) < 2 ^ 53"
  using le_less_trans [OF length_wr_varuint [of n], of "2 ^ 53"] by simp

lemma readAttestation_write: "attestation_ok P a \<Longrightarrow> readAttestation P (writeAttestation a @ r) = Inr (a, r)"
proof -
  assume ok: "attestation_ok P a"
  let ?t = "hexToBytes (attestationTag a)"
  have "list_all isLowerHex (attestationTag a)" "length (attestationTag a) = 16"
    using ok tag_table by (cases a; simp add: attestationTag_def blockTags_def)+
  then have t: "toHex ?t = attestationTag a" "length ?t = 8" using toHex_hexToBytes length_hexToBytes [of "attestationTag a"] by auto
  have len: "length (attestationPayload a) < 2 ^ 53"
    using ok by (cases a) (use wr_varuint_short in \<open>auto simp: attestationPayload_def\<close>)
  have "rd_take 8 (writeAttestation a @ r) = Inr (?t, wr_varbytes (attestationPayload a) @ r)"
    using t(2) by (simp add: rd_take_def writeAttestation_def)
  then have "readAttestation P (writeAttestation a @ r) = rbind (varbytes (wr_varbytes (attestationPayload a) @ r)) (\<lambda>(payload, r2).
       let tag = attestationTag a in
       if tag = TAG_PENDING then rbind (varbytes payload) (\<lambda>(u, _). Inr (Pending (text_decode P u), r2))
       else if tag = TAG_BITCOIN then rbind (varuint payload) (\<lambda>(h, _). Inr (Bitcoin h, r2))
       else if tag = TAG_LITECOIN then rbind (varuint payload) (\<lambda>(h, _). Inr (Litecoin h, r2))
       else if tag = TAG_ETHEREUM then rbind (varuint payload) (\<lambda>(h, _). Inr (Ethereum h, r2))
       else Inr (UnknownAttestation tag [], r2))"
    by (simp add: readAttestation_def t(1))
  also have "\<dots> = Inr (a, r)"
  proof (cases a)
    case (Pending u)
    then have "length (utf8 u) < 2 ^ 53" using ok by (simp add: wr_varbytes_def)
    then show ?thesis using ok len Pending by (simp add: attestationTag_def attestationPayload_def)
  qed (use ok len in \<open>auto simp: attestationTag_def attestationPayload_def tags_distinct blockTags_def\<close>)
  finally show ?thesis .
qed

lemma readOp_write: "op_ok op \<Longrightarrow> readOp (op_tag op) (tl (writeOp op) @ r) = Inr (op, r)"
  by (cases op) (auto simp: op_ok_def readOp_def writeOp_def split: option.splits)

lemma applied_tag: "applyOp P op m = Inr m' \<Longrightarrow> op_tag op \<noteq> 0 \<and> op_tag op \<noteq> 0xff"
  by (auto simp: applyOp_def Let_def op_tags split: if_splits)

text \<open>\<open>reads\<close>: some fuel reads \<open>t\<close> and leaves \<open>r\<close>.\<close>

definition reads :: "env \<Rightarrow> bytes \<Rightarrow> Attestation list \<Rightarrow> (AnchorOp \<times> Timestamp) list \<Rightarrow> bytes \<Rightarrow> Timestamp \<Rightarrow> bytes \<Rightarrow> bool" where
  "reads P m atts ops bs t r = (\<exists>f. readItems P f m atts ops bs = Some (Inr (t, r)))"

lemma reads_readTimestamp: "reads P m [] [] bs t r \<Longrightarrow> readTimestamp P bs m = Some (Inr (t, r))"
proof -
  assume "reads P m [] [] bs t r"
  then obtain f where f: "readItems P f m [] [] bs = Some (Inr (t, r))" by (auto simp: reads_def)
  obtain x where x: "readItems P (Suc (length bs)) m [] [] bs = Some x"
    using readItems_total [of bs "Suc (length bs)" P m "[]" "[]"] by auto
  have "x = Inr (t, r)" using readItems_more [OF f, of "Suc (length bs)"] readItems_more [OF x, of f] by (simp add: add.commute)
  then show ?thesis using x by (simp add: readTimestamp_def)
qed

lemma reads_attestation:
  assumes "attestation_ok P a"
  shows "reads P m atts ops (0x00 # writeAttestation a @ r) (Timestamp m (atts @ [a]) ops) r"
    and "reads P m (atts @ [a]) ops bs t r \<Longrightarrow> reads P m atts ops (0xff # 0x00 # writeAttestation a @ bs) t r"
proof -
  show "reads P m atts ops (0x00 # writeAttestation a @ r) (Timestamp m (atts @ [a]) ops) r"
    unfolding reads_def by (rule exI [of _ 1]) (simp add: readItems_Suc readAttestation_write assms)
  assume "reads P m (atts @ [a]) ops bs t r"
  then obtain f where "readItems P f m (atts @ [a]) ops bs = Some (Inr (t, r))" by (auto simp: reads_def)
  then show "reads P m atts ops (0xff # 0x00 # writeAttestation a @ bs) t r"
    unfolding reads_def by (intro exI [of _ "Suc f"]) (simp add: readItems_Suc readAttestation_write assms)
qed

lemma reads_op:
  assumes ok: "op_ok op" "applyOp P op m = Inr m'" and s: "reads P m' [] [] sb s bs"
    and sb: "sb = w @ bs"
  shows "bs = r \<Longrightarrow> reads P m atts ops (writeOp op @ w @ r) (Timestamp m atts (ops @ [(op, s)])) r"
    and "reads P m atts (ops @ [(op, s)]) bs t r \<Longrightarrow> reads P m atts ops (0xff # writeOp op @ w @ bs) t r"
proof -
  have op: "writeOp op = op_tag op # tl (writeOp op)" by (simp add: writeOp_def)
  have rd: "readOp (op_tag op) (tl (writeOp op) @ w @ bs) = Inr (op, w @ bs)" by (rule readOp_write [OF ok(1)])
  have tag: "op_tag op \<noteq> 0" "op_tag op \<noteq> 0xff" using applied_tag [OF ok(2)] by auto
  obtain f where f: "readItems P f m' [] [] (w @ bs) = Some (Inr (s, bs))" using s sb by (auto simp: reads_def)
  show "reads P m atts ops (writeOp op @ w @ r) (Timestamp m atts (ops @ [(op, s)])) r" if "bs = r"
    unfolding reads_def by (rule exI [of _ "Suc f"], subst op) (use that rd tag f ok in \<open>simp add: readItems_Suc\<close>)
  assume "reads P m atts (ops @ [(op, s)]) bs t r"
  then obtain k where k: "readItems P k m atts (ops @ [(op, s)]) bs = Some (Inr (t, r))" by (auto simp: reads_def)
  have "readItems P (f + k) m' [] [] (w @ bs) = Some (Inr (s, bs))"
    "readItems P (f + k) m atts (ops @ [(op, s)]) bs = Some (Inr (t, r))"
    using readItems_more [OF f, of k] readItems_more [OF k, of f] by (simp_all add: add.commute)
  then show "reads P m atts ops (0xff # writeOp op @ w @ bs) t r"
    unfolding reads_def by (intro exI [of _ "Suc (f + k)"], subst op) (use rd tag ok in \<open>simp add: readItems_Suc\<close>)
qed

text \<open>The timestamp in the order of the format, and its bytes.\<close>

fun sorted_stamp :: "Timestamp \<Rightarrow> Timestamp" where
  "sorted_stamp (Timestamp m atts ops) = Timestamp m (sortBy attestationLe atts)
     (sortBy (\<lambda>x y. opLe (fst x) (fst y)) (map (\<lambda>(op, s). (op, sorted_stamp s)) ops))"

fun stamp_bytes :: "Timestamp \<Rightarrow> bytes" where
  "stamp_bytes (Timestamp m atts ops) =
     joinItems (map (\<lambda>a. 0x00 # writeAttestation a) atts @ map (\<lambda>(op, s). writeOp op @ stamp_bytes s) ops)"

lemma sortBy_map: "sortBy le (map f xs) = map f (sortBy (\<lambda>x y. le (f x) (f y)) xs)"
proof -
  have ins: "insertBy le (f x) (map f ys) = map f (insertBy (\<lambda>x y. le (f x) (f y)) x ys)" for x ys
    by (induction ys) auto
  show ?thesis by (induction xs) (auto simp: ins)
qed

lemma reads_ops:
  assumes "ops \<noteq> []"
    and "\<And>op s r. (op, s) \<in> set ops \<Longrightarrow> op_ok op \<and> applyOp P op m = Inr (ts_msg s) \<and> reads P (ts_msg s) [] [] (stamp_bytes s @ r) s r"
  shows "reads P m atts done (joinItems (map (\<lambda>(op, s). writeOp op @ stamp_bytes s) ops) @ r) (Timestamp m atts (done @ ops)) r"
  using assms
proof (induction ops arbitrary: "done" rule: induct_list012)
  case (2 x)
  then show ?case by (cases x) (auto intro!: reads_op)
next
  case (3 x y zs)
  obtain op s where x: "x = (op, s)" by force
  let ?rest = "joinItems (map (\<lambda>(op, s). writeOp op @ stamp_bytes s) (y # zs)) @ r"
  have "reads P m atts (done @ [(op, s)]) ?rest (Timestamp m atts ((done @ [(op, s)]) @ y # zs)) r"
    by (rule "3.IH"(2)) (use "3.prems" in auto)
  moreover have "op_ok op" "applyOp P op m = Inr (ts_msg s)" "reads P (ts_msg s) [] [] (stamp_bytes s @ ?rest) s ?rest"
    using "3.prems"(2) [of op s] x by auto
  ultimately have "reads P m atts done (0xff # writeOp op @ stamp_bytes s @ ?rest) (Timestamp m atts (done @ x # y # zs)) r"
    using x by (intro reads_op(2) [where m' = "ts_msg s" and s = s]) auto
  then show ?case by (simp add: x)
qed simp

lemma reads_atts:
  assumes "list_all (attestation_ok P) atts" "atts \<noteq> [] \<or> items \<noteq> []"
    and "\<And>done. items \<noteq> [] \<Longrightarrow> reads P m done [] (joinItems items @ r) (Timestamp m done ops) r"
    and "items = [] \<Longrightarrow> ops = []"
  shows "reads P m done [] (joinItems (map (\<lambda>a. 0x00 # writeAttestation a) atts @ items) @ r) (Timestamp m (done @ atts) ops) r"
  using assms(1,2)
proof (induction atts arbitrary: "done")
  case Nil
  then show ?case using assms(3) by simp
next
  case (Cons a as)
  have a: "attestation_ok P a" using Cons.prems by simp
  let ?more = "map (\<lambda>a. 0x00 # writeAttestation a) as @ items"
  show ?case
  proof (cases "?more = []")
    case True
    then show ?thesis using reads_attestation(1) [OF a, of m "done" "[]" r] assms(4) by simp
  next
    case False
    then obtain i ws where more: "?more = i # ws" by (meson neq_Nil_conv)
    have "reads P m (done @ [a]) [] (joinItems ?more @ r) (Timestamp m ((done @ [a]) @ as) ops) r"
      by (rule Cons.IH) (use False Cons.prems in auto)
    then show ?thesis using reads_attestation(2) [OF a, of m "done" "[]" "joinItems ?more @ r"] by (simp add: more)
  qed
qed

lemma reads_stamp_bytes: "stamp_ok P t \<Longrightarrow> reads P (ts_msg t) [] [] (stamp_bytes t @ r) t r"
proof (induction t arbitrary: r)
  case (Timestamp m atts ops)
  have ops: "op_ok op \<and> applyOp P op m = Inr (ts_msg s) \<and> reads P (ts_msg s) [] [] (stamp_bytes s @ r) s r" if "(op, s) \<in> set ops" for op s r
    using that Timestamp.prems Timestamp.IH [of "(op, s)" s] by (auto simp: list_all_iff)
  have "reads P m [] [] (joinItems (map (\<lambda>a. 0x00 # writeAttestation a) atts @ map (\<lambda>(op, s). writeOp op @ stamp_bytes s) ops) @ r) (Timestamp m ([] @ atts) ops) r"
  proof (rule reads_atts)
    show "reads P m d [] (joinItems (map (\<lambda>(op, s). writeOp op @ stamp_bytes s) ops) @ r) (Timestamp m d ops) r"
      if "map (\<lambda>(op, s). writeOp op @ stamp_bytes s) ops \<noteq> []" for d
      using reads_ops [of ops P m d "[]" r] ops that by simp
  qed (use Timestamp.prems in auto)
  then show ?case by simp
qed

lemma ts_msg_sorted [simp]: "ts_msg (sorted_stamp t) = ts_msg t"
  by (cases t) simp

lemma stamp_ok_sorted: "stamp_ok P t \<Longrightarrow> stamp_ok P (sorted_stamp t)"
proof (induction t)
  case (Timestamp m atts ops)
  let ?ops = "map (\<lambda>(op, s). (op, sorted_stamp s)) ops"
  have "length (sortBy attestationLe atts) + length (sortBy (\<lambda>x y. opLe (fst x) (fst y)) ?ops) \<noteq> 0"
    using Timestamp.prems by auto
  then have "sortBy attestationLe atts \<noteq> [] \<or> sortBy (\<lambda>x y. opLe (fst x) (fst y)) ?ops \<noteq> []" by force
  moreover have "stamp_ok P (sorted_stamp s)" if "(op, s) \<in> set ops" for op s
    using that Timestamp.prems Timestamp.IH [of "(op, s)" s] by (auto simp: list_all_iff)
  ultimately show ?case using Timestamp.prems by (auto simp: list_all_iff)
qed

lemma writeTimestamp_sorted: "stamp_ok P t \<Longrightarrow> writeTimestamp t = Inr (stamp_bytes (sorted_stamp t))"
proof (induction t)
  case (Timestamp m atts ops)
  have "(\<lambda>(op, s). rbind (writeTimestamp s) (\<lambda>w. Inr (op, w))) e = Inr ((\<lambda>(op, s). (op, stamp_bytes (sorted_stamp s))) e)" if "e \<in> set ops" for e
    using that Timestamp.prems Timestamp.IH [of e "snd e"] by (cases e) (auto simp: list_all_iff)
  then have w: "mapM (\<lambda>(op, s). rbind (writeTimestamp s) (\<lambda>w. Inr (op, w))) ops = Inr (map (\<lambda>(op, s). (op, stamp_bytes (sorted_stamp s))) ops)"
    by (rule mapM_Inr_map)
  have fst1: "(\<lambda>x y. opLe (fst ((\<lambda>(op, s). (op, stamp_bytes (sorted_stamp s))) x)) (fst ((\<lambda>(op, s). (op, stamp_bytes (sorted_stamp s))) y))) = (\<lambda>x y. opLe (fst x) (fst y))"
    "(\<lambda>x y. opLe (fst ((\<lambda>(op, s). (op, sorted_stamp s)) x)) (fst ((\<lambda>(op, s). (op, sorted_stamp s)) y))) = (\<lambda>x y. opLe (fst x) (fst y))"
    by (auto simp: fun_eq_iff)
  show ?case using Timestamp.prems w
    by (auto simp: sortBy_map fst1 comp_def case_prod_beta)
qed


section \<open>A proof as the set of what it claims\<close>

text \<open>The abstract view: which messages are attested, and how.  On it merging is union.\<close>

definition claims :: "Timestamp \<Rightarrow> (bytes \<times> bytes) set" where
  "claims t = (\<lambda>e. (commitment e, attestationKey (reached_attestation e))) ` set (reachable t)"

abbreviation opClaims :: "(AnchorOp \<times> Timestamp) list \<Rightarrow> (bytes \<times> bytes) set" where
  "opClaims ops \<equiv> (\<Union>e\<in>set ops. claims (snd e))"

lemma claims_simps [simp]: "claims (Timestamp m atts ops) = (\<lambda>a. (m, attestationKey a)) ` set atts \<union> opClaims ops"
  by (simp add: claims_def image_Un image_image image_UN split_beta)

lemma toHex_eq [simp]: "toHex a = toHex b \<longleftrightarrow> a = b"
  using toHex_inj by blast

lemma mergeAttestations_keys: "attestationKey ` set (mergeAttestations mine theirs) = attestationKey ` set mine \<union> attestationKey ` set theirs"
  unfolding mergeAttestations_def
proof (induction theirs arbitrary: mine)
  case (Cons a r)
  then show ?case by (auto simp: image_iff) (metis image_eqI)+
qed simp

lemma findOp_Some: "findOp op ops = Some i \<Longrightarrow> i < length ops \<and> opKey (fst (ops ! i)) = opKey op"
  by (induction op ops arbitrary: i rule: findOp.induct) (auto split: if_splits)

lemma Union_update: "i < length xs \<Longrightarrow> (\<Union>e\<in>set (xs[i := y]). f e) \<union> f (xs ! i) = (\<Union>e\<in>set xs. f e) \<union> f y"
proof -
  assume i: "i < length xs"
  have "set (xs[i := y]) = set (take i xs) \<union> {y} \<union> set (drop (Suc i) xs)"
    using i by (simp add: upd_conv_take_nth_drop)
  moreover have "set xs = set (take i xs) \<union> {xs ! i} \<union> set (drop (Suc i) xs)"
    using arg_cong [OF id_take_nth_drop [OF i], of set] by simp
  ultimately show ?thesis by auto
qed

lemma union_update: "C = A \<union> S \<Longrightarrow> R = U \<union> Q \<Longrightarrow> U \<union> A = B \<union> C \<Longrightarrow> A \<subseteq> B \<Longrightarrow> C \<subseteq> U \<Longrightarrow> R = B \<union> S \<union> Q"
  by blast

lemma merge_claims:
  "merge a b = Inr t \<Longrightarrow> claims t = claims a \<union> claims b \<and> ts_msg t = ts_msg a"
  "mergeOps ops ops' = Inr r \<Longrightarrow> opClaims r = opClaims ops \<union> opClaims ops'"
proof (induction a b and ops ops' arbitrary: t and r rule: merge_mergeOps.induct)
  case (1 m atts ops m' atts' ops')
  have "(\<lambda>a. (m, attestationKey a)) ` set (mergeAttestations atts atts')
      = Pair m ` (attestationKey ` set (mergeAttestations atts atts'))" by (simp add: image_image)
  also have "\<dots> = (\<lambda>a. (m, attestationKey a)) ` set atts \<union> (\<lambda>a. (m, attestationKey a)) ` set atts'"
    by (simp add: mergeAttestations_keys image_Un image_image)
  finally have atts: "(\<lambda>a. (m, attestationKey a)) ` set (mergeAttestations atts atts')
      = (\<lambda>a. (m, attestationKey a)) ` set atts \<union> (\<lambda>a. (m, attestationKey a)) ` set atts'" .
  obtain r where r: "m = m'" "mergeOps ops ops' = Inr r" "t = Timestamp m (mergeAttestations atts atts') r"
    using "1.prems" by (auto simp: rbind_Inr_iff split: if_splits)
  then have "opClaims r = opClaims ops \<union> opClaims ops'" using "1.IH" by simp
  then show ?case using r atts by (simp add: Un_ac)
next
  case (2 ops)
  then show ?case by simp
next
  case (3 ops op s rest)
  show ?case
  proof (cases "findOp op ops")
    case None
    then show ?thesis using 3 by (auto simp: Un_assoc)
  next
    case (Some i)
    then obtain s' where s': "merge (snd (ops ! i)) s = Inr s'" "mergeOps (ops[i := (fst (ops ! i), s')]) rest = Inr r"
      using "3.prems" by (auto simp: rbind_Inr_iff)
    have "claims s' = claims (snd (ops ! i)) \<union> claims s" using "3.IH"(2) [OF Some s'(1)] by simp
    moreover have "opClaims r = opClaims (ops[i := (fst (ops ! i), s')]) \<union> opClaims rest" by (rule "3.IH"(3) [OF Some s'(2)])
    moreover have "opClaims (ops[i := (fst (ops ! i), s')]) \<union> claims (snd (ops ! i)) = opClaims ops \<union> claims s'"
      using Union_update [of i ops "\<lambda>e. claims (snd e)" "(fst (ops ! i), s')"] findOp_Some [OF Some] by simp
    moreover have "claims (snd (ops ! i)) \<subseteq> opClaims ops"
      using findOp_Some [OF Some] by (intro UN_upper) simp
    moreover have "claims s' \<subseteq> opClaims (ops[i := (fst (ops ! i), s')])"
      using UN_upper [OF set_update_memI [of i ops "(fst (ops ! i), s')"], of "\<lambda>e. claims (snd e)"] findOp_Some [OF Some] by simp
    ultimately have "opClaims r = opClaims ops \<union> claims s \<union> opClaims rest" by (rule union_update)
    then show ?thesis by (simp add: Un_ac)
  qed
qed

abbreviation opsDerived :: "env \<Rightarrow> bytes \<Rightarrow> (AnchorOp \<times> Timestamp) list \<Rightarrow> bool" where
  "opsDerived P m ops \<equiv> list_all (\<lambda>(op, s). applyOp P op m = Inr (ts_msg s) \<and> derived P s) ops"

lemma list_all_update: "list_all p xs \<Longrightarrow> p y \<Longrightarrow> list_all p (xs[i := y])"
  by (induction xs arbitrary: i) (auto split: nat.splits)

lemma merge_derived:
  "merge a b = Inr t \<Longrightarrow> derived P a \<Longrightarrow> derived P b \<Longrightarrow> derived P t"
  "mergeOps ops ops' = Inr r \<Longrightarrow> opsDerived P m ops \<Longrightarrow> opsDerived P m ops' \<Longrightarrow> opsDerived P m r"
proof (induction a b and ops ops' arbitrary: t and r m rule: merge_mergeOps.induct)
  case (1 m atts ops m' atts' ops')
  then show ?case by (auto simp: rbind_Inr_iff split: if_splits)
next
  case (2 ops)
  then show ?case by simp
next
  case (3 ops op s rest)
  show ?case
  proof (cases "findOp op ops")
    case None
    then show ?thesis using 3 by simp
  next
    case (Some i)
    then obtain s' where s': "merge (snd (ops ! i)) s = Inr s'" "mergeOps (ops[i := (fst (ops ! i), s')]) rest = Inr r"
      using "3.prems" by (auto simp: rbind_Inr_iff)
    have i: "applyOp P (fst (ops ! i)) m = Inr (ts_msg (snd (ops ! i)))" "derived P (snd (ops ! i))"
      using "3.prems"(2) findOp_Some [OF Some] by (auto simp: list_all_length split_beta)
    have "derived P s'" using "3.IH" Some s'(1) i "3.prems"(3) by fastforce
    then have "opsDerived P m (ops[i := (fst (ops ! i), s')])"
      using i merge_claims(1) [OF s'(1)] "3.prems"(2) by (intro list_all_update) auto
    then show ?thesis using "3.IH" Some s' "3.prems"(3) by fastforce
  qed
qed

text \<open>Numbers are written prefix-free, so equal keys are equal operations.\<close>

lemma wr_varuint_prefix_free: "wr_varuint m @ x = wr_varuint n @ y \<Longrightarrow> m = n \<and> x = y"
proof (induction m arbitrary: n rule: wr_varuint.induct)
  case (1 m)
  have small: "unat (of_nat k :: byte) = k" if "k < 128" for k using that by (simp add: unat_of_nat_byte)
  have big: "unat (of_nat (k mod 128 + 128) :: byte) = k mod 128 + 128" for k by (rule unat_of_nat_byte) simp
  have head: "hd (wr_varuint k @ z) = (if k < 128 then of_nat k else of_nat (k mod 128 + 128))" for k z
    by (simp add: wr_varuint.simps [of k])
  have h: "unat (if m < 128 then of_nat m else of_nat (m mod 128 + 128) :: byte)
      = unat (if n < 128 then of_nat n else of_nat (n mod 128 + 128) :: byte)"
    using arg_cong [OF "1.prems", of "\<lambda>l. unat (hd l)"] by (simp only: head)
  show ?case
  proof (cases "m < 128")
    case True
    then have "n = m" using h small [OF True] big [of n] by (cases "n < 128") (auto simp: small)
    then show ?thesis using "1.prems" True by (simp add: wr_varuint.simps [of m])
  next
    case False
    then have n: "\<not> n < 128" "m mod 128 = n mod 128" using h big [of m] big [of n] small [of n] by (auto split: if_splits)
    have "wr_varuint (m div 128) @ x = wr_varuint (n div 128) @ y"
      using "1.prems" False n by (simp add: wr_varuint.simps [of m] wr_varuint.simps [of n])
    then have "m div 128 = n div 128 \<and> x = y" by (rule "1.IH" [OF False])
    then show ?thesis using n(2) by (metis div_mult_mod_eq)
  qed
qed

lemma wr_varuint_not_Nil [simp]: "wr_varuint n \<noteq> []"
  by (simp add: wr_varuint.simps [of n])

lemma opKey_inj: "opKey a = opKey b \<Longrightarrow> a = b"
proof -
  assume eq: "opKey a = opKey b"
  have tag: "op_tag a = op_tag b" using eq by (simp add: opKey_def writeOp_def)
  have "op_arg a = op_arg b" using eq
    by (cases "op_arg a"; cases "op_arg b")
       (auto simp: opKey_def writeOp_def wr_varbytes_def dest: wr_varuint_prefix_free)
  then show ?thesis using tag by simp
qed

lemma merge_total:
  "derived P a \<Longrightarrow> derived P b \<Longrightarrow> ts_msg a = ts_msg b \<Longrightarrow> \<exists>t. merge a b = Inr t"
  "opsDerived P m ops \<Longrightarrow> opsDerived P m ops' \<Longrightarrow> \<exists>r. mergeOps ops ops' = Inr r"
proof (induction a b and ops ops' arbitrary: and m rule: merge_mergeOps.induct)
  case (1 m atts ops m' atts' ops')
  then obtain r where "mergeOps ops ops' = Inr r" by auto
  then show ?case using "1.prems"(3) by simp
next
  case (2 ops)
  then show ?case by simp
next
  case (3 ops op s rest)
  show ?case
  proof (cases "findOp op ops")
    case None
    then show ?thesis using "3.IH" None "3.prems" by fastforce
  next
    case (Some i)
    have i: "applyOp P (fst (ops ! i)) m = Inr (ts_msg (snd (ops ! i)))" "derived P (snd (ops ! i))" "fst (ops ! i) = op"
      using "3.prems"(1) findOp_Some [OF Some] opKey_inj by (auto simp: list_all_length split_beta)
    then obtain s' where s': "merge (snd (ops ! i)) s = Inr s'" using "3.IH" Some "3.prems"(2) by fastforce
    have "opsDerived P m (ops[i := (fst (ops ! i), s')])"
      using i merge_claims(1) [OF s'] merge_derived(1) [OF s', of P] "3.prems" by (intro list_all_update) auto
    then show ?thesis using "3.IH" "3.prems"(2) Some s' by fastforce
  qed
qed


lemma spliceAt_msg: "spliceAt t c fresh = Inr t' \<Longrightarrow> ts_msg t' = ts_msg t"
  by (cases t) (auto simp: rbind_Inr_iff split: if_splits dest!: merge_claims(1))

lemma spliceAt_claims: "spliceAt t c fresh = Inr t' \<Longrightarrow> claims t \<subseteq> claims t' \<and> claims t' \<subseteq> claims t \<union> claims fresh"
proof (induction t c fresh arbitrary: t' rule: spliceAt.induct)
  case (1 m atts ops c fresh)
  show ?case
  proof (cases "m = c")
    case True
    then show ?thesis using "1.prems" merge_claims(1) [of "Timestamp m atts ops" fresh t'] by auto
  next
    case False
    then obtain ops' where ops': "mapM (\<lambda>(op, s). rbind (spliceAt s c fresh) (\<lambda>s'. Inr (op, s'))) ops = Inr ops'" "t' = Timestamp m atts ops'"
      using "1.prems" by (auto simp: rbind_Inr_iff)
    have "list_all2 (\<lambda>e e'. claims (snd e) \<subseteq> claims (snd e') \<and> claims (snd e') \<subseteq> claims (snd e) \<union> claims fresh) ops ops'"
    proof (rule list.rel_mono_strong [OF ops'(1) [unfolded mapM_Inr_iff]])
      fix e e' assume e: "e \<in> set ops" "(case e of (op, s) \<Rightarrow> rbind (spliceAt s c fresh) (\<lambda>s'. Inr (op, s'))) = Inr e'"
      obtain op s where es: "e = (op, s)" by force
      then obtain s' where s': "spliceAt s c fresh = Inr s'" "e' = (op, s')" using e(2) by (auto simp: rbind_Inr_iff)
      have "claims s \<subseteq> claims s' \<and> claims s' \<subseteq> claims s \<union> claims fresh"
        by (rule "1.IH" [OF _ e(1) es [symmetric] s'(1)]) (simp add: False)
      then show "claims (snd e) \<subseteq> claims (snd e') \<and> claims (snd e') \<subseteq> claims (snd e) \<union> claims fresh"
        by (simp add: es s'(2))
    qed
    then have "opClaims ops \<subseteq> opClaims ops' \<and> opClaims ops' \<subseteq> opClaims ops \<union> claims fresh"
      by (induction rule: list_all2_induct) auto
    then show ?thesis using ops'(2) by auto
  qed
qed

lemma spliceAt_derived: "spliceAt t c fresh = Inr t' \<Longrightarrow> derived P t \<Longrightarrow> derived P fresh \<Longrightarrow> derived P t'"
proof (induction t c fresh arbitrary: t' rule: spliceAt.induct)
  case (1 m atts ops c fresh)
  show ?case
  proof (cases "m = c")
    case True
    then show ?thesis using "1.prems" merge_derived(1) [of "Timestamp m atts ops" fresh t' P] by simp
  next
    case False
    then obtain ops' where ops': "mapM (\<lambda>(op, s). rbind (spliceAt s c fresh) (\<lambda>s'. Inr (op, s'))) ops = Inr ops'" "t' = Timestamp m atts ops'"
      using "1.prems" by (auto simp: rbind_Inr_iff)
    have "applyOp P op m = Inr (ts_msg s) \<and> derived P s" if mem: "(op, s) \<in> set ops'" for op s
    proof -
      obtain s0 where "(op, s0) \<in> set ops" "spliceAt s0 c fresh = Inr s"
        using mapM_Inr_mem [OF ops'(1) mem] by (auto simp: rbind_Inr_iff)
      then show ?thesis using "1.IH" [of "(op, s0)" op s0 s] False "1.prems" spliceAt_msg [of s0 c fresh s] by (auto simp: list_all_iff)
    qed
    then show ?thesis using ops'(2) by (auto simp: list_all_iff)
  qed
qed

lemma readAnswer_total: "\<exists>x. readAnswer P ans m = Some x"
proof -
  have "\<exists>x. runbind (readTimestamp P body m) (\<lambda>(s, _). Some (Inr s)) = Some x" for body
    using readTimestamp_total [of P body m] by (auto simp: runbind_def split: sum.splits)
  then show ?thesis by (auto simp: readAnswer_def split: Fetched.splits option.splits)
qed

lemma readAnswer_derived: "readAnswer P ans m = Some (Inr t) \<Longrightarrow> derived P t \<and> ts_msg t = m"
  by (auto simp: readAnswer_def runbind_ok_iff split: Fetched.splits option.splits if_splits dest!: readTimestamp_derived)

lemma upgradeLoop_keeps:
  "derived P t \<Longrightarrow> \<exists>t' up' still'. upgradeLoop P answer i es (t, up, still) = Some (t', up', still')
     \<and> derived P t' \<and> ts_msg t' = ts_msg t \<and> claims t \<subseteq> claims t'"
proof (induction es arbitrary: i t up still)
  case (Cons e es)
  obtain uri c where e: "e = (uri, c)" by force
  obtain x where x: "readAnswer P (answer i uri (toHex c)) c = Some x" using readAnswer_total by blast
  show ?case
  proof (cases "\<exists>fresh s. x = Inr fresh \<and> spliceAt t c fresh = Inr s")
    case True
    then obtain fresh s where s: "x = Inr fresh" "spliceAt t c fresh = Inr s" by blast
    have "derived P s" "ts_msg s = ts_msg t" "claims t \<subseteq> claims s"
      using spliceAt_derived [OF s(2) Cons.prems] spliceAt_msg [OF s(2)] spliceAt_claims [OF s(2)] readAnswer_derived x s(1) by auto
    then show ?thesis using Cons.IH [of s "Suc i" True still] x s by (auto simp: e Let_def)
  next
    case False
    then have "runbind (readAnswer P (answer i uri (toHex c)) c) (\<lambda>fresh. Some (spliceAt t c fresh)) \<in> range (\<lambda>err. Some (Inl err))"
      using x by (cases x; cases "spliceAt t c (projr x)") auto
    then show ?thesis using Cons.IH [OF Cons.prems, of "Suc i" up "still + 1"] by (auto simp: e Let_def)
  qed
qed auto

lemma submitLoop_total: "\<exists>r. submitLoop P d answers acc = Some r"
proof (induction answers arbitrary: acc)
  case (Cons x answers)
  obtain cal ans where x: "x = (cal, ans)" by force
  obtain y where "readAnswer P ans d = Some y" using readAnswer_total by blast
  then show ?case using Cons by (cases y) (auto simp: x split: sum.splits)
qed simp

lemma submitLoop_derived:
  "submitLoop P d answers acc = Some r \<Longrightarrow> derived P (submit_timestamp acc) \<Longrightarrow> ts_msg (submit_timestamp acc) = d
    \<Longrightarrow> derived P (submit_timestamp r) \<and> ts_msg (submit_timestamp r) = d \<and> submit_digest r = submit_digest acc"
proof (induction P d answers acc rule: submitLoop.induct)
  case (2 P d cal ans answers acc)
  show ?case
  proof (cases "\<exists>fresh t. readAnswer P ans d = Some (Inr fresh) \<and> merge (submit_timestamp acc) fresh = Inr t")
    case True
    then obtain fresh t where t: "readAnswer P ans d = Some (Inr fresh)" "merge (submit_timestamp acc) fresh = Inr t" by blast
    have "derived P t" "ts_msg t = d"
      using merge_derived(1) [OF t(2)] merge_claims(1) [OF t(2)] readAnswer_derived [OF t(1)] "2.prems" by auto
    then show ?thesis using "2.IH" "2.prems" t by simp
  next
    case False
    then show ?thesis using 2 by (auto split: option.splits sum.splits simp: runbind_ok_iff)
  qed
qed simp


section \<open>Properties\<close>

lemma toLower_hex [simp]: "toLower (toHex b) = toHex b"
proof -
  have "\<not> (65 \<le> (of_char c :: nat) \<and> (of_char c :: nat) \<le> 90)" if "isLowerHex c" for c
    using that by (auto simp: isLowerHex_def)
  then show ?thesis using toHex_lower [of b] by (auto simp: toLower_def Let_def list_all_iff intro!: map_idI)
qed

lemma checkHeaders_confirmed:
  "checkHeaders hs bs = Inr Confirmed \<Longrightarrow> (h, c) \<in> set bs \<Longrightarrow> \<exists>root. hs h = Inr (Some root) \<and> toLower root = toHex (rev c)"
  by (induction hs bs rule: checkHeaders.induct) (auto simp: rbind_Inr_iff split: option.splits if_splits)

lemma bitcoinOf_reachable: "(h, c) \<in> set (bitcoinOf t) \<Longrightarrow> \<exists>e\<in>set (reachable t). commitment e = c \<and> reached_attestation e = Bitcoin h"
  by (auto simp: bitcoinOf_def List.map_filter_def elim!: heightOf.elims)

lemma parseProof_derived: "parseProof P bs = Some (Inr (d, t)) \<Longrightarrow> derived P t \<and> ts_msg t = d"
  by (auto simp: parseProof_def runbind_ok_iff split: if_splits prod.splits dest!: readTimestamp_derived)

text \<open>
  \<^bold>\<open>C15.\<close> A confirmed anchor is a chain into the blocks: when a proof that was parsed verifies as confirmed for a digest, it is about
  that digest, names at least one Bitcoin block, and for every block it names the commitment is computed from the digest by the
  operations of the format and is, in display order, the merkle root the header source gave for that height.
\<close>

theorem anchor_confirmed_sound:
  assumes "parseProof P bs = Some (Inr (d, t))"
    and "verifyAnchor digest t (Some headers) = Inr c" "anchor_status c = Confirmed"
  shows "d = digest \<and> bitcoinOf t \<noteq> [] \<and> (\<forall>(h, m) \<in> set (bitcoinOf t).
     commits P digest m \<and> (\<exists>root. headers h = Inr (Some root) \<and> toLower root = toHex (rev m)))"
proof -
  have d: "derived P t" "ts_msg t = d" using parseProof_derived [OF assms(1)] by auto
  have c: "d = digest" "bitcoinOf t \<noteq> []" "checkHeaders headers (bitcoinOf t) = Inr Confirmed"
    using assms(2,3) d(2) by (auto simp: verifyAnchor_def Let_def rbind_Inr_iff split: if_splits)
  have "commits P digest m \<and> (\<exists>root. headers h = Inr (Some root) \<and> toLower root = toHex (rev m))" if "(h, m) \<in> set (bitcoinOf t)" for h m
    using checkHeaders_confirmed [OF c(3) that] bitcoinOf_reachable [OF that] reachable_commits [OF d(1)] d(2) c(1) by auto
  then show ?thesis using c by auto
qed

lemma parse_serialise:
  assumes "stamp_ok P t" "length (ts_msg t) = 32"
  shows "\<exists>bs. serialiseProof (ts_msg t) t = Inr bs \<and> parseProof P bs = Some (Inr (ts_msg t, sorted_stamp t))"
proof -
  let ?w = "stamp_bytes (sorted_stamp t)"
  have w: "serialiseProof (ts_msg t) t = Inr (HEADER_MAGIC @ wr_varuint 1 @ [OP_SHA256] @ ts_msg t @ ?w)"
    by (simp add: serialiseProof_def writeTimestamp_sorted [OF assms(1)])
  have "reads P (ts_msg t) [] [] (?w @ []) (sorted_stamp t) []"
    using reads_stamp_bytes [OF stamp_ok_sorted [OF assms(1)], of "[]"] by simp
  then have "readTimestamp P ?w (ts_msg t) = Some (Inr (sorted_stamp t, []))" using reads_readTimestamp by simp
  then have "parseProof P (HEADER_MAGIC @ wr_varuint 1 @ [OP_SHA256] @ ts_msg t @ ?w) = Some (Inr (ts_msg t, sorted_stamp t))"
    using assms(2) by (simp add: parseProof_def expect_def rd_take_def rd_byte_def)
  then show ?thesis using w by blast
qed

text \<open>
  \<^bold>\<open>C16.\<close> Writing a proof file and parsing it gives the digest and the tree back, in the order the format prescribes, for every tree
  of a 32-byte digest whose messages are computed by its operations, with numbers below \<open>2\<^sup>53\<close>.
\<close>

theorem proof_roundtrip:
  assumes "stamp_ok P t" "length (ts_msg t) = 32"
  shows "\<exists>bs. serialiseProof (ts_msg t) t = Inr bs \<and> parseProof P bs = Some (Inr (ts_msg t, sorted_stamp t))"
  by (rule parse_serialise [OF assms])

lemma parseProof_total: "\<exists>x. parseProof P bs = Some x"
proof -
  have "\<exists>x. runbind (readTimestamp P r m) (\<lambda>(s, _). Some (Inr (m, s))) = Some x" for r m
    using readTimestamp_total [of P r m] by (auto simp: runbind_def split: sum.splits)
  then show ?thesis by (auto simp: parseProof_def runbind_def split: sum.splits)
qed

text \<open>
  \<^bold>\<open>C17.\<close> Parsing ends: on every input \<^verbatim>\<open>parseProof\<close> returns a proof or throws, with as much fuel as the file has bytes.
\<close>

theorem parse_terminates: "\<exists>x. parseProof P bs = Some x"
  by (rule parseProof_total)

text \<open>
  \<^bold>\<open>C18.\<close> Merging refines union: two proofs about the same message whose messages are computed by their operations always merge,
  into such a proof about that message, and what it attests is exactly what the two attest together.
\<close>

theorem merge_refines_union:
  assumes "derived P a" "derived P b" "ts_msg a = ts_msg b"
  shows "\<exists>t. merge a b = Inr t \<and> derived P t \<and> ts_msg t = ts_msg a \<and> claims t = claims a \<union> claims b"
proof -
  obtain t where "merge a b = Inr t" using merge_total(1) [OF assms] by blast
  then show ?thesis using merge_derived(1) [of a b t P] merge_claims(1) [of a b t] assms by auto
qed

text \<open>
  Upgrading never loses evidence: whatever the calendars answer, \<^verbatim>\<open>upgrade\<close> returns a tree about the same digest whose messages
  are computed by its operations and which attests everything the old one did.
\<close>

theorem upgrade_keeps_claims:
  assumes "derived P t"
  shows "\<exists>t' r. upgrade P t answer = Some (t', r) \<and> derived P t' \<and> ts_msg t' = ts_msg t \<and> claims t \<subseteq> claims t'"
  using upgradeLoop_keeps [OF assms, of answer 0 "pendingOf t" False 0] by (auto simp: upgrade_def)

section \<open>Witnesses\<close>

definition toyStamp :: Timestamp where
  "toyStamp = Timestamp (replicate 32 1) [Pending ''https://a''] [(\<lparr>op_tag = OP_SHA256, op_arg = None\<rparr>, Timestamp (toyHash (replicate 32 1)) [Bitcoin 7] [])]"

lemma toyStamp_ok: "stamp_ok toyEnv toyStamp" "length (ts_msg toyStamp) = 32" "derived toyEnv toyStamp"
proof -
  have "unat (of_nat (of_char c) :: byte) = of_char c" for c by (rule unat_of_nat_byte) simp
  then have "text_decode toyEnv (utf8 u) = u" for u by (simp add: toyEnv_def utf8_def comp_def map_idI)
  moreover have "length (wr_varbytes (utf8 ''https://a'')) < 2 ^ 53" by (simp add: utf8_def wr_varbytes_def wr_varuint.simps)
  ultimately have dec: "text_decode toyEnv (utf8 ''https://a'') = ''https://a''" "length (wr_varbytes (utf8 ''https://a'')) < 2 ^ 53" by auto
  show "stamp_ok toyEnv toyStamp" using dec by (simp add: toyStamp_def op_ok_def applyOp_def op_tags)
qed (simp_all add: toyStamp_def applyOp_def op_tags)

theorem proof_roundtrip_witness:
  "\<exists>bs. serialiseProof (ts_msg toyStamp) toyStamp = Inr bs \<and> parseProof toyEnv bs = Some (Inr (ts_msg toyStamp, sorted_stamp toyStamp))"
  by (rule proof_roundtrip [OF toyStamp_ok(1,2)])

theorem merge_refines_union_witness:
  "\<exists>t. merge toyStamp toyStamp = Inr t \<and> derived toyEnv t \<and> ts_msg t = ts_msg toyStamp \<and> claims t = claims toyStamp \<union> claims toyStamp"
  by (rule merge_refines_union [OF toyStamp_ok(3) toyStamp_ok(3) refl])

theorem upgrade_keeps_claims_witness:
  "\<exists>t' r. upgrade toyEnv toyStamp (\<lambda>i u c. NoResponse) = Some (t', r) \<and> derived toyEnv t' \<and> ts_msg t' = ts_msg toyStamp \<and> claims toyStamp \<subseteq> claims t'"
  by (rule upgrade_keeps_claims [OF toyStamp_ok(3)])

theorem anchor_confirmed_sound_witness:
  "\<exists>bs. parseProof toyEnv bs = Some (Inr (replicate 32 1, toyStamp)) \<and> commits toyEnv (replicate 32 1) (toyHash (replicate 32 1))"
proof -
  have "sorted_stamp toyStamp = toyStamp" "ts_msg toyStamp = replicate 32 1" by (simp_all add: toyStamp_def)
  then obtain bs where bs: "parseProof toyEnv bs = Some (Inr (replicate 32 1, toyStamp))" using parse_serialise [OF toyStamp_ok(1,2)] by auto
  have b: "bitcoinOf toyStamp = [(7, toyHash (replicate 32 1))]" by (simp add: bitcoinOf_def toyStamp_def List.map_filter_def)
  let ?hs = "\<lambda>h :: nat. Inr (Some (toHex (rev (toyHash (replicate 32 1))))) :: string option res"
  have v: "verifyAnchor (replicate 32 1) toyStamp (Some ?hs)
      = Inr \<lparr>anchor_status = Confirmed, anchor_heights = uniq (map fst (bitcoinOf toyStamp)), anchor_calendars = map fst (pendingOf toyStamp)\<rparr>"
    by (simp add: verifyAnchor_def b) (simp add: toyStamp_def)
  show ?thesis using anchor_confirmed_sound [OF bs v] bs b by auto
qed

end
