(* ===== verification/Structure.thy ===== *)
theory Structure
  imports Payloads
begin

text \<open>
  \<^verbatim>\<open>src/src/phala/structure.ts\<close>: the shape check of a receipt of schema \<^verbatim>\<open>cool.receipt.v2\<close>.  The value is a \<open>jsval\<close>; a check is the list
  of the messages it adds to \<^verbatim>\<open>errors\<close>.  The main result is that a receipt that passes has the typed shape the verifier relies on.
\<close>

section \<open>Patterns\<close>

datatype Pattern = MULTIHASH | HEX_FIELD | B64_FIELD | ULID | BASE64

definition isB64Char :: "char \<Rightarrow> bool" where
  "isB64Char c = (c \<in> set b64Alphabet)"

text \<open>\<^verbatim>\<open>[A-Za-z0-9+/]*={0,2}\<close> and its non-empty form.\<close>

definition isBase64Text :: "bool \<Rightarrow> string \<Rightarrow> bool" where
  "isBase64Text nonEmpty s = (let body = takeWhile isB64Char s; pad = dropWhile isB64Char s
     in list_all (\<lambda>c. c = CHR ''='') pad \<and> length pad \<le> 2 \<and> (nonEmpty \<longrightarrow> body \<noteq> []))"

definition isUlidChar :: "char \<Rightarrow> bool" where
  "isUlidChar c = (c \<in> set ''0123456789ABCDEFGHJKMNPQRSTVWXYZ'')"

fun matches :: "Pattern \<Rightarrow> string \<Rightarrow> bool" where
  "matches MULTIHASH s = isMultihash s"
| "matches HEX_FIELD s = (startsWith s ''hex:'' \<and> drop 4 s \<noteq> [] \<and> list_all isLowerHex (drop 4 s))"
| "matches B64_FIELD s = (startsWith s ''base64:'' \<and> isBase64Text False (drop 7 s))"
| "matches ULID s = (length s = 26 \<and> list_all isUlidChar s)"
| "matches BASE64 s = isBase64Text True s"

fun patternSource :: "Pattern \<Rightarrow> string" where
  "patternSource MULTIHASH = ''^mh:sha256:[0-9a-f]{64}$''"
| "patternSource HEX_FIELD = ''^hex:[0-9a-f]+$''"
| "patternSource B64_FIELD = ''^base64:[A-Za-z0-9+/]*={0,2}$''"
| "patternSource ULID = ''^[0-9A-HJKMNP-TV-Z]{26}$''"
| "patternSource BASE64 = ''^[A-Za-z0-9+/]+={0,2}$''"

definition TEE_VENDORS :: "string list" where
  "TEE_VENDORS = [''none'', ''intel-tdx'', ''amd-sev-snp'', ''nvidia-cc'']"

definition MODES :: "string list" where
  "MODES = [''mock'', ''simulated'', ''hardware'']"

definition CHANGE_KINDS :: "string list" where
  "CHANGE_KINDS = [''prompt'', ''model'', ''params'', ''policy'', ''dataset'', ''agent-permission'', ''tool'']"

section \<open>The checker\<close>

text \<open>\<open>chkObj\<close> takes the rest of the checks as a continuation, run when the value is an object.\<close>

definition chkObj :: "string \<Rightarrow> jsval \<Rightarrow> ((string \<times> jsval) list \<Rightarrow> string list) \<Rightarrow> string list" where
  "chkObj path v k = (case entriesOf v of None \<Rightarrow> [path @ '': expected an object''] | Some es \<Rightarrow> k es)"

definition chkStr :: "string \<Rightarrow> jsval \<Rightarrow> Pattern option \<Rightarrow> string list" where
  "chkStr path v pattern = (case v of
       JStr s \<Rightarrow> if s = [] then [path @ '': expected a non-empty string'']
         else (case pattern of Some p \<Rightarrow> if \<not> matches p s then [path @ '': does not match '' @ patternSource p] else [] | None \<Rightarrow> [])
     | _ \<Rightarrow> [path @ '': expected a non-empty string''])"

definition chkOneOf :: "string \<Rightarrow> jsval \<Rightarrow> string list \<Rightarrow> string list" where
  "chkOneOf path v allowed = (if \<exists>s\<in>set allowed. v = JStr s then [] else [path @ '': expected one of ['' @ join '', '' allowed @ '']''])"

text \<open>\<^verbatim>\<open>Number.isInteger\<close>, and the sign U+2265 of the message.\<close>

definition isIntegerNum :: "jsnum \<Rightarrow> bool" where
  "isIntegerNum n = (case n of Fin r \<Rightarrow> snd (quotient_of r) = 1 | _ \<Rightarrow> False)"

definition GEQ :: string where
  "GEQ = [CHR 0xe2, CHR 0x89, CHR 0xa5]"

definition chkInt :: "string \<Rightarrow> jsval \<Rightarrow> nat \<Rightarrow> string list" where
  "chkInt path v low = (case v of
       JNum n \<Rightarrow> if isIntegerNum n \<and> \<not> js_lt n (Fin (of_nat low)) then [] else [path @ '': expected an integer '' @ GEQ @ '' '' @ showNat low]
     | _ \<Rightarrow> [path @ '': expected an integer '' @ GEQ @ '' '' @ showNat low])"

definition chkSignature :: "string \<Rightarrow> jsval \<Rightarrow> string list" where
  "chkSignature path v = chkObj path v (\<lambda>s.
     (if readMember s ''alg'' \<noteq> JStr ''ml-dsa-65+ed25519'' then [path @ ''.alg: expected ml-dsa-65+ed25519''] else [])
     @ chkStr (path @ ''.key_id'') (readMember s ''key_id'') None
     @ chkStr (path @ ''.ml_dsa'') (readMember s ''ml_dsa'') (Some B64_FIELD)
     @ chkStr (path @ ''.ed25519'') (readMember s ''ed25519'') (Some B64_FIELD))"

definition REGISTERS :: "string list" where
  "REGISTERS = [''mrtd'', ''rtmr0'', ''rtmr1'', ''rtmr2'', ''rtmr3'']"

definition chkMeasurement :: "string \<Rightarrow> jsval \<Rightarrow> string list" where
  "chkMeasurement path v = chkObj path v (\<lambda>m.
     concat (map (\<lambda>f. chkStr (path @ ''.'' @ f) (readMember m f) (Some HEX_FIELD)) REGISTERS))"

definition chkGpu :: "string \<Rightarrow> jsval \<Rightarrow> string list" where
  "chkGpu path v = chkObj path v (\<lambda>g.
     (if readMember g ''vendor'' \<noteq> JStr ''nvidia-cc'' then [path @ ''.vendor: expected nvidia-cc''] else [])
     @ chkStr (path @ ''.gpu_model'') (readMember g ''gpu_model'') None
     @ chkStr (path @ ''.evidence_hash'') (readMember g ''evidence_hash'') (Some MULTIHASH)
     @ chkOneOf (path @ ''.verdict'') (readMember g ''verdict'') [''verified'', ''unverified'', ''simulated''])"

definition chkRuntime :: "string \<Rightarrow> jsval \<Rightarrow> string list" where
  "chkRuntime path v = chkObj path v (\<lambda>r.
     chkOneOf (path @ ''.tee_vendor'') (readMember r ''tee_vendor'') TEE_VENDORS
     @ chkOneOf (path @ ''.mode'') (readMember r ''mode'') MODES
     @ (if readMember r ''enclave_measurement'' \<noteq> JNull
        then chkMeasurement (path @ ''.enclave_measurement'') (readMember r ''enclave_measurement'') else [])
     @ (if readMember r ''tee_quote'' \<noteq> JNull then chkStr (path @ ''.tee_quote'') (readMember r ''tee_quote'') (Some MULTIHASH) else [])
     @ (if readMember r ''gpu'' \<noteq> JNull then chkGpu (path @ ''.gpu'') (readMember r ''gpu'') else [])
     @ (if readMember r ''mode'' = JStr ''hardware'' \<and> readMember r ''tee_quote'' = JNull
        then [path @ '': mode 'hardware' requires a tee_quote digest''] else []))"

section \<open>The parts of a receipt\<close>

definition isArray :: "jsval \<Rightarrow> bool" where
  "isArray v = (case v of JArr _ \<Rightarrow> True | _ \<Rightarrow> False)"

definition anchorShape :: "jsval \<Rightarrow> string list" where
  "anchorShape v = (if v = JNull \<or> v = JUndef then [] else chkObj ''anchor'' v (\<lambda>a.
     chkOneOf ''anchor.kind'' (readMember a ''kind'') [''opentimestamps'']
     @ chkOneOf ''anchor.chain'' (readMember a ''chain'') [''bitcoin'']
     @ chkStr ''anchor.target'' (readMember a ''target'') (Some MULTIHASH)
     @ chkInt ''anchor.tree_size'' (readMember a ''tree_size'') 1
     @ chkStr ''anchor.proof'' (readMember a ''proof'') (Some BASE64)
     @ chkStr ''anchor.submitted_at'' (readMember a ''submitted_at'') None
     @ (if \<not> isArray (readMember a ''calendars'') then [''anchor.calendars: expected an array''] else [])
     @ (if \<not> isArray (readMember a ''heights'') then [''anchor.heights: expected an array''] else [])))"

definition commitmentShape :: "(string \<times> jsval) list \<Rightarrow> string \<Rightarrow> string list" where
  "commitmentShape com field =
     (let hash = readMember com field; salt = readMember com (field @ ''_salt'')
      in if hash \<noteq> JNull
         then chkStr (''record.event.commitments.'' @ field) hash (Some MULTIHASH)
           @ chkStr (''record.event.commitments.'' @ field @ ''_salt'') salt (Some HEX_FIELD)
         else if salt \<noteq> JNull
         then [''record.event.commitments.'' @ field @ ''_salt: present without a '' @ field @ '' commitment'']
         else [])"

definition softwareShape :: "jsval \<Rightarrow> string list" where
  "softwareShape v = (if v = JNull then [] else chkObj ''record.event.software'' v (\<lambda>sw.
     chkStr ''record.event.software.name'' (readMember sw ''name'') None
     @ chkStr ''record.event.software.version'' (readMember sw ''version'') None
     @ (if readMember sw ''digest'' \<noteq> JNull then chkStr ''record.event.software.digest'' (readMember sw ''digest'') (Some MULTIHASH) else [])))"

definition eventShape :: "jsval \<Rightarrow> string list" where
  "eventShape v = chkObj ''record.event'' v (\<lambda>ev.
     chkStr ''record.event.type'' (readMember ev ''type'') None
     @ chkStr ''record.event.application_id'' (readMember ev ''application_id'') None
     @ chkStr ''record.event.execution_id'' (readMember ev ''execution_id'') None
     @ chkStr ''record.event.metadata_hash'' (readMember ev ''metadata_hash'') (Some MULTIHASH)
     @ chkStr ''record.event.metadata_salt'' (readMember ev ''metadata_salt'') (Some HEX_FIELD)
     @ chkObj ''record.event.commitments'' (readMember ev ''commitments'')
         (\<lambda>com. concat (map (commitmentShape com) [''input'', ''output'', ''state'']))
     @ softwareShape (readMember ev ''software''))"

definition changeShape :: "jsval \<Rightarrow> string list" where
  "changeShape v = chkObj ''record.change'' v (\<lambda>c.
     chkOneOf ''record.change.kind'' (readMember c ''kind'') CHANGE_KINDS
     @ chkStr ''record.change.ref'' (readMember c ''ref'') None
     @ chkStr ''record.change.environment'' (readMember c ''environment'') None
     @ (if readMember c ''before_hash'' \<noteq> JNull
        then chkStr ''record.change.before_hash'' (readMember c ''before_hash'') (Some MULTIHASH)
          @ chkStr ''record.change.before_salt'' (readMember c ''before_salt'') (Some HEX_FIELD) else [])
     @ chkStr ''record.change.after_hash'' (readMember c ''after_hash'') (Some MULTIHASH)
     @ chkStr ''record.change.after_salt'' (readMember c ''after_salt'') (Some HEX_FIELD)
     @ chkStr ''record.change.diff_hash'' (readMember c ''diff_hash'') (Some MULTIHASH)
     @ chkObj ''record.change.actor'' (readMember c ''actor'') (\<lambda>actor.
         chkStr ''record.change.actor.id'' (readMember actor ''id'') None
         @ chkStr ''record.change.actor.method'' (readMember actor ''method'') None))"

definition recordShape :: "jsval \<Rightarrow> string list" where
  "recordShape v = chkObj ''record'' v (\<lambda>r.
     chkStr ''record.record_id'' (readMember r ''record_id'') (Some ULID)
     @ chkSignature ''record.signature'' (readMember r ''signature'')
     @ chkRuntime ''record.runtime'' (readMember r ''runtime'')
     @ chkObj ''record.time'' (readMember r ''time'') (\<lambda>t.
         chkStr ''record.time.issued_at'' (readMember t ''issued_at'') None
         @ chkInt ''record.time.seq'' (readMember t ''seq'') 0)
     @ (if readMember r ''schema'' = JStr ''cool.evidence.v1'' then eventShape (readMember r ''event'')
        else if readMember r ''schema'' = JStr ''cool.change.v2'' then changeShape (readMember r ''change'')
        else [''record.schema: expected 'cool.evidence.v1' or 'cool.change.v2'' @ [CHR 0x27]]))"

fun pathShape :: "nat \<Rightarrow> jsval list \<Rightarrow> string list" where
  "pathShape i [] = []"
| "pathShape i (h # hs) = chkStr (''inclusion.audit_path['' @ showNat i @ '']'') h (Some MULTIHASH) @ pathShape (Suc i) hs"

definition inclusionShape :: "jsval \<Rightarrow> string list" where
  "inclusionShape v = (if v = JNull then [] else chkObj ''inclusion'' v (\<lambda>inc.
     chkInt ''inclusion.leaf_index'' (readMember inc ''leaf_index'') 0
     @ chkInt ''inclusion.tree_size'' (readMember inc ''tree_size'') 1
     @ (case readMember inc ''audit_path'' of
          JArr hs \<Rightarrow> pathShape 0 hs
        | _ \<Rightarrow> [''inclusion.audit_path: expected an array''])))"

definition sthShape :: "jsval \<Rightarrow> string list" where
  "sthShape v = (if v = JNull then [] else chkObj ''sth'' v (\<lambda>s.
     chkStr ''sth.log_id'' (readMember s ''log_id'') None
     @ chkInt ''sth.tree_size'' (readMember s ''tree_size'') 1
     @ chkStr ''sth.root_hash'' (readMember s ''root_hash'') (Some MULTIHASH)
     @ chkStr ''sth.timestamp'' (readMember s ''timestamp'') None
     @ chkSignature ''sth.signature'' (readMember s ''signature'')
     @ (if \<not> isArray (readMember s ''witnesses'') then [''sth.witnesses: expected an array''] else [])))"

definition quoteShape :: "jsval \<Rightarrow> string list" where
  "quoteShape v = (if v = JNull then [] else chkObj ''attestation.quote'' v (\<lambda>q.
     chkOneOf ''attestation.quote.format'' (readMember q ''format'')
       [''dstack.tdx.v4'', ''dstack.sevsnp.v1'', ''nvidia.cc.v1'', ''cool.sim.v1'']
     @ chkOneOf ''attestation.quote.root'' (readMember q ''root'')
       [''intel-dcap'', ''amd-kds'', ''nvidia-nras'', ''cool-sim-root'', ''none'']
     @ (if readMember q ''signature'' \<noteq> JNull then chkSignature ''attestation.quote.signature'' (readMember q ''signature'') else [])
     @ (if readMember q ''raw'' \<noteq> JNull then chkStr ''attestation.quote.raw'' (readMember q ''raw'') (Some B64_FIELD) else [])
     @ chkObj ''attestation.quote.body'' (readMember q ''body'') (\<lambda>body.
         chkOneOf ''attestation.quote.body.vendor'' (readMember body ''vendor'') TEE_VENDORS
         @ chkMeasurement ''attestation.quote.body.measurement'' (readMember body ''measurement'')
         @ chkStr ''attestation.quote.body.report_data'' (readMember body ''report_data'') (Some MULTIHASH)
         @ chkStr ''attestation.quote.body.tcb_status'' (readMember body ''tcb_status'') None
         @ chkStr ''attestation.quote.body.app_id'' (readMember body ''app_id'') None
         @ chkStr ''attestation.quote.body.instance_id'' (readMember body ''instance_id'') None
         @ chkStr ''attestation.quote.body.issued_at'' (readMember body ''issued_at'') None)))"

definition attestationShape :: "jsval \<Rightarrow> string list" where
  "attestationShape v = chkObj ''attestation'' v (\<lambda>a.
     chkOneOf ''attestation.mode'' (readMember a ''mode'') MODES
     @ chkStr ''attestation.note'' (readMember a ''note'') None
     @ (if readMember a ''key_binding'' \<noteq> JNull then chkStr ''attestation.key_binding'' (readMember a ''key_binding'') (Some MULTIHASH) else [])
     @ (if readMember a ''expected_measurement'' \<noteq> JNull
        then chkMeasurement ''attestation.expected_measurement'' (readMember a ''expected_measurement'') else [])
     @ quoteShape (readMember a ''quote''))"

definition directoryShape :: "jsval \<Rightarrow> string list" where
  "directoryShape v = chkObj ''key_directory'' v (\<lambda>d.
     (if d = [] then [''key_directory: must carry at least one key''] else [])
     @ concat (map (\<lambda>(i, e). chkObj (''key_directory.'' @ i) e (\<lambda>entry.
         chkStr (''key_directory.'' @ i @ ''.ml_dsa_pub'') (readMember entry ''ml_dsa_pub'') (Some B64_FIELD)
         @ chkStr (''key_directory.'' @ i @ ''.ed25519_pub'') (readMember entry ''ed25519_pub'') (Some B64_FIELD))) d))"

definition shapeErrors :: "jsval \<Rightarrow> string list" where
  "shapeErrors v = chkObj ''(root)'' v (\<lambda>root.
     (if readMember root ''schema'' \<noteq> JStr ''cool.receipt.v2'' then [''(root).schema: expected 'cool.receipt.v2'' @ [CHR 0x27]] else [])
     @ anchorShape (readMember root ''anchor'')
     @ chkStr ''(root).binding_hash'' (readMember root ''binding_hash'') (Some MULTIHASH)
     @ recordShape (readMember root ''record'')
     @ (if (readMember root ''inclusion'' = JNull) \<noteq> (readMember root ''sth'' = JNull)
        then [''(root): inclusion and sth must both be present or both absent''] else [])
     @ inclusionShape (readMember root ''inclusion'')
     @ sthShape (readMember root ''sth'')
     @ attestationShape (readMember root ''attestation'')
     @ directoryShape (readMember root ''key_directory''))"

record ShapeResult =
  shape_ok :: bool
  shape_errors :: "string list"
  shape_receipt :: "jsval option"

definition validateReceiptV2Shape :: "jsval \<Rightarrow> ShapeResult" where
  "validateReceiptV2Shape v =
     (if shapeErrors v = [] then \<lparr>shape_ok = True, shape_errors = [], shape_receipt = Some v\<rparr>
      else \<lparr>shape_ok = False, shape_errors = shapeErrors v, shape_receipt = None\<rparr>)"


section \<open>The schema as a declaration\<close>

text \<open>What the checker accepts, said as a schema: the reference the hand-written checks are compared with.\<close>

datatype shape =
    SAny
  | SNull
  | SAbsent
  | SStr "Pattern option"
  | SOneOf "string list"
  | SInt nat
  | SList shape
  | SFields "(string \<times> shape) list"
  | SDirectory shape
  | SOr shape shape
  | SAnd shape shape

fun hasShape :: "shape \<Rightarrow> jsval \<Rightarrow> bool" where
  "hasShape SAny v = True"
| "hasShape SNull v = (v = JNull)"
| "hasShape SAbsent v = (v = JUndef)"
| "hasShape (SStr p) v = (\<exists>s. v = JStr s \<and> s \<noteq> [] \<and> (case p of None \<Rightarrow> True | Some q \<Rightarrow> matches q s))"
| "hasShape (SOneOf ss) v = (\<exists>s\<in>set ss. v = JStr s)"
| "hasShape (SInt low) v = (\<exists>i. v = jInt i \<and> int low \<le> i)"
| "hasShape (SList s) v = (\<exists>vs. v = JArr vs \<and> list_all (hasShape s) vs)"
| "hasShape (SFields fs) v = (\<exists>es. entriesOf v = Some es \<and> list_all (\<lambda>(f, s). hasShape s (readMember es f)) fs)"
| "hasShape (SDirectory s) v = (\<exists>es. entriesOf v = Some es \<and> es \<noteq> [] \<and> list_all (\<lambda>(k, e). hasShape s e) es)"
| "hasShape (SOr s t) v = (hasShape s v \<or> hasShape t v)"
| "hasShape (SAnd s t) v = (hasShape s v \<and> hasShape t v)"

abbreviation SNullable :: "shape \<Rightarrow> shape" where "SNullable s \<equiv> SOr SNull s"
abbreviation SText :: shape where "SText \<equiv> SStr None"
abbreviation SDigest :: shape where "SDigest \<equiv> SStr (Some MULTIHASH)"
abbreviation SHex :: shape where "SHex \<equiv> SStr (Some HEX_FIELD)"
abbreviation SB64 :: shape where "SB64 \<equiv> SStr (Some B64_FIELD)"

definition SIGNATURE :: shape where
  "SIGNATURE = SFields [(''alg'', SOneOf [''ml-dsa-65+ed25519'']), (''key_id'', SText), (''ml_dsa'', SB64), (''ed25519'', SB64)]"

definition MEASUREMENT :: shape where
  "MEASUREMENT = SFields [(''mrtd'', SHex), (''rtmr0'', SHex), (''rtmr1'', SHex), (''rtmr2'', SHex), (''rtmr3'', SHex)]"

definition RUNTIME :: shape where
  "RUNTIME = SAnd
     (SFields [(''tee_vendor'', SOneOf TEE_VENDORS), (''mode'', SOneOf MODES), (''enclave_measurement'', SNullable MEASUREMENT),
        (''tee_quote'', SNullable SDigest),
        (''gpu'', SNullable (SFields [(''vendor'', SOneOf [''nvidia-cc'']), (''gpu_model'', SText), (''evidence_hash'', SDigest),
           (''verdict'', SOneOf [''verified'', ''unverified'', ''simulated''])]))])
     (SOr (SFields [(''mode'', SOneOf [''mock'', ''simulated''])]) (SFields [(''tee_quote'', SDigest)]))"

definition ANCHOR :: shape where
  "ANCHOR = SFields [(''kind'', SOneOf [''opentimestamps'']), (''chain'', SOneOf [''bitcoin'']), (''target'', SDigest), (''tree_size'', SInt 1),
     (''proof'', SStr (Some BASE64)), (''submitted_at'', SText), (''calendars'', SList SAny), (''heights'', SList SAny)]"

definition COMMITMENT :: "string \<Rightarrow> shape" where
  "COMMITMENT f = SOr (SFields [(f, SNull), (f @ ''_salt'', SNull)]) (SFields [(f, SDigest), (f @ ''_salt'', SHex)])"

definition EVENT :: shape where
  "EVENT = SFields [(''type'', SText), (''application_id'', SText), (''execution_id'', SText), (''metadata_hash'', SDigest), (''metadata_salt'', SHex),
     (''commitments'', SAnd (COMMITMENT ''input'') (SAnd (COMMITMENT ''output'') (COMMITMENT ''state''))),
     (''software'', SNullable (SFields [(''name'', SText), (''version'', SText), (''digest'', SNullable SDigest)]))]"

definition CHANGE :: shape where
  "CHANGE = SAnd
     (SFields [(''kind'', SOneOf CHANGE_KINDS), (''ref'', SText), (''environment'', SText), (''after_hash'', SDigest), (''after_salt'', SHex),
        (''diff_hash'', SDigest), (''actor'', SFields [(''id'', SText), (''method'', SText)])])
     (SOr (SFields [(''before_hash'', SNull)]) (SFields [(''before_hash'', SDigest), (''before_salt'', SHex)]))"

definition RECORD :: shape where
  "RECORD = SAnd
     (SFields [(''record_id'', SStr (Some ULID)), (''signature'', SIGNATURE), (''runtime'', RUNTIME),
        (''time'', SFields [(''issued_at'', SText), (''seq'', SInt 0)])])
     (SOr (SFields [(''schema'', SOneOf [''cool.evidence.v1'']), (''event'', EVENT)])
          (SFields [(''schema'', SOneOf [''cool.change.v2'']), (''change'', CHANGE)]))"

definition INCLUSION :: shape where
  "INCLUSION = SFields [(''leaf_index'', SInt 0), (''tree_size'', SInt 1), (''audit_path'', SList SDigest)]"

definition TREE_HEAD :: shape where
  "TREE_HEAD = SFields [(''log_id'', SText), (''tree_size'', SInt 1), (''root_hash'', SDigest), (''timestamp'', SText), (''signature'', SIGNATURE),
     (''witnesses'', SList SAny)]"

definition QUOTE :: shape where
  "QUOTE = SFields [(''format'', SOneOf [''dstack.tdx.v4'', ''dstack.sevsnp.v1'', ''nvidia.cc.v1'', ''cool.sim.v1'']),
     (''root'', SOneOf [''intel-dcap'', ''amd-kds'', ''nvidia-nras'', ''cool-sim-root'', ''none'']),
     (''signature'', SNullable SIGNATURE), (''raw'', SNullable SB64),
     (''body'', SFields [(''vendor'', SOneOf TEE_VENDORS), (''measurement'', MEASUREMENT), (''report_data'', SDigest), (''tcb_status'', SText),
        (''app_id'', SText), (''instance_id'', SText), (''issued_at'', SText)])]"

definition RECEIPT_V2 :: shape where
  "RECEIPT_V2 = SAnd
     (SFields [(''schema'', SOneOf [''cool.receipt.v2'']), (''anchor'', SOr SNull (SOr SAbsent ANCHOR)), (''binding_hash'', SDigest), (''record'', RECORD),
        (''attestation'', SFields [(''mode'', SOneOf MODES), (''note'', SText), (''key_binding'', SNullable SDigest),
           (''expected_measurement'', SNullable MEASUREMENT), (''quote'', SNullable QUOTE)]),
        (''key_directory'', SDirectory (SFields [(''ml_dsa_pub'', SB64), (''ed25519_pub'', SB64)]))])
     (SOr (SFields [(''inclusion'', SNull), (''sth'', SNull)]) (SFields [(''inclusion'', INCLUSION), (''sth'', TREE_HEAD)]))"

section \<open>The checks are the schema\<close>

named_theorems shape_iff \<open>a check adds no message exactly on values of its shape\<close>

lemma chkObj_iff [shape_iff]: "chkObj path v k = [] \<longleftrightarrow> (\<exists>es. entriesOf v = Some es \<and> k es = [])"
  by (simp add: chkObj_def split: option.splits)

lemma chkStr_iff [shape_iff]: "chkStr path v p = [] \<longleftrightarrow> hasShape (SStr p) v"
  by (cases v) (auto simp: chkStr_def split: option.splits)

lemma chkOneOf_iff [shape_iff]: "chkOneOf path v ss = [] \<longleftrightarrow> hasShape (SOneOf ss) v"
  by (simp add: chkOneOf_def)

lemma isIntegerNum_iff: "isIntegerNum n \<longleftrightarrow> (\<exists>i. n = Fin (of_int i))"
proof (cases n)
  case (Fin r)
  have "snd (quotient_of r) = 1 \<longleftrightarrow> (\<exists>i. r = of_int i)"
  proof
    assume d: "snd (quotient_of r) = 1"
    have "r = of_int (fst (quotient_of r)) / of_int (snd (quotient_of r))" by (rule quotient_of_div) simp
    then show "\<exists>i. r = of_int i" using d by auto
  qed auto
  then show ?thesis using Fin by (simp add: isIntegerNum_def)
qed (auto simp: isIntegerNum_def)

lemma chkInt_iff [shape_iff]: "chkInt path v low = [] \<longleftrightarrow> hasShape (SInt low) v"
proof -
  have lt: "js_lt (Fin (of_int i)) (Fin (of_nat low)) \<longleftrightarrow> i < int low" for i
    using of_int_less_iff [of i "int low", where 'a = rat] by simp
  have "chkInt path v low = [] \<longleftrightarrow> (\<exists>i. v = jInt i \<and> \<not> js_lt (Fin (of_int i)) (Fin (of_nat low)))"
    by (cases v) (auto simp: chkInt_def isIntegerNum_iff jInt_def simp del: js_lt_Fin)
  then show ?thesis by (simp only: lt not_less hasShape.simps)
qed

lemma guard_iff [shape_iff]:
  "(if b then [m] else []) = [] \<longleftrightarrow> \<not> b"
  "(if b then [] else [m]) = [] \<longleftrightarrow> b"
  "(if b then ms else []) = [] \<longleftrightarrow> (b \<longrightarrow> ms = [])"
  by simp_all

lemma leaf_null [simp]: "\<not> hasShape (SStr p) JNull" "\<not> hasShape (SOneOf ss) JNull" "\<not> hasShape (SInt n) JNull" "\<not> hasShape (SFields fs) JNull"
  by (simp_all add: jInt_def entriesOf_def)

lemma SOneOf_single: "v = JStr s \<longleftrightarrow> hasShape (SOneOf [s]) v"
  by simp

lemma hasShape_fields:
  "hasShape (SFields fs) v \<longleftrightarrow> (case entriesOf v of None \<Rightarrow> False | Some es \<Rightarrow> list_all (\<lambda>(f, s). hasShape s (readMember es f)) fs)"
  by (simp split: option.splits)

lemma chkObj_fields: "chkObj path v k = [] \<longleftrightarrow> (case entriesOf v of None \<Rightarrow> False | Some es \<Rightarrow> k es = [])"
  by (simp add: chkObj_def split: option.splits)

lemma hardware_needs_quote:
  "hasShape (SOneOf MODES) m \<Longrightarrow> hasShape (SNullable SDigest) q \<Longrightarrow>
    \<not> (m = JStr ''hardware'' \<and> q = JNull) \<longleftrightarrow> hasShape (SOneOf [''mock'', ''simulated'']) m \<or> hasShape SDigest q"
  by (auto simp: MODES_def)

lemma schema_alternatives:
  "v = JStr ''cool.evidence.v1'' \<Longrightarrow> \<not> hasShape (SOneOf [''cool.change.v2'']) v"
  "v = JStr ''cool.change.v2'' \<Longrightarrow> \<not> hasShape (SOneOf [''cool.evidence.v1'']) v"
  by auto

declare hasShape.simps(4,5,6,7,8) [simp del]

lemmas shape_rules = chkObj_fields hasShape_fields chkStr_iff chkOneOf_iff chkInt_iff guard_iff append_is_Nil_conv list.pred_inject
  prod.case not_not SOneOf_single concat.simps list.map simp_thms list.distinct not_Cons_self2 list.simps(3)

lemma chkSignature_iff [shape_iff]: "chkSignature path v = [] \<longleftrightarrow> hasShape SIGNATURE v"
  by (cases "entriesOf v") (simp_all only: chkSignature_def SIGNATURE_def shape_rules option.case)

lemma chkMeasurement_iff [shape_iff]: "chkMeasurement path v = [] \<longleftrightarrow> hasShape MEASUREMENT v"
  by (cases "entriesOf v") (simp_all only: chkMeasurement_def MEASUREMENT_def REGISTERS_def shape_rules option.case)

lemma null_shapes [simp]: "\<not> hasShape MEASUREMENT JNull" "\<not> hasShape SIGNATURE JNull"
  by (simp_all add: MEASUREMENT_def SIGNATURE_def)

lemma nullable_iff: "\<not> hasShape s JNull \<Longrightarrow> (v \<noteq> JNull \<longrightarrow> hasShape s v) \<longleftrightarrow> hasShape (SNullable s) v"
  by auto

lemma gpu_iff: "chkGpu path v = [] \<longleftrightarrow> hasShape (SFields [(''vendor'', SOneOf [''nvidia-cc'']), (''gpu_model'', SText), (''evidence_hash'', SDigest),
    (''verdict'', SOneOf [''verified'', ''unverified'', ''simulated''])]) v"
  by (cases "entriesOf v") (simp_all only: chkGpu_def shape_rules option.case)

lemma chkRuntime_iff [shape_iff]: "chkRuntime path v = [] \<longleftrightarrow> hasShape RUNTIME v"
proof (cases "entriesOf v")
  case (Some es)
  let ?m = "readMember es ''mode''" and ?q = "readMember es ''tee_quote''"
  have "chkRuntime path v = [] \<longleftrightarrow> hasShape (SFields (case RUNTIME of SAnd (SFields fs) _ \<Rightarrow> fs)) v \<and> \<not> (?m = JStr ''hardware'' \<and> ?q = JNull)"
    unfolding chkRuntime_def RUNTIME_def shape.case Some hasShape_fields chkObj_fields option.case
    by (simp add: chkStr_iff chkOneOf_iff guard_iff chkMeasurement_iff gpu_iff nullable_iff [symmetric] del: hasShape.simps(10))
  also have "\<dots> \<longleftrightarrow> hasShape RUNTIME v"
    using hardware_needs_quote [of ?m ?q] by (auto simp: RUNTIME_def hasShape_fields Some)
  finally show ?thesis .
qed (simp add: chkRuntime_def RUNTIME_def chkObj_fields hasShape_fields)

lemma isArray_iff [shape_iff]: "isArray v \<longleftrightarrow> hasShape (SList SAny) v"
  by (cases v) (auto simp: isArray_def list_all_iff hasShape.simps)

lemma anchorShape_iff [shape_iff]: "anchorShape v = [] \<longleftrightarrow> hasShape (SOr SNull (SOr SAbsent ANCHOR)) v"
  by (cases "entriesOf v") (auto simp: anchorShape_def ANCHOR_def chkObj_fields hasShape_fields shape_iff)

lemma commitmentShape_iff: "entriesOf v = Some com \<Longrightarrow> commitmentShape com f = [] \<longleftrightarrow> hasShape (COMMITMENT f) v"
  by (auto simp: commitmentShape_def COMMITMENT_def chkStr_iff Let_def hasShape_fields)

lemma commitments_iff:
  "chkObj p u (\<lambda>com. concat (map (commitmentShape com) [''input'', ''output'', ''state''])) = []
     \<longleftrightarrow> hasShape (SAnd (COMMITMENT ''input'') (SAnd (COMMITMENT ''output'') (COMMITMENT ''state''))) u"
proof (cases "entriesOf u")
  case None
  then show ?thesis by (simp add: chkObj_fields COMMITMENT_def hasShape_fields)
next
  case (Some es)
  then show ?thesis by (simp add: chkObj_fields commitmentShape_iff [OF Some])
qed

lemma softwareShape_iff: "softwareShape u = [] \<longleftrightarrow> hasShape (SNullable (SFields [(''name'', SText), (''version'', SText), (''digest'', SNullable SDigest)])) u"
  by (cases "entriesOf u") (auto simp: softwareShape_def chkObj_fields hasShape_fields chkStr_iff)

lemma eventShape_iff [shape_iff]: "eventShape v = [] \<longleftrightarrow> hasShape EVENT v"
proof (cases "entriesOf v")
  case (Some es)
  show ?thesis
    unfolding eventShape_def EVENT_def chkObj_fields [of "''record.event''"] hasShape_fields [of _ v] Some option.case append_is_Nil_conv
      commitments_iff softwareShape_iff chkStr_iff
    by simp
qed (simp add: eventShape_def EVENT_def chkObj_fields hasShape_fields)

lemma changeShape_iff [shape_iff]: "changeShape v = [] \<longleftrightarrow> hasShape CHANGE v"
proof -
  have actor: "chkObj p a (\<lambda>actor. chkStr p1 (readMember actor ''id'') None @ chkStr p2 (readMember actor ''method'') None) = []
      \<longleftrightarrow> hasShape (SFields [(''id'', SText), (''method'', SText)]) a" for p p1 p2 a
    by (cases "entriesOf a") (simp_all add: chkObj_fields hasShape_fields chkStr_iff)
  show ?thesis
  proof (cases "entriesOf v")
    case (Some es)
    show ?thesis
      unfolding changeShape_def CHANGE_def chkObj_fields [of "''record.change''"] Some option.case append_is_Nil_conv actor
      by (auto simp: Some hasShape_fields [of _ v] chkStr_iff chkOneOf_iff)
  qed (simp add: changeShape_def CHANGE_def chkObj_fields hasShape_fields)
qed

lemma recordShape_iff [shape_iff]: "recordShape v = [] \<longleftrightarrow> hasShape RECORD v"
proof -
  have tm: "chkObj p t (\<lambda>t. chkStr p1 (readMember t ''issued_at'') None @ chkInt p2 (readMember t ''seq'') 0) = []
      \<longleftrightarrow> hasShape (SFields [(''issued_at'', SText), (''seq'', SInt 0)]) t" for p p1 p2 t
    by (cases "entriesOf t") (simp_all add: chkObj_fields hasShape_fields chkStr_iff chkInt_iff)
  show ?thesis
  proof (cases "entriesOf v")
    case (Some es)
    show ?thesis
      unfolding recordShape_def RECORD_def chkObj_fields [of "''record''"] Some option.case append_is_Nil_conv tm
      by (auto simp: Some hasShape_fields [of _ v] chkStr_iff chkSignature_iff chkRuntime_iff eventShape_iff changeShape_iff
        hasShape.simps(5) split: if_splits)
  qed (simp add: recordShape_def RECORD_def chkObj_fields hasShape_fields)
qed

lemma pathShape_iff [shape_iff]: "pathShape i hs = [] \<longleftrightarrow> list_all (hasShape SDigest) hs"
  by (induction i hs rule: pathShape.induct) (simp_all add: shape_iff)

lemma inclusionShape_iff [shape_iff]: "inclusionShape v = [] \<longleftrightarrow> hasShape (SNullable INCLUSION) v"
proof -
  have path: "(case u of JArr hs \<Rightarrow> pathShape 0 hs | _ \<Rightarrow> [m]) = [] \<longleftrightarrow> hasShape (SList SDigest) u" for u m
    by (cases u) (simp_all add: pathShape_iff hasShape.simps(7))
  show ?thesis
    by (cases "entriesOf v") (auto simp: inclusionShape_def INCLUSION_def chkObj_fields hasShape_fields chkInt_iff path)
qed

lemma sthShape_iff [shape_iff]: "sthShape v = [] \<longleftrightarrow> hasShape (SNullable TREE_HEAD) v"
  by (cases "entriesOf v") (auto simp: sthShape_def TREE_HEAD_def chkObj_fields hasShape_fields shape_iff)

lemma body_iff:
  "chkObj p b (\<lambda>body. chkOneOf p1 (readMember body ''vendor'') TEE_VENDORS @ chkMeasurement p2 (readMember body ''measurement'')
     @ chkStr p3 (readMember body ''report_data'') (Some MULTIHASH) @ chkStr p4 (readMember body ''tcb_status'') None
     @ chkStr p5 (readMember body ''app_id'') None @ chkStr p6 (readMember body ''instance_id'') None @ chkStr p7 (readMember body ''issued_at'') None) = []
   \<longleftrightarrow> hasShape (SFields [(''vendor'', SOneOf TEE_VENDORS), (''measurement'', MEASUREMENT), (''report_data'', SDigest), (''tcb_status'', SText),
        (''app_id'', SText), (''instance_id'', SText), (''issued_at'', SText)]) b"
  by (cases "entriesOf b") (simp_all add: chkObj_fields hasShape_fields chkStr_iff chkOneOf_iff chkMeasurement_iff)

lemma quoteShape_iff [shape_iff]: "quoteShape v = [] \<longleftrightarrow> hasShape (SNullable QUOTE) v"
proof (cases "entriesOf v")
  case (Some es)
  then have "v \<noteq> JNull" by (auto simp: entriesOf_def)
  then show ?thesis
    unfolding quoteShape_def QUOTE_def chkObj_fields [of "''attestation.quote''"] Some if_not_P option.case append_is_Nil_conv body_iff
    by (auto simp: Some hasShape_fields [of _ v] chkObj_fields [of "''attestation.quote''"] body_iff chkStr_iff chkOneOf_iff chkSignature_iff)
qed (auto simp: quoteShape_def QUOTE_def chkObj_fields hasShape_fields)

lemma attestationShape_iff [shape_iff]: "attestationShape v = [] \<longleftrightarrow>
   hasShape (SFields [(''mode'', SOneOf MODES), (''note'', SText), (''key_binding'', SNullable SDigest),
     (''expected_measurement'', SNullable MEASUREMENT), (''quote'', SNullable QUOTE)]) v"
proof (cases "entriesOf v")
  case (Some es)
  show ?thesis
    unfolding attestationShape_def chkObj_fields [of "''attestation''"] Some option.case append_is_Nil_conv
    by (auto simp: Some hasShape_fields [of _ v] chkStr_iff chkOneOf_iff chkMeasurement_iff quoteShape_iff)
qed (simp add: attestationShape_def chkObj_fields hasShape_fields)

lemma directoryShape_iff [shape_iff]:
  "directoryShape v = [] \<longleftrightarrow> hasShape (SDirectory (SFields [(''ml_dsa_pub'', SB64), (''ed25519_pub'', SB64)])) v"
proof -
  have entry: "chkObj p e (\<lambda>entry. chkStr p1 (readMember entry ''ml_dsa_pub'') (Some B64_FIELD) @ chkStr p2 (readMember entry ''ed25519_pub'') (Some B64_FIELD)) = []
      \<longleftrightarrow> hasShape (SFields [(''ml_dsa_pub'', SB64), (''ed25519_pub'', SB64)]) e" for p p1 p2 e
    by (cases "entriesOf e") (simp_all add: chkObj_fields hasShape_fields chkStr_iff)
  show ?thesis
    by (cases "entriesOf v") (auto simp: directoryShape_def chkObj_fields [of "''key_directory''"] entry list_all_iff)
qed

lemma shapeErrors_iff: "shapeErrors v = [] \<longleftrightarrow> hasShape RECEIPT_V2 v"
proof (cases "entriesOf v")
  case (Some root)
  have nulls: "\<not> hasShape INCLUSION JNull" "\<not> hasShape TREE_HEAD JNull" by (simp_all add: INCLUSION_def TREE_HEAD_def)
  show ?thesis
    unfolding shapeErrors_def RECEIPT_V2_def chkObj_fields [of "''(root)''"] Some option.case append_is_Nil_conv
      anchorShape_iff recordShape_iff inclusionShape_iff sthShape_iff attestationShape_iff directoryShape_iff chkStr_iff guard_iff
    using nulls by (auto simp: Some hasShape_fields [of _ v] SOneOf_single simp del: hasShape.simps(9))
qed (simp add: shapeErrors_def RECEIPT_V2_def chkObj_fields hasShape_fields)

text \<open>
  \<^bold>\<open>C19.\<close> The hand-written shape check is the declared schema: it accepts a value, and hands it on unchanged, exactly if the value has
  the shape \<open>RECEIPT_V2\<close>; otherwise it reports at least one error.
\<close>

theorem shape_check_is_schema:
  "validateReceiptV2Shape v = \<lparr>shape_ok = hasShape RECEIPT_V2 v, shape_errors = shape_errors (validateReceiptV2Shape v),
     shape_receipt = (if hasShape RECEIPT_V2 v then Some v else None)\<rparr>
   \<and> (shape_errors (validateReceiptV2Shape v) = []) = hasShape RECEIPT_V2 v"
  by (simp add: validateReceiptV2Shape_def shapeErrors_iff)

end
