(* ===== verification/Receipt.thy ===== *)
theory Receipt
  imports Structure Anchor Merkle
begin

text \<open>
  \<^verbatim>\<open>src/src/phala/record.ts\<close>, \<^verbatim>\<open>quote.ts\<close> and \<^verbatim>\<open>verify.ts\<close>: the bytes a record signs, quotes and their binding to the signing key, and the
  verification of a receipt in its seven domains.  A receipt is an arbitrary \<open>jsval\<close>: the verifier takes bytes from anyone.

  Of a domain's result the status is modelled, not the display text; the reasons are modelled for a malformed receipt (they are
  the shape errors).  The quote verifier and the source of block headers are arguments.  Results: what a receipt that verifies
  establishes, that only a configured verifier that answers with a root other than the simulator's makes the attestation domain pass, that the enclave domain ties the
  quote to the signing key, and when verification throws.
\<close>

section \<open>Reading a validated receipt\<close>

text \<open>Property access on a value that is not null or undefined.\<close>

definition mem :: "jsval \<Rightarrow> string \<Rightarrow> jsval" where
  "mem v k = (case entriesOf v of Some es \<Rightarrow> readMember es k | None \<Rightarrow> JUndef)"

definition strv :: "jsval \<Rightarrow> string" where
  "strv v = (case v of JStr s \<Rightarrow> s | _ \<Rightarrow> [])"

definition intv :: "jsval \<Rightarrow> int" where
  "intv v = (case v of JNum (Fin r) \<Rightarrow> floor r | _ \<Rightarrow> 0)"

definition arrv :: "jsval \<Rightarrow> jsval list" where
  "arrv v = (case v of JArr vs \<Rightarrow> vs | _ \<Rightarrow> [])"

definition jtruthy :: "jsval \<Rightarrow> bool" where
  "jtruthy v = (case v of JUndef \<Rightarrow> False | JNull \<Rightarrow> False | JBool b \<Rightarrow> b | JNum n \<Rightarrow> n \<noteq> Fin 0 \<and> n \<noteq> NaN | JStr s \<Rightarrow> s \<noteq> [] | _ \<Rightarrow> True)"

text \<open>A value used as a property name or matched against a pattern.\<close>

definition asText :: "env \<Rightarrow> jsval \<Rightarrow> string" where
  "asText P v = (case v of JStr s \<Rightarrow> s | _ \<Rightarrow> js_string P v)"

text \<open>A value that is not a string where a base64 field is expected makes \<^verbatim>\<open>fromBase64Field\<close> throw, and so does the empty string.\<close>

definition sigOf :: "jsval \<Rightarrow> SignatureBlock" where
  "sigOf v = \<lparr>sig_alg = strv (mem v ''alg''), sig_key_id = strv (mem v ''key_id''), sig_ml_dsa = strv (mem v ''ml_dsa''),
     sig_ed25519 = strv (mem v ''ed25519'')\<rparr>"

definition entryOf :: "jsval \<Rightarrow> DirectoryEntry" where
  "entryOf v = \<lparr>ml_dsa_pub = strv (mem v ''ml_dsa_pub''), ed25519_pub = strv (mem v ''ed25519_pub'')\<rparr>"

definition sthOf :: "jsval \<Rightarrow> STHCore" where
  "sthOf v = \<lparr>log_id = strv (mem v ''log_id''), tree_size = intv (mem v ''tree_size''), root_hash = strv (mem v ''root_hash''),
     sth_timestamp = strv (mem v ''timestamp'')\<rparr>"

text \<open>\<^verbatim>\<open>directory[keyId]\<close>, which also finds the names every object inherits.\<close>

definition lookupKey :: "jsval \<Rightarrow> string \<Rightarrow> jsval option" where
  "lookupKey directory i = (let e = mem directory i in if jtruthy e then Some e else None)"

section \<open>record.ts\<close>

definition coreOfV2 :: "jsval \<Rightarrow> jsval" where
  "coreOfV2 record = JObj (filter (\<lambda>(k, _). k \<noteq> ''signature'') (case entriesOf record of Some es \<Rightarrow> es | None \<Rightarrow> []))"

definition bindingHashV2 :: "env \<Rightarrow> jsval \<Rightarrow> Multihash" where
  "bindingHashV2 P core = mhSha256 (sha256 P) (canonicalCbor P core)"

definition recordSigningMessageV2 :: "env \<Rightarrow> jsval \<Rightarrow> Multihash \<Rightarrow> bytes res" where
  "recordSigningMessageV2 P core binding = rbind (multihashDigest binding) (\<lambda>d. Inr (concatBytes [canonicalCbor P core, d]))"

definition recordLeafDataV2 :: "Multihash \<Rightarrow> bytes res" where
  "recordLeafDataV2 binding = multihashDigest binding"

text \<open>\<^verbatim>\<open>{ ...core, signature }\<close>.\<close>

definition sigVal :: "SignatureBlock \<Rightarrow> jsval" where
  "sigVal s = JObj [(''alg'', JStr (sig_alg s)), (''key_id'', JStr (sig_key_id s)), (''ml_dsa'', JStr (sig_ml_dsa s)), (''ed25519'', JStr (sig_ed25519 s))]"

definition signedRecordV2 :: "jsval \<Rightarrow> SignatureBlock \<Rightarrow> jsval" where
  "signedRecordV2 core signature =
     JObj (mput ''signature'' (sigVal signature) (case entriesOf core of Some es \<Rightarrow> es | None \<Rightarrow> []))"

definition recordSubjectLabel :: "jsval \<Rightarrow> string" where
  "recordSubjectLabel core =
     (if mem core ''schema'' = JStr ''cool.evidence.v1''
      then strv (mem (mem core ''event'') ''type'') @ '' ('' @ strv (mem (mem core ''event'') ''application_id'') @ '')''
      else strv (mem (mem core ''change'') ''kind'') @ '': '' @ strv (mem (mem core ''change'') ''ref''))"

section \<open>quote.ts\<close>

definition measurementEquals :: "jsval \<Rightarrow> jsval \<Rightarrow> bool" where
  "measurementEquals a b = (mem a ''mrtd'' = mem b ''mrtd'' \<and> mem a ''rtmr0'' = mem b ''rtmr0'' \<and> mem a ''rtmr1'' = mem b ''rtmr1''
     \<and> mem a ''rtmr2'' = mem b ''rtmr2'' \<and> mem a ''rtmr3'' = mem b ''rtmr3'')"

definition measurementDigest :: "env \<Rightarrow> jsval \<Rightarrow> Multihash" where
  "measurementDigest P m = mhSha256 (sha256 P) (canonicalCbor P m)"

definition shortMeasurement :: "jsval \<Rightarrow> nat \<Rightarrow> string" where
  "shortMeasurement m n = take n (drop 4 (strv (mem m ''mrtd'')))"

definition measurementDiff :: "jsval \<Rightarrow> jsval \<Rightarrow> string list" where
  "measurementDiff a b = filter (\<lambda>f. mem a f \<noteq> mem b f) [''mrtd'', ''rtmr0'', ''rtmr1'', ''rtmr2'', ''rtmr3'']"

definition REPORT_DATA_TAG :: string where
  "REPORT_DATA_TAG = ''cool/report-data/v2''"

definition enclaveReportData :: "env \<Rightarrow> jsval \<Rightarrow> Multihash" where
  "enclaveReportData P entry = mhSha256 (sha256 P) (concatBytes [utf8 REPORT_DATA_TAG,
     canonicalCbor P (JObj [(''ed25519_pub'', mem entry ''ed25519_pub''), (''ml_dsa_pub'', mem entry ''ml_dsa_pub'')])])"

definition reportDataBytes :: "Multihash \<Rightarrow> bytes res" where
  "reportDataBytes c = rbind (fromHexField (''hex:'' @ drop (length MULTIHASH_PREFIX) c)) (\<lambda>digest.
     if length digest > 64 then Inl RangeError else Inr (digest @ replicate (64 - length digest) 0))"

definition quoteSigningMessage :: "env \<Rightarrow> jsval \<Rightarrow> bytes" where
  "quoteSigningMessage P body = canonicalCbor P body"

definition quoteDigest :: "env \<Rightarrow> jsval \<Rightarrow> Multihash" where
  "quoteDigest P quote = mhSha256 (sha256 P) (canonicalCbor P quote)"

definition signSimulatedQuote :: "env \<Rightarrow> jsval \<Rightarrow> KeyPair \<Rightarrow> SignatureBlock" where
  "signSimulatedQuote P body rootKey = hybridSign P (quoteSigningMessage P body) rootKey"

record QuoteVerification =
  qv_ok :: bool
  qv_root :: string
  qv_tcb :: string

text \<open>A verifier is its \<^verbatim>\<open>verify\<close> method.\<close>

type_synonym QuoteVerifier = "jsval \<Rightarrow> QuoteVerification res"

definition simulatedQuoteVerifier :: "env \<Rightarrow> jsval \<Rightarrow> QuoteVerifier" where
  "simulatedQuoteVerifier P directory quote =
     (let tcb = strv (mem (mem quote ''body'') ''tcb_status'');
          result = (\<lambda>ok. Inr \<lparr>qv_ok = ok, qv_root = ''cool-sim-root'', qv_tcb = tcb\<rparr>)
      in if \<not> jtruthy (mem quote ''signature'') then result False
      else case lookupKey directory (sig_key_id (sigOf (mem quote ''signature''))) of
          None \<Rightarrow> result False
        | Some entry \<Rightarrow> result (hv_ok (hybridVerify P (quoteSigningMessage P (mem quote ''body'')) (sigOf (mem quote ''signature'')) (entryOf entry))))"

text \<open>The remote verifier: \<open>post\<close> is what the service answers (\<open>None\<close>: unreachable, or not JSON), a status and the parsed body;
  \<open>decode\<close> reads its verdict.\<close>

record RemoteVerdict =
  rv_ok :: bool
  rv_tcb :: "string option"

definition defaultDecode :: "jsval \<Rightarrow> RemoteVerdict res" where
  "defaultDecode response = (let r = (if response = JNull \<or> response = JUndef then JObj [] else response) in
     Inr \<lparr>rv_ok = mem r ''ok'' = JBool True \<or> mem r ''verified'' = JBool True \<or> mem r ''success'' = JBool True,
       rv_tcb = (case mem r ''tcb_status'' of JStr s \<Rightarrow> Some s | _ \<Rightarrow> None)\<rparr>)"

definition phalaDecode :: "jsval \<Rightarrow> RemoteVerdict res" where
  "phalaDecode response = (let r = (if response = JNull \<or> response = JUndef then JObj [] else response); q = mem r ''quote'' in
     Inr \<lparr>rv_ok = mem q ''verified'' = JBool True, rv_tcb = None\<rparr>)"

definition remoteQuoteVerifier :: "string \<Rightarrow> (string \<Rightarrow> jsval \<Rightarrow> (nat \<times> jsval) option) \<Rightarrow> (jsval \<Rightarrow> RemoteVerdict res) \<Rightarrow> QuoteVerifier" where
  "remoteQuoteVerifier vendorRoot post decode quote =
     (let tcb = strv (mem (mem quote ''body'') ''tcb_status''); no = \<lparr>qv_ok = False, qv_root = vendorRoot, qv_tcb = tcb\<rparr>
      in if \<not> jtruthy (mem quote ''raw'') then Inr no
      else case post (drop 7 (strv (mem quote ''raw''))) quote of
          None \<Rightarrow> Inr no
        | Some (status, body) \<Rightarrow>
            if \<not> okStatus status then Inr no
            else case decode body of
                Inl _ \<Rightarrow> Inr no
              | Inr verdict \<Rightarrow> Inr \<lparr>qv_ok = rv_ok verdict, qv_root = vendorRoot, qv_tcb = (case rv_tcb verdict of Some t \<Rightarrow> t | None \<Rightarrow> tcb)\<rparr>)"

definition phalaQuoteVerifier :: "(string \<Rightarrow> jsval \<Rightarrow> (nat \<times> jsval) option) \<Rightarrow> QuoteVerifier" where
  "phalaQuoteVerifier post = remoteQuoteVerifier ''intel-dcap''
     (\<lambda>raw quote. case fromBase64 raw of Inl _ \<Rightarrow> None | Inr bs \<Rightarrow> post (toHex bs) quote) phalaDecode"

datatype DomainStatusV2 = DPass | DFail | DAbsent | DMock | DSimulated | DPending

definition isHex32 :: "string \<Rightarrow> bool" where
  "isHex32 s = (startsWith s ''hex:'' \<and> (length s = 100 \<or> length s = 68) \<and> list_all isLowerHex (drop 4 s))"

definition checkQuoteStructure :: "env \<Rightarrow> jsval \<Rightarrow> DomainStatusV2 option" where
  "checkQuoteStructure P quote =
     (let m = (case entriesOf (mem (mem quote ''body'') ''measurement'') of Some es \<Rightarrow> es | None \<Rightarrow> [])
      in if \<not> list_all (\<lambda>(name, value). isHex32 (asText P value)) m then Some DFail
      else if \<not> isMultihash (asText P (mem (mem quote ''body'') ''report_data'')) then Some DFail
      else if mem quote ''root'' = JStr ''cool-sim-root'' \<and> mem quote ''raw'' \<noteq> JNull then Some DFail
      else if mem quote ''root'' \<noteq> JStr ''cool-sim-root'' \<and> mem quote ''raw'' = JNull then Some DFail
      else None)"

section \<open>verify.ts\<close>

record VerifyArgsV2 =
  va_witnessThreshold :: int
  va_expectedMeasurement :: "jsval option"
  va_requireHardware :: bool
  va_quoteVerifier :: "QuoteVerifier option"
  va_blockHeaders :: "(nat \<Rightarrow> string option res) option"

record VerdictChecksV2 =
  d_binding :: DomainStatusV2
  d_signature :: DomainStatusV2
  d_inclusion :: DomainStatusV2
  d_witnesses :: DomainStatusV2
  d_attestation :: DomainStatusV2
  d_enclave :: DomainStatusV2
  d_anchor :: DomainStatusV2

record VerdictSubjectV2 =
  vs_kind :: string
  vs_subject :: string
  vs_issued_at :: string
  vs_record_id :: string
  vs_key_id :: string
  vs_tee :: string

record VerdictV2 =
  verdict_ok :: bool
  verdict_subject :: "VerdictSubjectV2 option"
  verdict_checks :: VerdictChecksV2
  verdict_reasons :: "string list"

definition verifyAnchorDomain :: "env \<Rightarrow> jsval \<Rightarrow> VerifyArgsV2 \<Rightarrow> DomainStatusV2 run" where
  "verifyAnchorDomain P r options =
     (let anchor = mem r ''anchor''; sth = mem r ''sth'' in
      if \<not> jtruthy anchor then Some (Inr DAbsent)
      else if \<not> jtruthy sth then Some (Inr DFail)
      else if mem anchor ''target'' \<noteq> mem sth ''root_hash'' then Some (Inr DFail)
      else if mem anchor ''tree_size'' \<noteq> mem sth ''tree_size'' then Some (Inr DFail)
      else case multihashDigest (strv (mem anchor ''target'')) of
          Inl _ \<Rightarrow> Some (Inr DFail)
        | Inr digest \<Rightarrow>
            (case runbind (Some (fromBase64 (strv (mem anchor ''proof'')))) (parseProof P) of
               None \<Rightarrow> None
             | Some (Inl _) \<Rightarrow> Some (Inr DFail)
             | Some (Inr (d, stamp)) \<Rightarrow>
                 if toHex d \<noteq> toHex digest then Some (Inr DFail)
                 else runbind (Some (verifyAnchor digest stamp (va_blockHeaders options))) (\<lambda>c. Some (Inr (case anchor_status c of
                        Confirmed \<Rightarrow> DPass | AnchorFail \<Rightarrow> DFail | _ \<Rightarrow> DPending)))))"

definition inclusionVerifies :: "env \<Rightarrow> jsval \<Rightarrow> bool" where
  "inclusionVerifies P r = catching False
     (rbind (recordLeafDataV2 (strv (mem r ''binding_hash''))) (\<lambda>leaf.
      rbind (mapM (\<lambda>h. multihashDigest (strv h)) (arrv (mem (mem r ''inclusion'') ''audit_path''))) (\<lambda>path.
      rbind (multihashDigest (strv (mem (mem r ''sth'') ''root_hash''))) (\<lambda>root.
        Inr (verifyInclusion (sha256 P) (leafHash (sha256 P) leaf) (intv (mem (mem r ''inclusion'') ''leaf_index''))
               (intv (mem (mem r ''sth'') ''tree_size'')) path root)))))"

definition verifyInclusionDomain :: "env \<Rightarrow> jsval \<Rightarrow> DomainStatusV2" where
  "verifyInclusionDomain P r =
     (let inc = mem r ''inclusion''; sth = mem r ''sth''; sig = sigOf (mem sth ''signature'') in
      if \<not> jtruthy inc \<or> \<not> jtruthy sth then DAbsent
      else if mem inc ''tree_size'' \<noteq> mem sth ''tree_size'' then DFail
      else if intv (mem inc ''leaf_index'') < 0 \<or> intv (mem inc ''leaf_index'') \<ge> intv (mem sth ''tree_size'') then DFail
      else if \<not> inclusionVerifies P r then DFail
      else case lookupKey (mem r ''key_directory'') (sig_key_id sig) of
          None \<Rightarrow> DFail
        | Some sthEntry \<Rightarrow>
            if \<not> hv_ok (hybridVerify P (sthSigningMessage P (sthOf sth)) sig (entryOf sthEntry)) then DFail else DPass)"

text \<open>The loop over the witnesses, whose elements the shape check does not look at.\<close>

fun countExternal :: "env \<Rightarrow> jsval \<Rightarrow> bytes \<Rightarrow> jsval list \<Rightarrow> int \<Rightarrow> int res" where
  "countExternal P directory message [] n = Inr n"
| "countExternal P directory message (w # ws) n =
     (if w = JNull \<or> w = JUndef then Inl TypeError
      else if \<not> jtruthy (mem w ''external'') then countExternal P directory message ws n
      else case lookupKey directory (asText P (mem w ''id'')) of
          None \<Rightarrow> countExternal P directory message ws n
        | Some entry \<Rightarrow>
            countExternal P directory message ws
              (if hv_ok (hybridVerify P message \<lparr>sig_alg = strv (mem w ''alg''), sig_key_id = strv (mem w ''id''),
                    sig_ml_dsa = strv (mem w ''ml_dsa''), sig_ed25519 = strv (mem w ''ed25519'')\<rparr> (entryOf entry))
               then n + 1 else n))"

definition verifyWitnessesDomain :: "env \<Rightarrow> jsval \<Rightarrow> int \<Rightarrow> DomainStatusV2 res" where
  "verifyWitnessesDomain P r threshold =
     (let sth = mem r ''sth'' in
      if \<not> jtruthy sth then Inr DAbsent
      else rbind (countExternal P (mem r ''key_directory'') (sthSigningMessage P (sthOf sth)) (arrv (mem sth ''witnesses'')) 0)
        (\<lambda>external. Inr (if external \<ge> max threshold 1 then DPass else DAbsent)))"

definition verifyAttestationDomain :: "env \<Rightarrow> jsval \<Rightarrow> VerifyArgsV2 \<Rightarrow> DomainStatusV2 res" where
  "verifyAttestationDomain P r options =
     (let quote = mem (mem r ''attestation'') ''quote''; simulated = (mem quote ''root'' = JStr ''cool-sim-root'') in
      if \<not> jtruthy quote then Inr DMock
      else case checkQuoteStructure P quote of
          Some structural \<Rightarrow> Inr structural
        | None \<Rightarrow>
            (case (case va_quoteVerifier options of
                 Some v \<Rightarrow> Some v
               | None \<Rightarrow> if simulated then Some (simulatedQuoteVerifier P (mem r ''key_directory'')) else None) of
               None \<Rightarrow> Inr DAbsent
             | Some verifier \<Rightarrow> rbind (verifier quote) (\<lambda>verification.
                 if \<not> qv_ok verification then Inr DFail
                 else if simulated \<or> qv_root verification = ''cool-sim-root'' then Inr DSimulated
                 else Inr DPass)))"

definition verifyEnclaveDomain :: "env \<Rightarrow> jsval \<Rightarrow> jsval option \<Rightarrow> VerifyArgsV2 \<Rightarrow> DomainStatusV2 \<Rightarrow> DomainStatusV2" where
  "verifyEnclaveDomain P r signingEntry options attestationStatus =
     (let runtime = mem (mem r ''record'') ''runtime''; quote = mem (mem r ''attestation'') ''quote'';
          quoted = mem (mem quote ''body'') ''measurement'' in
      if \<not> jtruthy quote \<or> \<not> jtruthy (mem runtime ''tee_quote'') then DAbsent
      else if JStr (quoteDigest P quote) \<noteq> mem runtime ''tee_quote'' then DFail
      else if \<not> jtruthy (mem runtime ''enclave_measurement'') then DFail
      else if \<not> measurementEquals (mem runtime ''enclave_measurement'') quoted then DFail
      else case signingEntry of
          None \<Rightarrow> DFail
        | Some entry \<Rightarrow>
            if mem (mem quote ''body'') ''report_data'' \<noteq> JStr (enclaveReportData P entry) then DFail
            else let pin = (case va_expectedMeasurement options of Some p \<Rightarrow> p
                            | None \<Rightarrow> mem (mem r ''attestation'') ''expected_measurement'')
              in if jtruthy pin \<and> \<not> measurementEquals pin quoted then DFail
              else if va_requireHardware options \<and> attestationStatus \<noteq> DPass then DFail
              else if attestationStatus = DSimulated then DSimulated else DPass)"

definition MALFORMED :: VerdictChecksV2 where
  "MALFORMED = \<lparr>d_binding = DFail, d_signature = DFail, d_inclusion = DAbsent, d_witnesses = DAbsent, d_attestation = DAbsent,
     d_enclave = DAbsent, d_anchor = DAbsent\<rparr>"

fun showStatus :: "DomainStatusV2 \<Rightarrow> string" where
  "showStatus DPass = ''pass''"
| "showStatus DFail = ''fail''"
| "showStatus DAbsent = ''absent''"
| "showStatus DMock = ''mock''"
| "showStatus DSimulated = ''simulated''"
| "showStatus DPending = ''pending''"

text \<open>The sign U+00B7 between vendor and mode.\<close>

definition DOT :: string where
  "DOT = '' '' @ [CHR 0xc2, CHR 0xb7] @ '' ''"

definition subjectOf :: "jsval \<Rightarrow> DomainStatusV2 \<Rightarrow> VerdictSubjectV2" where
  "subjectOf r att = (let record = mem r ''record'' in
     \<lparr>vs_kind = (if mem record ''schema'' = JStr ''cool.change.v2'' then ''change'' else ''evidence''),
      vs_subject = recordSubjectLabel (coreOfV2 record), vs_issued_at = strv (mem (mem record ''time'') ''issued_at''),
      vs_record_id = strv (mem record ''record_id''), vs_key_id = strv (mem (mem record ''signature'') ''key_id''),
      vs_tee = (let vendor = strv (mem (mem record ''runtime'') ''tee_vendor''); mode = strv (mem (mem record ''runtime'') ''mode'')
        in if mode = ''hardware'' \<and> att \<noteq> DPass
           then vendor @ DOT @ ''hardware quote NOT verified (attestation '' @ showStatus att @ '')''
           else vendor @ DOT @ mode)\<rparr>)"

text \<open>The signature over the core and the stored binding hash.\<close>

definition signatureDomain :: "env \<Rightarrow> jsval \<Rightarrow> jsval option \<Rightarrow> DomainStatusV2 res" where
  "signatureDomain P r signingEntry = (case signingEntry of
       None \<Rightarrow> Inr DFail
     | Some entry \<Rightarrow> rbind (recordSigningMessageV2 P (coreOfV2 (mem r ''record'')) (strv (mem r ''binding_hash''))) (\<lambda>message.
         Inr (if hv_ok (hybridVerify P message (sigOf (mem (mem r ''record'') ''signature'')) (entryOf entry)) then DPass else DFail)))"

definition verifyReceiptV2 :: "env \<Rightarrow> jsval \<Rightarrow> VerifyArgsV2 \<Rightarrow> VerdictV2 run" where
  "verifyReceiptV2 P receipt options =
     (let shape = validateReceiptV2Shape receipt in
      case shape_receipt shape of
        None \<Rightarrow> Some (Inr \<lparr>verdict_ok = False, verdict_subject = None, verdict_checks = MALFORMED, verdict_reasons = shape_errors shape\<rparr>)
      | Some r \<Rightarrow>
          let core = coreOfV2 (mem r ''record'');
              binding = (if bindingHashV2 P core = strv (mem r ''binding_hash'') then DPass else DFail);
              signingEntry = lookupKey (mem r ''key_directory'') (strv (mem (mem (mem r ''record'') ''signature'') ''key_id''))
          in runbind (Some (signatureDomain P r signingEntry)) (\<lambda>signature.
             let inclusion = verifyInclusionDomain P r in
             runbind (Some (verifyWitnessesDomain P r (va_witnessThreshold options))) (\<lambda>witnesses.
             runbind (Some (verifyAttestationDomain P r options)) (\<lambda>attestation.
             let enclave = verifyEnclaveDomain P r signingEntry options attestation in
             runbind (verifyAnchorDomain P r options) (\<lambda>anchor.
             Some (Inr \<lparr>verdict_ok = binding = DPass \<and> signature = DPass \<and> (inclusion = DPass \<or> inclusion = DAbsent)
                    \<and> enclave \<noteq> DFail \<and> attestation \<noteq> DFail
                    \<and> \<not> (va_requireHardware options \<and> attestation \<noteq> DPass)
                    \<and> \<not> (va_witnessThreshold options > 0 \<and> witnesses \<noteq> DPass),
                 verdict_subject = Some (subjectOf r attestation),
                 verdict_checks = \<lparr>d_binding = binding, d_signature = signature, d_inclusion = inclusion, d_witnesses = witnesses,
                    d_attestation = attestation, d_enclave = enclave, d_anchor = anchor\<rparr>,
                 verdict_reasons = []\<rparr>))))))"

definition domainOrder :: "string list" where
  "domainOrder = [''binding'', ''signature'', ''inclusion'', ''witnesses'', ''attestation'', ''enclave'', ''anchor'']"

text \<open>\<^verbatim>\<open>{ ...receipt, key_directory: { ...receipt.key_directory, ...trusted } }\<close>.\<close>

definition withTrustedKeys :: "(string \<times> jsval) list \<Rightarrow> (string \<times> jsval) list \<Rightarrow> (string \<times> jsval) list" where
  "withTrustedKeys receipt trusted = mput ''key_directory''
     (JObj (fold (\<lambda>(k, e). mput k e) trusted (case entriesOf (readMember receipt ''key_directory'') of Some es \<Rightarrow> es | None \<Rightarrow> []))) receipt"

section \<open>Attaching an anchor\<close>

definition anchorVal :: "AnchorProof \<Rightarrow> jsval" where
  "anchorVal a = JObj [(''kind'', JStr (ap_kind a)), (''chain'', JStr (ap_chain a)), (''target'', JStr (ap_target a)),
     (''tree_size'', jInt (ap_tree_size a)), (''proof'', JStr (ap_proof a)), (''calendars'', JArr (map JStr (ap_calendars a))),
     (''submitted_at'', JStr (ap_submitted_at a)), (''heights'', JArr (map (\<lambda>h. jInt (int h)) (ap_heights a)))]"

definition attachAnchor :: "(string \<times> jsval) list \<Rightarrow> AnchorProof \<Rightarrow> (string \<times> jsval) list res" where
  "attachAnchor receipt a =
     (let sth = readMember receipt ''sth'' in
      if \<not> jtruthy sth then Inl (Error ''this receipt has no tree head to anchor'')
      else if mem sth ''root_hash'' \<noteq> JStr (ap_target a) then Inl (Error ''refusing to attach: the proof covers another head'')
      else if mem sth ''tree_size'' \<noteq> jInt (ap_tree_size a) then Inl (Error ''refusing to attach: the proof is for another tree size'')
      else Inr (mput ''anchor'' (anchorVal a) receipt))"


section \<open>Lemmas\<close>

lemma hasShape_mem: "hasShape (SFields fs) v \<Longrightarrow> (f, s) \<in> set fs \<Longrightarrow> hasShape s (mem v f)"
  by (auto simp: hasShape_fields mem_def list_all_iff split: option.splits)

lemma mem_JObj [simp]: "mem (JObj es) k = readMember es k"
  by (simp add: mem_def entriesOf_def)

lemma mem_prim [simp]: "mem JNull k = JUndef" "mem JUndef k = JUndef" "mem (JStr s) k = JUndef" "mem (JNum n) k = JUndef"
  "mem (JBool b) k = JUndef" "mem (JArr vs) k = JUndef"
  by (simp_all add: mem_def entriesOf_def)

lemma jtruthy_simps [simp]: "\<not> jtruthy JNull" "\<not> jtruthy JUndef" "jtruthy (JObj es)" "jtruthy (JStr s) \<longleftrightarrow> s \<noteq> []" "jtruthy (JBytes bs)" "jtruthy (JArr vs)"
  by (simp_all add: jtruthy_def)

lemma jtruthy_fields: "hasShape (SFields fs) v \<Longrightarrow> jtruthy v"
  by (cases v) (auto simp: hasShape_fields entriesOf_def jtruthy_def)

lemma receipt_parts:
  assumes "hasShape RECEIPT_V2 r"
  shows "hasShape SDigest (mem r ''binding_hash'')" "hasShape RECORD (mem r ''record'')"
    "mem r ''inclusion'' = JNull \<and> mem r ''sth'' = JNull \<or> hasShape INCLUSION (mem r ''inclusion'') \<and> hasShape TREE_HEAD (mem r ''sth'')"
    "hasShape (SOr SNull (SOr SAbsent ANCHOR)) (mem r ''anchor'')"
proof -
  have r: "hasShape (SFields (case RECEIPT_V2 of SAnd (SFields fs) _ \<Rightarrow> fs)) r"
    "hasShape (SOr (SFields [(''inclusion'', SNull), (''sth'', SNull)]) (SFields [(''inclusion'', INCLUSION), (''sth'', TREE_HEAD)])) r"
    using assms by (simp_all add: RECEIPT_V2_def)
  show "hasShape SDigest (mem r ''binding_hash'')" "hasShape RECORD (mem r ''record'')" "hasShape (SOr SNull (SOr SAbsent ANCHOR)) (mem r ''anchor'')"
    by (rule hasShape_mem [OF r(1)], simp add: RECEIPT_V2_def)+
  show "mem r ''inclusion'' = JNull \<and> mem r ''sth'' = JNull \<or> hasShape INCLUSION (mem r ''inclusion'') \<and> hasShape TREE_HEAD (mem r ''sth'')"
    using r(2) by (auto simp: hasShape_fields mem_def split: option.splits)
qed

lemma length_hexPairs: "length (hexPairs s) = length s div 2"
  by (induction s rule: hexPairs.induct) auto

lemma isMultihash_digest: "isMultihash s \<Longrightarrow> \<exists>d. multihashDigest s = Inr d"
proof -
  assume s: "isMultihash s"
  then have h: "list_all isHexChar (drop 10 s)" by (auto simp: isMultihash_def list_all_iff isHexChar_lower)
  have "fromHex (drop 10 s) = Inr (hexPairs (drop 10 s))" using h s by (simp add: fromHex_def isMultihash_def del: length_drop)
  moreover have "length (hexPairs (drop 10 s)) = 32" using s by (simp add: length_hexPairs isMultihash_def del: length_drop)
  moreover have "startsWith s MULTIHASH_PREFIX" "length MULTIHASH_PREFIX = 10" using s by (simp_all add: isMultihash_def MULTIHASH_PREFIX_def)
  ultimately show ?thesis by (simp add: multihashDigest_def)
qed

lemma digest_shape: "hasShape SDigest v \<Longrightarrow> \<exists>s d. v = JStr s \<and> multihashDigest s = Inr d"
  using isMultihash_digest by (auto simp: hasShape.simps(4))

text \<open>What the result of a verification is made of.\<close>

lemma verifyReceiptV2_valid:
  assumes "verifyReceiptV2 P r options = Some (Inr v)" "verdict_subject v \<noteq> None \<or> verdict_ok v"
  obtains w where "hasShape RECEIPT_V2 r"
    and "w = (if bindingHashV2 P (coreOfV2 (mem r ''record'')) = strv (mem r ''binding_hash'') then DPass else DFail)"
    and "d_binding (verdict_checks v) = w"
    and "signatureDomain P r (lookupKey (mem r ''key_directory'') (strv (mem (mem (mem r ''record'') ''signature'') ''key_id''))) = Inr (d_signature (verdict_checks v))"
    and "d_inclusion (verdict_checks v) = verifyInclusionDomain P r"
    and "verifyWitnessesDomain P r (va_witnessThreshold options) = Inr (d_witnesses (verdict_checks v))"
    and "verifyAttestationDomain P r options = Inr (d_attestation (verdict_checks v))"
    and "d_enclave (verdict_checks v) = verifyEnclaveDomain P r
       (lookupKey (mem r ''key_directory'') (strv (mem (mem (mem r ''record'') ''signature'') ''key_id''))) options (d_attestation (verdict_checks v))"
    and "verifyAnchorDomain P r options = Some (Inr (d_anchor (verdict_checks v)))"
    and "verdict_ok v = (w = DPass \<and> d_signature (verdict_checks v) = DPass
       \<and> (d_inclusion (verdict_checks v) = DPass \<or> d_inclusion (verdict_checks v) = DAbsent) \<and> d_enclave (verdict_checks v) \<noteq> DFail
       \<and> d_attestation (verdict_checks v) \<noteq> DFail \<and> \<not> (va_requireHardware options \<and> d_attestation (verdict_checks v) \<noteq> DPass)
       \<and> \<not> (va_witnessThreshold options > 0 \<and> d_witnesses (verdict_checks v) \<noteq> DPass))"
proof -
  have shape: "shape_receipt (validateReceiptV2Shape r) = (if hasShape RECEIPT_V2 r then Some r else None)"
    by (simp add: validateReceiptV2Shape_def shapeErrors_iff)
  have ok: "hasShape RECEIPT_V2 r"
  proof (rule ccontr)
    assume "\<not> hasShape RECEIPT_V2 r"
    then show False using assms by (auto simp: verifyReceiptV2_def shape)
  qed
  show ?thesis
    using assms(1) that [OF ok refl] by (auto simp: verifyReceiptV2_def shape ok Let_def runbind_ok_iff)
qed


lemma inclusion_pass:
  assumes "verifyInclusionDomain P r = DPass"
  shows "inclusionVerifies P r \<and> mem (mem r ''inclusion'') ''tree_size'' = mem (mem r ''sth'') ''tree_size''
    \<and> (\<exists>entry. lookupKey (mem r ''key_directory'') (sig_key_id (sigOf (mem (mem r ''sth'') ''signature''))) = Some entry
       \<and> hv_ok (hybridVerify P (sthSigningMessage P (sthOf (mem r ''sth''))) (sigOf (mem (mem r ''sth'') ''signature'')) (entryOf entry)))"
  using assms by (auto simp: verifyInclusionDomain_def Let_def split: if_splits option.splits)

lemma inclusion_absent: "hasShape RECEIPT_V2 r \<Longrightarrow> verifyInclusionDomain P r = DAbsent \<Longrightarrow> mem r ''inclusion'' = JNull \<and> mem r ''sth'' = JNull"
  using receipt_parts(3) [of r] jtruthy_fields
  by (fastforce simp: verifyInclusionDomain_def Let_def INCLUSION_def TREE_HEAD_def split: if_splits option.splits)

text \<open>A quote whose structure is accepted: every measurement register is 32 or 48 bytes of hex, the report data is a multihash, and it
  carries raw bytes exactly if its root is not the simulator's.\<close>

definition quoteStructured :: "env \<Rightarrow> jsval \<Rightarrow> bool" where
  "quoteStructured P quote = (
     (\<forall>(name, value) \<in> set (case entriesOf (mem (mem quote ''body'') ''measurement'') of Some es \<Rightarrow> es | None \<Rightarrow> []).
        isHex32 (asText P value))
     \<and> isMultihash (asText P (mem (mem quote ''body'') ''report_data''))
     \<and> (mem quote ''root'' = JStr ''cool-sim-root'' \<longleftrightarrow> mem quote ''raw'' = JNull))"

lemma checkQuoteStructure_None: "checkQuoteStructure P quote = None \<longleftrightarrow> quoteStructured P quote"
  by (auto simp: checkQuoteStructure_def quoteStructured_def list_all_iff Let_def)

lemma checkQuoteStructure_no_pass [simp]: "checkQuoteStructure P quote \<noteq> Some DPass"
  by (simp add: checkQuoteStructure_def Let_def)

lemma attestation_structured:
  "verifyAttestationDomain P r options = Inr DPass \<Longrightarrow> quoteStructured P (mem (mem r ''attestation'') ''quote'')"
  by (auto simp: verifyAttestationDomain_def checkQuoteStructure_None [symmetric] Let_def split: if_splits option.splits)

lemma attestation_pass:
  assumes "verifyAttestationDomain P r options = Inr DPass"
  shows "\<exists>verify q. va_quoteVerifier options = Some verify \<and> verify (mem (mem r ''attestation'') ''quote'') = Inr q \<and> qv_ok q
     \<and> qv_root q \<noteq> ''cool-sim-root'' \<and> mem (mem (mem r ''attestation'') ''quote'') ''root'' \<noteq> JStr ''cool-sim-root''
     \<and> mem (mem (mem r ''attestation'') ''quote'') ''raw'' \<noteq> JNull"
  using assms
  by (auto simp: verifyAttestationDomain_def checkQuoteStructure_def Let_def rbind_Inr_iff split: if_splits option.splits)

section \<open>Properties\<close>

text \<open>
  \<^bold>\<open>C20.\<close> What an accepted receipt establishes: it has the shape of the schema; its binding hash is the digest of the canonical core; the
  core and that hash are signed, under both schemes, by the key the directory holds for the record's key id; if it carries a log
  proof, the binding hash is included under a tree head whose signature verifies; and if witnesses were asked for, that many external
  co-signatures verified.
\<close>

theorem accepted_receipt_sound:
  assumes "verifyReceiptV2 P r options = Some (Inr v)" "verdict_ok v"
  shows "hasShape RECEIPT_V2 r
    \<and> mem r ''binding_hash'' = JStr (bindingHashV2 P (coreOfV2 (mem r ''record'')))
    \<and> (\<exists>entry message. lookupKey (mem r ''key_directory'') (strv (mem (mem (mem r ''record'') ''signature'') ''key_id'')) = Some entry
        \<and> recordSigningMessageV2 P (coreOfV2 (mem r ''record'')) (bindingHashV2 P (coreOfV2 (mem r ''record''))) = Inr message
        \<and> hv_ok (hybridVerify P message (sigOf (mem (mem r ''record'') ''signature'')) (entryOf entry)))
    \<and> (mem r ''inclusion'' \<noteq> JNull \<longrightarrow> inclusionVerifies P r
        \<and> (\<exists>entry. lookupKey (mem r ''key_directory'') (sig_key_id (sigOf (mem (mem r ''sth'') ''signature''))) = Some entry
           \<and> hv_ok (hybridVerify P (sthSigningMessage P (sthOf (mem r ''sth''))) (sigOf (mem (mem r ''sth'') ''signature'')) (entryOf entry))))
    \<and> (0 < va_witnessThreshold options \<longrightarrow> (\<exists>n. va_witnessThreshold options \<le> n
        \<and> countExternal P (mem r ''key_directory'') (sthSigningMessage P (sthOf (mem r ''sth''))) (arrv (mem (mem r ''sth'') ''witnesses'')) 0 = Inr n))"
proof -
  obtain w where v: "hasShape RECEIPT_V2 r"
      "w = (if bindingHashV2 P (coreOfV2 (mem r ''record'')) = strv (mem r ''binding_hash'') then DPass else DFail)"
      "signatureDomain P r (lookupKey (mem r ''key_directory'') (strv (mem (mem (mem r ''record'') ''signature'') ''key_id''))) = Inr (d_signature (verdict_checks v))"
      "d_inclusion (verdict_checks v) = verifyInclusionDomain P r"
      "verifyWitnessesDomain P r (va_witnessThreshold options) = Inr (d_witnesses (verdict_checks v))"
      "w = DPass \<and> d_signature (verdict_checks v) = DPass \<and> (d_inclusion (verdict_checks v) = DPass \<or> d_inclusion (verdict_checks v) = DAbsent)
       \<and> \<not> (va_witnessThreshold options > 0 \<and> d_witnesses (verdict_checks v) \<noteq> DPass)"
    using verifyReceiptV2_valid [OF assms(1)] assms(2) by (metis (no_types, lifting))
  have b: "mem r ''binding_hash'' = JStr (bindingHashV2 P (coreOfV2 (mem r ''record'')))"
    using v(2,6) digest_shape [OF receipt_parts(1) [OF v(1)]] by (auto simp: strv_def split: if_splits)
  moreover have "\<exists>entry message. lookupKey (mem r ''key_directory'') (strv (mem (mem (mem r ''record'') ''signature'') ''key_id'')) = Some entry
        \<and> recordSigningMessageV2 P (coreOfV2 (mem r ''record'')) (bindingHashV2 P (coreOfV2 (mem r ''record''))) = Inr message
        \<and> hv_ok (hybridVerify P message (sigOf (mem (mem r ''record'') ''signature'')) (entryOf entry))"
    using v(3,6) b by (auto simp: signatureDomain_def rbind_Inr_iff strv_def split: option.splits if_splits)
  moreover have "mem r ''inclusion'' \<noteq> JNull \<longrightarrow> verifyInclusionDomain P r = DPass"
    using v(4,6) inclusion_absent [OF v(1)] by auto
  moreover have "\<exists>n. va_witnessThreshold options \<le> n
        \<and> countExternal P (mem r ''key_directory'') (sthSigningMessage P (sthOf (mem r ''sth''))) (arrv (mem (mem r ''sth'') ''witnesses'')) 0 = Inr n"
    if "0 < va_witnessThreshold options"
    using v(5,6) that by (auto simp: verifyWitnessesDomain_def Let_def rbind_Inr_iff split: if_splits)
  ultimately show ?thesis using v(1) inclusion_pass by blast
qed

lemma receipt_quote_shape:
  assumes "hasShape RECEIPT_V2 r"
  shows "hasShape (SNullable QUOTE) (mem (mem r ''attestation'') ''quote'')"
proof -
  have "hasShape (SFields (case RECEIPT_V2 of SAnd (SFields fs) _ \<Rightarrow> fs)) r" using assms by (simp add: RECEIPT_V2_def)
  then have "hasShape (SFields [(''mode'', SOneOf MODES), (''note'', SText), (''key_binding'', SNullable SDigest),
      (''expected_measurement'', SNullable MEASUREMENT), (''quote'', SNullable QUOTE)]) (mem r ''attestation'')"
    by (rule hasShape_mem) (simp add: RECEIPT_V2_def)
  then show ?thesis by (rule hasShape_mem) simp
qed

text \<open>Nothing requires the root to be a vendor's: a quote that declares the root \<^verbatim>\<open>none\<close> passes with a verifier that says yes, whatever
  root that verifier reports, as long as it is not the simulator's.\<close>

lemma rootless_quote_passes:
  assumes "mem (mem (mem r ''attestation'') ''quote'') ''root'' = JStr ''none''" "jtruthy (mem (mem r ''attestation'') ''quote'')"
    and "quoteStructured P (mem (mem r ''attestation'') ''quote'')"
    and "va_quoteVerifier options = Some (\<lambda>q. Inr \<lparr>qv_ok = True, qv_root = ''none'', qv_tcb = tcb\<rparr>)"
  shows "verifyAttestationDomain P r options = Inr DPass"
  using assms by (simp add: verifyAttestationDomain_def checkQuoteStructure_None [symmetric] Let_def)

text \<open>
  \<^bold>\<open>C21.\<close> Hardware is never claimed without a verifier: with \<^verbatim>\<open>requireHardware\<close>, a receipt is accepted only if the attestation domain
  passed, and that only if the caller configured a quote verifier and it accepted the receipt's quote under a root that is not the
  simulator's; the quote carries raw bytes, has well-formed registers and report data, and declares one of the roots
  \<^verbatim>\<open>intel-dcap\<close>, \<^verbatim>\<open>amd-kds\<close>, \<^verbatim>\<open>nvidia-nras\<close> and \<^verbatim>\<open>none\<close>, the last of which the code does not exclude
  (\<open>rootless_quote_passes\<close>): that the root is a vendor's is up to the caller's verifier.
\<close>

theorem hardware_needs_verifier:
  assumes "verifyReceiptV2 P r options = Some (Inr v)" "verdict_ok v" "va_requireHardware options"
  shows "d_attestation (verdict_checks v) = DPass
    \<and> (\<exists>verify q. va_quoteVerifier options = Some verify \<and> verify (mem (mem r ''attestation'') ''quote'') = Inr q \<and> qv_ok q
       \<and> qv_root q \<noteq> ''cool-sim-root'')
    \<and> mem (mem (mem r ''attestation'') ''quote'') ''root'' \<in> JStr ` {''intel-dcap'', ''amd-kds'', ''nvidia-nras'', ''none''}
    \<and> hasShape SB64 (mem (mem (mem r ''attestation'') ''quote'') ''raw'')
    \<and> quoteStructured P (mem (mem r ''attestation'') ''quote'')"
proof -
  let ?q = "mem (mem r ''attestation'') ''quote''"
  have d: "d_attestation (verdict_checks v) = DPass" "verifyAttestationDomain P r options = Inr (d_attestation (verdict_checks v))"
    and shape: "hasShape RECEIPT_V2 r"
    using verifyReceiptV2_valid [OF assms(1)] assms(2,3) by metis+
  then have ap: "verifyAttestationDomain P r options = Inr DPass" by simp
  note pass = attestation_pass [OF ap]
  have "?q \<noteq> JNull" using ap by (auto simp: verifyAttestationDomain_def Let_def)
  with receipt_quote_shape [OF shape] have q: "hasShape QUOTE ?q" by simp
  have "hasShape (SOneOf [''intel-dcap'', ''amd-kds'', ''nvidia-nras'', ''cool-sim-root'', ''none'']) (mem ?q ''root'')"
    "hasShape (SNullable SB64) (mem ?q ''raw'')"
    by (rule hasShape_mem [OF q [unfolded QUOTE_def]], simp)+
  with pass have "mem ?q ''root'' \<in> JStr ` {''intel-dcap'', ''amd-kds'', ''nvidia-nras'', ''none''}" "hasShape SB64 (mem ?q ''raw'')"
    by (auto simp: hasShape.simps(5))
  with d pass attestation_structured [OF ap] show ?thesis by auto
qed

text \<open>
  \<^bold>\<open>C22.\<close> The enclave domain ties the quote to the record: when it passes (or says \<^verbatim>\<open>simulated\<close>), the digest of the attached quote is in the
  record's signed core, the record and the quote name the same measurement, the quote's report data commits to the very key entry
  that signed, the measurement is the pinned one if there is a pin, and under \<^verbatim>\<open>requireHardware\<close> the attestation passed.
\<close>

theorem enclave_binds_quote:
  assumes "verifyEnclaveDomain P r signingEntry options att \<in> {DPass, DSimulated}"
  shows "mem (mem (mem r ''record'') ''runtime'') ''tee_quote'' = JStr (quoteDigest P (mem (mem r ''attestation'') ''quote''))
    \<and> measurementEquals (mem (mem (mem r ''record'') ''runtime'') ''enclave_measurement'') (mem (mem (mem (mem r ''attestation'') ''quote'') ''body'') ''measurement'')
    \<and> (\<exists>entry. signingEntry = Some entry \<and> mem (mem (mem (mem r ''attestation'') ''quote'') ''body'') ''report_data'' = JStr (enclaveReportData P entry))
    \<and> (\<forall>pin. va_expectedMeasurement options = Some pin \<longrightarrow> jtruthy pin
         \<longrightarrow> measurementEquals pin (mem (mem (mem (mem r ''attestation'') ''quote'') ''body'') ''measurement''))
    \<and> (va_requireHardware options \<longrightarrow> att = DPass)"
  using assms by (auto simp: verifyEnclaveDomain_def Let_def split: if_splits option.splits)


text \<open>Nothing but a null witness, a quote verifier or a header source makes verification throw.\<close>

lemma countExternal_total:
  "list_all (\<lambda>w. w \<noteq> JNull \<and> w \<noteq> JUndef) ws \<Longrightarrow> \<exists>n. countExternal P d m ws k = Inr n"
  by (induction ws arbitrary: k) (auto split: option.splits)

lemma checkHeaders_total: "(\<And>h. \<exists>x. hs h = Inr x) \<Longrightarrow> \<exists>s. checkHeaders hs bs = Inr s"
proof (induction hs bs rule: checkHeaders.induct)
  case (2 headers h c r)
  obtain x where "headers h = Inr x" using "2.prems" by blast
  then show ?case using 2 by (cases x) auto
qed simp

lemma anchor_total:
  assumes "\<And>hs h. va_blockHeaders options = Some hs \<Longrightarrow> \<exists>x. hs h = Inr x"
  shows "\<exists>s. verifyAnchorDomain P r options = Some (Inr s)"
proof -
  have v: "\<exists>c. verifyAnchor digest t (va_blockHeaders options) = Inr c" for digest t
  proof (cases "va_blockHeaders options")
    case (Some hs)
    obtain st where "checkHeaders hs (bitcoinOf t) = Inr st" using checkHeaders_total [of hs "bitcoinOf t"] assms [OF Some] by blast
    then show ?thesis using Some by (simp add: verifyAnchor_def Let_def)
  qed (simp add: verifyAnchor_def Let_def)
  obtain x where x: "runbind (Some (fromBase64 (strv (mem (mem r ''anchor'') ''proof'')))) (parseProof P) = Some x"
    using parseProof_total by (cases "fromBase64 (strv (mem (mem r ''anchor'') ''proof''))") auto
  show ?thesis
  proof (cases "\<exists>d t dg. x = Inr (d, t) \<and> multihashDigest (strv (mem (mem r ''anchor'') ''target'')) = Inr dg")
    case True
    then obtain d t dg where x': "x = Inr (d, t)" "multihashDigest (strv (mem (mem r ''anchor'') ''target'')) = Inr dg" by blast
    obtain c where "verifyAnchor dg t (va_blockHeaders options) = Inr c" using v by blast
    then show ?thesis using x x'
      by (cases "mem (mem r ''anchor'') ''target'' = mem (mem r ''sth'') ''root_hash''") (auto simp: verifyAnchorDomain_def Let_def)
  next
    case False
    then show ?thesis using x by (auto simp: verifyAnchorDomain_def Let_def split: sum.splits)
  qed
qed

text \<open>
  Verification is total: whatever the value handed in, \<^verbatim>\<open>verifyReceiptV2\<close> returns a verdict, provided the caller's verifier and
  header source do not throw and no element of the witness list is null or undefined.
\<close>

theorem verify_returns_verdict:
  assumes "\<And>verify q. va_quoteVerifier options = Some verify \<Longrightarrow> \<exists>x. verify q = Inr x"
    and "\<And>hs h. va_blockHeaders options = Some hs \<Longrightarrow> \<exists>x. hs h = Inr x"
    and "list_all (\<lambda>w. w \<noteq> JNull \<and> w \<noteq> JUndef) (arrv (mem (mem r ''sth'') ''witnesses''))"
  shows "\<exists>v. verifyReceiptV2 P r options = Some (Inr v)"
proof (cases "hasShape RECEIPT_V2 r")
  case False
  then show ?thesis by (simp add: verifyReceiptV2_def validateReceiptV2Shape_def shapeErrors_iff)
next
  case True
  obtain b d where b: "mem r ''binding_hash'' = JStr b" "multihashDigest b = Inr d" using digest_shape [OF receipt_parts(1) [OF True]] by blast
  have "\<exists>s. signatureDomain P r e = Inr s" for e
    using b by (auto simp: signatureDomain_def recordSigningMessageV2_def strv_def split: option.splits)
  moreover have "\<exists>s. verifyWitnessesDomain P r t = Inr s" for t
  proof -
    obtain n where "countExternal P (mem r ''key_directory'') (sthSigningMessage P (sthOf (mem r ''sth''))) (arrv (mem (mem r ''sth'') ''witnesses'')) 0 = Inr n"
      using countExternal_total [OF assms(3)] by blast
    then show ?thesis by (simp add: verifyWitnessesDomain_def Let_def)
  qed
  moreover have "\<exists>s. verifyAttestationDomain P r options = Inr s"
  proof (cases "va_quoteVerifier options")
    case None
    then show ?thesis by (auto simp: verifyAttestationDomain_def simulatedQuoteVerifier_def Let_def split: option.splits)
  next
    case (Some verify)
    obtain x where "verify (mem (mem r ''attestation'') ''quote'') = Inr x" using assms(1) [OF Some] by blast
    then show ?thesis using Some by (auto simp: verifyAttestationDomain_def Let_def split: option.splits)
  qed
  moreover have "\<exists>s. verifyAnchorDomain P r options = Some (Inr s)" by (rule anchor_total) (rule assms(2))
  moreover define e where "e = lookupKey (mem r ''key_directory'') (strv (mem (mem (mem r ''record'') ''signature'') ''key_id''))"
  ultimately obtain s1 s2 s3 s4 where "signatureDomain P r e = Inr s1" "verifyWitnessesDomain P r (va_witnessThreshold options) = Inr s2"
    "verifyAttestationDomain P r options = Inr s3" "verifyAnchorDomain P r options = Some (Inr s4)" by meson
  then show ?thesis
    using True by (simp add: verifyReceiptV2_def validateReceiptV2Shape_def shapeErrors_iff Let_def flip: e_def)
qed

section \<open>A receipt with a quote that is not its own\<close>

lemma base64_text: "isBase64Text False (toBase64 b)"
proof -
  let ?e = "map b64Char (enc6 (map of_char (binaryOf b)))" and ?k = "(3 - length (binaryOf b) mod 3) mod 3"
  have "list_all (\<lambda>n. n < 64) (enc6 (map of_char (binaryOf b)))" by (rule enc6_less) (auto simp: list_all_iff)
  then have e: "\<forall>c\<in>set ?e. isB64Char c" by (auto simp: list_all_iff isB64Char_def b64Char_mem)
  have pad: "\<not> isB64Char (CHR ''='')" using b64Alphabet_chars by (auto simp: isB64Char_def)
  have drop: "(\<forall>c\<in>set as. p c) \<Longrightarrow> \<not> p x \<Longrightarrow> dropWhile p (as @ replicate k x) = replicate k x" for p as k and x :: char
    by (induction as) (auto simp: dropWhile_eq_self_iff)
  have "dropWhile isB64Char (?e @ replicate ?k (CHR ''='')) = replicate ?k (CHR ''='')" by (rule drop [OF e pad])
  then show ?thesis by (simp add: isBase64Text_def toBase64_def btoa_def list_all_iff del: map_map)
qed

lemma matches_toBase64Field [simp]: "matches B64_FIELD (toBase64Field b)" "toBase64Field b \<noteq> []"
  using base64_text [of b] by (simp_all add: toBase64Field_def B64_FIELD_PREFIX_def)

lemma shape_sigVal: "keyId key \<noteq> [] \<Longrightarrow> hasShape SIGNATURE (sigVal (hybridSign P m key))"
  by (simp add: SIGNATURE_def hasShape_fields sigVal_def entriesOf_def readMember_def hasShape.simps(4,5) SIGNATURE_ALG_def hybridSign_def del: matches.simps)

lemma sigOf_sigVal [simp]: "sigOf (sigVal s) = s"
  by (simp add: sigOf_def sigVal_def readMember_def strv_def)

lemma core_signedRecord:
  "entriesOf core = Some es \<Longrightarrow> ''signature'' \<notin> fst ` set es \<Longrightarrow> coreOfV2 (signedRecordV2 core s) = JObj es"
proof -
  assume es: "entriesOf core = Some es" "''signature'' \<notin> fst ` set es"
  have "mput ''signature'' v m = m @ [(''signature'', v)]" if "''signature'' \<notin> fst ` set m" for v and m :: "(string \<times> jsval) list"
    using that by (induction m) auto
  moreover have "filter (\<lambda>(k, _). k \<noteq> ''signature'') es = es" using es(2) by (auto simp: filter_id_conv image_iff)
  ultimately show ?thesis using es by (simp add: coreOfV2_def signedRecordV2_def entriesOf_def)
qed


definition keyVal :: "DirectoryEntry \<Rightarrow> jsval" where
  "keyVal e = JObj [(''ml_dsa_pub'', JStr (ml_dsa_pub e)), (''ed25519_pub'', JStr (ed25519_pub e))]"

lemma entryOf_keyVal [simp]: "entryOf (keyVal e) = e"
  by (simp add: entryOf_def keyVal_def readMember_def strv_def)

lemma shape_keyVal: "generated P key \<Longrightarrow> hasShape (SFields [(''ml_dsa_pub'', SB64), (''ed25519_pub'', SB64)]) (keyVal (directoryEntry key))"
proof -
  assume "generated P key"
  then obtain a b where "directoryEntry key = \<lparr>ml_dsa_pub = toBase64Field a, ed25519_pub = toBase64Field b\<rparr>"
    by (cases key) (auto simp: generated_def generateKeypair_def rbind_Inr_iff Let_def case_prod_beta)
  then show ?thesis by (simp add: hasShape_fields keyVal_def entriesOf_def readMember_def hasShape.simps(4) del: matches.simps)
qed

definition toyRegister :: jsval where
  "toyRegister = JStr (''hex:'' @ replicate 64 (CHR ''0''))"

definition toyHardwareQuote :: jsval where
  "toyHardwareQuote = JObj [(''format'', JStr ''dstack.tdx.v4''), (''root'', JStr ''intel-dcap''),
     (''body'', JObj [(''vendor'', JStr ''intel-tdx''),
        (''measurement'', JObj [(''mrtd'', toyRegister), (''rtmr0'', toyRegister), (''rtmr1'', toyRegister), (''rtmr2'', toyRegister), (''rtmr3'', toyRegister)]),
        (''report_data'', JStr (MULTIHASH_PREFIX @ replicate 64 (CHR ''1''))), (''tcb_status'', JStr ''UpToDate''), (''app_id'', JStr ''other''),
        (''instance_id'', JStr ''other''), (''issued_at'', JStr ''0'')]),
     (''signature'', JNull), (''raw'', JStr ''base64:AAAA'')]"

definition toyRecordEntries :: "(string \<times> jsval) list" where
  "toyRecordEntries = [(''schema'', JStr ''cool.change.v2''), (''record_id'', JStr (replicate 26 (CHR ''0''))),
     (''time'', JObj [(''issued_at'', JStr ''0''), (''seq'', jInt 0)]),
     (''change'', JObj [(''kind'', JStr ''prompt''), (''ref'', JStr ''r''), (''environment'', JStr ''prod''), (''before_hash'', JNull), (''before_salt'', JNull),
        (''after_hash'', JStr (MULTIHASH_PREFIX @ replicate 64 (CHR ''1''))), (''after_salt'', JStr ''hex:00''),
        (''diff_hash'', JStr (MULTIHASH_PREFIX @ replicate 64 (CHR ''1''))), (''actor'', JObj [(''id'', JStr ''a''), (''method'', JStr ''m'')])]),
     (''runtime'', JObj [(''tee_vendor'', JStr ''none''), (''mode'', JStr ''mock''), (''enclave_measurement'', JNull), (''tee_quote'', JNull), (''gpu'', JNull)])]"

definition toyStapled :: jsval where
  "toyStapled = (let core = JObj toyRecordEntries; binding = bindingHashV2 toyEnv core;
       sig = (case recordSigningMessageV2 toyEnv core binding of Inr m \<Rightarrow> hybridSign toyEnv m (toyKey ''k''))
     in JObj [(''schema'', JStr ''cool.receipt.v2''), (''record'', signedRecordV2 core sig), (''binding_hash'', JStr binding), (''inclusion'', JNull),
        (''sth'', JNull),
        (''attestation'', JObj [(''mode'', JStr ''mock''), (''note'', JStr ''n''), (''quote'', toyHardwareQuote), (''expected_measurement'', JNull), (''key_binding'', JNull)]),
        (''anchor'', JNull), (''key_directory'', JObj [(''k'', keyVal (directoryEntry (toyKey ''k'')))])])"

definition toyHardwareOptions :: VerifyArgsV2 where
  "toyHardwareOptions = \<lparr>va_witnessThreshold = 0, va_expectedMeasurement = None, va_requireHardware = True,
     va_quoteVerifier = Some (\<lambda>q. Inr \<lparr>qv_ok = True, qv_root = ''intel-dcap'', qv_tcb = ''UpToDate''\<rparr>), va_blockHeaders = None\<rparr>"

lemma mhSha256_shape: "digests32 P \<Longrightarrow> hasShape SDigest (JStr (mhSha256 (sha256 P) x))"
  using toHex_lower [of "sha256 P x"] by (simp add: hasShape.simps(4) isMultihash_def mhSha256_def MULTIHASH_PREFIX_def digests32_def)

lemma obj_simps: "hasShape (SFields []) (JObj es)"
  "hasShape (SFields ((f, s) # fs)) (JObj es) \<longleftrightarrow> hasShape s (readMember es f) \<and> hasShape (SFields fs) (JObj es)"
  by (simp_all add: hasShape_fields entriesOf_def)

lemma readMember_Cons: "readMember ((k, v) # es) f = (if k = f then v else readMember es f)"
  by (simp add: readMember_def)

lemma toyStapled_parts:
  "hasShape MEASUREMENT (JObj [(''mrtd'', toyRegister), (''rtmr0'', toyRegister), (''rtmr1'', toyRegister), (''rtmr2'', toyRegister), (''rtmr3'', toyRegister)])"
  "hasShape SDigest (JStr (MULTIHASH_PREFIX @ replicate 64 (CHR ''1'')))"
  "hasShape (SStr (Some ULID)) (JStr (replicate 26 (CHR ''0'')))"
  "hasShape SHex (JStr ''hex:00'')" "hasShape SB64 (JStr ''base64:AAAA'')" "hasShape (SInt 0) (jInt 0)"
proof -
  have r: "hasShape SHex toyRegister" by (simp add: toyRegister_def hasShape.simps(4) isLowerHex_def list_all_iff)
  show "hasShape MEASUREMENT (JObj [(''mrtd'', toyRegister), (''rtmr0'', toyRegister), (''rtmr1'', toyRegister), (''rtmr2'', toyRegister), (''rtmr3'', toyRegister)])"
    by (simp add: MEASUREMENT_def obj_simps readMember_Cons r)
  show "hasShape SDigest (JStr (MULTIHASH_PREFIX @ replicate 64 (CHR ''1'')))"
    by (simp add: hasShape.simps(4) isMultihash_def MULTIHASH_PREFIX_def isLowerHex_def list_all_iff)
  show "hasShape (SStr (Some ULID)) (JStr (replicate 26 (CHR ''0'')))"
    by (simp add: hasShape.simps(4) isUlidChar_def list_all_iff)
  show "hasShape SHex (JStr ''hex:00'')" "hasShape SB64 (JStr ''base64:AAAA'')"
    by (simp_all add: hasShape.simps(4) isLowerHex_def isBase64Text_def isB64Char_def b64Alphabet_def)
  show "hasShape (SInt 0) (jInt 0)" by (auto simp: hasShape.simps(6))
qed

lemma text_shapes: "hasShape SText (JStr (c # s))" "hasShape (SOneOf ss) (JStr t) \<longleftrightarrow> t \<in> set ss"
  by (simp_all add: hasShape.simps(4,5))

lemma toyQuote_shape: "hasShape QUOTE toyHardwareQuote"
  by (simp add: QUOTE_def toyHardwareQuote_def obj_simps readMember_Cons toyStapled_parts text_shapes TEE_VENDORS_def)

lemma toyRecord_shape: "hasShape RECORD (signedRecordV2 (JObj toyRecordEntries) (hybridSign P m (toyKey ''k'')))"
proof -
  have k: "keyId (toyKey ''k'') \<noteq> []" by (simp add: toyKey_def generateKeypair_def Let_def toyEnv_def)
  have "signedRecordV2 (JObj toyRecordEntries) s = JObj (toyRecordEntries @ [(''signature'', sigVal s)])" for s
    by (simp add: signedRecordV2_def entriesOf_def toyRecordEntries_def)
  then show ?thesis
    by (simp add: RECORD_def toyRecordEntries_def obj_simps readMember_Cons toyStapled_parts text_shapes RUNTIME_def CHANGE_def
      CHANGE_KINDS_def TEE_VENDORS_def MODES_def shape_sigVal [OF k])
qed

lemma toyStapled_message: "\<exists>m. recordSigningMessageV2 toyEnv (JObj toyRecordEntries) (bindingHashV2 toyEnv (JObj toyRecordEntries)) = Inr m"
  by (simp add: recordSigningMessageV2_def bindingHashV2_def)

lemma toyStapled_shape: "hasShape RECEIPT_V2 toyStapled"
proof -
  obtain m where m: "recordSigningMessageV2 toyEnv (JObj toyRecordEntries) (bindingHashV2 toyEnv (JObj toyRecordEntries)) = Inr m" using toyStapled_message by blast
  have d: "hasShape (SDirectory (SFields [(''ml_dsa_pub'', SB64), (''ed25519_pub'', SB64)])) (JObj [(''k'', keyVal (directoryEntry (toyKey ''k'')))])"
    using shape_keyVal [OF generated_toyKey] by (simp add: entriesOf_def)
  show ?thesis
    using mhSha256_shape [OF digests32_toyEnv, of "canonicalCbor toyEnv (JObj toyRecordEntries)"]
    by (simp add: RECEIPT_V2_def toyStapled_def Let_def m [unfolded bindingHashV2_def toyEnv_simps] obj_simps readMember_Cons toyRecord_shape toyQuote_shape text_shapes MODES_def
      bindingHashV2_def d del: hasShape.simps(9))
qed


lemma toyStapled_fields:
  "mem toyStapled ''record'' = signedRecordV2 (JObj toyRecordEntries)
     (case recordSigningMessageV2 toyEnv (JObj toyRecordEntries) (bindingHashV2 toyEnv (JObj toyRecordEntries)) of Inr m \<Rightarrow> hybridSign toyEnv m (toyKey ''k''))"
  "mem toyStapled ''binding_hash'' = JStr (bindingHashV2 toyEnv (JObj toyRecordEntries))" "mem toyStapled ''inclusion'' = JNull" "mem toyStapled ''sth'' = JNull"
  "mem toyStapled ''anchor'' = JNull" "mem toyStapled ''key_directory'' = JObj [(''k'', keyVal (directoryEntry (toyKey ''k'')))]"
  "mem (mem toyStapled ''attestation'') ''quote'' = toyHardwareQuote"
  by (simp_all add: toyStapled_def Let_def readMember_Cons)

lemma toyStapled_signature: "\<exists>sig. mem (mem toyStapled ''record'') ''signature'' = sigVal sig \<and> sig_key_id sig = ''k''
   \<and> (\<exists>m. recordSigningMessageV2 toyEnv (coreOfV2 (mem toyStapled ''record'')) (bindingHashV2 toyEnv (JObj toyRecordEntries)) = Inr m
        \<and> hv_ok (hybridVerify toyEnv m sig (directoryEntry (toyKey ''k''))))
   \<and> coreOfV2 (mem toyStapled ''record'') = JObj toyRecordEntries \<and> mem (mem toyStapled ''record'') ''runtime'' = readMember toyRecordEntries ''runtime''"
proof -
  obtain m where m: "recordSigningMessageV2 toyEnv (JObj toyRecordEntries) (bindingHashV2 toyEnv (JObj toyRecordEntries)) = Inr m" using toyStapled_message by blast
  let ?sig = "hybridSign toyEnv m (toyKey ''k'')"
  have rec: "mem toyStapled ''record'' = signedRecordV2 (JObj toyRecordEntries) ?sig" by (simp add: toyStapled_fields m)
  have "coreOfV2 (signedRecordV2 (JObj toyRecordEntries) ?sig) = JObj toyRecordEntries"
    by (rule core_signedRecord) (simp_all add: entriesOf_def toyRecordEntries_def)
  moreover have "mem (signedRecordV2 (JObj toyRecordEntries) ?sig) ''signature'' = sigVal ?sig" "mem (signedRecordV2 (JObj toyRecordEntries) ?sig) ''runtime'' = readMember toyRecordEntries ''runtime''"
    by (simp_all add: signedRecordV2_def entriesOf_def toyRecordEntries_def readMember_Cons)
  moreover have "keyId (toyKey ''k'') = ''k''" by (simp add: toyKey_def generateKeypair_def Let_def toyEnv_def)
  ultimately show ?thesis using m hybridVerify_hybridSign [OF signs_toyEnv generated_toyKey, of m "''k''"] by (auto simp: rec)
qed

lemma strv_JStr: "strv (JStr s) = s"
  by (simp add: strv_def)

lemma toyStapled_verdict:
  "\<exists>v. verifyReceiptV2 toyEnv toyStapled toyHardwareOptions = Some (Inr v) \<and> verdict_ok v \<and> d_enclave (verdict_checks v) = DAbsent"
proof -
  obtain sig m where s: "mem (mem toyStapled ''record'') ''signature'' = sigVal sig" "sig_key_id sig = ''k''"
      "recordSigningMessageV2 toyEnv (coreOfV2 (mem toyStapled ''record'')) (bindingHashV2 toyEnv (JObj toyRecordEntries)) = Inr m"
      "hv_ok (hybridVerify toyEnv m sig (directoryEntry (toyKey ''k'')))"
      "coreOfV2 (mem toyStapled ''record'') = JObj toyRecordEntries" "mem (mem toyStapled ''record'') ''runtime'' = readMember toyRecordEntries ''runtime''"
    using toyStapled_signature by blast
  have key: "strv (mem (sigVal sig) ''key_id'') = ''k''" using s(2) by (simp add: sigVal_def readMember_Cons strv_def)
  have look: "lookupKey (mem toyStapled ''key_directory'') ''k'' = Some (keyVal (directoryEntry (toyKey ''k'')))"
    by (simp add: toyStapled_fields lookupKey_def readMember_Cons keyVal_def)
  have "signatureDomain toyEnv toyStapled (Some (keyVal (directoryEntry (toyKey ''k'')))) = Inr DPass"
    using s by (simp add: signatureDomain_def toyStapled_fields(2) strv_def)
  moreover have "verifyInclusionDomain toyEnv toyStapled = DAbsent" by (simp add: verifyInclusionDomain_def toyStapled_fields Let_def)
  moreover have "verifyWitnessesDomain toyEnv toyStapled 0 = Inr DAbsent" by (simp add: verifyWitnessesDomain_def toyStapled_fields Let_def)
  moreover have "verifyAnchorDomain toyEnv toyStapled toyHardwareOptions = Some (Inr DAbsent)" by (simp add: verifyAnchorDomain_def toyStapled_fields Let_def)
  moreover have "verifyEnclaveDomain toyEnv toyStapled e toyHardwareOptions DPass = DAbsent" for e
    by (simp add: verifyEnclaveDomain_def s(6) toyRecordEntries_def readMember_Cons Let_def)
  moreover have "verifyAttestationDomain toyEnv toyStapled toyHardwareOptions = Inr DPass"
  proof -
    have reg: "isHex32 (asText toyEnv toyRegister)" by (simp add: isHex32_def asText_def toyRegister_def isLowerHex_def list_all_iff)
    have "isMultihash (MULTIHASH_PREFIX @ replicate 64 (CHR ''1''))"
      by (simp add: isMultihash_def MULTIHASH_PREFIX_def isLowerHex_def list_all_iff)
    then have "checkQuoteStructure toyEnv toyHardwareQuote = None"
      by (simp add: checkQuoteStructure_def toyHardwareQuote_def readMember_Cons entriesOf_def reg Let_def) (simp add: asText_def)
    moreover have "jtruthy toyHardwareQuote" "mem toyHardwareQuote ''root'' = JStr ''intel-dcap''" by (simp_all add: toyHardwareQuote_def readMember_Cons)
    ultimately show ?thesis by (simp add: verifyAttestationDomain_def toyStapled_fields toyHardwareOptions_def Let_def)
  qed
  ultimately show ?thesis
    using toyStapled_shape s(5)
    by (simp add: verifyReceiptV2_def validateReceiptV2Shape_def shapeErrors_iff Let_def s(1) key look toyStapled_fields(2) strv_JStr)
       (simp add: toyHardwareOptions_def)
qed

text \<open>
  \<^verbatim>\<open>requireHardware\<close> does not tie the quote to the record: there is a receipt whose record was signed outside any enclave (its
  \<^verbatim>\<open>tee_quote\<close> is null, so the enclave domain is absent), with a vendor quote for another key attached after signing, which is accepted
  under \<^verbatim>\<open>requireHardware\<close>.
\<close>

theorem stapled_quote_accepted:
  "\<exists>r v. verifyReceiptV2 toyEnv r toyHardwareOptions = Some (Inr v) \<and> va_requireHardware toyHardwareOptions \<and> verdict_ok v
     \<and> d_enclave (verdict_checks v) = DAbsent \<and> mem (mem (mem r ''record'') ''runtime'') ''tee_quote'' = JNull"
proof -
  have "mem (mem (mem toyStapled ''record'') ''runtime'') ''tee_quote'' = JNull"
    using toyStapled_signature by (auto simp: toyRecordEntries_def readMember_Cons)
  then show ?thesis using toyStapled_verdict by (auto simp: toyHardwareOptions_def)
qed

section \<open>Witnesses\<close>

theorem accepted_receipt_sound_witness:
  "\<exists>v. verifyReceiptV2 toyEnv toyStapled toyHardwareOptions = Some (Inr v)
     \<and> mem toyStapled ''binding_hash'' = JStr (bindingHashV2 toyEnv (coreOfV2 (mem toyStapled ''record'')))"
proof -
  obtain v where v: "verifyReceiptV2 toyEnv toyStapled toyHardwareOptions = Some (Inr v)" "verdict_ok v" using toyStapled_verdict by blast
  show ?thesis using accepted_receipt_sound [OF v] v(1) by blast
qed

theorem hardware_needs_verifier_witness:
  "\<exists>v. verifyReceiptV2 toyEnv toyStapled toyHardwareOptions = Some (Inr v) \<and> d_attestation (verdict_checks v) = DPass
     \<and> quoteStructured toyEnv toyHardwareQuote \<and> hasShape SB64 (mem toyHardwareQuote ''raw'')"
proof -
  obtain v where v: "verifyReceiptV2 toyEnv toyStapled toyHardwareOptions = Some (Inr v)" "verdict_ok v" using toyStapled_verdict by blast
  have "va_requireHardware toyHardwareOptions" by (simp add: toyHardwareOptions_def)
  from hardware_needs_verifier [OF v this] v(1) show ?thesis by (auto simp: toyStapled_fields)
qed

definition toyBound :: jsval where
  "toyBound = (let body = JObj [(''measurement'', JObj [(''mrtd'', toyRegister)]),
         (''report_data'', JStr (enclaveReportData toyEnv (keyVal (directoryEntry (toyKey ''k'')))))];
       quote = JObj [(''body'', body)]
     in JObj [(''record'', JObj [(''runtime'', JObj [(''tee_quote'', JStr (quoteDigest toyEnv quote)), (''enclave_measurement'', JObj [(''mrtd'', toyRegister)])])]),
        (''attestation'', JObj [(''quote'', quote), (''expected_measurement'', JNull)])])"

theorem enclave_binds_quote_witness:
  "mem (mem (mem toyBound ''record'') ''runtime'') ''tee_quote'' = JStr (quoteDigest toyEnv (mem (mem toyBound ''attestation'') ''quote''))"
proof -
  have "verifyEnclaveDomain toyEnv toyBound (Some (keyVal (directoryEntry (toyKey ''k'')))) toyHardwareOptions DPass \<in> {DPass, DSimulated}"
    by (simp add: verifyEnclaveDomain_def toyBound_def toyHardwareOptions_def Let_def readMember_Cons measurementEquals_def quoteDigest_def
      mhSha256_def MULTIHASH_PREFIX_def)
  from enclave_binds_quote [OF this] show ?thesis by blast
qed

theorem verify_returns_verdict_witness: "\<exists>v. verifyReceiptV2 toyEnv toyStapled toyHardwareOptions = Some (Inr v)"
proof (rule verify_returns_verdict)
  show "list_all (\<lambda>w. w \<noteq> JNull \<and> w \<noteq> JUndef) (arrv (mem (mem toyStapled ''sth'') ''witnesses''))"
    by (simp add: toyStapled_fields arrv_def)
qed (auto simp: toyHardwareOptions_def)

text \<open>A null among the witnesses makes the verifier throw.\<close>

lemma null_witness_throws: "countExternal P d m (JNull # ws) n = Inl TypeError"
  by simp

end
