(* ===== verification/Dstack.thy ===== *)
theory Dstack
  imports Receipt
begin

text \<open>
  \<^verbatim>\<open>src/src/phala/dstack.ts\<close> and \<^verbatim>\<open>kms.ts\<close>: the two clients of the enclave's guest agent (the HTTP client and the simulator) and the keys
  sealed to a measurement.  A client is a record of its calls.  What the agent answers to a request is an argument; its key and its
  quote are strings, as its interface declares.  The numbers of the event log, which nothing reads, are left out.

  The contract the evidence plane relies on is the locale \<open>dstack_client\<close>: a quote carries the report data that was asked for and the
  measurement and vendor of the info call.  Both clients are interpretations.
\<close>

section \<open>The client interface\<close>

record EnclaveEvent =
  en_event :: jsval
  en_digest :: string

record EnclaveInfo =
  ei_appId :: jsval
  ei_instanceId :: jsval
  ei_appName :: jsval
  ei_vendor :: string
  ei_mode :: string
  ei_measurement :: jsval
  ei_tcbStatus :: string
  ei_eventLog :: "EnclaveEvent list"
  ei_imageDigest :: string
  ei_appUrl :: jsval

record DstackClient =
  dc_mode :: string
  dc_info :: "EnclaveInfo res"
  dc_getQuote :: "Multihash \<Rightarrow> jsval res"
  dc_deriveKey :: "string \<Rightarrow> bytes res"
  dc_directory :: "(string \<times> jsval) list"

definition measurementVal :: "string \<Rightarrow> string \<Rightarrow> string \<Rightarrow> string \<Rightarrow> string \<Rightarrow> jsval" where
  "measurementVal m r0 r1 r2 r3 = JObj [(''mrtd'', JStr m), (''rtmr0'', JStr r0), (''rtmr1'', JStr r1), (''rtmr2'', JStr r2), (''rtmr3'', JStr r3)]"

text \<open>\<^verbatim>\<open>v ?? d\<close>, and reading a property of a value that may be null.\<close>

definition orElse :: "jsval \<Rightarrow> jsval \<Rightarrow> jsval" where
  "orElse v d = (if v = JNull \<or> v = JUndef then d else v)"

definition getProp :: "jsval \<Rightarrow> string \<Rightarrow> jsval res" where
  "getProp v k = (if v = JNull \<or> v = JUndef then Inl TypeError else Inr (mem v k))"

section \<open>The HTTP client\<close>

definition parseTcbInfo :: "env \<Rightarrow> jsval \<Rightarrow> jsval" where
  "parseTcbInfo P raw =
     (if \<not> jtruthy raw then JObj []
      else case raw of
          JStr s \<Rightarrow> (case json_parse P s of Some v \<Rightarrow> v | None \<Rightarrow> JObj [])
        | _ \<Rightarrow> raw)"

definition ZERO_48 :: string where
  "ZERO_48 = ''hex:'' @ replicate 96 (CHR ''0'')"

definition hexField :: "jsval \<Rightarrow> string \<Rightarrow> string res" where
  "hexField value fallback =
     (if \<not> jtruthy value then Inr fallback
      else case value of
          JStr s \<Rightarrow> Inr (''hex:'' @ toLower (if startsWith s ''0x'' then drop 2 s else s))
        | _ \<Rightarrow> Inl TypeError)"

text \<open>\<^verbatim>\<open>rpc\<close>: \<open>agent path body\<close> is the agent's answer, a status and the parsed body, \<open>None\<close> when there is none or it is not JSON.\<close>

type_synonym Agent = "string \<Rightarrow> jsval option \<Rightarrow> (nat \<times> jsval) option"

definition rpc :: "Agent \<Rightarrow> string \<Rightarrow> jsval option \<Rightarrow> jsval res" where
  "rpc agent path body = (case agent path body of
       None \<Rightarrow> Inl (Error ''fetch failed'')
     | Some (status, v) \<Rightarrow> if \<not> okStatus status then Inl (Error ''dstack agent HTTP'') else Inr v)"

record HttpOptions =
  ho_vendor :: string
  ho_infoPath :: string
  ho_quotePath :: string
  ho_keyPath :: string
  ho_keyPurpose :: string

definition defaultHttpOptions :: HttpOptions where
  "defaultHttpOptions = \<lparr>ho_vendor = ''intel-tdx'', ho_infoPath = ''/prpc/Info'', ho_quotePath = ''/prpc/GetQuote'', ho_keyPath = ''/prpc/GetKey'',
     ho_keyPurpose = ''cool-evidence''\<rparr>"

definition eventEntry :: "jsval \<Rightarrow> EnclaveEvent res" where
  "eventEntry e = rbind (getProp e ''event'') (\<lambda>ev. rbind (getProp e ''digest'') (\<lambda>d. rbind (hexField d ZERO_48) (\<lambda>h.
     Inr \<lparr>en_event = orElse ev (JStr ''unknown''), en_digest = h\<rparr>)))"

definition eventLogOf :: "jsval \<Rightarrow> EnclaveEvent list res" where
  "eventLogOf v = (case orElse v (JArr []) of JArr es \<Rightarrow> mapM eventEntry es | _ \<Rightarrow> Inl TypeError)"

definition http_info :: "env \<Rightarrow> HttpOptions \<Rightarrow> Agent \<Rightarrow> EnclaveInfo res" where
  "http_info P opts agent =
     rbind (rpc agent (ho_infoPath opts) None) (\<lambda>raw.
     rbind (getProp raw ''tcb_info'') (\<lambda>info.
     let tcb = parseTcbInfo P info; field = (\<lambda>k. rbind (getProp tcb k) (\<lambda>v. hexField v ZERO_48)) in
     rbind (field ''mrtd'') (\<lambda>m. rbind (field ''rtmr0'') (\<lambda>r0. rbind (field ''rtmr1'') (\<lambda>r1. rbind (field ''rtmr2'') (\<lambda>r2. rbind (field ''rtmr3'') (\<lambda>r3.
     rbind (eventLogOf (mem tcb ''event_log'')) (\<lambda>events.
       Inr \<lparr>ei_appId = orElse (mem raw ''app_id'') (JStr ''unknown''), ei_instanceId = orElse (mem raw ''instance_id'') (JStr ''unknown''),
         ei_appName = orElse (mem raw ''app_name'') (JStr ''cool-evidence-plane''), ei_vendor = ho_vendor opts, ei_mode = ''hardware'',
         ei_measurement = measurementVal m r0 r1 r2 r3, ei_tcbStatus = ''Unknown'', ei_eventLog = events, ei_imageDigest = drop 4 m,
         ei_appUrl = orElse (mem raw ''app_url'') JNull\<rparr>))))))))"

definition quoteVal :: "string \<Rightarrow> string \<Rightarrow> jsval \<Rightarrow> jsval \<Rightarrow> jsval \<Rightarrow> jsval" where
  "quoteVal fmt authority body sig raw =
     JObj [(''format'', JStr fmt), (''root'', JStr authority), (''body'', body), (''signature'', sig), (''raw'', raw)]"

definition quoteBody :: "EnclaveInfo \<Rightarrow> Multihash \<Rightarrow> jsval \<Rightarrow> string \<Rightarrow> jsval" where
  "quoteBody info reportData tcb issuedAt =
     JObj [(''vendor'', JStr (ei_vendor info)), (''measurement'', ei_measurement info), (''report_data'', JStr reportData), (''tcb_status'', tcb),
       (''app_id'', ei_appId info), (''instance_id'', ei_instanceId info), (''issued_at'', JStr issuedAt)]"

text \<open>\<^verbatim>\<open>/^[0-9a-f]+$/i\<close>, and \<^verbatim>\<open>hexToBytes\<close> of such a text (half a pair at the end is dropped).\<close>

definition isHexText :: "string \<Rightarrow> bool" where
  "isHexText s = (s \<noteq> [] \<and> list_all isHexChar s)"

definition http_getQuote :: "env \<Rightarrow> HttpOptions \<Rightarrow> Agent \<Rightarrow> string \<Rightarrow> Multihash \<Rightarrow> jsval res" where
  "http_getQuote P opts agent now reportData =
     rbind (http_info P opts agent) (\<lambda>info.
     rbind (multihashDigest reportData) (\<lambda>d.
     rbind (rpc agent (ho_quotePath opts) (Some (JObj [(''report_data'', JStr (toHex d @ replicate 64 (CHR ''0'')))]))) (\<lambda>raw.
     rbind (getProp raw ''quote'') (\<lambda>q.
     if \<not> jtruthy q then Inl (Error ''dstack agent returned no quote'')
     else case q of
         JStr s \<Rightarrow>
           let quoteBytes = (if startsWith s ''0x'' then drop 2 s else s); snp = (ho_vendor opts = ''amd-sev-snp'')
           in Inr (quoteVal (if snp then ''dstack.sevsnp.v1'' else ''dstack.tdx.v4'') (if snp then ''amd-kds'' else ''intel-dcap'')
                (quoteBody info reportData (orElse (mem raw ''tcb_status'') (JStr ''Unknown'')) now) JNull
                (JStr (if isHexText quoteBytes then toBase64Field (hexPairs quoteBytes) else ''base64:'' @ quoteBytes)))
       | _ \<Rightarrow> Inl TypeError))))"

definition http_deriveKey :: "env \<Rightarrow> HttpOptions \<Rightarrow> Agent \<Rightarrow> string \<Rightarrow> bytes res" where
  "http_deriveKey P opts agent path =
     rbind (rpc agent (ho_keyPath opts) (Some (JObj [(''path'', JStr path), (''purpose'', JStr (ho_keyPurpose opts))]))) (\<lambda>raw.
     rbind (getProp raw ''key'') (\<lambda>k.
     if \<not> jtruthy k then Inl (Error ''dstack KMS returned no key material'')
     else let s = asText P k in
       rbind (if isHexText s then Inr (hexPairs s) else fromBase64 s) (\<lambda>bs. Inr (sha256 P (concatBytes [utf8 ''cool/kms/seed/v2'', bs])))))"

definition httpClient :: "env \<Rightarrow> HttpOptions \<Rightarrow> Agent \<Rightarrow> string \<Rightarrow> DstackClient" where
  "httpClient P opts agent now = \<lparr>dc_mode = ''hardware'', dc_info = http_info P opts agent, dc_getQuote = http_getQuote P opts agent now,
     dc_deriveKey = http_deriveKey P opts agent, dc_directory = []\<rparr>"

section \<open>The simulator\<close>

record SimOptions =
  so_appName :: string
  so_imageDigest :: string
  so_instanceId :: "string option"
  so_vendor :: "string option"
  so_rootSeed :: "string option"
  so_appUrl :: "string option"

record SimClient =
  sc_options :: SimOptions
  sc_rootKey :: KeyPair
  sc_appId :: string
  sc_instanceId :: string

text \<open>The parts of a derived value are separated by a zero byte.\<close>

definition NUL :: string where
  "NUL = [CHR 0x00]"

definition SIM_ROOT_KEY_ID :: string where
  "SIM_ROOT_KEY_ID = ''cool-sim-attestation-root-01''"

definition reg :: "env \<Rightarrow> string list \<Rightarrow> string" where
  "reg P parts = toHexField (sha384 P (utf8 (join NUL parts)))"

definition optOr :: "'a option \<Rightarrow> 'a \<Rightarrow> 'a" where
  "optOr opts d = (case opts of Some x \<Rightarrow> x | None \<Rightarrow> d)"

definition newSimClient :: "env \<Rightarrow> SimOptions \<Rightarrow> SimClient res" where
  "newSimClient P opts =
     (let appId = take 40 (drop 4 (toHexField (sha256 P (utf8 (''dstack/app-id'' @ NUL @ so_appName opts)))));
          instanceId = optOr (so_instanceId opts) (take 32 (drop 4 (toHexField (sha256 P (utf8 (''dstack/instance'' @ NUL @ so_imageDigest opts))))));
          rootSeed = sha256 P (utf8 (''cool/sim-attestation-root'' @ NUL @ optOr (so_rootSeed opts) ''cool''))
      in rbind (generateKeypair P [] SIM_ROOT_KEY_ID (Some rootSeed)) (\<lambda>k.
         Inr \<lparr>sc_options = opts, sc_rootKey = k, sc_appId = appId, sc_instanceId = instanceId\<rparr>))"

definition sim_measurement :: "env \<Rightarrow> SimClient \<Rightarrow> jsval" where
  "sim_measurement P c = (let opts = sc_options c in measurementVal
     (reg P [''dstack/mrtd'', so_imageDigest opts])
     (reg P [''dstack/rtmr0'', ''tdx-virtual-firmware'', so_appName opts])
     (reg P [''dstack/rtmr1'', ''dstack-os-0.5.3''])
     (reg P [''dstack/rtmr2'', ''console=ttyS0 dstack.rootfs_hash=verity''])
     (reg P [''dstack/rtmr3'', sc_appId c, so_imageDigest opts, sc_instanceId c, ''kms-onchain'']))"

definition sim_info :: "env \<Rightarrow> SimClient \<Rightarrow> EnclaveInfo" where
  "sim_info P c = (let opts = sc_options c in
     \<lparr>ei_appId = JStr (sc_appId c), ei_instanceId = JStr (sc_instanceId c), ei_appName = JStr (so_appName opts),
      ei_vendor = optOr (so_vendor opts) ''intel-tdx'', ei_mode = ''simulated'', ei_measurement = sim_measurement P c,
      ei_tcbStatus = ''UpToDate (simulated)'',
      ei_eventLog = [\<lparr>en_event = JStr ''app-id'', en_digest = reg P [''event/app-id'', sc_appId c]\<rparr>,
        \<lparr>en_event = JStr ''compose-hash'', en_digest = reg P [''event/compose'', so_imageDigest opts]\<rparr>,
        \<lparr>en_event = JStr ''instance-id'', en_digest = reg P [''event/instance'', sc_instanceId c]\<rparr>,
        \<lparr>en_event = JStr ''key-provider'', en_digest = reg P [''event/kms'', ''kms-onchain'']\<rparr>],
      ei_imageDigest = so_imageDigest opts, ei_appUrl = (case so_appUrl opts of Some u \<Rightarrow> JStr u | None \<Rightarrow> JNull)\<rparr>)"

definition sim_getQuote :: "env \<Rightarrow> SimClient \<Rightarrow> string \<Rightarrow> Multihash \<Rightarrow> jsval" where
  "sim_getQuote P c now reportData =
     (let info = sim_info P c; body = quoteBody info reportData (JStr (ei_tcbStatus info)) now
      in quoteVal ''cool.sim.v1'' ''cool-sim-root'' body (sigVal (signSimulatedQuote P body (sc_rootKey c))) JNull)"

definition sim_deriveKey :: "env \<Rightarrow> SimClient \<Rightarrow> string \<Rightarrow> bytes" where
  "sim_deriveKey P c path = (let m = sim_measurement P c in
     sha256 P (utf8 (join NUL [''cool/kms/seed/v2'', optOr (so_rootSeed (sc_options c)) ''cool'', strv (mem m ''mrtd''), strv (mem m ''rtmr3''),
       sc_appId c, path])))"

definition simClient :: "env \<Rightarrow> SimClient \<Rightarrow> string \<Rightarrow> DstackClient" where
  "simClient P c now = \<lparr>dc_mode = ''simulated'', dc_info = Inr (sim_info P c), dc_getQuote = (\<lambda>rd. Inr (sim_getQuote P c now rd)),
     dc_deriveKey = (\<lambda>path. Inr (sim_deriveKey P c path)),
     dc_directory = [(keyId (sc_rootKey c), keyVal (directoryEntry (sc_rootKey c)))]\<rparr>"

section \<open>kms.ts\<close>

definition KEY_PATH_record :: string where "KEY_PATH_record = ''cool/evidence/record/v2''"
definition KEY_PATH_log :: string where "KEY_PATH_log = ''cool/evidence/log/v2''"

definition sealedKeypair :: "env \<Rightarrow> DstackClient \<Rightarrow> string \<Rightarrow> string option \<Rightarrow> string \<Rightarrow> KeyPair res" where
  "sealedKeypair P client path key_id role =
     rbind (dc_deriveKey client path) (\<lambda>seed.
     if length seed \<noteq> 32 then Inl (Error ''key provider returned a seed of another length'')
     else rbind (case key_id of
            Some k \<Rightarrow> if k \<noteq> [] then Inr k else rbind (dc_info client) (\<lambda>info. Inr (''cool-'' @ role @ ''-'' @ shortMeasurement (ei_measurement info) 10))
          | None \<Rightarrow> rbind (dc_info client) (\<lambda>info. Inr (''cool-'' @ role @ ''-'' @ shortMeasurement (ei_measurement info) 10)))
       (\<lambda>k. generateKeypair P [] k (Some seed)))"

record SealedKeyset =
  ks_record :: KeyPair
  ks_log :: KeyPair

definition sealedKeyset :: "env \<Rightarrow> DstackClient \<Rightarrow> SealedKeyset res" where
  "sealedKeyset P client =
     rbind (sealedKeypair P client KEY_PATH_record None ''enclave'') (\<lambda>r.
     rbind (sealedKeypair P client KEY_PATH_log None ''log'') (\<lambda>l. Inr \<lparr>ks_record = r, ks_log = l\<rparr>))"

section \<open>The contract\<close>

locale dstack_client =
  fixes client :: DstackClient
  assumes quote_report_data: "dc_getQuote client rd = Inr q \<Longrightarrow> mem (mem q ''body'') ''report_data'' = JStr rd"
    and quote_measurement: "dc_getQuote client rd = Inr q \<Longrightarrow> dc_info client = Inr i \<Longrightarrow> mem (mem q ''body'') ''measurement'' = ei_measurement i"
    and quote_object: "dc_getQuote client rd = Inr q \<Longrightarrow> jtruthy q"
    and info_measurement: "dc_info client = Inr i \<Longrightarrow> jtruthy (ei_measurement i)"

lemma quoteVal_fields [simp]:
  "mem (quoteVal f r b s w) ''body'' = b" "mem (quoteVal f r b s w) ''root'' = JStr r" "mem (quoteVal f r b s w) ''signature'' = s"
  "mem (quoteVal f r b s w) ''raw'' = w" "jtruthy (quoteVal f r b s w)"
  by (simp_all add: quoteVal_def readMember_Cons)

lemma quoteBody_fields [simp]:
  "mem (quoteBody i rd t n) ''report_data'' = JStr rd" "mem (quoteBody i rd t n) ''measurement'' = ei_measurement i"
  by (simp_all add: quoteBody_def readMember_Cons)

lemma measurementVal_truthy [simp]: "jtruthy (measurementVal a b c d e)"
  by (simp add: measurementVal_def)

lemma http_getQuote_ok:
  assumes "http_getQuote P opts agent now rd = Inr q"
  obtains info f r t w where "http_info P opts agent = Inr info" "q = quoteVal f r (quoteBody info rd t now) JNull w"
  using assms by (auto simp: http_getQuote_def rbind_Inr_iff Let_def split: if_splits jsval.splits)

interpretation http: dstack_client "httpClient P opts agent now" for P opts agent now
proof
  fix rd q i
  assume q: "dc_getQuote (httpClient P opts agent now) rd = Inr q"
  then obtain info f r t w where i: "http_info P opts agent = Inr info" "q = quoteVal f r (quoteBody info rd t now) JNull w"
    by (auto simp: httpClient_def elim: http_getQuote_ok)
  then show "mem (mem q ''body'') ''report_data'' = JStr rd" "jtruthy q" by simp_all
  show "mem (mem q ''body'') ''measurement'' = ei_measurement i" if "dc_info (httpClient P opts agent now) = Inr i"
    using that i by (simp add: httpClient_def)
next
  fix i assume "dc_info (httpClient P opts agent now) = Inr i"
  then show "jtruthy (ei_measurement i)" by (auto simp: httpClient_def http_info_def rbind_Inr_iff Let_def)
qed

interpretation sim: dstack_client "simClient P c now" for P c now
  by unfold_locales (auto simp: simClient_def sim_getQuote_def Let_def sim_info_def sim_measurement_def)


section \<open>Keys sealed to the image\<close>

lemma split_NUL:
  assumes "CHR 0x00 \<notin> set a" "CHR 0x00 \<notin> set b" "a @ NUL @ x = b @ NUL @ y"
  shows "a = b \<and> x = y"
  using assms by (induction a arbitrary: b) (auto simp: NUL_def Cons_eq_append_conv append_eq_Cons_conv)

lemma join_NUL_inj:
  assumes "list_all (\<lambda>s. CHR 0x00 \<notin> set s) xs" "list_all (\<lambda>s. CHR 0x00 \<notin> set s) ys" "length xs = length ys" "join NUL xs = join NUL ys"
  shows "xs = ys"
  using assms
proof (induction xs arbitrary: ys rule: induct_list012)
  case (2 x)
  then show ?case by (auto simp: Suc_length_conv)
next
  case (3 x x' xs)
  have "\<exists>y y' zs. ys = y # y' # zs" using "3.prems"(3) by (cases ys; cases "tl ys") auto
  then obtain y y' zs where ys: "ys = y # y' # zs" by blast
  have "x = y \<and> join NUL (x' # xs) = join NUL (y' # zs)"
    using "3.prems" ys by (intro split_NUL) auto
  then show ?case using "3.IH"(2) [of "y' # zs"] "3.prems" ys by auto
qed simp

definition seedInput :: "env \<Rightarrow> SimClient \<Rightarrow> string \<Rightarrow> bytes" where
  "seedInput P c path = utf8 (join NUL [''cool/kms/seed/v2'', optOr (so_rootSeed (sc_options c)) ''cool'',
     strv (mem (sim_measurement P c) ''mrtd''), strv (mem (sim_measurement P c) ''rtmr3''), sc_appId c, path])"

definition imageInput :: "SimClient \<Rightarrow> bytes" where
  "imageInput c = utf8 (join NUL [''dstack/mrtd'', so_imageDigest (sc_options c)])"

lemma hex_no_NUL: "list_all isLowerHex s \<Longrightarrow> CHR 0x00 \<notin> set s"
proof -
  have "\<not> isLowerHex (CHR 0x00)" by (simp add: isLowerHex_def)
  then show "list_all isLowerHex s \<Longrightarrow> CHR 0x00 \<notin> set s" by (auto simp: list_all_iff)
qed

lemma sim_registers:
  "strv (mem (sim_measurement P c) ''mrtd'') = toHexField (sha384 P (imageInput c))"
  "\<exists>h. strv (mem (sim_measurement P c) ''rtmr3'') = toHexField h"
  by (auto simp: sim_measurement_def Let_def measurementVal_def readMember_Cons strv_def reg_def imageInput_def)

lemma toHexField_no_NUL: "CHR 0x00 \<notin> set (toHexField b)"
  using hex_no_NUL [OF toHex_lower [of b]] by (auto simp: toHexField_def HEX_FIELD_PREFIX_def)

lemma toHexField_inj: "toHexField a = toHexField b \<Longrightarrow> a = b"
  using toHex_inj by (auto simp: toHexField_def)

lemma appId_no_NUL: "newSimClient P opts = Inr c \<Longrightarrow> CHR 0x00 \<notin> set (sc_appId c)"
  using hex_no_NUL [OF toHex_lower] by (auto simp: newSimClient_def Let_def rbind_Inr_iff toHexField_def HEX_FIELD_PREFIX_def dest!: in_set_takeD)

text \<open>
  Keys are sealed to the image: two simulated deployments (with names and seeds free of zero bytes) that derive the same secret
  run the same image and asked for the same path, unless the two inputs that were hashed to the secrets, or the two image inputs
  that were measured, collide.
\<close>

theorem key_sealed_to_image:
  assumes "newSimClient P o1 = Inr c1" "newSimClient P o2 = Inr c2"
    and "CHR 0x00 \<notin> set (optOr (so_rootSeed (sc_options c1)) ''cool'')" "CHR 0x00 \<notin> set (optOr (so_rootSeed (sc_options c2)) ''cool'')"
    and "CHR 0x00 \<notin> set (so_imageDigest (sc_options c1))" "CHR 0x00 \<notin> set (so_imageDigest (sc_options c2))"
    and "CHR 0x00 \<notin> set p1" "CHR 0x00 \<notin> set p2"
    and "sim_deriveKey P c1 p1 = sim_deriveKey P c2 p2"
    and "sha256 P (seedInput P c1 p1) = sha256 P (seedInput P c2 p2) \<Longrightarrow> seedInput P c1 p1 = seedInput P c2 p2"
    and "sha384 P (imageInput c1) = sha384 P (imageInput c2) \<Longrightarrow> imageInput c1 = imageInput c2"
  shows "so_imageDigest (sc_options c1) = so_imageDigest (sc_options c2) \<and> p1 = p2"
proof -
  obtain h1 h2 where r3: "strv (mem (sim_measurement P c1) ''rtmr3'') = toHexField h1" "strv (mem (sim_measurement P c2) ''rtmr3'') = toHexField h2"
    using sim_registers(2) by metis
  have "seedInput P c1 p1 = seedInput P c2 p2" using assms(9,10) by (simp add: sim_deriveKey_def seedInput_def Let_def)
  then have eq: "[''cool/kms/seed/v2'', optOr (so_rootSeed (sc_options c1)) ''cool'', toHexField (sha384 P (imageInput c1)), toHexField h1, sc_appId c1, p1]
      = [''cool/kms/seed/v2'', optOr (so_rootSeed (sc_options c2)) ''cool'', toHexField (sha384 P (imageInput c2)), toHexField h2, sc_appId c2, p2]"
    using assms(3,4,7,8) appId_no_NUL [OF assms(1)] appId_no_NUL [OF assms(2)] toHexField_no_NUL
    unfolding seedInput_def sim_registers(1) r3 by (intro join_NUL_inj) (auto dest: utf8_inj)
  then have "imageInput c1 = imageInput c2" using toHexField_inj assms(11) by auto
  then have "[''dstack/mrtd'', so_imageDigest (sc_options c1)] = [''dstack/mrtd'', so_imageDigest (sc_options c2)]"
    using assms(5,6) unfolding imageInput_def by (intro join_NUL_inj) (auto dest: utf8_inj)
  then show ?thesis using eq by simp
qed

definition toySimOptions :: SimOptions where
  "toySimOptions = \<lparr>so_appName = ''app'', so_imageDigest = ''img'', so_instanceId = Some ''i'', so_vendor = None, so_rootSeed = None, so_appUrl = None\<rparr>"

definition toySim :: SimClient where
  "toySim = (case newSimClient toyEnv toySimOptions of Inr c \<Rightarrow> c)"

lemma toySim_new: "newSimClient toyEnv toySimOptions = Inr toySim" "sc_options toySim = toySimOptions"
  by (simp_all add: toySim_def newSimClient_def generateKeypair_def ML_DSA_SEED_BYTES_def Let_def toyEnv_def)

theorem key_sealed_to_image_witness: "so_imageDigest (sc_options toySim) = so_imageDigest (sc_options toySim) \<and> ''p'' = ''p''"
  by (rule key_sealed_to_image [OF toySim_new(1) toySim_new(1)]) (simp_all add: toySim_new(2) toySimOptions_def optOr_def)

end
