(* ===== verification/Governance.thy ===== *)
theory Governance
  imports Log
begin

text \<open>
  \<^verbatim>\<open>src/src/phala/diff.ts\<close> and \<^verbatim>\<open>phala/policy.ts\<close>: the line diff a change record commits to, and the governance rules evaluated where a change
  is sealed.  Results: a diff determines both texts, and the strictest matching rule wins whatever the order of the rules.
\<close>

section \<open>diff.ts\<close>

datatype DiffKind = Context | Added | Removed

type_synonym DiffLine = "DiffKind \<times> string"

text \<open>The loop that advances \<^verbatim>\<open>head\<close> over equal lines; on reversed lists it is the loop of \<^verbatim>\<open>tail\<close>.\<close>

fun commonRun :: "string list \<Rightarrow> string list \<Rightarrow> nat" where
  "commonRun (x # a) (y # b) = (if x = y then Suc (commonRun a b) else 0)"
| "commonRun _ _ = 0"

definition lineDiff :: "string \<Rightarrow> string \<Rightarrow> DiffLine list" where
  "lineDiff before after =
     (let a = (if before = [] then [] else splitLines before); b = splitLines after;
          head = commonRun a b;
          tail = commonRun (rev (drop head a)) (rev (drop head b))
      in map (Pair Context) (take head a)
         @ map (Pair Removed) (take (length a - tail - head) (drop head a))
         @ map (Pair Added) (take (length b - tail - head) (drop head b))
         @ map (Pair Context) (drop (length b - tail) b))"

definition renderLine :: "DiffLine \<Rightarrow> string" where
  "renderLine l = (case l of (Added, t) \<Rightarrow> ''+'' @ t | (Removed, t) \<Rightarrow> ''-'' @ t | (Context, t) \<Rightarrow> '' '' @ t)"

definition unifiedDiff :: "string \<Rightarrow> string \<Rightarrow> string" where
  "unifiedDiff before after = join [CHR 0x0A] (map renderLine (lineDiff before after))"

definition diffStat :: "string \<Rightarrow> string \<Rightarrow> nat \<times> nat" where
  "diffStat before after = (length (filter (\<lambda>l. fst l = Added) (lineDiff before after)), length (filter (\<lambda>l. fst l = Removed) (lineDiff before after)))"

section \<open>policy.ts\<close>

datatype GDecision = AutoApproved | Approved | Rejected | Escalate

record GInput =
  gi_kind :: string
  gi_ref :: string
  gi_environment :: string
  gi_actor_id :: string
  gi_actor_method :: string
  gi_approvers :: "string list"
  gi_risk :: "jsnum option"
  gi_labels :: "string list option"

record PolicyMatch =
  pm_kinds :: "string list option"
  pm_environments :: "string list option"
  pm_ref :: "string option"
  pm_minApprovers :: "int option"
  pm_maxApprovers :: "int option"
  pm_minRisk :: "jsnum option"
  pm_labels :: "string list option"
  pm_actorMethods :: "string list option"

record GRule =
  gr_id :: string
  gr_title :: string
  gr_when :: PolicyMatch
  gr_decision :: GDecision
  gr_obligations :: "string list option"
  gr_because :: "string option"

record PolicySet =
  ps_id :: string
  ps_rules :: "GRule list"
  ps_fallback :: "GDecision option"

record PolicyOutcome =
  po_decision :: GDecision
  po_rule :: "string option"
  po_title :: "string option"
  po_obligations :: "string list"
  po_policy_hash :: Multihash
  po_considered :: "(string \<times> GDecision) list"

fun GSEVERITY :: "GDecision \<Rightarrow> nat" where
  "GSEVERITY Rejected = 3"
| "GSEVERITY Escalate = 2"
| "GSEVERITY Approved = 1"
| "GSEVERITY AutoApproved = 0"

fun isInfix :: "string \<Rightarrow> string \<Rightarrow> bool" where
  "isInfix p [] = (p = [])"
| "isInfix p (c # s) = (startsWith (c # s) p \<or> isInfix p s)"

text \<open>The reference of a rule: a regular expression after \<^verbatim>\<open>re:\<close> (\<open>None\<close>: it does not compile, and \<^verbatim>\<open>new RegExp\<close> throws), or a substring.\<close>

definition refMatches :: "env \<Rightarrow> string option \<Rightarrow> string \<Rightarrow> bool res" where
  "refMatches P pat ref = (case pat of
       None \<Rightarrow> Inr True
     | Some p \<Rightarrow> if p = [] then Inr True
         else if startsWith p ''re:'' then (case regex P (drop 3 p) of None \<Rightarrow> Inl (Error ''SyntaxError'') | Some f \<Rightarrow> Inr (f ref))
         else Inr (isInfix p ref))"

definition gov_matches :: "env \<Rightarrow> GRule \<Rightarrow> GInput \<Rightarrow> bool res" where
  "gov_matches P rule input =
     (let m = gr_when rule; out = (\<lambda>opt x. case opt of Some xs \<Rightarrow> x \<notin> set xs | None \<Rightarrow> False) in
      if out (pm_kinds m) (gi_kind input) then Inr False
      else if out (pm_environments m) (gi_environment input) then Inr False
      else if out (pm_actorMethods m) (gi_actor_method input) then Inr False
      else rbind (refMatches P (pm_ref m) (gi_ref input)) (\<lambda>okRef.
        if \<not> okRef then Inr False
        else if (case pm_minApprovers m of Some n \<Rightarrow> int (length (gi_approvers input)) < n | None \<Rightarrow> False) then Inr False
        else if (case pm_maxApprovers m of Some n \<Rightarrow> int (length (gi_approvers input)) > n | None \<Rightarrow> False) then Inr False
        else if (case pm_minRisk m of Some r \<Rightarrow> js_lt (case gi_risk input of Some x \<Rightarrow> x | None \<Rightarrow> Fin 0) r | None \<Rightarrow> False) then Inr False
        else if (case pm_labels m of Some ls \<Rightarrow> \<not> (\<forall>l\<in>set ls. l \<in> set (case gi_labels input of Some xs \<Rightarrow> xs | None \<Rightarrow> [])) | None \<Rightarrow> False) then Inr False
        else Inr True))"

fun showDecision :: "GDecision \<Rightarrow> string" where
  "showDecision AutoApproved = ''auto-approved''"
| "showDecision Approved = ''approved''"
| "showDecision Rejected = ''rejected''"
| "showDecision Escalate = ''escalate''"

definition optField :: "string \<Rightarrow> ('a \<Rightarrow> jsval) \<Rightarrow> 'a option \<Rightarrow> (string \<times> jsval) list" where
  "optField k f v = (case v of Some x \<Rightarrow> [(k, f x)] | None \<Rightarrow> [])"

abbreviation jStrs :: "string list \<Rightarrow> jsval" where
  "jStrs ss \<equiv> JArr (map JStr ss)"

definition policySetVal :: "PolicySet \<Rightarrow> jsval" where
  "policySetVal p = JObj ([(''id'', JStr (ps_id p)), (''rules'', JArr (map (\<lambda>r. JObj (
       [(''id'', JStr (gr_id r)), (''title'', JStr (gr_title r)), (''when'', (let m = gr_when r in JObj (
          optField ''kinds'' jStrs (pm_kinds m) @ optField ''environments'' jStrs (pm_environments m) @ optField ''ref'' JStr (pm_ref m)
          @ optField ''minApprovers'' jInt (pm_minApprovers m) @ optField ''maxApprovers'' jInt (pm_maxApprovers m)
          @ optField ''minRisk'' JNum (pm_minRisk m) @ optField ''labels'' jStrs (pm_labels m) @ optField ''actorMethods'' jStrs (pm_actorMethods m)))),
        (''decision'', JStr (showDecision (gr_decision r)))]
       @ optField ''obligations'' jStrs (gr_obligations r) @ optField ''because'' JStr (gr_because r))) (ps_rules p)))]
     @ optField ''fallback'' (\<lambda>d. JStr (showDecision d)) (ps_fallback p))"

definition policyHash :: "env \<Rightarrow> PolicySet \<Rightarrow> Multihash" where
  "policyHash P p = mhSha256 (sha256 P) (canonicalCbor P (policySetVal p))"

text \<open>\<^verbatim>\<open>filter\<close> with a predicate that may throw.\<close>

fun filterM :: "('a \<Rightarrow> bool res) \<Rightarrow> 'a list \<Rightarrow> 'a list res" where
  "filterM f [] = Inr []"
| "filterM f (x # xs) = rbind (f x) (\<lambda>b. rbind (filterM f xs) (\<lambda>ys. Inr (if b then x # ys else ys)))"

definition worse :: "GRule \<Rightarrow> GRule \<Rightarrow> GRule" where
  "worse worst rule = (if GSEVERITY (gr_decision rule) > GSEVERITY (gr_decision worst) then rule else worst)"

definition gov_evaluate :: "env \<Rightarrow> PolicySet \<Rightarrow> GInput \<Rightarrow> PolicyOutcome res" where
  "gov_evaluate P policy input =
     rbind (filterM (\<lambda>r. gov_matches P r input) (ps_rules policy)) (\<lambda>matched.
       let considered = sortBy (\<lambda>a b. GSEVERITY (snd b) \<le> GSEVERITY (snd a)) (map (\<lambda>r. (gr_id r, gr_decision r)) matched);
           hash = policyHash P policy
       in case matched of
            [] \<Rightarrow> Inr \<lparr>po_decision = (case ps_fallback policy of Some d \<Rightarrow> d | None \<Rightarrow> Escalate), po_rule = None, po_title = None,
                 po_obligations = [], po_policy_hash = hash, po_considered = []\<rparr>
          | r # rs \<Rightarrow> (let winner = foldl worse r rs in
               Inr \<lparr>po_decision = gr_decision winner, po_rule = Some (gr_id winner), po_title = Some (gr_title winner),
                 po_obligations = (case gr_obligations winner of Some xs \<Rightarrow> xs | None \<Rightarrow> []), po_policy_hash = hash, po_considered = considered\<rparr>))"

record ChangeApproval =
  ca_policy_id :: string
  ca_decision :: string
  ca_approvers :: "string list"

definition approvalFrom :: "PolicyOutcome \<Rightarrow> string list \<Rightarrow> ChangeApproval" where
  "approvalFrom outcome approvers = \<lparr>ca_policy_id = (case po_rule outcome of Some r \<Rightarrow> r | None \<Rightarrow> ''no-matching-rule''),
     ca_decision = (if po_decision outcome = Escalate then ''rejected'' else showDecision (po_decision outcome)), ca_approvers = approvers\<rparr>"

text \<open>The starting set; its risk bound is the double nearest to 0.8.\<close>

definition anyMatch :: PolicyMatch where
  "anyMatch = \<lparr>pm_kinds = None, pm_environments = None, pm_ref = None, pm_minApprovers = None, pm_maxApprovers = None, pm_minRisk = None,
     pm_labels = None, pm_actorMethods = None\<rparr>"

definition DEFAULT_POLICY :: PolicySet where
  "DEFAULT_POLICY = \<lparr>ps_id = ''cool.default.v1'', ps_rules = [
     \<lparr>gr_id = ''POL-001'', gr_title = ''Non-production changes are automatic'', gr_when = anyMatch\<lparr>pm_environments := Some [''dev'', ''test'', ''staging'']\<rparr>,
      gr_decision = AutoApproved, gr_obligations = None,
      gr_because = Some ''Nothing outside production is customer-facing; friction here buys nothing.''\<rparr>,
     \<lparr>gr_id = ''POL-002'', gr_title = ''Production prompt and model changes need two approvers'',
      gr_when = anyMatch\<lparr>pm_environments := Some [''prod''], pm_kinds := Some [''prompt'', ''model'', ''policy''], pm_minApprovers := Some 2\<rparr>,
      gr_decision = Approved, gr_obligations = Some [''eu-ai-act-14''],
      gr_because = Some ''Article 14 requires oversight traceable to named people.''\<rparr>,
     \<lparr>gr_id = ''POL-003'', gr_title = ''Production changes without two approvers escalate'',
      gr_when = anyMatch\<lparr>pm_environments := Some [''prod''], pm_kinds := Some [''prompt'', ''model'', ''policy''], pm_maxApprovers := Some 1\<rparr>,
      gr_decision = Escalate, gr_obligations = Some [''eu-ai-act-14''],
      gr_because = Some ''A change nobody signed off is not a change that has been approved.''\<rparr>,
     \<lparr>gr_id = ''POL-008'', gr_title = ''Parameters and datasets need compliance sign-off in production'',
      gr_when = anyMatch\<lparr>pm_environments := Some [''prod''], pm_kinds := Some [''params'', ''dataset''], pm_minApprovers := Some 1\<rparr>,
      gr_decision = Approved, gr_obligations = Some [''eu-ai-act-15''],
      gr_because = Some ''These move accuracy, and Article 15 wants that provenance recorded.''\<rparr>,
     \<lparr>gr_id = ''POL-031'', gr_title = ''Widening agent permissions is never automatic'',
      gr_when = anyMatch\<lparr>pm_kinds := Some [''agent-permission'', ''tool'']\<rparr>, gr_decision = Escalate,
      gr_obligations = Some [''eu-ai-act-14'', ''dpdp-8''],
      gr_because = Some ''What an agent may do is the blast radius of every other decision.''\<rparr>,
     \<lparr>gr_id = ''POL-040'', gr_title = ''High-risk changes always reach a human'', gr_when = anyMatch\<lparr>pm_minRisk := Some (Fin (3602879701896397 / 4503599627370496))\<rparr>,
      gr_decision = Escalate, gr_obligations = None,
      gr_because = Some ''A model can score risk; it should not be the one to accept it.''\<rparr>],
     ps_fallback = Some Escalate\<rparr>"

section \<open>A diff determines both texts\<close>

lemma commonRun_take: "take (commonRun a b) a = take (commonRun a b) b"
  by (induction a b rule: commonRun.induct) auto

lemma commonRun_le: "commonRun a b \<le> length a" "commonRun a b \<le> length b"
  by (induction a b rule: commonRun.induct) auto

lemma commonRun_suffix:
  fixes a b :: "string list"
  defines "t \<equiv> commonRun (rev a) (rev b)"
  shows "drop (length a - t) a = drop (length b - t) b"
proof -
  have "rev (take t (rev a)) = rev (take t (rev b))" using commonRun_take [of "rev a" "rev b"] by (simp add: t_def)
  then show ?thesis by (simp add: rev_take)
qed

definition oldLines :: "DiffLine list \<Rightarrow> string list" where
  "oldLines d = map snd (filter (\<lambda>l. fst l \<noteq> Added) d)"

definition newLines :: "DiffLine list \<Rightarrow> string list" where
  "newLines d = map snd (filter (\<lambda>l. fst l \<noteq> Removed) d)"

lemma filter_kind [simp]:
  "filter (\<lambda>l. fst l \<noteq> k) (map (Pair j) xs) = (if j = k then [] else map (Pair j) xs)"
  by (induction xs) auto

lemma pieces: "h + t \<le> length xs \<Longrightarrow> take h xs @ take (length xs - t - h) (drop h xs) @ drop (length xs - t) xs = xs"
  by (metis (no_types, lifting) append.assoc append_take_drop_id diff_diff_left le_add_diff_inverse le_diff_conv2 add.commute take_add add_leD1 add_leD2)

text \<open>
  The diff a change record commits to says everything about the change: its context and removed lines are the lines of the old
  text, its context and added lines are the lines of the new one.
\<close>

theorem diff_reconstructs:
  "oldLines (lineDiff before after) = (if before = [] then [] else splitLines before) \<and> newLines (lineDiff before after) = splitLines after"
proof -
  define a b where ab: "a = (if before = [] then [] else splitLines before)" "b = splitLines after"
  define h where "h = commonRun a b"
  define t where "t = commonRun (rev (drop h a)) (rev (drop h b))"
  have h: "h \<le> length a" "h \<le> length b" "take h a = take h b" using commonRun_le [of a b] commonRun_take [of a b] by (simp_all add: h_def)
  have t: "t \<le> length a - h" "t \<le> length b - h" using commonRun_le [of "rev (drop h a)" "rev (drop h b)"] by (simp_all add: t_def)
  have "drop (length (drop h a) - t) (drop h a) = drop (length (drop h b) - t) (drop h b)" unfolding t_def by (rule commonRun_suffix)
  then have suffix: "drop (length b - t) b = drop (length a - t) a" using h t by (simp add: add.commute)
  have d: "lineDiff before after = map (Pair Context) (take h a) @ map (Pair Removed) (take (length a - t - h) (drop h a))
      @ map (Pair Added) (take (length b - t - h) (drop h b)) @ map (Pair Context) (drop (length b - t) b)"
    by (simp add: lineDiff_def Let_def ab h_def t_def)
  have "oldLines (lineDiff before after) = a"
    using pieces [of h t a] h t by (simp add: d oldLines_def suffix comp_def)
  moreover have "newLines (lineDiff before after) = b"
    using pieces [of h t b] h t by (simp add: d newLines_def comp_def)
  ultimately show ?thesis by (simp add: ab)
qed

section \<open>The strictest rule wins\<close>

lemma filterM_Inr: "filterM f xs = Inr ys \<Longrightarrow> set ys = {x \<in> set xs. f x = Inr True} \<and> (\<forall>x\<in>set xs. \<exists>b. f x = Inr b)"
  by (induction xs arbitrary: ys) (auto simp: rbind_Inr_iff split: if_splits)

lemma foldl_worse: "foldl worse r rs \<in> set (r # rs) \<and> (\<forall>x\<in>set (r # rs). GSEVERITY (gr_decision x) \<le> GSEVERITY (gr_decision (foldl worse r rs)))"
proof (induction rs arbitrary: r)
  case (Cons x rs)
  show ?case using Cons [of "worse r x"] by (auto simp: worse_def split: if_splits)
qed simp

text \<open>
  The strictest matching rule wins: when a policy set can be evaluated, the decision is that of a matching rule, no matching rule is
  stricter, and the recorded approval is neither \<^verbatim>\<open>approved\<close> nor \<^verbatim>\<open>auto-approved\<close> if any matching rule rejects or escalates; when no rule
  matches, the decision is the fallback, by default to escalate.
\<close>

theorem strictest_rule_wins:
  assumes "gov_evaluate P policy input = Inr outcome"
  shows "(if \<exists>r\<in>set (ps_rules policy). gov_matches P r input = Inr True
      then (\<exists>w\<in>set (ps_rules policy). gov_matches P w input = Inr True \<and> po_decision outcome = gr_decision w \<and> po_rule outcome = Some (gr_id w)
            \<and> (\<forall>r\<in>set (ps_rules policy). gov_matches P r input = Inr True \<longrightarrow> GSEVERITY (gr_decision r) \<le> GSEVERITY (gr_decision w)))
      else po_decision outcome = (case ps_fallback policy of Some d \<Rightarrow> d | None \<Rightarrow> Escalate) \<and> po_rule outcome = None)
    \<and> ((\<exists>r\<in>set (ps_rules policy). gov_matches P r input = Inr True \<and> gr_decision r \<in> {Rejected, Escalate})
        \<longrightarrow> ca_decision (approvalFrom outcome approvers) = ''rejected'')"
proof -
  obtain matched where m: "filterM (\<lambda>r. gov_matches P r input) (ps_rules policy) = Inr matched"
    using assms by (auto simp: gov_evaluate_def rbind_Inr_iff)
  then have set: "set matched = {r \<in> set (ps_rules policy). gov_matches P r input = Inr True}" using filterM_Inr by fastforce
  show ?thesis
  proof (cases matched)
    case Nil
    then have "\<not> (\<exists>r\<in>set (ps_rules policy). gov_matches P r input = Inr True)" using set by auto
    moreover have "po_decision outcome = (case ps_fallback policy of Some d \<Rightarrow> d | None \<Rightarrow> Escalate)" "po_rule outcome = None"
      using assms m Nil by (auto simp: gov_evaluate_def)
    ultimately show ?thesis by auto
  next
    case (Cons r rs)
    let ?w = "foldl worse r rs"
    have w: "?w \<in> set matched" "\<forall>x\<in>set matched. GSEVERITY (gr_decision x) \<le> GSEVERITY (gr_decision ?w)" using foldl_worse [of r rs] Cons by auto
    have out: "po_decision outcome = gr_decision ?w" "po_rule outcome = Some (gr_id ?w)" using assms m Cons by (auto simp: gov_evaluate_def Let_def)
    have ex: "\<exists>r\<in>set (ps_rules policy). gov_matches P r input = Inr True" using w(1) set by auto
    have strict: "ca_decision (approvalFrom outcome approvers) = ''rejected''"
      if "x \<in> set (ps_rules policy)" "gov_matches P x input = Inr True" "gr_decision x \<in> {Rejected, Escalate}" for x
    proof -
      have "GSEVERITY (gr_decision x) \<le> GSEVERITY (gr_decision ?w)" using w(2) that set by auto
      then show ?thesis using that(3) by (cases "gr_decision ?w") (auto simp: approvalFrom_def out)
    qed
    have "\<exists>w\<in>set (ps_rules policy). gov_matches P w input = Inr True \<and> po_decision outcome = gr_decision w \<and> po_rule outcome = Some (gr_id w)
            \<and> (\<forall>r\<in>set (ps_rules policy). gov_matches P r input = Inr True \<longrightarrow> GSEVERITY (gr_decision r) \<le> GSEVERITY (gr_decision w))"
      using w set out by (intro bexI [of _ ?w]) auto
    then show ?thesis using ex strict by auto
  qed
qed

theorem strictest_rule_wins_witness:
  "\<exists>outcome. gov_evaluate toyEnv DEFAULT_POLICY \<lparr>gi_kind = ''tool'', gi_ref = ''r'', gi_environment = ''dev'', gi_actor_id = ''a'', gi_actor_method = ''m'',
      gi_approvers = [], gi_risk = None, gi_labels = None\<rparr> = Inr outcome \<and> ca_decision (approvalFrom outcome []) = ''rejected''"
proof -
  let ?i = "\<lparr>gi_kind = ''tool'', gi_ref = ''r'', gi_environment = ''dev'', gi_actor_id = ''a'', gi_actor_method = ''m'',
      gi_approvers = [], gi_risk = None, gi_labels = None\<rparr>"
  let ?r = "\<lparr>gr_id = ''POL-031'', gr_title = ''Widening agent permissions is never automatic'',
      gr_when = anyMatch\<lparr>pm_kinds := Some [''agent-permission'', ''tool'']\<rparr>, gr_decision = Escalate,
      gr_obligations = Some [''eu-ai-act-14'', ''dpdp-8''],
      gr_because = Some ''What an agent may do is the blast radius of every other decision.''\<rparr>"
  have "\<exists>outcome. gov_evaluate toyEnv DEFAULT_POLICY ?i = Inr outcome"
    by (simp add: gov_evaluate_def DEFAULT_POLICY_def gov_matches_def anyMatch_def refMatches_def Let_def)
  then obtain outcome where o: "gov_evaluate toyEnv DEFAULT_POLICY ?i = Inr outcome" by blast
  have "?r \<in> set (ps_rules DEFAULT_POLICY)" by (simp add: DEFAULT_POLICY_def)
  moreover have "gov_matches toyEnv ?r ?i = Inr True" by (simp add: gov_matches_def anyMatch_def refMatches_def)
  ultimately show ?thesis using strictest_rule_wins [OF o, of "[]"] o by fastforce
qed

end
