(* ===== verification/Engine.thy ===== *)
theory Engine
  imports Dstack Governance
begin

text \<open>
  \<^verbatim>\<open>src/src/phala/engine.ts\<close>: the evidence plane, which seals events into receipts.  The clock, the generators of identifiers and salts and
  the sequence are functions of how often they were called (record \<open>Sources\<close>); the plane counts the calls.  The log is the default
  in-memory one.  A call of \<^verbatim>\<open>seal\<close> that throws is an error value; the counters it advanced are not tracked further.

  The invariant \<open>plane_ok\<close> of a plane is kept by every \<^verbatim>\<open>seal\<close> and established by booting on the simulator; every receipt a plane seals
  verifies, and one sealed on the simulator says so.
\<close>

section \<open>Events\<close>

datatype Payload = Text string | Raw bytes

fun payloadBytes :: "Payload \<Rightarrow> bytes" where
  "payloadBytes (Text s) = utf8 s"
| "payloadBytes (Raw b) = b"

record EvidenceEvent =
  ee_type :: string
  ee_applicationId :: string
  ee_executionId :: string
  ee_metadata :: "jsval option"
  ee_input :: "Payload option"
  ee_output :: "Payload option"
  ee_state :: "Payload option"
  ee_software :: "jsval option"
  ee_gpu :: "jsval option"

record ChangeEvent =
  ce_changeKind :: string
  ce_ref :: string
  ce_environment :: string
  ce_before :: "string option"
  ce_after :: string
  ce_actor_id :: string
  ce_actor_method :: string
  ce_approval :: "ChangeApproval option"
  ce_approvers :: "string list option"
  ce_risk :: "jsnum option"
  ce_labels :: "string list option"

datatype CaptureEvent = Evidence EvidenceEvent | Change ChangeEvent

section \<open>The plane\<close>

record Sources =
  src_clock :: "nat \<Rightarrow> string"
  src_id :: "nat \<Rightarrow> string"
  src_salt :: "nat \<Rightarrow> string"
  src_seq :: "nat \<Rightarrow> int"

record Plane =
  pl_info :: EnclaveInfo
  pl_keys :: SealedKeyset
  pl_quote :: jsval
  pl_attestation :: jsval
  pl_runtime :: "(string \<times> jsval) list"
  pl_directory :: "(string \<times> jsval) list"
  pl_log :: MemoryLog
  pl_policy :: "PolicySet option"
  pl_lastOutcome :: "PolicyOutcome option"
  pl_clocks :: nat
  pl_ids :: nat
  pl_salts :: nat
  pl_seqs :: nat

definition runtimeBlock :: "env \<Rightarrow> EnclaveInfo \<Rightarrow> jsval \<Rightarrow> (string \<times> jsval) list" where
  "runtimeBlock P info quote = [(''tee_vendor'', JStr (ei_vendor info)), (''mode'', JStr (ei_mode info)),
     (''enclave_measurement'', ei_measurement info), (''tee_quote'', JStr (quoteDigest P quote)), (''gpu'', JNull)]"

definition attestationNote :: "EnclaveInfo \<Rightarrow> string" where
  "attestationNote info = (if ei_mode info = ''hardware''
     then ei_vendor info @ '' quote via dstack; keys sealed to the enclave measurement''
     else ''SIMULATED '' @ [CHR 0xe2, CHR 0x80, CHR 0x94] @ '' structurally complete quote under a CooL-held root, NOT hardware evidence'')"

definition attestationBlock :: "EnclaveInfo \<Rightarrow> jsval \<Rightarrow> jsval option \<Rightarrow> Multihash \<Rightarrow> jsval" where
  "attestationBlock info quote expected reportData = JObj [(''mode'', JStr (ei_mode info)), (''note'', JStr (attestationNote info)),
     (''quote'', quote), (''expected_measurement'', (case expected of Some m \<Rightarrow> m | None \<Rightarrow> JNull)), (''key_binding'', JStr reportData)]"

definition directoryOf :: "SealedKeyset \<Rightarrow> (string \<times> jsval) list \<Rightarrow> (string \<times> jsval) list" where
  "directoryOf keys extra = fold (\<lambda>(k, e). mput k e) extra
     (map (\<lambda>(k, e). (k, keyVal e)) (mergeDirectories [ks_record keys, ks_log keys]))"

definition start :: "env \<Rightarrow> DstackClient \<Rightarrow> string \<Rightarrow> jsval option \<Rightarrow> PolicySet option \<Rightarrow> Plane res" where
  "start P client logId expected policy =
     rbind (dc_info client) (\<lambda>info.
     rbind (sealedKeyset P client) (\<lambda>keys.
     let reportData = enclaveReportData P (keyVal (directoryEntry (ks_record keys))) in
     rbind (dc_getQuote client reportData) (\<lambda>quote.
       Inr \<lparr>pl_info = info, pl_keys = keys, pl_quote = quote, pl_attestation = attestationBlock info quote expected reportData,
         pl_runtime = runtimeBlock P info quote, pl_directory = directoryOf keys (dc_directory client),
         pl_log = newMemoryLog logId (ks_log keys), pl_policy = policy, pl_lastOutcome = None,
         pl_clocks = 0, pl_ids = 0, pl_salts = 0, pl_seqs = 0\<rparr>)))"

definition logSize :: "Plane \<Rightarrow> nat" where
  "logSize pl = ml_size (pl_log pl)"

definition currentSTH :: "env \<Rightarrow> Sources \<Rightarrow> Plane \<Rightarrow> (STH \<times> Plane) run" where
  "currentSTH P src pl = runbind (ml_buildSTH P (pl_log pl) (src_clock src (pl_clocks pl)))
     (\<lambda>sth. Some (Inr (sth, pl\<lparr>pl_clocks := Suc (pl_clocks pl)\<rparr>)))"

section \<open>Cores\<close>

definition nextSalt :: "Sources \<Rightarrow> Plane \<Rightarrow> string \<times> Plane" where
  "nextSalt src pl = (src_salt src (pl_salts pl), pl\<lparr>pl_salts := Suc (pl_salts pl)\<rparr>)"

definition nextId :: "Sources \<Rightarrow> Plane \<Rightarrow> string \<times> Plane" where
  "nextId src pl = (src_id src (pl_ids pl), pl\<lparr>pl_ids := Suc (pl_ids pl)\<rparr>)"

definition commitPayload :: "env \<Rightarrow> Sources \<Rightarrow> Payload option \<Rightarrow> Plane \<Rightarrow> ((jsval \<times> jsval) \<times> Plane) res" where
  "commitPayload P src value pl = (case value of
       None \<Rightarrow> Inr ((JNull, JNull), pl)
     | Some v \<Rightarrow> (let (salt, pl1) = nextSalt src pl in
         rbind (saltedCommit (sha256 P) salt (payloadBytes v)) (\<lambda>h. Inr ((JStr h, JStr salt), pl1))))"

definition evidenceCore :: "env \<Rightarrow> Sources \<Rightarrow> EvidenceEvent \<Rightarrow> jsval \<Rightarrow> Plane \<Rightarrow> (jsval \<times> Plane) res" where
  "evidenceCore P src event time pl =
     (let (metadataSalt, pl1) = nextSalt src pl;
          runtime = (case ee_gpu event of Some g \<Rightarrow> if jtruthy g then mput ''gpu'' g (pl_runtime pl) else pl_runtime pl | None \<Rightarrow> pl_runtime pl)
      in rbind (commitPayload P src (ee_input event) pl1) (\<lambda>(input, pl2).
         rbind (commitPayload P src (ee_output event) pl2) (\<lambda>(output, pl3).
         rbind (commitPayload P src (ee_state event) pl3) (\<lambda>(state, pl4).
         rbind (saltedCommit (sha256 P) metadataSalt (canonicalCbor P (orElse (optOr (ee_metadata event) JUndef) (JObj [])))) (\<lambda>metadataHash.
         let (rid, pl5) = nextId src pl4 in
         Inr (JObj [(''schema'', JStr ''cool.evidence.v1''), (''record_id'', JStr rid), (''time'', time),
           (''event'', JObj [(''type'', JStr (ee_type event)), (''application_id'', JStr (ee_applicationId event)),
              (''execution_id'', JStr (ee_executionId event)), (''metadata_hash'', JStr metadataHash), (''metadata_salt'', JStr metadataSalt),
              (''commitments'', JObj [(''input'', fst input), (''input_salt'', snd input), (''output'', fst output), (''output_salt'', snd output),
                 (''state'', fst state), (''state_salt'', snd state)]),
              (''software'', orElse (optOr (ee_software event) JUndef) JNull)]),
           (''runtime'', JObj runtime)], pl5))))))"

definition approvalVal :: "ChangeApproval \<Rightarrow> jsval" where
  "approvalVal a = JObj [(''policy_id'', JStr (ca_policy_id a)), (''decision'', JStr (ca_decision a)), (''approvers'', JArr (map JStr (ca_approvers a)))]"

definition inputOf :: "ChangeEvent \<Rightarrow> GInput" where
  "inputOf event = \<lparr>gi_kind = ce_changeKind event, gi_ref = ce_ref event, gi_environment = ce_environment event,
     gi_actor_id = ce_actor_id event, gi_actor_method = ce_actor_method event, gi_approvers = optOr (ce_approvers event) [],
     gi_risk = ce_risk event, gi_labels = ce_labels event\<rparr>"

definition decide_change :: "env \<Rightarrow> ChangeEvent \<Rightarrow> Plane \<Rightarrow> (ChangeApproval option \<times> Plane) res" where
  "decide_change P event pl = (case ce_approval event of
       Some a \<Rightarrow> Inr (Some a, pl\<lparr>pl_lastOutcome := None\<rparr>)
     | None \<Rightarrow> (case pl_policy pl of
           None \<Rightarrow> Inr (None, pl\<lparr>pl_lastOutcome := None\<rparr>)
         | Some policy \<Rightarrow> rbind (gov_evaluate P policy (inputOf event)) (\<lambda>outcome.
             Inr (Some (approvalFrom outcome (optOr (ce_approvers event) [])), pl\<lparr>pl_lastOutcome := Some outcome\<rparr>))))"

definition changeCore :: "env \<Rightarrow> Sources \<Rightarrow> ChangeEvent \<Rightarrow> jsval \<Rightarrow> Plane \<Rightarrow> (jsval \<times> Plane) res" where
  "changeCore P src event time pl =
     (let (beforeSalt, pl1) = nextSalt src pl; (afterSalt, pl2) = nextSalt src pl1;
          before = optOr (ce_before event) []; diff = unifiedDiff before (ce_after event); (rid, pl3) = nextId src pl2
      in rbind (case ce_before event of None \<Rightarrow> Inr JNull | Some b \<Rightarrow> rbind (saltedCommit (sha256 P) beforeSalt (utf8 b)) (\<lambda>h. Inr (JStr h))) (\<lambda>beforeHash.
         rbind (saltedCommit (sha256 P) afterSalt (utf8 (ce_after event))) (\<lambda>afterHash.
         rbind (decide_change P event pl3) (\<lambda>(approval, pl4).
         Inr (JObj [(''schema'', JStr ''cool.change.v2''), (''record_id'', JStr rid), (''time'', time),
           (''change'', JObj [(''kind'', JStr (ce_changeKind event)), (''ref'', JStr (ce_ref event)), (''environment'', JStr (ce_environment event)),
              (''before_hash'', beforeHash), (''before_salt'', (case ce_before event of None \<Rightarrow> JNull | Some _ \<Rightarrow> JStr beforeSalt)),
              (''after_hash'', JStr afterHash), (''after_salt'', JStr afterSalt), (''diff_hash'', JStr (mhSha256 (sha256 P) (utf8 diff))),
              (''actor'', JObj [(''id'', JStr (ce_actor_id event)), (''method'', JStr (ce_actor_method event))]),
              (''approval'', (case approval of Some a \<Rightarrow> approvalVal a | None \<Rightarrow> JNull))]),
           (''runtime'', JObj (pl_runtime pl))], pl4)))))"

section \<open>Sealing\<close>

definition witnessVal :: "Witness \<Rightarrow> jsval" where
  "witnessVal w = JObj [(''id'', JStr (w_id w)), (''external'', JBool (w_external w)), (''alg'', JStr (w_alg w)), (''ml_dsa'', JStr (w_ml_dsa w)),
     (''ed25519'', JStr (w_ed25519 w))]"

definition sthVal :: "STH \<Rightarrow> jsval" where
  "sthVal s = JObj [(''log_id'', JStr (log_id s)), (''tree_size'', jInt (tree_size s)), (''root_hash'', JStr (root_hash s)),
     (''timestamp'', JStr (sth_timestamp s)), (''signature'', sigVal (sth_signature s)), (''witnesses'', JArr (map witnessVal (sth_witnesses s)))]"

definition receiptVal :: "jsval \<Rightarrow> Multihash \<Rightarrow> jsval \<Rightarrow> jsval \<Rightarrow> Plane \<Rightarrow> jsval" where
  "receiptVal record binding inclusion sth pl = JObj [(''schema'', JStr ''cool.receipt.v2''), (''record'', record), (''binding_hash'', JStr binding),
     (''inclusion'', inclusion), (''sth'', sth), (''attestation'', pl_attestation pl), (''anchor'', JNull), (''key_directory'', JObj (pl_directory pl))]"

definition coreFor :: "env \<Rightarrow> Sources \<Rightarrow> CaptureEvent \<Rightarrow> Plane \<Rightarrow> (jsval \<times> Plane) res" where
  "coreFor P src event pl =
     (let time = JObj [(''issued_at'', JStr (src_clock src (pl_clocks pl))), (''seq'', jInt (src_seq src (pl_seqs pl)))];
          pl1 = pl\<lparr>pl_clocks := Suc (pl_clocks pl), pl_seqs := Suc (pl_seqs pl)\<rparr>
      in case event of Evidence e \<Rightarrow> evidenceCore P src e time pl1 | Change c \<Rightarrow> changeCore P src c time pl1)"

definition seal :: "env \<Rightarrow> Sources \<Rightarrow> CaptureEvent \<Rightarrow> Plane \<Rightarrow> (jsval \<times> Plane) run" where
  "seal P src event pl =
     runbind (Some (coreFor P src event pl)) (\<lambda>(core, pl1).
     let binding = bindingHashV2 P core in
     runbind (Some (recordSigningMessageV2 P core binding)) (\<lambda>message.
     let signature = hybridSign P message (ks_record (pl_keys pl1)); record = signedRecordV2 core signature in
     runbind (Some (recordLeafDataV2 binding)) (\<lambda>leaf.
     let (res, lg) = ml_append P leaf (pl_log pl1); pl2 = pl1\<lparr>pl_log := lg\<rparr> in
     runbind (currentSTH P src pl2) (\<lambda>(sth, pl3).
     runbind (ml_inclusionAuditPath P (pl_log pl3) (int (ar_leafIndex res))) (\<lambda>path.
     let inclusion = JObj [(''leaf_index'', jInt (int (ar_leafIndex res))), (''tree_size'', jInt (tree_size sth)), (''audit_path'', JArr (map JStr path))]
     in Some (Inr (receiptVal record binding inclusion (sthVal sth) pl3, pl3)))))))"

section \<open>The invariant\<close>

abbreviation ENTRY :: shape where
  "ENTRY \<equiv> SFields [(''ml_dsa_pub'', SB64), (''ed25519_pub'', SB64)]"

abbreviation GPU :: shape where
  "GPU \<equiv> SFields [(''vendor'', SOneOf [''nvidia-cc'']), (''gpu_model'', SText), (''evidence_hash'', SDigest),
     (''verdict'', SOneOf [''verified'', ''unverified'', ''simulated''])]"

abbreviation SOFTWARE :: shape where
  "SOFTWARE \<equiv> SFields [(''name'', SText), (''version'', SText), (''digest'', SNullable SDigest)]"

definition info_ok :: "EnclaveInfo \<Rightarrow> bool" where
  "info_ok i = (ei_vendor i \<in> set TEE_VENDORS \<and> ei_mode i \<in> set MODES \<and> hasShape MEASUREMENT (ei_measurement i))"

definition quote_ok :: "env \<Rightarrow> EnclaveInfo \<Rightarrow> KeyPair \<Rightarrow> jsval \<Rightarrow> bool" where
  "quote_ok P info key quote = (hasShape QUOTE quote \<and> mem (mem quote ''body'') ''measurement'' = ei_measurement info
     \<and> mem (mem quote ''body'') ''report_data'' = JStr (enclaveReportData P (keyVal (directoryEntry key))))"

definition key_ok :: "env \<Rightarrow> (string \<times> jsval) list \<Rightarrow> KeyPair \<Rightarrow> bool" where
  "key_ok P dir key = (generated P key \<and> keyId key \<noteq> [] \<and> map_of dir (keyId key) = Some (keyVal (directoryEntry key)))"

definition expected_ok :: "EnclaveInfo \<Rightarrow> jsval option \<Rightarrow> bool" where
  "expected_ok info expected = (case expected of None \<Rightarrow> True
     | Some m \<Rightarrow> hasShape MEASUREMENT m \<and> measurementEquals m (ei_measurement info))"

definition plane_ok :: "env \<Rightarrow> Plane \<Rightarrow> bool" where
  "plane_ok P pl = (ml_ok P (pl_log pl) \<and> ml_logId (pl_log pl) \<noteq> [] \<and> ml_logKey (pl_log pl) = ks_log (pl_keys pl)
     \<and> key_ok P (pl_directory pl) (ks_record (pl_keys pl)) \<and> key_ok P (pl_directory pl) (ks_log (pl_keys pl))
     \<and> hasShape (SDirectory ENTRY) (JObj (pl_directory pl))
     \<and> info_ok (pl_info pl) \<and> quote_ok P (pl_info pl) (ks_record (pl_keys pl)) (pl_quote pl)
     \<and> pl_runtime pl = runtimeBlock P (pl_info pl) (pl_quote pl)
     \<and> (\<exists>expected. expected_ok (pl_info pl) expected \<and> pl_attestation pl = attestationBlock (pl_info pl) (pl_quote pl) expected
          (enclaveReportData P (keyVal (directoryEntry (ks_record (pl_keys pl)))))))"

text \<open>What a caller has to supply: a clock that says something, identifiers and salts of the declared form, sequence numbers from 0.\<close>

definition sources_ok :: "Sources \<Rightarrow> bool" where
  "sources_ok src = (\<forall>n. src_clock src n \<noteq> [] \<and> hasShape (SStr (Some ULID)) (JStr (src_id src n))
     \<and> (\<exists>b. b \<noteq> [] \<and> src_salt src n = toHexField b) \<and> 0 \<le> src_seq src n)"

fun event_ok :: "env \<Rightarrow> Plane \<Rightarrow> CaptureEvent \<Rightarrow> bool" where
  "event_ok P pl (Evidence e) = (ee_type e \<noteq> [] \<and> ee_applicationId e \<noteq> [] \<and> ee_executionId e \<noteq> []
     \<and> (case ee_software e of None \<Rightarrow> True | Some s \<Rightarrow> s = JUndef \<or> hasShape (SNullable SOFTWARE) s)
     \<and> (case ee_gpu e of None \<Rightarrow> True | Some g \<Rightarrow> \<not> jtruthy g \<or> hasShape GPU g))"
| "event_ok P pl (Change c) = (ce_changeKind c \<in> set CHANGE_KINDS \<and> ce_ref c \<noteq> [] \<and> ce_environment c \<noteq> [] \<and> ce_actor_id c \<noteq> []
     \<and> ce_actor_method c \<noteq> []
     \<and> (case (ce_approval c, pl_policy pl) of (None, Some policy) \<Rightarrow> (\<exists>outcome. gov_evaluate P policy (inputOf c) = Inr outcome) | _ \<Rightarrow> True))"

text \<open>The part of a plane that sealing a core leaves alone.\<close>

definition fixedPart :: "Plane \<Rightarrow> Plane" where
  "fixedPart pl = pl\<lparr>pl_lastOutcome := None, pl_clocks := 0, pl_ids := 0, pl_salts := 0, pl_seqs := 0\<rparr>"

lemma fixedPart_counters [simp]:
  "fixedPart (pl\<lparr>pl_salts := n\<rparr>) = fixedPart pl" "fixedPart (pl\<lparr>pl_ids := n\<rparr>) = fixedPart pl" "fixedPart (pl\<lparr>pl_clocks := n\<rparr>) = fixedPart pl"
  "fixedPart (pl\<lparr>pl_seqs := n\<rparr>) = fixedPart pl" "fixedPart (pl\<lparr>pl_lastOutcome := x\<rparr>) = fixedPart pl"
  by (simp_all add: fixedPart_def)

lemma fixedPart_reads: "pl_info (fixedPart a) = pl_info a" "pl_keys (fixedPart a) = pl_keys a" "pl_quote (fixedPart a) = pl_quote a"
  "pl_attestation (fixedPart a) = pl_attestation a" "pl_runtime (fixedPart a) = pl_runtime a" "pl_directory (fixedPart a) = pl_directory a"
  "pl_log (fixedPart a) = pl_log a" "pl_policy (fixedPart a) = pl_policy a"
  by (simp_all add: fixedPart_def)

lemma fixedPart_fields:
  assumes "fixedPart a = fixedPart b"
  shows "pl_info a = pl_info b" "pl_keys a = pl_keys b" "pl_quote a = pl_quote b" "pl_attestation a = pl_attestation b"
    "pl_runtime a = pl_runtime b" "pl_directory a = pl_directory b" "pl_log a = pl_log b" "pl_policy a = pl_policy b"
  using assms fixedPart_reads by metis+

lemma plane_ok_fixed: "fixedPart a = fixedPart b \<Longrightarrow> plane_ok P a = plane_ok P b"
  by (simp add: plane_ok_def fixedPart_fields [of a b])

section \<open>Cores have the shape of the schema\<close>

lemma salt_shape: "sources_ok src \<Longrightarrow> hasShape SHex (JStr (src_salt src n))"
proof -
  assume "sources_ok src"
  then obtain b where b: "b \<noteq> []" "src_salt src n = toHexField b" unfolding sources_ok_def by blast
  then show ?thesis using toHex_lower [of b] by (auto simp: hasShape.simps(4) toHexField_def HEX_FIELD_PREFIX_def)
qed

lemma salted_ok: "digests32 P \<Longrightarrow> sources_ok src \<Longrightarrow> \<exists>h. saltedCommit (sha256 P) (src_salt src n) d = Inr h \<and> hasShape SDigest (JStr h)"
proof -
  assume P: "digests32 P" and "sources_ok src"
  then obtain b where "src_salt src n = toHexField b" unfolding sources_ok_def by blast
  then show ?thesis using mhSha256_shape [OF P] by (simp add: saltedCommit_def)
qed

lemma commitPayload_ok:
  assumes "digests32 P" "sources_ok src"
  shows "\<exists>h s pl'. commitPayload P src v pl = Inr ((h, s), pl') \<and> fixedPart pl' = fixedPart pl
    \<and> (h = JNull \<and> s = JNull \<or> hasShape SDigest h \<and> hasShape SHex s)"
  using salted_ok [OF assms, of "pl_salts pl" "payloadBytes (the v)"] salt_shape [OF assms(2)]
  by (cases v) (auto simp: commitPayload_def nextSalt_def)

lemma runtime_shape:
  assumes "digests32 P" "info_ok info" "hasShape (SNullable GPU) g"
  shows "hasShape RUNTIME (JObj (mput ''gpu'' g (runtimeBlock P info quote)))"
proof -
  have q: "hasShape SDigest (JStr (quoteDigest P quote))" using mhSha256_shape [OF assms(1)] by (simp add: quoteDigest_def)
  show ?thesis
    using assms q by (simp add: RUNTIME_def runtimeBlock_def obj_simps readMember_Cons info_ok_def text_shapes)
qed

lemma runtime_gpu_null: "mput ''gpu'' JNull (runtimeBlock P info quote) = runtimeBlock P info quote"
  by (simp add: runtimeBlock_def)

text \<open>What sealing needs of a core.\<close>

definition core_ok :: "env \<Rightarrow> Plane \<Rightarrow> jsval \<Rightarrow> bool" where
  "core_ok P pl core = (\<exists>es. core = JObj es \<and> ''signature'' \<notin> fst ` set es
     \<and> (\<forall>s. hasShape SIGNATURE s \<longrightarrow> hasShape RECORD (JObj (es @ [(''signature'', s)])))
     \<and> mem (mem core ''runtime'') ''tee_quote'' = JStr (quoteDigest P (pl_quote pl))
     \<and> mem (mem core ''runtime'') ''enclave_measurement'' = ei_measurement (pl_info pl))"

lemma runtime_reads: "mem (JObj (mput ''gpu'' g (runtimeBlock P info quote))) ''tee_quote'' = JStr (quoteDigest P quote)"
  "mem (JObj (mput ''gpu'' g (runtimeBlock P info quote))) ''enclave_measurement'' = ei_measurement info"
  by (simp_all add: runtimeBlock_def readMember_Cons)

definition timeVal :: "Sources \<Rightarrow> Plane \<Rightarrow> jsval" where
  "timeVal src pl = JObj [(''issued_at'', JStr (src_clock src (pl_clocks pl))), (''seq'', jInt (src_seq src (pl_seqs pl)))]"

lemma time_shape: "sources_ok src \<Longrightarrow> hasShape (SFields [(''issued_at'', SText), (''seq'', SInt 0)]) (timeVal src pl)"
  by (auto simp: timeVal_def obj_simps readMember_Cons sources_ok_def hasShape.simps(4,6))

lemma SText_iff: "hasShape SText (JStr s) \<longleftrightarrow> s \<noteq> []"
  by (simp add: hasShape.simps(4))

lemma COMMITMENT_obj: "hasShape (COMMITMENT f) (JObj es) \<longleftrightarrow>
   readMember es f = JNull \<and> readMember es (f @ ''_salt'') = JNull \<or> hasShape SDigest (readMember es f) \<and> hasShape SHex (readMember es (f @ ''_salt''))"
  by (simp add: COMMITMENT_def obj_simps)

lemma evidenceCore_ok:
  assumes P: "digests32 P" and src: "sources_ok src" and pl: "info_ok (pl_info pl)" "pl_runtime pl = runtimeBlock P (pl_info pl) (pl_quote pl)"
    and e: "event_ok P pl (Evidence e)" and t: "hasShape (SFields [(''issued_at'', SText), (''seq'', SInt 0)]) time"
  shows "\<exists>core pl'. evidenceCore P src e time pl = Inr (core, pl') \<and> fixedPart pl' = fixedPart pl \<and> core_ok P pl core"
proof -
  define runtime where "runtime = (case ee_gpu e of Some g \<Rightarrow> if jtruthy g then mput ''gpu'' g (pl_runtime pl) else pl_runtime pl | None \<Rightarrow> pl_runtime pl)"
  obtain g where g: "runtime = mput ''gpu'' g (runtimeBlock P (pl_info pl) (pl_quote pl))" "hasShape (SNullable GPU) g"
  proof (cases "\<exists>g. ee_gpu e = Some g \<and> jtruthy g")
    case True
    then show ?thesis using e that by (auto simp: runtime_def pl(2))
  next
    case False
    then show ?thesis using that [of JNull] by (auto simp: runtime_def pl(2) runtime_gpu_null split: option.splits)
  qed
  obtain h1 s1 p1 where c1: "commitPayload P src (ee_input e) (snd (nextSalt src pl)) = Inr ((h1, s1), p1)" "fixedPart p1 = fixedPart pl"
      "h1 = JNull \<and> s1 = JNull \<or> hasShape SDigest h1 \<and> hasShape SHex s1"
    using commitPayload_ok [OF P src, of "ee_input e" "snd (nextSalt src pl)"] by (auto simp: nextSalt_def)
  obtain h2 s2 p2 where c2: "commitPayload P src (ee_output e) p1 = Inr ((h2, s2), p2)" "fixedPart p2 = fixedPart pl"
      "h2 = JNull \<and> s2 = JNull \<or> hasShape SDigest h2 \<and> hasShape SHex s2"
    using commitPayload_ok [OF P src, of "ee_output e" p1] c1(2) by metis
  obtain h3 s3 p3 where c3: "commitPayload P src (ee_state e) p2 = Inr ((h3, s3), p3)" "fixedPart p3 = fixedPart pl"
      "h3 = JNull \<and> s3 = JNull \<or> hasShape SDigest h3 \<and> hasShape SHex s3"
    using commitPayload_ok [OF P src, of "ee_state e" p2] c2(2) by metis
  obtain mh where mh: "saltedCommit (sha256 P) (src_salt src (pl_salts pl)) (canonicalCbor P (orElse (optOr (ee_metadata e) JUndef) (JObj []))) = Inr mh"
      "hasShape SDigest (JStr mh)" using salted_ok [OF P src] by blast
  define com where "com = JObj [(''input'', h1), (''input_salt'', s1), (''output'', h2), (''output_salt'', s2), (''state'', h3), (''state_salt'', s3)]"
  define ev where "ev = JObj [(''type'', JStr (ee_type e)), (''application_id'', JStr (ee_applicationId e)), (''execution_id'', JStr (ee_executionId e)),
     (''metadata_hash'', JStr mh), (''metadata_salt'', JStr (src_salt src (pl_salts pl))), (''commitments'', com),
     (''software'', orElse (optOr (ee_software e) JUndef) JNull)]"
  define es where "es = [(''schema'', JStr ''cool.evidence.v1''), (''record_id'', JStr (src_id src (pl_ids p3))), (''time'', time), (''event'', ev), (''runtime'', JObj runtime)]"
  have "evidenceCore P src e time pl = Inr (JObj es, p3\<lparr>pl_ids := Suc (pl_ids p3)\<rparr>)"
    using c1(1) by (simp add: evidenceCore_def c2 c3 mh nextSalt_def nextId_def es_def ev_def com_def runtime_def)
  moreover have "hasShape (COMMITMENT ''input'') com" "hasShape (COMMITMENT ''output'') com" "hasShape (COMMITMENT ''state'') com"
    using c1(3) c2(3) c3(3) by (simp_all add: com_def COMMITMENT_obj readMember_Cons)
  moreover have "hasShape (SNullable SOFTWARE) (orElse (optOr (ee_software e) JUndef) JNull)"
    using e by (auto simp: orElse_def optOr_def split: option.splits)
  ultimately have ev: "hasShape EVENT ev"
    using e mh(2) salt_shape [OF src] by (simp add: EVENT_def ev_def obj_simps(2) [of _ _ _ "(''type'', JStr (ee_type e)) # _"] obj_simps(1) readMember_Cons SText_iff)
  have "core_ok P pl (JObj es)"
    using ev t runtime_shape [OF P pl(1) g(2)] src
    by (auto simp: core_ok_def es_def RECORD_def obj_simps readMember_Cons text_shapes(2) sources_ok_def g(1) runtime_reads [unfolded mem_JObj])
  then show ?thesis using \<open>evidenceCore P src e time pl = _\<close> c3(2) by auto
qed

lemma changeCore_ok:
  assumes P: "digests32 P" and src: "sources_ok src" and pl: "info_ok (pl_info pl)" "pl_runtime pl = runtimeBlock P (pl_info pl) (pl_quote pl)"
    and c: "event_ok P pl (Change c)" and t: "hasShape (SFields [(''issued_at'', SText), (''seq'', SInt 0)]) time"
  shows "\<exists>core pl'. changeCore P src c time pl = Inr (core, pl') \<and> fixedPart pl' = fixedPart pl \<and> core_ok P pl core"
proof -
  let ?s0 = "src_salt src (pl_salts pl)" and ?s1 = "src_salt src (Suc (pl_salts pl))" and ?id = "src_id src (pl_ids pl)"
  define p3 where "p3 = pl\<lparr>pl_salts := Suc (Suc (pl_salts pl)), pl_ids := Suc (pl_ids pl)\<rparr>"
  define beforeSalt where "beforeSalt = (case ce_before c of None \<Rightarrow> JNull | Some _ \<Rightarrow> JStr ?s0)"
  obtain bh where bh: "(case ce_before c of None \<Rightarrow> Inr JNull | Some b \<Rightarrow> rbind (saltedCommit (sha256 P) ?s0 (utf8 b)) (\<lambda>h. Inr (JStr h))) = Inr bh"
      "bh = JNull \<or> hasShape SDigest bh \<and> hasShape SHex beforeSalt"
    using salted_ok [OF P src, of "pl_salts pl" "utf8 (the (ce_before c))"] salt_shape [OF src]
    by (cases "ce_before c") (auto simp: beforeSalt_def)
  obtain ah where ah: "saltedCommit (sha256 P) ?s1 (utf8 (ce_after c)) = Inr ah" "hasShape SDigest (JStr ah)" using salted_ok [OF P src] by blast
  obtain approval p4 where d: "decide_change P c p3 = Inr (approval, p4)" "fixedPart p4 = fixedPart pl"
    using c by (cases "ce_approval c"; cases "pl_policy pl") (auto simp: decide_change_def p3_def)
  define av where "av = (case approval of Some a \<Rightarrow> approvalVal a | None \<Rightarrow> JNull)"
  define dh where "dh = mhSha256 (sha256 P) (utf8 (unifiedDiff (optOr (ce_before c) []) (ce_after c)))"
  define ch where "ch = JObj [(''kind'', JStr (ce_changeKind c)), (''ref'', JStr (ce_ref c)), (''environment'', JStr (ce_environment c)),
     (''before_hash'', bh), (''before_salt'', beforeSalt), (''after_hash'', JStr ah), (''after_salt'', JStr ?s1), (''diff_hash'', JStr dh),
     (''actor'', JObj [(''id'', JStr (ce_actor_id c)), (''method'', JStr (ce_actor_method c))]), (''approval'', av)]"
  define es where "es = [(''schema'', JStr ''cool.change.v2''), (''record_id'', JStr ?id), (''time'', time), (''change'', ch), (''runtime'', JObj (pl_runtime pl))]"
  have run: "changeCore P src c time pl = Inr (JObj es, p4)"
    using bh(1) d(1) ah(1) by (simp add: changeCore_def nextSalt_def nextId_def Let_def es_def ch_def beforeSalt_def av_def dh_def p3_def)
  have "hasShape SDigest (JStr dh)" using mhSha256_shape [OF P] by (simp add: dh_def)
  then have ch: "hasShape CHANGE ch"
    using c bh(2) ah(2) salt_shape [OF src] by (auto simp: CHANGE_def ch_def obj_simps readMember_Cons SText_iff text_shapes(2))
  have "core_ok P pl (JObj es)"
    using ch t runtime_shape [OF P pl(1), of JNull] src
    by (auto simp: core_ok_def es_def RECORD_def obj_simps readMember_Cons text_shapes(2) sources_ok_def pl(2) runtime_gpu_null
      runtime_reads [unfolded mem_JObj, of JNull, unfolded runtime_gpu_null])
  then show ?thesis using run d(2) by auto
qed

lemma coreFor_ok:
  assumes "sources_ok src" "plane_ok P pl" "event_ok P pl event"
  obtains core pl' where "coreFor P src event pl = Inr (core, pl')" "fixedPart pl' = fixedPart pl" "core_ok P pl core"
proof -
  define p1 where "p1 = pl\<lparr>pl_clocks := Suc (pl_clocks pl), pl_seqs := Suc (pl_seqs pl)\<rparr>"
  have f: "fixedPart p1 = fixedPart pl" by (simp add: p1_def)
  have pl: "digests32 P" "info_ok (pl_info p1)" "pl_runtime p1 = runtimeBlock P (pl_info p1) (pl_quote p1)" "event_ok P p1 event"
    using assms(2,3) by (cases event; simp add: plane_ok_def ml_ok_def p1_def)+
  have core: "core_ok P p1 = core_ok P pl" by (simp add: core_ok_def p1_def fun_eq_iff)
  have run: "coreFor P src event pl = (case event of Evidence e \<Rightarrow> evidenceCore P src e (timeVal src pl) p1 | Change c \<Rightarrow> changeCore P src c (timeVal src pl) p1)"
    by (cases event) (simp_all add: coreFor_def Let_def p1_def timeVal_def)
  show ?thesis
  proof (cases event)
    case (Evidence e)
    then show ?thesis using evidenceCore_ok [OF pl(1) assms(1) pl(2,3), of e] pl(4) time_shape [OF assms(1)] run f core that by fastforce
  next
    case (Change c)
    then show ?thesis using changeCore_ok [OF pl(1) assms(1) pl(2,3), of c] pl(4) time_shape [OF assms(1)] run f core that by fastforce
  qed
qed

section \<open>Sealing\<close>

lemma isMultihash_from: "multihashFromDigest d = Inr s \<Longrightarrow> hasShape SDigest (JStr s)"
  using toHex_lower [of d] by (auto simp: multihashFromDigest_def hasShape.simps(4) isMultihash_def MULTIHASH_PREFIX_def split: if_splits)

lemma audit_shapes: "ml_inclusionAuditPath P lg i = Some (Inr path) \<Longrightarrow> list_all (hasShape SDigest) (map JStr path)"
proof -
  have mapM: "mapM multihashFromDigest ds = Inr ms \<Longrightarrow> list_all (hasShape SDigest) (map JStr ms)" for ds ms
    by (induction ds arbitrary: ms) (auto simp: rbind_Inr_iff isMultihash_from)
  assume "ml_inclusionAuditPath P lg i = Some (Inr path)"
  then obtain p where "mapM multihashFromDigest p = Inr path" by (auto simp: ml_inclusionAuditPath_def auditPathOf_def runbind_ok_iff)
  then show ?thesis by (rule mapM)
qed

lemma root_shape: "ml_rootHash P lg = Some (Inr r) \<Longrightarrow> hasShape SDigest (JStr r)"
  using isMultihash_from by (auto simp: ml_rootHash_def rootOf_def runbind_ok_iff)

text \<open>The log's answer to one append: an index, a path and a head that belong together.\<close>

lemma append_verifies:
  assumes "ml_ok P lg" "ml_size lg < 2 ^ 30"
  obtains lg' path rt where "ml_append P leaf lg = (\<lparr>ar_leafIndex = ml_size lg, ar_treeSize = Suc (ml_size lg)\<rparr>, lg')" "ml_ok P lg'"
    "ml_size lg' = Suc (ml_size lg)" "ml_logId lg' = ml_logId lg" "ml_logKey lg' = ml_logKey lg"
    "ml_leafHashes lg' = ml_leafHashes lg @ [leafHash (sha256 P) leaf]"
    "ml_inclusionAuditPath P lg' (int (ml_size lg)) = Some (Inr path)" "ml_rootHash P lg' = Some (Inr rt)"
    "\<exists>ps r. mapM multihashDigest path = Inr ps \<and> multihashDigest rt = Inr r
       \<and> verifyInclusion (sha256 P) (leafHash (sha256 P) leaf) (int (ml_size lg)) (int (Suc (ml_size lg))) ps r"
proof -
  obtain res lg' where a: "ml_append P leaf lg = (res, lg')" by fastforce
  have res: "res = \<lparr>ar_leafIndex = ml_size lg, ar_treeSize = Suc (ml_size lg)\<rparr>" using ml.append_result [OF assms(1), of leaf] a by simp
  have f: "ml_size lg' = Suc (ml_size lg)" "ml_logId lg' = ml_logId lg" "ml_logKey lg' = ml_logKey lg"
    "ml_leafHashes lg' = ml_leafHashes lg @ [leafHash (sha256 P) leaf]"
    using a by (auto simp: ml_append_def ml_size_def Let_def)
  have ok: "ml_ok P lg'" using ml.append_ok [OF assms(1), of leaf] a by simp
  show ?thesis
    using ml.appended_leaf_verifies [OF assms(1), of lg "[]" leaf res lg' lg' "[]"] a res f ok assms(2) that by fastforce
qed

lemma signed_core: "''signature'' \<notin> fst ` set es \<Longrightarrow> signedRecordV2 (JObj es) s = JObj (es @ [(''signature'', sigVal s)])"
  by (simp add: signedRecordV2_def entriesOf_def mput_new)

lemma readMember_append: "f \<noteq> k \<Longrightarrow> readMember (es @ [(k, v)]) f = readMember es f" "k \<notin> fst ` set es \<Longrightarrow> readMember (es @ [(k, v)]) k = v"
  by (induction es; auto simp: readMember_Cons readMember_def [of "[]"])+

lemma receiptVal_fields [simp]:
  "mem (receiptVal rec b inc sth pl) ''record'' = rec" "mem (receiptVal rec b inc sth pl) ''binding_hash'' = JStr b"
  "mem (receiptVal rec b inc sth pl) ''inclusion'' = inc" "mem (receiptVal rec b inc sth pl) ''sth'' = sth"
  "mem (receiptVal rec b inc sth pl) ''attestation'' = pl_attestation pl" "mem (receiptVal rec b inc sth pl) ''anchor'' = JNull"
  "mem (receiptVal rec b inc sth pl) ''key_directory'' = JObj (pl_directory pl)"
  by (simp_all add: receiptVal_def readMember_Cons)

lemma attestationBlock_fields [simp]:
  "mem (attestationBlock info q e rd) ''quote'' = q" "mem (attestationBlock info q e rd) ''expected_measurement'' = (case e of Some m \<Rightarrow> m | None \<Rightarrow> JNull)"
  by (simp_all add: attestationBlock_def readMember_Cons)

lemma attestation_shape:
  assumes "digests32 P" "info_ok info" "quote_ok P info key q" "expected_ok info e"
  shows "hasShape (SFields [(''mode'', SOneOf MODES), (''note'', SText), (''key_binding'', SNullable SDigest), (''expected_measurement'', SNullable MEASUREMENT),
     (''quote'', SNullable QUOTE)]) (attestationBlock info q e (enclaveReportData P (keyVal (directoryEntry key))))"
proof -
  have "hasShape SDigest (JStr (enclaveReportData P (keyVal (directoryEntry key))))" using mhSha256_shape [OF assms(1)] by (simp add: enclaveReportData_def)
  moreover have "hasShape SText (JStr (attestationNote info))" by (simp add: SText_iff attestationNote_def)
  moreover have "hasShape (SNullable MEASUREMENT) (case e of Some m \<Rightarrow> m | None \<Rightarrow> JNull)" using assms(4) by (cases e) (simp_all add: expected_ok_def)
  ultimately show ?thesis
    using assms(2,3) by (simp add: attestationBlock_def obj_simps readMember_Cons text_shapes(2) info_ok_def quote_ok_def)
qed

lemma receipt_shape:
  assumes "plane_ok P pl" "core_ok P pl core" "hasShape SIGNATURE (sigVal sig)" "hasShape INCLUSION inc" "hasShape TREE_HEAD sth" "hasShape SDigest (JStr b)"
  shows "hasShape RECEIPT_V2 (receiptVal (signedRecordV2 core sig) b inc sth pl)"
proof -
  obtain es where es: "core = JObj es" "''signature'' \<notin> fst ` set es" "hasShape RECORD (JObj (es @ [(''signature'', sigVal sig)]))"
    using assms(2,3) unfolding core_ok_def by blast
  have "digests32 P" using assms(1) by (simp add: plane_ok_def ml_ok_def)
  then obtain e where e: "hasShape (SFields [(''mode'', SOneOf MODES), (''note'', SText), (''key_binding'', SNullable SDigest),
      (''expected_measurement'', SNullable MEASUREMENT), (''quote'', SNullable QUOTE)]) (pl_attestation pl)"
    using assms(1) attestation_shape unfolding plane_ok_def by metis
  have d: "hasShape (SDirectory ENTRY) (JObj (pl_directory pl))" using assms(1) by (simp only: plane_ok_def)
  show ?thesis
    using e d es assms(4-6) by (simp add: RECEIPT_V2_def receiptVal_def obj_simps readMember_Cons signed_core text_shapes(2) del: hasShape.simps(9))
qed

lemma key_lookup: "key_ok P dir key \<Longrightarrow> lookupKey (JObj dir) (keyId key) = Some (keyVal (directoryEntry key))"
  by (simp add: key_ok_def lookupKey_def readMember_def keyVal_def)

lemma sthOf_sthVal: "sthOf (sthVal s) = sthCore s" "mem (sthVal s) ''signature'' = sigVal (sth_signature s)" "mem (sthVal s) ''tree_size'' = jInt (tree_size s)"
  "mem (sthVal s) ''root_hash'' = JStr (root_hash s)" "mem (sthVal s) ''witnesses'' = JArr (map witnessVal (sth_witnesses s))" "jtruthy (sthVal s)"
  by (simp_all add: sthOf_def sthVal_def sthCore_def readMember_Cons strv_def intv_def jInt_def)

text \<open>What one call of \<^verbatim>\<open>seal\<close> makes.\<close>

definition inclusionVal :: "nat \<Rightarrow> nat \<Rightarrow> Multihash list \<Rightarrow> jsval" where
  "inclusionVal i n path = JObj [(''leaf_index'', jInt (int i)), (''tree_size'', jInt (int n)), (''audit_path'', JArr (map JStr path))]"

lemma seal_run:
  assumes "sources_ok src" "plane_ok P pl" "event_ok P pl event" "logSize pl < 2 ^ 30"
  obtains core message path rt leaf ts pl' r where
    "seal P src event pl = Some (Inr (r, pl'))"
    "r = receiptVal (signedRecordV2 core (hybridSign P message (ks_record (pl_keys pl')))) (bindingHashV2 P core) (inclusionVal (logSize pl) (logSize pl') path)
       (sthVal (signSTH P (ks_log (pl_keys pl')) \<lparr>log_id = ml_logId (pl_log pl'), tree_size = int (logSize pl'), root_hash = rt, sth_timestamp = ts\<rparr>)) pl'"
    "plane_ok P pl'" "logSize pl' = Suc (logSize pl)" "pl_info pl' = pl_info pl" "pl_quote pl' = pl_quote pl" "pl_directory pl' = pl_directory pl"
    "core_ok P pl' core"
    "recordSigningMessageV2 P core (bindingHashV2 P core) = Inr message" "recordLeafDataV2 (bindingHashV2 P core) = Inr leaf" "ts \<noteq> []"
    "list_all (hasShape SDigest) (map JStr path)" "hasShape SDigest (JStr rt)"
    "\<exists>ps d. mapM multihashDigest path = Inr ps \<and> multihashDigest rt = Inr d
       \<and> verifyInclusion (sha256 P) (leafHash (sha256 P) leaf) (int (logSize pl)) (int (logSize pl')) ps d"
    "ml_rootHash P (pl_log pl') = Some (Inr rt)" "ml_leafHashes (pl_log pl') = ml_leafHashes (pl_log pl) @ [leafHash (sha256 P) leaf]"
    "pl_keys pl' = pl_keys pl" "ml_logId (pl_log pl') = ml_logId (pl_log pl)"
proof -
  obtain core pl1 where c: "coreFor P src event pl = Inr (core, pl1)" "fixedPart pl1 = fixedPart pl" "core_ok P pl core"
    using coreFor_ok [OF assms(1-3)] .
  have f: "pl_info pl1 = pl_info pl" "pl_quote pl1 = pl_quote pl" "pl_directory pl1 = pl_directory pl" "pl_log pl1 = pl_log pl" "pl_keys pl1 = pl_keys pl" using fixedPart_fields [OF c(2)] by simp_all
  have pl1: "plane_ok P pl1" using plane_ok_fixed [OF c(2)] assms(2) by simp
  then have lg: "ml_ok P (pl_log pl1)" "digests32 P" by (simp_all add: plane_ok_def ml_ok_def)
  obtain message leaf where m: "recordSigningMessageV2 P core (bindingHashV2 P core) = Inr message" "recordLeafDataV2 (bindingHashV2 P core) = Inr leaf"
    using digest_shape [OF mhSha256_shape [OF lg(2), of "canonicalCbor P core"]]
    by (auto simp: recordSigningMessageV2_def recordLeafDataV2_def bindingHashV2_def)
  have "ml_size (pl_log pl1) < 2 ^ 30" using assms(4) f by (simp add: logSize_def)
  from append_verifies [OF lg(1) this, of leaf] obtain lg' path rt where a:
    "ml_append P leaf (pl_log pl1) = (\<lparr>ar_leafIndex = ml_size (pl_log pl1), ar_treeSize = Suc (ml_size (pl_log pl1))\<rparr>, lg')" "ml_ok P lg'"
    "ml_size lg' = Suc (ml_size (pl_log pl1))" "ml_logId lg' = ml_logId (pl_log pl1)" "ml_logKey lg' = ml_logKey (pl_log pl1)"
    "ml_leafHashes lg' = ml_leafHashes (pl_log pl1) @ [leafHash (sha256 P) leaf]"
    "ml_inclusionAuditPath P lg' (int (ml_size (pl_log pl1))) = Some (Inr path)" "ml_rootHash P lg' = Some (Inr rt)"
    "\<exists>ps r. mapM multihashDigest path = Inr ps \<and> multihashDigest rt = Inr r
       \<and> verifyInclusion (sha256 P) (leafHash (sha256 P) leaf) (int (ml_size (pl_log pl1))) (int (Suc (ml_size (pl_log pl1)))) ps r" .
  define ts where "ts = src_clock src (pl_clocks pl1)"
  define pl' where "pl' = pl1\<lparr>pl_log := lg', pl_clocks := Suc (pl_clocks pl1)\<rparr>"
  have pl': "plane_ok P pl'" using pl1 a(2,4,5) by (simp add: plane_ok_def pl'_def)
  have key: "ml_logKey lg' = ks_log (pl_keys pl')" using pl1 a(5) by (simp add: plane_ok_def pl'_def)
  have sz: "logSize pl' = Suc (logSize pl)" "length (ml_leaves lg') = logSize pl'" using a(3) f by (simp_all add: logSize_def pl'_def ml_size_def)
  define sth where "sth = signSTH P (ks_log (pl_keys pl')) \<lparr>log_id = ml_logId (pl_log pl'), tree_size = int (logSize pl'), root_hash = rt, sth_timestamp = ts\<rparr>"
  have cur: "currentSTH P src (pl1\<lparr>pl_log := lg'\<rparr>) = Some (Inr (sth, pl'))"
    using a(8) key sz(2) by (simp add: currentSTH_def ml_buildSTH_def pl'_def ts_def sth_def)
  have ts: "tree_size sth = int (logSize pl')" by (simp add: sth_def signSTH_def Let_def)
  have run: "seal P src event pl = Some (Inr (receiptVal (signedRecordV2 core (hybridSign P message (ks_record (pl_keys pl')))) (bindingHashV2 P core)
      (inclusionVal (logSize pl) (logSize pl') path) (sthVal sth) pl', pl'))"
    using a(1,7) f by (simp add: seal_def c(1) m cur Let_def ts inclusionVal_def logSize_def pl'_def)
  show ?thesis
  proof (rule that [OF run _ pl' sz(1), of core message path rt ts leaf])
    show "core_ok P pl' core" using c(3) f by (simp add: core_ok_def pl'_def)
    show "ts \<noteq> []" using assms(1) by (simp add: ts_def sources_ok_def)
    show "list_all (hasShape SDigest) (map JStr path)" using audit_shapes [OF a(7)] .
    show "hasShape SDigest (JStr rt)" using root_shape [OF a(8)] .
    show "\<exists>ps d. mapM multihashDigest path = Inr ps \<and> multihashDigest rt = Inr d
       \<and> verifyInclusion (sha256 P) (leafHash (sha256 P) leaf) (int (logSize pl)) (int (logSize pl')) ps d" using a(9) sz(1) f by (simp add: logSize_def)
  qed (simp_all add: m sth_def pl'_def f a)
qed

section \<open>Sealed receipts verify\<close>

lemma mapM_strv: "mapM (\<lambda>h. multihashDigest (strv h)) (map JStr path) = mapM multihashDigest path"
  by (induction path) (simp_all add: strv_JStr)

lemma no_external: "countExternal P d m (map witnessVal (sth_witnesses (signSTH Q k c))) 0 = Inr 0"
  by (simp add: signSTH_def Let_def witnessVal_def readMember_Cons jtruthy_def)

lemma attestation_unverified:
  "va_quoteVerifier opts = None \<Longrightarrow> \<exists>a. verifyAttestationDomain P r opts = Inr a \<and> a \<noteq> DPass"
  by (auto simp: verifyAttestationDomain_def checkQuoteStructure_def simulatedQuoteVerifier_def Let_def rbind_def split: option.splits)

lemma quote_truthy: "quote_ok P info key q \<Longrightarrow> jtruthy q"
  using jtruthy_fields by (auto simp: quote_ok_def QUOTE_def)

lemma measurement_truthy: "info_ok info \<Longrightarrow> jtruthy (ei_measurement info)"
  using jtruthy_fields by (auto simp: info_ok_def MEASUREMENT_def)

lemma enclave_sealed:
  assumes "plane_ok P pl" "core_ok P pl core" "expected_ok (pl_info pl) (va_expectedMeasurement opts)" "a \<noteq> DPass"
  shows "verifyEnclaveDomain P (receiptVal (signedRecordV2 core sig) b inc sth pl) (Some (keyVal (directoryEntry (ks_record (pl_keys pl))))) opts a
    = (if va_requireHardware opts then DFail else if a = DSimulated then DSimulated else DPass)"
proof -
  obtain es where es: "core = JObj es" "''signature'' \<notin> fst ` set es" "mem (mem core ''runtime'') ''tee_quote'' = JStr (quoteDigest P (pl_quote pl))"
    "mem (mem core ''runtime'') ''enclave_measurement'' = ei_measurement (pl_info pl)" using assms(2) unfolding core_ok_def by blast
  obtain e where pl: "info_ok (pl_info pl)" "quote_ok P (pl_info pl) (ks_record (pl_keys pl)) (pl_quote pl)" "expected_ok (pl_info pl) e"
    "pl_attestation pl = attestationBlock (pl_info pl) (pl_quote pl) e (enclaveReportData P (keyVal (directoryEntry (ks_record (pl_keys pl)))))"
    using assms(1) unfolding plane_ok_def by blast
  have rt: "mem (mem (signedRecordV2 core sig) ''runtime'') f = mem (mem core ''runtime'') f" for f
    by (simp add: es(1) signed_core [OF es(2)] readMember_append)
  have pin: "\<not> (jtruthy p \<and> \<not> measurementEquals p (ei_measurement (pl_info pl)))"
    if "p = (case va_expectedMeasurement opts of Some p \<Rightarrow> p
       | None \<Rightarrow> mem (mem (receiptVal (signedRecordV2 core sig) b inc sth pl) ''attestation'') ''expected_measurement'')" for p
    using that assms(3) pl(3,4) by (auto simp: expected_ok_def split: option.splits)
  have refl: "measurementEquals m m" for m by (simp add: measurementEquals_def)
  have "quoteDigest P (pl_quote pl) \<noteq> []" by (simp add: quoteDigest_def mhSha256_def MULTIHASH_PREFIX_def)
  then show ?thesis
    using pin [OF HOL.refl] assms(4) quote_truthy [OF pl(2)] measurement_truthy [OF pl(1)] pl(2) es(3,4)
    by (simp add: verifyEnclaveDomain_def Let_def rt pl(4) quote_ok_def refl) blast
qed

text \<open>How a sealed receipt verifies when no quote verifier is configured, for any status \<open>a\<close> of the attestation domain.\<close>

definition sealed_checks :: "env \<Rightarrow> EnclaveInfo \<Rightarrow> jsval \<Rightarrow> bool" where
  "sealed_checks P info r = (\<forall>opts a. va_quoteVerifier opts = None \<longrightarrow> expected_ok info (va_expectedMeasurement opts)
     \<longrightarrow> verifyAttestationDomain P r opts = Inr a
     \<longrightarrow> (\<exists>v. verifyReceiptV2 P r opts = Some (Inr v)
         \<and> verdict_checks v = \<lparr>d_binding = DPass, d_signature = DPass, d_inclusion = DPass, d_witnesses = DAbsent, d_attestation = a,
              d_enclave = (if va_requireHardware opts then DFail else if a = DSimulated then DSimulated else DPass), d_anchor = DAbsent\<rparr>
         \<and> verdict_ok v = (a \<noteq> DFail \<and> \<not> va_requireHardware opts \<and> va_witnessThreshold opts \<le> 0)))"

lemma sealed_checksD:
  "sealed_checks P info r \<Longrightarrow> va_quoteVerifier opts = None \<Longrightarrow> expected_ok info (va_expectedMeasurement opts) \<Longrightarrow> verifyAttestationDomain P r opts = Inr a
    \<Longrightarrow> \<exists>v. verifyReceiptV2 P r opts = Some (Inr v)
         \<and> verdict_checks v = \<lparr>d_binding = DPass, d_signature = DPass, d_inclusion = DPass, d_witnesses = DAbsent, d_attestation = a,
              d_enclave = (if va_requireHardware opts then DFail else if a = DSimulated then DSimulated else DPass), d_anchor = DAbsent\<rparr>
         \<and> verdict_ok v = (a \<noteq> DFail \<and> \<not> va_requireHardware opts \<and> va_witnessThreshold opts \<le> 0)"
  by (simp add: sealed_checks_def)

lemma sealed_verdict:
  assumes "signs P" "sources_ok src" "plane_ok P pl" "event_ok P pl event" "logSize pl < 2 ^ 30"
  obtains r pl' where "seal P src event pl = Some (Inr (r, pl'))" "plane_ok P pl'" "logSize pl' = Suc (logSize pl)"
    "pl_info pl' = pl_info pl" "pl_quote pl' = pl_quote pl" "pl_directory pl' = pl_directory pl"
    "mem (mem r ''attestation'') ''quote'' = pl_quote pl" "mem r ''key_directory'' = JObj (pl_directory pl)"
    "sealed_checks P (pl_info pl) r"
proof -
  obtain core message path rt leaf ts pl' r where s:
    "seal P src event pl = Some (Inr (r, pl'))"
    "r = receiptVal (signedRecordV2 core (hybridSign P message (ks_record (pl_keys pl')))) (bindingHashV2 P core) (inclusionVal (logSize pl) (logSize pl') path)
       (sthVal (signSTH P (ks_log (pl_keys pl')) \<lparr>log_id = ml_logId (pl_log pl'), tree_size = int (logSize pl'), root_hash = rt, sth_timestamp = ts\<rparr>)) pl'"
    "plane_ok P pl'" "logSize pl' = Suc (logSize pl)" "pl_info pl' = pl_info pl" "pl_quote pl' = pl_quote pl" "pl_directory pl' = pl_directory pl"
    "core_ok P pl' core"
    "recordSigningMessageV2 P core (bindingHashV2 P core) = Inr message" "recordLeafDataV2 (bindingHashV2 P core) = Inr leaf" "ts \<noteq> []"
    "list_all (hasShape SDigest) (map JStr path)" "hasShape SDigest (JStr rt)"
    "\<exists>ps d. mapM multihashDigest path = Inr ps \<and> multihashDigest rt = Inr d
       \<and> verifyInclusion (sha256 P) (leafHash (sha256 P) leaf) (int (logSize pl)) (int (logSize pl')) ps d"
    using seal_run [OF assms(2-5)] by metis
  let ?rk = "ks_record (pl_keys pl')" and ?lk = "ks_log (pl_keys pl')"
  define sth where "sth = signSTH P ?lk \<lparr>log_id = ml_logId (pl_log pl'), tree_size = int (logSize pl'), root_hash = rt, sth_timestamp = ts\<rparr>"
  define rec where "rec = signedRecordV2 core (hybridSign P message ?rk)"
  define inc where "inc = inclusionVal (logSize pl) (logSize pl') path"
  have r: "r = receiptVal rec (bindingHashV2 P core) inc (sthVal sth) pl'" using s(2) by (simp add: rec_def inc_def sth_def)
  have keys: "key_ok P (pl_directory pl') ?rk" "key_ok P (pl_directory pl') ?lk" and lid: "ml_logId (pl_log pl') \<noteq> []" and P: "digests32 P"
    using s(3) by (simp_all add: plane_ok_def ml_ok_def)
  then have ids: "keyId ?rk \<noteq> []" "keyId ?lk \<noteq> []" "generated P ?rk" "generated P ?lk" by (simp_all add: key_ok_def)
  obtain es where es: "core = JObj es" "''signature'' \<notin> fst ` set es" using s(8) unfolding core_ok_def by blast
  have rec: "coreOfV2 rec = core" "mem rec ''signature'' = sigVal (hybridSign P message ?rk)"
    using core_signedRecord [of core es] es by (simp_all add: rec_def entriesOf_def signed_core readMember_append)
  have sth: "tree_size sth = int (logSize pl')" "root_hash sth = rt" "sth_signature sth = hybridSign P (sthSigningMessage P (sthCore sth)) ?lk"
    "log_id sth \<noteq> []" "sth_timestamp sth \<noteq> []" using lid s(11) by (simp_all add: sth_def signSTH_def Let_def sthCore_def)
  have inc: "mem inc ''leaf_index'' = jInt (int (logSize pl))" "mem inc ''tree_size'' = jInt (int (logSize pl'))" "mem inc ''audit_path'' = JArr (map JStr path)" "jtruthy inc"
    by (simp_all add: inc_def inclusionVal_def readMember_Cons)
  have ints: "intv (jInt i) = i" for i by (simp add: intv_def jInt_def)
  have shape: "hasShape RECEIPT_V2 r"
  proof -
    have "hasShape (SInt 0) (jInt (int (logSize pl)))" "hasShape (SInt 1) (jInt (int (logSize pl')))" using s(4) by (auto simp: hasShape.simps(6))
    then have "hasShape INCLUSION inc" "hasShape TREE_HEAD (sthVal sth)"
      using s(12,13) sth shape_sigVal [OF ids(2)]
      by (simp_all add: INCLUSION_def TREE_HEAD_def inc_def inclusionVal_def sthVal_def obj_simps readMember_Cons SText_iff hasShape.simps(7) list_all_iff)
    then show ?thesis
      using receipt_shape [OF s(3,8) shape_sigVal [OF ids(1)]] mhSha256_shape [OF P] by (simp add: r rec_def bindingHashV2_def)
  qed
  have look: "lookupKey (mem r ''key_directory'') (strv (mem (mem (mem r ''record'') ''signature'') ''key_id'')) = Some (keyVal (directoryEntry ?rk))"
    using key_lookup [OF keys(1)] by (simp add: r rec(2)) (simp add: sigVal_def readMember_Cons strv_JStr)
  have signature: "signatureDomain P r (Some (keyVal (directoryEntry ?rk))) = Inr DPass"
    using s(9) hybridVerify_hybridSign [OF assms(1) ids(3)] by (simp add: signatureDomain_def r rec strv_JStr)
  have "inclusionVerifies P r"
    using s(10,14) by (auto simp: inclusionVerifies_def r strv_JStr inc arrv_def mapM_strv sthOf_sthVal sth ints catching_def)
  then have inclusion: "verifyInclusionDomain P r = DPass"
    using key_lookup [OF keys(2)] hybridVerify_hybridSign [OF assms(1) ids(4)] s(4)
    by (simp add: verifyInclusionDomain_def Let_def r inc sthOf_sthVal sth ints)
  have witnesses: "verifyWitnessesDomain P r t = Inr DAbsent" for t
    using no_external by (simp add: verifyWitnessesDomain_def Let_def r sthOf_sthVal arrv_def sth_def)
  have anchor: "verifyAnchorDomain P r opts = Some (Inr DAbsent)" for opts by (simp add: verifyAnchorDomain_def r Let_def)
  have quote: "mem (mem r ''attestation'') ''quote'' = pl_quote pl" using s(3,6) by (auto simp: plane_ok_def r)
  have "sealed_checks P (pl_info pl) r"
    unfolding sealed_checks_def
  proof (intro allI impI)
    fix opts a assume o: "va_quoteVerifier opts = None" "expected_ok (pl_info pl) (va_expectedMeasurement opts)" "verifyAttestationDomain P r opts = Inr a"
    have "a \<noteq> DPass" using attestation_unverified [OF o(1), of P r] o(3) by auto
    then have enclave: "verifyEnclaveDomain P r (Some (keyVal (directoryEntry ?rk))) opts a = (if va_requireHardware opts then DFail else if a = DSimulated then DSimulated else DPass)"
      unfolding r rec_def using enclave_sealed [OF s(3,8)] o(2) s(5) by simp
    show "\<exists>v. verifyReceiptV2 P r opts = Some (Inr v)
         \<and> verdict_checks v = \<lparr>d_binding = DPass, d_signature = DPass, d_inclusion = DPass, d_witnesses = DAbsent, d_attestation = a,
              d_enclave = (if va_requireHardware opts then DFail else if a = DSimulated then DSimulated else DPass), d_anchor = DAbsent\<rparr>
         \<and> verdict_ok v = (a \<noteq> DFail \<and> \<not> va_requireHardware opts \<and> va_witnessThreshold opts \<le> 0)"
      using shape look signature inclusion witnesses anchor enclave o(3) \<open>a \<noteq> DPass\<close>
      by (simp add: verifyReceiptV2_def validateReceiptV2Shape_def shapeErrors_iff Let_def) (auto simp: r rec strv_JStr)
  qed
  then show ?thesis using that [OF s(1,3-7) quote] s(7) by (simp add: r)
qed

section \<open>Booting on the simulator\<close>

text \<open>A SHA-384 digest has 48 bytes.\<close>

definition digests48 :: "env \<Rightarrow> bool" where
  "digests48 P = (\<forall>x. length (sha384 P x) = 48)"

definition simulated_plane :: "env \<Rightarrow> Plane \<Rightarrow> bool" where
  "simulated_plane P pl = (mem (pl_quote pl) ''root'' = JStr ''cool-sim-root'' \<and> jtruthy (pl_quote pl) \<and> checkQuoteStructure P (pl_quote pl) = None
     \<and> (\<exists>q. simulatedQuoteVerifier P (JObj (pl_directory pl)) (pl_quote pl) = Inr q \<and> qv_ok q))"

lemma toHexField_shapes: "b \<noteq> [] \<Longrightarrow> hasShape SHex (JStr (toHexField b))" "length b = 48 \<Longrightarrow> isHex32 (toHexField b)"
  using toHex_lower [of b] by (auto simp: hasShape.simps(4) toHexField_def HEX_FIELD_PREFIX_def isHex32_def)

lemma reg_shapes: "digests48 P \<Longrightarrow> hasShape SHex (JStr (reg P parts)) \<and> isHex32 (reg P parts)"
proof -
  assume "digests48 P"
  then have l: "length (sha384 P x) = 48" for x by (simp add: digests48_def)
  then have "sha384 P x \<noteq> []" for x by (metis list.size(3) zero_neq_numeral)
  then show ?thesis using toHexField_shapes l by (simp add: reg_def)
qed

lemma sim_measurement_shape:
  assumes "digests48 P"
  shows "hasShape MEASUREMENT (sim_measurement P c)"
    "\<exists>es. entriesOf (sim_measurement P c) = Some es \<and> list_all (\<lambda>(name, value). isHex32 (asText P value)) es"
  using reg_shapes [OF assms]
  by (simp_all add: MEASUREMENT_def sim_measurement_def Let_def measurementVal_def obj_simps readMember_Cons entriesOf_def asText_def)

lemma newSim_fields:
  assumes "digests32 P" "newSimClient P opts = Inr c"
  shows "sc_options c = opts" "sc_appId c \<noteq> []" "so_instanceId opts \<noteq> Some [] \<Longrightarrow> sc_instanceId c \<noteq> []" "generated P (sc_rootKey c)"
    "keyId (sc_rootKey c) = SIM_ROOT_KEY_ID"
proof -
  obtain seed where k: "generateKeypair P [] SIM_ROOT_KEY_ID (Some seed) = Inr (sc_rootKey c)"
    using assms(2) by (auto simp: newSimClient_def Let_def rbind_Inr_iff)
  show i: "keyId (sc_rootKey c) = SIM_ROOT_KEY_ID" using k by (cases "sc_rootKey c") (auto simp: generateKeypair_def rbind_Inr_iff Let_def case_prod_beta)
  show "generated P (sc_rootKey c)" using k unfolding generated_def i by blast
  show "sc_options c = opts" using assms(2) by (auto simp: newSimClient_def Let_def rbind_Inr_iff)
  have hex: "\<not> length (toHexField (sha256 P x)) \<le> 4" for x
    using assms(1) by (simp add: toHexField_def HEX_FIELD_PREFIX_def digests32_def)
  then show "sc_appId c \<noteq> []" using assms(2) by (auto simp: newSimClient_def Let_def rbind_Inr_iff)
  show "sc_instanceId c \<noteq> []" if "so_instanceId opts \<noteq> Some []"
    using assms(2) that hex by (auto simp: newSimClient_def Let_def rbind_Inr_iff optOr_def split: option.splits)
qed

lemma sealedKeypair_sim:
  assumes "digests32 P"
  shows "\<exists>k. sealedKeypair P (simClient P c now) path None role = Inr k \<and> generated P k
    \<and> keyId k = ''cool-'' @ role @ ''-'' @ shortMeasurement (sim_measurement P c) 10"
proof -
  have l: "length (sim_deriveKey P c path) = 32" using assms by (simp add: sim_deriveKey_def Let_def digests32_def)
  obtain k where k: "generateKeypair P [] (''cool-'' @ role @ ''-'' @ shortMeasurement (sim_measurement P c) 10) (Some (sim_deriveKey P c path)) = Inr k"
    "keyId k = ''cool-'' @ role @ ''-'' @ shortMeasurement (sim_measurement P c) 10"
    using l by (simp add: generateKeypair_def ML_DSA_SEED_BYTES_def Let_def case_prod_beta)
  then have "generated P k" unfolding generated_def by metis
  then show ?thesis using k l by (simp add: sealedKeypair_def simClient_def sim_info_def Let_def)
qed

lemma sim_quote:
  assumes "digests32 P" "digests48 P" "signs P" "newSimClient P opts = Inr c" "optOr (so_vendor opts) ''intel-tdx'' \<in> set TEE_VENDORS"
    "so_instanceId opts \<noteq> Some []" "now \<noteq> []" "hasShape SDigest (JStr rd)"
    "map_of dir SIM_ROOT_KEY_ID = Some (keyVal (directoryEntry (sc_rootKey c)))"
  shows "hasShape QUOTE (sim_getQuote P c now rd)" "checkQuoteStructure P (sim_getQuote P c now rd) = None"
    "\<exists>q. simulatedQuoteVerifier P (JObj dir) (sim_getQuote P c now rd) = Inr q \<and> qv_ok q"
proof -
  note n = newSim_fields [OF assms(1,4)]
  define body where "body = quoteBody (sim_info P c) rd (JStr (ei_tcbStatus (sim_info P c))) now"
  define sig where "sig = signSimulatedQuote P body (sc_rootKey c)"
  have q: "sim_getQuote P c now rd = quoteVal ''cool.sim.v1'' ''cool-sim-root'' body (sigVal sig) JNull"
    by (simp add: sim_getQuote_def Let_def body_def sig_def)
  have sig: "hasShape SIGNATURE (sigVal sig)" "sig_key_id sig = SIM_ROOT_KEY_ID"
    using shape_sigVal [of "sc_rootKey c"] n(5) by (simp_all add: sig_def signSimulatedQuote_def SIM_ROOT_KEY_ID_def)
  have m: "mem body ''measurement'' = sim_measurement P c" "mem body ''report_data'' = JStr rd" by (simp_all add: body_def sim_info_def Let_def)
  have "hasShape (SFields [(''vendor'', SOneOf TEE_VENDORS), (''measurement'', MEASUREMENT), (''report_data'', SDigest), (''tcb_status'', SText),
        (''app_id'', SText), (''instance_id'', SText), (''issued_at'', SText)]) body"
    using sim_measurement_shape(1) [OF assms(2)] n(1,2,3) assms(5-8)
    by (simp add: body_def quoteBody_def sim_info_def Let_def obj_simps readMember_Cons SText_iff text_shapes(2))
  then show "hasShape QUOTE (sim_getQuote P c now rd)"
    using sig(1) by (simp add: q quoteVal_def QUOTE_def obj_simps readMember_Cons text_shapes(2))
  have "isMultihash rd" using assms(8) by (simp add: hasShape.simps(4))
  then show "checkQuoteStructure P (sim_getQuote P c now rd) = None"
    using sim_measurement_shape(2) [OF assms(2), of c] by (auto simp: checkQuoteStructure_def q m Let_def asText_def)
  have "lookupKey (JObj dir) SIM_ROOT_KEY_ID = Some (keyVal (directoryEntry (sc_rootKey c)))"
    using assms(9) by (simp add: lookupKey_def readMember_def keyVal_def)
  then show "\<exists>q. simulatedQuoteVerifier P (JObj dir) (sim_getQuote P c now rd) = Inr q \<and> qv_ok q"
    using hybridVerify_hybridSign [OF assms(3) n(4)] sig(2)
    by (simp add: simulatedQuoteVerifier_def q Let_def) (simp add: sigVal_def sig_def signSimulatedQuote_def)
qed

lemma start_sim:
  assumes "digests32 P" "digests48 P" "signs P" "newSimClient P opts = Inr c" "optOr (so_vendor opts) ''intel-tdx'' \<in> set TEE_VENDORS"
    "so_instanceId opts \<noteq> Some []" "now \<noteq> []" "logId \<noteq> []" "expected_ok (sim_info P c) expected"
  shows "\<exists>pl. start P (simClient P c now) logId expected policy = Inr pl \<and> plane_ok P pl \<and> simulated_plane P pl \<and> logSize pl = 0
    \<and> pl_info pl = sim_info P c"
proof -
  note n = newSim_fields [OF assms(1,4)]
  let ?cl = "simClient P c now" and ?sm = "shortMeasurement (sim_measurement P c) 10"
  obtain rk where rk: "sealedKeypair P ?cl KEY_PATH_record None ''enclave'' = Inr rk" "generated P rk" "keyId rk = ''cool-'' @ ''enclave'' @ ''-'' @ ?sm"
    using sealedKeypair_sim [OF assms(1)] by blast
  obtain lk where lk: "sealedKeypair P ?cl KEY_PATH_log None ''log'' = Inr lk" "generated P lk" "keyId lk = ''cool-'' @ ''log'' @ ''-'' @ ?sm"
    using sealedKeypair_sim [OF assms(1)] by blast
  define keys where "keys = \<lparr>ks_record = rk, ks_log = lk\<rparr>"
  define rd where "rd = enclaveReportData P (keyVal (directoryEntry rk))"
  define quote where "quote = sim_getQuote P c now rd"
  define dir where "dir = directoryOf keys (dc_directory ?cl)"
  have dir: "dir = [(keyId rk, keyVal (directoryEntry rk)), (keyId lk, keyVal (directoryEntry lk)), (SIM_ROOT_KEY_ID, keyVal (directoryEntry (sc_rootKey c)))]"
    by (simp add: dir_def directoryOf_def keys_def mergeDirectories_def simClient_def rk(3) lk(3) n(5) SIM_ROOT_KEY_ID_def)
  have keysOk: "key_ok P dir rk" "key_ok P dir lk" "map_of dir SIM_ROOT_KEY_ID = Some (keyVal (directoryEntry (sc_rootKey c)))"
    using rk lk by (simp_all add: key_ok_def dir SIM_ROOT_KEY_ID_def)
  have dshape: "hasShape (SDirectory ENTRY) (JObj dir)"
    using shape_keyVal [OF rk(2)] shape_keyVal [OF lk(2)] shape_keyVal [OF n(4)] by (simp add: dir entriesOf_def)
  have "hasShape SDigest (JStr rd)" using mhSha256_shape [OF assms(1)] by (simp add: rd_def enclaveReportData_def)
  note q = sim_quote [OF assms(1-7) this keysOk(3), folded quote_def]
  have qf: "mem (mem quote ''body'') ''measurement'' = sim_measurement P c" "mem (mem quote ''body'') ''report_data'' = JStr rd"
    "mem quote ''root'' = JStr ''cool-sim-root''" "jtruthy quote"
    by (simp_all add: quote_def sim_getQuote_def Let_def sim_info_def)
  have info: "info_ok (sim_info P c)" using assms(5) sim_measurement_shape(1) [OF assms(2)] n(1) by (simp add: info_ok_def sim_info_def Let_def MODES_def)
  define pl where "pl = \<lparr>pl_info = sim_info P c, pl_keys = keys, pl_quote = quote, pl_attestation = attestationBlock (sim_info P c) quote expected rd,
         pl_runtime = runtimeBlock P (sim_info P c) quote, pl_directory = dir,
         pl_log = newMemoryLog logId lk, pl_policy = policy, pl_lastOutcome = None, pl_clocks = 0, pl_ids = 0, pl_salts = 0, pl_seqs = 0\<rparr>"
  have run: "start P ?cl logId expected policy = Inr pl"
    using rk(1) lk(1) by (simp add: start_def sealedKeyset_def pl_def keys_def dir_def rd_def quote_def) (simp add: simClient_def Let_def)
  have quoteOk: "quote_ok P (sim_info P c) rk quote" using q(1) qf by (simp add: quote_ok_def rd_def sim_info_def Let_def)
  have "plane_ok P pl"
    unfolding plane_ok_def
    using newMemoryLog_ok [OF assms(1), of logId lk] assms(8,9) keysOk dshape info quoteOk
    by (simp add: pl_def keys_def rd_def newMemoryLog_def del: hasShape.simps(9)) blast
  moreover have "simulated_plane P pl" using q(2,3) qf(3,4) by (simp add: simulated_plane_def pl_def)
  ultimately show ?thesis using run by (auto simp: pl_def logSize_def ml_size_def newMemoryLog_def)
qed

lemma attestation_simulated:
  "simulated_plane P pl \<Longrightarrow> va_quoteVerifier opts = None \<Longrightarrow> mem (mem r ''attestation'') ''quote'' = pl_quote pl \<Longrightarrow> mem r ''key_directory'' = JObj (pl_directory pl)
    \<Longrightarrow> verifyAttestationDomain P r opts = Inr DSimulated"
  by (auto simp: verifyAttestationDomain_def simulated_plane_def Let_def)

section \<open>Planes in use\<close>

text \<open>A plane after some calls of \<^verbatim>\<open>seal\<close> and \<^verbatim>\<open>currentSTH\<close>, with the receipts it gave out, oldest first.\<close>

inductive uses :: "env \<Rightarrow> Sources \<Rightarrow> Plane \<Rightarrow> jsval list \<Rightarrow> Plane \<Rightarrow> bool" for P src pl0 where
  booted: "uses P src pl0 [] pl0"
| sealed: "uses P src pl0 rs pl \<Longrightarrow> event_ok P pl event \<Longrightarrow> seal P src event pl = Some (Inr (r, pl')) \<Longrightarrow> uses P src pl0 (rs @ [r]) pl'"
| head: "uses P src pl0 rs pl \<Longrightarrow> currentSTH P src pl = Some (Inr (sth, pl')) \<Longrightarrow> uses P src pl0 rs pl'"

definition checksFor :: "bool \<Rightarrow> VerdictChecksV2" where
  "checksFor requireHardware = \<lparr>d_binding = DPass, d_signature = DPass, d_inclusion = DPass, d_witnesses = DAbsent, d_attestation = DSimulated,
     d_enclave = (if requireHardware then DFail else DSimulated), d_anchor = DAbsent\<rparr>"

lemma currentSTH_fixed: "currentSTH P src pl = Some (Inr (sth, pl')) \<Longrightarrow> fixedPart pl' = fixedPart pl"
  by (auto simp: currentSTH_def runbind_ok_iff)

lemma simulated_fixed: "pl_quote a = pl_quote b \<Longrightarrow> pl_directory a = pl_directory b \<Longrightarrow> simulated_plane P a = simulated_plane P b"
  by (simp add: simulated_plane_def)

lemma uses_invariant:
  assumes "uses P src pl0 rs pl" "signs P" "sources_ok src" "plane_ok P pl0" "simulated_plane P pl0" "logSize pl0 + length rs \<le> 2 ^ 30"
  shows "plane_ok P pl \<and> simulated_plane P pl \<and> pl_info pl = pl_info pl0 \<and> logSize pl = logSize pl0 + length rs
    \<and> (\<forall>r\<in>set rs. \<forall>opts. va_quoteVerifier opts = None \<longrightarrow> expected_ok (pl_info pl0) (va_expectedMeasurement opts)
        \<longrightarrow> (\<exists>v. verifyReceiptV2 P r opts = Some (Inr v) \<and> verdict_checks v = checksFor (va_requireHardware opts)
             \<and> verdict_ok v = (\<not> va_requireHardware opts \<and> va_witnessThreshold opts \<le> 0)))"
  using assms(1,6)
proof (induction rule: uses.induct)
  case booted
  then show ?case using assms(4,5) by simp
next
  case (sealed rs pl event r pl')
  then have IH: "plane_ok P pl" "simulated_plane P pl" "pl_info pl = pl_info pl0" "logSize pl = logSize pl0 + length rs" "logSize pl < 2 ^ 30" by auto
  from sealed_verdict [OF assms(2,3) IH(1) sealed(2) IH(5)] obtain r1 pl1 where s: "seal P src event pl = Some (Inr (r1, pl1))" "plane_ok P pl1" "logSize pl1 = Suc (logSize pl)"
    "pl_info pl1 = pl_info pl" "pl_quote pl1 = pl_quote pl" "pl_directory pl1 = pl_directory pl"
    "mem (mem r1 ''attestation'') ''quote'' = pl_quote pl" "mem r1 ''key_directory'' = JObj (pl_directory pl)"
    "sealed_checks P (pl_info pl) r1"
    by metis
  have eq: "r1 = r" "pl1 = pl'" using s(1) sealed(3) by auto
  have "\<exists>v. verifyReceiptV2 P r opts = Some (Inr v) \<and> verdict_checks v = checksFor (va_requireHardware opts)
       \<and> verdict_ok v = (\<not> va_requireHardware opts \<and> va_witnessThreshold opts \<le> 0)"
    if "va_quoteVerifier opts = None" "expected_ok (pl_info pl0) (va_expectedMeasurement opts)" for opts
    using sealed_checksD [OF s(9) that(1) _ attestation_simulated [OF IH(2) that(1) s(7,8)]] that(2) IH(3) eq by (auto simp: checksFor_def)
  moreover have "simulated_plane P pl'" using simulated_fixed [OF s(5,6)] IH(2) eq by simp
  ultimately show ?case using sealed.IH sealed.prems s(2-4) IH eq by auto
next
  case (head rs pl sth pl')
  have f: "fixedPart pl' = fixedPart pl" using currentSTH_fixed [OF head(2)] .
  then show ?case
    using head fixedPart_fields [OF f] plane_ok_fixed [OF f] simulated_fixed [of pl' pl] by (auto simp: logSize_def)
qed

section \<open>Properties\<close>

text \<open>
  \<^bold>\<open>C23.\<close> Sealing succeeds and what it makes verifies: on a well-formed plane, \<^verbatim>\<open>seal\<close> of any well-formed event returns a receipt and
  leaves a well-formed plane with one more log entry; verified offline without a quote verifier, the binding hash, the hybrid
  signature, the log inclusion and the enclave binding of the receipt hold, and the verdict is ok unless the quote itself fails.
\<close>

theorem sealed_receipt_verifies:
  assumes "signs P" "sources_ok src" "plane_ok P pl" "event_ok P pl event" "logSize pl < 2 ^ 30"
    and "va_quoteVerifier opts = None" "va_requireHardware opts = False" "va_witnessThreshold opts = 0" "va_expectedMeasurement opts = None"
  shows "\<exists>r pl' v. seal P src event pl = Some (Inr (r, pl')) \<and> plane_ok P pl' \<and> logSize pl' = Suc (logSize pl)
    \<and> verifyReceiptV2 P r opts = Some (Inr v) \<and> d_binding (verdict_checks v) = DPass \<and> d_signature (verdict_checks v) = DPass
    \<and> d_inclusion (verdict_checks v) = DPass \<and> d_enclave (verdict_checks v) \<in> {DPass, DSimulated}
    \<and> verdict_ok v = (d_attestation (verdict_checks v) \<noteq> DFail)"
proof -
  obtain r pl' where s: "seal P src event pl = Some (Inr (r, pl'))" "plane_ok P pl'" "logSize pl' = Suc (logSize pl)"
    "sealed_checks P (pl_info pl) r"
    using sealed_verdict [OF assms(1-5)] by metis
  obtain a where "verifyAttestationDomain P r opts = Inr a" using attestation_unverified [OF assms(6)] by blast
  from sealed_checksD [OF s(4) assms(6) _ this] show ?thesis using s(1-3) assms(7-9) by (auto simp: expected_ok_def)
qed

text \<open>
  The simulator never passes for hardware: whatever events are sealed on a plane booted on the simulator, every receipt verifies
  offline with the attestation and enclave domains reported as simulated and is accepted, and no receipt is accepted when hardware
  is required.
\<close>

theorem simulated_receipts_say_so:
  assumes "digests32 P" "digests48 P" "signs P" "sources_ok src"
    and "newSimClient P options = Inr c" "optOr (so_vendor options) ''intel-tdx'' \<in> set TEE_VENDORS" "so_instanceId options \<noteq> Some []"
    and "now \<noteq> []" "logId \<noteq> []" "start P (simClient P c now) logId None policy = Inr pl0"
    and "uses P src pl0 rs pl" "length rs \<le> 2 ^ 30" "r \<in> set rs"
    and "va_quoteVerifier opts = None" "va_expectedMeasurement opts = None" "va_witnessThreshold opts = 0"
  shows "\<exists>v. verifyReceiptV2 P r opts = Some (Inr v) \<and> d_binding (verdict_checks v) = DPass \<and> d_signature (verdict_checks v) = DPass
    \<and> d_inclusion (verdict_checks v) = DPass \<and> d_attestation (verdict_checks v) = DSimulated
    \<and> (verdict_ok v \<longleftrightarrow> \<not> va_requireHardware opts)"
proof -
  have pl0: "plane_ok P pl0" "simulated_plane P pl0" "logSize pl0 = 0"
    using start_sim [OF assms(1-3,5-9), of None policy] assms(10) by (auto simp: expected_ok_def)
  then have "\<exists>v. verifyReceiptV2 P r opts = Some (Inr v) \<and> verdict_checks v = checksFor (va_requireHardware opts)
      \<and> verdict_ok v = (\<not> va_requireHardware opts \<and> va_witnessThreshold opts \<le> 0)"
    using uses_invariant [OF assms(11,3,4)] assms(12-15) by (simp add: expected_ok_def)
  then show ?thesis using assms(16) by (auto simp: checksFor_def)
qed

section \<open>Witnesses\<close>

definition toySources :: Sources where
  "toySources = \<lparr>src_clock = (\<lambda>n. ''0''), src_id = (\<lambda>n. replicate 26 (CHR ''0'')), src_salt = (\<lambda>n. toHexField [0]), src_seq = (\<lambda>n. int n)\<rparr>"

definition toyEvent :: CaptureEvent where
  "toyEvent = Change \<lparr>ce_changeKind = ''prompt'', ce_ref = ''r'', ce_environment = ''prod'', ce_before = None, ce_after = ''x'', ce_actor_id = ''a'',
     ce_actor_method = ''m'', ce_approval = None, ce_approvers = None, ce_risk = None, ce_labels = None\<rparr>"

definition toyArgs :: VerifyArgsV2 where
  "toyArgs = \<lparr>va_witnessThreshold = 0, va_expectedMeasurement = None, va_requireHardware = False, va_quoteVerifier = None, va_blockHeaders = None\<rparr>"

lemma toySources_ok: "sources_ok toySources"
  using toyStapled_parts(3) by (auto simp: sources_ok_def toySources_def intro: exI [of _ "[0]"])

lemma digests48_toyEnv: "digests48 toyEnv"
  by (simp add: digests48_def toyEnv_def)

lemma toy_vendor: "optOr (so_vendor toySimOptions) ''intel-tdx'' \<in> set TEE_VENDORS" "so_instanceId toySimOptions \<noteq> Some []"
  by (simp_all add: toySimOptions_def optOr_def TEE_VENDORS_def)

lemma toyPlane:
  obtains pl where "start toyEnv (simClient toyEnv toySim ''0'') ''log'' None (Some DEFAULT_POLICY) = Inr pl" "plane_ok toyEnv pl" "simulated_plane toyEnv pl"
    "logSize pl = 0" "event_ok toyEnv pl toyEvent"
proof -
  obtain pl where pl: "start toyEnv (simClient toyEnv toySim ''0'') ''log'' None (Some DEFAULT_POLICY) = Inr pl" "plane_ok toyEnv pl" "simulated_plane toyEnv pl" "logSize pl = 0"
    using start_sim [OF digests32_toyEnv digests48_toyEnv signs_toyEnv toySim_new(1) toy_vendor, of "''0''" "''log''" None "Some DEFAULT_POLICY"]
    by (auto simp: expected_ok_def)
  have "pl_policy pl = Some DEFAULT_POLICY" using pl(1) by (auto simp: start_def rbind_Inr_iff Let_def)
  then have "event_ok toyEnv pl toyEvent"
    by (simp add: toyEvent_def CHANGE_KINDS_def gov_evaluate_def DEFAULT_POLICY_def gov_matches_def anyMatch_def refMatches_def Let_def inputOf_def optOr_def)
  then show ?thesis using that pl by blast
qed

theorem sealed_receipt_verifies_witness:
  "\<exists>pl r pl'. seal toyEnv toySources toyEvent pl = Some (Inr (r, pl')) \<and> plane_ok toyEnv pl'"
proof -
  obtain pl where pl: "plane_ok toyEnv pl" "logSize pl = 0" "event_ok toyEnv pl toyEvent" using toyPlane by metis
  show ?thesis using sealed_receipt_verifies [OF signs_toyEnv toySources_ok pl(1,3), of toyArgs] pl(2) by (fastforce simp: toyArgs_def)
qed

theorem simulated_receipts_say_so_witness:
  "\<exists>r v. verifyReceiptV2 toyEnv r toyArgs = Some (Inr v) \<and> d_attestation (verdict_checks v) = DSimulated \<and> verdict_ok v"
proof -
  obtain pl where pl: "start toyEnv (simClient toyEnv toySim ''0'') ''log'' None (Some DEFAULT_POLICY) = Inr pl" "plane_ok toyEnv pl" "logSize pl = 0" "event_ok toyEnv pl toyEvent"
    using toyPlane by metis
  obtain r pl' where s: "seal toyEnv toySources toyEvent pl = Some (Inr (r, pl'))"
  proof -
    have "logSize pl < 2 ^ 30" using pl(3) by simp
    from sealed_verdict [OF signs_toyEnv toySources_ok pl(2,4) this] show ?thesis using that by metis
  qed
  have u: "uses toyEnv toySources pl ([] @ [r]) pl'" using uses.sealed [OF uses.booted pl(4) s] .
  show ?thesis
    using simulated_receipts_say_so [OF digests32_toyEnv digests48_toyEnv signs_toyEnv toySources_ok toySim_new(1) toy_vendor _ _ pl(1) u, of r toyArgs]
    by (fastforce simp: toyArgs_def)
qed

end
