(* ===== verification/Consistency.thy ===== *)
theory Consistency
  imports Dstack Log
begin

text \<open>
  \<^verbatim>\<open>src/src/phala/consistency.ts\<close>: whether a set of receipts of one log describes a single append-only history.  Receipts are values of the
  declared receipt type; the reasons are a datatype instead of texts.

  A set that passes has one sequence of leaves: every receipt's record sits in it at the index the receipt claims, and every tree head
  is the Merkle tree hash of a prefix of it.
\<close>

section \<open>consistency.ts\<close>

record ConsistencyHead =
  ch_tree_size :: int
  ch_root_hash :: string
  ch_signature_ok :: bool
  ch_root_matches_leaves :: bool

record ConsistencyPair =
  cp_from :: int
  cp_to :: int
  cp_proof_length :: nat
  cp_ok :: bool

datatype ConsistencyReason =
    TooFewHeads
  | SeveralLogs
  | TwoRecords int
  | MissingLeaf nat int
  | Equivocation int
  | HeadUnsigned int
  | RootMismatch int
  | ProofFails int int

record ConsistencyResult =
  cr_ok :: bool
  cr_log_id :: "string option"
  cr_heads :: "ConsistencyHead list"
  cr_pairs :: "ConsistencyPair list"
  cr_reasons :: "ConsistencyReason list"

definition failConsistency :: "ConsistencyReason list \<Rightarrow> string option \<Rightarrow> ConsistencyResult" where
  "failConsistency reasons logId = \<lparr>cr_ok = False, cr_log_id = logId, cr_heads = [], cr_pairs = [], cr_reasons = reasons\<rparr>"

definition logIdOf :: "jsval \<Rightarrow> string" where
  "logIdOf r = strv (mem (mem r ''sth'') ''log_id'')"

definition sizeOf :: "jsval \<Rightarrow> int" where
  "sizeOf r = intv (mem (mem r ''sth'') ''tree_size'')"

definition rootHashOf :: "jsval \<Rightarrow> string" where
  "rootHashOf r = strv (mem (mem r ''sth'') ''root_hash'')"

definition leafIndexOf :: "jsval \<Rightarrow> int" where
  "leafIndexOf r = intv (mem (mem r ''inclusion'') ''leaf_index'')"

definition leafOf :: "env \<Rightarrow> jsval \<Rightarrow> bytes res" where
  "leafOf P r = rbind (recordLeafDataV2 (strv (mem r ''binding_hash''))) (\<lambda>d. Inr (leafHash (sha256 P) d))"

text \<open>The loop that collects the leaves; two records at one index are noted, the later one is kept.\<close>

fun collectLeaves :: "env \<Rightarrow> jsval list \<Rightarrow> (int \<times> bytes) list \<Rightarrow> ConsistencyReason list \<Rightarrow> ((int \<times> bytes) list \<times> ConsistencyReason list) res" where
  "collectLeaves P [] m reasons = Inr (m, reasons)"
| "collectLeaves P (r # rs) m reasons = rbind (leafOf P r) (\<lambda>leaf.
     let reasons' = (case map_of m (leafIndexOf r) of Some seen \<Rightarrow> if seen \<noteq> leaf then reasons @ [TwoRecords (leafIndexOf r)] else reasons | None \<Rightarrow> reasons)
     in collectLeaves P rs (mput (leafIndexOf r) leaf m) reasons')"

text \<open>The leaves \<open>0..<n\<close>, or the first index that is missing.\<close>

fun gatherLeaves :: "(int \<times> bytes) list \<Rightarrow> nat list \<Rightarrow> nat + bytes list" where
  "gatherLeaves m [] = Inr []"
| "gatherLeaves m (i # idx) = (case map_of m (int i) of
       None \<Rightarrow> Inl i
     | Some leaf \<Rightarrow> (case gatherLeaves m idx of Inl j \<Rightarrow> Inl j | Inr ls \<Rightarrow> Inr (leaf # ls)))"

fun collectHeads :: "jsval list \<Rightarrow> (int \<times> jsval) list \<Rightarrow> ConsistencyReason list \<Rightarrow> (int \<times> jsval) list \<times> ConsistencyReason list" where
  "collectHeads [] m reasons = (m, reasons)"
| "collectHeads (r # rs) m reasons = (case map_of m (sizeOf r) of
       None \<Rightarrow> collectHeads rs (mput (sizeOf r) r m) reasons
     | Some prior \<Rightarrow> collectHeads rs (mput (sizeOf r) prior m)
         (if rootHashOf prior \<noteq> rootHashOf r then reasons @ [Equivocation (sizeOf r)] else reasons))"

text \<open>\<^verbatim>\<open>leaves.slice(0, n)\<close>.\<close>

definition sliceTo :: "int \<Rightarrow> bytes list \<Rightarrow> bytes list" where
  "sliceTo n xs = take (nat (if n < 0 then int (length xs) + n else n)) xs"

definition headSigned :: "env \<Rightarrow> jsval option \<Rightarrow> jsval \<Rightarrow> bool" where
  "headSigned P trusted r =
     (let sth = mem r ''sth''; sig = sigOf (mem sth ''signature'');
          entry = orElse (case trusted of Some d \<Rightarrow> mem d (sig_key_id sig) | None \<Rightarrow> JUndef) (mem (mem r ''key_directory'') (sig_key_id sig))
      in entry \<noteq> JUndef \<and> hv_ok (hybridVerify P (sthSigningMessage P (sthOf sth)) sig (entryOf entry)))"

definition checkHead :: "env \<Rightarrow> jsval option \<Rightarrow> bytes list \<Rightarrow> int \<times> jsval \<Rightarrow> ConsistencyHead run" where
  "checkHead P trusted leaves = (\<lambda>(size, r).
     runbind (map_option Inr (merkleRoot (sha256 P) (sliceTo size leaves))) (\<lambda>recomputed.
       Some (Inr \<lparr>ch_tree_size = size, ch_root_hash = rootHashOf r, ch_signature_ok = headSigned P trusted r,
         ch_root_matches_leaves = catching False (rbind (multihashDigest (rootHashOf r)) (\<lambda>d. Inr (recomputed = d)))\<rparr>)))"

definition headReasons :: "ConsistencyHead \<Rightarrow> ConsistencyReason list" where
  "headReasons h = (if \<not> ch_signature_ok h then [HeadUnsigned (ch_tree_size h)] else [])
     @ (if \<not> ch_root_matches_leaves h then [RootMismatch (ch_tree_size h)] else [])"

definition checkPair :: "env \<Rightarrow> bytes list \<Rightarrow> (int \<times> jsval) \<times> (int \<times> jsval) \<Rightarrow> ConsistencyPair run" where
  "checkPair P leaves = (\<lambda>((m, rm), (n, rn)).
     (case consistencyProof (sha256 P) (sliceTo n leaves) m of
        None \<Rightarrow> None
      | Some (Inl _) \<Rightarrow> Some (Inr \<lparr>cp_from = m, cp_to = n, cp_proof_length = 0, cp_ok = False\<rparr>)
      | Some (Inr proof_path) \<Rightarrow> Some (Inr \<lparr>cp_from = m, cp_to = n, cp_proof_length = length proof_path,
          cp_ok = catching False (rbind (multihashDigest (rootHashOf rm)) (\<lambda>a. rbind (multihashDigest (rootHashOf rn)) (\<lambda>b.
            Inr (verifyConsistency (sha256 P) m n a b proof_path))))\<rparr>)))"

definition pairReasons :: "ConsistencyPair \<Rightarrow> ConsistencyReason list" where
  "pairReasons p = (if \<not> cp_ok p then [ProofFails (cp_from p) (cp_to p)] else [])"

fun mapRun :: "('a \<Rightarrow> 'b run) \<Rightarrow> 'a list \<Rightarrow> 'b list run" where
  "mapRun f [] = Some (Inr [])"
| "mapRun f (x # xs) = runbind (f x) (\<lambda>y. runbind (mapRun f xs) (\<lambda>ys. Some (Inr (y # ys))))"

fun maxOf :: "int \<Rightarrow> int list \<Rightarrow> int" where
  "maxOf m [] = m"
| "maxOf m (x # xs) = maxOf (max m x) xs"

definition headed :: "jsval list \<Rightarrow> jsval list" where
  "headed receipts = filter (\<lambda>r. jtruthy (mem r ''sth'') \<and> jtruthy (mem r ''inclusion'')) receipts"

definition verifyLogConsistency :: "env \<Rightarrow> jsval list \<Rightarrow> jsval option \<Rightarrow> ConsistencyResult run" where
  "verifyLogConsistency P receipts trusted =
     (let withHead = headed receipts; logId = logIdOf (hd withHead); maxSize = maxOf (sizeOf (hd withHead)) (map sizeOf (tl withHead)) in
      if length withHead < 2 then Some (Inr (failConsistency [TooFewHeads] None))
      else if list_ex (\<lambda>r. logIdOf r \<noteq> logId) withHead then Some (Inr (failConsistency [SeveralLogs] (Some logId)))
      else runbind (Some (collectLeaves P withHead [] [])) (\<lambda>(leafByIndex, reasons1).
        case gatherLeaves leafByIndex [0..<nat maxSize] of
          Inl i \<Rightarrow> Some (Inr (failConsistency (reasons1 @ [MissingLeaf i maxSize]) (Some logId)))
        | Inr leaves \<Rightarrow>
            let (headBySize, reasons2) = collectHeads withHead [] reasons1; sorted = sortBy (\<lambda>a b. fst a \<le> fst b) headBySize in
            runbind (mapRun (checkHead P trusted leaves) sorted) (\<lambda>heads.
            runbind (mapRun (checkPair P leaves) (zip sorted (tl sorted))) (\<lambda>pairs.
            let reasons = reasons2 @ concat (map headReasons heads) @ concat (map pairReasons pairs) in
            Some (Inr \<lparr>cr_ok = reasons = [] \<and> length heads \<ge> 2 \<and> list_all cp_ok pairs
                   \<and> list_all (\<lambda>h. ch_signature_ok h \<and> ch_root_matches_leaves h) heads,
                 cr_log_id = Some logId, cr_heads = heads, cr_pairs = pairs, cr_reasons = reasons\<rparr>)))))"

section \<open>Lemmas\<close>

lemma mapRun_ok_iff: "mapRun f xs = Some (Inr ys) \<longleftrightarrow> list_all2 (\<lambda>x y. f x = Some (Inr y)) xs ys"
  by (induction xs arbitrary: ys) (auto simp: runbind_ok_iff list_all2_Cons1)

text \<open>A reason, once noted, stays.\<close>

lemma collectLeaves_reasons: "collectLeaves P rs m reasons = Inr (m', []) \<Longrightarrow> reasons = []"
proof (induction rs arbitrary: m reasons)
  case (Cons r rs)
  then obtain leaf reasons' where "collectLeaves P rs (mput (leafIndexOf r) leaf m) reasons' = Inr (m', [])"
      "reasons' = (case map_of m (leafIndexOf r) of Some seen \<Rightarrow> if seen \<noteq> leaf then reasons @ [TwoRecords (leafIndexOf r)] else reasons | None \<Rightarrow> reasons)"
    by (auto simp: rbind_Inr_iff Let_def)
  then show ?case using Cons.IH by (auto split: option.splits if_splits)
qed simp

lemma collectLeaves_sound:
  assumes "collectLeaves P rs m [] = Inr (m', [])"
  shows "map_of m k = Some v \<Longrightarrow> map_of m' k = Some v" "r \<in> set rs \<Longrightarrow> \<exists>leaf. leafOf P r = Inr leaf \<and> map_of m' (leafIndexOf r) = Some leaf"
proof -
  have "(map_of m k = Some v \<longrightarrow> map_of m' k = Some v) \<and> (\<forall>r\<in>set rs. \<exists>leaf. leafOf P r = Inr leaf \<and> map_of m' (leafIndexOf r) = Some leaf)" for k v
    using assms
  proof (induction rs arbitrary: m k v)
    case (Cons r rs)
    then obtain leaf where l: "leafOf P r = Inr leaf" by (auto simp: rbind_Inr_iff)
    define m1 where "m1 = mput (leafIndexOf r) leaf m"
    have same: "map_of m (leafIndexOf r) = None \<or> map_of m (leafIndexOf r) = Some leaf" and rest: "collectLeaves P rs m1 [] = Inr (m', [])"
      using Cons.prems l collectLeaves_reasons [of P rs m1 "[TwoRecords (leafIndexOf r)]" m']
      by (auto simp: Let_def m1_def split: option.splits if_splits)
    have m1: "map_of m1 = (map_of m)(leafIndexOf r \<mapsto> leaf)" by (simp add: m1_def)
    note IH = Cons.IH [OF rest]
    have "map_of m' (leafIndexOf r) = Some leaf" using IH [of "leafIndexOf r" leaf] m1 by simp
    moreover have "map_of m k = Some v \<longrightarrow> map_of m' k = Some v" using IH [of k v] m1 same by (cases "k = leafIndexOf r") auto
    ultimately show ?case using IH l by auto
  qed simp
  then show "map_of m k = Some v \<Longrightarrow> map_of m' k = Some v" "r \<in> set rs \<Longrightarrow> \<exists>leaf. leafOf P r = Inr leaf \<and> map_of m' (leafIndexOf r) = Some leaf" by blast+
qed

lemma collectLeaves_origin:
  "collectLeaves P rs m reasons = Inr (m', reasons') \<Longrightarrow> map_of m' k = Some v \<Longrightarrow>
     map_of m k = Some v \<or> (\<exists>r\<in>set rs. leafIndexOf r = k \<and> leafOf P r = Inr v)"
proof (induction rs arbitrary: m reasons)
  case (Cons r rs)
  then obtain leaf reasons1 where l: "leafOf P r = Inr leaf"
    "collectLeaves P rs (mput (leafIndexOf r) leaf m) reasons1 = Inr (m', reasons')"
    by (auto simp: rbind_Inr_iff Let_def)
  from Cons.IH [OF l(2) Cons.prems(2)] l(1) show ?case by (auto split: if_splits)
qed simp

lemma gatherLeaves_all2: "gatherLeaves m idx = Inr ls \<Longrightarrow> list_all2 (\<lambda>i l. map_of m (int i) = Some l) idx ls"
  by (induction idx arbitrary: ls) (auto split: option.splits sum.splits)

lemma collectHeads_reasons: "collectHeads rs m reasons = (m', []) \<Longrightarrow> reasons = []"
  by (induction rs arbitrary: m reasons) (auto split: option.splits if_splits)

lemma collectHeads_sound:
  assumes "collectHeads rs m [] = (m', [])"
  shows "map_of m k = Some v \<Longrightarrow> map_of m' k = Some v"
    "r \<in> set rs \<Longrightarrow> \<exists>r0. map_of m' (sizeOf r) = Some r0 \<and> rootHashOf r0 = rootHashOf r"
    "map_of m' k = Some v \<Longrightarrow> map_of m k = Some v \<or> v \<in> set rs \<and> sizeOf v = k"
proof -
  have "(map_of m k = Some v \<longrightarrow> map_of m' k = Some v) \<and> (\<forall>r\<in>set rs. \<exists>r0. map_of m' (sizeOf r) = Some r0 \<and> rootHashOf r0 = rootHashOf r)
    \<and> (map_of m' k = Some v \<longrightarrow> map_of m k = Some v \<or> v \<in> set rs \<and> sizeOf v = k)" for k v
    using assms
  proof (induction rs arbitrary: m k v)
    case (Cons r rs)
    define r0 where "r0 = (case map_of m (sizeOf r) of None \<Rightarrow> r | Some prior \<Rightarrow> prior)"
    define m1 where "m1 = mput (sizeOf r) r0 m"
    have eq: "rootHashOf r0 = rootHashOf r" and rest: "collectHeads rs m1 [] = (m', [])"
      using Cons.prems collectHeads_reasons [of rs m1 "[Equivocation (sizeOf r)]" m']
      by (auto simp: m1_def r0_def split: option.splits if_splits)
    have m1: "map_of m1 = (map_of m)(sizeOf r \<mapsto> r0)" by (simp add: m1_def)
    note IH = Cons.IH [OF rest]
    have "map_of m' (sizeOf r) = Some r0" using IH [of "sizeOf r" r0] m1 by simp
    moreover have "map_of m k = Some v \<longrightarrow> map_of m' k = Some v" using IH [of k v] m1 by (cases "k = sizeOf r") (auto simp: r0_def)
    moreover have "map_of m' k = Some v \<longrightarrow> map_of m k = Some v \<or> v \<in> set (r # rs) \<and> sizeOf v = k"
      using IH [of k v] m1 by (cases "k = sizeOf r") (auto simp: r0_def split: option.splits)
    ultimately show ?case using IH eq by auto
  qed simp
  then show "map_of m k = Some v \<Longrightarrow> map_of m' k = Some v" "r \<in> set rs \<Longrightarrow> \<exists>r0. map_of m' (sizeOf r) = Some r0 \<and> rootHashOf r0 = rootHashOf r"
    "map_of m' k = Some v \<Longrightarrow> map_of m k = Some v \<or> v \<in> set rs \<and> sizeOf v = k" by blast+
qed

lemma maxOf_start: "m \<le> maxOf m xs"
proof (induction xs arbitrary: m)
  case (Cons x xs)
  have "m \<le> max m x" by simp
  also have "\<dots> \<le> maxOf (max m x) xs" by (rule Cons)
  finally show ?case by simp
qed simp

lemma maxOf_ge: "x \<in> set xs \<Longrightarrow> x \<le> maxOf m xs"
proof (induction xs arbitrary: m)
  case (Cons y xs)
  show ?case
  proof (cases "x = y")
    case True
    then show ?thesis using maxOf_start [of "max m x" xs] by simp
  next
    case False
    then show ?thesis using Cons by simp
  qed
qed simp

section \<open>One history\<close>

lemma checkHead_pass:
  "checkHead P trusted leaves x = Some (Inr y) \<Longrightarrow> ch_signature_ok y \<Longrightarrow> ch_root_matches_leaves y \<Longrightarrow>
    headSigned P trusted (snd x) \<and> (\<exists>d. multihashDigest (rootHashOf (snd x)) = Inr d \<and> merkleRoot (sha256 P) (sliceTo (fst x) leaves) = Some d)"
  by (auto simp: checkHead_def runbind_ok_iff case_prod_beta catching_def rbind_def split: sum.splits)

text \<open>The result of a check that got as far as looking at the heads.\<close>

lemma consistency_parts:
  assumes "verifyLogConsistency P receipts trusted = Some (Inr res)" "cr_ok res"
  obtains m leaves heads where "\<forall>r\<in>set (headed receipts). logIdOf r = logIdOf (hd (headed receipts))"
    "collectLeaves P (headed receipts) [] [] = Inr (m, [])" "list_all2 (\<lambda>i l. map_of m (int i) = Some l) [0..<length leaves] leaves"
    "\<forall>r\<in>set (headed receipts). sizeOf r \<le> int (length leaves)"
    "collectHeads (headed receipts) [] [] = (heads, [])" "length heads \<ge> 2"
    "\<forall>(size, r)\<in>set heads. headSigned P trusted r \<and> (\<exists>d. multihashDigest (rootHashOf r) = Inr d \<and> merkleRoot (sha256 P) (sliceTo size leaves) = Some d)"
proof -
  let ?w = "headed receipts"
  define maxSize where "maxSize = maxOf (sizeOf (hd ?w)) (map sizeOf (tl ?w))"
  have len: "\<not> length ?w < 2" and one: "\<not> list_ex (\<lambda>r. logIdOf r \<noteq> logIdOf (hd ?w)) ?w"
    using assms by (auto simp: verifyLogConsistency_def failConsistency_def Let_def split: if_splits)
  obtain m reasons1 where m: "collectLeaves P ?w [] [] = Inr (m, reasons1)"
    using assms len one by (auto simp: verifyLogConsistency_def Let_def runbind_ok_iff split: if_splits)
  obtain leaves where leaves: "gatherLeaves m [0..<nat maxSize] = Inr leaves"
    using assms len one m by (cases "gatherLeaves m [0..<nat maxSize]") (auto simp: verifyLogConsistency_def Let_def failConsistency_def maxSize_def)
  obtain heads reasons2 where h: "collectHeads ?w [] reasons1 = (heads, reasons2)" by fastforce
  let ?sorted = "sortBy (\<lambda>a b. fst a \<le> fst b) heads"
  obtain hs ps where r: "mapRun (checkHead P trusted leaves) ?sorted = Some (Inr hs)" "reasons2 = []" "length hs \<ge> 2"
      "list_all (\<lambda>h. ch_signature_ok h \<and> ch_root_matches_leaves h) hs"
    using assms len one m leaves h by (auto simp: verifyLogConsistency_def Let_def maxSize_def runbind_ok_iff)
  have none: "reasons1 = []" using collectHeads_reasons h r(2) by blast
  have all2: "list_all2 (\<lambda>x y. checkHead P trusted leaves x = Some (Inr y)) ?sorted hs" using r(1) by (simp add: mapRun_ok_iff)
  have checked: "headSigned P trusted (snd x) \<and> (\<exists>d. multihashDigest (rootHashOf (snd x)) = Inr d \<and> merkleRoot (sha256 P) (sliceTo (fst x) leaves) = Some d)"
    if "x \<in> set heads" for x
  proof -
    have "x \<in> set ?sorted" using that by simp
    then obtain i where "i < length ?sorted" "x = ?sorted ! i" by (metis in_set_conv_nth)
    then have y: "checkHead P trusted leaves x = Some (Inr (hs ! i))" "hs ! i \<in> set hs"
      using list_all2_nthD [OF all2, of i] list_all2_lengthD [OF all2] by simp_all
    then show ?thesis using r(4) checkHead_pass [OF y(1)] by (simp add: list_all_iff)
  qed
  have ll: "list_all2 (\<lambda>i l. map_of m (int i) = Some l) [0..<nat maxSize] leaves" using leaves by (rule gatherLeaves_all2)
  then have n: "length leaves = nat maxSize" by (auto dest: list_all2_lengthD)
  have ne: "?w = hd ?w # tl ?w" using len by (cases ?w) auto
  have "sizeOf r \<le> maxSize" if "r \<in> set ?w" for r
  proof -
    have "r = hd ?w \<or> r \<in> set (tl ?w)" using that ne by (metis set_ConsD)
    then show ?thesis using maxOf_start maxOf_ge [of "sizeOf r" "map sizeOf (tl ?w)"] by (auto simp: maxSize_def)
  qed
  then have "\<forall>r\<in>set ?w. sizeOf r \<le> int (length leaves)" using n by fastforce
  moreover have "length heads \<ge> 2" using list_all2_lengthD [OF all2] r(3) by simp
  moreover have "\<forall>(size, r)\<in>set heads. headSigned P trusted r
      \<and> (\<exists>d. multihashDigest (rootHashOf r) = Inr d \<and> merkleRoot (sha256 P) (sliceTo size leaves) = Some d)" using checked by auto
  moreover have "\<forall>r\<in>set ?w. logIdOf r = logIdOf (hd ?w)" using one by (auto simp: list_ex_iff)
  moreover have "list_all2 (\<lambda>i l. map_of m (int i) = Some l) [0..<length leaves] leaves" using ll n by simp
  ultimately show ?thesis using that [of m leaves heads] m h none r(2) by simp
qed

text \<open>Receipts that pass describe one history.\<close>

lemma consistent_one_history:
  assumes "verifyLogConsistency P receipts trusted = Some (Inr res)" "cr_ok res"
  shows "\<exists>leaves logId. (\<forall>i<length leaves. \<exists>r\<in>set (headed receipts). leafIndexOf r = int i \<and> leafOf P r = Inr (leaves ! i))
    \<and> (\<forall>r\<in>set (headed receipts). logIdOf r = logId \<and> sizeOf r \<le> int (length leaves)
    \<and> (0 \<le> leafIndexOf r \<and> leafIndexOf r < int (length leaves) \<longrightarrow> leafOf P r = Inr (leaves ! nat (leafIndexOf r)))
    \<and> multihashDigest (rootHashOf r) = Inr (MTH (sha256 P) (sliceTo (sizeOf r) leaves))
    \<and> (\<exists>r'\<in>set (headed receipts). sizeOf r' = sizeOf r \<and> rootHashOf r' = rootHashOf r \<and> headSigned P trusted r'))"
proof -
  obtain m leaves heads where c: "\<forall>r\<in>set (headed receipts). logIdOf r = logIdOf (hd (headed receipts))"
    "collectLeaves P (headed receipts) [] [] = Inr (m, [])" "list_all2 (\<lambda>i l. map_of m (int i) = Some l) [0..<length leaves] leaves"
    "\<forall>r\<in>set (headed receipts). sizeOf r \<le> int (length leaves)"
    "collectHeads (headed receipts) [] [] = (heads, [])" "length heads \<ge> 2"
    "\<forall>(size, r)\<in>set heads. headSigned P trusted r \<and> (\<exists>d. multihashDigest (rootHashOf r) = Inr d \<and> merkleRoot (sha256 P) (sliceTo size leaves) = Some d)"
    using consistency_parts [OF assms] .
  note leaf = collectLeaves_sound [OF c(2)] and head = collectHeads_sound [OF c(5)]
  have "logIdOf r = logIdOf (hd (headed receipts)) \<and> sizeOf r \<le> int (length leaves)
    \<and> (0 \<le> leafIndexOf r \<and> leafIndexOf r < int (length leaves) \<longrightarrow> leafOf P r = Inr (leaves ! nat (leafIndexOf r)))
    \<and> multihashDigest (rootHashOf r) = Inr (MTH (sha256 P) (sliceTo (sizeOf r) leaves))
    \<and> (\<exists>r'\<in>set (headed receipts). sizeOf r' = sizeOf r \<and> rootHashOf r' = rootHashOf r \<and> headSigned P trusted r')" if r: "r \<in> set (headed receipts)" for r
  proof -
    obtain r0 where r0: "map_of heads (sizeOf r) = Some r0" "rootHashOf r0 = rootHashOf r" "r0 \<in> set (headed receipts)" "sizeOf r0 = sizeOf r"
      using head(2) [OF r] head(3) by (metis map_of.simps(1) option.distinct(1))
    then have "(sizeOf r, r0) \<in> set heads" by (simp add: map_of_SomeD)
    then obtain d where d: "headSigned P trusted r0" "multihashDigest (rootHashOf r) = Inr d" "merkleRoot (sha256 P) (sliceTo (sizeOf r) leaves) = Some d"
      using c(7) r0(2) by fastforce
    then have s: "headSigned P trusted r0" "multihashDigest (rootHashOf r) = Inr (MTH (sha256 P) (sliceTo (sizeOf r) leaves))"
      using merkleRoot_SomeD [OF d(3)] by simp_all
    have "leafOf P r = Inr (leaves ! nat (leafIndexOf r))" if "0 \<le> leafIndexOf r" "leafIndexOf r < int (length leaves)"
    proof -
      obtain l where "leafOf P r = Inr l" "map_of m (leafIndexOf r) = Some l" using leaf(2) [OF r] by blast
      moreover have "map_of m (int (nat (leafIndexOf r))) = Some (leaves ! nat (leafIndexOf r))"
        using list_all2_nthD [OF c(3), of "nat (leafIndexOf r)"] that by simp
      ultimately show ?thesis using that by simp
    qed
    then show ?thesis using c(1,4) r s r0(2-4) by blast
  qed
  moreover have "\<exists>r\<in>set (headed receipts). leafIndexOf r = int i \<and> leafOf P r = Inr (leaves ! i)" if "i < length leaves" for i
  proof -
    have "map_of m (int i) = Some (leaves ! i)" using list_all2_nthD [OF c(3), of i] that by simp
    from collectLeaves_origin [OF c(2) this] show ?thesis by simp
  qed
  ultimately show ?thesis by (intro exI [of _ leaves] exI [of _ "logIdOf (hd (headed receipts))"]) blast
qed

section \<open>The receipts of one log pass\<close>

text \<open>The receipts a log gave out one after the other, from its first leaf on.\<close>

definition describes :: "env \<Rightarrow> jsval option \<Rightarrow> string \<Rightarrow> bytes list \<Rightarrow> jsval list \<Rightarrow> bool" where
  "describes P trusted logId leaves rs = (length rs = length leaves \<and> (\<forall>i<length leaves. let r = rs ! i in
     jtruthy (mem r ''sth'') \<and> jtruthy (mem r ''inclusion'') \<and> logIdOf r = logId \<and> leafIndexOf r = int i \<and> leafOf P r = Inr (leaves ! i)
     \<and> sizeOf r = int (Suc i) \<and> multihashDigest (rootHashOf r) = Inr (MTH (sha256 P) (take (Suc i) leaves)) \<and> headSigned P trusted r))"

lemma collectLeaves_fresh:
  assumes "\<forall>r\<in>set rs. leafOf P r = Inr (f r)" "distinct (map leafIndexOf rs)" "\<forall>r\<in>set rs. leafIndexOf r \<notin> fst ` set m"
  shows "collectLeaves P rs m reasons = Inr (m @ map (\<lambda>r. (leafIndexOf r, f r)) rs, reasons)"
  using assms
proof (induction rs arbitrary: m)
  case (Cons r rs)
  then have "map_of m (leafIndexOf r) = None" by (simp add: map_of_eq_None_iff)
  moreover have "collectLeaves P rs (m @ [(leafIndexOf r, f r)]) reasons = Inr ((m @ [(leafIndexOf r, f r)]) @ map (\<lambda>r. (leafIndexOf r, f r)) rs, reasons)"
    using Cons.prems by (intro Cons.IH) (simp_all add: image_iff, metis)
  ultimately show ?case using Cons.prems by (simp add: mput_new)
qed simp

lemma collectHeads_fresh:
  assumes "distinct (map sizeOf rs)" "\<forall>r\<in>set rs. sizeOf r \<notin> fst ` set m"
  shows "collectHeads rs m reasons = (m @ map (\<lambda>r. (sizeOf r, r)) rs, reasons)"
  using assms
proof (induction rs arbitrary: m)
  case (Cons r rs)
  then have "map_of m (sizeOf r) = None" by (simp add: map_of_eq_None_iff)
  moreover have "collectHeads rs (m @ [(sizeOf r, r)]) reasons = ((m @ [(sizeOf r, r)]) @ map (\<lambda>r. (sizeOf r, r)) rs, reasons)"
    using Cons.prems by (intro Cons.IH) (simp_all add: image_iff, metis)
  ultimately show ?case using Cons.prems by (simp add: mput_new)
qed simp

lemma gatherLeaves_intro: "(\<And>i. i \<in> set idx \<Longrightarrow> map_of m (int i) = Some (g i)) \<Longrightarrow> gatherLeaves m idx = Inr (map g idx)"
  by (induction idx) auto

lemma mapRun_intro: "(\<And>x. x \<in> set xs \<Longrightarrow> f x = Some (Inr (g x))) \<Longrightarrow> mapRun f xs = Some (Inr (map g xs))"
  by (induction xs) auto

lemma maxOf_le: "m \<le> b \<Longrightarrow> \<forall>x\<in>set xs. x \<le> b \<Longrightarrow> maxOf m xs \<le> b"
  by (induction xs arbitrary: m) auto

lemma sliceTo_nat [simp]: "sliceTo (int n) xs = take n xs"
  by (simp add: sliceTo_def)

lemma describes_nth:
  assumes "describes P trusted logId leaves rs" "i < length leaves"
  shows "jtruthy (mem (rs ! i) ''sth'')" "jtruthy (mem (rs ! i) ''inclusion'')" "logIdOf (rs ! i) = logId" "leafIndexOf (rs ! i) = int i"
    "leafOf P (rs ! i) = Inr (leaves ! i)" "sizeOf (rs ! i) = int (Suc i)"
    "multihashDigest (rootHashOf (rs ! i)) = Inr (MTH (sha256 P) (take (Suc i) leaves))" "headSigned P trusted (rs ! i)"
  using assms by (simp_all add: describes_def Let_def)

lemma describes_map:
  assumes "describes P trusted logId leaves rs"
  shows "map sizeOf rs = map (\<lambda>i. int (Suc i)) [0..<length leaves]" "map leafIndexOf rs = map int [0..<length leaves]"
    "rs = map (nth rs) [0..<length leaves]" "headed rs = rs" "\<forall>r\<in>set rs. logIdOf r = logId"
proof -
  have len: "length rs = length leaves" using assms by (simp add: describes_def)
  show rs: "rs = map (nth rs) [0..<length leaves]" using len map_nth [of rs] by simp
  show "map sizeOf rs = map (\<lambda>i. int (Suc i)) [0..<length leaves]" "map leafIndexOf rs = map int [0..<length leaves]"
    using len describes_nth [OF assms] by (auto intro!: nth_equalityI)
  have "jtruthy (mem r ''sth'') \<and> jtruthy (mem r ''inclusion'') \<and> logIdOf r = logId" if "r \<in> set rs" for r
    using that len describes_nth [OF assms] by (metis in_set_conv_nth)
  then show "headed rs = rs" "\<forall>r\<in>set rs. logIdOf r = logId" by (simp_all add: headed_def filter_id_conv)
qed

lemma describes_leaves:
  assumes "describes P trusted logId leaves rs"
  shows "collectLeaves P rs [] [] = Inr (map (\<lambda>i. (int i, leaves ! i)) [0..<length leaves], [])"
proof -
  define f where "f r = leaves ! nat (leafIndexOf r)" for r
  have f: "\<forall>r\<in>set rs. leafOf P r = Inr (f r)"
  proof
    fix r assume "r \<in> set rs"
    then obtain i where "i < length leaves" "r = rs ! i" using assms by (auto simp: describes_def in_set_conv_nth)
    then show "leafOf P r = Inr (f r)" using describes_nth [OF assms] by (simp add: f_def)
  qed
  have d: "distinct (map leafIndexOf rs)" by (simp add: describes_map(2) [OF assms] distinct_map inj_on_def)
  have "collectLeaves P rs [] [] = Inr ([] @ map (\<lambda>r. (leafIndexOf r, f r)) rs, [])" by (rule collectLeaves_fresh [OF f d]) simp
  moreover have "map (\<lambda>r. (leafIndexOf r, f r)) rs = map ((\<lambda>k. (k, leaves ! nat k)) \<circ> leafIndexOf) rs" by (simp add: f_def)
  also have "\<dots> = map (\<lambda>k. (k, leaves ! nat k)) (map leafIndexOf rs)" by (simp only: map_map)
  ultimately show ?thesis by (simp add: describes_map(2) [OF assms] comp_def)
qed

lemma describes_heads:
  assumes "describes P trusted logId leaves rs"
  shows "collectHeads rs [] [] = (map (\<lambda>i. (int (Suc i), rs ! i)) [0..<length leaves], [])"
proof -
  have d: "distinct (map sizeOf rs)" by (simp add: describes_map(1) [OF assms] distinct_map inj_on_def)
  have "collectHeads rs [] [] = ([] @ map (\<lambda>r. (sizeOf r, r)) rs, [])" by (rule collectHeads_fresh [OF d]) simp
  moreover have "map (\<lambda>r. (sizeOf r, r)) rs = map (\<lambda>i. (int (Suc i), rs ! i)) [0..<length leaves]"
    using describes_nth(6) [OF assms] assms by (auto simp: describes_def intro!: nth_equalityI)
  ultimately show ?thesis by simp
qed

lemma describes_max:
  assumes "describes P trusted logId leaves rs" "leaves \<noteq> []"
  shows "maxOf (sizeOf (hd rs)) (map sizeOf (tl rs)) = int (length leaves)"
proof -
  have len: "length rs = length leaves" using assms(1) by (simp add: describes_def)
  then have rs: "rs = hd rs # tl rs" using assms(2) by (cases rs) auto
  have all: "\<forall>r\<in>set rs. sizeOf r \<le> int (length leaves)" using len describes_nth(6) [OF assms(1)] by (auto simp: in_set_conv_nth)
  let ?l = "rs ! (length leaves - 1)"
  have l: "sizeOf ?l = int (length leaves)" "?l \<in> set rs" using describes_nth(6) [OF assms(1), of "length leaves - 1"] assms(2) len by auto
  have "maxOf (sizeOf (hd rs)) (map sizeOf (tl rs)) \<le> int (length leaves)" 
  proof (rule maxOf_le)
    show "sizeOf (hd rs) \<le> int (length leaves)" using all rs by (metis list.set_intros(1))
    have "set (tl rs) \<subseteq> set rs" using rs by (metis set_subset_Cons)
    then show "\<forall>x\<in>set (map sizeOf (tl rs)). x \<le> int (length leaves)" using all by auto
  qed
  moreover have "int (length leaves) \<le> maxOf (sizeOf (hd rs)) (map sizeOf (tl rs))"
  proof (cases "?l = hd rs")
    case True
    then show ?thesis using l(1) maxOf_start [of "sizeOf (hd rs)" "map sizeOf (tl rs)"] by simp
  next
    case False
    then have "?l \<in> set (tl rs)" using l(2) rs by (metis set_ConsD)
    then have "sizeOf ?l \<in> set (map sizeOf (tl rs))" by simp
    then show ?thesis using l(1) maxOf_ge by metis
  qed
  ultimately show ?thesis by simp
qed

lemma describes_checkHead:
  assumes "describes P trusted logId leaves rs" "length leaves \<le> 2 ^ 30" "i < length leaves"
  shows "checkHead P trusted leaves (int (Suc i), rs ! i)
    = Some (Inr \<lparr>ch_tree_size = int (Suc i), ch_root_hash = rootHashOf (rs ! i), ch_signature_ok = True, ch_root_matches_leaves = True\<rparr>)"
proof -
  have "merkleRoot (sha256 P) (take (Suc i) leaves) = Some (MTH (sha256 P) (take (Suc i) leaves))" using assms(2,3) by (intro merkleRoot_MTH) simp
  then show ?thesis using describes_nth(7,8) [OF assms(1,3)] sliceTo_nat [of "Suc i" leaves] by (simp add: checkHead_def del: of_nat_Suc)
qed

lemma describes_checkPair:
  assumes "describes P trusted logId leaves rs" "length leaves \<le> 2 ^ 30" "Suc i < length leaves"
  shows "\<exists>n. checkPair P leaves ((int (Suc i), rs ! i), (int (Suc (Suc i)), rs ! Suc i))
    = Some (Inr \<lparr>cp_from = int (Suc i), cp_to = int (Suc (Suc i)), cp_proof_length = n, cp_ok = True\<rparr>)"
proof -
  let ?hs = "take (Suc (Suc i)) leaves"
  have t: "take (Suc i) ?hs = take (Suc i) leaves" "length ?hs = Suc (Suc i)" using assms(3) by (simp_all add: min_def)
  have "0 < Suc i" "Suc i \<le> length ?hs" "length ?hs \<le> 2 ^ 30" using assms(2,3) t(2) by simp_all
  from consistency_proof_verifies [OF this, of "sha256 P"] obtain p r1 r2 where
    p: "consistencyProof (sha256 P) ?hs (int (Suc i)) = Some (Inr p)" "merkleRoot (sha256 P) (take (Suc i) ?hs) = Some r1"
    "merkleRoot (sha256 P) ?hs = Some r2" "verifyConsistency (sha256 P) (int (Suc i)) (int (length ?hs)) r1 r2 p" by blast
  have "r1 = MTH (sha256 P) (take (Suc i) leaves)" "r2 = MTH (sha256 P) ?hs"
    using merkleRoot_SomeD [OF p(2)] merkleRoot_SomeD [OF p(3)] t(1) by simp_all
  then show ?thesis
    using p(1,4) t(2) describes_nth(7) [OF assms(1), of i] describes_nth(7) [OF assms(1,3)] assms(3) sliceTo_nat [of "Suc (Suc i)" leaves]
    by (simp add: checkPair_def del: of_nat_Suc)
qed

lemma zip_successive: "zip (map f [0..<n]) (tl (map f [0..<n])) = map (\<lambda>i. (f i, f (Suc i))) [0..<n - 1]"
  by (rule nth_equalityI) (auto simp: nth_tl)

lemma describes_consistent:
  assumes "describes P trusted logId leaves rs" "2 \<le> length leaves" "length leaves \<le> 2 ^ 30"
  shows "\<exists>res. verifyLogConsistency P rs trusted = Some (Inr res) \<and> cr_ok res"
proof -
  let ?n = "length leaves"
  define heads where "heads = map (\<lambda>i. (int (Suc i), rs ! i)) [0..<?n]"
  note d = describes_map [OF assms(1)]
  have len: "length rs = ?n" using assms(1) by (simp add: describes_def)
  have one: "\<not> list_ex (\<lambda>r. logIdOf r \<noteq> logIdOf (hd rs)) rs" using d(5) len assms(2) by (cases rs) (auto simp: list_ex_iff)
  have mx: "maxOf (sizeOf (hd rs)) (map sizeOf (tl rs)) = int ?n" using assms(2) by (intro describes_max [OF assms(1)]) auto
  have leaves: "gatherLeaves (map (\<lambda>i. (int i, leaves ! i)) [0..<?n]) [0..<?n] = Inr leaves"
  proof -
    have "map_of (map (\<lambda>i. (int i, leaves ! i)) [0..<?n]) (int i) = Some (leaves ! i)" if "i \<in> set [0..<?n]" for i
      using that by (intro map_of_is_SomeI) (auto simp: comp_def distinct_map inj_on_def)
    from gatherLeaves_intro [of "[0..<?n]", OF this] show ?thesis by (simp add: map_nth)
  qed
  have sorted: "sortBy (\<lambda>a b. fst a \<le> fst b) heads = heads"
    by (rule sortBy_sorted) (simp add: heads_def sorted_wrt_map sorted_wrt_iff_nth_less)
  define hres where "hres x = \<lparr>ch_tree_size = fst x, ch_root_hash = rootHashOf (snd x), ch_signature_ok = True, ch_root_matches_leaves = True\<rparr>" for x :: "int \<times> jsval"
  have hs: "mapRun (checkHead P trusted leaves) heads = Some (Inr (map hres heads))"
    using describes_checkHead [OF assms(1,3)] by (intro mapRun_intro) (auto simp: heads_def hres_def)
  obtain len_of where lo: "\<forall>i. Suc i < ?n \<longrightarrow> checkPair P leaves ((int (Suc i), rs ! i), (int (Suc (Suc i)), rs ! Suc i))
      = Some (Inr \<lparr>cp_from = int (Suc i), cp_to = int (Suc (Suc i)), cp_proof_length = len_of i, cp_ok = True\<rparr>)"
    using describes_checkPair [OF assms(1,3)] by metis
  have ps: "\<exists>ps. mapRun (checkPair P leaves) (zip heads (tl heads)) = Some (Inr ps) \<and> list_all cp_ok ps"
  proof -
    define g where "g i = \<lparr>cp_from = int (Suc i), cp_to = int (Suc (Suc i)), cp_proof_length = len_of i, cp_ok = True\<rparr>" for i
    have "list_all2 (\<lambda>x y. checkPair P leaves x = Some (Inr y)) (zip heads (tl heads)) (map g [0..<?n - 1])"
      using lo unfolding heads_def zip_successive by (simp add: list_all2_conv_all_nth g_def del: of_nat_Suc)
    moreover have "list_all cp_ok (map g [0..<?n - 1])" by (simp add: g_def list_all_iff)
    ultimately show ?thesis unfolding mapRun_ok_iff by blast
  qed
  then obtain ps where ps: "mapRun (checkPair P leaves) (zip heads (tl heads)) = Some (Inr ps)" "list_all cp_ok ps" by blast
  have "concat (map headReasons (map hres heads)) = []" by (simp add: headReasons_def hres_def)
  moreover have "concat (map pairReasons ps) = []" using ps(2) by (simp add: pairReasons_def list_all_iff)
  moreover have "length heads = ?n" by (simp add: heads_def)
  moreover have "list_all (\<lambda>h. ch_signature_ok h \<and> ch_root_matches_leaves h) (map hres heads)" by (simp add: hres_def list_all_iff)
  ultimately show ?thesis
    using assms(2) len one hs ps sorted
    by (simp add: verifyLogConsistency_def d(4) Let_def mx describes_leaves [OF assms(1)] leaves describes_heads [OF assms(1), folded heads_def])
qed

end
