(* ===== verification/History.thy ===== *)
theory History
  imports Engine Consistency
begin

text \<open>
  The evidence plane (\<open>Engine\<close>) and the consistency check (\<open>Consistency\<close>) together: the receipts a plane seals, taken in the order they
  were sealed, pass the check, and any set of receipts that passes describes one history.
\<close>

lemma describes_snoc:
  assumes "describes P trusted logId leaves rs" "jtruthy (mem r ''sth'')" "jtruthy (mem r ''inclusion'')" "logIdOf r = logId"
    "leafIndexOf r = int (length leaves)" "leafOf P r = Inr l" "sizeOf r = int (Suc (length leaves))"
    "multihashDigest (rootHashOf r) = Inr (MTH (sha256 P) (leaves @ [l]))" "headSigned P trusted r"
  shows "describes P trusted logId (leaves @ [l]) (rs @ [r])"
proof -
  have len: "length rs = length leaves" using assms(1) by (simp add: describes_def)
  have "let r' = (rs @ [r]) ! i in jtruthy (mem r' ''sth'') \<and> jtruthy (mem r' ''inclusion'') \<and> logIdOf r' = logId \<and> leafIndexOf r' = int i
      \<and> leafOf P r' = Inr ((leaves @ [l]) ! i) \<and> sizeOf r' = int (Suc i)
      \<and> multihashDigest (rootHashOf r') = Inr (MTH (sha256 P) (take (Suc i) (leaves @ [l]))) \<and> headSigned P trusted r'"
    if "i < Suc (length leaves)" for i
  proof (cases "i < length leaves")
    case True
    then show ?thesis using describes_nth [OF assms(1) True] len by (simp add: nth_append Let_def)
  next
    case False
    then have "i = length leaves" using that by simp
    then show ?thesis using assms(2-9) len by (simp add: nth_append Let_def)
  qed
  then show ?thesis using len by (simp add: describes_def)
qed

lemma rootHash_MTH:
  assumes "ml_rootHash P lg = Some (Inr rt)"
  shows "multihashDigest rt = Inr (MTH (sha256 P) (ml_leafHashes lg))"
proof -
  obtain r where "merkleRoot (sha256 P) (ml_leafHashes lg) = Some r" "multihashFromDigest r = Inr rt"
    using assms by (auto simp: ml_rootHash_def rootOf_def runbind_ok_iff)
  moreover from this have "length r = 32" "rt = MULTIHASH_PREFIX @ toHex r" by (auto simp: multihashFromDigest_def MULTIHASH_PREFIX_def split: if_splits)
  ultimately show ?thesis using merkleRoot_SomeD by (auto simp: multihashFromDigest_ok)
qed

lemma seal_describes:
  assumes "signs P" "sources_ok src" "plane_ok P pl" "event_ok P pl event" "logSize pl < 2 ^ 30" "seal P src event pl = Some (Inr (r, pl'))"
    and "describes P None (ml_logId (pl_log pl)) (ml_leafHashes (pl_log pl)) rs"
  shows "plane_ok P pl' \<and> logSize pl' = Suc (logSize pl) \<and> describes P None (ml_logId (pl_log pl')) (ml_leafHashes (pl_log pl')) (rs @ [r])"
proof -
  obtain core message path rt leaf ts pl1 r1 where s:
    "seal P src event pl = Some (Inr (r1, pl1))"
    "r1 = receiptVal (signedRecordV2 core (hybridSign P message (ks_record (pl_keys pl1)))) (bindingHashV2 P core) (inclusionVal (logSize pl) (logSize pl1) path)
       (sthVal (signSTH P (ks_log (pl_keys pl1)) \<lparr>log_id = ml_logId (pl_log pl1), tree_size = int (logSize pl1), root_hash = rt, sth_timestamp = ts\<rparr>)) pl1"
    "plane_ok P pl1" "logSize pl1 = Suc (logSize pl)" "recordLeafDataV2 (bindingHashV2 P core) = Inr leaf"
    "ml_rootHash P (pl_log pl1) = Some (Inr rt)" "ml_leafHashes (pl_log pl1) = ml_leafHashes (pl_log pl) @ [leafHash (sha256 P) leaf]"
    "ml_logId (pl_log pl1) = ml_logId (pl_log pl)"
    using seal_run [OF assms(2-5)] by metis
  have eq: "r1 = r" "pl1 = pl'" using s(1) assms(6) by auto
  have key: "key_ok P (pl_directory pl1) (ks_log (pl_keys pl1))" "generated P (ks_log (pl_keys pl1))" using s(3) by (simp_all add: plane_ok_def key_ok_def)
  have n: "length (ml_leafHashes (pl_log pl)) = logSize pl" using assms(3) by (simp add: plane_ok_def ml_ok_def logSize_def ml_size_def)
  define sth where "sth = signSTH P (ks_log (pl_keys pl1)) \<lparr>log_id = ml_logId (pl_log pl1), tree_size = int (logSize pl1), root_hash = rt, sth_timestamp = ts\<rparr>"
  note r = s(2) [folded sth_def]
  have f: "log_id sth = ml_logId (pl_log pl)" "tree_size sth = int (logSize pl1)" "root_hash sth = rt"
    "sth_signature sth = hybridSign P (sthSigningMessage P (sthCore sth)) (ks_log (pl_keys pl1))"
    using s(8) by (simp_all add: sth_def signSTH_def Let_def sthCore_def)
  have lid: "mem (sthVal sth) ''log_id'' = JStr (log_id sth)" by (simp add: sthVal_def readMember_Cons)
  have inc: "mem (inclusionVal i n path) ''leaf_index'' = jInt (int i)" "jtruthy (inclusionVal i n path)" for i n by (simp_all add: inclusionVal_def readMember_Cons)
  have ints: "intv (jInt i) = i" for i by (simp add: intv_def jInt_def)
  have obj: "keyVal e \<noteq> JUndef" for e by (simp add: keyVal_def)
  have "headSigned P None r1"
    using key_lookup [OF key(1)] hybridVerify_hybridSign [OF assms(1) key(2)]
    by (simp add: headSigned_def r sthOf_sthVal f Let_def orElse_def lookupKey_def obj split: if_splits)
  moreover have "leafOf P r1 = Inr (leafHash (sha256 P) leaf)" using s(5) by (simp add: leafOf_def r strv_JStr)
  moreover have "multihashDigest (rootHashOf r1) = Inr (MTH (sha256 P) (ml_leafHashes (pl_log pl) @ [leafHash (sha256 P) leaf]))"
    using rootHash_MTH [OF s(6)] s(7) by (simp add: rootHashOf_def r sthOf_sthVal f strv_JStr)
  moreover have "logIdOf r1 = ml_logId (pl_log pl)" "sizeOf r1 = int (Suc (logSize pl))" "leafIndexOf r1 = int (logSize pl)"
    using s(4) by (simp_all add: logIdOf_def sizeOf_def leafIndexOf_def r sthOf_sthVal lid f strv_JStr ints inc)
  moreover have "jtruthy (mem r1 ''sth'')" "jtruthy (mem r1 ''inclusion'')" by (simp_all add: r sthOf_sthVal inc)
  ultimately have "describes P None (ml_logId (pl_log pl)) (ml_leafHashes (pl_log pl) @ [leafHash (sha256 P) leaf]) (rs @ [r1])"
    using n by (intro describes_snoc [OF assms(7)]) simp_all
  then show ?thesis using s(3,4,7,8) eq by simp
qed

lemma uses_describes:
  assumes "uses P src pl0 rs pl" "signs P" "sources_ok src" "plane_ok P pl0" "logSize pl0 = 0" "length rs \<le> 2 ^ 30"
  shows "plane_ok P pl \<and> logSize pl = length rs \<and> describes P None (ml_logId (pl_log pl)) (ml_leafHashes (pl_log pl)) rs"
  using assms(1,6)
proof (induction rule: uses.induct)
  case booted
  have "ml_leafHashes (pl_log pl0) = []" using assms(4,5) by (simp add: plane_ok_def ml_ok_def logSize_def ml_size_def)
  then show ?case using assms(4,5) by (simp add: describes_def)
next
  case (sealed rs pl event r pl')
  then have IH: "plane_ok P pl" "logSize pl = length rs" "describes P None (ml_logId (pl_log pl)) (ml_leafHashes (pl_log pl)) rs" "logSize pl < 2 ^ 30" by auto
  show ?case using seal_describes [OF assms(2,3) IH(1) sealed(2) IH(4) sealed(3) IH(3)] IH(2) by simp
next
  case (head rs pl sth pl')
  have f: "fixedPart pl' = fixedPart pl" using currentSTH_fixed [OF head(2)] .
  then show ?case using head fixedPart_fields [OF f] plane_ok_fixed [OF f] by (simp add: logSize_def)
qed

text \<open>
  \<^bold>\<open>C24.\<close> A plane never forks its log: the receipts sealed by a plane that started with an empty log, two or more, always pass the
  consistency check, without any key but those in the receipts.
\<close>

theorem plane_history_consistent:
  assumes "uses P src pl0 rs pl" "signs P" "sources_ok src" "plane_ok P pl0" "logSize pl0 = 0" "2 \<le> length rs" "length rs \<le> 2 ^ 30"
  shows "\<exists>res. verifyLogConsistency P rs None = Some (Inr res) \<and> cr_ok res"
proof -
  have d: "describes P None (ml_logId (pl_log pl)) (ml_leafHashes (pl_log pl)) rs" using uses_describes [OF assms(1-5,7)] by simp
  then have "length (ml_leafHashes (pl_log pl)) = length rs" by (simp add: describes_def)
  then show ?thesis using describes_consistent [OF d] assms(6,7) by simp
qed

lemma included_index:
  assumes "verifyInclusionDomain P r = DPass"
  shows "0 \<le> leafIndexOf r" "leafIndexOf r < sizeOf r"
  using assms by (auto simp: verifyInclusionDomain_def leafIndexOf_def sizeOf_def Let_def split: if_splits)

text \<open>
  \<^bold>\<open>C25.\<close> Receipts that pass describe one history: there is a sequence of leaves, each the record of one of the receipts at the index
  it claims, such that every receipt with a tree head names the same log, its tree head is the Merkle tree hash of the first
  \<^verbatim>\<open>tree_size\<close> leaves, and a head of that size and root is signed; and its record is the leaf at the index it claims if its
  own inclusion proof verifies or the index lies below the largest tree size.  Of a receipt that claims an index beyond that,
  whose inclusion proof cannot verify, the check says nothing.
\<close>

theorem consistent_receipts_one_history:
  assumes "verifyLogConsistency P receipts trusted = Some (Inr res)" "cr_ok res"
  shows "\<exists>leaves logId. (\<forall>i<length leaves. \<exists>r\<in>set (headed receipts). leafIndexOf r = int i \<and> leafOf P r = Inr (leaves ! i))
    \<and> (\<forall>r\<in>set (headed receipts). logIdOf r = logId \<and> sizeOf r \<le> int (length leaves)
      \<and> (verifyInclusionDomain P r = DPass \<longrightarrow>
           0 \<le> leafIndexOf r \<and> leafIndexOf r < sizeOf r \<and> leafOf P r = Inr (leaves ! nat (leafIndexOf r)))
      \<and> (0 \<le> leafIndexOf r \<and> leafIndexOf r < int (length leaves) \<longrightarrow> leafOf P r = Inr (leaves ! nat (leafIndexOf r)))
      \<and> multihashDigest (rootHashOf r) = Inr (MTH (sha256 P) (sliceTo (sizeOf r) leaves))
      \<and> (\<exists>r'\<in>set (headed receipts). sizeOf r' = sizeOf r \<and> rootHashOf r' = rootHashOf r \<and> headSigned P trusted r'))"
proof -
  obtain leaves logId where l: "\<forall>i<length leaves. \<exists>r\<in>set (headed receipts). leafIndexOf r = int i \<and> leafOf P r = Inr (leaves ! i)"
    and h: "\<forall>r\<in>set (headed receipts). logIdOf r = logId \<and> sizeOf r \<le> int (length leaves)
    \<and> (0 \<le> leafIndexOf r \<and> leafIndexOf r < int (length leaves) \<longrightarrow> leafOf P r = Inr (leaves ! nat (leafIndexOf r)))
    \<and> multihashDigest (rootHashOf r) = Inr (MTH (sha256 P) (sliceTo (sizeOf r) leaves))
    \<and> (\<exists>r'\<in>set (headed receipts). sizeOf r' = sizeOf r \<and> rootHashOf r' = rootHashOf r \<and> headSigned P trusted r')"
    using consistent_one_history [OF assms] by blast
  have "leafOf P r = Inr (leaves ! nat (leafIndexOf r))"
    if "r \<in> set (headed receipts)" "verifyInclusionDomain P r = DPass" for r
    using included_index [OF that(2)] h that(1) by force
  with included_index l h show ?thesis by (intro exI [of _ leaves] exI [of _ logId]) blast
qed

section \<open>Witnesses\<close>

lemma toyHistory:
  obtains pl rs pl' where "plane_ok toyEnv pl" "logSize pl = 0" "uses toyEnv toySources pl rs pl'" "length rs = 2"
proof -
  obtain pl where pl: "plane_ok toyEnv pl" "logSize pl = 0" "event_ok toyEnv pl toyEvent" using toyPlane by metis
  have small: "logSize pl < 2 ^ 30" using pl(2) by simp
  obtain r1 pl1 where s1: "seal toyEnv toySources toyEvent pl = Some (Inr (r1, pl1))" "plane_ok toyEnv pl1" "logSize pl1 = Suc (logSize pl)"
    using sealed_verdict [OF signs_toyEnv toySources_ok pl(1,3) small] by metis
  have u1: "uses toyEnv toySources pl [r1] pl1" using uses.sealed [OF uses.booted pl(3) s1(1)] by simp
  let ?e = "Evidence \<lparr>ee_type = ''t'', ee_applicationId = ''a'', ee_executionId = ''x'', ee_metadata = None, ee_input = Some (Text ''in''), ee_output = None,
     ee_state = None, ee_software = None, ee_gpu = None\<rparr>"
  have e: "event_ok toyEnv pl1 ?e" by simp
  have small1: "logSize pl1 < 2 ^ 30" using s1(3) pl(2) by simp
  obtain r2 pl2 where s2: "seal toyEnv toySources ?e pl1 = Some (Inr (r2, pl2))" using sealed_verdict [OF signs_toyEnv toySources_ok s1(2) e small1] by metis
  have "uses toyEnv toySources pl ([r1] @ [r2]) pl2" by (rule uses.sealed [OF u1 e s2])
  then show ?thesis using that [OF pl(1,2), of "[r1, r2]" pl2] by simp
qed

theorem plane_history_consistent_witness: "\<exists>rs res. length rs = 2 \<and> verifyLogConsistency toyEnv rs None = Some (Inr res) \<and> cr_ok res"
proof -
  obtain pl rs pl' where h: "plane_ok toyEnv pl" "logSize pl = 0" "uses toyEnv toySources pl rs pl'" "length rs = 2" using toyHistory .
  show ?thesis using plane_history_consistent [OF h(3) signs_toyEnv toySources_ok h(1,2)] h(4) by auto
qed

theorem consistent_receipts_one_history_witness:
  "\<exists>rs leaves. length rs = 2
     \<and> (\<forall>i<length leaves. \<exists>r\<in>set (headed rs). leafIndexOf r = int i \<and> leafOf toyEnv r = Inr (leaves ! i))
     \<and> (\<forall>r\<in>set (headed rs). sizeOf r \<le> int (length leaves)
       \<and> multihashDigest (rootHashOf r) = Inr (MTH (sha256 toyEnv) (sliceTo (sizeOf r) leaves)))"
proof -
  obtain pl rs pl' where h: "plane_ok toyEnv pl" "logSize pl = 0" "uses toyEnv toySources pl rs pl'" "length rs = 2" using toyHistory .
  have d: "describes toyEnv None (ml_logId (pl_log pl')) (ml_leafHashes (pl_log pl')) rs"
    using uses_describes [OF h(3) signs_toyEnv toySources_ok h(1,2)] h(4) by simp
  then have "length (ml_leafHashes (pl_log pl')) = 2" using h(4) by (simp add: describes_def)
  then obtain res where "verifyLogConsistency toyEnv rs None = Some (Inr res)" "cr_ok res" using describes_consistent [OF d] by auto
  from consistent_receipts_one_history [OF this] show ?thesis using h(4) by blast
qed

end
