(* ===== verification/Transparency.thy ===== *)
theory Transparency
  imports Engine Envelope
begin

text \<open>
  \<^verbatim>\<open>src/src/phala/witness.ts\<close> and \<^verbatim>\<open>src/src/platform/transparency.ts\<close>: independent co-signatures on tree heads, and the log that publishes
  envelopes.  A receipt is the list of its entries, as in the theory \<open>Receipt\<close>.

  A co-signature made for a receipt's head and attached to it counts, and nothing else about the count changes.  A published envelope
  carries a checkpoint that proves its digest included under a head signed by the log key; publishing it again adds no leaf.
\<close>

section \<open>witness.ts\<close>

record WitnessStatement =
  ws_witness_id :: string
  ws_log_id :: string
  ws_tree_size :: int
  ws_root_hash :: string
  ws_observed_at :: string
  ws_witness :: Witness
  ws_directory_entry :: DirectoryEntry

definition cosign :: "env \<Rightarrow> STH \<Rightarrow> KeyPair \<Rightarrow> WitnessStatement" where
  "cosign P sth key =
     (let signature = hybridSign P (sthSigningMessage P (sthCore sth)) key in
      \<lparr>ws_witness_id = keyId key, ws_log_id = log_id sth, ws_tree_size = tree_size sth, ws_root_hash = root_hash sth, ws_observed_at = sth_timestamp sth,
       ws_witness = \<lparr>w_id = keyId key, w_external = True, w_alg = sig_alg signature, w_ml_dsa = sig_ml_dsa signature, w_ed25519 = sig_ed25519 signature\<rparr>,
       ws_directory_entry = directoryEntry key\<rparr>)"

text \<open>\<^verbatim>\<open>witnesses.some((w) => w.id === id)\<close>; reading \<^verbatim>\<open>id\<close> of null throws.\<close>

fun someWitness :: "string \<Rightarrow> jsval list \<Rightarrow> bool res" where
  "someWitness i [] = Inr False"
| "someWitness i (w # ws) = (if w = JNull \<or> w = JUndef then Inl TypeError
     else if mem w ''id'' = JStr i then Inr True else someWitness i ws)"

definition attachWitness :: "(string \<times> jsval) list \<Rightarrow> WitnessStatement \<Rightarrow> (string \<times> jsval) list res" where
  "attachWitness receipt statement =
     (let sth = readMember receipt ''sth'' in
      if \<not> jtruthy sth then Inl (Error ''this receipt carries no tree head to witness'')
      else if mem sth ''log_id'' \<noteq> JStr (ws_log_id statement) \<or> mem sth ''tree_size'' \<noteq> jInt (ws_tree_size statement)
        \<or> mem sth ''root_hash'' \<noteq> JStr (ws_root_hash statement) \<or> mem sth ''timestamp'' \<noteq> JStr (ws_observed_at statement)
      then Inl (Error ''witness statement is for another tree head'')
      else rbind (someWitness (ws_witness_id statement) (arrv (mem sth ''witnesses''))) (\<lambda>already.
        let witnesses = (if already then arrv (mem sth ''witnesses'') else arrv (mem sth ''witnesses'') @ [witnessVal (ws_witness statement)]);
            directory = mput (ws_witness_id statement) (keyVal (ws_directory_entry statement))
              (case entriesOf (readMember receipt ''key_directory'') of Some es \<Rightarrow> es | None \<Rightarrow> []);
            sth' = mput ''witnesses'' (JArr witnesses) (case entriesOf sth of Some es \<Rightarrow> es | None \<Rightarrow> [])
        in Inr (mput ''key_directory'' (JObj directory) (mput ''sth'' (JObj sth') receipt))))"

record WitnessCount =
  wc_external :: nat
  wc_self :: nat
  wc_invalid :: nat

fun countLoop :: "env \<Rightarrow> jsval \<Rightarrow> bytes \<Rightarrow> jsval list \<Rightarrow> WitnessCount \<Rightarrow> WitnessCount res" where
  "countLoop P directory message [] n = Inr n"
| "countLoop P directory message (w # ws) n =
     (if w = JNull \<or> w = JUndef then Inl TypeError
      else if \<not> jtruthy (mem w ''external'') then countLoop P directory message ws (n\<lparr>wc_self := Suc (wc_self n)\<rparr>)
      else if directory = JNull \<or> directory = JUndef then Inl TypeError
      else let entry = mem directory (asText P (mem w ''id'')) in
        if entry \<noteq> JUndef \<and> hv_ok (hybridVerify P message \<lparr>sig_alg = strv (mem w ''alg''), sig_key_id = strv (mem w ''id''),
             sig_ml_dsa = strv (mem w ''ml_dsa''), sig_ed25519 = strv (mem w ''ed25519'')\<rparr> (entryOf entry))
        then countLoop P directory message ws (n\<lparr>wc_external := Suc (wc_external n)\<rparr>)
        else countLoop P directory message ws (n\<lparr>wc_invalid := Suc (wc_invalid n)\<rparr>))"

definition countWitnesses :: "env \<Rightarrow> jsval \<Rightarrow> WitnessCount res" where
  "countWitnesses P receipt =
     (let sth = mem receipt ''sth''; zero = \<lparr>wc_external = 0, wc_self = 0, wc_invalid = 0\<rparr> in
      if receipt = JNull \<or> receipt = JUndef then Inl TypeError
      else if \<not> jtruthy sth then Inr zero
      else case mem sth ''witnesses'' of
          JArr ws \<Rightarrow> countLoop P (mem receipt ''key_directory'') (sthSigningMessage P (sthOf sth)) ws zero
        | _ \<Rightarrow> Inl TypeError)"

section \<open>transparency.ts\<close>

record TransparencyLog =
  tl_log :: MemoryLog
  tl_index :: "(string \<times> nat) list"

definition newTransparencyLog :: "string \<Rightarrow> KeyPair \<Rightarrow> TransparencyLog" where
  "newTransparencyLog logId logKey = \<lparr>tl_log = newMemoryLog logId logKey, tl_index = []\<rparr>"

definition tl_size :: "TransparencyLog \<Rightarrow> nat" where
  "tl_size t = ml_size (tl_log t)"

definition addWitness :: "env \<Rightarrow> KeyPair \<Rightarrow> STH \<Rightarrow> STH" where
  "addWitness P w sth = sth\<lparr>sth_witnesses := sth_witnesses sth @ [ws_witness (cosign P sth w)]\<rparr>"

definition tl_checkpoint :: "env \<Rightarrow> TransparencyLog \<Rightarrow> string \<Rightarrow> string \<Rightarrow> KeyPair list \<Rightarrow> Checkpoint option run" where
  "tl_checkpoint P t now digest witnesses = (case map_of (tl_index t) digest of
       None \<Rightarrow> Some (Inr None)
     | Some index \<Rightarrow>
         runbind (ml_buildSTH P (tl_log t) now) (\<lambda>sth.
         let sth' = fold (addWitness P) witnesses sth in
         runbind (ml_inclusionAuditPath P (tl_log t) (int index)) (\<lambda>path.
         Some (Inr (Some \<lparr>cp_sth = sth', cp_leaf_index = int index, cp_audit_path = path\<rparr>)))))"

definition publish :: "env \<Rightarrow> string \<Rightarrow> SignedEnvelope \<Rightarrow> TransparencyLog \<Rightarrow> (SignedEnvelope \<times> TransparencyLog) run" where
  "publish P now env t =
     runbind (Some (case map_of (tl_index t) (se_digest env) of
         Some index \<Rightarrow> Inr t
       | None \<Rightarrow> rbind (envelopeLeaf env) (\<lambda>leaf.
           let (res, lg) = ml_append P leaf (tl_log t) in
           Inr \<lparr>tl_log = lg, tl_index = mput (se_digest env) (ar_leafIndex res) (tl_index t)\<rparr>))) (\<lambda>t'.
     runbind (tl_checkpoint P t' now (se_digest env) []) (\<lambda>cp.
     Some (Inr (withCheckpoint env (the cp), t'))))"

section \<open>A co-signature counts\<close>

lemma lookupKey_mput: "i \<noteq> k \<Longrightarrow> lookupKey (JObj (mput k v dir)) i = lookupKey (JObj dir) i" "lookupKey (JObj (mput k (keyVal e) dir)) k = Some (keyVal e)"
  by (simp_all add: lookupKey_def readMember_def keyVal_def)

lemma countExternal_append:
  "countExternal P d m (xs @ ys) n = rbind (countExternal P d m xs n) (\<lambda>k. countExternal P d m ys k)"
  by (induction P d m xs n rule: countExternal.induct) (auto split: option.splits)

lemma witnessVal_fields: "mem (witnessVal w) ''id'' = JStr (w_id w)" "mem (witnessVal w) ''external'' = JBool (w_external w)"
  "mem (witnessVal w) ''alg'' = JStr (w_alg w)" "mem (witnessVal w) ''ml_dsa'' = JStr (w_ml_dsa w)" "mem (witnessVal w) ''ed25519'' = JStr (w_ed25519 w)"
  "witnessVal w \<noteq> JNull" "witnessVal w \<noteq> JUndef"
  by (simp_all add: witnessVal_def readMember_Cons)

lemma countExternal_other:
  "k \<notin> w_id ` set ws \<Longrightarrow> countExternal P (JObj (mput k v dir)) m (map witnessVal ws) n = countExternal P (JObj dir) m (map witnessVal ws) n"
  by (induction ws arbitrary: n) (auto simp: witnessVal_fields asText_def lookupKey_mput(1) [OF not_sym] split: option.split)

lemma someWitness_iff: "someWitness i (map witnessVal ws) = Inr (i \<in> w_id ` set ws)"
  by (induction ws) (auto simp: witnessVal_fields)

lemma cosign_verifies:
  "signs P \<Longrightarrow> generated P key \<Longrightarrow> hv_ok (hybridVerify P (sthSigningMessage P (sthCore sth)) (witnessBlock (ws_witness (cosign P sth key))) (directoryEntry key))"
  using hybridVerify_hybridSign [of P key] by (simp add: cosign_def Let_def witnessBlock_def hybridSign_def)

lemma sthVal_put: "mem (JObj (mput ''witnesses'' v (case entriesOf (sthVal s) of Some es \<Rightarrow> es | None \<Rightarrow> []))) f = (if f = ''witnesses'' then v else mem (sthVal s) f)"
  by (simp add: sthVal_def entriesOf_def readMember_Cons)

lemma readMember_mput: "readMember (mput k v es) f = (if f = k then v else readMember es f)"
  by (simp add: readMember_def)

lemma countExternal_ge: "countExternal P d m ws n = Inr k \<Longrightarrow> n \<le> k"
  by (induction P d m ws n rule: countExternal.induct) (force split: option.splits if_splits)+

lemma attachWitness_new:
  assumes "readMember es ''sth'' = sthVal s" "readMember es ''key_directory'' = JObj dir" "keyId key \<notin> w_id ` set (sth_witnesses s)"
  obtains es' sth' where "attachWitness es (cosign P s key) = Inr es'" "mem (JObj es') ''sth'' = sth'" "sthOf sth' = sthCore s" "jtruthy sth'"
    "arrv (mem sth' ''witnesses'') = map witnessVal (sth_witnesses s) @ [witnessVal (ws_witness (cosign P s key))]"
    "mem (JObj es') ''key_directory'' = JObj (mput (keyId key) (keyVal (directoryEntry key)) dir)"
proof -
  let ?st = "cosign P s key" and ?entries = "case entriesOf (sthVal s) of Some es \<Rightarrow> es | None \<Rightarrow> []"
  have st: "ws_witness_id ?st = keyId key" "ws_log_id ?st = log_id s" "ws_tree_size ?st = tree_size s" "ws_root_hash ?st = root_hash s"
    "ws_observed_at ?st = sth_timestamp s" "ws_directory_entry ?st = directoryEntry key" by (simp_all add: cosign_def Let_def)
  have f: "mem (sthVal s) ''log_id'' = JStr (log_id s)" "mem (sthVal s) ''timestamp'' = JStr (sth_timestamp s)" by (simp_all add: sthVal_def readMember_Cons)
  define ws where "ws = map witnessVal (sth_witnesses s) @ [witnessVal (ws_witness ?st)]"
  define sth' where "sth' = JObj (mput ''witnesses'' (JArr ws) ?entries)"
  define es' where "es' = mput ''key_directory'' (JObj (mput (keyId key) (keyVal (directoryEntry key)) dir)) (mput ''sth'' sth' es)"
  have "attachWitness es ?st = Inr es'"
    using assms by (simp add: attachWitness_def Let_def sthOf_sthVal f st someWitness_iff arrv_def es'_def sth'_def ws_def entriesOf_def [of "JObj dir"])
  moreover have "sthOf sth' = sthCore s" using sthOf_sthVal(1) [of s] by (simp add: sthOf_def sth'_def sthVal_put del: mem_JObj)
  moreover have "arrv (mem sth' ''witnesses'') = ws" by (simp add: sth'_def sthVal_put arrv_def del: mem_JObj)
  moreover have "jtruthy sth'" by (simp add: sth'_def)
  ultimately show ?thesis using that [of es' sth'] by (simp add: es'_def readMember_mput ws_def)
qed

lemma attachWitness_other_head:
  assumes "readMember es ''sth'' = sthVal s" "sthCore s2 \<noteq> sthCore s"
  shows "\<exists>e. attachWitness es (cosign P s2 key) = Inl e"
proof -
  have f: "mem (sthVal s) ''log_id'' = JStr (log_id s)" "mem (sthVal s) ''timestamp'' = JStr (sth_timestamp s)" by (simp_all add: sthVal_def readMember_Cons)
  have "log_id s2 \<noteq> log_id s \<or> tree_size s2 \<noteq> tree_size s \<or> root_hash s2 \<noteq> root_hash s \<or> sth_timestamp s2 \<noteq> sth_timestamp s"
    using assms(2) by (auto simp: sthCore_def)
  then show ?thesis using assms(1) by (auto simp: attachWitness_def cosign_def Let_def sthOf_sthVal f jInt_def)
qed

text \<open>
  A witness counts, once and only for what it saw: attaching the co-signature of a new witness to a receipt raises the number of
  external witnesses the verifier counts by one, whatever witnesses were there before; a statement about any other tree head, even
  one that differs in the timestamp alone, is refused.
\<close>

theorem attached_witness_counts:
  assumes "signs P" "generated P key"
    and "readMember es ''sth'' = sthVal s" "readMember es ''key_directory'' = JObj dir" "keyId key \<notin> w_id ` set (sth_witnesses s)"
    and "countExternal P (JObj dir) (sthSigningMessage P (sthCore s)) (map witnessVal (sth_witnesses s)) 0 = Inr n"
  shows "(\<exists>es'. attachWitness es (cosign P s key) = Inr es' \<and> verifyWitnessesDomain P (JObj es') (n + 1) = Inr DPass
       \<and> verifyWitnessesDomain P (JObj es') (n + 2) = Inr DAbsent)
    \<and> (\<forall>s2. sthCore s2 \<noteq> sthCore s \<longrightarrow> (\<exists>e. attachWitness es (cosign P s2 key) = Inl e))"
proof -
  obtain es' sth' where a: "attachWitness es (cosign P s key) = Inr es'" "mem (JObj es') ''sth'' = sth'" "sthOf sth' = sthCore s" "jtruthy sth'"
    "arrv (mem sth' ''witnesses'') = map witnessVal (sth_witnesses s) @ [witnessVal (ws_witness (cosign P s key))]"
    "mem (JObj es') ''key_directory'' = JObj (mput (keyId key) (keyVal (directoryEntry key)) dir)"
    using attachWitness_new [OF assms(3-5)] .
  let ?dir = "JObj (mput (keyId key) (keyVal (directoryEntry key)) dir)" and ?m = "sthSigningMessage P (sthCore s)" and ?w = "ws_witness (cosign P s key)"
  have w: "w_id ?w = keyId key" "w_external ?w" by (simp_all add: cosign_def Let_def)
  have "countExternal P ?dir ?m (map witnessVal (sth_witnesses s)) 0 = Inr n" using assms(6) countExternal_other [OF assms(5)] by simp
  moreover have "countExternal P ?dir ?m [witnessVal ?w] n = Inr (n + 1)"
    using cosign_verifies [OF assms(1,2), of s] w
    by (simp add: witnessVal_fields asText_def lookupKey_mput strv_JStr witnessBlock_def jtruthy_def)
  ultimately have "countExternal P ?dir ?m (map witnessVal (sth_witnesses s) @ [witnessVal ?w]) 0 = Inr (n + 1)" by (simp only: countExternal_append rbind_simps)
  moreover have "0 \<le> n" using countExternal_ge [OF assms(6)] .
  ultimately have "verifyWitnessesDomain P (JObj es') t = Inr (if n + 1 \<ge> max t 1 then DPass else DAbsent)" for t
    using a(2-6) by (simp add: verifyWitnessesDomain_def Let_def del: mem_JObj)
  then show ?thesis using a(1) attachWitness_other_head [OF assms(3)] \<open>0 \<le> n\<close> by auto
qed

section \<open>A published envelope is included\<close>

definition tlog_ok :: "env \<Rightarrow> TransparencyLog \<Rightarrow> bool" where
  "tlog_ok P t = (ml_ok P (tl_log t) \<and> (\<forall>d i. map_of (tl_index t) d = Some i \<longrightarrow> i < tl_size t \<and> (\<exists>leaf. multihashDigest d = Inr leaf \<and> ml_leaves (tl_log t) ! i = leaf)))"

lemma newTransparencyLog_ok: "digests32 P \<Longrightarrow> tlog_ok P (newTransparencyLog i key)"
  by (simp add: tlog_ok_def newTransparencyLog_def newMemoryLog_ok)

lemma addWitness_core: "sthCore (fold (addWitness P) ws s) = sthCore s" "sth_signature (fold (addWitness P) ws s) = sth_signature s"
  by (induction ws arbitrary: s) (simp_all add: addWitness_def sthCore_def)

lemma addWitness_witnesses:
  "sth_witnesses (fold (addWitness P) ws s) = sth_witnesses s @ map (\<lambda>w. ws_witness (cosign P s w)) ws"
proof (induction ws arbitrary: s)
  case (Cons w ws)
  have "cosign P (addWitness P w s) k = cosign P s k" for k by (simp add: addWitness_def cosign_def sthCore_def Let_def)
  then show ?case using Cons by (simp add: addWitness_def)
qed simp

lemma cosign_core: "sthCore a = sthCore b \<Longrightarrow> cosign P a key = cosign P b key"
  by (auto simp: cosign_def sthCore_def Let_def)

lemma checkpoint_ok:
  assumes "tlog_ok P t" "tl_size t \<le> 2 ^ 30" "signs P" "generated P (ml_logKey (tl_log t))" "map_of (tl_index t) (se_digest env) = Some i"
  shows "\<exists>cp. tl_checkpoint P t now (se_digest env) ws = Some (Inr (Some cp)) \<and> cp_leaf_index cp = int i \<and> inclusionOf P env cp
    \<and> tree_size (cp_sth cp) = int (tl_size t) \<and> sth_timestamp (cp_sth cp) = now
    \<and> hv_ok (hybridVerify P (sthSigningMessage P (sthCore (cp_sth cp))) (sth_signature (cp_sth cp)) (directoryEntry (ml_logKey (tl_log t))))
    \<and> (\<forall>w\<in>set ws. ws_witness (cosign P (cp_sth cp) w) \<in> set (sth_witnesses (cp_sth cp)))"
proof -
  have ok: "ml_ok P (tl_log t)" and i: "i < ml_size (tl_log t)" and leaf: "multihashDigest (se_digest env) = Inr (ml_leaves (tl_log t) ! i)"
    using assms(1,5) by (auto simp: tlog_ok_def tl_size_def)
  have hash: "ml_leafHashes (tl_log t) ! i = leafHash (sha256 P) (ml_leaves (tl_log t) ! i)" using ok i by (simp add: ml_ok_def ml_size_def)
  obtain path rt ps r where a: "ml_inclusionAuditPath P (tl_log t) (int i) = Some (Inr path)" "ml_rootHash P (tl_log t) = Some (Inr rt)"
    "mapM multihashDigest path = Inr ps" "multihashDigest rt = Inr r"
    "verifyInclusion (sha256 P) (leafHash (sha256 P) (ml_leaves (tl_log t) ! i)) (int i) (int (ml_size (tl_log t))) ps r"
    using ml.audit_complete [OF ok i] assms(2) hash by (auto simp: tl_size_def)
  define core where "core = \<lparr>log_id = ml_logId (tl_log t), tree_size = int (length (ml_leaves (tl_log t))), root_hash = rt, sth_timestamp = now\<rparr>"
  define sth where "sth = signSTH P (ml_logKey (tl_log t)) core"
  define cp where "cp = \<lparr>cp_sth = fold (addWitness P) ws sth, cp_leaf_index = int i, cp_audit_path = path\<rparr>"
  have sth: "sthCore sth = core" by (simp add: sth_def signSTH_def Let_def sthCore_def)
  have core: "sthCore (cp_sth cp) = core" by (simp add: cp_def addWitness_core sth)
  then have f: "root_hash (cp_sth cp) = rt" "tree_size (cp_sth cp) = int (tl_size t)" "sth_timestamp (cp_sth cp) = now"
    by (auto simp: sthCore_def core_def tl_size_def ml_size_def)
  have sig: "sth_signature (cp_sth cp) = hybridSign P (sthSigningMessage P core) (ml_logKey (tl_log t))"
    by (simp add: cp_def addWitness_core sth_def signSTH_def Let_def)
  have "tl_checkpoint P t now (se_digest env) ws = Some (Inr (Some cp))"
    using assms(5) a by (simp add: tl_checkpoint_def ml_buildSTH_def Let_def cp_def sth_def core_def)
  moreover have "inclusionOf P env cp"
    using a leaf f by (simp add: inclusionOf_def envelopeLeaf_def tl_size_def) (simp add: cp_def)
  moreover have "cosign P (cp_sth cp) w = cosign P sth w" for w
    using cosign_core core sth by metis
  then have "\<forall>w\<in>set ws. ws_witness (cosign P (cp_sth cp) w) \<in> set (sth_witnesses (cp_sth cp))" by (simp add: cp_def addWitness_witnesses)
  ultimately show ?thesis
    using core f sig hybridVerify_hybridSign [OF assms(3,4)] by (auto simp: cp_def)
qed

lemma inclusionOf_digest: "se_digest a = se_digest b \<Longrightarrow> inclusionOf P a cp = inclusionOf P b cp"
  by (simp add: inclusionOf_def envelopeLeaf_def)

lemma publish_indexed:
  assumes "tlog_ok P t" "tl_size t \<le> 2 ^ 30" "signs P" "generated P (ml_logKey (tl_log t))" "map_of (tl_index t) (se_digest env) = Some i"
  shows "\<exists>cp. publish P now env t = Some (Inr (withCheckpoint env cp, t)) \<and> inclusionOf P env cp \<and> tree_size (cp_sth cp) = int (tl_size t)
    \<and> hv_ok (hybridVerify P (sthSigningMessage P (sthCore (cp_sth cp))) (sth_signature (cp_sth cp)) (directoryEntry (ml_logKey (tl_log t))))"
  using checkpoint_ok [OF assms, of now "[]"] assms(5) by (auto simp: publish_def)

lemma publish_new:
  assumes "tlog_ok P t" "tl_size t < 2 ^ 30" "map_of (tl_index t) (se_digest env) = None" "multihashDigest (se_digest env) = Inr leaf"
  obtains t' where "publish P now env t = publish P now env t'" "tlog_ok P t'" "map_of (tl_index t') (se_digest env) = Some (tl_size t)"
    "tl_size t' = Suc (tl_size t)" "ml_logKey (tl_log t') = ml_logKey (tl_log t)"
proof -
  obtain res lg where a: "ml_append P leaf (tl_log t) = (res, lg)" by fastforce
  have r: "ar_leafIndex res = tl_size t" "ml_leaves lg = ml_leaves (tl_log t) @ [leaf]" "ml_logKey lg = ml_logKey (tl_log t)"
    using a by (auto simp: ml_append_def Let_def tl_size_def ml_size_def)
  define t' where "t' = \<lparr>tl_log = lg, tl_index = mput (se_digest env) (tl_size t) (tl_index t)\<rparr>"
  have "ml_ok P lg" using ml.append_ok [of P "tl_log t" leaf] assms(1) a by (simp add: tlog_ok_def)
  moreover have sz: "tl_size t' = Suc (tl_size t)" using r(2) by (simp add: tl_size_def ml_size_def t'_def)
  ultimately have ok: "tlog_ok P t'"
    using assms(1,4) r(2) by (auto simp: tlog_ok_def t'_def nth_append tl_size_def ml_size_def less_Suc_eq split: if_splits)
  have "publish P now env t = publish P now env t'"
    using assms(3,4) a r(1) by (simp add: publish_def envelopeLeaf_def t'_def)
  then show ?thesis using that [of t'] ok sz r(3) by (simp add: t'_def)
qed

text \<open>
  Publishing works and is idempotent: a published envelope is the envelope with a checkpoint that proves its digest included under a
  tree head signed by the log key; the log stays well formed and grows by at most one leaf; publishing the same envelope again
  succeeds and leaves the log as it is.
\<close>

theorem published_envelope_included:
  assumes "tlog_ok P t" "tl_size t < 2 ^ 30" "signs P" "generated P (ml_logKey (tl_log t))" "multihashDigest (se_digest env) = Inr leaf"
  shows "\<exists>cp t'. publish P now env t = Some (Inr (withCheckpoint env cp, t')) \<and> tlog_ok P t' \<and> inclusionOf P (withCheckpoint env cp) cp
    \<and> hv_ok (hybridVerify P (sthSigningMessage P (sthCore (cp_sth cp))) (sth_signature (cp_sth cp)) (directoryEntry (ml_logKey (tl_log t))))
    \<and> tl_size t' \<le> Suc (tl_size t) \<and> tree_size (cp_sth cp) = int (tl_size t')
    \<and> (\<forall>later. \<exists>again. publish P later (withCheckpoint env cp) t' = Some (Inr (again, t')))"
proof -
  obtain t' i where t': "publish P now env t = publish P now env t'" "tlog_ok P t'" "map_of (tl_index t') (se_digest env) = Some i"
    "tl_size t' \<le> Suc (tl_size t)" "ml_logKey (tl_log t') = ml_logKey (tl_log t)" "tl_size t' \<le> 2 ^ 30"
  proof (cases "map_of (tl_index t) (se_digest env)")
    case None
    then show ?thesis using publish_new [OF assms(1,2) None assms(5), of now] that assms(2) by (metis Suc_leI order_refl)
  next
    case (Some i)
    then show ?thesis using that [of t i] assms(1,2) by simp
  qed
  have key: "generated P (ml_logKey (tl_log t'))" using assms(4) t'(5) by simp
  obtain cp where cp: "publish P now env t' = Some (Inr (withCheckpoint env cp, t'))" "inclusionOf P env cp" "tree_size (cp_sth cp) = int (tl_size t')"
    "hv_ok (hybridVerify P (sthSigningMessage P (sthCore (cp_sth cp))) (sth_signature (cp_sth cp)) (directoryEntry (ml_logKey (tl_log t'))))"
    using publish_indexed [OF t'(2,6) assms(3) key t'(3)] by blast
  have d: "se_digest (withCheckpoint env cp) = se_digest env" by (simp add: withCheckpoint_def)
  have "\<exists>again. publish P later (withCheckpoint env cp) t' = Some (Inr (again, t'))" for later
    using publish_indexed [OF t'(2,6) assms(3) key, of "withCheckpoint env cp" i later] t'(3) d by auto
  then show ?thesis using t'(1,2,4,5) cp inclusionOf_digest [OF d] by auto
qed

section \<open>Witnesses\<close>

definition toyHead :: STH where
  "toyHead = signSTH toyEnv (toyKey ''log'') \<lparr>log_id = ''l'', tree_size = 1, root_hash = ''r'', sth_timestamp = ''0''\<rparr>"

theorem attached_witness_counts_witness:
  "\<exists>es'. attachWitness [(''sth'', sthVal toyHead), (''key_directory'', JObj [])] (cosign toyEnv toyHead (toyKey ''w'')) = Inr es'
     \<and> verifyWitnessesDomain toyEnv (JObj es') 1 = Inr DPass"
proof -
  have k: "keyId (toyKey ''w'') = ''w''" by (simp add: toyKey_def generateKeypair_def Let_def toyEnv_def)
  have "keyId (toyKey ''w'') \<notin> w_id ` set (sth_witnesses toyHead)" by (simp add: k toyHead_def signSTH_def Let_def)
  moreover have "countExternal toyEnv (JObj []) m (map witnessVal (sth_witnesses toyHead)) 0 = Inr 0" for m
    unfolding toyHead_def by (rule no_external)
  ultimately show ?thesis
    using attached_witness_counts [OF signs_toyEnv generated_toyKey, of "[(''sth'', sthVal toyHead), (''key_directory'', JObj [])]" toyHead "[]" "''w''" 0]
    by (simp add: readMember_Cons) blast
qed

definition toyPublished :: SignedEnvelope where
  "toyPublished = \<lparr>se_format = [], se_core = toyCore, se_encoding = [], se_core_cbor = [], se_digest_alg = [], se_digest = mhSha256 toyHash [],
     se_signatures = [], se_key_directory = [], se_checkpoint = None, se_attestation = None\<rparr>"

theorem published_envelope_included_witness:
  "\<exists>cp t'. publish toyEnv ''0'' toyPublished (newTransparencyLog ''l'' (toyKey ''k'')) = Some (Inr (withCheckpoint toyPublished cp, t'))
     \<and> inclusionOf toyEnv (withCheckpoint toyPublished cp) cp"
proof -
  have "multihashDigest (se_digest toyPublished) = Inr (toyHash [])" by (simp add: toyPublished_def)
  moreover have "generated toyEnv (ml_logKey (tl_log (newTransparencyLog ''l'' (toyKey ''k''))))" "tl_size (newTransparencyLog ''l'' (toyKey ''k'')) < 2 ^ 30"
    by (simp_all add: newTransparencyLog_def newMemoryLog_def generated_toyKey tl_size_def ml_size_def)
  ultimately show ?thesis
    using published_envelope_included [OF newTransparencyLog_ok [OF digests32_toyEnv] _ signs_toyEnv, of "''l''" "toyKey ''k''" toyPublished] by blast
qed

end
