(* ===== verification/Capture.thy ===== *)
theory Capture
  imports Prelude "HOL-Library.Multiset" "HOL-Library.Sublist"
begin

text \<open>
  \<^verbatim>\<open>src/src/phala/capture.ts\<close>: the queue between the application and the attested channel.  The class runs on one thread but its drain
  is asynchronous: \<^verbatim>\<open>capture\<close>, \<^verbatim>\<open>flush\<close> and \<^verbatim>\<open>close\<close> may be called between any two of its awaits.  The state therefore has the
  phase of the drain, and the operations are steps that may interleave in any order (\<open>runs\<close>).  \<open>Settling\<close> is the time between the end
  of the drain's loop and the callback that clears \<^verbatim>\<open>inFlight\<close>.

  What the sink answers, the measured times and which callbacks throw are arguments.  Two fields are not in the class: the events the
  sink accepted and those passed to \<^verbatim>\<open>onDrop\<close>.  Results: nothing is lost silently and the order is kept, the queue is bounded, a drain
  ends, and closing at the wrong moment strands events.
\<close>

section \<open>State\<close>

record CaptureOptions =
  cap_maxQueue :: nat
  cap_flushMs :: nat
  cap_batchSize :: nat
  cap_maxRetries :: nat

definition defaultCaptureOptions :: CaptureOptions where
  "defaultCaptureOptions = \<lparr>cap_maxQueue = 2048, cap_flushMs = 200, cap_batchSize = 32, cap_maxRetries = 2\<rparr>"

text \<open>Which calls of the callbacks throw, and with which message.\<close>

record 'a Callbacks =
  onDrop_throws :: "'a \<Rightarrow> string option"
  onSent_throws :: "'a list \<Rightarrow> string option"

definition DEFAULT_SAMPLES :: nat where
  "DEFAULT_SAMPLES = 512"

datatype 'a Drain = Idle | Sending "'a list" nat | Waiting "'a list" nat | Settling

record 'a CaptureQueue =
  cq_queue :: "'a list"
  cq_samples :: "rat list"
  cq_timer :: bool
  cq_drain :: "'a Drain"
  cq_closed :: bool
  cq_sent :: nat
  cq_dropped :: nat
  cq_failures :: nat
  cq_batches :: nat
  cq_highWater :: nat
  cq_lastError :: "string option"
  cq_delivered :: "'a list"
  cq_lost :: "'a list"

definition newCaptureQueue :: "'a CaptureQueue" where
  "newCaptureQueue = \<lparr>cq_queue = [], cq_samples = [], cq_timer = False, cq_drain = Idle, cq_closed = False, cq_sent = 0, cq_dropped = 0, cq_failures = 0,
     cq_batches = 0, cq_highWater = 0, cq_lastError = None, cq_delivered = [], cq_lost = []\<rparr>"

section \<open>Operations\<close>

definition recordSample :: "rat \<Rightarrow> 'a CaptureQueue \<Rightarrow> 'a CaptureQueue" where
  "recordSample ms q = (let s = cq_samples q @ [ms] in q\<lparr>cq_samples := (if length s > DEFAULT_SAMPLES then tl s else s)\<rparr>)"

definition schedule :: "'a CaptureQueue \<Rightarrow> 'a CaptureQueue" where
  "schedule q = (if cq_timer q \<or> cq_closed q then q else q\<lparr>cq_timer := True\<rparr>)"

definition noteFailure :: "string \<Rightarrow> 'a CaptureQueue \<Rightarrow> 'a CaptureQueue" where
  "noteFailure msg q = q\<lparr>cq_failures := Suc (cq_failures q), cq_lastError := Some msg\<rparr>"

text \<open>The eviction of the oldest event, and whether \<^verbatim>\<open>onDrop\<close> threw.\<close>

definition evict :: "CaptureOptions \<Rightarrow> 'a Callbacks \<Rightarrow> 'a CaptureQueue \<Rightarrow> 'a CaptureQueue \<times> string option" where
  "evict opts cb q =
     (if length (cq_queue q) \<ge> cap_maxQueue opts
      then case cq_queue q of
          [] \<Rightarrow> (q\<lparr>cq_dropped := Suc (cq_dropped q)\<rparr>, None)
        | e # rest \<Rightarrow> (q\<lparr>cq_queue := rest, cq_dropped := Suc (cq_dropped q), cq_lost := cq_lost q @ [e]\<rparr>, onDrop_throws cb e)
      else (q, None))"

definition enqueue :: "'a \<Rightarrow> 'a CaptureQueue \<Rightarrow> 'a CaptureQueue" where
  "enqueue event q = (let q1 = q\<lparr>cq_queue := cq_queue q @ [event]\<rparr> in
     schedule (if length (cq_queue q1) > cq_highWater q1 then q1\<lparr>cq_highWater := length (cq_queue q1)\<rparr> else q1))"

definition capture :: "CaptureOptions \<Rightarrow> 'a Callbacks \<Rightarrow> rat \<Rightarrow> 'a \<Rightarrow> 'a CaptureQueue \<Rightarrow> 'a CaptureQueue" where
  "capture opts cb ms event q =
     (if cq_closed q then q
      else recordSample ms (case evict opts cb q of
          (q1, Some msg) \<Rightarrow> noteFailure msg q1
        | (q1, None) \<Rightarrow> enqueue event q1))"

text \<open>The head of the drain's loop.\<close>

definition loopHead :: "CaptureOptions \<Rightarrow> 'a CaptureQueue \<Rightarrow> 'a CaptureQueue" where
  "loopHead opts q =
     (if cq_queue q = [] then q\<lparr>cq_drain := Settling\<rparr>
      else q\<lparr>cq_queue := drop (cap_batchSize opts) (cq_queue q), cq_drain := Sending (take (cap_batchSize opts) (cq_queue q)) 0\<rparr>)"

definition flush :: "CaptureOptions \<Rightarrow> 'a CaptureQueue \<Rightarrow> 'a CaptureQueue" where
  "flush opts q = (if cq_drain q \<noteq> Idle then q else loopHead opts q)"

definition timerFires :: "CaptureOptions \<Rightarrow> 'a CaptureQueue \<Rightarrow> 'a CaptureQueue" where
  "timerFires opts q = flush opts (q\<lparr>cq_timer := False\<rparr>)"

definition closeQueue :: "CaptureOptions \<Rightarrow> 'a CaptureQueue \<Rightarrow> 'a CaptureQueue" where
  "closeQueue opts q = flush opts (q\<lparr>cq_closed := True, cq_timer := False\<rparr>)"

text \<open>Giving up on a batch: \<^verbatim>\<open>onDrop\<close> for every event in turn; if it throws, the drain is rejected.\<close>

fun dropAll :: "'a Callbacks \<Rightarrow> 'a list \<Rightarrow> 'a CaptureQueue \<Rightarrow> 'a CaptureQueue \<times> bool" where
  "dropAll cb [] q = (q, False)"
| "dropAll cb (e # es) q = (let q1 = q\<lparr>cq_lost := cq_lost q @ [e]\<rparr> in
     if onDrop_throws cb e \<noteq> None then (q1, True) else dropAll cb es q1)"

text \<open>The \<^verbatim>\<open>catch\<close> of an attempt.\<close>

definition attemptFailed :: "CaptureOptions \<Rightarrow> 'a Callbacks \<Rightarrow> string \<Rightarrow> 'a list \<Rightarrow> nat \<Rightarrow> 'a CaptureQueue \<Rightarrow> 'a CaptureQueue" where
  "attemptFailed opts cb msg batch attempt q =
     (let q1 = noteFailure msg q in
      if attempt \<ge> cap_maxRetries opts
      then case dropAll cb batch (q1\<lparr>cq_dropped := cq_dropped q1 + length batch\<rparr>) of
          (q2, True) \<Rightarrow> q2\<lparr>cq_drain := Settling\<rparr>
        | (q2, False) \<Rightarrow> loopHead opts q2
      else q1\<lparr>cq_drain := Waiting batch (Suc attempt)\<rparr>)"

definition attemptSent :: "CaptureOptions \<Rightarrow> 'a Callbacks \<Rightarrow> 'a list \<Rightarrow> nat \<Rightarrow> 'a CaptureQueue \<Rightarrow> 'a CaptureQueue" where
  "attemptSent opts cb batch attempt q =
     (let q1 = q\<lparr>cq_sent := cq_sent q + length batch, cq_batches := Suc (cq_batches q), cq_delivered := cq_delivered q @ batch\<rparr> in
      case onSent_throws cb batch of
          Some msg \<Rightarrow> attemptFailed opts cb msg batch attempt q1
        | None \<Rightarrow> loopHead opts q1)"

text \<open>One step of the drain: the sink answers (\<open>None\<close>: it accepted the batch), a retry timer fires, or \<^verbatim>\<open>inFlight\<close> is cleared.\<close>

definition drainStep :: "CaptureOptions \<Rightarrow> 'a Callbacks \<Rightarrow> string option \<Rightarrow> 'a CaptureQueue \<Rightarrow> 'a CaptureQueue" where
  "drainStep opts cb answer q = (case cq_drain q of
       Idle \<Rightarrow> q
     | Sending batch attempt \<Rightarrow> (case answer of None \<Rightarrow> attemptSent opts cb batch attempt q | Some msg \<Rightarrow> attemptFailed opts cb msg batch attempt q)
     | Waiting batch attempt \<Rightarrow> q\<lparr>cq_drain := Sending batch attempt\<rparr>
     | Settling \<Rightarrow> q\<lparr>cq_drain := Idle\<rparr>)"

record CaptureStats =
  cs_queued :: nat
  cs_sent :: nat
  cs_dropped :: nat
  cs_failures :: nat
  cs_batches :: nat
  cs_highWater :: nat
  cs_p50Ms :: rat
  cs_p99Ms :: rat
  cs_lastError :: "string option"

definition percentile :: "rat list \<Rightarrow> rat \<Rightarrow> rat" where
  "percentile sample f = (if sample = [] then 0 else sample ! min (length sample - 1) (nat \<lfloor>f * of_nat (length sample)\<rfloor>))"

definition stats :: "'a CaptureQueue \<Rightarrow> CaptureStats" where
  "stats q = (let sample = sortBy (\<le>) (cq_samples q) in
     \<lparr>cs_queued = length (cq_queue q), cs_sent = cq_sent q, cs_dropped = cq_dropped q, cs_failures = cq_failures q, cs_batches = cq_batches q,
      cs_highWater = cq_highWater q, cs_p50Ms = percentile sample (1 / 2), cs_p99Ms = percentile sample (99 / 100), cs_lastError = cq_lastError q\<rparr>)"

section \<open>Interleavings\<close>

text \<open>\<open>runs opts cb accepted q\<close>: \<open>q\<close> is reached from a new queue by calls in any order; \<open>accepted\<close> are the events captured while it was open.\<close>

inductive runs :: "CaptureOptions \<Rightarrow> 'a Callbacks \<Rightarrow> 'a list \<Rightarrow> 'a CaptureQueue \<Rightarrow> bool" for opts cb where
  created: "runs opts cb [] newCaptureQueue"
| captured: "runs opts cb es q \<Longrightarrow> \<not> cq_closed q \<Longrightarrow> runs opts cb (es @ [e]) (capture opts cb ms e q)"
| flushed: "runs opts cb es q \<Longrightarrow> runs opts cb es (flush opts q)"
| timed: "runs opts cb es q \<Longrightarrow> cq_timer q \<Longrightarrow> runs opts cb es (timerFires opts q)"
| drained: "runs opts cb es q \<Longrightarrow> runs opts cb es (drainStep opts cb answer q)"
| closed: "runs opts cb es q \<Longrightarrow> runs opts cb es (closeQueue opts q)"

definition quiet :: "'a Callbacks \<Rightarrow> bool" where
  "quiet cb = ((\<forall>e. onDrop_throws cb e = None) \<and> (\<forall>b. onSent_throws cb b = None))"

fun inFlightOf :: "'a Drain \<Rightarrow> 'a list" where
  "inFlightOf (Sending b n) = b"
| "inFlightOf (Waiting b n) = b"
| "inFlightOf d = []"

text \<open>Everything that was accepted is somewhere, the counters say how much, the order is kept, and the queue is bounded.\<close>

definition accounted :: "CaptureOptions \<Rightarrow> 'a list \<Rightarrow> 'a CaptureQueue \<Rightarrow> bool" where
  "accounted opts es q = (mset es = mset (cq_delivered q) + mset (cq_lost q) + mset (inFlightOf (cq_drain q)) + mset (cq_queue q)
     \<and> subseq (cq_delivered q @ inFlightOf (cq_drain q) @ cq_queue q) es
     \<and> cq_sent q = length (cq_delivered q) \<and> cq_dropped q = length (cq_lost q)
     \<and> length (cq_queue q) \<le> cap_maxQueue opts \<and> cq_highWater q \<le> cap_maxQueue opts)"

text \<open>How many steps the drain still needs if nothing is captured meanwhile.\<close>

definition drainWork :: "CaptureOptions \<Rightarrow> 'a CaptureQueue \<Rightarrow> nat" where
  "drainWork opts q = (2 * cap_maxRetries opts + 2) * length (cq_queue q) + (case cq_drain q of
       Idle \<Rightarrow> 0
     | Sending b n \<Rightarrow> 2 * (cap_maxRetries opts - n) + 2
     | Waiting b n \<Rightarrow> 2 * (cap_maxRetries opts - n) + 3
     | Settling \<Rightarrow> 1)"

text \<open>Once the drain stops, nothing is left.\<close>

definition emptying :: "'a CaptureQueue \<Rightarrow> bool" where
  "emptying q = (cq_drain q = Idle \<or> cq_drain q = Settling \<longrightarrow> cq_queue q = [])"

section \<open>Nothing is lost silently\<close>

lemma quiet_simps [simp]: "quiet cb \<Longrightarrow> onDrop_throws cb e = None" "quiet cb \<Longrightarrow> onSent_throws cb b = None"
  by (simp_all add: quiet_def)

lemma dropAll_quiet: "quiet cb \<Longrightarrow> dropAll cb es q = (q\<lparr>cq_lost := cq_lost q @ es\<rparr>, False)"
  by (induction es arbitrary: q) (simp_all add: Let_def)

lemma subseq_without_batch: "subseq (d @ b @ q) es \<Longrightarrow> subseq (d @ q) es"
  by (metis list_emb_append_mono subseq_append_iff subseq_order.dual_order.trans subseq_order.order_refl subseq_append' list_emb_Nil append_Nil)

lemma subseq_drop_mid: "subseq (d @ e # q) es \<Longrightarrow> subseq (d @ q) es"
  using subseq_without_batch [of d "[e]" q es] by simp

lemma loopHead_accounted: "accounted opts es q \<Longrightarrow> inFlightOf (cq_drain q) = [] \<Longrightarrow> accounted opts es (loopHead opts q)"
  by (auto simp: accounted_def loopHead_def simp flip: mset_append)

lemma recordSample_accounted [simp]: "accounted opts es (recordSample ms q) = accounted opts es q"
  by (simp add: recordSample_def accounted_def Let_def)

lemma schedule_fields [simp]:
  "cq_queue (schedule q) = cq_queue q" "cq_drain (schedule q) = cq_drain q" "cq_delivered (schedule q) = cq_delivered q" "cq_lost (schedule q) = cq_lost q"
  "cq_sent (schedule q) = cq_sent q" "cq_dropped (schedule q) = cq_dropped q" "cq_highWater (schedule q) = cq_highWater q"
  by (simp_all add: schedule_def)

lemma evict_accounted:
  assumes "quiet cb" "0 < cap_maxQueue opts" "accounted opts es q"
  obtains q1 where "evict opts cb q = (q1, None)" "accounted opts es q1" "length (cq_queue q1) < cap_maxQueue opts"
proof (cases "length (cq_queue q) \<ge> cap_maxQueue opts")
  case True
  then obtain e rest where q: "cq_queue q = e # rest"
    using assms(2) by (cases "cq_queue q") auto
  show ?thesis
    by (rule that) (use assms True q in \<open>auto simp: evict_def accounted_def intro: subseq_drop_mid [of "cq_delivered q @ inFlightOf (cq_drain q)" e, simplified]\<close>)
next
  case False
  then show ?thesis
    using assms that by (simp add: evict_def)
qed

lemma enqueue_accounted:
  assumes "accounted opts es q" "length (cq_queue q) < cap_maxQueue opts"
  shows "accounted opts (es @ [e]) (enqueue e q)"
proof -
  have "subseq ((cq_delivered q @ inFlightOf (cq_drain q) @ cq_queue q) @ [e]) (es @ [e])"
    using assms by (intro list_emb_append_mono) (simp_all add: accounted_def)
  then show ?thesis
    using assms by (auto simp: enqueue_def accounted_def Let_def)
qed

lemma capture_accounted:
  assumes "quiet cb" "0 < cap_maxQueue opts" "accounted opts es q" "\<not> cq_closed q"
  shows "accounted opts (es @ [e]) (capture opts cb ms e q)"
proof -
  obtain q1 where "evict opts cb q = (q1, None)" "accounted opts es q1" "length (cq_queue q1) < cap_maxQueue opts"
    using evict_accounted [OF assms(1-3)] .
  then show ?thesis
    using assms(4) enqueue_accounted by (simp add: capture_def)
qed

lemma flush_accounted: "accounted opts es q \<Longrightarrow> accounted opts es (flush opts q)"
  by (simp add: flush_def loopHead_accounted)

lemma noteFailure_fields [simp]:
  "cq_queue (noteFailure m q) = cq_queue q" "cq_drain (noteFailure m q) = cq_drain q" "cq_delivered (noteFailure m q) = cq_delivered q"
  "cq_lost (noteFailure m q) = cq_lost q" "cq_sent (noteFailure m q) = cq_sent q" "cq_dropped (noteFailure m q) = cq_dropped q"
  "cq_highWater (noteFailure m q) = cq_highWater q" "cq_closed (noteFailure m q) = cq_closed q" "cq_timer (noteFailure m q) = cq_timer q"
  by (simp_all add: noteFailure_def)

text \<open>The state in which the loop is entered again: the batch has left it, whatever the phase field still says.\<close>

lemma loopHead_phase: "loopHead opts (q\<lparr>cq_drain := d\<rparr>) = loopHead opts q"
  by (simp add: loopHead_def)

lemma attemptFailed_accounted:
  assumes "quiet cb" "accounted opts es q" "cq_drain q = Sending b n"
  shows "accounted opts es (attemptFailed opts cb msg b n q)"
proof (cases "n \<ge> cap_maxRetries opts")
  case True
  let ?q = "(noteFailure msg q)\<lparr>cq_dropped := cq_dropped q + length b, cq_lost := cq_lost q @ b\<rparr>"
  have "subseq (cq_delivered q @ cq_queue q) es"
    using assms by (auto simp: accounted_def intro: subseq_without_batch)
  then have "accounted opts es (?q\<lparr>cq_drain := Idle\<rparr>)"
    using assms by (simp add: accounted_def)
  then have "accounted opts es (loopHead opts ?q)"
    using loopHead_accounted [of opts es "?q\<lparr>cq_drain := Idle\<rparr>"] by (simp only: loopHead_phase) simp
  then show ?thesis
    using True assms by (simp add: attemptFailed_def dropAll_quiet)
next
  case False
  then show ?thesis
    using assms by (simp add: attemptFailed_def accounted_def Let_def)
qed

lemma attemptSent_accounted:
  assumes "quiet cb" "accounted opts es q" "cq_drain q = Sending b n"
  shows "accounted opts es (attemptSent opts cb b n q)"
proof -
  let ?q = "q\<lparr>cq_sent := cq_sent q + length b, cq_batches := Suc (cq_batches q), cq_delivered := cq_delivered q @ b\<rparr>"
  have "accounted opts es (?q\<lparr>cq_drain := Idle\<rparr>)"
    using assms by (simp add: accounted_def)
  then have "accounted opts es (loopHead opts ?q)"
    using loopHead_accounted [of opts es "?q\<lparr>cq_drain := Idle\<rparr>"] by (simp only: loopHead_phase) simp
  then show ?thesis
    using assms by (simp add: attemptSent_def Let_def)
qed

lemma drainStep_accounted: "quiet cb \<Longrightarrow> accounted opts es q \<Longrightarrow> accounted opts es (drainStep opts cb answer q)"
  by (auto simp: drainStep_def attemptFailed_accounted attemptSent_accounted split: Drain.splits option.splits)
    (simp_all add: accounted_def)

lemma accounted_flags [simp]: "accounted opts es (q\<lparr>cq_timer := t\<rparr>) = accounted opts es q" "accounted opts es (q\<lparr>cq_closed := c\<rparr>) = accounted opts es q"
  by (simp_all add: accounted_def)

lemma runs_accounted: "runs opts cb es q \<Longrightarrow> quiet cb \<Longrightarrow> 0 < cap_maxQueue opts \<Longrightarrow> accounted opts es q"
proof (induction rule: runs.induct)
  case created
  then show ?case by (simp add: accounted_def newCaptureQueue_def)
qed (simp_all add: capture_accounted flush_accounted drainStep_accounted timerFires_def closeQueue_def)

section \<open>A drain ends\<close>

lemma loopHead_closed [simp]: "cq_closed (loopHead opts q) = cq_closed q"
  by (simp add: loopHead_def)

lemma closed_kept: "quiet cb \<Longrightarrow> cq_closed (drainStep opts cb a q) = cq_closed q"
  by (auto simp: drainStep_def attemptSent_def attemptFailed_def dropAll_quiet Let_def split: Drain.splits option.splits)

lemma loopHead_work:
  assumes "0 < cap_batchSize opts"
  shows "drainWork opts (loopHead opts q) \<le> (2 * cap_maxRetries opts + 2) * length (cq_queue q) + 1"
proof (cases "cq_queue q")
  case (Cons e es)
  obtain b where b: "cap_batchSize opts = Suc b"
    using assms gr0_implies_Suc by blast
  have "(2 * cap_maxRetries opts + 2) * length (drop b es) \<le> (2 * cap_maxRetries opts + 2) * length es"
    by (rule mult_le_mono2) simp
  then show ?thesis
    using Cons b by (simp add: drainWork_def loopHead_def)
qed (simp add: drainWork_def loopHead_def)

lemma loopHead_emptying [simp]: "emptying (loopHead opts q)"
  by (simp add: emptying_def loopHead_def)

lemma drainStep_work:
  assumes "quiet cb" "0 < cap_batchSize opts" "cq_drain q \<noteq> Idle"
  shows "drainWork opts (drainStep opts cb a q) < drainWork opts q"
proof -
  have head: "drainWork opts (loopHead opts q') < drainWork opts q" if "cq_queue q' = cq_queue q" "cq_drain q = Sending b n" for q' :: "'a CaptureQueue" and b n
    using loopHead_work [OF assms(2), of q'] that by (simp add: drainWork_def)
  show ?thesis
  proof (cases "cq_drain q")
    case (Sending b n)
    then show ?thesis
      using assms(1) by (auto simp: drainStep_def attemptSent_def attemptFailed_def dropAll_quiet Let_def head split: option.splits)
        (simp add: drainWork_def)
  qed (use assms in \<open>simp_all add: drainStep_def drainWork_def\<close>)
qed

lemma drainStep_emptying: "quiet cb \<Longrightarrow> emptying q \<Longrightarrow> emptying (drainStep opts cb a q)"
  by (auto simp: drainStep_def attemptSent_def attemptFailed_def dropAll_quiet Let_def split: Drain.splits option.splits)
    (auto simp: emptying_def)

lemma drainStep_idle: "cq_drain q = Idle \<Longrightarrow> drainStep opts cb a q = q"
  by (simp add: drainStep_def)

lemma fold_idle: "cq_drain q = Idle \<Longrightarrow> fold (drainStep opts cb) answers q = q"
  by (induction answers) (simp_all add: drainStep_idle)

lemma drain_runs_out:
  "quiet cb \<Longrightarrow> 0 < cap_batchSize opts \<Longrightarrow> drainWork opts q \<le> length answers \<Longrightarrow> cq_drain (fold (drainStep opts cb) answers q) = Idle"
proof (induction answers arbitrary: q)
  case Nil
  then show ?case by (cases "cq_drain q") (simp_all add: drainWork_def)
next
  case (Cons a answers)
  then show ?case
    using drainStep_work [of cb opts q a] by (cases "cq_drain q = Idle") (auto simp: fold_idle drainStep_idle)
qed

lemma drain_keeps:
  assumes "quiet cb"
  shows "accounted opts es q \<Longrightarrow> accounted opts es (fold (drainStep opts cb) answers q)"
    and "emptying q \<Longrightarrow> emptying (fold (drainStep opts cb) answers q)"
    and "cq_closed (fold (drainStep opts cb) answers q) = cq_closed q"
  using assms by (induction answers arbitrary: q) (simp_all add: drainStep_accounted drainStep_emptying closed_kept)

section \<open>Properties\<close>

text \<open>\<^bold>\<open>C26.\<close> Loss is never silent.  Whatever the order of calls, timers and answers of the sink, if the callbacks do not throw, every event captured
  while the queue was open is exactly once in one of four places: accepted by the sink, reported to \<^verbatim>\<open>onDrop\<close>, in the batch being sent, or
  waiting.  What is delivered, in flight and waiting is in the order of capture, the two counters are exact, and the queue never grows beyond
  \<^verbatim>\<open>maxQueue\<close>.\<close>

theorem no_silent_loss:
  assumes "runs opts cb es q" "quiet cb" "0 < cap_maxQueue opts"
  shows "mset es = mset (cq_delivered q) + mset (cq_lost q) + mset (inFlightOf (cq_drain q)) + mset (cq_queue q)
    \<and> subseq (cq_delivered q @ inFlightOf (cq_drain q) @ cq_queue q) es
    \<and> cs_sent (stats q) = length (cq_delivered q) \<and> cs_dropped (stats q) = length (cq_lost q)
    \<and> cs_queued (stats q) \<le> cap_maxQueue opts \<and> cs_highWater (stats q) \<le> cap_maxQueue opts"
  using runs_accounted [OF assms] by (simp add: accounted_def stats_def Let_def)

text \<open>\<^bold>\<open>C27.\<close> \<^verbatim>\<open>close()\<close> finishes the work.  If the callbacks do not throw and batches are not empty, then, unless it is called while a finished drain
  is being cleared, the drain stops after a bounded number of steps whatever the sink answers; then the queue is closed and empty, and every
  accepted event was delivered or reported to \<^verbatim>\<open>onDrop\<close>.\<close>

theorem close_drains:
  assumes "runs opts cb es q" "quiet cb" "0 < cap_maxQueue opts" "0 < cap_batchSize opts" "cq_drain q \<noteq> Settling"
    and "drainWork opts (closeQueue opts q) \<le> length answers"
  shows "let q' = fold (drainStep opts cb) answers (closeQueue opts q) in
    cq_drain q' = Idle \<and> cq_closed q' \<and> cq_queue q' = [] \<and> mset es = mset (cq_delivered q') + mset (cq_lost q') \<and> cq_sent q' + cq_dropped q' = length es"
proof -
  let ?q = "fold (drainStep opts cb) answers (closeQueue opts q)"
  have idle: "cq_drain ?q = Idle"
    using assms by (intro drain_runs_out)
  have "emptying (closeQueue opts q)"
    using assms(5) by (cases "cq_drain q = Idle") (simp_all add: closeQueue_def flush_def emptying_def loopHead_def)
  then have empty: "cq_queue ?q = []"
    using drain_keeps(2) [OF assms(2)] idle by (auto simp: emptying_def)
  have closed: "cq_closed ?q"
    using drain_keeps(3) [OF assms(2)] by (simp add: closeQueue_def flush_def)
  have "accounted opts es (closeQueue opts q)"
    using runs.closed [OF assms(1)] assms runs_accounted by blast
  then have acc: "accounted opts es ?q"
    by (rule drain_keeps(1) [OF assms(2)])
  then have parts: "mset es = mset (cq_delivered ?q) + mset (cq_lost ?q)"
    using idle empty by (simp add: accounted_def)
  have "length es = length (cq_delivered ?q) + length (cq_lost ?q)"
    using arg_cong [OF parts, of size] by simp
  then show ?thesis
    using idle empty closed parts acc by (simp add: accounted_def Let_def)
qed

text \<open>The exception is real.  A \<^verbatim>\<open>flush()\<close> of an empty queue leaves a finished drain in flight; if an event is captured and the queue closed
  before that promise is cleared, \<^verbatim>\<open>close()\<close> waits for the old drain only: the queue ends closed, without a timer and idle, with the event still
  in it, neither sent nor reported.\<close>

theorem close_can_strand_events:
  assumes "0 < cap_maxQueue opts"
  shows "let q = drainStep opts cb None (closeQueue opts (capture opts cb ms e (flush opts newCaptureQueue))) in
    runs opts cb [e] q \<and> cq_closed q \<and> cq_drain q = Idle \<and> \<not> cq_timer q \<and> cq_queue q = [e] \<and> cq_delivered q = [] \<and> cq_lost q = []"
proof -
  have "runs opts cb [e] (capture opts cb ms e (flush opts newCaptureQueue))"
    using runs.captured [OF runs.flushed [OF runs.created], where e = e and ms = ms and opts = opts and cb = cb] by (simp add: flush_def newCaptureQueue_def loopHead_def)
  then have "runs opts cb [e] (drainStep opts cb None (closeQueue opts (capture opts cb ms e (flush opts newCaptureQueue))))"
    by (intro runs.drained runs.closed)
  then show ?thesis
    using assms by (simp add: drainStep_def closeQueue_def capture_def flush_def newCaptureQueue_def loopHead_def evict_def enqueue_def schedule_def
        recordSample_def Let_def DEFAULT_SAMPLES_def)
qed

definition toyOptions :: CaptureOptions where
  "toyOptions = \<lparr>cap_maxQueue = 2, cap_flushMs = 200, cap_batchSize = 1, cap_maxRetries = 1\<rparr>"

definition toyCallbacks :: "nat Callbacks" where
  "toyCallbacks = \<lparr>onDrop_throws = \<lambda>_. None, onSent_throws = \<lambda>_. None\<rparr>"

definition toyAnswers :: "string option list" where
  "toyAnswers = [Some ''down'', None, Some ''down'', None, None, None, None, None, None, None, None, None]"

definition toyRun :: "nat CaptureQueue" where
  "toyRun = capture toyOptions toyCallbacks 1 3 (flush toyOptions (capture toyOptions toyCallbacks 1 2 (capture toyOptions toyCallbacks 1 1 newCaptureQueue)))"

lemmas toy_run_eval = toyRun_def toyOptions_def toyCallbacks_def capture_def flush_def newCaptureQueue_def loopHead_def evict_def enqueue_def schedule_def
  recordSample_def Let_def DEFAULT_SAMPLES_def

lemma toyOptions_bounds: "0 < cap_maxQueue toyOptions" "0 < cap_batchSize toyOptions"
  by (simp_all add: toyOptions_def)

lemma toyAnswers_length: "length toyAnswers = 12"
  by (simp add: toyAnswers_def)

lemma toyCallbacks_quiet: "quiet toyCallbacks"
  by (simp add: quiet_def toyCallbacks_def)

lemma toyRun_runs: "runs toyOptions toyCallbacks [1, 2, 3] toyRun"
proof -
  have two: "runs toyOptions toyCallbacks [1, 2] (capture toyOptions toyCallbacks 1 2 (capture toyOptions toyCallbacks 1 1 newCaptureQueue))"
    using runs.captured [OF runs.captured [OF runs.created, where e = 1 and ms = 1], where e = 2 and ms = 1 and opts = toyOptions and cb = toyCallbacks]
    by (simp add: toy_run_eval)
  show ?thesis
    using runs.captured [OF runs.flushed [OF two], where e = 3 and ms = 1] by (simp add: toyRun_def) (simp add: toy_run_eval)
qed

theorem no_silent_loss_witness:
  "runs toyOptions toyCallbacks [1, 2, 3] toyRun \<and> inFlightOf (cq_drain toyRun) = [1] \<and> cq_queue toyRun = [2, 3] \<and> cs_highWater (stats toyRun) \<le> 2
    \<and> subseq (cq_delivered toyRun @ inFlightOf (cq_drain toyRun) @ cq_queue toyRun) [1, 2, 3]"
  using no_silent_loss [OF toyRun_runs toyCallbacks_quiet] toyRun_runs by (simp add: toy_run_eval)

theorem close_drains_witness:
  "let q = fold (drainStep toyOptions toyCallbacks) toyAnswers (closeQueue toyOptions toyRun) in
    cq_drain q = Idle \<and> cq_closed q \<and> cq_queue q = [] \<and> mset [1, 2, 3] = mset (cq_delivered q) + mset (cq_lost q) \<and> cq_sent q + cq_dropped q = 3"
proof -
  have "drainWork toyOptions (closeQueue toyOptions toyRun) = 12" "cq_drain toyRun \<noteq> Settling"
    by (simp_all add: drainWork_def closeQueue_def toy_run_eval)
  then show ?thesis
    using close_drains [OF toyRun_runs toyCallbacks_quiet, of toyAnswers]
      toyOptions_bounds by (simp add: toyAnswers_length Let_def)
qed

theorem close_can_strand_events_witness:
  "let q = drainStep defaultCaptureOptions toyCallbacks None
     (closeQueue defaultCaptureOptions (capture defaultCaptureOptions toyCallbacks 1 7 (flush defaultCaptureOptions newCaptureQueue))) in
    runs defaultCaptureOptions toyCallbacks [7] q \<and> cq_closed q \<and> cq_drain q = Idle \<and> \<not> cq_timer q \<and> cq_queue q = [7] \<and> cq_delivered q = [] \<and> cq_lost q = []"
  by (rule close_can_strand_events) (simp add: defaultCaptureOptions_def)

end
