(* ===== verification/Channel.thy ===== *)
theory Channel
  imports Engine Capture
begin

text \<open>
  \<^verbatim>\<open>src/src/phala/runtime.ts\<close> and \<^verbatim>\<open>ratls.ts\<close>: what a process may say about where it runs, the attestation handshake and the channel that only
  transmits after it.  A step of the transcript is its label and whether it passed; the texts of details and reasons are left out.  The
  clients build quotes and measurements as objects with all their fields (theory \<open>Dstack\<close>), so reading those does not throw.

  Results: the state \<^verbatim>\<open>real\<close> needs a verifier's acceptance and every other check, a closed channel transmits nothing although the capture
  queue in front of it still accounts for every event, and with the HTTP client the key binding step cannot fail.
\<close>

section \<open>runtime.ts\<close>

datatype RuntimeState = Real | Unverified | Simulated | Unavailable | Failed

record RuntimeStatus =
  rs_state :: RuntimeState
  rs_label :: string
  rs_findings :: "string list"
  rs_vendor :: string

definition RUNTIME_REGISTERS :: "string list" where
  "RUNTIME_REGISTERS = [''mrtd'', ''rtmr0'', ''rtmr1'', ''rtmr2'', ''rtmr3'']"

definition isZeroRegister :: "jsval \<Rightarrow> bool" where
  "isZeroRegister value =
     (if \<not> jtruthy value then True
      else let hex = (if startsWith (strv value) ''hex:'' then drop 4 (strv value) else strv value) in hex = [] \<or> list_all (\<lambda>c. c = CHR ''0'') hex)"

definition measurementIssues :: "jsval \<Rightarrow> string list" where
  "measurementIssues m = map (\<lambda>r. r @ '' is missing or all-zero'') (filter (\<lambda>r. isZeroRegister (mem m r)) RUNTIME_REGISTERS)"

definition hardwareEvidenceIssues :: "EnclaveInfo \<Rightarrow> string list" where
  "hardwareEvidenceIssues info = measurementIssues (ei_measurement info)
     @ (if \<not> jtruthy (ei_appId info) \<or> ei_appId info = JStr ''unknown'' then [''agent returned no app_id''] else [])
     @ (if \<not> jtruthy (ei_instanceId info) \<or> ei_instanceId info = JStr ''unknown'' then [''agent returned no instance_id''] else [])"

definition runtimeStatus :: "RuntimeState \<Rightarrow> string \<Rightarrow> string \<Rightarrow> string list \<Rightarrow> RuntimeStatus" where
  "runtimeStatus state label vendor findings = \<lparr>rs_state = state, rs_label = label, rs_findings = findings, rs_vendor = vendor\<rparr>"

definition unavailableRuntime :: "string \<Rightarrow> string \<Rightarrow> RuntimeStatus" where
  "unavailableRuntime vendor reason = runtimeStatus Unavailable ''UNAVAILABLE'' vendor [reason]"

section \<open>ratls.ts\<close>

record AttestationPolicy =
  ap_expectedMeasurement :: "jsval option"
  ap_allowSimulated :: "bool option"
  ap_requireVendor :: "string list"
  ap_verifier :: "QuoteVerifier option"
  ap_requireVerifiedRoot :: "bool option"

record HandshakeStep =
  st_label :: string
  st_ok :: bool

record AttestationHandshake =
  hs_ok :: bool
  hs_mode :: string
  hs_info :: EnclaveInfo
  hs_quote :: jsval
  hs_directory :: "(string \<times> jsval) list"
  hs_steps :: "HandshakeStep list"
  hs_reasons :: "string list"
  hs_rootVerified :: bool
  hs_at :: string

definition hstep :: "string \<Rightarrow> bool \<Rightarrow> HandshakeStep" where
  "hstep label ok = \<lparr>st_label = label, st_ok = ok\<rparr>"

text \<open>\<^verbatim>\<open>v.slice(0, 12)\<close> exists on strings and arrays.\<close>

definition sliced :: "jsval \<Rightarrow> unit res" where
  "sliced v = (case v of JStr _ \<Rightarrow> Inr () | JArr _ \<Rightarrow> Inr () | JBytes _ \<Rightarrow> Inr () | _ \<Rightarrow> Inl TypeError)"

text \<open>The root of trust: whether the step passes, and what the handshake reports as \<^verbatim>\<open>rootVerified\<close>: the verifier accepted, and neither
  the quote nor the verifier names the simulator's root.\<close>

definition rootOfTrust :: "env \<Rightarrow> AttestationPolicy \<Rightarrow> (string \<times> jsval) list \<Rightarrow> jsval \<Rightarrow> (bool \<times> bool) res" where
  "rootOfTrust P policy directory quote =
     (let simulated = (mem quote ''root'' = JStr ''cool-sim-root'') in
      if simulated \<and> \<not> optOr (ap_allowSimulated policy) True then Inr (False, False)
      else case (case ap_verifier policy of Some v \<Rightarrow> Some v | None \<Rightarrow> if simulated then Some (simulatedQuoteVerifier P (JObj directory)) else None) of
          None \<Rightarrow> Inr (\<not> optOr (ap_requireVerifiedRoot policy) True, False)
        | Some verifier \<Rightarrow> rbind (verifier quote) (\<lambda>v.
            Inr (qv_ok v, qv_ok v \<and> \<not> simulated \<and> qv_root v \<noteq> ''cool-sim-root'')))"

text \<open>The transcript before its last line.\<close>

definition handshakeSteps :: "env \<Rightarrow> string \<Rightarrow> EnclaveInfo \<Rightarrow> jsval \<Rightarrow> AttestationPolicy \<Rightarrow> Multihash \<Rightarrow> bool \<Rightarrow> HandshakeStep list" where
  "handshakeSteps P mode info quote policy expectedReportData trusted =
     (let body = mem quote ''body'' in
      [hstep ''enclave info'' True, hstep ''quote fetched'' True]
      @ (if mode = ''hardware'' then [hstep ''hardware evidence'' (hardwareEvidenceIssues info = [])] else [])
      @ [hstep ''quote structure'' (checkQuoteStructure P quote = None), hstep ''root of trust'' trusted]
      @ (if ap_requireVendor policy \<noteq> [] then [hstep ''vendor'' (mem body ''vendor'' \<in> JStr ` set (ap_requireVendor policy))] else [])
      @ [hstep ''measurement pin'' (case ap_expectedMeasurement policy of Some m \<Rightarrow> measurementEquals m (mem body ''measurement'') | None \<Rightarrow> True),
         hstep ''key binding'' (mem body ''report_data'' = JStr expectedReportData)])"

definition attestEndpoint :: "env \<Rightarrow> string \<Rightarrow> DstackClient \<Rightarrow> jsval \<Rightarrow> AttestationPolicy \<Rightarrow> AttestationHandshake res" where
  "attestEndpoint P now client expectedKey policy =
     rbind (dc_info client) (\<lambda>info.
     rbind (sliced (ei_appId info)) (\<lambda>_.
     rbind (sliced (ei_instanceId info)) (\<lambda>_.
     let expectedReportData = enclaveReportData P expectedKey in
     rbind (dc_getQuote client expectedReportData) (\<lambda>quote.
     rbind (rootOfTrust P policy (dc_directory client) quote) (\<lambda>(trusted, rootVerified).
       let steps = handshakeSteps P (dc_mode client) info quote policy expectedReportData trusted;
           ok = list_all st_ok steps;
           transcript = steps @ [hstep ''channel'' ok]
       in Inr \<lparr>hs_ok = ok, hs_mode = dc_mode client, hs_info = info, hs_quote = quote, hs_directory = dc_directory client, hs_steps = transcript,
            hs_reasons = map st_label (filter (\<lambda>s. \<not> st_ok s) transcript), hs_rootVerified = rootVerified, hs_at = now\<rparr>)))))"

text \<open>\<^verbatim>\<open>assessRuntime\<close> of \<^verbatim>\<open>runtime.ts\<close> reads the handshake.\<close>

definition assessRuntime :: "EnclaveInfo \<Rightarrow> AttestationHandshake option \<Rightarrow> RuntimeStatus" where
  "assessRuntime info handshake =
     (let vendor = ei_vendor info; incomplete = hardwareEvidenceIssues info in
      if ei_mode info = ''simulated'' \<or> (case handshake of Some h \<Rightarrow> mem (hs_quote h) ''root'' = JStr ''cool-sim-root'' | None \<Rightarrow> False)
      then runtimeStatus Simulated ''SIMULATED'' vendor [''running under the simulator'']
      else if incomplete \<noteq> [] then runtimeStatus Failed ''EVIDENCE INCOMPLETE'' vendor incomplete
      else case handshake of
          None \<Rightarrow> runtimeStatus Failed ''NOT ATTESTED'' vendor [''no handshake'']
        | Some h \<Rightarrow>
            if \<not> hs_ok h
            then runtimeStatus Failed (if list_ex (\<lambda>s. st_label s = ''measurement pin'' \<and> \<not> st_ok s) (hs_steps h) then ''MEASUREMENT MISMATCH'' else ''ATTESTATION FAILED'')
                   vendor (hs_reasons h)
            else if \<not> hs_rootVerified h then runtimeStatus Unverified ''UNVERIFIED'' vendor [''quote not chained to a vendor root'']
            else runtimeStatus Real ''REAL'' vendor [])"

text \<open>The channel: the error of a send if any, and what reaches the network.\<close>

record AttestedChannel =
  ch_handshake :: AttestationHandshake

definition ChannelClosedError :: "string list \<Rightarrow> string" where
  "ChannelClosedError reasons = ''RA-TLS channel closed: '' @ (if join ''; '' reasons = [] then ''attestation failed'' else join ''; '' reasons)"

definition connect :: "env \<Rightarrow> string \<Rightarrow> DstackClient \<Rightarrow> jsval \<Rightarrow> AttestationPolicy option \<Rightarrow> AttestedChannel res" where
  "connect P now client expectedKey policy =
     rbind (attestEndpoint P now client expectedKey (optOr policy
       \<lparr>ap_expectedMeasurement = None, ap_allowSimulated = None, ap_requireVendor = [], ap_verifier = None, ap_requireVerifiedRoot = None\<rparr>))
       (\<lambda>h. Inr \<lparr>ch_handshake = h\<rparr>)"

definition channelOpen :: "AttestedChannel \<Rightarrow> bool" where
  "channelOpen ch = hs_ok (ch_handshake ch)"

definition channelSend :: "AttestedChannel \<Rightarrow> string option \<Rightarrow> 'a list \<Rightarrow> string option \<times> 'a list list" where
  "channelSend ch sinkAnswer batch =
     (if \<not> hs_ok (ch_handshake ch) then (Some (ChannelClosedError (hs_reasons (ch_handshake ch))), [])
      else if batch = [] then (None, [])
      else (sinkAnswer, [batch]))"

section \<open>The channel behind the capture queue\<close>

definition wireOf :: "AttestedChannel \<Rightarrow> string option \<Rightarrow> 'a Drain \<Rightarrow> 'a list list" where
  "wireOf ch sinkAnswer d = (case d of Sending batch n \<Rightarrow> snd (channelSend ch sinkAnswer batch) | _ \<Rightarrow> [])"

text \<open>The runs of a queue whose sink is the channel; \<open>wire\<close> is what was transmitted.\<close>

inductive transmits :: "CaptureOptions \<Rightarrow> 'a Callbacks \<Rightarrow> AttestedChannel \<Rightarrow> 'a list \<Rightarrow> 'a list list \<Rightarrow> 'a CaptureQueue \<Rightarrow> bool" for opts cb ch where
  t_created: "transmits opts cb ch [] [] newCaptureQueue"
| t_captured: "transmits opts cb ch es wire q \<Longrightarrow> \<not> cq_closed q \<Longrightarrow> transmits opts cb ch (es @ [e]) wire (capture opts cb ms e q)"
| t_flushed: "transmits opts cb ch es wire q \<Longrightarrow> transmits opts cb ch es wire (flush opts q)"
| t_timed: "transmits opts cb ch es wire q \<Longrightarrow> cq_timer q \<Longrightarrow> transmits opts cb ch es wire (timerFires opts q)"
| t_drained: "transmits opts cb ch es wire q \<Longrightarrow>
    transmits opts cb ch es (wire @ wireOf ch answer (cq_drain q)) (drainStep opts cb (fst (channelSend ch answer (inFlightOf (cq_drain q)))) q)"
| t_closed: "transmits opts cb ch es wire q \<Longrightarrow> transmits opts cb ch es wire (closeQueue opts q)"

section \<open>The handshake\<close>

lemma attestEndpoint_ok:
  assumes "attestEndpoint P now client key policy = Inr h"
  obtains trusted where
    "dc_info client = Inr (hs_info h)" "dc_getQuote client (enclaveReportData P key) = Inr (hs_quote h)"
    "rootOfTrust P policy (dc_directory client) (hs_quote h) = Inr (trusted, hs_rootVerified h)"
    "hs_ok h = list_all st_ok (handshakeSteps P (dc_mode client) (hs_info h) (hs_quote h) policy (enclaveReportData P key) trusted)"
    "hs_steps h = handshakeSteps P (dc_mode client) (hs_info h) (hs_quote h) policy (enclaveReportData P key) trusted @ [hstep ''channel'' (hs_ok h)]"
  using assms by (auto simp: attestEndpoint_def Let_def rbind_Inr_iff)

lemma hstep_ok [simp]: "st_ok (hstep l b) = b" "(hstep l b = hstep l' b') = (l = l' \<and> b = b')"
  by (auto simp: hstep_def)

lemma handshakeSteps_binding: "hstep ''key binding'' (mem (mem quote ''body'') ''report_data'' = JStr rd) \<in> set (handshakeSteps P mode info quote policy rd trusted)"
  by (simp add: handshakeSteps_def Let_def)

lemma rootOfTrust_verified:
  assumes "rootOfTrust P policy directory quote = Inr (trusted, True)"
  obtains verifier v where "ap_verifier policy = Some verifier" "verifier quote = Inr v" "qv_ok v" "qv_root v \<noteq> ''cool-sim-root''"
    "mem quote ''root'' \<noteq> JStr ''cool-sim-root''"
  using assms by (auto simp: rootOfTrust_def Let_def rbind_Inr_iff split: if_splits option.splits)

lemma assess_real:
  "rs_state (assessRuntime info handshake) = Real \<longleftrightarrow> ei_mode info \<noteq> ''simulated'' \<and> hardwareEvidenceIssues info = []
    \<and> (\<exists>h. handshake = Some h \<and> mem (hs_quote h) ''root'' \<noteq> JStr ''cool-sim-root'' \<and> hs_ok h \<and> hs_rootVerified h)"
  by (auto simp: assessRuntime_def runtimeStatus_def Let_def split: option.splits)

section \<open>The closed channel\<close>

lemma transmits_runs: "transmits opts cb ch es wire q \<Longrightarrow> runs opts cb es q"
  by (induction rule: transmits.induct) (auto intro: runs.intros)

lemma drainStep_refused: "quiet cb \<Longrightarrow> cq_delivered (drainStep opts cb (Some msg) q) = cq_delivered q"
  by (auto simp: drainStep_def attemptFailed_def dropAll_quiet loopHead_def Let_def noteFailure_def split: Drain.splits)

lemma queue_ops_deliver [simp]:
  "cq_delivered (flush opts q) = cq_delivered q" "cq_delivered (timerFires opts q) = cq_delivered q" "cq_delivered (closeQueue opts q) = cq_delivered q"
  "cq_delivered (capture opts cb ms e q) = cq_delivered q"
  by (auto simp: flush_def timerFires_def closeQueue_def loopHead_def capture_def recordSample_def evict_def enqueue_def schedule_def noteFailure_def Let_def
      split: list.splits option.splits prod.splits if_splits)

lemma closed_channel:
  "transmits opts cb ch es wire q \<Longrightarrow> quiet cb \<Longrightarrow> \<not> channelOpen ch \<Longrightarrow> wire = [] \<and> cq_delivered q = []"
proof (induction rule: transmits.induct)
  case (t_drained es wire q answer)
  then show ?case
    by (simp add: channelSend_def channelOpen_def wireOf_def drainStep_refused split: Drain.splits)
qed (simp_all add: newCaptureQueue_def)

section \<open>Properties\<close>

lemma handshakeSteps_all:
  "list_all st_ok (handshakeSteps P mode info quote policy rd trusted) \<longleftrightarrow>
     (mode = ''hardware'' \<longrightarrow> hardwareEvidenceIssues info = []) \<and> quoteStructured P quote \<and> trusted
   \<and> (ap_requireVendor policy \<noteq> [] \<longrightarrow> mem (mem quote ''body'') ''vendor'' \<in> JStr ` set (ap_requireVendor policy))
   \<and> (\<forall>m. ap_expectedMeasurement policy = Some m \<longrightarrow> measurementEquals m (mem (mem quote ''body'') ''measurement''))
   \<and> mem (mem quote ''body'') ''report_data'' = JStr rd"
  by (auto simp: handshakeSteps_def Let_def checkQuoteStructure_None split: option.splits)

lemma no_issues:
  "hardwareEvidenceIssues info = [] \<longleftrightarrow> (\<forall>r \<in> set RUNTIME_REGISTERS. \<not> isZeroRegister (mem (ei_measurement info) r))
     \<and> jtruthy (ei_appId info) \<and> ei_appId info \<noteq> JStr ''unknown''
     \<and> jtruthy (ei_instanceId info) \<and> ei_instanceId info \<noteq> JStr ''unknown''"
  by (auto simp: hardwareEvidenceIssues_def measurementIssues_def filter_empty_conv)

text \<open>\<^bold>\<open>C28.\<close> \<^verbatim>\<open>real\<close> is never a label.  The runtime of a completed handshake is reported real exactly if the verifier of the policy itself accepted
  the quote under a root that is not the simulator's (that it is a vendor's is up to that verifier: the declared root \<^verbatim>\<open>none\<close> is not
  excluded), neither the client nor the quote is simulated, every register is present and not all zero, the agent named an application
  and an instance, the structure of the quote is accepted (well-formed registers and report data, raw bytes), the vendor and the pinned measurement
  of the policy, where it has them, are those of the quote, and the quote's report data is the commitment to the expected key.\<close>

theorem real_needs_everything:
  assumes "attestEndpoint P now client key policy = Inr h"
  shows "rs_state (assessRuntime (hs_info h) (Some h)) = Real \<longleftrightarrow>
      (\<exists>verifier v. ap_verifier policy = Some verifier \<and> verifier (hs_quote h) = Inr v \<and> qv_ok v \<and> qv_root v \<noteq> ''cool-sim-root'')
    \<and> ei_mode (hs_info h) \<noteq> ''simulated'' \<and> mem (hs_quote h) ''root'' \<noteq> JStr ''cool-sim-root''
    \<and> (\<forall>r \<in> set RUNTIME_REGISTERS. \<not> isZeroRegister (mem (ei_measurement (hs_info h)) r))
    \<and> jtruthy (ei_appId (hs_info h)) \<and> ei_appId (hs_info h) \<noteq> JStr ''unknown''
    \<and> jtruthy (ei_instanceId (hs_info h)) \<and> ei_instanceId (hs_info h) \<noteq> JStr ''unknown''
    \<and> quoteStructured P (hs_quote h)
    \<and> (ap_requireVendor policy \<noteq> [] \<longrightarrow> mem (mem (hs_quote h) ''body'') ''vendor'' \<in> JStr ` set (ap_requireVendor policy))
    \<and> (\<forall>m. ap_expectedMeasurement policy = Some m \<longrightarrow> measurementEquals m (mem (mem (hs_quote h) ''body'') ''measurement''))
    \<and> mem (mem (hs_quote h) ''body'') ''report_data'' = JStr (enclaveReportData P key)" (is "?real \<longleftrightarrow> ?all")
proof -
  obtain trusted where r: "rootOfTrust P policy (dc_directory client) (hs_quote h) = Inr (trusted, hs_rootVerified h)"
    and ok: "hs_ok h = list_all st_ok (handshakeSteps P (dc_mode client) (hs_info h) (hs_quote h) policy (enclaveReportData P key) trusted)"
    by (rule attestEndpoint_ok [OF assms])
  show ?thesis
  proof
    assume ?real
    then have real: "ei_mode (hs_info h) \<noteq> ''simulated''" "hardwareEvidenceIssues (hs_info h) = []" "hs_ok h" "hs_rootVerified h"
      by (auto simp: assess_real)
    obtain verifier v where v: "ap_verifier policy = Some verifier" "verifier (hs_quote h) = Inr v" "qv_ok v" "qv_root v \<noteq> ''cool-sim-root''"
      "mem (hs_quote h) ''root'' \<noteq> JStr ''cool-sim-root''"
      using rootOfTrust_verified [of P policy "dc_directory client" "hs_quote h" trusted] r real(4) by auto
    from real(3) show ?all unfolding ok handshakeSteps_all using v real(1) real(2) [unfolded no_issues] by blast
  next
    assume all: ?all
    then have "trusted \<and> hs_rootVerified h" using r by (auto simp: rootOfTrust_def Let_def)
    moreover have no: "hardwareEvidenceIssues (hs_info h) = []" unfolding no_issues using all by blast
    ultimately have "hs_ok h" "hs_rootVerified h" unfolding ok handshakeSteps_all using all by auto
    with no all show ?real unfolding assess_real by auto
  qed
qed

text \<open>\<^bold>\<open>C29.\<close> Fail closed toward the network, fail open toward the application.  If the handshake failed, then in every interleaving of a capture queue
  whose sink is the channel nothing reaches the network, and every captured event is still accounted for: reported to \<^verbatim>\<open>onDrop\<close>, in the batch
  being retried, or waiting.\<close>

theorem unattested_channel_sends_nothing:
  assumes "transmits opts cb ch es wire q" "quiet cb" "0 < cap_maxQueue opts" "\<not> channelOpen ch"
  shows "wire = [] \<and> cq_delivered q = [] \<and> mset es = mset (cq_lost q) + mset (inFlightOf (cq_drain q)) + mset (cq_queue q)
    \<and> cs_dropped (stats q) = length (cq_lost q)"
  using closed_channel [OF assms(1,2,4)] runs_accounted [OF transmits_runs [OF assms(1)] assms(2,3)]
  by (simp add: accounted_def stats_def Let_def)

text \<open>The key binding step decides nothing for the HTTP client: whatever quote bytes the agent returns, the step of a completed handshake passes,
  because the body is filled in by the client from what it asked for and the vendor's bytes are never read.\<close>

theorem http_binding_vacuous:
  assumes "attestEndpoint P now (httpClient P opts agent issued) key policy = Inr h"
  shows "hstep ''key binding'' True \<in> set (hs_steps h)"
proof -
  obtain trusted where h: "dc_getQuote (httpClient P opts agent issued) (enclaveReportData P key) = Inr (hs_quote h)"
    "hs_steps h = handshakeSteps P (dc_mode (httpClient P opts agent issued)) (hs_info h) (hs_quote h) policy (enclaveReportData P key) trusted @ [hstep ''channel'' (hs_ok h)]"
    by (rule attestEndpoint_ok [OF assms])
  have "mem (mem (hs_quote h) ''body'') ''report_data'' = JStr (enclaveReportData P key)"
    using h(1) by (rule http.quote_report_data)
  then show ?thesis
    using handshakeSteps_binding [of "hs_quote h" "enclaveReportData P key"] by (simp add: h(2))
qed

section \<open>Witnesses\<close>

definition toyRegister :: string where
  "toyRegister = replicate 64 (CHR ''1'')"

definition toyMeasurement :: jsval where
  "toyMeasurement = (let r = ''hex:'' @ toyRegister in measurementVal r r r r r)"

definition toyAgent :: Agent where
  "toyAgent path body = Some (200, JObj [(''app_id'', JStr ''app''), (''instance_id'', JStr ''instance''), (''quote'', JStr ''ff''),
     (''tcb_info'', JObj (map (\<lambda>r. (r, JStr toyRegister)) RUNTIME_REGISTERS))])"

definition toyClient :: DstackClient where
  "toyClient = httpClient toyEnv defaultHttpOptions toyAgent ''now''"

definition toyVerifierPolicy :: "QuoteVerification \<Rightarrow> AttestationPolicy" where
  "toyVerifierPolicy v = \<lparr>ap_expectedMeasurement = Some toyMeasurement, ap_allowSimulated = Some False, ap_requireVendor = [''intel-tdx''],
     ap_verifier = Some (\<lambda>_. Inr v), ap_requireVerifiedRoot = None\<rparr>"

definition toyVerification :: "bool \<Rightarrow> QuoteVerification" where
  "toyVerification b = \<lparr>qv_ok = b, qv_root = ''intel-dcap'', qv_tcb = ''UpToDate''\<rparr>"

definition toyHandshake :: "bool \<Rightarrow> AttestationHandshake res" where
  "toyHandshake b = attestEndpoint toyEnv ''now'' toyClient JNull (toyVerifierPolicy (toyVerification b))"

lemma toyRegister_lower: "toLower toyRegister = toyRegister" "toyRegister \<noteq> []" "\<not> startsWith toyRegister ''0x''"
  by (simp_all add: toyRegister_def toLower_def numeral_eq_Suc)

definition toyInfo :: EnclaveInfo where
  "toyInfo = \<lparr>ei_appId = JStr ''app'', ei_instanceId = JStr ''instance'', ei_appName = JStr ''cool-evidence-plane'', ei_vendor = ''intel-tdx'', ei_mode = ''hardware'',
     ei_measurement = toyMeasurement, ei_tcbStatus = ''Unknown'', ei_eventLog = [], ei_imageDigest = toyRegister, ei_appUrl = JNull\<rparr>"

lemma toy_absent: "readMember [] ''app_name'' = JUndef" "readMember [] ''app_url'' = JUndef" "readMember [] ''event_log'' = JUndef" "readMember [] ''tcb_status'' = JUndef"
  by (simp_all add: readMember_def INHERITED_def)

lemma toyInfo_eq: "http_info toyEnv defaultHttpOptions toyAgent = Inr toyInfo"
  by (simp add: http_info_def rpc_def toyAgent_def okStatus_def getProp_def parseTcbInfo_def defaultHttpOptions_def RUNTIME_REGISTERS_def readMember_Cons hexField_def
      toyRegister_lower eventLogOf_def orElse_def toy_absent toyInfo_def toyMeasurement_def Let_def)

lemma toyHttp: "ho_vendor defaultHttpOptions = ''intel-tdx''"
  by (simp add: defaultHttpOptions_def)

lemma toyQuote_eq:
  "dc_getQuote toyClient (enclaveReportData toyEnv JNull) = Inr (quoteVal ''dstack.tdx.v4'' ''intel-dcap''
     (quoteBody toyInfo (enclaveReportData toyEnv JNull) (JStr ''Unknown'') ''now'') JNull (JStr (toBase64Field [255])))"
proof -
  have "multihashDigest (enclaveReportData toyEnv JNull) = Inr (toyHash (concatBytes [utf8 REPORT_DATA_TAG,
      canonicalCbor toyEnv (JObj [(''ed25519_pub'', mem JNull ''ed25519_pub''), (''ml_dsa_pub'', mem JNull ''ml_dsa_pub'')])]))"
    by (simp add: enclaveReportData_def)
  moreover have "hexPairs ''ff'' = [255]" "isHexText ''ff''"
    by (code_simp)+
  ultimately show ?thesis
    by (simp add: toyClient_def httpClient_def http_getQuote_def toyInfo_eq rpc_def toyAgent_def okStatus_def getProp_def readMember_Cons toy_absent orElse_def
        toyHttp Let_def del: multihashDigest_mhSha256)
qed

lemma toy_report_data: "isMultihash (enclaveReportData toyEnv JNull)"
  using mhSha256_shape [OF digests32_toyEnv] by (simp add: enclaveReportData_def hasShape.simps(4))

lemma toyRegister_shape: "isHex32 (''hex:'' @ toyRegister)" "\<not> isZeroRegister (JStr (''hex:'' @ toyRegister))"
  by (simp_all add: isHex32_def isZeroRegister_def toyRegister_def isLowerHex_def strv_def Let_def numeral_eq_Suc)

lemma toy_evidence: "hardwareEvidenceIssues toyInfo = []"
  using toyRegister_shape(2) by (simp add: hardwareEvidenceIssues_def measurementIssues_def toyInfo_def toyMeasurement_def measurementVal_def RUNTIME_REGISTERS_def readMember_Cons Let_def)

lemma toyHandshake_eq:
  obtains h where "toyHandshake b = Inr h" "hs_ok h = b" "hs_rootVerified h = b" "hs_info h = toyInfo" "mem (hs_quote h) ''root'' = JStr ''intel-dcap''"
proof -
  let ?q = "quoteVal ''dstack.tdx.v4'' ''intel-dcap'' (quoteBody toyInfo (enclaveReportData toyEnv JNull) (JStr ''Unknown'') ''now'') JNull (JStr (toBase64Field [255]))"
  have shape: "checkQuoteStructure toyEnv ?q = None"
    using toyRegister_shape(1) toy_report_data
    by (simp add: checkQuoteStructure_def toyInfo_def toyMeasurement_def measurementVal_def entriesOf_def asText_def Let_def)
  have vendor: "mem (quoteBody toyInfo rd t n) ''vendor'' = JStr ''intel-tdx''" for rd t n
    by (simp add: quoteBody_def toyInfo_def readMember_Cons)
  have trust: "rootOfTrust toyEnv (toyVerifierPolicy (toyVerification b)) (dc_directory toyClient) ?q = Inr (b, b)"
    by (simp add: rootOfTrust_def toyVerifierPolicy_def toyVerification_def)
  have info: "dc_info toyClient = Inr toyInfo" "dc_mode toyClient = ''hardware''"
    by (simp_all add: toyClient_def httpClient_def toyInfo_eq)
  have all: "list_all st_ok (handshakeSteps toyEnv ''hardware'' toyInfo ?q (toyVerifierPolicy (toyVerification b)) (enclaveReportData toyEnv JNull) b) = b"
    using shape toy_evidence by (simp add: handshakeSteps_def vendor toyVerifierPolicy_def Let_def) (simp add: toyInfo_def measurementEquals_def)
  have "sliced (ei_appId toyInfo) = Inr ()" "sliced (ei_instanceId toyInfo) = Inr ()"
    by (simp_all add: sliced_def toyInfo_def)
  then obtain h where h: "toyHandshake b = Inr h"
    by (simp add: toyHandshake_def attestEndpoint_def info toyQuote_eq trust Let_def)
  obtain trusted where r: "dc_info toyClient = Inr (hs_info h)" "dc_getQuote toyClient (enclaveReportData toyEnv JNull) = Inr (hs_quote h)"
    "rootOfTrust toyEnv (toyVerifierPolicy (toyVerification b)) (dc_directory toyClient) (hs_quote h) = Inr (trusted, hs_rootVerified h)"
    "hs_ok h = list_all st_ok (handshakeSteps toyEnv (dc_mode toyClient) (hs_info h) (hs_quote h) (toyVerifierPolicy (toyVerification b)) (enclaveReportData toyEnv JNull) trusted)"
    by (rule attestEndpoint_ok [OF h [unfolded toyHandshake_def]])
  have eqs: "hs_info h = toyInfo" "hs_quote h = ?q"
    using r(1,2) by (simp_all add: info toyQuote_eq)
  then have "trusted = b" "hs_rootVerified h = b"
    using r(3) trust by auto
  then show ?thesis
    using h that eqs r(4) all by (simp add: info)
qed

text \<open>With a verifier that accepts the quote the runtime is real, with one that does not it is not.\<close>

theorem real_needs_everything_witness:
  "(\<exists>h. toyHandshake True = Inr h \<and> rs_state (assessRuntime (hs_info h) (Some h)) = Real
      \<and> measurementEquals toyMeasurement (mem (mem (hs_quote h) ''body'') ''measurement'') \<and> quoteStructured toyEnv (hs_quote h)
      \<and> mem (mem (hs_quote h) ''body'') ''report_data'' = JStr (enclaveReportData toyEnv JNull))
   \<and> (\<exists>h. toyHandshake False = Inr h \<and> rs_state (assessRuntime (hs_info h) (Some h)) \<noteq> Real)"
proof -
  obtain h where h: "toyHandshake True = Inr h" "hs_ok h" "hs_rootVerified h" "hs_info h = toyInfo" "mem (hs_quote h) ''root'' = JStr ''intel-dcap''"
    using toyHandshake_eq [of True] by metis
  have real: "rs_state (assessRuntime (hs_info h) (Some h)) = Real"
    using h(2-5) toy_evidence by (simp add: assess_real) (simp add: toyInfo_def)
  obtain h' where h': "toyHandshake False = Inr h'"
    using toyHandshake_eq [of False] by metis
  have "rs_state (assessRuntime (hs_info h') (Some h')) \<noteq> Real"
    using real_needs_everything [OF h' [unfolded toyHandshake_def]] by (auto simp: toyVerifierPolicy_def toyVerification_def)
  then show ?thesis
    using real_needs_everything [OF h(1) [unfolded toyHandshake_def]] h(1) real h' by (auto simp: toyVerifierPolicy_def)
qed

theorem http_binding_vacuous_witness:
  "\<exists>h. toyHandshake False = Inr h \<and> hstep ''key binding'' True \<in> set (hs_steps h)"
proof -
  obtain h where h: "toyHandshake False = Inr h"
    using toyHandshake_eq by metis
  show ?thesis
    using http_binding_vacuous [OF h [unfolded toyHandshake_def toyClient_def]] h by blast
qed

theorem unattested_channel_sends_nothing_witness:
  "\<exists>ch q. transmits toyOptions toyCallbacks ch [5] [] q \<and> \<not> channelOpen ch \<and> cq_failures q = 1 \<and> cq_delivered q = []
    \<and> mset [5] = mset (cq_lost q) + mset (inFlightOf (cq_drain q)) + mset (cq_queue q)"
proof -
  obtain h where h: "toyHandshake False = Inr h" "\<not> hs_ok h"
    using toyHandshake_eq [of False] by metis
  let ?ch = "\<lparr>ch_handshake = h\<rparr>"
  have closed: "\<not> channelOpen ?ch"
    using h(2) by (simp add: channelOpen_def)
  let ?q = "flush toyOptions (capture toyOptions toyCallbacks 1 5 newCaptureQueue)"
  let ?q' = "drainStep toyOptions toyCallbacks (fst (channelSend ?ch None (inFlightOf (cq_drain ?q)))) ?q"
  have "transmits toyOptions toyCallbacks ?ch ([] @ [5]) [] ?q"
    by (intro transmits.intros) (simp add: newCaptureQueue_def)
  then have t: "transmits toyOptions toyCallbacks ?ch [5] ([] @ wireOf ?ch None (cq_drain ?q)) ?q'"
    using transmits.t_drained by fastforce
  have "cq_failures ?q' = 1"
    using h(2) by (simp add: channelSend_def drainStep_def attemptFailed_def noteFailure_def toy_run_eval)
  then show ?thesis
    using unattested_channel_sends_nothing [OF t toyCallbacks_quiet toyOptions_bounds(1) closed] t closed by (metis append_Nil)
qed

end
