(* ===== verification/Disclose.thy ===== *)
theory Disclose
  imports Engine
begin

text \<open>
  \<^verbatim>\<open>src/src/phala/disclose.ts\<close>: opening one committed field of a receipt.  Receipts are dynamically typed values that have the declared
  shape (theory \<open>Structure\<close>); the texts of the verdicts are left out.  Results: whatever text was sealed can be disclosed and verifies,
  a field opens to one value only, and the fields offered are exactly those that can be opened.
\<close>

section \<open>Fields\<close>

datatype DisclosableField = FInput | FOutput | FState | FMetadata | FBefore | FAfter

record Disclosure =
  ds_record_id :: jsval
  ds_binding_hash :: jsval
  ds_field :: DisclosableField
  ds_value :: string
  ds_salt :: jsval
  ds_commitment :: jsval

record DisclosureVerdict =
  dv_ok :: bool
  dv_field :: DisclosableField

text \<open>A commitment with its salt, if both are there.\<close>

definition committedPair :: "jsval \<Rightarrow> string \<Rightarrow> string \<Rightarrow> (jsval \<times> jsval) option" where
  "committedPair v h s = (if jtruthy (mem v h) \<and> jtruthy (mem v s) then Some (mem v h, mem v s) else None)"

definition fieldOf :: "jsval \<Rightarrow> DisclosableField \<Rightarrow> (jsval \<times> jsval) option" where
  "fieldOf receipt field =
     (let record = mem receipt ''record'' in
      if mem record ''schema'' = JStr ''cool.evidence.v1''
      then let event = mem record ''event''; c = mem event ''commitments'' in
        (case field of
           FInput \<Rightarrow> committedPair c ''input'' ''input_salt''
         | FOutput \<Rightarrow> committedPair c ''output'' ''output_salt''
         | FState \<Rightarrow> committedPair c ''state'' ''state_salt''
         | FMetadata \<Rightarrow> Some (mem event ''metadata_hash'', mem event ''metadata_salt'')
         | _ \<Rightarrow> None)
      else let change = mem record ''change'' in
        (case field of
           FAfter \<Rightarrow> Some (mem change ''after_hash'', mem change ''after_salt'')
         | FBefore \<Rightarrow> committedPair change ''before_hash'' ''before_salt''
         | _ \<Rightarrow> None))"

definition disclose :: "env \<Rightarrow> jsval \<Rightarrow> DisclosableField \<Rightarrow> string \<Rightarrow> Disclosure res" where
  "disclose P receipt field value = (case fieldOf receipt field of
       None \<Rightarrow> Inl (Error ''this record has no such field to disclose'')
     | Some (sealed, salt) \<Rightarrow> rbind (saltedCommit (sha256 P) (strv salt) (utf8 value)) (\<lambda>recomputed.
         if JStr recomputed \<noteq> sealed then Inl (Error ''the value supplied does not match the sealed commitment'')
         else Inr \<lparr>ds_record_id = mem (mem receipt ''record'') ''record_id'', ds_binding_hash = mem receipt ''binding_hash'', ds_field = field,
           ds_value = value, ds_salt = salt, ds_commitment = sealed\<rparr>))"

definition verifyDisclosure :: "env \<Rightarrow> jsval \<Rightarrow> Disclosure \<Rightarrow> DisclosureVerdict res" where
  "verifyDisclosure P receipt d =
     (let verdict = (\<lambda>b. Inr \<lparr>dv_ok = b, dv_field = ds_field d\<rparr>) in
      if ds_record_id d \<noteq> mem (mem receipt ''record'') ''record_id'' then verdict False
      else if ds_binding_hash d \<noteq> mem receipt ''binding_hash'' then verdict False
      else case fieldOf receipt (ds_field d) of
          None \<Rightarrow> verdict False
        | Some (sealed, salt) \<Rightarrow>
            if salt \<noteq> ds_salt d then verdict False
            else rbind (saltedCommit (sha256 P) (strv (ds_salt d)) (utf8 (ds_value d))) (\<lambda>recomputed. verdict (JStr recomputed = sealed)))"

definition disclosableFields :: "jsval \<Rightarrow> DisclosableField list" where
  "disclosableFields receipt =
     (let record = mem receipt ''record'' in
      if mem record ''schema'' = JStr ''cool.evidence.v1''
      then let c = mem (mem record ''event'') ''commitments'' in
        [FMetadata] @ (if jtruthy (mem c ''input'') then [FInput] else []) @ (if jtruthy (mem c ''output'') then [FOutput] else [])
        @ (if jtruthy (mem c ''state'') then [FState] else [])
      else if jtruthy (mem (mem record ''change'') ''before_hash'') then [FBefore, FAfter] else [FAfter])"

text \<open>The texts an event commits to.\<close>

fun textOf :: "Payload option \<Rightarrow> string option" where
  "textOf (Some (Text s)) = Some s"
| "textOf p = None"

fun sealedText :: "CaptureEvent \<Rightarrow> DisclosableField \<Rightarrow> string option" where
  "sealedText (Evidence e) FInput = textOf (ee_input e)"
| "sealedText (Evidence e) FOutput = textOf (ee_output e)"
| "sealedText (Evidence e) FState = textOf (ee_state e)"
| "sealedText (Change c) FBefore = ce_before c"
| "sealedText (Change c) FAfter = Some (ce_after c)"
| "sealedText ev f = None"

section \<open>Lemmas\<close>

lemma disclose_verifies:
  "disclose P receipt field value = Inr d \<Longrightarrow> ds_value d = value \<and> verifyDisclosure P receipt d = Inr \<lparr>dv_ok = True, dv_field = field\<rparr>"
  by (auto simp: disclose_def verifyDisclosure_def rbind_Inr_iff Let_def split: option.splits prod.splits if_splits)

text \<open>What a field holds when it was filled with a commitment to a text.\<close>

definition holds :: "env \<Rightarrow> jsval \<Rightarrow> DisclosableField \<Rightarrow> string \<Rightarrow> bool" where
  "holds P receipt field value = (\<exists>h s. fieldOf receipt field = Some (JStr h, JStr s) \<and> saltedCommit (sha256 P) s (utf8 value) = Inr h)"

lemma holds_disclose: "holds P receipt field value \<Longrightarrow> \<exists>d. disclose P receipt field value = Inr d"
  by (auto simp: holds_def disclose_def strv_def)

lemma salted_not_empty: "saltedCommit H s v = Inr h \<Longrightarrow> h \<noteq> [] \<and> s \<noteq> []"
  by (auto simp: saltedCommit_def rbind_Inr_iff fromHexField_def mhSha256_def MULTIHASH_PREFIX_def HEX_FIELD_PREFIX_def split: if_splits)

text \<open>What the verifier has checked of a disclosure it accepts.\<close>

lemma verifyDisclosure_ok:
  assumes "verifyDisclosure P r d = Inr v" "dv_ok v"
  obtains salt sb where "ds_record_id d = mem (mem r ''record'') ''record_id''" "ds_binding_hash d = mem r ''binding_hash''" "ds_salt d = salt"
    "fromHexField (strv salt) = Inr sb" "fieldOf r (ds_field d) = Some (JStr (mhSha256 (sha256 P) (sb @ utf8 (ds_value d))), salt)"
  using assms by (auto simp: verifyDisclosure_def saltedCommit_def Let_def rbind_Inr_iff split: if_splits option.splits prod.splits)

lemma signed_reads: "k \<noteq> ''signature'' \<Longrightarrow> mem (signedRecordV2 (JObj es) s) k = mem (JObj es) k"
  by (simp add: signedRecordV2_def mem_JObj readMember_def map_of_mput entriesOf_def)

lemma commitPayload_text:
  assumes "commitPayload P src v pl = Inr ((a, b), pl')" "textOf v = Some t"
  obtains h s where "a = JStr h" "b = JStr s" "saltedCommit (sha256 P) s (utf8 t) = Inr h" "h \<noteq> []" "s \<noteq> []"
proof -
  have "v = Some (Text t)"
    using assms(2) by (cases v rule: textOf.cases) simp_all
  with assms(1) show ?thesis
    using that salted_not_empty by (fastforce simp: commitPayload_def nextSalt_def rbind_Inr_iff)
qed

definition coreHolds :: "env \<Rightarrow> jsval \<Rightarrow> DisclosableField \<Rightarrow> string \<Rightarrow> bool" where
  "coreHolds P core f t = holds P (JObj [(''record'', core)]) f t"

lemma evidence_holds:
  assumes "evidenceCore P src e time pl = Inr (core, pl')" "sealedText (Evidence e) f = Some t"
  shows "coreHolds P core f t"
proof -
  from assms(1) obtain p1 i1 p2 o1 p3 s1 p4 mh ms rid rt where c:
    "commitPayload P src (ee_input e) p1 = Inr (i1, p2)" "commitPayload P src (ee_output e) p2 = Inr (o1, p3)"
    "commitPayload P src (ee_state e) p3 = Inr (s1, p4)"
    "core = JObj [(''schema'', JStr ''cool.evidence.v1''), (''record_id'', JStr rid), (''time'', time),
       (''event'', JObj [(''type'', JStr (ee_type e)), (''application_id'', JStr (ee_applicationId e)),
          (''execution_id'', JStr (ee_executionId e)), (''metadata_hash'', JStr mh), (''metadata_salt'', JStr ms),
          (''commitments'', JObj [(''input'', fst i1), (''input_salt'', snd i1), (''output'', fst o1), (''output_salt'', snd o1),
             (''state'', fst s1), (''state_salt'', snd s1)]),
          (''software'', orElse (optOr (ee_software e) JUndef) JNull)]),
       (''runtime'', JObj rt)]"
    unfolding evidenceCore_def Let_def split_beta by (auto simp: rbind_Inr_iff split_beta)
  have opened: "\<exists>h s. fst pair = JStr h \<and> snd pair = JStr s \<and> saltedCommit (sha256 P) s (utf8 t) = Inr h \<and> h \<noteq> [] \<and> s \<noteq> []"
    if "commitPayload P src v q = Inr (pair, q')" "textOf v = Some t" for v q pair q'
    using that commitPayload_text [of P src v q "fst pair" "snd pair" q' t] by (metis prod.collapse)
  show ?thesis
  proof (cases f)
    case FInput
    then show ?thesis
      using opened [OF c(1)] assms(2) c(4) by (auto simp: coreHolds_def holds_def fieldOf_def committedPair_def mem_JObj readMember_Cons)
  next
    case FOutput
    then show ?thesis
      using opened [OF c(2)] assms(2) c(4) by (auto simp: coreHolds_def holds_def fieldOf_def committedPair_def mem_JObj readMember_Cons)
  next
    case FState
    then show ?thesis
      using opened [OF c(3)] assms(2) c(4) by (auto simp: coreHolds_def holds_def fieldOf_def committedPair_def mem_JObj readMember_Cons)
  qed (use assms(2) in simp_all)
qed

lemma change_holds:
  assumes "changeCore P src c time pl = Inr (core, pl')" "sealedText (Change c) f = Some t"
  shows "coreHolds P core f t"
proof -
  from assms(1) obtain bh bs ah asalt rid rest approval where c:
    "(case ce_before c of None \<Rightarrow> Inr JNull | Some b \<Rightarrow> rbind (saltedCommit (sha256 P) bs (utf8 b)) (\<lambda>h. Inr (JStr h))) = Inr bh"
    "saltedCommit (sha256 P) asalt (utf8 (ce_after c)) = Inr ah"
    "core = JObj ([(''schema'', JStr ''cool.change.v2''), (''record_id'', JStr rid), (''time'', time),
       (''change'', JObj [(''kind'', JStr (ce_changeKind c)), (''ref'', JStr (ce_ref c)), (''environment'', JStr (ce_environment c)),
          (''before_hash'', bh), (''before_salt'', (case ce_before c of None \<Rightarrow> JNull | Some _ \<Rightarrow> JStr bs)),
          (''after_hash'', JStr ah), (''after_salt'', JStr asalt), (''diff_hash'', JStr (mhSha256 (sha256 P) (utf8 (unifiedDiff (optOr (ce_before c) []) (ce_after c))))),
          (''actor'', JObj [(''id'', JStr (ce_actor_id c)), (''method'', JStr (ce_actor_method c))]),
          (''approval'', (case approval of Some a \<Rightarrow> approvalVal a | None \<Rightarrow> JNull))]),
       (''runtime'', JObj rest)])"
    unfolding changeCore_def Let_def split_beta by (auto simp: rbind_Inr_iff split_beta)
  show ?thesis
  proof (cases f)
    case FBefore
    then have "ce_before c = Some t"
      using assms(2) by simp
    moreover from this obtain h where h: "bh = JStr h" "saltedCommit (sha256 P) bs (utf8 t) = Inr h"
      using c(1) by (auto simp: rbind_Inr_iff)
    ultimately show ?thesis
      using FBefore salted_not_empty [OF h(2)] c(3) by (auto simp: coreHolds_def holds_def fieldOf_def committedPair_def mem_JObj readMember_Cons)
  next
    case FAfter
    then show ?thesis
      using c(2,3) assms(2) by (auto simp: coreHolds_def holds_def fieldOf_def mem_JObj readMember_Cons)
  qed (use assms(2) in simp_all)
qed

lemma seal_core:
  assumes "seal P src event pl = Some (Inr (r, pl'))"
  obtains core pl1 s where "coreFor P src event pl = Inr (core, pl1)" "mem r ''record'' = signedRecordV2 core s"
  using assms by (auto simp: seal_def Let_def runbind_ok_iff split_beta)

lemma core_is_object:
  "evidenceCore P src e time pl = Inr (core, pl') \<Longrightarrow> \<exists>es. core = JObj es"
  "changeCore P src c time pl = Inr (core, pl') \<Longrightarrow> \<exists>es. core = JObj es"
  by (auto simp: evidenceCore_def changeCore_def Let_def rbind_Inr_iff split_beta)

lemma holds_record: "mem r ''record'' = signedRecordV2 (JObj es) s \<Longrightarrow> holds P r f t = coreHolds P (JObj es) f t"
  by (simp add: coreHolds_def holds_def fieldOf_def signed_reads mem_JObj readMember_Cons Let_def)

lemma sealed_holds:
  assumes "seal P src event pl = Some (Inr (r, pl'))" "sealedText event f = Some t"
  shows "holds P r f t"
proof -
  obtain core pl1 s where c: "coreFor P src event pl = Inr (core, pl1)" "mem r ''record'' = signedRecordV2 core s"
    by (rule seal_core [OF assms(1)])
  have "(\<exists>es. core = JObj es) \<and> coreHolds P core f t"
    using c(1) assms(2) core_is_object evidence_holds change_holds by (cases event) (auto simp: coreFor_def Let_def)
  then show ?thesis
    using c(2) holds_record by metis
qed

lemma record_parts:
  assumes "hasShape RECORD v"
  shows "mem v ''schema'' = JStr ''cool.evidence.v1'' \<and> hasShape EVENT (mem v ''event'') \<or> mem v ''schema'' = JStr ''cool.change.v2'' \<and> hasShape CHANGE (mem v ''change'')"
proof -
  have "hasShape (SOr (SFields [(''schema'', SOneOf [''cool.evidence.v1'']), (''event'', EVENT)]) (SFields [(''schema'', SOneOf [''cool.change.v2'']), (''change'', CHANGE)])) v"
    using assms by (simp add: RECORD_def hasShape.simps(11))
  then show ?thesis
    by (auto simp: hasShape.simps(5,10) hasShape_fields mem_def split: option.splits)
qed

section \<open>Properties\<close>

text \<open>Every text that was sealed can be opened later: for a receipt the plane sealed, disclosing an input, output or state given as text, or a
  change's old or new version, succeeds with the original text, and the disclosure verifies against the receipt.\<close>

theorem sealed_text_discloses:
  assumes "seal P src event pl = Some (Inr (r, pl'))" "sealedText event f = Some t"
  shows "\<exists>d. disclose P r f t = Inr d \<and> ds_value d = t \<and> verifyDisclosure P r d = Inr \<lparr>dv_ok = True, dv_field = f\<rparr>"
  using holds_disclose [OF sealed_holds [OF assms]] disclose_verifies by blast

text \<open>\<^bold>\<open>C30.\<close> A field opens to one value.  A disclosure that verifies names the receipt's record and binding hash and carries the field's own
  salt, and the field of the receipt is the hash of that salt followed by the disclosed text.  So two disclosures of a field that verify
  against the same receipt carry the same text, unless salt and text of the one and salt and text of the other are themselves two
  different inputs with the same SHA-256.  Texts are compared as their UTF-8 form, which is what a disclosure is hashed from.\<close>

theorem disclosure_binding:
  assumes "verifyDisclosure P r d = Inr v" "dv_ok v" "verifyDisclosure P r d' = Inr v'" "dv_ok v'" "ds_field d = ds_field d'"
  shows "\<exists>salt sb. fieldOf r (ds_field d) = Some (JStr (mhSha256 (sha256 P) (sb @ utf8 (ds_value d))), salt)
    \<and> fromHexField (strv salt) = Inr sb \<and> ds_salt d = salt \<and> ds_salt d' = salt
    \<and> (\<forall>x \<in> {d, d'}. ds_record_id x = mem (mem r ''record'') ''record_id'' \<and> ds_binding_hash x = mem r ''binding_hash'')
    \<and> sha256 P (sb @ utf8 (ds_value d)) = sha256 P (sb @ utf8 (ds_value d'))
    \<and> (ds_value d = ds_value d' \<or> sb @ utf8 (ds_value d) \<noteq> sb @ utf8 (ds_value d'))"
proof -
  obtain salt sb where d: "ds_record_id d = mem (mem r ''record'') ''record_id''" "ds_binding_hash d = mem r ''binding_hash''" "ds_salt d = salt"
    "fromHexField (strv salt) = Inr sb" "fieldOf r (ds_field d) = Some (JStr (mhSha256 (sha256 P) (sb @ utf8 (ds_value d))), salt)"
    by (rule verifyDisclosure_ok [OF assms(1,2)])
  obtain salt' sb' where d': "ds_record_id d' = mem (mem r ''record'') ''record_id''" "ds_binding_hash d' = mem r ''binding_hash''" "ds_salt d' = salt'"
    "fromHexField (strv salt') = Inr sb'" "fieldOf r (ds_field d') = Some (JStr (mhSha256 (sha256 P) (sb' @ utf8 (ds_value d'))), salt')"
    by (rule verifyDisclosure_ok [OF assms(3,4)])
  have same: "salt' = salt" "sb' = sb"
    and "mhSha256 (sha256 P) (sb @ utf8 (ds_value d)) = mhSha256 (sha256 P) (sb @ utf8 (ds_value d'))"
    using d(4,5) d'(4,5) assms(5) by auto
  then have "sha256 P (sb @ utf8 (ds_value d)) = sha256 P (sb @ utf8 (ds_value d'))"
    using mhSha256_inj by blast
  then show ?thesis
    using d d' same utf8_inj by (intro exI [of _ salt] exI [of _ sb]) auto
qed

text \<open>What is offered can be opened: on a receipt of the declared shape the listed fields are exactly those that hold a commitment with
  its salt.\<close>

theorem disclosable_fields_exact:
  assumes "hasShape RECEIPT_V2 r"
  shows "f \<in> set (disclosableFields r) \<longleftrightarrow> fieldOf r f \<noteq> None"
proof -
  have pair: "jtruthy (mem v f) \<longleftrightarrow> committedPair v f g \<noteq> None"
    if "hasShape (SFields [(f, SNull)]) v \<or> hasShape (SFields [(f, SDigest), (g, SHex)]) v" for v f g
  proof -
    have "mem v f = JNull \<or> hasShape SDigest (mem v f) \<and> hasShape SHex (mem v g)"
      using that by (auto simp: hasShape_fields mem_def hasShape.simps(2) split: option.splits)
    then show ?thesis
      by (auto simp: committedPair_def jtruthy_def hasShape.simps(4))
  qed
  have com: "hasShape (SFields [(f, SNull)]) v \<or> hasShape (SFields [(f, SDigest), (f @ ''_salt'', SHex)]) v" if "hasShape (COMMITMENT f) v" for v f
    using that by (auto simp: COMMITMENT_def hasShape.simps(10) hasShape_fields split: option.splits)
  let ?rec = "mem r ''record''"
  have rec: "hasShape RECORD ?rec"
    using assms by (rule receipt_parts)
  show ?thesis
  proof (cases "mem ?rec ''schema'' = JStr ''cool.evidence.v1''")
    case True
    then have "hasShape EVENT (mem ?rec ''event'')"
      using record_parts [OF rec] by auto
    then have "hasShape (SAnd (COMMITMENT ''input'') (SAnd (COMMITMENT ''output'') (COMMITMENT ''state''))) (mem (mem ?rec ''event'') ''commitments'')"
      unfolding EVENT_def by (rule hasShape_mem) simp
    then have "hasShape (COMMITMENT ''input'') (mem (mem ?rec ''event'') ''commitments'')" "hasShape (COMMITMENT ''output'') (mem (mem ?rec ''event'') ''commitments'')"
      "hasShape (COMMITMENT ''state'') (mem (mem ?rec ''event'') ''commitments'')"
      by (simp_all add: hasShape.simps(11))
    note com [OF this(1)] com [OF this(2)] com [OF this(3)]
    from this [THEN pair] show ?thesis
      using True by (cases f) (auto simp: disclosableFields_def fieldOf_def Let_def)
  next
    case False
    then have "hasShape CHANGE (mem ?rec ''change'')"
      using record_parts [OF rec] by auto
    then have "hasShape (SFields [(''before_hash'', SNull)]) (mem ?rec ''change'') \<or> hasShape (SFields [(''before_hash'', SDigest), (''before_salt'', SHex)]) (mem ?rec ''change'')"
      by (auto simp: CHANGE_def hasShape.simps(10,11))
    from pair [OF this] show ?thesis
      using False by (cases f) (auto simp: disclosableFields_def fieldOf_def Let_def)
  qed
qed

section \<open>Witnesses\<close>

lemma toySealed:
  obtains pl r pl' where "seal toyEnv toySources toyEvent pl = Some (Inr (r, pl'))"
proof -
  obtain pl where pl: "plane_ok toyEnv pl" "logSize pl = 0" "event_ok toyEnv pl toyEvent"
    using toyPlane by metis
  then have "logSize pl < 2 ^ 30"
    by simp
  then obtain r pl' where "seal toyEnv toySources toyEvent pl = Some (Inr (r, pl'))"
    by (rule sealed_verdict [OF signs_toyEnv toySources_ok pl(1,3)])
  then show ?thesis
    by (rule that)
qed

theorem sealed_text_discloses_witness:
  "\<exists>r d. disclose toyEnv r FAfter ''x'' = Inr d \<and> ds_value d = ''x'' \<and> verifyDisclosure toyEnv r d = Inr \<lparr>dv_ok = True, dv_field = FAfter\<rparr>"
proof -
  obtain pl r pl' where "seal toyEnv toySources toyEvent pl = Some (Inr (r, pl'))"
    by (rule toySealed)
  from sealed_text_discloses [OF this, of FAfter "''x''"] show ?thesis
    by (auto simp: toyEvent_def)
qed

text \<open>Two different disclosures of one field: the verifier does not read the commitment a disclosure repeats.\<close>

theorem disclosure_binding_witness:
  "\<exists>r d d' salt sb. d \<noteq> d' \<and> verifyDisclosure toyEnv r d = Inr \<lparr>dv_ok = True, dv_field = FAfter\<rparr> \<and> verifyDisclosure toyEnv r d' = Inr \<lparr>dv_ok = True, dv_field = FAfter\<rparr>
    \<and> fieldOf r FAfter = Some (JStr (mhSha256 (sha256 toyEnv) (sb @ utf8 (ds_value d))), salt) \<and> ds_salt d' = salt"
proof -
  obtain pl r pl' where r: "seal toyEnv toySources toyEvent pl = Some (Inr (r, pl'))"
    by (rule toySealed)
  have "holds toyEnv r FAfter ''x''"
    using sealed_holds [OF r, of FAfter] by (simp add: toyEvent_def)
  then obtain d where d: "disclose toyEnv r FAfter ''x'' = Inr d"
    using holds_disclose by blast
  have v: "verifyDisclosure toyEnv r d = Inr \<lparr>dv_ok = True, dv_field = FAfter\<rparr>"
    using disclose_verifies [OF d] by simp
  obtain c where c: "ds_commitment d = JStr c"
    using d by (auto simp: disclose_def rbind_Inr_iff split: option.splits prod.splits if_splits)
  let ?d = "d\<lparr>ds_commitment := JNull\<rparr>"
  have "d \<noteq> ?d"
  proof
    assume "d = ?d"
    then have "ds_commitment d = ds_commitment ?d" by (rule arg_cong)
    then show False using c by simp
  qed
  have v': "verifyDisclosure toyEnv r ?d = Inr \<lparr>dv_ok = True, dv_field = FAfter\<rparr>"
    using v by (simp add: verifyDisclosure_def cong del: if_weak_cong option.case_cong_weak prod.case_cong_weak)
  have f: "ds_field d = FAfter"
    using d by (auto simp: disclose_def rbind_Inr_iff split: option.splits prod.splits if_splits)
  obtain salt sb where "fieldOf r FAfter = Some (JStr (mhSha256 (sha256 toyEnv) (sb @ utf8 (ds_value d))), salt)" "ds_salt ?d = salt"
    using disclosure_binding [OF v _ v'] f by auto
  with v v' \<open>d \<noteq> ?d\<close> show ?thesis
    by blast
qed

theorem disclosable_fields_exact_witness:
  "hasShape RECEIPT_V2 toyStapled \<and> (FInput \<in> set (disclosableFields toyStapled) \<longleftrightarrow> fieldOf toyStapled FInput \<noteq> None)"
  using toyStapled_shape disclosable_fields_exact [OF toyStapled_shape] by blast

end
