(* ===== verification/Bundle.thy ===== *)
theory Bundle
  imports Envelope
begin

text \<open>
  \<^verbatim>\<open>src/src/platform/bundle.ts\<close>: evidence bundles.  Decisions and attachment bodies are dynamically typed values.  The loop that looks for
  gaps counts with a double up to the largest sequence number, so it does not return when that is \<open>2\<^sup>53\<close> or more (\<open>None\<close>).

  Results: what a passing report establishes, that an exported bundle verifies exactly when its contents do, and that one large
  sequence number in an unsigned bundle keeps the verifier from returning.
\<close>

section \<open>Bundles\<close>

record BundleEntry =
  be_at :: string
  be_event_id :: string
  be_event_type :: string
  be_digest :: Multihash
  be_overall :: OverallStatus

record BundleAttachment =
  at_kind :: string
  at_digest :: Multihash
  at_body :: jsval

record BundleManifestEntry =
  me_kind :: string
  me_id :: string
  me_digest :: Multihash

record EvidenceBundle =
  bu_schema :: string
  bu_created_at :: string
  bu_title :: string
  bu_envelopes :: "SignedEnvelope list"
  bu_decisions :: "jsval list"
  bu_attachments :: "BundleAttachment list option"
  bu_trust_snapshot :: TrustSnapshot
  bu_entries :: "BundleManifestEntry list"
  bu_manifest_digest :: Multihash
  bu_signature :: SignatureBlock
  bu_exporter_id :: string
  bu_exporter_entry :: DirectoryEntry

definition MANIFEST_DOMAIN :: bytes where
  "MANIFEST_DOMAIN = utf8 (''cool.bundle.manifest.v1'' @ [CHR 0x00])"

definition templateText :: "env \<Rightarrow> jsval \<Rightarrow> string" where
  "templateText P v = (case v of JStr s \<Rightarrow> s | _ \<Rightarrow> js_string P v)"

definition fieldText :: "env \<Rightarrow> jsval \<Rightarrow> string \<Rightarrow> string" where
  "fieldText P v k = templateText P (case entriesOf v of Some es \<Rightarrow> readMember es k | None \<Rightarrow> JUndef)"

definition decisionDigest :: "env \<Rightarrow> jsval \<Rightarrow> Multihash" where
  "decisionDigest P d = mhSha256 (sha256 P) (canonicalCbor P d)"

definition manifestEntryVal :: "BundleManifestEntry \<Rightarrow> jsval" where
  "manifestEntryVal e = JObj [(''kind'', JStr (me_kind e)), (''id'', JStr (me_id e)), (''digest'', JStr (me_digest e))]"

definition manifestOf :: "env \<Rightarrow> SignedEnvelope list \<Rightarrow> jsval list \<Rightarrow> BundleAttachment list \<Rightarrow> BundleManifestEntry list \<times> Multihash" where
  "manifestOf P envelopes decisions attachments =
     (let entries = sortBy (\<lambda>a b. strLe (me_digest a) (me_digest b))
            (map (\<lambda>a. \<lparr>me_kind = ''attachment'', me_id = at_kind a, me_digest = at_digest a\<rparr>) attachments
             @ map (\<lambda>e. \<lparr>me_kind = ''envelope'', me_id = co_event_id (se_core e), me_digest = se_digest e\<rparr>) envelopes
             @ map (\<lambda>d. \<lparr>me_kind = ''decision'', me_id = fieldText P d ''policy_id'' @ ''@'' @ fieldText P d ''policy_version'' @ '':'' @ fieldText P d ''evaluated_at'',
                 me_digest = decisionDigest P d\<rparr>) decisions)
      in (entries, mhSha256 (sha256 P) (concatBytes [MANIFEST_DOMAIN, canonicalCbor P (JArr (map manifestEntryVal entries))])))"

text \<open>\<^verbatim>\<open>JSON.parse(JSON.stringify(body))\<close>: undefined members are left out, undefined elements and numbers that are not finite become null, a byte
  array becomes an object with its indices; it throws for \<^verbatim>\<open>undefined\<close> itself.\<close>

fun jsonValue :: "jsval \<Rightarrow> jsval" where
  "jsonValue (JArr vs) = JArr (map (\<lambda>v. if v = JUndef then JNull else jsonValue v) vs)"
| "jsonValue (JObj es) = JObj (map (\<lambda>(k, v). (k, jsonValue v)) (filter (\<lambda>(k, v). v \<noteq> JUndef) es))"
| "jsonValue (JNum n) = (case n of Fin r \<Rightarrow> JNum n | _ \<Rightarrow> JNull)"
| "jsonValue (JBytes bs) = JObj (map (\<lambda>(i, b). (showNat i, JNum (Fin (of_nat (unat b))))) (enumerate 0 bs))"
| "jsonValue v = v"

definition jsonClone :: "jsval \<Rightarrow> jsval res" where
  "jsonClone v = (if v = JUndef then Inl (Error ''SyntaxError'') else Inr (jsonValue v))"

definition attachmentDigest :: "env \<Rightarrow> jsval \<Rightarrow> Multihash res" where
  "attachmentDigest P body = rbind (jsonClone body) (\<lambda>v. Inr (mhSha256 (sha256 P) (canonicalCbor P v)))"

definition exportBundle :: "env \<Rightarrow> string \<Rightarrow> SignedEnvelope list \<Rightarrow> jsval list \<Rightarrow> (string \<times> jsval) list \<Rightarrow> TrustStore \<Rightarrow> KeyPair \<Rightarrow> int \<Rightarrow> EvidenceBundle res" where
  "exportBundle P title envelopes decisions attached trust exporter now =
     rbind (mapM (\<lambda>(kind, body). rbind (attachmentDigest P body) (\<lambda>d. Inr \<lparr>at_kind = kind, at_digest = d, at_body = body\<rparr>)) attached) (\<lambda>attachments.
     let (entries, digest) = manifestOf P envelopes decisions attachments in
     rbind (multihashDigest digest) (\<lambda>message.
       Inr \<lparr>bu_schema = ''cool.bundle.v1'', bu_created_at = to_iso P now, bu_title = title, bu_envelopes = envelopes, bu_decisions = decisions,
         bu_attachments = (if attachments = [] then None else Some attachments), bu_trust_snapshot = trust_snapshot trust,
         bu_entries = entries, bu_manifest_digest = digest, bu_signature = hybridSign P message exporter,
         bu_exporter_id = keyId exporter, bu_exporter_entry = directoryEntry exporter\<rparr>))"

section \<open>Verification\<close>

record BundleReport =
  br_overall :: OverallStatus
  br_outcome :: Outcome
  br_checks :: Checks
  br_envelopes :: "(string \<times> string \<times> OverallStatus \<times> string list) list"
  br_entries :: "BundleEntry list"
  br_reasons :: "string list"

definition attachmentsOf :: "EvidenceBundle \<Rightarrow> BundleAttachment list" where
  "attachmentsOf b = (case bu_attachments b of Some as \<Rightarrow> as | None \<Rightarrow> [])"

definition manifestCheck :: "env \<Rightarrow> EvidenceBundle \<Rightarrow> Check" where
  "manifestCheck P b = (if snd (manifestOf P (bu_envelopes b) (bu_decisions b) (attachmentsOf b)) = bu_manifest_digest b
     then check Pass ''manifest_matches'' else check Fail ''manifest_mismatch'')"

definition exporterCheck :: "env \<Rightarrow> EvidenceBundle \<Rightarrow> bytes \<Rightarrow> Check" where
  "exporterCheck P b message = (if hv_ok (hybridVerify P message (bu_signature b) (bu_exporter_entry b)) \<and> sig_key_id (bu_signature b) = bu_exporter_id b
     then check Pass ''exporter_signed'' else check Fail ''exporter_signature_invalid'')"

definition envelopesCheck :: "VerificationReport list \<Rightarrow> Check" where
  "envelopesCheck reports = (if list_ex (\<lambda>r. vr_overall r = OFail) reports then check Fail ''envelope_failed''
     else if list_ex (\<lambda>r. vr_overall r = OUnknown) reports then check Unknown ''envelope_unknown''
     else check Pass ''all_envelopes_valid'')"

definition completeBundle :: "VerificationReport list \<Rightarrow> Check" where
  "completeBundle reports = (if list_ex (\<lambda>r. map_option c_status (map_of (vr_checks r) ''evidence_complete'') = Some Fail) reports
     then check Fail ''missing_evidence'' else check Pass ''references_resolved'')"

definition decisionsCheck :: "env \<Rightarrow> EvidenceBundle \<Rightarrow> Check" where
  "decisionsCheck P b = (if list_ex (\<lambda>e. case co_policy (se_core e) of Some p \<Rightarrow> pol_decision_ref p \<notin> decisionDigest P ` set (bu_decisions b) | None \<Rightarrow> False) (bu_envelopes b)
     then check Fail ''decision_missing'' else check Pass ''decisions_bound'')"

definition attachmentsCheck :: "env \<Rightarrow> EvidenceBundle \<Rightarrow> Check" where
  "attachmentsCheck P b = (if list_ex (\<lambda>a. attachmentDigest P (at_body a) \<noteq> Inr (at_digest a)) (attachmentsOf b) then check Fail ''attachment_mismatch''
     else if attachmentsOf b \<noteq> [] then check Pass ''attachments_bound'' else check NotApplicable ''no_attachments'')"

text \<open>\<^verbatim>\<open>byEpoch\<close>, in insertion order.\<close>

fun groupEpochs :: "(jsnum \<times> jsnum) list \<Rightarrow> (jsnum \<times> jsnum list) list \<Rightarrow> (jsnum \<times> jsnum list) list" where
  "groupEpochs [] m = m"
| "groupEpochs ((epoch, n) # rest) m = groupEpochs rest (mput epoch ((case map_of m epoch of Some ns \<Rightarrow> ns | None \<Rightarrow> []) @ [n]) m)"

definition sequencesOf :: "EvidenceBundle \<Rightarrow> (jsnum \<times> jsnum) list" where
  "sequencesOf b = List.map_filter (\<lambda>e. co_sequence (se_core e)) (bu_envelopes b)"

text \<open>\<^verbatim>\<open>Math.max(...nums)\<close>.\<close>

definition jsMax :: "jsnum list \<Rightarrow> jsnum" where
  "jsMax ns = (if NaN \<in> set ns then NaN else foldl (\<lambda>a b. if js_lt a b then b else a) NegInf ns)"

text \<open>The loop \<^verbatim>\<open>for (let n = 0; n <= Math.max(...nums); n++)\<close>.  The counter is a double, so \<^verbatim>\<open>n++\<close> rounds; a loop that does not end is
  \<open>None\<close>.  The list of gaps is unbounded here, as the language has it.\<close>

partial_function (option) gapLoop :: "jsnum list \<Rightarrow> nat \<Rightarrow> nat list \<Rightarrow> nat list option" where
  "gapLoop ns n gaps =
     (if js_le (Fin (of_nat n)) (jsMax ns) then gapLoop ns (dbl (n + 1)) (if Fin (of_nat n) \<in> set ns then gaps else gaps @ [n])
      else Some gaps)"

definition gapsIn :: "jsnum list \<Rightarrow> nat list option" where
  "gapsIn ns = gapLoop ns 0 []"

fun allGaps :: "(jsnum \<times> jsnum list) list \<Rightarrow> (jsnum \<times> nat) list option" where
  "allGaps [] = Some []"
| "allGaps ((epoch, ns) # rest) = (case gapsIn ns of None \<Rightarrow> None | Some gs \<Rightarrow> map_option (\<lambda>r. map (Pair epoch) gs @ r) (allGaps rest))"

definition sequenceCheck :: "EvidenceBundle \<Rightarrow> Check option" where
  "sequenceCheck b = (let byEpoch = groupEpochs (sequencesOf b) [] in
     if byEpoch = [] then Some (check NotApplicable ''no_sequences'')
     else map_option (\<lambda>gaps. if gaps \<noteq> [] then check Fail ''sequence_gap'' else check Pass ''sequences_contiguous'') (allGaps byEpoch))"

definition BUNDLE_CHECKS :: "string list" where
  "BUNDLE_CHECKS = [''manifest_valid'', ''exporter_signature_valid'', ''trust_source'', ''envelopes_valid'', ''evidence_complete'', ''decisions_bound'',
     ''attachments_bound'', ''sequence_complete'']"

definition entryLe :: "env \<Rightarrow> BundleEntry \<Rightarrow> BundleEntry \<Rightarrow> bool" where
  "entryLe P a b = (if be_at a = be_at b then locale_le P (be_digest a) (be_digest b) else locale_le P (be_at a) (be_at b))"

definition bundleReport :: "env \<Rightarrow> EvidenceBundle \<Rightarrow> Checks \<Rightarrow> VerificationReport list \<Rightarrow> BundleReport" where
  "bundleReport P b checks reports =
     \<lparr>br_overall = fst (overallOf checks (map fst checks)), br_outcome = fst (classifyOutcome checks (map fst checks)), br_checks = checks,
      br_envelopes = map (\<lambda>(r, e). (co_event_id (se_core e), co_event_type (se_core e), vr_overall r, vr_reasons r)) (zip reports (bu_envelopes b)),
      br_entries = sortBy (entryLe P) (map (\<lambda>(r, e). \<lparr>be_at = co_occurred_at (se_core e), be_event_id = co_event_id (se_core e),
        be_event_type = co_event_type (se_core e), be_digest = se_digest e, be_overall = vr_overall r\<rparr>) (zip reports (bu_envelopes b))),
      br_reasons = snd (overallOf checks (map fst checks))\<rparr>"

definition bundleOptions :: "VerifyEnvelopeOptions \<Rightarrow> TrustStore \<Rightarrow> EvidenceBundle \<Rightarrow> VerifyEnvelopeOptions" where
  "bundleOptions opts trust b = opts\<lparr>ev_trust := trust, ev_resolve := Some (\<lambda>ref. ref \<in> se_digest ` set (bu_envelopes b))\<rparr>"

text \<open>The options carry no trust store or resolver of their own; \<open>own\<close> is the trust store the verifier supplies.\<close>

definition verifyBundle :: "env \<Rightarrow> EvidenceBundle \<Rightarrow> VerifyEnvelopeOptions \<Rightarrow> TrustStore option \<Rightarrow> BundleReport run" where
  "verifyBundle P b opts own =
     (if bu_schema b \<noteq> ''cool.bundle.v1'' then Some (Inl (Error ''not a cool.bundle.v1 bundle''))
      else runbind (Some (multihashDigest (bu_manifest_digest b))) (\<lambda>message.
      runbind (Some (case own of Some t \<Rightarrow> Inr t | None \<Rightarrow> newTrustStore (bu_trust_snapshot b))) (\<lambda>trust.
      runbind (Some (mapM (\<lambda>e. verifyEnvelope P e (bundleOptions opts trust b)) (bu_envelopes b))) (\<lambda>reports.
      case sequenceCheck b of
        None \<Rightarrow> None
      | Some sequence \<Rightarrow> Some (Inr (bundleReport P b (zip BUNDLE_CHECKS
          [manifestCheck P b, exporterCheck P b message,
           (if own \<noteq> None then check Pass ''verifier_trust'' else check Unknown ''self_asserted_trust''),
           envelopesCheck reports, completeBundle reports, decisionsCheck P b, attachmentsCheck P b, sequence]) reports))))))"

section \<open>Lemmas\<close>

lemma bundle_statuses:
  assumes "length cs = 8"
  shows "fst (overallOf (zip BUNDLE_CHECKS cs) (map fst (zip BUNDLE_CHECKS cs))) = OPass \<longleftrightarrow> (\<forall>c \<in> set cs. c_status c \<in> {Pass, NotApplicable})"
proof -
  obtain a b c d e f g h where cs: "cs = [a, b, c, d, e, f, g, h]"
    using assms by (auto simp: numeral_eq_Suc length_Suc_conv)
  show ?thesis
    by (auto simp: cs overall_spec BUNDLE_CHECKS_def statusOf_def)
qed

lemma verifyBundle_ok:
  assumes "verifyBundle P b opts own = Some (Inr rep)"
  obtains message trust reports sequence where
    "bu_schema b = ''cool.bundle.v1''" "multihashDigest (bu_manifest_digest b) = Inr message"
    "(case own of Some t \<Rightarrow> Inr t | None \<Rightarrow> newTrustStore (bu_trust_snapshot b)) = Inr trust"
    "mapM (\<lambda>e. verifyEnvelope P e (bundleOptions opts trust b)) (bu_envelopes b) = Inr reports"
    "sequenceCheck b = Some sequence"
    "br_overall rep = OPass \<longleftrightarrow> (\<forall>c \<in> {manifestCheck P b, exporterCheck P b message, (if own \<noteq> None then check Pass ''verifier_trust'' else check Unknown ''self_asserted_trust''),
       envelopesCheck reports, completeBundle reports, decisionsCheck P b, attachmentsCheck P b, sequence}. c_status c \<in> {Pass, NotApplicable})"
  using assms unfolding verifyBundle_def
  by (auto simp: runbind_ok_iff bundleReport_def bundle_statuses simp del: zip.simps split: if_splits option.splits)

lemma manifestCheck_pass: "c_status (manifestCheck P b) \<in> {Pass, NotApplicable} \<longleftrightarrow>
    snd (manifestOf P (bu_envelopes b) (bu_decisions b) (attachmentsOf b)) = bu_manifest_digest b"
  by (simp add: manifestCheck_def)

lemma exporterCheck_pass: "c_status (exporterCheck P b m) \<in> {Pass, NotApplicable} \<longleftrightarrow>
    hv_ok (hybridVerify P m (bu_signature b) (bu_exporter_entry b)) \<and> sig_key_id (bu_signature b) = bu_exporter_id b"
  by (simp add: exporterCheck_def)

lemma envelopesCheck_pass: "c_status (envelopesCheck rs) \<in> {Pass, NotApplicable} \<longleftrightarrow> (\<forall>r \<in> set rs. vr_overall r = OPass)"
proof -
  have "vr_overall r = OPass \<longleftrightarrow> vr_overall r \<noteq> OFail \<and> vr_overall r \<noteq> OUnknown" for r
    by (cases "vr_overall r") simp_all
  then show ?thesis
    by (auto simp: envelopesCheck_def list_ex_iff)
qed

lemma decisionsCheck_pass: "c_status (decisionsCheck P b) \<in> {Pass, NotApplicable} \<longleftrightarrow>
    (\<forall>e \<in> set (bu_envelopes b). \<forall>p. co_policy (se_core e) = Some p \<longrightarrow> pol_decision_ref p \<in> decisionDigest P ` set (bu_decisions b))"
  by (auto simp: decisionsCheck_def list_ex_iff split: option.splits)

lemma attachmentsCheck_pass: "c_status (attachmentsCheck P b) \<in> {Pass, NotApplicable} \<longleftrightarrow>
    (\<forall>a \<in> set (attachmentsOf b). attachmentDigest P (at_body a) = Inr (at_digest a))"
  by (auto simp: attachmentsCheck_def list_ex_iff)

lemmas bundle_checks_pass = manifestCheck_pass exporterCheck_pass envelopesCheck_pass decisionsCheck_pass attachmentsCheck_pass

text \<open>An envelope that passes with a resolver has its references resolved, and its completeness check does not fail.\<close>

lemma passed_complete:
  assumes "verifyEnvelope P e opts = Inr r" "vr_overall r = OPass" "ev_resolve opts = Some f"
  shows "\<forall>ref \<in> set (co_refs (se_core e) @ map snd (co_relations (se_core e))). f ref"
    and "map_option c_status (map_of (vr_checks r) ''evidence_complete'') = Some Pass"
proof -
  have sc: "c_status (schemaCheck P (ev_registry opts) e) \<noteq> Fail"
    using assms(1,2) by (auto simp: verifyEnvelope_def Let_def)
  have cs: "statusOf (vr_checks r) ''evidence_complete'' = Some (c_status (completeCheck opts (se_core e)))"
    "vr_overall r = fst (overallOf (vr_checks r) (requiredOf opts e))"
    by (rule verifyEnvelope_parts [OF assms(1) sc], simp add: statusOf_def)+
  have "statusOf (vr_checks r) ''evidence_complete'' \<in> {Some Pass, Some NotApplicable}"
    using cs(2) assms(2,3) by (auto simp: overall_spec requiredOf_def split: if_splits)
  then show "\<forall>ref \<in> set (co_refs (se_core e) @ map snd (co_relations (se_core e))). f ref"
    "map_option c_status (map_of (vr_checks r) ''evidence_complete'') = Some Pass"
    using cs(1) assms(3) by (auto simp: completeCheck_def list_ex_iff statusOf_def split: if_splits)
qed

section \<open>Sequences\<close>

lemma groupEpochs_map_of:
  "map_of (groupEpochs ss m) e = (let ns = map snd (filter (\<lambda>p. fst p = e) ss) in
     if ns = [] then map_of m e else Some ((case map_of m e of Some ns \<Rightarrow> ns | None \<Rightarrow> []) @ ns))"
  by (induction ss m rule: groupEpochs.induct) (auto simp: map_of_mput Let_def)

lemma allGaps_none: "allGaps m = Some [] \<Longrightarrow> map_of m e = Some ns \<Longrightarrow> gapsIn ns = Some []"
  by (induction m rule: allGaps.induct) (auto split: option.splits if_splits)

lemma js_max_step: "a \<noteq> NaN \<Longrightarrow> b \<noteq> NaN \<Longrightarrow> m \<noteq> NaN \<Longrightarrow> \<not> js_lt m (if js_lt a b then b else a) \<Longrightarrow> \<not> js_lt m a \<and> \<not> js_lt m b"
  by (cases a; cases b; cases m) (auto simp: js_lt_def split: if_splits)

lemma foldl_js_max:
  assumes "NaN \<notin> set ns" "a \<noteq> NaN"
  shows "foldl (\<lambda>a b. if js_lt a b then b else a) a ns \<noteq> NaN \<and> \<not> js_lt (foldl (\<lambda>a b. if js_lt a b then b else a) a ns) a
    \<and> (\<forall>x \<in> set ns. \<not> js_lt (foldl (\<lambda>a b. if js_lt a b then b else a) a ns) x)"
  using assms
proof (induction ns arbitrary: a)
  case Nil
  then show ?case by (cases a) (simp_all add: js_lt_def)
next
  case (Cons b ns)
  let ?a = "if js_lt a b then b else a" and ?m = "foldl (\<lambda>a b. if js_lt a b then b else a) a (b # ns)"
  have "?m = foldl (\<lambda>a b. if js_lt a b then b else a) ?a ns" "?a \<noteq> NaN"
    using Cons.prems by auto
  then have m: "?m \<noteq> NaN" "\<not> js_lt ?m ?a" "\<forall>x \<in> set ns. \<not> js_lt ?m x"
    using Cons.IH [of ?a] Cons.prems(1) by simp_all
  then have "\<not> js_lt ?m a \<and> \<not> js_lt ?m b"
    using js_max_step [of a b ?m] Cons.prems by fastforce
  with m show ?case
    by simp
qed

text \<open>The loop ends while its counter stays exact: with \<open>N\<close> the first counter the guard refuses, it collects the missing numbers below \<open>N\<close>.\<close>

lemma gapLoop_upto:
  assumes "\<And>k. js_le (Fin (of_nat k)) (jsMax ns) \<longleftrightarrow> k < N" "N \<le> 2 ^ 53" "n \<le> N"
  shows "gapLoop ns n gaps = Some (gaps @ filter (\<lambda>k. Fin (of_nat k) \<notin> set ns) [n..<N])"
  using assms(3)
proof (induction "N - n" arbitrary: n gaps)
  case 0
  then show ?case
    by (subst gapLoop.simps) (simp add: assms(1))
next
  case (Suc d)
  then have n: "n < N" "d = N - (n + 1)" "n + 1 \<le> N"
    by simp_all
  then have "dbl (n + 1) = n + 1"
    using assms(2) by (intro dbl_upto) simp
  with n show ?case
    by (subst gapLoop.simps) (simp add: assms(1) Suc.hyps(1) upt_conv_Cons)
qed

text \<open>It does not end when the guard holds at every counter up to \<open>2\<^sup>53\<close>: the counter reaches \<open>2\<^sup>53\<close> and stays there.\<close>

lemma gapLoop_stuck:
  assumes big: "\<And>k. k \<le> 2 ^ 53 \<Longrightarrow> js_le (Fin (of_nat k)) (jsMax ns)"
  shows "gapLoop ns 0 [] = None"
proof (rule ccontr)
  assume "gapLoop ns 0 [] \<noteq> None"
  then obtain r where ret: "gapLoop ns 0 [] = Some r"
    by blast
  have "0 \<le> (2 :: nat) ^ 53 \<longrightarrow> ns \<noteq> ns"
  proof (rule gapLoop.raw_induct [where P = "\<lambda>ms n gaps r. n \<le> 2 ^ 53 \<longrightarrow> ms \<noteq> ns", OF _ ret])
    fix f ms n gaps r
    assume IH: "\<And>ms n gaps r. f ms n gaps = Some r \<Longrightarrow> n \<le> 2 ^ 53 \<longrightarrow> ms \<noteq> ns"
      and eq: "(if js_le (Fin (of_nat n)) (jsMax ms) then f ms (dbl (n + 1)) (if Fin (of_nat n) \<in> set ms then gaps else gaps @ [n]) else Some gaps) = Some r"
    have "dbl (n + 1) \<le> 2 ^ 53" if "n \<le> 2 ^ 53"
      using that dbl_stuck dbl_upto [of "n + 1"] by (cases "n = 2 ^ 53") simp_all
    then show "n \<le> 2 ^ 53 \<longrightarrow> ms \<noteq> ns"
      using eq big IH by (auto split: if_splits)
  qed
  then show False
    by simp
qed

lemma js_le_counter: "js_le (Fin (of_nat k)) (Fin m) \<longleftrightarrow> k < (if m < 0 then 0 else Suc (nat \<lfloor>m\<rfloor>))"
  by (auto simp: less_Suc_eq_le le_nat_iff le_floor_iff)

lemma js_le_inf: "js_le (Fin x) PosInf" "\<not> js_le (Fin x) NegInf" "\<not> js_le (Fin x) NaN"
  by (simp_all add: js_le_def js_lt_def js_num_eq_def)

text \<open>The two together, by the largest number.\<close>

lemma gapsIn_cases:
  "gapsIn ns = (case jsMax ns of
       Fin m \<Rightarrow> if m \<ge> 2 ^ 53 then None else Some (filter (\<lambda>n. Fin (of_nat n) \<notin> set ns) (if m < 0 then [] else [0..<Suc (nat \<lfloor>m\<rfloor>)]))
     | PosInf \<Rightarrow> None
     | _ \<Rightarrow> Some [])"
proof (cases "jsMax ns")
  case (Fin m)
  show ?thesis
  proof (cases "m \<ge> 2 ^ 53")
    case True
    have "js_le (Fin (of_nat k)) (jsMax ns)" if "k \<le> 2 ^ 53" for k
    proof -
      have "of_nat k \<le> (of_nat (2 ^ 53) :: rat)"
        using that by (simp only: of_nat_le_iff)
      then show ?thesis
        using True Fin by simp
    qed
    from gapLoop_stuck [OF this] show ?thesis
      using True Fin by (simp add: gapsIn_def)
  next
    case False
    let ?N = "if m < 0 then 0 else Suc (nat \<lfloor>m\<rfloor>)"
    have "\<lfloor>m\<rfloor> < 2 ^ 53"
      using False by (simp add: floor_less_iff)
    then have "nat \<lfloor>m\<rfloor> < 2 ^ 53"
      by (simp only: nat_less_numeral_power_cancel_iff)
    then have "gapLoop ns 0 [] = Some ([] @ filter (\<lambda>k. Fin (of_nat k) \<notin> set ns) [0..<?N])"
      by (intro gapLoop_upto) (simp_all only: Fin js_le_counter, simp)
    then show ?thesis
      using False Fin by (simp add: gapsIn_def del: upt_Suc)
  qed
next
  case PosInf
  then show ?thesis
    by (simp add: gapsIn_def gapLoop_stuck js_le_inf)
qed (simp_all add: gapsIn_def gapLoop_upto [where N = 0] js_le_inf)

lemma gapsIn_contiguous:
  assumes "gapsIn ns = Some []" "NaN \<notin> set ns" "n \<in> set ns" "js_le (Fin (of_nat k)) n"
  shows "Fin (of_nat k) \<in> set ns"
proof -
  have max: "jsMax ns \<noteq> NaN" "\<not> js_lt (jsMax ns) n"
    using foldl_js_max [OF assms(2), of NegInf] assms(2,3) by (auto simp: jsMax_def)
  then obtain m where m: "jsMax ns = Fin m" "of_nat k \<le> m" "m < 2 ^ 53"
    using assms(1,4) by (cases "jsMax ns"; cases n) (auto simp: gapsIn_cases js_le_def js_lt_def js_num_eq_def split: if_splits)
  then have "k < Suc (nat \<lfloor>m\<rfloor>)" "\<not> m < 0"
    by (auto simp: le_nat_iff le_floor_iff less_Suc_eq_le)
  moreover from this(2) have "\<forall>n \<in> set [0..<Suc (nat \<lfloor>m\<rfloor>)]. Fin (of_nat n) \<in> set ns"
    using assms(1) m(1,3) by (simp add: gapsIn_cases filter_empty_conv del: upt_Suc set_upt)
  ultimately show ?thesis
    by (simp del: upt_Suc)
qed

lemma sequences_contiguous:
  assumes "sequenceCheck b = Some c" "c_status c \<in> {Pass, NotApplicable}" "(e, n) \<in> set (sequencesOf b)" "(e, NaN) \<notin> set (sequencesOf b)"
    "js_le (Fin (of_nat k)) n"
  shows "(e, Fin (of_nat k)) \<in> set (sequencesOf b)"
proof -
  let ?ns = "map snd (filter (\<lambda>p. fst p = e) (sequencesOf b))"
  have ns: "n \<in> set ?ns" "NaN \<notin> set ?ns"
    using assms(3,4) by force+
  then have "map_of (groupEpochs (sequencesOf b) []) e = Some ?ns"
    by (auto simp: groupEpochs_map_of Let_def filter_empty_conv)
  moreover from this have "allGaps (groupEpochs (sequencesOf b) []) = Some []"
    using assms(1,2) by (auto simp: sequenceCheck_def Let_def split: if_splits)
  ultimately have "Fin (of_nat k) \<in> set ?ns"
    using allGaps_none gapsIn_contiguous ns assms(5) by metis
  then show ?thesis
    by auto
qed

lemma foldl_js_big:
  assumes "NaN \<notin> set ns" "n \<in> set ns" "\<not> js_lt n (Fin (2 ^ 53))"
  shows "gapsIn ns = None"
proof -
  have max: "jsMax ns \<noteq> NaN" "\<not> js_lt (jsMax ns) n"
    using foldl_js_max [OF assms(1), of NegInf] assms(1,2) by (auto simp: jsMax_def)
  moreover have "n \<noteq> NaN"
    using assms(1,2) by auto
  ultimately show ?thesis
    using assms(3) by (cases "jsMax ns"; cases n) (auto simp: gapsIn_cases js_lt_def)
qed

lemma allGaps_loops: "map_of m e = Some ns \<Longrightarrow> gapsIn ns = None \<Longrightarrow> allGaps m = None"
  by (induction m rule: allGaps.induct) (auto split: option.splits if_splits)

lemma sequence_loops:
  assumes "(e, n) \<in> set (sequencesOf b)" "(e, NaN) \<notin> set (sequencesOf b)" "\<not> js_lt n (Fin (2 ^ 53))"
  shows "sequenceCheck b = None"
proof -
  let ?ns = "map snd (filter (\<lambda>p. fst p = e) (sequencesOf b))"
  have ns: "n \<in> set ?ns" "NaN \<notin> set ?ns"
    using assms(1,2) by force+
  then have e: "map_of (groupEpochs (sequencesOf b) []) e = Some ?ns"
    by (auto simp: groupEpochs_map_of Let_def filter_empty_conv)
  have "allGaps (groupEpochs (sequencesOf b) []) = None"
    using allGaps_loops [OF e foldl_js_big [OF ns(2,1) assms(3)]] .
  then show ?thesis
    using e by (auto simp: sequenceCheck_def Let_def)
qed

lemma sequence_statuses: "sequenceCheck b = Some c \<Longrightarrow> c_status c \<in> {Pass, NotApplicable} \<longleftrightarrow> c_status c \<noteq> Fail"
  by (auto simp: sequenceCheck_def Let_def split: if_splits)

lemma completeBundle_pass:
  assumes "mapM (\<lambda>e. verifyEnvelope P e opts) envs = Inr reports" "\<forall>r \<in> set reports. vr_overall r = OPass" "ev_resolve opts = Some f"
  shows "c_status (completeBundle reports) \<in> {Pass, NotApplicable}"
proof -
  have "map_option c_status (map_of (vr_checks r) ''evidence_complete'') \<noteq> Some Fail" if r: "r \<in> set reports" for r
  proof -
    obtain e where "verifyEnvelope P e opts = Inr r"
      using mapM_Inr_mem [OF assms(1) r] by blast
    then have "map_option c_status (map_of (vr_checks r) ''evidence_complete'') = Some Pass"
      using passed_complete(2) assms(2,3) r by blast
    then show ?thesis
      by auto
  qed
  then have "\<not> list_ex (\<lambda>r. map_option c_status (map_of (vr_checks r) ''evidence_complete'') = Some Fail) reports"
    unfolding list_ex_iff by blast
  then show ?thesis
    by (simp add: completeBundle_def)
qed

lemma exported_parts:
  assumes "exportBundle P title envs decs attached trust exporter now = Inr b"
  obtains as message where "bu_schema b = ''cool.bundle.v1''" "bu_envelopes b = envs" "bu_decisions b = decs" "attachmentsOf b = as"
    "\<forall>a \<in> set as. attachmentDigest P (at_body a) = Inr (at_digest a)" "bu_manifest_digest b = snd (manifestOf P envs decs as)"
    "multihashDigest (bu_manifest_digest b) = Inr message" "bu_signature b = hybridSign P message exporter"
    "bu_exporter_id b = keyId exporter" "bu_exporter_entry b = directoryEntry exporter"
proof -
  obtain as message where a: "mapM (\<lambda>(kind, body). rbind (attachmentDigest P body) (\<lambda>d. Inr \<lparr>at_kind = kind, at_digest = d, at_body = body\<rparr>)) attached = Inr as"
    "multihashDigest (snd (manifestOf P envs decs as)) = Inr message"
    "b = \<lparr>bu_schema = ''cool.bundle.v1'', bu_created_at = to_iso P now, bu_title = title, bu_envelopes = envs, bu_decisions = decs,
         bu_attachments = (if as = [] then None else Some as), bu_trust_snapshot = trust_snapshot trust,
         bu_entries = fst (manifestOf P envs decs as), bu_manifest_digest = snd (manifestOf P envs decs as), bu_signature = hybridSign P message exporter,
         bu_exporter_id = keyId exporter, bu_exporter_entry = directoryEntry exporter\<rparr>"
    using assms by (auto simp: exportBundle_def rbind_Inr_iff split_beta)
  have "attachmentDigest P (at_body x) = Inr (at_digest x)" if x: "x \<in> set as" for x
  proof -
    obtain y where "(\<lambda>(kind, body). rbind (attachmentDigest P body) (\<lambda>d. Inr \<lparr>at_kind = kind, at_digest = d, at_body = body\<rparr>)) y = Inr x"
      using mapM_Inr_mem [OF a(1) x] by blast
    then show ?thesis
      by (auto simp: rbind_Inr_iff split: prod.splits)
  qed
  then show ?thesis
    using that [of as message] a(2,3) by (simp add: attachmentsOf_def)
qed

lemma exported_verdict:
  assumes "exportBundle P title envs decs attached trust exporter now = Inr b" "digests32 P" "signs P" "generated P exporter"
    and "mapM (\<lambda>e. verifyEnvelope P e (bundleOptions opts own b)) envs = Inr reports" "sequenceCheck b = Some c"
  shows "\<exists>rep. verifyBundle P b opts (Some own) = Some (Inr rep)
    \<and> (br_overall rep = OPass \<longleftrightarrow> (\<forall>r \<in> set reports. vr_overall r = OPass)
         \<and> (\<forall>e \<in> set envs. \<forall>p. co_policy (se_core e) = Some p \<longrightarrow> pol_decision_ref p \<in> decisionDigest P ` set decs) \<and> c_status c \<noteq> Fail)"
proof -
  obtain as message where e: "bu_schema b = ''cool.bundle.v1''" "bu_envelopes b = envs" "bu_decisions b = decs" "attachmentsOf b = as"
    "\<forall>a \<in> set as. attachmentDigest P (at_body a) = Inr (at_digest a)" "bu_manifest_digest b = snd (manifestOf P envs decs as)"
    "multihashDigest (bu_manifest_digest b) = Inr message" "bu_signature b = hybridSign P message exporter"
    "bu_exporter_id b = keyId exporter" "bu_exporter_entry b = directoryEntry exporter"
    by (rule exported_parts [OF assms(1)])
  have "\<exists>rep. verifyBundle P b opts (Some own) = Some (Inr rep)"
    using e(1,2,7) assms(5,6) by (simp add: verifyBundle_def)
  then obtain rep where rep: "verifyBundle P b opts (Some own) = Some (Inr rep)"
    by blast
  obtain message' trust' reports' c' where v: "multihashDigest (bu_manifest_digest b) = Inr message'"
    "(case Some own of Some t \<Rightarrow> Inr t | None \<Rightarrow> newTrustStore (bu_trust_snapshot b)) = Inr trust'"
    "mapM (\<lambda>e. verifyEnvelope P e (bundleOptions opts trust' b)) (bu_envelopes b) = Inr reports'"
    "sequenceCheck b = Some c'"
    "br_overall rep = OPass \<longleftrightarrow> (\<forall>c \<in> {manifestCheck P b, exporterCheck P b message', (if Some own \<noteq> None then check Pass ''verifier_trust'' else check Unknown ''self_asserted_trust''),
       envelopesCheck reports', completeBundle reports', decisionsCheck P b, attachmentsCheck P b, c'}. c_status c \<in> {Pass, NotApplicable})"
    by (rule verifyBundle_ok [OF rep])
  have same: "message' = message" "trust' = own" "reports' = reports" "c' = c"
    using v(1-4) e(2,7) assms(5,6) by auto
  have good: "c_status (manifestCheck P b) \<in> {Pass, NotApplicable}" "c_status (exporterCheck P b message) \<in> {Pass, NotApplicable}"
    "c_status (attachmentsCheck P b) \<in> {Pass, NotApplicable}"
    unfolding bundle_checks_pass using e hybridVerify_hybridSign [OF assms(3,4)] by (auto simp: hybridSign_fields)
  have complete: "c_status (completeBundle reports) \<in> {Pass, NotApplicable}" if "\<forall>r \<in> set reports. vr_overall r = OPass"
    using completeBundle_pass [OF assms(5) that] by (simp add: bundleOptions_def)
  show ?thesis
    using rep v(5) good complete sequence_statuses [OF assms(6)] decisionsCheck_pass [of P b] envelopesCheck_pass [of reports] e(2,3)
    unfolding same by (intro exI [of _ rep]) auto
qed

section \<open>Properties\<close>

text \<open>\<^bold>\<open>C31.\<close> A passing bundle.  Then the verifier supplied its own trust store; every envelope verified under it; every reference of every envelope
  is the digest of an envelope of the bundle and every cited policy decision is in it; the attachments have their digests; the exporter
  signed the manifest of exactly these contents; and in every epoch without a NaN the sequence numbers have no gap from 0 on.\<close>

theorem bundle_pass_sound:
  assumes "verifyBundle P b opts own = Some (Inr rep)" "br_overall rep = OPass"
  shows "\<exists>trust message. own = Some trust
    \<and> (\<forall>e \<in> set (bu_envelopes b). (\<exists>r. verifyEnvelope P e (bundleOptions opts trust b) = Inr r \<and> vr_overall r = OPass)
         \<and> set (co_refs (se_core e) @ map snd (co_relations (se_core e))) \<subseteq> se_digest ` set (bu_envelopes b)
         \<and> (\<forall>p. co_policy (se_core e) = Some p \<longrightarrow> pol_decision_ref p \<in> decisionDigest P ` set (bu_decisions b)))
    \<and> (\<forall>a \<in> set (attachmentsOf b). attachmentDigest P (at_body a) = Inr (at_digest a))
    \<and> multihashDigest (snd (manifestOf P (bu_envelopes b) (bu_decisions b) (attachmentsOf b))) = Inr message
    \<and> hv_ok (hybridVerify P message (bu_signature b) (bu_exporter_entry b)) \<and> sig_key_id (bu_signature b) = bu_exporter_id b
    \<and> (\<forall>e n k. (e, n) \<in> set (sequencesOf b) \<and> (e, NaN) \<notin> set (sequencesOf b) \<and> js_le (Fin (of_nat k)) n \<longrightarrow> (e, Fin (of_nat k)) \<in> set (sequencesOf b))"
proof -
  obtain message trust reports sequence where v: "multihashDigest (bu_manifest_digest b) = Inr message"
    "(case own of Some t \<Rightarrow> Inr t | None \<Rightarrow> newTrustStore (bu_trust_snapshot b)) = Inr trust"
    "mapM (\<lambda>e. verifyEnvelope P e (bundleOptions opts trust b)) (bu_envelopes b) = Inr reports"
    "sequenceCheck b = Some sequence"
    "br_overall rep = OPass \<longleftrightarrow> (\<forall>c \<in> {manifestCheck P b, exporterCheck P b message, (if own \<noteq> None then check Pass ''verifier_trust'' else check Unknown ''self_asserted_trust''),
       envelopesCheck reports, completeBundle reports, decisionsCheck P b, attachmentsCheck P b, sequence}. c_status c \<in> {Pass, NotApplicable})"
    by (rule verifyBundle_ok [OF assms(1)])
  have pass: "\<And>c. c \<in> {manifestCheck P b, exporterCheck P b message, (if own \<noteq> None then check Pass ''verifier_trust'' else check Unknown ''self_asserted_trust''),
       envelopesCheck reports, completeBundle reports, decisionsCheck P b, attachmentsCheck P b, sequence} \<Longrightarrow> c_status c \<in> {Pass, NotApplicable}"
    using v(5) assms(2) by blast
  have own: "own = Some trust"
    using pass [of "if own \<noteq> None then check Pass ''verifier_trust'' else check Unknown ''self_asserted_trust''"] v(2)
    by (cases own) simp_all
  have env: "\<exists>r. verifyEnvelope P e (bundleOptions opts trust b) = Inr r \<and> vr_overall r = OPass" if "e \<in> set (bu_envelopes b)" for e
    using mapM_Inr_target [OF v(3) that] pass [of "envelopesCheck reports", unfolded envelopesCheck_pass] by auto
  moreover have "set (co_refs (se_core e) @ map snd (co_relations (se_core e))) \<subseteq> se_digest ` set (bu_envelopes b)" if "e \<in> set (bu_envelopes b)" for e
    using env [OF that] passed_complete(1) [of P e "bundleOptions opts trust b" _ "\<lambda>ref. ref \<in> se_digest ` set (bu_envelopes b)"]
    by (auto simp: bundleOptions_def)
  moreover have "c_status (manifestCheck P b) \<in> {Pass, NotApplicable}" "c_status (exporterCheck P b message) \<in> {Pass, NotApplicable}"
    "c_status (decisionsCheck P b) \<in> {Pass, NotApplicable}" "c_status (attachmentsCheck P b) \<in> {Pass, NotApplicable}" "c_status sequence \<in> {Pass, NotApplicable}"
    by (rule pass, blast)+
  ultimately show ?thesis
    using own v(1) sequences_contiguous [OF v(4)] unfolding bundle_checks_pass by (intro exI [of _ trust] exI [of _ message]) auto
qed

text \<open>Exporting keeps the evidence verifiable.  The manifest, the signature and the attachments of an exported bundle always check out, so a
  verifier with its own trust store passes it exactly when every envelope passes, every cited decision was exported with it and the
  sequence check does not fail.\<close>

theorem exported_bundle_verdict:
  assumes "exportBundle P title envs decs attached trust exporter now = Inr b" "digests32 P" "signs P" "generated P exporter"
    and "mapM (\<lambda>e. verifyEnvelope P e (bundleOptions opts own b)) envs = Inr reports" "sequenceCheck b = Some c"
  shows "\<exists>rep. verifyBundle P b opts (Some own) = Some (Inr rep)
    \<and> (br_overall rep = OPass \<longleftrightarrow> (\<forall>r \<in> set reports. vr_overall r = OPass)
         \<and> (\<forall>e \<in> set envs. \<forall>p. co_policy (se_core e) = Some p \<longrightarrow> pol_decision_ref p \<in> decisionDigest P ` set decs) \<and> c_status c \<noteq> Fail)"
  by (rule exported_verdict [OF assms])


section \<open>Witnesses\<close>

definition toyLoose :: "jsnum \<Rightarrow> SignedEnvelope" where
  "toyLoose n = \<lparr>se_format = [], se_core = toyCore\<lparr>co_sequence := Some (Fin 0, n)\<rparr>, se_encoding = [], se_core_cbor = [], se_digest_alg = [], se_digest = [],
     se_signatures = [], se_key_directory = [], se_checkpoint = None, se_attestation = None\<rparr>"

definition toyBundle :: "SignedEnvelope list \<Rightarrow> EvidenceBundle" where
  "toyBundle envs = (case exportBundle toyEnv ''t'' envs [] [] toyEvidenceTrust (toyKey ''x'') 0 of Inr b \<Rightarrow> b)"

lemma toyBundle: "exportBundle toyEnv ''t'' envs [] [] toyEvidenceTrust (toyKey ''x'') 0 = Inr (toyBundle envs)"
  by (simp add: toyBundle_def exportBundle_def split_beta) (simp add: manifestOf_def Let_def)

lemma toyBundle_fields [simp]: "bu_envelopes (toyBundle envs) = envs" "bu_schema (toyBundle envs) = ''cool.bundle.v1''"
  "\<exists>m. multihashDigest (bu_manifest_digest (toyBundle envs)) = Inr m"
    apply (rule exported_parts [OF toyBundle], assumption)
   apply (rule exported_parts [OF toyBundle], assumption)
  by (rule exported_parts [OF toyBundle]) blast

lemma toyLoose_parts:
  obtains m reports where "multihashDigest (bu_manifest_digest (toyBundle [toyLoose n])) = Inr m"
    "mapM (\<lambda>e. verifyEnvelope toyEnv e (bundleOptions toyEnvelopeOptions toyEvidenceTrust (toyBundle [toyLoose n]))) (bu_envelopes (toyBundle [toyLoose n]))
      = Inr reports"
proof -
  let ?b = "toyBundle [toyLoose n]"
  obtain m where m: "multihashDigest (bu_manifest_digest ?b) = Inr m"
    using toyBundle_fields(3) by blast
  have schema: "c_status (schemaCheck toyEnv (ev_registry (bundleOptions toyEnvelopeOptions toyEvidenceTrust ?b)) (toyLoose n)) = Fail"
    by (simp add: schemaCheck_def toyLoose_def)
  then obtain r where "verifyEnvelope toyEnv (toyLoose n) (bundleOptions toyEnvelopeOptions toyEvidenceTrust ?b) = Inr r"
    by (simp add: verifyEnvelope_def Let_def)
  then have "mapM (\<lambda>e. verifyEnvelope toyEnv e (bundleOptions toyEnvelopeOptions toyEvidenceTrust ?b)) (bu_envelopes ?b) = Inr [r]"
    by simp
  with m show ?thesis
    by (rule that)
qed

lemma toyLoose_sequence: "sequencesOf (toyBundle [toyLoose n]) = [(Fin 0, n)]"
  by (simp add: sequencesOf_def List.map_filter_def toyLoose_def)


lemma toyCore_links: "co_refs toyCore = []" "co_relations toyCore = []" "co_policy toyCore = None" "co_sequence toyCore = None"
  using toyPayload_valid
  by (simp_all add: toyCore_def createEnvelope_def toyEnvelopeInput_def truthy_def rg_get_def Let_def toyDates)
    (simp_all add: toyRegistry_def familySchema_def)

lemma toyEnvelope_bundled:
  obtains e r where "verifyEnvelope toyEnv e (bundleOptions toyEnvelopeOptions toyEvidenceTrust (toyBundle [e])) = Inr r" "vr_overall r = OPass" "se_core e = toyCore"
proof -
  obtain e where e: "signEnvelope toyEnv toyCore [EKeyPair (toyKey ''k'')] None = Inr e" "se_core e = toyCore"
    using toyEnvelope_passes [OF generated_toyKey keyId_toyKey] by blast
  let ?opts = "bundleOptions toyEnvelopeOptions toyEvidenceTrust (toyBundle [e])"
  have "\<exists>env rep. signEnvelope toyEnv toyCore (map EKeyPair [toyKey ''k'']) None = Inr env \<and> se_core env = toyCore
      \<and> verifyEnvelope toyEnv env ?opts = Inr rep \<and> vr_overall rep = OPass \<and> vr_outcome rep = Verified"
    using toyCore
    by (intro signed_envelope_passes [OF digests32_toyEnv signs_toyEnv toyStable toyCore, where a = 50 and b = 100])
      (simp_all add: bundleOptions_def toyEnvelopeOptions_def toyCore_fields toyDates toyEvidenceTrust_def evaluate_pass_iff toy_trust generated_toyKey
        toyCore_links keyId_toyKey toyPayload_clean toyEnvelopeInput_def)
  then show ?thesis
    using e that by auto
qed

lemma toyBundle_parts:
  obtains e r where "mapM (\<lambda>e'. verifyEnvelope toyEnv e' (bundleOptions toyEnvelopeOptions toyEvidenceTrust (toyBundle [e]))) [e] = Inr [r]" "vr_overall r = OPass"
    "se_core e = toyCore" "sequenceCheck (toyBundle [e]) = Some (check NotApplicable ''no_sequences'')"
proof -
  obtain e r where e: "verifyEnvelope toyEnv e (bundleOptions toyEnvelopeOptions toyEvidenceTrust (toyBundle [e])) = Inr r" "vr_overall r = OPass" "se_core e = toyCore"
    by (rule toyEnvelope_bundled)
  then show ?thesis
    by (intro that [of e r]) (simp_all add: sequenceCheck_def sequencesOf_def List.map_filter_def toyCore_links)
qed

theorem exported_bundle_verdict_witness:
  "\<exists>e rep. verifyBundle toyEnv (toyBundle [e]) toyEnvelopeOptions (Some toyEvidenceTrust) = Some (Inr rep) \<and> br_overall rep = OPass"
proof -
  obtain e r where e: "mapM (\<lambda>e'. verifyEnvelope toyEnv e' (bundleOptions toyEnvelopeOptions toyEvidenceTrust (toyBundle [e]))) [e] = Inr [r]" "vr_overall r = OPass"
    "se_core e = toyCore" "sequenceCheck (toyBundle [e]) = Some (check NotApplicable ''no_sequences'')"
    by (rule toyBundle_parts)
  show ?thesis
    using exported_bundle_verdict [OF toyBundle digests32_toyEnv signs_toyEnv generated_toyKey e(1,4)] e(2,3) by (fastforce simp: toyCore_links)
qed

theorem bundle_pass_sound_witness:
  "\<exists>e message. multihashDigest (snd (manifestOf toyEnv [e] (bu_decisions (toyBundle [e])) (attachmentsOf (toyBundle [e])))) = Inr message
    \<and> hv_ok (hybridVerify toyEnv message (bu_signature (toyBundle [e])) (bu_exporter_entry (toyBundle [e])))"
proof -
  obtain e r where e: "mapM (\<lambda>e'. verifyEnvelope toyEnv e' (bundleOptions toyEnvelopeOptions toyEvidenceTrust (toyBundle [e]))) [e] = Inr [r]" "vr_overall r = OPass"
    "se_core e = toyCore" "sequenceCheck (toyBundle [e]) = Some (check NotApplicable ''no_sequences'')"
    by (rule toyBundle_parts)
  then obtain rep where r: "verifyBundle toyEnv (toyBundle [e]) toyEnvelopeOptions (Some toyEvidenceTrust) = Some (Inr rep)" "br_overall rep = OPass"
    using exported_verdict [OF toyBundle digests32_toyEnv signs_toyEnv generated_toyKey e(1,4)] by (fastforce simp: toyCore_links)
  show ?thesis
    using bundle_pass_sound [OF r] by (auto intro: exI [of _ e])
qed

end
