(* ===== verification/Packs.thy ===== *)
theory Packs
  imports Transparency "HOL-Library.Multiset"
begin

text \<open>
  \<^verbatim>\<open>src/src/phala/query.ts\<close>, \<^verbatim>\<open>compliance.ts\<close> and \<^verbatim>\<open>pack.ts\<close>: searching receipts, the coverage of obligations computed from them, and audit packs.
  The host's \<^verbatim>\<open>toLowerCase\<close> is the argument \<open>lower\<close>; the descriptive texts of the obligations and of a pack are left out.

  Results: a query returns exactly the matching receipts, newest first; groups count every receipt once; a pack is accepted exactly when
  it is not empty and every receipt in it is, whatever its own summary says; the packs of a plane verify; and one malformed receipt
  makes the verification of a whole pack throw.
\<close>

section \<open>query.ts\<close>

record Query =
  qy_kind :: "string option"
  qy_changeKinds :: "string list option"
  qy_subject :: "string option"
  qy_environment :: "string option"
  qy_actor :: "string option"
  qy_decision :: "string option"
  qy_since :: "string option"
  qy_until :: "string option"
  qy_runtime :: "string option"
  qy_limit :: "int option"

definition anyQuery :: Query where
  "anyQuery = \<lparr>qy_kind = None, qy_changeKinds = None, qy_subject = None, qy_environment = None, qy_actor = None, qy_decision = None, qy_since = None,
     qy_until = None, qy_runtime = None, qy_limit = None\<rparr>"

definition recordOf :: "jsval \<Rightarrow> jsval" where
  "recordOf receipt = mem receipt ''record''"

definition isChange :: "jsval \<Rightarrow> bool" where
  "isChange receipt = (mem (recordOf receipt) ''schema'' = JStr ''cool.change.v2'')"

definition isEvidence :: "jsval \<Rightarrow> bool" where
  "isEvidence receipt = (mem (recordOf receipt) ''schema'' = JStr ''cool.evidence.v1'')"

definition query_subject :: "jsval \<Rightarrow> string" where
  "query_subject receipt = (if isEvidence receipt then strv (mem (mem (recordOf receipt) ''event'') ''type'')
     else strv (mem (mem (recordOf receipt) ''change'') ''ref''))"

definition actorOf :: "jsval \<Rightarrow> string option" where
  "actorOf receipt = (if isChange receipt then Some (strv (mem (mem (mem (recordOf receipt) ''change'') ''actor'') ''id'')) else None)"

definition environmentOf :: "jsval \<Rightarrow> string option" where
  "environmentOf receipt = (if isChange receipt then Some (strv (mem (mem (recordOf receipt) ''change'') ''environment'')) else None)"

definition issuedAt :: "jsval \<Rightarrow> string" where
  "issuedAt receipt = strv (mem (mem (recordOf receipt) ''time'') ''issued_at'')"

definition includesText :: "string \<Rightarrow> string \<Rightarrow> bool" where
  "includesText s t = list_ex (\<lambda>i. take (length t) (drop i s) = t) [0..<Suc (length s)]"

text \<open>A filter that is absent or empty does not filter.\<close>

definition given :: "string option \<Rightarrow> (string \<Rightarrow> bool) \<Rightarrow> bool" where
  "given f p = (case f of None \<Rightarrow> True | Some s \<Rightarrow> s = [] \<or> p s)"

definition query_matches :: "(string \<Rightarrow> string) \<Rightarrow> jsval \<Rightarrow> Query \<Rightarrow> bool" where
  "query_matches lower receipt q =
     (let record = recordOf receipt; change = mem record ''change'' in
      \<not> (qy_kind q = Some ''evidence'' \<and> isChange receipt) \<and> \<not> (qy_kind q = Some ''change'' \<and> \<not> isChange receipt)
      \<and> (case qy_changeKinds q of None \<Rightarrow> True | Some ks \<Rightarrow> isChange receipt \<and> mem change ''kind'' \<in> JStr ` set ks)
      \<and> given (qy_environment q) (\<lambda>e. environmentOf receipt = Some e)
      \<and> given (qy_runtime q) (\<lambda>m. mem (mem record ''runtime'') ''mode'' = JStr m)
      \<and> given (qy_subject q) (\<lambda>s. includesText (lower (query_subject receipt)) (lower s))
      \<and> given (qy_actor q) (\<lambda>a. case actorOf receipt of None \<Rightarrow> False | Some x \<Rightarrow> x \<noteq> [] \<and> includesText (lower x) (lower a))
      \<and> given (qy_decision q) (\<lambda>d. isChange receipt \<and> mem (mem change ''approval'') ''decision'' = JStr d)
      \<and> given (qy_since q) (\<lambda>t. strLe t (issuedAt receipt))
      \<and> given (qy_until q) (\<lambda>t. strLe (issuedAt receipt) t))"

text \<open>\<^verbatim>\<open>slice(0, limit)\<close>, for a limit that is given and not 0.\<close>

definition limitTo :: "int option \<Rightarrow> 'a list \<Rightarrow> 'a list" where
  "limitTo n xs = (case n of None \<Rightarrow> xs | Some k \<Rightarrow> if k = 0 then xs else if k > 0 then take (nat k) xs else take (nat (int (length xs) + k)) xs)"

definition newerFirst :: "env \<Rightarrow> jsval \<Rightarrow> jsval \<Rightarrow> bool" where
  "newerFirst P a b = locale_le P (issuedAt b) (issuedAt a)"

definition query :: "env \<Rightarrow> (string \<Rightarrow> string) \<Rightarrow> jsval list \<Rightarrow> Query \<Rightarrow> jsval list" where
  "query P lower receipts q = limitTo (qy_limit q) (sortBy (newerFirst P) (filter (\<lambda>r. query_matches lower r q) receipts))"

fun countInto :: "('a \<Rightarrow> string) \<Rightarrow> 'a list \<Rightarrow> (string \<times> nat) list \<Rightarrow> (string \<times> nat) list" where
  "countInto key [] counts = counts"
| "countInto key (r # rs) counts = countInto key rs (mput (key r) (Suc (case map_of counts (key r) of Some n \<Rightarrow> n | None \<Rightarrow> 0)) counts)"

definition groupBy :: "('a \<Rightarrow> string) \<Rightarrow> 'a list \<Rightarrow> (string \<times> nat) list" where
  "groupBy key receipts = sortBy (\<lambda>a b. snd b \<le> snd a) (countInto key receipts [])"

record Summary =
  sm_total :: nat
  sm_evidence :: nat
  sm_changes :: nat
  sm_byKind :: "(string \<times> nat) list"
  sm_byEnvironment :: "(string \<times> nat) list"
  sm_byActor :: "(string \<times> nat) list"
  sm_needingReview :: nat
  sm_hardware :: nat
  sm_simulated :: nat
  sm_earliest :: "string option"
  sm_latest :: "string option"

definition DASH :: string where
  "DASH = [CHR 0xe2, CHR 0x80, CHR 0x94]"

definition summarise :: "jsval list \<Rightarrow> Summary" where
  "summarise receipts =
     (let changes = filter isChange receipts; times = sortBy strLe (map issuedAt receipts);
          mode = (\<lambda>m r. mem (mem (recordOf r) ''runtime'') ''mode'' = JStr m)
      in \<lparr>sm_total = length receipts, sm_evidence = length receipts - length changes, sm_changes = length changes,
          sm_byKind = groupBy (\<lambda>r. if isChange r then strv (mem (mem (recordOf r) ''change'') ''kind'') else strv (mem (mem (recordOf r) ''event'') ''type'')) receipts,
          sm_byEnvironment = groupBy (\<lambda>r. optOr (environmentOf r) DASH) changes,
          sm_byActor = groupBy (\<lambda>r. optOr (actorOf r) DASH) changes,
          sm_needingReview = length (filter (\<lambda>r. mem (mem (mem (recordOf r) ''change'') ''approval'') ''decision'' = JStr ''rejected'') changes),
          sm_hardware = length (filter (mode ''hardware'') receipts), sm_simulated = length (filter (mode ''simulated'') receipts),
          sm_earliest = (if times = [] then None else Some (hd times)), sm_latest = (if times = [] then None else Some (last times))\<rparr>)"

section \<open>compliance.ts\<close>

text \<open>Whether a receipt counts; a property of null or undefined throws.\<close>

record Obligation =
  ob_id :: string
  ob_counts :: "jsval \<Rightarrow> bool res"

definition countsEvidence :: "jsval \<Rightarrow> bool res" where
  "countsEvidence r = rbind (getProp r ''record'') (\<lambda>rec. rbind (getProp rec ''schema'') (\<lambda>s. Inr (s = JStr ''cool.evidence.v1'')))"

text \<open>A condition on the change of a change record.\<close>

definition countsChange :: "(jsval \<Rightarrow> bool res) \<Rightarrow> jsval \<Rightarrow> bool res" where
  "countsChange p r = rbind (getProp r ''record'') (\<lambda>rec. rbind (getProp rec ''schema'') (\<lambda>s.
     if s \<noteq> JStr ''cool.change.v2'' then Inr False else rbind (getProp rec ''change'') p))"

definition hasApprovers :: "jsval \<Rightarrow> bool res" where
  "hasApprovers change = rbind (getProp change ''approval'') (\<lambda>a.
     if a = JNull \<or> a = JUndef then Inr False
     else rbind (getProp a ''approvers'') (\<lambda>xs. case xs of JArr vs \<Rightarrow> Inr (vs \<noteq> []) | JStr s \<Rightarrow> Inr (s \<noteq> []) | _ \<Rightarrow> if xs = JNull \<or> xs = JUndef then Inl TypeError else Inr False))"

definition OBLIGATIONS :: "Obligation list" where
  "OBLIGATIONS = [
     \<lparr>ob_id = ''eu-ai-act-12'', ob_counts = countsEvidence\<rparr>,
     \<lparr>ob_id = ''eu-ai-act-14'', ob_counts = countsChange hasApprovers\<rparr>,
     \<lparr>ob_id = ''eu-ai-act-15'', ob_counts = countsChange (\<lambda>c. rbind (getProp c ''kind'') (\<lambda>k. Inr (k \<in> {JStr ''model'', JStr ''params'', JStr ''dataset''})))\<rparr>,
     \<lparr>ob_id = ''dpdp-8'', ob_counts = (\<lambda>r. rbind (getProp r ''record'') (\<lambda>rec. rbind (getProp rec ''runtime'') (\<lambda>rt. rbind (getProp rt ''tee_quote'') (\<lambda>q. Inr (q \<noteq> JNull)))))\<rparr>,
     \<lparr>ob_id = ''iso-42001-9'', ob_counts = (\<lambda>r. rbind (getProp r ''inclusion'') (\<lambda>i. Inr (i \<noteq> JNull)))\<rparr>,
     \<lparr>ob_id = ''rbi-dlg'', ob_counts = countsEvidence\<rparr>,
     \<lparr>ob_id = ''soc2-cc7'', ob_counts = countsChange (\<lambda>c. rbind (getProp c ''approval'') (\<lambda>a. Inr (a \<noteq> JNull)))\<rparr>]"

record Coverage =
  cv_obligation :: Obligation
  cv_records :: nat
  cv_share :: rat
  cv_covered :: bool

definition coverage :: "jsval list \<Rightarrow> Coverage list" where
  "coverage receipts = map (\<lambda>ob. let records = length (filter (\<lambda>r. catching False (ob_counts ob r)) receipts) in
     \<lparr>cv_obligation = ob, cv_records = records, cv_share = (if receipts = [] then 0 else of_nat records / of_nat (length receipts)), cv_covered = (records > 0)\<rparr>) OBLIGATIONS"

definition gaps :: "jsval list \<Rightarrow> Coverage list" where
  "gaps receipts = filter (\<lambda>row. \<not> cv_covered row) (coverage receipts)"

section \<open>pack.ts\<close>

record AuditPackEntry =
  pe_record_id :: jsval
  pe_schema :: jsval
  pe_sealed_at :: jsval
  pe_receipt :: jsval

record AuditPack =
  pk_schema :: string
  pk_generated_at :: string
  pk_subject :: string
  pk_enclave :: "jsval option"
  pk_records :: "AuditPackEntry list"
  pk_obligations :: "(string \<times> nat \<times> bool) list"
  pk_trusted_keys :: KeyDirectory

record BuildPackOptions =
  bp_subject :: string
  bp_generatedAt :: "string option"
  bp_enclave :: "jsval option"
  bp_trustedKeys :: "KeyDirectory option"

definition buildAuditPack :: "string \<Rightarrow> jsval list \<Rightarrow> BuildPackOptions \<Rightarrow> AuditPack" where
  "buildAuditPack now receipts options =
     \<lparr>pk_schema = ''cool.audit-pack.v2'', pk_generated_at = optOr (bp_generatedAt options) now, pk_subject = bp_subject options,
      pk_enclave = bp_enclave options,
      pk_records = map (\<lambda>r. \<lparr>pe_record_id = mem (recordOf r) ''record_id'', pe_schema = mem (recordOf r) ''schema'',
        pe_sealed_at = mem (mem (recordOf r) ''time'') ''issued_at'', pe_receipt = r\<rparr>) receipts,
      pk_obligations = map (\<lambda>row. (ob_id (cv_obligation row), cv_records row, cv_covered row)) (coverage receipts),
      pk_trusted_keys = optOr (bp_trustedKeys options) []\<rparr>"

record PackVerdict =
  pv_ok :: bool
  pv_total :: nat
  pv_verified :: nat
  pv_failed :: nat
  pv_failures :: "(jsval \<times> string list) list"
  pv_witnesses :: nat
  pv_verdicts :: "VerdictV2 list"
  pv_obligationsCovered :: nat
  pv_obligationsTotal :: nat

text \<open>The loop over the entries: the verdicts, the failures and the number of witnesses.\<close>

fun verifyEntries :: "env \<Rightarrow> VerifyArgsV2 \<Rightarrow> AuditPackEntry list \<Rightarrow> (VerdictV2 list \<times> (jsval \<times> string list) list \<times> nat) run" where
  "verifyEntries P options [] = Some (Inr ([], [], 0))"
| "verifyEntries P options (entry # rest) =
     runbind (verifyReceiptV2 P (pe_receipt entry) options) (\<lambda>verdict.
     runbind (Some (countWitnesses P (pe_receipt entry))) (\<lambda>n.
     runbind (verifyEntries P options rest) (\<lambda>(verdicts, failures, witnesses).
       Some (Inr (verdict # verdicts, (if verdict_ok verdict then failures else (pe_record_id entry, verdict_reasons verdict) # failures),
         wc_external n + witnesses)))))"

definition verifyAuditPack :: "env \<Rightarrow> AuditPack \<Rightarrow> VerifyArgsV2 \<Rightarrow> PackVerdict run" where
  "verifyAuditPack P pack options =
     runbind (verifyEntries P options (pk_records pack)) (\<lambda>(verdicts, failures, witnesses).
     let recomputed = coverage (map pe_receipt (pk_records pack)) in
     Some (Inr \<lparr>pv_ok = (failures = [] \<and> pk_records pack \<noteq> []), pv_total = length (pk_records pack), pv_verified = length (filter verdict_ok verdicts),
       pv_failed = length failures, pv_failures = failures, pv_witnesses = witnesses, pv_verdicts = verdicts,
       pv_obligationsCovered = length (filter cv_covered recomputed), pv_obligationsTotal = length recomputed\<rparr>))"

section \<open>Sorting and counting\<close>

lemma mset_insertBy: "mset (insertBy le x ys) = add_mset x (mset ys)"
  by (induction ys) auto

lemma mset_sortBy: "mset (sortBy le xs) = mset xs"
  by (induction xs) (simp_all add: mset_insertBy)

lemma sorted_insertBy:
  assumes "\<And>a b. le a b \<or> le b a" "\<And>a b c. le a b \<Longrightarrow> le b c \<Longrightarrow> le a c"
  shows "sorted_wrt le ys \<Longrightarrow> sorted_wrt le (insertBy le x ys)"
  using assms by (induction ys) auto

lemma sorted_sortBy:
  assumes "\<And>a b. le a b \<or> le b a" "\<And>a b c. le a b \<Longrightarrow> le b c \<Longrightarrow> le a c"
  shows "sorted_wrt le (sortBy le xs)"
  by (induction xs) (simp_all add: sorted_insertBy [OF assms])

lemma strLe_total: "strLe a b \<or> strLe b a"
  by (induction a b rule: strLe.induct) (auto simp: not_less order_le_less)

lemma strLe_trans: "strLe a b \<Longrightarrow> strLe b c \<Longrightarrow> strLe a c"
proof (induction a b arbitrary: c rule: strLe.induct)
  case (3 x s y t)
  then show ?case by (cases c) auto
qed simp_all

definition tally :: "('a \<Rightarrow> string) \<Rightarrow> 'a list \<Rightarrow> string \<Rightarrow> nat" where
  "tally key rs k = length (filter (\<lambda>r. key r = k) rs)"

lemma countInto_distinct: "distinct (map fst m) \<Longrightarrow> distinct (map fst (countInto key rs m))"
  by (induction key rs m rule: countInto.induct) (simp_all add: mput_distinct)

lemma countInto_map_of:
  "map_of (countInto key rs m) k = (if tally key rs k = 0 then map_of m k else Some (tally key rs k + (case map_of m k of Some n \<Rightarrow> n | None \<Rightarrow> 0)))"
  by (induction key rs m rule: countInto.induct) (auto simp: tally_def map_of_mput)

lemma map_of_sortBy:
  assumes "distinct (map fst m)"
  shows "map_of (sortBy le m) = map_of m" "distinct (map fst (sortBy le m))"
proof -
  have "mset (map fst (sortBy le m)) = mset (map fst m)"
    by (simp only: mset_map mset_sortBy)
  then show d: "distinct (map fst (sortBy le m))"
    using assms mset_eq_imp_distinct_iff by blast
  show "map_of (sortBy le m) = map_of m"
    using map_of_inject_set [OF d assms] by simp
qed

lemma groupBy_map_of: "map_of (groupBy key rs) k = (if tally key rs k = 0 then None else Some (tally key rs k))"
  using map_of_sortBy(1) [OF countInto_distinct [of "[]" key rs]] by (simp add: groupBy_def countInto_map_of)

lemma groupBy_distinct: "distinct (map fst (groupBy key rs))"
  using map_of_sortBy(2) [OF countInto_distinct [of "[]" key rs]] by (simp add: groupBy_def)

lemma sum_mput: "distinct (map fst m) \<Longrightarrow>
    sum_list (map snd (mput k (Suc (case map_of m k of Some n \<Rightarrow> n | None \<Rightarrow> 0)) m)) = Suc (sum_list (map snd m))"
  by (induction m) (auto split: if_splits)

lemma countInto_sum: "distinct (map fst m) \<Longrightarrow> sum_list (map snd (countInto key rs m)) = length rs + sum_list (map snd m)"
  by (induction key rs m rule: countInto.induct) (simp_all add: sum_mput mput_distinct)

lemma sum_sortBy: "sum_list (map snd (sortBy le m)) = sum_list (map (snd :: 'a \<times> nat \<Rightarrow> nat) m)"
proof -
  have "sum_mset (image_mset snd (mset (sortBy le m))) = sum_mset (image_mset snd (mset m))"
    by (simp only: mset_sortBy)
  then show ?thesis
    by (simp only: mset_map [symmetric] sum_mset_sum_list)
qed

section \<open>Packs\<close>

lemma verifyEntries_spec:
  assumes "verifyEntries P options es = Some (Inr (verdicts, failures, n))"
  shows "list_all2 (\<lambda>e v. verifyReceiptV2 P (pe_receipt e) options = Some (Inr v)) es verdicts
    \<and> failures = map (\<lambda>(e, v). (pe_record_id e, verdict_reasons v)) (filter (\<lambda>(e, v). \<not> verdict_ok v) (zip es verdicts))"
  using assms
proof (induction es arbitrary: verdicts failures n)
  case (Cons e es)
  then obtain v vs fs m where "verifyReceiptV2 P (pe_receipt e) options = Some (Inr v)" "verifyEntries P options es = Some (Inr (vs, fs, m))"
    "verdicts = v # vs" "failures = (if verdict_ok v then fs else (pe_record_id e, verdict_reasons v) # fs)"
    by (auto simp: runbind_ok_iff)
  with Cons.IH show ?case
    by auto
qed simp

lemma failed_verdicts:
  "list_all2 Q es vs \<Longrightarrow> length (filter verdict_ok vs) + length (filter (\<lambda>(e, v). \<not> verdict_ok v) (zip es vs)) = length es"
  by (induction rule: list_all2_induct) auto

lemma all2_verdicts:
  "list_all2 (\<lambda>e v. verifyReceiptV2 P (pe_receipt e) options = Some (Inr v)) es vs \<Longrightarrow>
    filter (\<lambda>(e, v). \<not> verdict_ok v) (zip es vs) = [] \<longleftrightarrow> (\<forall>e \<in> set es. \<exists>w. verifyReceiptV2 P (pe_receipt e) options = Some (Inr w) \<and> verdict_ok w)"
  by (induction rule: list_all2_induct) auto

lemma limitTo_take:
  obtains n where "limitTo l xs = take n xs" "l \<in> {None, Some 0} \<longrightarrow> length xs \<le> n" "\<forall>k > 0. l = Some k \<longrightarrow> n = nat k"
proof (cases l)
  case None
  then show ?thesis
    using that [of "length xs"] by (simp add: limitTo_def)
next
  case (Some k)
  then show ?thesis
    using that [of "if k = 0 then length xs else if k > 0 then nat k else nat (int (length xs) + k)"] by (auto simp: limitTo_def)
qed

lemma sealed_no_witnesses:
  assumes "seal P src event pl = Some (Inr (r, pl'))"
  shows "\<exists>n. countWitnesses P r = Inr n \<and> wc_external n = 0"
proof -
  obtain rec b inc lg ts sth where r: "r = receiptVal rec b inc (sthVal sth) pl'" "ml_buildSTH P lg ts = Some (Inr sth)"
    using assms by (auto simp: seal_def currentSTH_def Let_def runbind_ok_iff split_beta)
  obtain w where "sth_witnesses sth = [w]" "\<not> w_external w"
    using r(2) by (auto simp: ml_buildSTH_def runbind_ok_iff signSTH_def Let_def)
  then have "mem (sthVal sth) ''witnesses'' = JArr [witnessVal w]" "\<not> jtruthy (mem (witnessVal w) ''external'')" "witnessVal w \<noteq> JNull" "witnessVal w \<noteq> JUndef"
    "jtruthy (sthVal sth)" "r \<noteq> JNull" "r \<noteq> JUndef" "mem r ''sth'' = sthVal sth"
    using r(1) by (simp_all add: sthVal_def witnessVal_def receiptVal_def readMember_Cons jtruthy_def)
  then show ?thesis
    by (simp add: countWitnesses_def Let_def)
qed

lemma verifyEntries_intro:
  "(\<And>e. e \<in> set es \<Longrightarrow> \<exists>v n. verifyReceiptV2 P (pe_receipt e) options = Some (Inr v) \<and> verdict_ok v \<and> countWitnesses P (pe_receipt e) = Inr n \<and> wc_external n = 0)
    \<Longrightarrow> \<exists>vs. verifyEntries P options es = Some (Inr (vs, [], 0)) \<and> list_all verdict_ok vs \<and> length vs = length es"
proof (induction es)
  case (Cons e es)
  obtain vs where "verifyEntries P options es = Some (Inr (vs, [], 0))" "list_all verdict_ok vs" "length vs = length es"
    using Cons.IH Cons.prems by (meson list.set_intros(2))
  moreover obtain v m where "verifyReceiptV2 P (pe_receipt e) options = Some (Inr v)" "verdict_ok v" "countWitnesses P (pe_receipt e) = Inr m" "wc_external m = 0"
    using Cons.prems by (meson list.set_intros(1))
  ultimately show ?case
    by simp
qed simp

lemma uses_no_witnesses: "uses P src pl0 rs pl \<Longrightarrow> r \<in> set rs \<Longrightarrow> \<exists>n. countWitnesses P r = Inr n \<and> wc_external n = 0"
  by (induction rule: uses.induct) (auto dest: sealed_no_witnesses)

section \<open>Properties\<close>

text \<open>A query neither invents nor hides.  If the host's string comparison is a total preorder, the receipts returned together with some rest are
  exactly the matching ones, the result is sorted newest first, nothing in the rest is newer than anything returned, and without a limit (or
  with the limit 0) the rest is empty; a positive limit keeps that many receipts.\<close>

theorem query_exact:
  assumes "\<And>a b. locale_le P a b \<or> locale_le P b a" "\<And>a b c. locale_le P a b \<Longrightarrow> locale_le P b c \<Longrightarrow> locale_le P a c"
  shows "\<exists>rest. mset (query P lower receipts q) + mset rest = mset (filter (\<lambda>r. query_matches lower r q) receipts)
    \<and> sorted_wrt (newerFirst P) (query P lower receipts q) \<and> (\<forall>x \<in> set (query P lower receipts q). \<forall>y \<in> set rest. newerFirst P x y)
    \<and> (qy_limit q \<in> {None, Some 0} \<longrightarrow> rest = [])
    \<and> (\<forall>k > 0. qy_limit q = Some k \<longrightarrow> length (query P lower receipts q) = min (nat k) (length (filter (\<lambda>r. query_matches lower r q) receipts)))"
proof -
  let ?found = "sortBy (newerFirst P) (filter (\<lambda>r. query_matches lower r q) receipts)"
  have sorted: "sorted_wrt (newerFirst P) ?found"
    by (rule sorted_sortBy) (use assms in \<open>auto simp: newerFirst_def\<close>)
  obtain n where n: "query P lower receipts q = take n ?found" "qy_limit q \<in> {None, Some 0} \<longrightarrow> length ?found \<le> n" "\<forall>k > 0. qy_limit q = Some k \<longrightarrow> n = nat k"
    by (rule limitTo_take [of "qy_limit q" ?found]) (simp add: query_def)
  have "sorted_wrt (newerFirst P) (take n ?found @ drop n ?found)"
    using sorted by (simp only: append_take_drop_id)
  then have split: "sorted_wrt (newerFirst P) (take n ?found)" "\<forall>x \<in> set (take n ?found). \<forall>y \<in> set (drop n ?found). newerFirst P x y"
    unfolding sorted_wrt_append by blast+
  have "mset (take n ?found) + mset (drop n ?found) = mset (filter (\<lambda>r. query_matches lower r q) receipts)"
    by (simp add: mset_sortBy flip: mset_append)
  then show ?thesis
    using split n by (intro exI [of _ "drop n ?found"]) (auto simp: min_def)
qed

text \<open>Groups are a partition: each key occurs once, with the number of receipts that have it, only keys that occur are listed, and the counts
  add up to the number of receipts.\<close>

theorem groupBy_partition:
  "distinct (map fst (groupBy key rs)) \<and> map_of (groupBy key rs) k = (if tally key rs k = 0 then None else Some (tally key rs k))
    \<and> sum_list (map snd (groupBy key rs)) = length rs"
  by (simp add: groupBy_distinct groupBy_map_of) (simp add: groupBy_def sum_sortBy countInto_sum)

text \<open>A pack is worth what its receipts are.  If verification returns, the pack is accepted exactly when it has a record and every receipt in it
  is accepted on its own; the verified and the failed ones add up, and the covered obligations are counted from the receipts.  The pack's
  own summary is not used.\<close>

theorem pack_accepted_iff:
  assumes "verifyAuditPack P pack options = Some (Inr v)"
  shows "(pv_ok v \<longleftrightarrow> pk_records pack \<noteq> []
        \<and> (\<forall>e \<in> set (pk_records pack). \<exists>w. verifyReceiptV2 P (pe_receipt e) options = Some (Inr w) \<and> verdict_ok w))
    \<and> pv_verified v + pv_failed v = pv_total v \<and> pv_total v = length (pk_records pack)
    \<and> pv_obligationsCovered v = length (filter cv_covered (coverage (map pe_receipt (pk_records pack))))
    \<and> verifyAuditPack P (pack\<lparr>pk_obligations := claimed\<rparr>) options = Some (Inr v)"
proof -
  obtain verdicts failures n where e: "verifyEntries P options (pk_records pack) = Some (Inr (verdicts, failures, n))"
    "pv_ok v = (failures = [] \<and> pk_records pack \<noteq> [])" "pv_verified v = length (filter verdict_ok verdicts)" "pv_failed v = length failures"
    "pv_total v = length (pk_records pack)" "pv_obligationsCovered v = length (filter cv_covered (coverage (map pe_receipt (pk_records pack))))"
    using assms by (auto simp: verifyAuditPack_def runbind_ok_iff Let_def)
  note spec = verifyEntries_spec [OF e(1)]
  have "failures = [] \<longleftrightarrow> (\<forall>e \<in> set (pk_records pack). \<exists>w. verifyReceiptV2 P (pe_receipt e) options = Some (Inr w) \<and> verdict_ok w)"
    using all2_verdicts [OF conjunct1 [OF spec]] spec by simp
  moreover have "pv_verified v + pv_failed v = pv_total v"
    using e(3-5) failed_verdicts [OF conjunct1 [OF spec]] spec by simp
  moreover have "verifyAuditPack P (pack\<lparr>pk_obligations := claimed\<rparr>) options = Some (Inr v)"
    using assms by (simp add: verifyAuditPack_def)
  ultimately show ?thesis
    using e by auto
qed

text \<open>A pack of everything a plane on the simulator sealed verifies: every receipt is accepted, none fails, and it claims no witness.\<close>

theorem plane_pack_verifies:
  assumes "uses P src pl0 rs pl" "signs P" "sources_ok src" "plane_ok P pl0" "simulated_plane P pl0" "logSize pl0 + length rs \<le> 2 ^ 30" "rs \<noteq> []"
    and "va_quoteVerifier options = None" "expected_ok (pl_info pl0) (va_expectedMeasurement options)" "\<not> va_requireHardware options" "va_witnessThreshold options \<le> 0"
  shows "\<exists>v. verifyAuditPack P (buildAuditPack now rs bp) options = Some (Inr v) \<and> pv_ok v \<and> pv_verified v = length rs \<and> pv_failed v = 0 \<and> pv_witnesses v = 0"
proof -
  have accepted: "\<forall>r\<in>set rs. \<forall>opts. va_quoteVerifier opts = None \<longrightarrow> expected_ok (pl_info pl0) (va_expectedMeasurement opts)
      \<longrightarrow> (\<exists>v. verifyReceiptV2 P r opts = Some (Inr v) \<and> verdict_checks v = checksFor (va_requireHardware opts)
           \<and> verdict_ok v = (\<not> va_requireHardware opts \<and> va_witnessThreshold opts \<le> 0))"
    using uses_invariant [OF assms(1-6)] by (elim conjE)
  have "\<exists>v n. verifyReceiptV2 P r options = Some (Inr v) \<and> verdict_ok v \<and> countWitnesses P r = Inr n \<and> wc_external n = 0" if r: "r \<in> set rs" for r
  proof -
    obtain v where "verifyReceiptV2 P r options = Some (Inr v)" "verdict_ok v"
      using accepted [rule_format, OF r assms(8,9)] assms(10,11) by auto
    then show ?thesis
      using uses_no_witnesses [OF assms(1) r] by blast
  qed
  then have "\<exists>v n. verifyReceiptV2 P (pe_receipt e) options = Some (Inr v) \<and> verdict_ok v \<and> countWitnesses P (pe_receipt e) = Inr n \<and> wc_external n = 0"
    if "e \<in> set (pk_records (buildAuditPack now rs bp))" for e
    using that by (auto simp: buildAuditPack_def)
  from verifyEntries_intro [where es = "pk_records (buildAuditPack now rs bp)", OF this] obtain vs where vs: "verifyEntries P options (pk_records (buildAuditPack now rs bp)) = Some (Inr (vs, [], 0))"
    "list_all verdict_ok vs" "length vs = length rs"
    by (auto simp: buildAuditPack_def)
  then have "filter verdict_ok vs = vs"
    by (simp add: list_all_iff filter_id_conv)
  then show ?thesis
    using vs assms(7) by (simp add: verifyAuditPack_def Let_def buildAuditPack_def)
qed

text \<open>One malformed receipt breaks the whole check: a pack whose first record holds no receipt makes verification throw instead of listing it
  among the failures, because its witnesses are counted although its shape was rejected.\<close>

theorem malformed_receipt_breaks_pack:
  assumes "pk_records pack = e # rest" "pe_receipt e = JNull"
  shows "verifyAuditPack P pack options = Some (Inl TypeError)"
proof -
  have "shape_receipt (validateReceiptV2Shape JNull) = None"
    by (simp add: validateReceiptV2Shape_def shapeErrors_def chkObj_def entriesOf_def Let_def)
  then show ?thesis
    using assms by (simp add: verifyAuditPack_def verifyReceiptV2_def countWitnesses_def Let_def)
qed

section \<open>Witnesses\<close>

theorem query_exact_witness:
  "\<exists>rest. mset (query (toyEnv\<lparr>locale_le := strLe\<rparr>) (\<lambda>s. s) [JNull, JNull] (anyQuery\<lparr>qy_limit := Some 1\<rparr>)) + mset rest = {#JNull, JNull#}
    \<and> length (query (toyEnv\<lparr>locale_le := strLe\<rparr>) (\<lambda>s. s) [JNull, JNull] (anyQuery\<lparr>qy_limit := Some 1\<rparr>)) = 1"
proof -
  have "query_matches (\<lambda>s. s) JNull (anyQuery\<lparr>qy_limit := Some 1\<rparr>)"
    by (simp add: query_matches_def anyQuery_def given_def Let_def)
  then show ?thesis
    using query_exact [of "toyEnv\<lparr>locale_le := strLe\<rparr>" "\<lambda>s. s" "[JNull, JNull]" "anyQuery\<lparr>qy_limit := Some 1\<rparr>"] strLe_total strLe_trans
    by (auto simp: add_mset_commute)
qed

lemma toyPack:
  obtains pl0 pl r where "uses toyEnv toySources pl0 [r] pl" "plane_ok toyEnv pl0" "simulated_plane toyEnv pl0" "logSize pl0 = 0"
proof -
  obtain pl where pl: "plane_ok toyEnv pl" "simulated_plane toyEnv pl" "logSize pl = 0" "event_ok toyEnv pl toyEvent"
    by (rule toyPlane)
  then have "logSize pl < 2 ^ 30"
    by simp
  then obtain r pl' where "seal toyEnv toySources toyEvent pl = Some (Inr (r, pl'))"
    by (rule sealed_verdict [OF signs_toyEnv toySources_ok pl(1,4)])
  then have "uses toyEnv toySources pl ([] @ [r]) pl'"
    using uses.sealed [OF uses.booted pl(4)] by blast
  then show ?thesis
    using that pl by simp
qed

definition toyPackOptions :: BuildPackOptions where
  "toyPackOptions = \<lparr>bp_subject = ''s'', bp_generatedAt = None, bp_enclave = None, bp_trustedKeys = None\<rparr>"

theorem plane_pack_verifies_witness:
  "\<exists>r v. verifyAuditPack toyEnv (buildAuditPack ''0'' [r] toyPackOptions) toyArgs = Some (Inr v) \<and> pv_ok v \<and> pv_verified v = 1"
proof -
  obtain pl0 pl r where u: "uses toyEnv toySources pl0 [r] pl" "plane_ok toyEnv pl0" "simulated_plane toyEnv pl0" "logSize pl0 = 0"
    by (rule toyPack)
  show ?thesis
    using plane_pack_verifies [OF u(1) signs_toyEnv toySources_ok u(2,3), of toyArgs "''0''" toyPackOptions] u(4)
    by (auto simp: toyArgs_def expected_ok_def)
qed

theorem pack_accepted_iff_witness:
  "\<exists>v. verifyAuditPack toyEnv (buildAuditPack ''0'' [] toyPackOptions) toyArgs = Some (Inr v) \<and> \<not> pv_ok v \<and> pv_total v = 0"
proof -
  have "\<exists>v. verifyAuditPack toyEnv (buildAuditPack ''0'' [] toyPackOptions) toyArgs = Some (Inr v)"
    by (simp add: verifyAuditPack_def buildAuditPack_def Let_def)
  then obtain v where v: "verifyAuditPack toyEnv (buildAuditPack ''0'' [] toyPackOptions) toyArgs = Some (Inr v)"
    by blast
  from pack_accepted_iff [OF v] v show ?thesis
    by (auto simp: buildAuditPack_def)
qed

definition toyMalformedPack :: AuditPack where
  "toyMalformedPack = (buildAuditPack ''0'' [] toyPackOptions)\<lparr>pk_records := [\<lparr>pe_record_id = JNull, pe_schema = JNull, pe_sealed_at = JNull, pe_receipt = JNull\<rparr>]\<rparr>"

theorem malformed_receipt_breaks_pack_witness:
  "verifyAuditPack toyEnv toyMalformedPack toyArgs = Some (Inl TypeError)"
  by (rule malformed_receipt_breaks_pack [where rest = "[]" and e = "\<lparr>pe_record_id = JNull, pe_schema = JNull, pe_sealed_at = JNull, pe_receipt = JNull\<rparr>"])
    (simp_all add: toyMalformedPack_def)

end
