(* ===== verification/Der.thy ===== *)
theory Der
  imports Payloads
begin

text \<open>
  \<^verbatim>\<open>src/src/platform/der.ts\<close>: the strict DER reader and writer.  A thrown \<^verbatim>\<open>DerError\<close> is \<open>Inl DerError\<close>; its message is text
  for people and is left out.  The reader's loop over the children of an element and the reader call each other, as in the code;
  the function is total because the end of every element lies behind its beginning.  The main result is that the reader accepts
  exactly the encodings that the writer makes of well-formed trees, so that no element has a second encoding.
\<close>

unbundle bit_operations_syntax

section \<open>Reading\<close>

datatype DerNode = DerNode (der_tag: byte) (der_raw: bytes) (der_content: bytes) (der_constructed: bool) (der_children: "DerNode list")

definition MAX_DEPTH :: nat where
  "MAX_DEPTH = 32"

definition subarray :: "bytes \<Rightarrow> nat \<Rightarrow> nat \<Rightarrow> bytes" where
  "subarray b i j = take (j - i) (drop i b)"

text \<open>\<^verbatim>\<open>len * 256 + x\<close> over some bytes.\<close>

definition bigEndian :: "bytes \<Rightarrow> nat" where
  "bigEndian bs = foldl (\<lambda>v x. v * 256 + unat x) 0 bs"

text \<open>The header of the element at \<open>offset\<close>: its tag and where its content begins and ends.\<close>

definition readHeader :: "bytes \<Rightarrow> nat \<Rightarrow> (byte \<times> nat \<times> nat) res" where
  "readHeader buf offset =
     (if offset + 2 > length buf then Inl DerError
      else let tag = buf ! offset; len = buf ! (offset + 1); p = offset + 2 in
        if tag AND 0x1f = 0x1f then Inl DerError
        else rbind
          (if len AND 0x80 \<noteq> 0
           then let n = unat (len AND 0x7f); l = bigEndian (subarray buf p (p + n)) in
             if n = 0 then Inl DerError
             else if n > 4 then Inl DerError
             else if p + n > length buf then Inl DerError
             else if buf ! p = 0 \<or> l < 0x80 then Inl DerError
             else Inr (p + n, l)
           else Inr (p, unat len))
          (\<lambda>(p, l). if p + l > length buf then Inl DerError else Inr (tag, p, p + l)))"

lemma rbind_cong [fundef_cong]:
  "r = r' \<Longrightarrow> (\<And>x. r' = Inr x \<Longrightarrow> f x = g x) \<Longrightarrow> rbind r f = rbind r' g"
  by (cases r') auto

lemma readHeader_bounds: "readHeader buf offset = Inr (tag, p, e) \<Longrightarrow> offset + 2 \<le> p \<and> p \<le> e \<and> e \<le> length buf"
  by (auto simp: readHeader_def Let_def rbind_Inr_iff split: if_splits)

function readOne :: "bytes \<Rightarrow> nat \<Rightarrow> nat \<Rightarrow> (DerNode \<times> nat) res"
  and readChildren :: "bytes \<Rightarrow> nat \<Rightarrow> nat \<Rightarrow> DerNode list res" where
  "readOne buf offset depth =
     (if depth > MAX_DEPTH then Inl DerError
      else rbind (readHeader buf offset) (\<lambda>(tag, p, e).
        let content = subarray buf p e; constructed = (tag AND 0x20 \<noteq> 0) in
        rbind (if constructed then readChildren content 0 (depth + 1) else Inr []) (\<lambda>children.
          Inr (DerNode tag (subarray buf offset e) content constructed children, e))))"
| "readChildren content q depth =
     (if q < length content
      then rbind (readOne content q depth) (\<lambda>(node, next).
        rbind (readChildren content next depth) (\<lambda>nodes. Inr (node # nodes)))
      else Inr [])"
  by pat_completeness auto

termination
proof (relation "measure (\<lambda>x. case x of Inl (buf, offset, _) \<Rightarrow> 2 * (length buf - offset) | Inr (content, q, _) \<Rightarrow> 2 * (length content - q) + 1)")
  have ahead: "offset + 2 \<le> next \<and> next \<le> length buf"
    if "readOne_readChildren_dom (Inl (buf, offset, depth))" "readOne buf offset depth = Inr (node, next)" for buf offset depth node "next"
    using that by (auto simp: readOne.psimps Let_def rbind_Inr_iff dest!: readHeader_bounds split: if_splits prod.splits)
  show "(Inr (content, next, depth), Inr (content, q, depth)) \<in> measure (\<lambda>x. case x of Inl (buf, offset, _) \<Rightarrow> 2 * (length buf - offset) | Inr (content, q, _) \<Rightarrow> 2 * (length content - q) + 1)"
    if "q < length content" "readOne content q depth = Inr x" "(node, next) = x" "readOne_readChildren_dom (Inl (content, q, depth))" for content q depth x node "next"
    using ahead [of content q depth node "next"] that by auto
qed (auto simp: subarray_def dest!: readHeader_bounds)

declare readOne.simps [simp del] readChildren.simps [simp del]

definition parseDer :: "bytes \<Rightarrow> DerNode res" where
  "parseDer buf = rbind (readOne buf 0 0) (\<lambda>(node, next). if next \<noteq> length buf then Inl DerError else Inr node)"

definition TAG_BOOLEAN :: byte where "TAG_BOOLEAN = 0x01"
definition TAG_INTEGER :: byte where "TAG_INTEGER = 0x02"
definition TAG_BIT_STRING :: byte where "TAG_BIT_STRING = 0x03"
definition TAG_OCTET_STRING :: byte where "TAG_OCTET_STRING = 0x04"
definition TAG_NULL :: byte where "TAG_NULL = 0x05"
definition TAG_OID :: byte where "TAG_OID = 0x06"
definition TAG_UTC_TIME :: byte where "TAG_UTC_TIME = 0x17"
definition TAG_GENERALIZED_TIME :: byte where "TAG_GENERALIZED_TIME = 0x18"
definition TAG_SEQUENCE :: byte where "TAG_SEQUENCE = 0x30"
definition TAG_SET :: byte where "TAG_SET = 0x31"

lemmas TAG_defs = TAG_BOOLEAN_def TAG_INTEGER_def TAG_BIT_STRING_def TAG_OCTET_STRING_def TAG_NULL_def TAG_OID_def TAG_UTC_TIME_def
  TAG_GENERALIZED_TIME_def TAG_SEQUENCE_def TAG_SET_def

definition expectTag :: "DerNode option \<Rightarrow> byte \<Rightarrow> DerNode res" where
  "expectTag n tag = (case n of None \<Rightarrow> Inl DerError | Some n \<Rightarrow> if der_tag n \<noteq> tag then Inl DerError else Inr n)"

text \<open>\<^verbatim>\<open>n.children[i]\<close>, with \<open>None\<close> for undefined.\<close>

definition childAt :: "DerNode \<Rightarrow> nat \<Rightarrow> DerNode option" where
  "childAt n i = (if i < length (der_children n) then Some (der_children n ! i) else None)"

definition child :: "DerNode \<Rightarrow> nat \<Rightarrow> DerNode res" where
  "child n i = (case childAt n i of None \<Rightarrow> Inl DerError | Some c \<Rightarrow> Inr c)"

text \<open>An arc above \<^verbatim>\<open>Number.MAX_SAFE_INTEGER / 128\<close>, which lies just below \<open>2\<^sup>46\<close>, is refused.\<close>

fun oidLoop :: "bytes \<Rightarrow> nat list \<Rightarrow> nat \<Rightarrow> nat list res" where
  "oidLoop [] arcs v = Inr arcs"
| "oidLoop (b # bs) arcs v =
     (if v = 0 \<and> b = 0x80 then Inl DerError
      else let v' = v * 128 + unat (b AND 0x7f) in
        if v' \<ge> 2 ^ 46 then Inl DerError
        else if b AND 0x80 = 0
        then oidLoop bs (if arcs = [] then [if v' < 80 then v' div 40 else 2, if v' < 80 then v' mod 40 else v' - 80] else arcs @ [v']) 0
        else if bs = [] then Inl DerError
        else oidLoop bs arcs v')"

definition decodeOid :: "DerNode \<Rightarrow> string res" where
  "decodeOid n = rbind (expectTag (Some n) TAG_OID) (\<lambda>n.
     if der_content n = [] then Inl DerError
     else rbind (oidLoop (der_content n) [] 0) (\<lambda>arcs. Inr (join ''.'' (map showNat arcs))))"

definition integerBytes :: "DerNode \<Rightarrow> bytes res" where
  "integerBytes n = rbind (expectTag (Some n) TAG_INTEGER) (\<lambda>n.
     let b = der_content n in
     if b = [] then Inl DerError
     else if length b > 1 \<and> (b ! 0 = 0 \<and> b ! 1 AND 0x80 = 0 \<or> b ! 0 = 0xff \<and> b ! 1 AND 0x80 \<noteq> 0) then Inl DerError
     else Inr (if b ! 0 = 0 \<and> length b > 1 then drop 1 b else b))"

definition integerValue :: "DerNode \<Rightarrow> nat res" where
  "integerValue n = rbind (integerBytes n) (\<lambda>b.
     if der_content n ! 0 AND 0x80 \<noteq> 0 then Inl DerError
     else if length b > 6 then Inl DerError
     else Inr (bigEndian b))"

definition bitStringBytes :: "DerNode \<Rightarrow> bytes res" where
  "bitStringBytes n = rbind (expectTag (Some n) TAG_BIT_STRING) (\<lambda>n.
     if der_content n = [] \<or> der_content n ! 0 > 7 then Inl DerError else Inr (drop 1 (der_content n)))"

section \<open>Times\<close>

text \<open>The calendar of ECMAScript: \<^verbatim>\<open>Date.UTC\<close> and the getters of \<^verbatim>\<open>Date\<close>.\<close>

definition dayFromYear :: "int \<Rightarrow> int" where
  "dayFromYear y = 365 * (y - 1970) + (y - 1969) div 4 - (y - 1901) div 100 + (y - 1601) div 400"

definition leapYear :: "int \<Rightarrow> bool" where
  "leapYear y = (y mod 4 = 0 \<and> (y mod 100 \<noteq> 0 \<or> y mod 400 = 0))"

definition monthStart :: "bool \<Rightarrow> nat \<Rightarrow> int" where
  "monthStart leap m = [0, 31, 59, 90, 120, 151, 181, 212, 243, 273, 304, 334] ! m + (if leap \<and> m \<ge> 2 then 1 else 0)"

definition makeDay :: "int \<Rightarrow> int \<Rightarrow> int \<Rightarrow> int" where
  "makeDay y m d = (let ym = y + m div 12 in dayFromYear ym + monthStart (leapYear ym) (nat (m mod 12)) + d - 1)"

definition dateUTC :: "int \<Rightarrow> int \<Rightarrow> int \<Rightarrow> int \<Rightarrow> int \<Rightarrow> int \<Rightarrow> int" where
  "dateUTC y m d h mi s = makeDay (if 0 \<le> y \<and> y \<le> 99 then 1900 + y else y) m d * 86400000 + h * 3600000 + mi * 60000 + s * 1000"

definition isDigit :: "char \<Rightarrow> bool" where
  "isDigit c = (48 \<le> (of_char c :: nat) \<and> (of_char c :: nat) \<le> 57)"

definition decValue :: "string \<Rightarrow> nat" where
  "decValue s = foldl (\<lambda>v c. v * 10 + (of_char c - 48)) 0 s"

text \<open>Groups of so many digits at the front of a text, and what follows them.\<close>

fun digitGroups :: "nat list \<Rightarrow> string \<Rightarrow> (int list \<times> string) option" where
  "digitGroups [] s = Some ([], s)"
| "digitGroups (w # ws) s =
     (if length s \<ge> w \<and> list_all isDigit (take w s)
      then map_option (\<lambda>(vs, r). (int (decValue (take w s)) # vs, r)) (digitGroups ws (drop w s)) else None)"

text \<open>The milliseconds of an optional fraction of one to nine digits.  The product of doubles \<^verbatim>\<open>Number("0.f") * 1000\<close> has the
  same integer part as the exact one: a product that is not an integer is at least \<open>10\<^sup>-\<^sup>6\<close> away from the next.\<close>

definition fractionMs :: "string \<Rightarrow> int option" where
  "fractionMs r = (if r = ''Z'' then Some 0
     else case r of [] \<Rightarrow> None | c # r' \<Rightarrow>
       let f = takeWhile isDigit r' in
       if c = CHR ''.'' \<and> f \<noteq> [] \<and> length f \<le> 9 \<and> drop (length f) r' = ''Z''
       then Some (int (decValue f * 1000 div 10 ^ length f)) else None)"

definition decodeTime :: "env \<Rightarrow> DerNode \<Rightarrow> int res" where
  "decodeTime P n =
     (let s = text_decode P (der_content n) in
      if der_tag n = TAG_GENERALIZED_TIME then
        (case digitGroups [4, 2, 2, 2, 2, 2] s of
           Some ([y, mo, d, h, mi, sec], r) \<Rightarrow>
             (case fractionMs r of None \<Rightarrow> Inl DerError | Some ms \<Rightarrow> Inr (dateUTC y (mo - 1) d h mi sec + ms))
         | _ \<Rightarrow> Inl DerError)
      else if der_tag n = TAG_UTC_TIME then
        (case digitGroups [2, 2, 2, 2, 2, 2] s of
           Some ([yy, mo, d, h, mi, sec], r) \<Rightarrow>
             if r = ''Z'' then Inr (dateUTC (if yy < 50 then 2000 + yy else 1900 + yy) (mo - 1) d h mi sec) else Inl DerError
         | _ \<Rightarrow> Inl DerError)
      else Inl DerError)"

section \<open>Writing\<close>

fun beBytes :: "nat \<Rightarrow> bytes \<Rightarrow> bytes" where
  "beBytes v acc = (if v > 0 then beBytes (v div 256) (of_nat v # acc) else acc)"

declare beBytes.simps [simp del]

definition tlv :: "byte \<Rightarrow> bytes \<Rightarrow> bytes" where
  "tlv tag content =
     (let n = length content in
      (if n < 0x80 then [tag, of_nat n]
       else let bs = beBytes n [] in [tag, 0x80 OR of_nat (length bs)] @ bs) @ content)"

definition derSeq :: "bytes list \<Rightarrow> bytes" where
  "derSeq parts = tlv TAG_SEQUENCE (concatBytes parts)"

definition derSet :: "bytes list \<Rightarrow> bytes" where
  "derSet parts = tlv TAG_SET (concatBytes parts)"

definition derOctets :: "bytes \<Rightarrow> bytes" where
  "derOctets b = tlv TAG_OCTET_STRING b"

definition derNull :: bytes where
  "derNull = tlv TAG_NULL []"

definition derBool :: "bool \<Rightarrow> bytes" where
  "derBool v = tlv TAG_BOOLEAN [if v then 0xff else 0]"

text \<open>Leading zero bytes but the last are skipped; the first of no bytes is undefined, which has no sign bit.\<close>

fun stripZeros :: "bytes \<Rightarrow> bytes" where
  "stripZeros (b # b' # bs) = (if b = 0 then stripZeros (b' # bs) else b # b' # bs)"
| "stripZeros bs = bs"

definition derInteger :: "bytes \<Rightarrow> bytes" where
  "derInteger bs = (let t = stripZeros bs in tlv TAG_INTEGER (if t \<noteq> [] \<and> t ! 0 AND 0x80 \<noteq> 0 then concatBytes [[0], t] else t))"

definition derIntegerOf :: "nat \<Rightarrow> bytes" where
  "derIntegerOf v = derInteger (let a = beBytes v [] in if a \<noteq> [] then a else [0])"

text \<open>\<^verbatim>\<open>Number\<close> of a part of a dotted identifier: no text is 0, decimal digits are their value, other text is NaN (signs,
  points, exponents and hexadecimal prefixes do not occur in identifiers).\<close>

definition arcNumber :: "string \<Rightarrow> nat option" where
  "arcNumber s = (if list_all isDigit s then Some (decValue s) else None)"

fun base128 :: "nat \<Rightarrow> bytes \<Rightarrow> bytes" where
  "base128 v acc = (if v > 0 then base128 (v div 128) ((of_nat v AND 0x7f OR 0x80) # acc) else acc)"

declare base128.simps [simp del]

text \<open>NaN has no bits and is not above 0, so such an arc is written as the byte 0.\<close>

definition arcBytes :: "nat option \<Rightarrow> bytes" where
  "arcBytes arc = (case arc of None \<Rightarrow> [0] | Some a \<Rightarrow> base128 (a div 128) [of_nat a AND 0x7f])"

definition derOid :: "string \<Rightarrow> bytes" where
  "derOid dotted =
     (let arcs = map arcNumber (splitOn (CHR ''.'') dotted);
          first = (case arcs of Some a # Some b # _ \<Rightarrow> of_nat (40 * a + b) | _ \<Rightarrow> 0)
      in tlv TAG_OID (first # concat (map arcBytes (drop 2 arcs))))"

definition yearFromDay :: "int \<Rightarrow> int" where
  "yearFromDay d = (let y = 1970 + d * 400 div 146097 in
     if dayFromYear (y + 1) \<le> d then y + 1 else if dayFromYear y \<le> d then y else y - 1)"

definition monthFromDay :: "bool \<Rightarrow> int \<Rightarrow> nat" where
  "monthFromDay leap d = length (filter (\<lambda>m. monthStart leap m \<le> d) [1..<12])"

definition showInt :: "int \<Rightarrow> string" where
  "showInt n = (if n < 0 then ''-'' @ showNat (nat (- n)) else showNat (nat n))"

definition pad :: "nat \<Rightarrow> int \<Rightarrow> string" where
  "pad w n = padStart w (CHR ''0'') (showInt n)"

text \<open>The getters of a date outside \<open>\<plusminus>8.64 \<sqdot> 10\<^sup>15\<close> milliseconds are NaN.\<close>

definition derGeneralizedTime :: "int \<Rightarrow> bytes" where
  "derGeneralizedTime ms =
     (let day = ms div 86400000; t = ms mod 86400000; y = yearFromDay day; n = day - dayFromYear y;
          mo = monthFromDay (leapYear y) n;
          s = (if \<bar>ms\<bar> > 8640000000000000 then ''0NaN'' @ concat (replicate 5 ''NaN'')
               else pad 4 y @ pad 2 (int mo + 1) @ pad 2 (n - monthStart (leapYear y) mo + 1)
                 @ pad 2 (t div 3600000) @ pad 2 (t div 60000 mod 60) @ pad 2 (t div 1000 mod 60)) @ ''Z''
      in tlv TAG_GENERALIZED_TIME (utf8 s))"

section \<open>Certificate extensions\<close>

record CertExtension =
  ext_critical :: bool
  ext_value :: bytes

definition readExtension :: "DerNode \<Rightarrow> (string \<times> CertExtension) res" where
  "readExtension e =
     rbind (child e 0) (\<lambda>idNode. rbind (decodeOid idNode) (\<lambda>eid.
       let cs = der_children e;
           critical = (length cs = 3 \<and> der_tag (cs ! 1) = TAG_BOOLEAN \<and> (der_content (cs ! 1) = [] \<or> der_content (cs ! 1) ! 0 \<noteq> 0)) in
       rbind (expectTag (childAt e (length cs - 1)) TAG_OCTET_STRING) (\<lambda>v.
         Inr (eid, \<lparr>ext_critical = critical, ext_value = der_content v\<rparr>))))"

fun readExtensions :: "DerNode list \<Rightarrow> (string \<times> CertExtension) list \<Rightarrow> (string \<times> CertExtension) list res" where
  "readExtensions [] out = Inr out"
| "readExtensions (e # es) out = rbind (readExtension e) (\<lambda>(eid, x). readExtensions es (mput eid x out))"

definition certificateExtensions :: "bytes \<Rightarrow> (string \<times> CertExtension) list res" where
  "certificateExtensions certDer =
     rbind (parseDer certDer) (\<lambda>cert. rbind (child cert 0) (\<lambda>tbs.
       case find (\<lambda>c. der_tag c = 0xa3) (der_children tbs) of
         None \<Rightarrow> Inr []
       | Some extWrap \<Rightarrow> rbind (child extWrap 0) (\<lambda>x. rbind (expectTag (Some x) TAG_SEQUENCE) (\<lambda>exts.
           readExtensions (der_children exts) []))))"

section \<open>Numbers in base 256\<close>

lemma bigEndian_simps [simp]: "bigEndian [] = 0" "bigEndian (bs @ [b]) = bigEndian bs * 256 + unat b"
  by (simp_all add: bigEndian_def)

lemma beBytes_0 [simp]: "beBytes 0 acc = acc"
  by (simp add: beBytes.simps)

lemma beBytes_acc: "beBytes v acc = beBytes v [] @ acc"
proof (induction v arbitrary: acc rule: less_induct)
  case (less v)
  have step: "beBytes v x = (if v > 0 then beBytes (v div 256) (of_nat v # x) else x)" for x by (rule beBytes.simps)
  show ?case
  proof (cases "v = 0")
    case False
    then have "beBytes (v div 256) (of_nat v # a) = beBytes (v div 256) [] @ of_nat v # a" for a
      by (intro less) simp
    then show ?thesis using False by (simp add: step)
  qed simp
qed

lemma beBytes_snoc: "v > 0 \<Longrightarrow> beBytes v [] = beBytes (v div 256) [] @ [of_nat v]"
  by (subst beBytes.simps) (simp add: beBytes_acc [of "v div 256" "[of_nat v]"])

lemma unat_of_nat_mod: "unat (of_nat v :: byte) = v mod 256"
  by (simp add: unat_of_nat)

lemma bigEndian_beBytes [simp]: "bigEndian (beBytes v []) = v"
proof (induction v rule: less_induct)
  case (less v)
  show ?case
  proof (cases "v > 0")
    case True
    then have "bigEndian (beBytes (v div 256) []) = v div 256" using less by simp
    then show ?thesis using True by (simp add: beBytes_snoc unat_of_nat_mod)
  qed simp
qed

lemma beBytes_nonzero: "v > 0 \<Longrightarrow> beBytes v [] \<noteq> [] \<and> hd (beBytes v []) \<noteq> 0"
proof (induction v rule: less_induct)
  case (less v)
  show ?case
  proof (cases "v div 256 = 0")
    case True
    then have "v < 256" by (simp add: div_eq_0_iff)
    then have "unat (of_nat v :: byte) \<noteq> 0" using less.prems by (simp add: unat_of_nat_mod)
    then have "(of_nat v :: byte) \<noteq> 0" by (metis unat_0)
    then show ?thesis using less.prems True by (simp add: beBytes_snoc)
  next
    case False
    then have "beBytes (v div 256) [] \<noteq> []" "hd (beBytes (v div 256) []) \<noteq> 0" using less.IH [of "v div 256"] less.prems by auto
    then show ?thesis using less.prems by (simp add: beBytes_snoc [of v])
  qed
qed

lemma beBytes_bigEndian: "bs = [] \<or> hd bs \<noteq> 0 \<Longrightarrow> beBytes (bigEndian bs) [] = bs"
proof (induction bs rule: rev_induct)
  case (snoc b bs)
  have "unat (of_nat (bigEndian (bs @ [b])) :: byte) = unat b"
    by (simp add: unat_of_nat_mod unat_byte_less del: of_nat_add of_nat_mult)
  then have n: "of_nat (bigEndian (bs @ [b])) = b" by (simp add: word_unat_eq_iff)
  have d: "bigEndian (bs @ [b]) div 256 = bigEndian bs" by (simp add: unat_byte_less)
  have "bigEndian (bs @ [b]) > 0"
  proof (cases bs)
    case Nil
    then show ?thesis using snoc.prems by (simp add: bigEndian_def unat_gt_0)
  next
    case Cons
    then have "hd bs \<noteq> 0" "beBytes (bigEndian bs) [] = bs" using snoc by auto
    then have "bigEndian bs \<noteq> 0" using Cons by (metis beBytes_0 list.distinct(1))
    then show ?thesis by simp
  qed
  moreover have "beBytes (bigEndian bs) [] = bs" using snoc by (cases bs) auto
  ultimately show ?case by (simp add: beBytes_snoc [of "bigEndian (bs @ [b])"] n d del: bigEndian_simps)
qed simp

lemma bigEndian_less: "bigEndian bs < 256 ^ length bs"
proof (induction bs rule: rev_induct)
  case (snoc b bs)
  then have "bigEndian bs + 1 \<le> 256 ^ length bs" by simp
  then have "(bigEndian bs + 1) * 256 \<le> 256 ^ length bs * 256" by (rule mult_right_mono) simp
  then show ?case using unat_byte_less [of b] by simp
qed simp

lemma length_beBytes: "v < 256 ^ k \<Longrightarrow> length (beBytes v []) \<le> k"
proof (induction k arbitrary: v)
  case (Suc k)
  show ?case
  proof (cases "v > 0")
    case True
    have "v div 256 < 256 ^ k" using Suc.prems by (simp add: less_mult_imp_div_less mult.commute)
    then show ?thesis using Suc.IH [of "v div 256"] True by (simp add: beBytes_snoc)
  qed simp
qed simp

section \<open>The specification: trees and their encodings\<close>

datatype derTree = Prim byte bytes | Constr byte "derTree list"

fun encodeTree :: "derTree \<Rightarrow> bytes" where
  "encodeTree (Prim t c) = tlv t c"
| "encodeTree (Constr t ts) = tlv t (concat (map encodeTree ts))"

fun nodeOf :: "derTree \<Rightarrow> DerNode" where
  "nodeOf (Prim t c) = DerNode t (tlv t c) c False []"
| "nodeOf (Constr t ts) = DerNode t (encodeTree (Constr t ts)) (concat (map encodeTree ts)) True (map nodeOf ts)"

definition tagOk :: "byte \<Rightarrow> bool" where
  "tagOk t = (t AND 0x1f \<noteq> 0x1f)"

fun wfTree :: "nat \<Rightarrow> derTree \<Rightarrow> bool" where
  "wfTree d (Prim t c) = (d \<le> MAX_DEPTH \<and> tagOk t \<and> t AND 0x20 = 0 \<and> length c < 2 ^ 32)"
| "wfTree d (Constr t ts) = (d \<le> MAX_DEPTH \<and> tagOk t \<and> t AND 0x20 \<noteq> 0 \<and> length (concat (map encodeTree ts)) < 2 ^ 32
     \<and> (\<forall>x\<in>set ts. wfTree (d + 1) x))"

section \<open>Headers\<close>

lemma length_byte_small: "n < 0x80 \<Longrightarrow> unat (of_nat n :: byte) = n \<and> (of_nat n :: byte) AND 0x80 = 0"
proof -
  assume n: "n < 0x80"
  have "list_all (\<lambda>n. unat (of_nat n :: byte) = n \<and> (of_nat n :: byte) AND 0x80 = 0) [0..<128]" by code_simp
  then show ?thesis using n by (simp add: list_all_iff)
qed

lemma length_byte_large: "1 \<le> k \<Longrightarrow> k \<le> 4 \<Longrightarrow> (0x80 OR of_nat k :: byte) AND 0x80 \<noteq> 0 \<and> unat ((0x80 OR of_nat k :: byte) AND 0x7f) = k"
proof -
  assume k: "1 \<le> k" "k \<le> 4"
  have "list_all (\<lambda>k. (0x80 OR of_nat k :: byte) AND 0x80 \<noteq> 0 \<and> unat ((0x80 OR of_nat k :: byte) AND 0x7f) = k) [1..<5]" by code_simp
  then show ?thesis using k by (simp add: list_all_iff)
qed

lemma all_bytes:
  assumes "list_all (\<lambda>n. Q (of_nat n)) [0..<256]"
  shows "Q (b :: byte)"
proof -
  have "unat b \<in> set [0..<256]" using unat_byte_less [of b] by simp
  then have "Q (of_nat (unat b))" using assms unfolding list_all_iff by blast
  then show ?thesis by simp
qed

lemma length_byte_split: "b AND 0x80 \<noteq> 0 \<longrightarrow> 0x80 OR of_nat (unat (b AND 0x7f)) = (b :: byte)"
  by (rule all_bytes [where Q = "\<lambda>b. b AND 0x80 \<noteq> 0 \<longrightarrow> 0x80 OR of_nat (unat (b AND 0x7f)) = b"]) code_simp

lemma length_byte_short: "b AND 0x80 = 0 \<longrightarrow> unat (b :: byte) < 0x80"
  by (rule all_bytes [where Q = "\<lambda>b. b AND 0x80 = 0 \<longrightarrow> unat b < 0x80"]) code_simp

lemma length_tlv: "length (tlv t c) \<ge> length c + 2"
  by (simp add: tlv_def Let_def)

lemma length_encodeTree: "length (encodeTree t) \<ge> 2"
  by (cases t) (simp_all add: tlv_def Let_def)

lemma lengthBytes:
  assumes "0x80 \<le> n" "n < 2 ^ 32"
  shows "1 \<le> length (beBytes n []) \<and> length (beBytes n []) \<le> 4"
proof -
  have "n < 256 ^ 4" "n > 0" using assms by simp_all
  then show ?thesis using length_beBytes [of n 4] beBytes_nonzero [of n] by (cases "beBytes n []") auto
qed

lemma readHeader_tlv:
  assumes "tagOk t" "length c < 2 ^ 32"
  shows "readHeader (pre @ tlv t c @ post) (length pre) = Inr (t, length pre + (length (tlv t c) - length c), length pre + length (tlv t c))"
proof (cases "length c < 0x80")
  case True
  then show ?thesis using assms length_byte_small [of "length c"] by (simp add: readHeader_def tlv_def nth_append tagOk_def Let_def)
next
  case False
  let ?n = "length c" and ?bs = "beBytes (length c) []"
  let ?k = "length ?bs" and ?b = "0x80 OR of_nat (length ?bs) :: byte"
  have k: "1 \<le> ?k" "?k \<le> 4" using False lengthBytes assms(2) by auto
  have len: "?b AND 0x80 \<noteq> 0" "unat (?b AND 0x7f) = ?k" using length_byte_large [OF k] by auto
  have sub: "subarray (pre @ tlv t c @ post) (length pre + 2) (length pre + 2 + ?k) = ?bs" using False by (simp add: subarray_def tlv_def Let_def)
  obtain x xs where bs: "?bs = x # xs" using k by (cases ?bs) auto
  have nth: "(pre @ tlv t c @ post) ! length pre = t" "(pre @ tlv t c @ post) ! (length pre + 1) = ?b"
    "(pre @ tlv t c @ post) ! (length pre + 2) = ?bs ! 0"
    using False by (simp_all add: tlv_def Let_def nth_append bs)
  have "?n > 0" using False by linarith
  then have "?bs ! 0 \<noteq> 0" "?bs \<noteq> []" using beBytes_nonzero [of ?n] bs by simp_all
  then show ?thesis
    using assms False k unfolding readHeader_def Let_def nth len sub
    by (simp add: tagOk_def tlv_def Let_def len)
qed

lemma subarray_split: "i \<le> j \<Longrightarrow> j \<le> k \<Longrightarrow> subarray b i k = subarray b i j @ subarray b j k"
proof -
  assume "i \<le> j" "j \<le> k"
  then have "take (k - i) (drop i b) = take ((j - i) + (k - j)) (drop i b)" by simp
  also have "\<dots> = take (j - i) (drop i b) @ take (k - j) (drop (j - i) (drop i b))" by (rule take_add)
  finally show ?thesis using \<open>i \<le> j\<close> by (simp add: subarray_def)
qed

lemma length_subarray: "i \<le> j \<Longrightarrow> j \<le> length b \<Longrightarrow> length (subarray b i j) = j - i"
  by (simp add: subarray_def)

lemma subarray_2: "offset + 2 \<le> length b \<Longrightarrow> subarray b offset (offset + 2) = [b ! offset, b ! (offset + 1)]"
  by (simp add: subarray_def numeral_2_eq_2 take_Suc_conv_app_nth)

lemma readHeader_sound:
  assumes h: "readHeader buf offset = Inr (t, p, e)"
  shows "tagOk t \<and> e - p < 2 ^ 32 \<and> subarray buf offset e = tlv t (subarray buf p e)"
proof -
  let ?len = "buf ! (offset + 1)"
  have b: "offset + 2 \<le> p" "p \<le> e" "e \<le> length buf" using readHeader_bounds [OF h] by auto
  have t: "t = buf ! offset" "tagOk t" using h by (auto simp: readHeader_def Let_def rbind_Inr_iff tagOk_def split: if_splits)
  have split: "subarray buf offset e = [t, ?len] @ subarray buf (offset + 2) p @ subarray buf p e"
    using b t subarray_split [of offset "offset + 2" e buf] subarray_split [of "offset + 2" p e buf] subarray_2 [of offset buf] by simp
  have l: "length (subarray buf p e) = e - p" using b by (simp add: length_subarray)
  show ?thesis
  proof (cases "?len AND 0x80 = 0")
    case True
    then have p: "p = offset + 2" and e: "e = p + unat ?len" using h by (auto simp: readHeader_def Let_def rbind_Inr_iff split: if_splits)
    moreover have "unat ?len < 0x80" using True length_byte_short by blast
    ultimately show ?thesis using t split l by (simp add: tlv_def subarray_def)
  next
    case False
    let ?n = "unat (?len AND 0x7f)"
    let ?bs = "subarray buf (offset + 2) (offset + 2 + ?n)"
    have n: "?n \<noteq> 0" "?n \<le> 4" "p = offset + 2 + ?n" "e = p + bigEndian ?bs" "0x80 \<le> bigEndian ?bs" "buf ! (offset + 2) \<noteq> 0"
      using h False by (auto simp: readHeader_def Let_def rbind_Inr_iff split: if_splits)
    have len: "length ?bs = ?n" using n b by (simp add: length_subarray)
    then have "hd ?bs = buf ! (offset + 2)" using n b by (simp add: subarray_def hd_conv_nth)
    then have bs: "beBytes (bigEndian ?bs) [] = ?bs" using n by (simp add: beBytes_bigEndian)
    have "bigEndian ?bs < 256 ^ ?n" using bigEndian_less [of ?bs] len by simp
    also have "(256::nat) ^ ?n \<le> 256 ^ 4" using n by (intro power_increasing) auto
    finally have "e - p < 2 ^ 32" using n by simp
    moreover have "e - p = bigEndian ?bs" using n by simp
    ultimately show ?thesis using t split l n bs len length_byte_split [of ?len] False by (simp add: tlv_def)
  qed
qed

section \<open>The reader accepts exactly the encodings of trees\<close>

lemma readChildren_encode:
  assumes "\<And>t pre post. t \<in> set ts \<Longrightarrow> readOne (pre @ encodeTree t @ post) (length pre) d = Inr (nodeOf t, length pre + length (encodeTree t))"
  shows "readChildren (pre @ concat (map encodeTree ts)) (length pre) d = Inr (map nodeOf ts)"
  using assms
proof (induction ts arbitrary: pre)
  case (Cons t ts)
  have "readOne (pre @ encodeTree t @ concat (map encodeTree ts)) (length pre) d = Inr (nodeOf t, length pre + length (encodeTree t))"
    using Cons.prems by simp
  moreover have "readChildren ((pre @ encodeTree t) @ concat (map encodeTree ts)) (length (pre @ encodeTree t)) d = Inr (map nodeOf ts)"
    by (rule Cons.IH) (rule Cons.prems, simp)
  moreover have "encodeTree t \<noteq> []" using length_encodeTree [of t] by auto
  ultimately show ?case by (simp add: readChildren.simps [of "pre @ encodeTree t @ concat (map encodeTree ts)" "length pre"])
qed (simp add: readChildren.simps)

lemma subarray_middle [simp]: "subarray (pre @ x @ post) (length pre) (length pre + length x) = x"
  by (simp add: subarray_def)

lemma subarray_content: "subarray (pre @ tlv t c @ post) (length pre + (length (tlv t c) - length c)) (length pre + length (tlv t c)) = c"
  by (simp add: subarray_def tlv_def Let_def)

lemma readOne_encode: "wfTree d t \<Longrightarrow> readOne (pre @ encodeTree t @ post) (length pre) d = Inr (nodeOf t, length pre + length (encodeTree t))"
proof (induction t arbitrary: d pre post)
  case (Prim t c)
  then show ?case by (simp add: readOne.simps [of _ _ d] readHeader_tlv subarray_content Let_def)
next
  case (Constr t ts)
  have "readChildren (concat (map encodeTree ts)) 0 (d + 1) = Inr (map nodeOf ts)"
    using readChildren_encode [of ts "d + 1" "[]"] Constr by simp
  then show ?case using Constr.prems by (simp add: readOne.simps [of _ _ d] readHeader_tlv subarray_content Let_def)
qed

lemma readOne_Inr:
  assumes "readOne buf offset d = Inr (n, nx)"
  obtains tag p cs where "d \<le> MAX_DEPTH" "readHeader buf offset = Inr (tag, p, nx)"
    "(if tag AND 0x20 \<noteq> 0 then readChildren (subarray buf p nx) 0 (d + 1) else Inr []) = Inr cs"
    "n = DerNode tag (subarray buf offset nx) (subarray buf p nx) (tag AND 0x20 \<noteq> 0) cs"
proof -
  have d: "d \<le> MAX_DEPTH" using assms by (cases "d > MAX_DEPTH") (auto simp: readOne.simps [of buf])
  then obtain h where h: "readHeader buf offset = Inr h" using assms by (cases "readHeader buf offset") (auto simp: readOne.simps [of buf])
  obtain tag p e where "h = (tag, p, e)" by (cases h)
  then show ?thesis
    using assms d h that by (cases "if tag AND 0x20 \<noteq> 0 then readChildren (subarray buf p e) 0 (d + 1) else Inr []")
      (auto simp: readOne.simps [of buf] Let_def simp del: if_split)
qed

lemma readOne_bounds: "readOne buf offset d = Inr (n, nx) \<Longrightarrow> offset + 2 \<le> nx \<and> nx \<le> length buf"
  by (erule readOne_Inr) (auto dest: readHeader_bounds)

lemma read_sound:
  "readOne buf offset d = Inr (n, nx) \<Longrightarrow> \<exists>t. wfTree d t \<and> n = nodeOf t \<and> subarray buf offset nx = encodeTree t"
  "readChildren content q d = Inr ns \<Longrightarrow> \<exists>ts. (\<forall>t\<in>set ts. wfTree d t) \<and> ns = map nodeOf ts \<and> drop q content = concat (map encodeTree ts)"
proof (induction buf offset d and content q d arbitrary: n nx and ns rule: readOne_readChildren.induct)
  case (1 buf offset d)
  obtain tag p cs where d: "d \<le> MAX_DEPTH" and h: "readHeader buf offset = Inr (tag, p, nx)"
    and cs: "(if tag AND 0x20 \<noteq> 0 then readChildren (subarray buf p nx) 0 (d + 1) else Inr []) = Inr cs"
    and n: "n = DerNode tag (subarray buf offset nx) (subarray buf p nx) (tag AND 0x20 \<noteq> 0) cs"
    by (rule readOne_Inr [OF 1(2)])
  have s: "tagOk tag" "nx - p < 2 ^ 32" "subarray buf offset nx = tlv tag (subarray buf p nx)" using readHeader_sound [OF h] by auto
  have l: "length (subarray buf p nx) < 2 ^ 32" using s readHeader_bounds [OF h] by (simp add: length_subarray)
  show ?case
  proof (cases "tag AND 0x20 = 0")
    case True
    then show ?thesis using d s l n cs by (intro exI [of _ "Prim tag (subarray buf p nx)"]) simp
  next
    case False
    then have "readChildren (subarray buf p nx) 0 (d + 1) = Inr cs" using cs by simp
    then obtain ts where "\<forall>t\<in>set ts. wfTree (d + 1) t" "cs = map nodeOf ts" "subarray buf p nx = concat (map encodeTree ts)"
      using 1(1) [of "(tag, p, nx)" tag "(p, nx)" p nx "subarray buf p nx" True cs] d h False by auto
    then show ?thesis using d s l n False by (intro exI [of _ "Constr tag ts"]) simp
  qed
next
  case (2 content q d)
  show ?case
  proof (cases "q < length content")
    case True
    then obtain node nx nodes where one: "readOne content q d = Inr (node, nx)" and more: "readChildren content nx d = Inr nodes" and ns: "ns = node # nodes"
      using 2(3) by (auto simp: readChildren.simps [of content q] rbind_Inr_iff)
    obtain t where t: "wfTree d t" "node = nodeOf t" "subarray content q nx = encodeTree t" using 2(1) [OF True one] by blast
    obtain ts where ts: "\<forall>t\<in>set ts. wfTree d t" "nodes = map nodeOf ts" "drop nx content = concat (map encodeTree ts)"
      using 2(2) [OF True one _ more] by blast
    have "q \<le> nx" "nx \<le> length content" using readOne_bounds [OF one] by auto
    then have "drop q content = subarray content q nx @ drop nx content"
      by (metis subarray_def append_take_drop_id drop_drop le_add_diff_inverse2)
    then show ?thesis using t ts ns by (intro exI [of _ "t # ts"]) simp
  next
    case False
    then show ?thesis using 2(3) by (intro exI [of _ "[]"]) (simp add: readChildren.simps)
  qed
qed

lemma parseDer_encodeTree: "wfTree 0 t \<Longrightarrow> parseDer (encodeTree t) = Inr (nodeOf t)"
  using readOne_encode [of 0 t "[]" "[]"] by (simp add: parseDer_def)

lemma parseDer_Inr: "parseDer b = Inr n \<Longrightarrow> \<exists>t. wfTree 0 t \<and> b = encodeTree t \<and> n = nodeOf t"
proof -
  assume "parseDer b = Inr n"
  then have "readOne b 0 0 = Inr (n, length b)" by (auto simp: parseDer_def rbind_Inr_iff split: if_splits)
  then show ?thesis using read_sound(1) [of b 0 0 n "length b"] by (auto simp: subarray_def)
qed

lemma der_raw_nodeOf [simp]: "der_raw (nodeOf t) = encodeTree t"
  by (cases t) simp_all

text \<open>\<^bold>\<open>C33.\<close> \<^verbatim>\<open>parseDer\<close> accepts exactly the canonical encodings: a byte string is read as the element \<open>n\<close> if and only if it is the
  encoding of a well-formed tree (definite and minimal lengths below \<open>2\<^sup>32\<close>, one-byte tags, nesting up to the limit) whose element
  is \<open>n\<close>.  Nothing else is accepted, no trailing byte is tolerated, and every byte of the input belongs to the element read.\<close>

theorem der_reader_exact:
  "(parseDer b = Inr n \<longleftrightarrow> (\<exists>t. wfTree 0 t \<and> b = encodeTree t \<and> n = nodeOf t)) \<and> (parseDer b \<noteq> Inr n \<or> der_raw n = b)"
  using parseDer_Inr parseDer_encodeTree by fastforce

theorem der_reader_exact_witness:
  "parseDer [0x30, 3, 2, 1, 7] = Inr (nodeOf (Constr 0x30 [Prim 2 [7]])) \<and> wfTree 0 (Constr 0x30 [Prim 2 [7]])"
proof -
  have "wfTree 0 (Constr 0x30 [Prim 2 [7]])" "[0x30, 3, 2, 1, 7] = encodeTree (Constr 0x30 [Prim 2 [7]])"
    by (simp_all add: tlv_def MAX_DEPTH_def tagOk_def)
  then show ?thesis using der_reader_exact by blast
qed

section \<open>Integers\<close>

lemma stripZeros_props: "bs \<noteq> [] \<Longrightarrow> stripZeros bs \<noteq> [] \<and> (length (stripZeros bs) > 1 \<longrightarrow> stripZeros bs ! 0 \<noteq> 0)"
  by (induction bs rule: stripZeros.induct) auto

lemma bigEndian_Cons_0: "bigEndian (0 # bs) = bigEndian bs"
  by (simp add: bigEndian_def)

lemma bigEndian_stripZeros: "bigEndian (stripZeros bs) = bigEndian bs"
  by (induction bs rule: stripZeros.induct) (auto simp: bigEndian_Cons_0)

definition integerTree :: "bytes \<Rightarrow> derTree" where
  "integerTree bs = (let t = stripZeros bs in Prim TAG_INTEGER (if t \<noteq> [] \<and> t ! 0 AND 0x80 \<noteq> 0 then 0 # t else t))"

lemma derInteger_tree: "derInteger bs = encodeTree (integerTree bs)"
  by (simp add: derInteger_def integerTree_def Let_def)

lemma byte_zero_sign [simp]: "(0 :: byte) AND 0x80 = 0"
  by simp

lemma integerBytes_integerTree: "bs \<noteq> [] \<Longrightarrow> integerBytes (nodeOf (integerTree bs)) = Inr (stripZeros bs)"
proof -
  assume "bs \<noteq> []"
  then have s: "stripZeros bs \<noteq> []" "length (stripZeros bs) > 1 \<longrightarrow> stripZeros bs ! 0 \<noteq> 0" using stripZeros_props by auto
  have ff: "(0xff :: byte) AND 0x80 \<noteq> 0" by simp
  show ?thesis using s ff by (auto simp: integerBytes_def integerTree_def expectTag_def Let_def)
qed

lemma derInteger_value:
  assumes "v < 2 ^ 48"
  shows "integerValue (nodeOf (integerTree (let a = beBytes v [] in if a \<noteq> [] then a else [0]))) = Inr v"
proof -
  let ?a = "let a = beBytes v [] in if a \<noteq> [] then a else [0]"
  have a: "?a \<noteq> []" "length ?a \<le> 6" "bigEndian ?a = v" using assms length_beBytes [of v 6]
    by (auto simp: Let_def bigEndian_def split: if_splits) (metis bigEndian_beBytes bigEndian_def foldl_Nil)+
  have "stripZeros ?a = ?a" using beBytes_nonzero [of v] by (cases "v = 0"; cases "beBytes v []" rule: stripZeros.cases) (auto simp: Let_def)
  moreover have "der_content (nodeOf (integerTree ?a)) ! 0 AND 0x80 = 0" using \<open>stripZeros ?a = ?a\<close> by (auto simp: integerTree_def Let_def)
  ultimately show ?thesis using integerBytes_integerTree [OF a(1)] a unfolding integerValue_def by (simp add: not_less)
qed

lemma integerValue_bound: "integerValue n = Inr v \<Longrightarrow> v < 2 ^ 48"
proof -
  assume "integerValue n = Inr v"
  then obtain b where "\<not> length b > 6" "v = bigEndian b" unfolding integerValue_def rbind_Inr_iff by (metis Inl_Inr_False Inr_inject)
  then have "length b \<le> 6" by simp
  then have "(256::nat) ^ length b \<le> 256 ^ 6" by (intro power_increasing) auto
  then show ?thesis using bigEndian_less [of b] \<open>v = bigEndian b\<close> by simp
qed

section \<open>Object identifiers\<close>

lemma foldl_decimal: "decValue (s @ [c]) = decValue s * 10 + (of_char c - 48)"
  by (simp add: decValue_def)

lemma showNat_digits: "list_all isDigit (showNat n) \<and> decValue (showNat n) = n"
proof (induction n rule: less_induct)
  case (less n)
  have d: "isDigit (char_of (48 + m))" "of_char (char_of (48 + m)) - 48 = m" if "m < 10" for m :: nat
    using that by (simp_all add: isDigit_def)
  show ?case
  proof (cases "n < 10")
    case True
    then show ?thesis using d by (simp add: showNat.simps [of n] decValue_def)
  next
    case False
    then show ?thesis using less [of "n div 10"] d [of "n mod 10"] by (simp add: showNat.simps [of n] foldl_decimal)
  qed
qed

lemma splitOn_part: "c \<notin> set s \<Longrightarrow> splitOn c s = [s]"
  by (induction s) auto

lemma splitOn_append: "c \<notin> set s \<Longrightarrow> splitOn c (s @ c # r) = s # splitOn c r"
  by (induction s) auto

lemma splitOn_join: "ps \<noteq> [] \<Longrightarrow> \<forall>p\<in>set ps. c \<notin> set p \<Longrightarrow> splitOn c (join [c] ps) = ps"
  by (induction "[c]" ps rule: join.induct) (auto simp: splitOn_part splitOn_append)

lemma dot_not_digit: "list_all isDigit s \<Longrightarrow> CHR ''.'' \<notin> set s"
  by (auto simp: list_all_iff isDigit_def)

definition dotted :: "nat list \<Rightarrow> string" where
  "dotted arcs = join ''.'' (map showNat arcs)"

lemma arcs_of_dotted: "arcs \<noteq> [] \<Longrightarrow> map arcNumber (splitOn (CHR ''.'') (dotted arcs)) = map Some arcs"
  using showNat_digits dot_not_digit by (simp add: dotted_def splitOn_join arcNumber_def)

lemma base128_acc: "base128 v acc = base128 v [] @ acc"
proof (induction v arbitrary: acc rule: less_induct)
  case (less v)
  have step: "base128 v x = (if v > 0 then base128 (v div 128) ((of_nat v AND 0x7f OR 0x80) # x) else x)" for x by (rule base128.simps)
  show ?case
  proof (cases "v = 0")
    case False
    then have "base128 (v div 128) ((of_nat v AND 0x7f OR 0x80) # a) = base128 (v div 128) [] @ (of_nat v AND 0x7f OR 0x80) # a" for a
      by (intro less) simp
    then show ?thesis using False by (simp add: step)
  qed (simp add: base128.simps [of 0])
qed

lemma base128_snoc: "v > 0 \<Longrightarrow> base128 v [] = base128 (v div 128) [] @ [of_nat v AND 0x7f OR 0x80]"
  by (subst base128.simps) (simp add: base128_acc [of "v div 128" "[of_nat v AND 0x7f OR 0x80]"])

lemma byte_low: "unat ((b :: byte) AND 0x7f) = unat b mod 128 \<and> (b AND 0x7f) AND 0x80 = 0"
  by (rule all_bytes [where Q = "\<lambda>b. unat (b AND 0x7f) = unat b mod 128 \<and> (b AND 0x7f) AND 0x80 = 0"]) code_simp

lemma byte_high: "unat (((b :: byte) AND 0x7f OR 0x80) AND 0x7f) = unat b mod 128 \<and> (b AND 0x7f OR 0x80) AND 0x80 \<noteq> 0
    \<and> (b AND 0x7f OR 0x80 = 0x80 \<longleftrightarrow> unat b mod 128 = 0)"
  by (rule all_bytes [where Q = "\<lambda>b. unat ((b AND 0x7f OR 0x80) AND 0x7f) = unat b mod 128 \<and> (b AND 0x7f OR 0x80) AND 0x80 \<noteq> 0
    \<and> (b AND 0x7f OR 0x80 = 0x80 \<longleftrightarrow> unat b mod 128 = 0)"]) code_simp

lemma mod_256_128: "(v mod 256) mod 128 = (v :: nat) mod 128"
  by (simp add: mod_mod_cancel)

lemma oidLoop_prefix: "v < 2 ^ 46 \<Longrightarrow> bs \<noteq> [] \<Longrightarrow> oidLoop (base128 v [] @ bs) arcs 0 = oidLoop bs arcs v"
proof (induction v arbitrary: bs rule: less_induct)
  case (less v)
  show ?case
  proof (cases "v = 0")
    case False
    let ?b = "of_nat v AND 0x7f OR 0x80 :: byte"
    have b: "unat (?b AND 0x7f) = v mod 128" "?b AND 0x80 \<noteq> 0" "?b = 0x80 \<longleftrightarrow> v mod 128 = 0"
      using byte_high [of "of_nat v"] by (simp_all add: unat_of_nat_mod mod_256_128)
    have "oidLoop (base128 (v div 128) [] @ ?b # bs) arcs 0 = oidLoop (?b # bs) arcs (v div 128)"
      using less.prems False by (intro less.IH) auto
    moreover have "oidLoop (?b # bs) arcs (v div 128) = oidLoop bs arcs v"
    proof -
      have ne: "(v div 128 = 0 \<and> ?b = 0x80) = False" using False b(3) by (metis mult_0_right add_0 mult_div_mod_eq)
      have v: "v div 128 * 128 + v mod 128 = v" by simp
      show ?thesis unfolding oidLoop.simps ne b(1) Let_def v using less.prems b(2) by simp
    qed
    ultimately show ?thesis using False by (simp add: base128_snoc)
  qed (simp add: base128.simps)
qed

definition pushArc :: "nat list \<Rightarrow> nat \<Rightarrow> nat list" where
  "pushArc arcs v = (if arcs = [] then [if v < 80 then v div 40 else 2, if v < 80 then v mod 40 else v - 80] else arcs @ [v])"

lemma oidLoop_arc: "a < 2 ^ 46 \<Longrightarrow> oidLoop (arcBytes (Some a) @ bs) arcs 0 = oidLoop bs (pushArc arcs a) 0"
proof -
  assume a: "a < 2 ^ 46"
  let ?b = "of_nat a AND 0x7f :: byte"
  have b: "unat (?b AND 0x7f) = a mod 128" "?b AND 0x80 = 0" "?b \<noteq> 0x80"
    using byte_low [of "of_nat a"] byte_low [of "of_nat a AND 0x7f"] by (auto simp: unat_of_nat_mod mod_256_128 and.assoc)
  have "oidLoop (arcBytes (Some a) @ bs) arcs 0 = oidLoop (base128 (a div 128) [] @ ?b # bs) arcs 0"
    by (simp add: arcBytes_def base128_acc [of _ "[?b]"])
  also have "\<dots> = oidLoop (?b # bs) arcs (a div 128)" using a by (intro oidLoop_prefix) auto
  also have "\<dots> = oidLoop bs (pushArc arcs a) 0" using a b by (simp add: Let_def pushArc_def)
  finally show ?thesis .
qed

lemma oidLoop_arcs: "\<forall>a\<in>set as. a < 2 ^ 46 \<Longrightarrow> arcs \<noteq> [] \<Longrightarrow> oidLoop (concat (map (arcBytes \<circ> Some) as)) arcs 0 = Inr (arcs @ as)"
  by (induction as arbitrary: arcs) (simp_all add: oidLoop_arc pushArc_def)

text \<open>Identifiers whose first two arcs fit into one byte without its top bit.\<close>

definition validArcs :: "nat list \<Rightarrow> bool" where
  "validArcs arcs = (case arcs of a # b # as \<Rightarrow> (a < 2 \<and> b < 40 \<or> a = 2 \<and> b < 48) \<and> list_all (\<lambda>a. a < 2 ^ 46) as | _ \<Rightarrow> False)"

definition oidTree :: "nat list \<Rightarrow> derTree" where
  "oidTree arcs = Prim TAG_OID (of_nat (40 * arcs ! 0 + arcs ! 1) # concat (map (arcBytes \<circ> Some) (drop 2 arcs)))"

lemma derOid_tree: "validArcs arcs \<Longrightarrow> derOid (dotted arcs) = encodeTree (oidTree arcs)"
  by (cases arcs rule: remdups_adj.cases)
    (auto simp: validArcs_def derOid_def arcs_of_dotted oidTree_def Let_def)

lemma decodeOid_tree:
  assumes "validArcs arcs"
  shows "decodeOid (nodeOf (oidTree arcs)) = Inr (dotted arcs)"
proof -
  obtain a b as where arcs: "arcs = a # b # as" and ab: "a < 2 \<and> b < 40 \<or> a = 2 \<and> b < 48" and as: "list_all (\<lambda>a. a < 2 ^ 46) as"
    using assms by (auto simp: validArcs_def split: list.splits)
  have v: "40 * a + b < 128" using ab by auto
  have "arcBytes (Some (40 * a + b)) = [of_nat (40 * a + b)]"
  proof -
    have "unat (of_nat (40 * a + b) AND 0x7f :: byte) = unat (of_nat (40 * a + b) :: byte)" using v byte_low [of "of_nat (40 * a + b)"] by (simp add: unat_of_nat_mod del: of_nat_add of_nat_mult)
    then have "of_nat (40 * a + b) AND 0x7f = (of_nat (40 * a + b) :: byte)" by (simp only: word_unat_eq_iff)
    then show ?thesis using v by (simp add: arcBytes_def base128.simps)
  qed
  then have "oidLoop (of_nat (40 * a + b) # concat (map (arcBytes \<circ> Some) as)) [] 0 = oidLoop (concat (map (arcBytes \<circ> Some) as)) (pushArc [] (40 * a + b)) 0"
    using oidLoop_arc [of "40 * a + b" _ "[]"] v by simp
  moreover have "pushArc [] (40 * a + b) = [a, b]" using ab by (auto simp: pushArc_def)
  moreover have "oidLoop (concat (map (arcBytes \<circ> Some) as)) [a, b] 0 = Inr arcs" using as arcs oidLoop_arcs [of as "[a, b]"] by (simp add: list_all_iff)
  ultimately show ?thesis by (simp add: decodeOid_def oidTree_def expectTag_def arcs dotted_def)
qed

section \<open>Reading and writing trees\<close>

fun tagOf :: "derTree \<Rightarrow> byte" where
  "tagOf (Prim t c) = t"
| "tagOf (Constr t ts) = t"

fun contentOf :: "derTree \<Rightarrow> bytes" where
  "contentOf (Prim t c) = c"
| "contentOf (Constr t ts) = concat (map encodeTree ts)"

fun subtrees :: "derTree \<Rightarrow> derTree list" where
  "subtrees (Prim t c) = []"
| "subtrees (Constr t ts) = ts"

lemma nodeOf_sel [simp]: "der_tag (nodeOf t) = tagOf t" "der_content (nodeOf t) = contentOf t" "der_children (nodeOf t) = map nodeOf (subtrees t)"
  by (cases t; simp)+

lemma childAt_nodeOf: "childAt (nodeOf t) i = (if i < length (subtrees t) then Some (nodeOf (subtrees t ! i)) else None)"
  by (simp add: childAt_def)

lemma child_nodeOf: "child (nodeOf t) i = (if i < length (subtrees t) then Inr (nodeOf (subtrees t ! i)) else Inl DerError)"
  by (simp add: child_def childAt_nodeOf)

lemma expectTag_nodeOf: "expectTag (Some (nodeOf t)) tag = (if tagOf t = tag then Inr (nodeOf t) else Inl DerError)"
  by (simp add: expectTag_def)

lemma tagOf_oidTree [simp]: "tagOf (oidTree arcs) = TAG_OID" "subtrees (oidTree arcs) = []"
  by (simp_all add: oidTree_def)

lemma tagOf_integerTree [simp]: "tagOf (integerTree bs) = TAG_INTEGER" "subtrees (integerTree bs) = []"
  by (simp_all add: integerTree_def Let_def)

lemma derSeq_tree: "derSeq (map encodeTree ts) = encodeTree (Constr TAG_SEQUENCE ts)"
  by (simp add: derSeq_def)

lemma derSet_tree: "derSet (map encodeTree ts) = encodeTree (Constr TAG_SET ts)"
  by (simp add: derSet_def)

lemma derOctets_tree: "derOctets b = encodeTree (Prim TAG_OCTET_STRING b)"
  by (simp add: derOctets_def)

lemma derNull_tree: "derNull = encodeTree (Prim TAG_NULL [])"
  by (simp add: derNull_def)

lemma derBool_tree: "derBool v = encodeTree (Prim TAG_BOOLEAN [if v then 0xff else 0])"
  by (simp add: derBool_def)

lemma derIntegerOf_tree: "derIntegerOf v = encodeTree (integerTree (let a = beBytes v [] in if a \<noteq> [] then a else [0]))"
  by (simp add: derIntegerOf_def derInteger_tree)

text \<open>Well-formedness from an upper bound of the sizes.\<close>

fun treeBound :: "derTree \<Rightarrow> nat" where
  "treeBound (Prim t c) = length c + 6"
| "treeBound (Constr t ts) = sum_list (map treeBound ts) + 6"

fun wfTags :: "nat \<Rightarrow> derTree \<Rightarrow> bool" where
  "wfTags d (Prim t c) = (d \<le> MAX_DEPTH \<and> tagOk t \<and> t AND 0x20 = 0)"
| "wfTags d (Constr t ts) = (d \<le> MAX_DEPTH \<and> tagOk t \<and> t AND 0x20 \<noteq> 0 \<and> (\<forall>x\<in>set ts. wfTags (d + 1) x))"

lemma length_tlv_le: "length c < 2 ^ 32 \<Longrightarrow> length (tlv t c) \<le> length c + 6"
  using lengthBytes [of "length c"] by (auto simp: tlv_def Let_def)

lemma length_encodeTrees:
  assumes "\<And>x. x \<in> set ts \<Longrightarrow> length (encodeTree x) \<le> treeBound x"
  shows "length (concat (map encodeTree ts)) \<le> sum_list (map treeBound ts)"
  using assms
proof (induction ts)
  case (Cons t ts)
  have "length (encodeTree t) \<le> treeBound t" by (rule Cons.prems) simp
  moreover have "length (concat (map encodeTree ts)) \<le> sum_list (map treeBound ts)" by (rule Cons.IH, rule Cons.prems) simp
  ultimately show ?case by simp
qed simp

lemma treeBound_mem: "x \<in> set ts \<Longrightarrow> treeBound x \<le> sum_list (map treeBound ts)"
  by (induction ts) auto

lemma length_encodeTree_le: "treeBound t < 2 ^ 32 \<Longrightarrow> length (encodeTree t) \<le> treeBound t"
proof (induction t)
  case (Prim t c)
  then show ?case using length_tlv_le [of c t] by simp
next
  case (Constr t ts)
  have "length (encodeTree x) \<le> treeBound x" if x: "x \<in> set ts" for x
    by (rule Constr.IH [OF x]) (use Constr.prems treeBound_mem [OF x] in simp)
  then have "length (concat (map encodeTree ts)) \<le> sum_list (map treeBound ts)" by (rule length_encodeTrees)
  then show ?case using Constr.prems length_tlv_le [of "concat (map encodeTree ts)" t] by simp
qed

lemma wfTree_bound: "wfTags d t \<Longrightarrow> treeBound t < 2 ^ 32 \<Longrightarrow> wfTree d t"
proof (induction t arbitrary: d)
  case (Constr t ts)
  have x: "treeBound x < 2 ^ 32" if "x \<in> set ts" for x using treeBound_mem [OF that] Constr.prems(2) by simp
  have "wfTree (d + 1) x" if "x \<in> set ts" for x using Constr.IH [OF that] Constr.prems(1) that x by simp
  moreover have "length (concat (map encodeTree ts)) < 2 ^ 32"
    using length_encodeTrees [of ts] length_encodeTree_le x Constr.prems(2) by fastforce
  ultimately show ?case using Constr.prems(1) by simp
qed simp

lemma parseDer_tree: "wfTags 0 t \<Longrightarrow> treeBound t < 2 ^ 32 \<Longrightarrow> parseDer (encodeTree t) = Inr (nodeOf t)"
  by (simp add: parseDer_encodeTree wfTree_bound)

lemma treeBound_integerTree: "treeBound (integerTree bs) \<le> length bs + 7"
proof -
  have "length (stripZeros bs) \<le> length bs" by (induction bs rule: stripZeros.induct) auto
  then show ?thesis by (simp add: integerTree_def Let_def)
qed

lemma wfTags_leaf [simp]: "wfTags d (integerTree bs) = (d \<le> MAX_DEPTH)" "wfTags d (oidTree arcs) = (d \<le> MAX_DEPTH)"
  by (simp_all add: integerTree_def oidTree_def Let_def tagOk_def TAG_INTEGER_def TAG_OID_def)

end
