(* ===== verification/Timestamp.thy ===== *)
theory Timestamp
  imports Status Der "HOL-Library.Code_Target_Nat"
begin

text \<open>
  \<^verbatim>\<open>src/src/platform/timestamp.ts\<close>: RFC 3161 requests and the offline verification of tokens.  Certificates, hashes and signature
  verification are those of \<^verbatim>\<open>node:crypto\<close>: parameters in the record \<open>tsa_env\<close> (argument \<open>X\<close>) beside the \<open>env\<close> of the other
  components.  Display texts, limitations and the printed path of a chain are left out.
\<close>

unbundle bit_operations_syntax

section \<open>node:crypto\<close>

record X509 =
  x_raw :: bytes
  x_subject :: string
  x_keyUsage :: "string list option"
  x_validFrom :: string
  x_validTo :: string
  x_ca :: bool
  x_fingerprint256 :: string

text \<open>The constructor of \<^verbatim>\<open>X509Certificate\<close>, its \<^verbatim>\<open>checkIssued\<close> and \<^verbatim>\<open>verify\<close> (with the public key of a second certificate),
  \<^verbatim>\<open>crypto.verify\<close> with the public key of a certificate, SHA-512 and \<^verbatim>\<open>toLowerCase\<close>.\<close>

record tsa_env =
  x509 :: "bytes \<Rightarrow> X509 res"
  checkIssued :: "X509 \<Rightarrow> X509 \<Rightarrow> bool"
  verifyIssued :: "X509 \<Rightarrow> X509 \<Rightarrow> bool res"
  cryptoVerify :: "string \<Rightarrow> bytes \<Rightarrow> X509 \<Rightarrow> bytes \<Rightarrow> bool res"
  sha512 :: "bytes \<Rightarrow> bytes"
  lower_case :: "string \<Rightarrow> string"

definition OID_sha256 :: string where "OID_sha256 = ''2.16.840.1.101.3.4.2.1''"
definition OID_sha384 :: string where "OID_sha384 = ''2.16.840.1.101.3.4.2.2''"
definition OID_sha512 :: string where "OID_sha512 = ''2.16.840.1.101.3.4.2.3''"
definition OID_sha1 :: string where "OID_sha1 = ''1.3.14.3.2.26''"
definition OID_signedData :: string where "OID_signedData = ''1.2.840.113549.1.7.2''"
definition OID_tstInfo :: string where "OID_tstInfo = ''1.2.840.113549.1.9.16.1.4''"
definition OID_contentType :: string where "OID_contentType = ''1.2.840.113549.1.9.3''"
definition OID_messageDigest :: string where "OID_messageDigest = ''1.2.840.113549.1.9.4''"
definition OID_signingCertificate :: string where "OID_signingCertificate = ''1.2.840.113549.1.9.16.2.12''"
definition OID_signingCertificateV2 :: string where "OID_signingCertificateV2 = ''1.2.840.113549.1.9.16.2.47''"
definition OID_rsassaPss :: string where "OID_rsassaPss = ''1.2.840.113549.1.1.10''"
definition OID_extKeyUsage :: string where "OID_extKeyUsage = ''2.5.29.37''"
definition OID_timeStamping :: string where "OID_timeStamping = ''1.3.6.1.5.5.7.3.8''"

definition RSA_OIDS :: "string list" where
  "RSA_OIDS = [''1.2.840.113549.1.1.1'', ''1.2.840.113549.1.1.11'', ''1.2.840.113549.1.1.12'', ''1.2.840.113549.1.1.13'']"

definition EC_OIDS :: "string list" where
  "EC_OIDS = [''1.2.840.10045.4.3.2'', ''1.2.840.10045.4.3.3'', ''1.2.840.10045.4.3.4'']"

definition HASH_BY_OID :: "string \<Rightarrow> string option" where
  "HASH_BY_OID = map_of [(OID_sha256, ''sha256''), (OID_sha384, ''sha384''), (OID_sha512, ''sha512''), (OID_sha1, ''sha1'')]"

definition createHash :: "tsa_env \<Rightarrow> env \<Rightarrow> string \<Rightarrow> bytes \<Rightarrow> bytes" where
  "createHash X P name = (if name = ''sha256'' then sha256 P else if name = ''sha384'' then sha384 P
     else if name = ''sha512'' then sha512 X else sha1 P)"

section \<open>Requests\<close>

record TimestampRequest =
  tq_der :: bytes
  tq_nonce :: string
  tq_digest :: bytes

text \<open>\<open>rnd\<close> is the value of \<^verbatim>\<open>randomBytes(8)\<close>.  The first byte of an empty nonce is undefined, which has no sign bit.\<close>

definition createTimestampRequest :: "bytes \<Rightarrow> bytes option \<Rightarrow> string option \<Rightarrow> bytes \<Rightarrow> TimestampRequest res" where
  "createTimestampRequest digest nonceOpt policy rnd =
     (if length digest \<noteq> 32 then Inl (Error ''digest'')
      else let nonce = (case nonceOpt of Some n \<Rightarrow> n | None \<Rightarrow> rnd);
               nonceBytes = (if nonce \<noteq> [] \<and> nonce ! 0 AND 0x80 \<noteq> 0 then 0 # nonce else nonce);
               der = derSeq ([derIntegerOf 1,
                 derSeq [derSeq [derOid OID_sha256, derNull], derOctets digest]]
                 @ (case policy of Some p \<Rightarrow> if p \<noteq> [] then [derOid p] else [] | None \<Rightarrow> [])
                 @ [derInteger nonceBytes, derBool True])
           in rbind (parseDer (derInteger nonceBytes)) (\<lambda>n. rbind (integerBytes n) (\<lambda>b.
                Inr \<lparr>tq_der = der, tq_nonce = toHex b, tq_digest = digest\<rparr>)))"

text \<open>The answer of the authority is an argument: the request failed, or its status is good or bad, and the body.\<close>

definition requestTimestamp :: "bytes \<Rightarrow> bytes \<Rightarrow> (bool \<times> bytes) res \<Rightarrow> (bytes \<times> TimestampRequest) res" where
  "requestTimestamp digest rnd answer = rbind (createTimestampRequest digest None None rnd) (\<lambda>request.
     rbind answer (\<lambda>(ok, body). if \<not> ok then Inl (Error ''TSA'') else Inr (body, request)))"

section \<open>Reports\<close>

record TsaTrustAnchor =
  ta_name :: string
  ta_der :: bytes

record TimestampReport =
  ts_outcome :: Outcome
  ts_checks :: Checks
  ts_reasons :: "string list"
  ts_gen_time :: "string option"
  ts_serial :: "string option"
  ts_policy :: "string option"
  ts_tsa :: "(string \<times> string) option"
  ts_anchor :: "string option"

record VerifyTimestampOptions =
  vo_digest :: bytes
  vo_trustAnchors :: "TsaTrustAnchor list"
  vo_nonce :: "string option"
  vo_intermediates :: "bytes list"
  vo_maxBytes :: "nat option"

definition NOT_CHECKED :: Check where
  "NOT_CHECKED = check NotChecked ''prerequisite_failed''"

definition TIMESTAMP_CHECKS :: "string list" where
  "TIMESTAMP_CHECKS = [''status'', ''imprint'', ''nonce'', ''signed_attrs'', ''signature'', ''signer_certificate'', ''chain'']"

section \<open>Parsing a token\<close>

record ParsedToken =
  pt_statusValue :: "nat option"
  pt_signedData :: DerNode
  pt_tstInfoBytes :: bytes
  pt_tstInfo :: DerNode
  pt_certs :: "bytes list"
  pt_signerInfo :: DerNode

definition childTagged :: "DerNode \<Rightarrow> nat \<Rightarrow> byte \<Rightarrow> DerNode res" where
  "childTagged n i tag = rbind (child n i) (\<lambda>c. expectTag (Some c) tag)"

definition tagAt :: "DerNode \<Rightarrow> nat \<Rightarrow> byte option" where
  "tagAt n i = map_option der_tag (childAt n i)"

definition oidAt :: "DerNode \<Rightarrow> nat \<Rightarrow> string res" where
  "oidAt n i = rbind (child n i) decodeOid"

definition guardM :: "bool \<Rightarrow> unit res" where
  "guardM b = (if b then Inr () else Inl DerError)"

definition parseContentInfo :: "nat option \<Rightarrow> DerNode \<Rightarrow> ParsedToken res" where
  "parseContentInfo statusValue contentInfo =
     rbind (oidAt contentInfo 0) (\<lambda>ty. rbind (guardM (ty = OID_signedData)) (\<lambda>_.
     rbind (childTagged contentInfo 1 0xa0) (\<lambda>content. rbind (childTagged content 0 TAG_SEQUENCE) (\<lambda>signedData.
     rbind (rbind (child signedData 0) integerValue) (\<lambda>version. rbind (guardM (version = 3)) (\<lambda>_.
     rbind (childTagged signedData 1 TAG_SET) (\<lambda>_.
     rbind (childTagged signedData 2 TAG_SEQUENCE) (\<lambda>encap.
     rbind (oidAt encap 0) (\<lambda>ety. rbind (guardM (ety = OID_tstInfo)) (\<lambda>_.
     rbind (childTagged encap 1 0xa0) (\<lambda>wrapped. rbind (childTagged wrapped 0 TAG_OCTET_STRING) (\<lambda>eContent.
     rbind (rbind (parseDer (der_content eContent)) (\<lambda>t. expectTag (Some t) TAG_SEQUENCE)) (\<lambda>tstInfo.
       let certs = (if tagAt signedData 3 = Some 0xa0
                    then map der_raw (filter (\<lambda>c. der_tag c = TAG_SEQUENCE) (der_children (der_children signedData ! 3))) else []);
           i = (if tagAt signedData 3 = Some 0xa0 then 4 else 3);
           j = (if tagAt signedData i = Some 0xa1 then i + 1 else i) in
       rbind (childTagged signedData j TAG_SET) (\<lambda>signerInfos. rbind (guardM (length (der_children signerInfos) = 1)) (\<lambda>_.
       rbind (expectTag (childAt signerInfos 0) TAG_SEQUENCE) (\<lambda>signerInfo.
         Inr \<lparr>pt_statusValue = statusValue, pt_signedData = signedData, pt_tstInfoBytes = der_content eContent,
              pt_tstInfo = tstInfo, pt_certs = certs, pt_signerInfo = signerInfo\<rparr>))))))))))))))))"

definition parseToken :: "bytes \<Rightarrow> ParsedToken res" where
  "parseToken bs = rbind (rbind (parseDer bs) (\<lambda>r. expectTag (Some r) TAG_SEQUENCE)) (\<lambda>root.
     if tagAt root 0 = Some TAG_SEQUENCE then
       rbind (rbind (child (der_children root ! 0) 0) integerValue) (\<lambda>s.
         case childAt root 1 of
           None \<Rightarrow> Inr \<lparr>pt_statusValue = Some s, pt_signedData = root, pt_tstInfoBytes = [], pt_tstInfo = root, pt_certs = [], pt_signerInfo = root\<rparr>
         | Some ci \<Rightarrow> rbind (expectTag (Some ci) TAG_SEQUENCE) (parseContentInfo (Some s)))
     else parseContentInfo None root)"

section \<open>Reading what was signed\<close>

definition algParamsAbsentOrNull :: "DerNode \<Rightarrow> unit res" where
  "algParamsAbsentOrNull alg = rbind (expectTag (Some alg) TAG_SEQUENCE) (\<lambda>alg.
     guardM (\<not> (length (der_children alg) > 2
       \<or> (case childAt alg 1 of None \<Rightarrow> False | Some c \<Rightarrow> der_tag c \<noteq> TAG_NULL \<or> der_content c \<noteq> []))))"

definition normHex :: "tsa_env \<Rightarrow> string \<Rightarrow> string" where
  "normHex X h = (let s = dropWhile (\<lambda>c. c = CHR ''0'') (lower_case X h) in if s = [] then ''0'' else s)"

definition fp256 :: "env \<Rightarrow> bytes \<Rightarrow> string" where
  "fp256 P der = toHex (sha256 P der)"

record TstFields =
  tf_policy :: string
  tf_miAlg :: string
  tf_miHash :: bytes
  tf_serial :: string
  tf_genTimeMs :: int
  tf_nonce :: "string option"

definition readTstInfo :: "env \<Rightarrow> DerNode \<Rightarrow> TstFields res" where
  "readTstInfo P t =
     rbind (oidAt t 1) (\<lambda>policy.
     rbind (childTagged t 2 TAG_SEQUENCE) (\<lambda>mi.
     rbind (rbind (childTagged mi 0 TAG_SEQUENCE) (\<lambda>alg. oidAt alg 0)) (\<lambda>miAlg.
     rbind (childTagged mi 1 TAG_OCTET_STRING) (\<lambda>miHash.
     rbind (rbind (child t 3) integerBytes) (\<lambda>serial.
     rbind (rbind (childTagged t 4 TAG_GENERALIZED_TIME) (decodeTime P)) (\<lambda>genTimeMs.
     rbind (case find (\<lambda>c. der_tag c = TAG_INTEGER) (drop 5 (der_children t)) of
              None \<Rightarrow> Inr None | Some n \<Rightarrow> rbind (integerBytes n) (\<lambda>b. Inr (Some (toHex b)))) (\<lambda>nonce.
       Inr \<lparr>tf_policy = policy, tf_miAlg = miAlg, tf_miHash = der_content miHash, tf_serial = toHex serial,
            tf_genTimeMs = genTimeMs, tf_nonce = nonce\<rparr>)))))))"

record SignerFields =
  sf_sid :: DerNode
  sf_digestAlg :: string
  sf_signedAttrs :: DerNode
  sf_sigAlg :: string
  sf_signature :: bytes

definition readSignerInfo :: "ParsedToken \<Rightarrow> SignerFields res" where
  "readSignerInfo p =
     (let si = pt_signerInfo p in
      rbind (child si 1) (\<lambda>sid.
      rbind (rbind (childTagged si 2 TAG_SEQUENCE) (\<lambda>alg. oidAt alg 0)) (\<lambda>digestAlg.
      rbind (childTagged si 3 0xa0) (\<lambda>signedAttrs.
      rbind (childTagged si 4 TAG_SEQUENCE) (\<lambda>sigAlgId.
      rbind (oidAt sigAlgId 0) (\<lambda>sigAlg.
      rbind (childTagged si 5 TAG_OCTET_STRING) (\<lambda>signature.
      rbind (rbind (child si 0) integerValue) (\<lambda>siVersion.
      rbind (guardM (if der_tag sid = TAG_SEQUENCE then siVersion = 1 else if der_tag sid = 0x80 then siVersion = 3 else False)) (\<lambda>_.
      rbind (rbind (child si 2) algParamsAbsentOrNull) (\<lambda>_.
      rbind (algParamsAbsentOrNull sigAlgId) (\<lambda>_.
      rbind (mapM (\<lambda>a. rbind (algParamsAbsentOrNull a) (\<lambda>_. oidAt a 0)) (der_children (der_children (pt_signedData p) ! 1))) (\<lambda>listed.
      rbind (guardM (digestAlg \<in> set listed)) (\<lambda>_.
        Inr \<lparr>sf_sid = sid, sf_digestAlg = digestAlg, sf_signedAttrs = signedAttrs, sf_sigAlg = sigAlg,
             sf_signature = der_content signature\<rparr>)))))))))))))"

fun readAttrs :: "DerNode list \<Rightarrow> (string \<times> DerNode) list \<Rightarrow> (string \<times> DerNode) list res" where
  "readAttrs [] attrs = Inr attrs"
| "readAttrs (a # as) attrs =
     rbind (oidAt a 0) (\<lambda>aid. rbind (guardM (aid \<notin> fst ` set attrs)) (\<lambda>_.
     rbind (childTagged a 1 TAG_SET) (\<lambda>vs. readAttrs as (attrs @ [(aid, vs)]))))"

text \<open>What \<^verbatim>\<open>signingCertificate(V2)\<close> says of the signer's certificate: the hash algorithm and the hash; \<open>None\<close> without the attribute.\<close>

definition essCertId :: "(string \<times> DerNode) list \<Rightarrow> (string \<times> bytes) option res" where
  "essCertId attrs =
     (let v2 = map_of attrs OID_signingCertificateV2; v1 = map_of attrs OID_signingCertificate in
      case (case v2 of Some a \<Rightarrow> Some a | None \<Rightarrow> v1) of
        None \<Rightarrow> Inr None
      | Some a \<Rightarrow>
          rbind (childTagged a 0 TAG_SEQUENCE) (\<lambda>sc. rbind (childTagged sc 0 TAG_SEQUENCE) (\<lambda>essSeq.
          rbind (childTagged essSeq 0 TAG_SEQUENCE) (\<lambda>first.
            if v2 \<noteq> None then
              (if tagAt first 0 = Some TAG_SEQUENCE then
                 rbind (oidAt (der_children first ! 0) 0) (\<lambda>h.
                   case HASH_BY_OID h of
                     None \<Rightarrow> Inl DerError
                   | Some name \<Rightarrow> rbind (childTagged first 1 TAG_OCTET_STRING) (\<lambda>c. Inr (Some (name, der_content c))))
               else rbind (childTagged first 0 TAG_OCTET_STRING) (\<lambda>c. Inr (Some (''sha256'', der_content c))))
            else rbind (childTagged first 0 TAG_OCTET_STRING) (\<lambda>c. Inr (Some (''sha1'', der_content c)))))))"

definition findSigner :: "tsa_env \<Rightarrow> env \<Rightarrow> (string \<times> bytes) option \<Rightarrow> bytes list \<Rightarrow> bytes option" where
  "findSigner X P ess pool = (case ess of None \<Rightarrow> None | Some (alg, certHash) \<Rightarrow> find (\<lambda>c. createHash X P alg c = certHash) pool)"

section \<open>The checks\<close>

definition statusCheck :: "nat option \<Rightarrow> Check" where
  "statusCheck s = (if s = None \<or> s = Some 0 \<or> s = Some 1 then check Pass ''granted'' else check Fail ''tsa_rejected'')"

definition imprintCheck :: "TstFields \<Rightarrow> VerifyTimestampOptions \<Rightarrow> Check" where
  "imprintCheck tf ro = (if tf_miAlg tf \<noteq> OID_sha256 then check Fail ''unsupported_algorithm''
     else if tf_miHash tf = vo_digest ro then check Pass ''imprint_matches'' else check Fail ''imprint_mismatch'')"

definition nonceCheck :: "tsa_env \<Rightarrow> TstFields \<Rightarrow> VerifyTimestampOptions \<Rightarrow> Check" where
  "nonceCheck X tf ro = (case vo_nonce ro of
       None \<Rightarrow> check NotApplicable ''no_nonce_expected''
     | Some n \<Rightarrow> (case tf_nonce tf of
           Some m \<Rightarrow> if normHex X m = normHex X n then check Pass ''nonce_matches'' else check Fail ''nonce_mismatch''
         | None \<Rightarrow> check Fail ''nonce_mismatch''))"

definition usableHash :: "string \<Rightarrow> bool" where
  "usableHash digestAlg = (case HASH_BY_OID digestAlg of None \<Rightarrow> False | Some h \<Rightarrow> h \<noteq> ''sha1'')"

definition signedAttrsCheck :: "tsa_env \<Rightarrow> env \<Rightarrow> SignerFields \<Rightarrow> (string \<times> DerNode) list \<Rightarrow> bytes \<Rightarrow> bool \<Rightarrow> Check res" where
  "signedAttrsCheck X P sf attrs tstInfoBytes bound =
     (if \<not> usableHash (sf_digestAlg sf) then Inr (check Fail ''unsupported_algorithm'')
      else case map_of attrs OID_contentType of
        None \<Rightarrow> Inr (check Fail ''content_type_mismatch'')
      | Some ct \<Rightarrow> rbind (oidAt ct 0) (\<lambda>ty.
          if ty \<noteq> OID_tstInfo then Inr (check Fail ''content_type_mismatch'')
          else case map_of attrs OID_messageDigest of
            None \<Rightarrow> Inr (check Fail ''message_digest_mismatch'')
          | Some md \<Rightarrow> rbind (childTagged md 0 TAG_OCTET_STRING) (\<lambda>d.
              if der_content d \<noteq> createHash X P (the (HASH_BY_OID (sf_digestAlg sf))) tstInfoBytes then Inr (check Fail ''message_digest_mismatch'')
              else if \<not> bound then Inr (check Fail ''signer_certificate_unbound'')
              else Inr (check Pass ''attributes_bound''))))"

text \<open>An issuer and serial number in the \<^verbatim>\<open>sid\<close> must be those of the certificate.\<close>

definition sidNames :: "DerNode \<Rightarrow> bytes \<Rightarrow> bool res" where
  "sidNames sid signerDer =
     (if der_tag sid \<noteq> TAG_SEQUENCE then Inr True
      else rbind (rbind (parseDer signerDer) (\<lambda>c. child c 0)) (\<lambda>tbs.
        let offset = (if tagAt tbs 0 = Some 0xa0 then 1 else 0) in
        rbind (rbind (child tbs offset) integerBytes) (\<lambda>certSerial.
        rbind (child tbs (offset + 2)) (\<lambda>certIssuer.
        rbind (child sid 0) (\<lambda>issuer.
          if der_raw issuer \<noteq> der_raw certIssuer then Inr False
          else rbind (rbind (child sid 1) integerBytes) (\<lambda>serial. Inr (serial = certSerial)))))))"

text \<open>The signature is over the signed attributes with their tag replaced by that of a SET.\<close>

definition signedBytes :: "DerNode \<Rightarrow> bytes" where
  "signedBytes n = (der_raw n)[0 := TAG_SET]"

definition tokenSignatureCheck :: "tsa_env \<Rightarrow> SignerFields \<Rightarrow> X509 \<Rightarrow> Check" where
  "tokenSignatureCheck X sf signer =
     (if sf_sigAlg sf = OID_rsassaPss then check Fail ''unsupported_algorithm''
      else if \<not> usableHash (sf_digestAlg sf) \<or> sf_sigAlg sf \<notin> set RSA_OIDS \<and> sf_sigAlg sf \<notin> set EC_OIDS then check Fail ''unsupported_algorithm''
      else if catching False (cryptoVerify X (the (HASH_BY_OID (sf_digestAlg sf))) (signedBytes (sf_signedAttrs sf)) signer (sf_signature sf))
      then check Pass ''signature_valid'' else check Fail ''signature_invalid'')"

text \<open>A validity date that cannot be read is NaN and excludes nothing here.\<close>

definition signerCertificateCheck :: "env \<Rightarrow> X509 \<Rightarrow> (string \<times> CertExtension) list \<Rightarrow> int \<Rightarrow> Check" where
  "signerCertificateCheck P signer exts genTimeMs =
     (let ekus = (case x_keyUsage signer of Some us \<Rightarrow> us | None \<Rightarrow> []) in
      case map_of exts OID_extKeyUsage of
        None \<Rightarrow> check Fail ''not_a_tsa_certificate''
      | Some eku \<Rightarrow>
          if \<not> ext_critical eku then check Fail ''not_a_tsa_certificate''
          else if length ekus \<noteq> 1 \<or> ekus ! 0 \<noteq> OID_timeStamping then check Fail ''not_a_tsa_certificate''
          else if t_lt (Some genTimeMs) (date_parse P (x_validFrom signer)) \<or> t_gt (Some genTimeMs) (date_parse P (x_validTo signer))
          then check Fail ''certificate_expired'' else check Pass ''tsa_certificate'')"

section \<open>The chain\<close>

record PinnedAnchor =
  pa_name :: string
  pa_cert :: X509
  pa_fp :: string

definition pinAnchor :: "tsa_env \<Rightarrow> env \<Rightarrow> TsaTrustAnchor \<Rightarrow> PinnedAnchor res" where
  "pinAnchor X P a = rbind (x509 X (ta_der a)) (\<lambda>c. Inr \<lparr>pa_name = ta_name a, pa_cert = c, pa_fp = fp256 P (ta_der a)\<rparr>)"

definition validAt :: "env \<Rightarrow> int \<Rightarrow> X509 \<Rightarrow> bool" where
  "validAt P t c = (t_ge (Some t) (date_parse P (x_validFrom c)) \<and> t_ge (date_parse P (x_validTo c)) (Some t))"

text \<open>\<^verbatim>\<open>Array.prototype.find\<close> with a callback that may throw.\<close>

fun findM :: "('a \<Rightarrow> bool res) \<Rightarrow> 'a list \<Rightarrow> 'a option res" where
  "findM f [] = Inr None"
| "findM f (x # xs) = rbind (f x) (\<lambda>b. if b then Inr (Some x) else findM f xs)"

definition issuedBy :: "tsa_env \<Rightarrow> X509 \<Rightarrow> X509 \<Rightarrow> bool res" where
  "issuedBy X c i = (if checkIssued X c i then verifyIssued X c i else Inr False)"

text \<open>The rounds of the loop that are left; it starts with eight.\<close>

fun issuerLoop :: "tsa_env \<Rightarrow> env \<Rightarrow> X509 list \<Rightarrow> PinnedAnchor list \<Rightarrow> int \<Rightarrow> nat \<Rightarrow> X509 \<Rightarrow> (Check \<times> string option) res" where
  "issuerLoop X P pool pinned t 0 current = Inr (check Fail ''chain_invalid'', None)"
| "issuerLoop X P pool pinned t (Suc n) current =
     (let depth = 8 - Suc n in
      case (if depth > 0 then find (\<lambda>a. pa_fp a = fp256 P (x_raw current)) pinned else None) of
        Some self \<Rightarrow> Inr (check Pass ''chain_valid'', Some (pa_name self))
      | None \<Rightarrow> rbind (findM (\<lambda>a. issuedBy X current (pa_cert a)) pinned) (\<lambda>anchor.
          case anchor of
            Some a \<Rightarrow> if \<not> validAt P t (pa_cert a) then Inr (check Fail ''certificate_expired'', None)
                      else Inr (check Pass ''chain_valid'', Some (pa_name a))
          | None \<Rightarrow> rbind (findM (\<lambda>c. if x_fingerprint256 c \<noteq> x_fingerprint256 current then issuedBy X current c else Inr False) pool) (\<lambda>issuer.
              case issuer of
                None \<Rightarrow> Inr (check Fail ''untrusted_root'', None)
              | Some i \<Rightarrow> if \<not> x_ca i then Inr (check Fail ''chain_invalid'', None)
                          else if \<not> validAt P t i then Inr (check Fail ''certificate_expired'', None)
                          else issuerLoop X P pool pinned t n i)))"

definition buildChain :: "tsa_env \<Rightarrow> env \<Rightarrow> X509 \<Rightarrow> X509 list \<Rightarrow> TsaTrustAnchor list \<Rightarrow> int \<Rightarrow> (Check \<times> string option) res" where
  "buildChain X P leaf pool anchors t =
     (if anchors = [] then Inr (check Unknown ''no_trust_anchor'', None)
      else rbind (mapM (pinAnchor X P) anchors) (\<lambda>pinned. issuerLoop X P pool pinned t 8 leaf))"

section \<open>Verification\<close>

definition finish :: "Check list \<Rightarrow> TimestampReport \<Rightarrow> TimestampReport" where
  "finish cs extra = (let (outcome, reasons) = classifyOutcome (zip TIMESTAMP_CHECKS cs) TIMESTAMP_CHECKS
     in extra\<lparr>ts_outcome := outcome, ts_checks := zip TIMESTAMP_CHECKS cs, ts_reasons := reasons\<rparr>)"

definition malformedReport :: TimestampReport where
  "malformedReport = \<lparr>ts_outcome = Invalid, ts_checks = zip TIMESTAMP_CHECKS (check Fail ''malformed'' # replicate 6 NOT_CHECKED),
     ts_reasons = [''status: malformed''], ts_gen_time = None, ts_serial = None, ts_policy = None, ts_tsa = None, ts_anchor = None\<rparr>"

definition timedReport :: "env \<Rightarrow> TstFields \<Rightarrow> TimestampReport" where
  "timedReport P tf = malformedReport\<lparr>ts_gen_time := Some (to_iso P (tf_genTimeMs tf)), ts_serial := Some (tf_serial tf), ts_policy := Some (tf_policy tf)\<rparr>"

definition oneLine :: "string \<Rightarrow> string" where
  "oneLine s = concat (map (\<lambda>c. if c = CHR 0x0A then '', '' else [c]) s)"

definition verifyParsed :: "tsa_env \<Rightarrow> env \<Rightarrow> ParsedToken \<Rightarrow> VerifyTimestampOptions \<Rightarrow> TimestampReport res" where
  "verifyParsed X P p ro =
     (let status = statusCheck (pt_statusValue p) in
      if c_status status \<noteq> Pass then Inr (finish (status # replicate 6 NOT_CHECKED) malformedReport)
      else
        rbind (readTstInfo P (pt_tstInfo p)) (\<lambda>tf.
        rbind (readSignerInfo p) (\<lambda>sf.
        rbind (readAttrs (der_children (sf_signedAttrs sf)) []) (\<lambda>attrs.
        rbind (essCertId attrs) (\<lambda>ess.
          let imprint = imprintCheck tf ro; nonce = nonceCheck X tf ro; pool = pt_certs p @ vo_intermediates ro in
          rbind (signedAttrsCheck X P sf attrs (pt_tstInfoBytes p) (findSigner X P ess pool \<noteq> None)) (\<lambda>signed_attrs.
          case findSigner X P ess pool of
            None \<Rightarrow> Inr (finish ([status, imprint, nonce, signed_attrs] @ replicate 3 NOT_CHECKED) (timedReport P tf))
          | Some signerDer \<Rightarrow>
              rbind (x509 X signerDer) (\<lambda>signer.
              rbind (sidNames (sf_sid sf) signerDer) (\<lambda>named.
              rbind (certificateExtensions signerDer) (\<lambda>exts.
              rbind (mapM (x509 X) pool) (\<lambda>certs.
              rbind (buildChain X P signer certs (vo_trustAnchors ro) (tf_genTimeMs tf)) (\<lambda>(chain, anchor).
                Inr (finish [status, imprint, nonce,
                    if named then signed_attrs else check Fail ''signer_identifier_mismatch'',
                    tokenSignatureCheck X sf signer,
                    signerCertificateCheck P signer exts (tf_genTimeMs tf), chain]
                  ((timedReport P tf)\<lparr>ts_tsa := Some (oneLine (x_subject signer), fp256 P signerDer), ts_anchor := (if anchor = Some [] then None else anchor)\<rparr>)))))))))))))"

definition verifyTimestampToken :: "tsa_env \<Rightarrow> env \<Rightarrow> bytes \<Rightarrow> VerifyTimestampOptions \<Rightarrow> TimestampReport" where
  "verifyTimestampToken X P token ro =
     (case (if length token > (case vo_maxBytes ro of Some n \<Rightarrow> n | None \<Rightarrow> 65536) then Inl DerError else parseToken token) of
        Inl _ \<Rightarrow> malformedReport
      | Inr p \<Rightarrow> catching malformedReport (verifyParsed X P p ro))"

section \<open>Helper facts\<close>

lemma find_Some_mem: "find f xs = Some x \<Longrightarrow> x \<in> set xs \<and> f x"
  by (induction xs) (auto split: if_splits)

lemma findM_Some: "findM f xs = Inr (Some x) \<Longrightarrow> x \<in> set xs \<and> f x = Inr True"
  by (induction xs) (auto simp: rbind_Inr_iff split: if_splits)

lemma issuedBy_True: "issuedBy X c i = Inr True \<longleftrightarrow> checkIssued X c i \<and> verifyIssued X c i = Inr True"
  by (simp add: issuedBy_def)

text \<open>The chains that are wanted: a certificate issued by a pinned anchor that is valid at the time, or, for an issuer on the
  way, a certificate that is pinned itself, or one issued by a valid certification authority of the pool that has a chain.\<close>

inductive anchored :: "tsa_env \<Rightarrow> env \<Rightarrow> X509 list \<Rightarrow> PinnedAnchor list \<Rightarrow> int \<Rightarrow> bool \<Rightarrow> X509 \<Rightarrow> string \<Rightarrow> bool"
  for X P pool pinned t where
  direct: "a \<in> set pinned \<Longrightarrow> checkIssued X c (pa_cert a) \<Longrightarrow> verifyIssued X c (pa_cert a) = Inr True \<Longrightarrow> validAt P t (pa_cert a)
    \<Longrightarrow> anchored X P pool pinned t isIssuer c (pa_name a)"
| pinned: "a \<in> set pinned \<Longrightarrow> pa_fp a = fp256 P (x_raw c) \<Longrightarrow> anchored X P pool pinned t True c (pa_name a)"
| issued: "i \<in> set pool \<Longrightarrow> checkIssued X c i \<Longrightarrow> verifyIssued X c i = Inr True \<Longrightarrow> x_ca i \<Longrightarrow> validAt P t i
    \<Longrightarrow> anchored X P pool pinned t True i name \<Longrightarrow> anchored X P pool pinned t isIssuer c name"

lemma issuerLoop_sound:
  "issuerLoop X P pool pinned t n c = Inr (ch, anchor) \<Longrightarrow> n \<le> 8 \<Longrightarrow> c_status ch = Pass
    \<Longrightarrow> \<exists>name. anchor = Some name \<and> anchored X P pool pinned t (n < 8) c name"
proof (induction n arbitrary: c)
  case (Suc n)
  let ?self = "if 8 - Suc n > 0 then find (\<lambda>a. pa_fp a = fp256 P (x_raw c)) pinned else None"
  show ?case
  proof (cases ?self)
    case (Some a)
    then have "Suc n < 8" "a \<in> set pinned" "pa_fp a = fp256 P (x_raw c)" by (auto simp: find_Some_iff split: if_splits)
    then show ?thesis using Suc.prems Some anchored.pinned [of a pinned P c X pool t] by (auto simp: Let_def)
  next
    case None
    then obtain r where r: "findM (\<lambda>a. issuedBy X c (pa_cert a)) pinned = Inr r"
      using Suc.prems by (auto simp: Let_def rbind_Inr_iff)
    show ?thesis
    proof (cases r)
      case (Some a)
      then have "a \<in> set pinned" "issuedBy X c (pa_cert a) = Inr True" using findM_Some [of _ pinned a] r by auto
      then show ?thesis using Suc.prems None r Some anchored.direct [of a pinned X c P t pool] by (auto simp: Let_def issuedBy_True split: if_splits)
    next
      case no: None
      let ?f = "\<lambda>i. if x_fingerprint256 i \<noteq> x_fingerprint256 c then issuedBy X c i else Inr False"
      obtain i where i: "findM ?f pool = Inr (Some i)" and x: "x_ca i" "validAt P t i" "issuerLoop X P pool pinned t n i = Inr (ch, anchor)"
        using Suc.prems None r no by (auto simp: Let_def rbind_Inr_iff split: option.splits if_splits)
      then have m: "i \<in> set pool" "checkIssued X c i" "verifyIssued X c i = Inr True" using findM_Some [OF i] by (auto simp: issuedBy_True split: if_splits)
      obtain name where "anchor = Some name" "anchored X P pool pinned t (n < 8) i name" using Suc.IH [OF x(3)] Suc.prems by auto
      then show ?thesis using m x Suc.prems anchored.issued [OF m x(1,2)] by auto
    qed
  qed
qed auto

lemma buildChain_sound:
  assumes "buildChain X P leaf pool anchors t = Inr (ch, anchor)" "c_status ch = Pass"
  obtains pinned name where "mapM (pinAnchor X P) anchors = Inr pinned" "anchor = Some name" "anchored X P pool pinned t False leaf name"
  using assms issuerLoop_sound [of X P pool _ t 8 leaf ch anchor] by (auto simp: buildChain_def rbind_Inr_iff split: if_splits)

lemma buildChain_status: "buildChain X P leaf pool anchors t = Inr (ch, anchor) \<Longrightarrow> c_status ch \<noteq> NotApplicable"
proof -
  have loop: "issuerLoop X P pool pinned t n c = Inr (ch, anchor) \<Longrightarrow> c_status ch \<noteq> NotApplicable" for pinned n c
    by (induction n arbitrary: c) (auto simp: Let_def rbind_def split: option.split_asm if_split_asm sum.split_asm)
  then show "buildChain X P leaf pool anchors t = Inr (ch, anchor) \<Longrightarrow> c_status ch \<noteq> NotApplicable"
    by (auto simp: buildChain_def rbind_Inr_iff split: if_splits)
qed

lemma finish_verified:
  assumes "length cs = 7"
  shows "ts_outcome (finish cs extra) = Verified \<longleftrightarrow> (\<forall>c\<in>set cs. c_status c \<in> {Pass, NotApplicable})"
proof -
  have names: "map fst (zip TIMESTAMP_CHECKS cs) = TIMESTAMP_CHECKS" "distinct TIMESTAMP_CHECKS" "length TIMESTAMP_CHECKS = length cs"
    using assms by (simp_all add: TIMESTAMP_CHECKS_def)
  have "set cs = snd ` set (zip TIMESTAMP_CHECKS cs)" using names(3) by (metis map_snd_zip set_map)
  moreover have "fst (classifyOutcome (zip TIMESTAMP_CHECKS cs) TIMESTAMP_CHECKS) = Verified
      \<longleftrightarrow> (\<forall>(n, c)\<in>set (zip TIMESTAMP_CHECKS cs). c_status c \<in> {Pass, NotApplicable})"
    using outcome_verified_all [of "zip TIMESTAMP_CHECKS cs"] names by simp
  ultimately show ?thesis by (simp add: finish_def case_prod_beta)
qed

lemma finish_other [simp]:
  "ts_gen_time (finish cs extra) = ts_gen_time extra" "ts_serial (finish cs extra) = ts_serial extra" "ts_anchor (finish cs extra) = ts_anchor extra"
  "ts_tsa (finish cs extra) = ts_tsa extra"
  by (simp_all add: finish_def case_prod_beta)

lemma status_pass: "c_status (statusCheck s) \<in> {Pass, NotApplicable} \<longleftrightarrow> s = None \<or> s = Some 0 \<or> s = Some 1"
  by (simp add: statusCheck_def)

lemma imprint_pass: "c_status (imprintCheck tf ro) \<in> {Pass, NotApplicable} \<longleftrightarrow> tf_miAlg tf = OID_sha256 \<and> tf_miHash tf = vo_digest ro"
  by (simp add: imprintCheck_def)

lemma nonce_pass: "c_status (nonceCheck X tf ro) \<in> {Pass, NotApplicable}
    \<longleftrightarrow> (\<forall>n. vo_nonce ro = Some n \<longrightarrow> (\<exists>m. tf_nonce tf = Some m \<and> normHex X m = normHex X n))"
  by (auto simp: nonceCheck_def split: option.splits)

lemma usableHash_iff: "usableHash d \<longleftrightarrow> (\<exists>h. HASH_BY_OID d = Some h \<and> h \<in> {''sha256'', ''sha384'', ''sha512''})"
  by (auto simp: usableHash_def HASH_BY_OID_def split: option.splits if_splits)

lemma signedAttrs_pass:
  assumes "signedAttrsCheck X P sf attrs bs bound = Inr c" "c_status c \<in> {Pass, NotApplicable}"
  obtains h ct md d where "HASH_BY_OID (sf_digestAlg sf) = Some h" "h \<in> {''sha256'', ''sha384'', ''sha512''}" "bound"
    "map_of attrs OID_contentType = Some ct" "oidAt ct 0 = Inr OID_tstInfo"
    "map_of attrs OID_messageDigest = Some md" "childTagged md 0 TAG_OCTET_STRING = Inr d" "der_content d = createHash X P h bs"
proof -
  have u: "usableHash (sf_digestAlg sf)" using assms by (auto simp: signedAttrsCheck_def split: if_splits)
  then obtain h where h: "HASH_BY_OID (sf_digestAlg sf) = Some h" "h \<in> {''sha256'', ''sha384'', ''sha512''}" unfolding usableHash_iff by blast
  obtain ct where ct: "map_of attrs OID_contentType = Some ct"
    using assms u by (cases "map_of attrs OID_contentType") (auto simp: signedAttrsCheck_def)
  obtain md where md: "map_of attrs OID_messageDigest = Some md"
    using assms u ct by (cases "map_of attrs OID_messageDigest") (auto simp: signedAttrsCheck_def rbind_Inr_iff split: if_split_asm)
  obtain ty d where ty: "oidAt ct 0 = Inr ty" and d: "childTagged md 0 TAG_OCTET_STRING = Inr d"
    using assms u ct md by (auto simp: signedAttrsCheck_def rbind_Inr_iff split: if_split_asm)
  have r: "(if ty \<noteq> OID_tstInfo then Inr (check Fail ''content_type_mismatch'')
      else if der_content d \<noteq> createHash X P h bs then Inr (check Fail ''message_digest_mismatch'')
      else if \<not> bound then Inr (check Fail ''signer_certificate_unbound'') else Inr (check Pass ''attributes_bound'')) = (Inr c :: Check res)"
    using assms(1) u ct md ty d h(1) by (simp add: signedAttrsCheck_def split: if_split_asm)
  then have "ty = OID_tstInfo" "der_content d = createHash X P h bs" "bound" using assms(2) by (auto split: if_split_asm)
  then show ?thesis using that h ct md ty d by blast
qed

lemma signature_pass: "c_status (tokenSignatureCheck X sf signer) \<in> {Pass, NotApplicable} \<Longrightarrow>
    cryptoVerify X (the (HASH_BY_OID (sf_digestAlg sf))) (signedBytes (sf_signedAttrs sf)) signer (sf_signature sf) = Inr True
    \<and> (sf_sigAlg sf \<in> set RSA_OIDS \<or> sf_sigAlg sf \<in> set EC_OIDS)"
  by (auto simp: tokenSignatureCheck_def catching_def split: if_splits sum.splits)

lemma signer_pass: "c_status (signerCertificateCheck P signer exts t) \<in> {Pass, NotApplicable} \<Longrightarrow>
    (\<exists>eku. map_of exts OID_extKeyUsage = Some eku \<and> ext_critical eku) \<and> x_keyUsage signer = Some [OID_timeStamping]
    \<and> (\<forall>f. date_parse P (x_validFrom signer) = Some f \<longrightarrow> f \<le> t) \<and> (\<forall>u. date_parse P (x_validTo signer) = Some u \<longrightarrow> t \<le> u)"
  by (cases "x_keyUsage signer") (auto simp: signerCertificateCheck_def Let_def length_Suc_conv split: option.split_asm if_split_asm)

text \<open>A signer certificate whose dates cannot be read is accepted at any time, while \<open>buildChain\<close> refuses an issuer like it.\<close>

lemma unreadable_signer_dates_accepted:
  assumes "map_of exts OID_extKeyUsage = Some eku" "ext_critical eku" "x_keyUsage signer = Some [OID_timeStamping]"
    and "date_parse P (x_validFrom signer) = None" "date_parse P (x_validTo signer) = None"
  shows "c_status (signerCertificateCheck P signer exts t) = Pass" and "\<not> validAt P t signer"
  using assms by (simp_all add: signerCertificateCheck_def validAt_def Let_def)

text \<open>What a verified token has established.\<close>

definition tokenEstablished :: "tsa_env \<Rightarrow> env \<Rightarrow> bytes \<Rightarrow> VerifyTimestampOptions \<Rightarrow> TstFields \<Rightarrow> string \<Rightarrow> bool" where
  "tokenEstablished X P token ro tf anchor \<longleftrightarrow>
     (\<exists>p sf attrs h ct md d alg certHash signerDer signer exts eku pool pinned.
        parseToken token = Inr p \<and> pt_statusValue p \<in> {None, Some 0, Some 1}
      \<and> readTstInfo P (pt_tstInfo p) = Inr tf \<and> tf_miAlg tf = OID_sha256 \<and> tf_miHash tf = vo_digest ro
      \<and> (\<forall>n. vo_nonce ro = Some n \<longrightarrow> (\<exists>m. tf_nonce tf = Some m \<and> normHex X m = normHex X n))
      \<and> readSignerInfo p = Inr sf \<and> readAttrs (der_children (sf_signedAttrs sf)) [] = Inr attrs
      \<and> HASH_BY_OID (sf_digestAlg sf) = Some h \<and> h \<in> {''sha256'', ''sha384'', ''sha512''}
      \<and> map_of attrs OID_contentType = Some ct \<and> oidAt ct 0 = Inr OID_tstInfo
      \<and> map_of attrs OID_messageDigest = Some md \<and> childTagged md 0 TAG_OCTET_STRING = Inr d \<and> der_content d = createHash X P h (pt_tstInfoBytes p)
      \<and> essCertId attrs = Inr (Some (alg, certHash)) \<and> createHash X P alg signerDer = certHash
      \<and> signerDer \<in> set (pt_certs p @ vo_intermediates ro) \<and> x509 X signerDer = Inr signer \<and> sidNames (sf_sid sf) signerDer = Inr True
      \<and> cryptoVerify X h (signedBytes (sf_signedAttrs sf)) signer (sf_signature sf) = Inr True
      \<and> certificateExtensions signerDer = Inr exts \<and> map_of exts OID_extKeyUsage = Some eku \<and> ext_critical eku
      \<and> x_keyUsage signer = Some [OID_timeStamping]
      \<and> (\<forall>f. date_parse P (x_validFrom signer) = Some f \<longrightarrow> f \<le> tf_genTimeMs tf) \<and> (\<forall>u. date_parse P (x_validTo signer) = Some u \<longrightarrow> tf_genTimeMs tf \<le> u)
      \<and> mapM (x509 X) (pt_certs p @ vo_intermediates ro) = Inr pool \<and> mapM (pinAnchor X P) (vo_trustAnchors ro) = Inr pinned
      \<and> anchored X P pool pinned (tf_genTimeMs tf) False signer anchor)"

lemma verifyParsed_cases:
  assumes "verifyParsed X P p ro = Inr r" "ts_outcome r = Verified"
  obtains tf sf attrs ess signed_attrs signerDer signer named exts certs chain anchor where
    "pt_statusValue p \<in> {None, Some 0, Some 1}" "readTstInfo P (pt_tstInfo p) = Inr tf" "readSignerInfo p = Inr sf"
    "readAttrs (der_children (sf_signedAttrs sf)) [] = Inr attrs" "essCertId attrs = Inr ess"
    "signedAttrsCheck X P sf attrs (pt_tstInfoBytes p) (findSigner X P ess (pt_certs p @ vo_intermediates ro) \<noteq> None) = Inr signed_attrs"
    "findSigner X P ess (pt_certs p @ vo_intermediates ro) = Some signerDer"
    "x509 X signerDer = Inr signer" "sidNames (sf_sid sf) signerDer = Inr named" "certificateExtensions signerDer = Inr exts"
    "mapM (x509 X) (pt_certs p @ vo_intermediates ro) = Inr certs"
    "buildChain X P signer certs (vo_trustAnchors ro) (tf_genTimeMs tf) = Inr (chain, anchor)"
    "r = finish [statusCheck (pt_statusValue p), imprintCheck tf ro, nonceCheck X tf ro,
       if named then signed_attrs else check Fail ''signer_identifier_mismatch'', tokenSignatureCheck X sf signer,
       signerCertificateCheck P signer exts (tf_genTimeMs tf), chain]
       ((timedReport P tf)\<lparr>ts_tsa := Some (oneLine (x_subject signer), fp256 P signerDer), ts_anchor := (if anchor = Some [] then None else anchor)\<rparr>)"
proof -
  have n: "c_status NOT_CHECKED \<notin> {Pass, NotApplicable}" by (simp add: NOT_CHECKED_def)
  have s: "c_status (statusCheck (pt_statusValue p)) = Pass"
  proof (rule ccontr)
    assume "c_status (statusCheck (pt_statusValue p)) \<noteq> Pass"
    then have "r = finish (statusCheck (pt_statusValue p) # replicate 6 NOT_CHECKED) malformedReport" using assms(1) by (simp add: verifyParsed_def)
    then show False using assms(2) n by (simp add: finish_verified)
  qed
  have f: "findSigner X P ess (pt_certs p @ vo_intermediates ro) \<noteq> None" if "r = finish (a # b # c # e # replicate 3 NOT_CHECKED) x" for ess a b c e x
    using that assms(2) n by (simp add: finish_verified)
  have not3: "r \<noteq> finish [a, b, c, e, NOT_CHECKED, NOT_CHECKED, NOT_CHECKED] x" for a b c e x
    using assms(2) n by (auto simp: finish_verified)
  have st: "pt_statusValue p \<in> {None, Some 0, Some 1}" using s status_pass [of "pt_statusValue p"] by auto
  obtain tf sf attrs ess signed_attrs where
    a: "readTstInfo P (pt_tstInfo p) = Inr tf" "readSignerInfo p = Inr sf" "readAttrs (der_children (sf_signedAttrs sf)) [] = Inr attrs"
      "essCertId attrs = Inr ess"
      "signedAttrsCheck X P sf attrs (pt_tstInfoBytes p) (findSigner X P ess (pt_certs p @ vo_intermediates ro) \<noteq> None) = Inr signed_attrs"
    and b: "(case findSigner X P ess (pt_certs p @ vo_intermediates ro) of
            None \<Rightarrow> Inr (finish ([statusCheck (pt_statusValue p), imprintCheck tf ro, nonceCheck X tf ro, signed_attrs] @ replicate 3 NOT_CHECKED) (timedReport P tf))
          | Some signerDer \<Rightarrow>
              rbind (x509 X signerDer) (\<lambda>signer.
              rbind (sidNames (sf_sid sf) signerDer) (\<lambda>named.
              rbind (certificateExtensions signerDer) (\<lambda>exts.
              rbind (mapM (x509 X) (pt_certs p @ vo_intermediates ro)) (\<lambda>certs.
              rbind (buildChain X P signer certs (vo_trustAnchors ro) (tf_genTimeMs tf)) (\<lambda>(chain, anchor).
                Inr (finish [statusCheck (pt_statusValue p), imprintCheck tf ro, nonceCheck X tf ro,
                    if named then signed_attrs else check Fail ''signer_identifier_mismatch'',
                    tokenSignatureCheck X sf signer,
                    signerCertificateCheck P signer exts (tf_genTimeMs tf), chain]
                  ((timedReport P tf)\<lparr>ts_tsa := Some (oneLine (x_subject signer), fp256 P signerDer), ts_anchor := (if anchor = Some [] then None else anchor)\<rparr>)))))))) = Inr r"
    using assms(1) s unfolding verifyParsed_def Let_def by (auto simp: rbind_Inr_iff simp del: option.simps)
  show ?thesis
  proof (cases "findSigner X P ess (pt_certs p @ vo_intermediates ro)")
    case None
    then show ?thesis using b not3 [symmetric] by (simp add: numeral_3_eq_3)
  next
    case (Some signerDer)
    then show ?thesis using b a st by (auto simp: rbind_Inr_iff intro: that)
  qed
qed

text \<open>\<^bold>\<open>C34.\<close> A token reported as verified was granted and stamps the expected digest with SHA-256; it carries the expected nonce if one
  was given; the signed attributes bind the content type, the digest of the token's content and the signer's certificate; the
  signature over them was made with the key of that certificate, which is critical and only for time stamping and leads through
  certification authorities that are valid at the stamped time to a pinned anchor.  The stamped time is not before the signer
  certificate's first date nor after its last, of these the ones that can be read: the code lets an unreadable date of the signer
  limit nothing (\<open>unreadable_signer_dates_accepted\<close>).  The report's time and anchor are those of the token.\<close>

theorem timestamp_verified_sound:
  assumes "ts_outcome (verifyTimestampToken X P token ro) = Verified"
  shows "\<exists>tf anchor. tokenEstablished X P token ro tf anchor \<and> length token \<le> (case vo_maxBytes ro of Some n \<Rightarrow> n | None \<Rightarrow> 65536)
    \<and> ts_gen_time (verifyTimestampToken X P token ro) = Some (to_iso P (tf_genTimeMs tf))
    \<and> (anchor \<noteq> [] \<longrightarrow> ts_anchor (verifyTimestampToken X P token ro) = Some anchor)"
proof -
  let ?r = "verifyTimestampToken X P token ro"
  have m: "ts_outcome malformedReport \<noteq> Verified" by (simp add: malformedReport_def)
  then obtain p where len: "length token \<le> (case vo_maxBytes ro of Some n \<Rightarrow> n | None \<Rightarrow> 65536)"
    and p: "parseToken token = Inr p" and r: "verifyParsed X P p ro = Inr ?r"
    using assms by (auto simp: verifyTimestampToken_def catching_def split: sum.splits if_splits)
  obtain tf sf attrs ess signed_attrs signerDer signer named exts certs chain anchor where
    a: "pt_statusValue p \<in> {None, Some 0, Some 1}" "readTstInfo P (pt_tstInfo p) = Inr tf" "readSignerInfo p = Inr sf"
    "readAttrs (der_children (sf_signedAttrs sf)) [] = Inr attrs" "essCertId attrs = Inr ess"
    "signedAttrsCheck X P sf attrs (pt_tstInfoBytes p) (findSigner X P ess (pt_certs p @ vo_intermediates ro) \<noteq> None) = Inr signed_attrs"
    "findSigner X P ess (pt_certs p @ vo_intermediates ro) = Some signerDer"
    "x509 X signerDer = Inr signer" "sidNames (sf_sid sf) signerDer = Inr named" "certificateExtensions signerDer = Inr exts"
    "mapM (x509 X) (pt_certs p @ vo_intermediates ro) = Inr certs"
    "buildChain X P signer certs (vo_trustAnchors ro) (tf_genTimeMs tf) = Inr (chain, anchor)"
    and fin: "?r = finish [statusCheck (pt_statusValue p), imprintCheck tf ro, nonceCheck X tf ro,
       if named then signed_attrs else check Fail ''signer_identifier_mismatch'', tokenSignatureCheck X sf signer,
       signerCertificateCheck P signer exts (tf_genTimeMs tf), chain]
       ((timedReport P tf)\<lparr>ts_tsa := Some (oneLine (x_subject signer), fp256 P signerDer), ts_anchor := (if anchor = Some [] then None else anchor)\<rparr>)"
    by (rule verifyParsed_cases [OF r assms])
  have all: "\<forall>c\<in>set [statusCheck (pt_statusValue p), imprintCheck tf ro, nonceCheck X tf ro,
       if named then signed_attrs else check Fail ''signer_identifier_mismatch'', tokenSignatureCheck X sf signer,
       signerCertificateCheck P signer exts (tf_genTimeMs tf), chain]. c_status c \<in> {Pass, NotApplicable}"
    using assms unfolding fin by (subst (asm) finish_verified) simp_all
  have named: "named" using all by (auto split: if_splits)
  then have ok: "c_status signed_attrs \<in> {Pass, NotApplicable}" "c_status chain = Pass" using all buildChain_status [OF a(12)] by auto
  obtain h ct md d where at: "HASH_BY_OID (sf_digestAlg sf) = Some h" "h \<in> {''sha256'', ''sha384'', ''sha512''}"
    "map_of attrs OID_contentType = Some ct" "oidAt ct 0 = Inr OID_tstInfo"
    "map_of attrs OID_messageDigest = Some md" "childTagged md 0 TAG_OCTET_STRING = Inr d" "der_content d = createHash X P h (pt_tstInfoBytes p)"
    by (rule signedAttrs_pass [OF a(6) ok(1)])
  obtain alg certHash where ess: "ess = Some (alg, certHash)" "createHash X P alg signerDer = certHash" "signerDer \<in> set (pt_certs p @ vo_intermediates ro)"
    using a(7) find_Some_mem by (fastforce simp: findSigner_def split: option.split_asm prod.split_asm)
  obtain pinned name where ch: "mapM (pinAnchor X P) (vo_trustAnchors ro) = Inr pinned" "anchor = Some name"
    "anchored X P certs pinned (tf_genTimeMs tf) False signer name"
    by (rule buildChain_sound [OF a(12) ok(2)])
  have i: "tf_miAlg tf = OID_sha256 \<and> tf_miHash tf = vo_digest ro" using all imprint_pass by simp
  have n: "\<forall>n. vo_nonce ro = Some n \<longrightarrow> (\<exists>m. tf_nonce tf = Some m \<and> normHex X m = normHex X n)" using all nonce_pass by simp
  have s: "cryptoVerify X h (signedBytes (sf_signedAttrs sf)) signer (sf_signature sf) = Inr True"
    using all signature_pass [of X sf signer] at(1) by simp
  have c: "(\<exists>eku. map_of exts OID_extKeyUsage = Some eku \<and> ext_critical eku) \<and> x_keyUsage signer = Some [OID_timeStamping]
    \<and> (\<forall>f. date_parse P (x_validFrom signer) = Some f \<longrightarrow> f \<le> tf_genTimeMs tf) \<and> (\<forall>u. date_parse P (x_validTo signer) = Some u \<longrightarrow> tf_genTimeMs tf \<le> u)"
    using all by (intro signer_pass) simp
  have "tokenEstablished X P token ro tf name"
  proof -
    obtain eku where eku: "map_of exts OID_extKeyUsage = Some eku" "ext_critical eku" using c by blast
    have bound: "essCertId attrs = Inr (Some (alg, certHash))" "sidNames (sf_sid sf) signerDer = Inr True" using a(5,9) ess(1) named by simp_all
    show ?thesis unfolding tokenEstablished_def
      by (rule exI [of _ p], rule exI [of _ sf], rule exI [of _ attrs], rule exI [of _ h], rule exI [of _ ct], rule exI [of _ md],
        rule exI [of _ d], rule exI [of _ alg], rule exI [of _ certHash], rule exI [of _ signerDer], rule exI [of _ signer],
        rule exI [of _ exts], rule exI [of _ eku], rule exI [of _ certs], rule exI [of _ pinned])
        (intro conjI p a at bound ess(2,3) ch(1,3) i [THEN conjunct1] i [THEN conjunct2] n s eku
          c [THEN conjunct2, THEN conjunct1] c [THEN conjunct2, THEN conjunct2, THEN conjunct1] c [THEN conjunct2, THEN conjunct2, THEN conjunct2])
  qed
  then show ?thesis using len fin ch(2) by (intro exI conjI) (auto simp: timedReport_def)
qed

section \<open>Identifiers and their arcs\<close>

definition ARCS_sha256 :: "nat list" where "ARCS_sha256 = [2, 16, 840, 1, 101, 3, 4, 2, 1]"
definition ARCS_signedData :: "nat list" where "ARCS_signedData = [1, 2, 840, 113549, 1, 7, 2]"
definition ARCS_tstInfo :: "nat list" where "ARCS_tstInfo = [1, 2, 840, 113549, 1, 9, 16, 1, 4]"
definition ARCS_contentType :: "nat list" where "ARCS_contentType = [1, 2, 840, 113549, 1, 9, 3]"
definition ARCS_messageDigest :: "nat list" where "ARCS_messageDigest = [1, 2, 840, 113549, 1, 9, 4]"
definition ARCS_signingCertificateV2 :: "nat list" where "ARCS_signingCertificateV2 = [1, 2, 840, 113549, 1, 9, 16, 2, 47]"
definition ARCS_sha256WithRSA :: "nat list" where "ARCS_sha256WithRSA = [1, 2, 840, 113549, 1, 1, 11]"
definition ARCS_extKeyUsage :: "nat list" where "ARCS_extKeyUsage = [2, 5, 29, 37]"

lemma arcs_dotted:
  "dotted ARCS_sha256 = OID_sha256" "dotted ARCS_signedData = OID_signedData" "dotted ARCS_tstInfo = OID_tstInfo"
  "dotted ARCS_contentType = OID_contentType" "dotted ARCS_messageDigest = OID_messageDigest"
  "dotted ARCS_signingCertificateV2 = OID_signingCertificateV2" "dotted ARCS_sha256WithRSA = RSA_OIDS ! 1" "dotted ARCS_extKeyUsage = OID_extKeyUsage"
  by code_simp+

lemma arcs_valid:
  "validArcs ARCS_sha256" "validArcs ARCS_signedData" "validArcs ARCS_tstInfo" "validArcs ARCS_contentType" "validArcs ARCS_messageDigest"
  "validArcs ARCS_signingCertificateV2" "validArcs ARCS_sha256WithRSA" "validArcs ARCS_extKeyUsage"
  by (simp_all add: validArcs_def ARCS_sha256_def ARCS_signedData_def ARCS_tstInfo_def ARCS_contentType_def ARCS_messageDigest_def
      ARCS_signingCertificateV2_def ARCS_sha256WithRSA_def ARCS_extKeyUsage_def)

lemma decode_arcs:
  "decodeOid (nodeOf (oidTree ARCS_sha256)) = Inr OID_sha256" "decodeOid (nodeOf (oidTree ARCS_signedData)) = Inr OID_signedData"
  "decodeOid (nodeOf (oidTree ARCS_tstInfo)) = Inr OID_tstInfo" "decodeOid (nodeOf (oidTree ARCS_contentType)) = Inr OID_contentType"
  "decodeOid (nodeOf (oidTree ARCS_messageDigest)) = Inr OID_messageDigest"
  "decodeOid (nodeOf (oidTree ARCS_signingCertificateV2)) = Inr OID_signingCertificateV2"
  "decodeOid (nodeOf (oidTree ARCS_sha256WithRSA)) = Inr (RSA_OIDS ! 1)" "decodeOid (nodeOf (oidTree ARCS_extKeyUsage)) = Inr OID_extKeyUsage"
  using decodeOid_tree arcs_valid arcs_dotted by metis+

lemma bound_arcs:
  "treeBound (oidTree ARCS_sha256) = 15" "treeBound (oidTree ARCS_signedData) = 15" "treeBound (oidTree ARCS_tstInfo) = 17"
  "treeBound (oidTree ARCS_contentType) = 15" "treeBound (oidTree ARCS_messageDigest) = 15" "treeBound (oidTree ARCS_signingCertificateV2) = 17"
  "treeBound (oidTree ARCS_sha256WithRSA) = 15" "treeBound (oidTree ARCS_extKeyUsage) = 9"
  by code_simp+

lemmas reads_tree = childAt_nodeOf child_nodeOf expectTag_nodeOf childTagged_def tagAt_def oidAt_def decode_arcs guardM_def

section \<open>Requests are what they say\<close>

definition requestTree :: "bytes \<Rightarrow> bytes \<Rightarrow> derTree" where
  "requestTree digest nonceBytes = Constr TAG_SEQUENCE
     [integerTree (let a = beBytes 1 [] in if a \<noteq> [] then a else [0]),
      Constr TAG_SEQUENCE [Constr TAG_SEQUENCE [oidTree ARCS_sha256, Prim TAG_NULL []], Prim TAG_OCTET_STRING digest],
      integerTree nonceBytes, Prim TAG_BOOLEAN [0xff]]"

lemma seq_tags [simp]: "tagOk TAG_SEQUENCE" "TAG_SEQUENCE AND 0x20 \<noteq> 0" "tagOk TAG_SET" "TAG_SET AND 0x20 \<noteq> 0" "tagOk 0xa0" "(0xa0 :: byte) AND 0x20 \<noteq> 0"
  "tagOk TAG_OCTET_STRING" "TAG_OCTET_STRING AND 0x20 = 0" "tagOk TAG_NULL" "TAG_NULL AND 0x20 = 0" "tagOk TAG_BOOLEAN" "TAG_BOOLEAN AND 0x20 = 0"
  "tagOk TAG_GENERALIZED_TIME" "TAG_GENERALIZED_TIME AND 0x20 = 0" "tagOk 0x80" "(0x80 :: byte) AND 0x20 = 0" "tagOk 0xa3" "(0xa3 :: byte) AND 0x20 \<noteq> 0"
  by (simp_all add: tagOk_def TAG_defs)

lemma request_tree:
  assumes "length digest = 32"
  shows "createTimestampRequest digest nonceOpt None rnd =
    (let nonce = (case nonceOpt of Some n \<Rightarrow> n | None \<Rightarrow> rnd);
         nonceBytes = (if nonce \<noteq> [] \<and> nonce ! 0 AND 0x80 \<noteq> 0 then 0 # nonce else nonce)
     in rbind (parseDer (encodeTree (integerTree nonceBytes))) (\<lambda>n. rbind (integerBytes n) (\<lambda>b.
                Inr \<lparr>tq_der = encodeTree (requestTree digest nonceBytes), tq_nonce = toHex b, tq_digest = digest\<rparr>)))"
proof -
  have "derOid OID_sha256 = encodeTree (oidTree ARCS_sha256)" using derOid_tree [OF arcs_valid(1)] arcs_dotted(1) by simp
  then show ?thesis
    using assms by (simp add: createTimestampRequest_def Let_def requestTree_def derSeq_def derNull_def derOctets_def derBool_def derInteger_tree derIntegerOf_tree)
qed

lemma sign_bit_first: "bs \<noteq> [] \<Longrightarrow> bigEndian (if bs ! 0 AND 0x80 \<noteq> 0 then 0 # bs else bs) = bigEndian bs"
  by (simp add: bigEndian_Cons_0)

text \<open>A timestamp request carries what it was made for: for a 32-byte digest and a nonce that is not empty,
  \<^verbatim>\<open>createTimestampRequest\<close> returns bytes that parse as a request of version 1 whose imprint is SHA-256 with exactly that digest, whose
  nonce is the given number and the one the caller keeps for the comparison with the token, and that asks for the certificate.\<close>

theorem timestamp_request_roundtrip:
  assumes "length digest = 32" "nonce \<noteq> []" "length nonce < 2 ^ 31"
  shows "\<exists>q n mi alg b. createTimestampRequest digest (Some nonce) None rnd = Inr q \<and> parseDer (tq_der q) = Inr n
    \<and> rbind (child n 0) integerValue = Inr 1 \<and> childTagged n 1 TAG_SEQUENCE = Inr mi \<and> childTagged mi 0 TAG_SEQUENCE = Inr alg
    \<and> oidAt alg 0 = Inr OID_sha256 \<and> map_sum id der_content (childTagged mi 1 TAG_OCTET_STRING) = Inr digest
    \<and> rbind (child n 2) integerBytes = Inr b \<and> bigEndian b = bigEndian nonce \<and> tq_nonce q = toHex b
    \<and> map_sum id der_content (childTagged n 3 TAG_BOOLEAN) = Inr [0xff]"
proof -
  let ?nb = "if nonce \<noteq> [] \<and> nonce ! 0 AND 0x80 \<noteq> 0 then 0 # nonce else nonce"
  have nb: "?nb \<noteq> []" "length ?nb \<le> 2 ^ 31" "bigEndian ?nb = bigEndian nonce" using assms by (auto simp: bigEndian_Cons_0)
  have bound: "treeBound (integerTree ?nb) \<le> 2 ^ 31 + 7" using treeBound_integerTree [of ?nb] nb(2) by simp
  have one: "treeBound (integerTree (let a = beBytes 1 [] in if a \<noteq> [] then a else [0])) = 7" by code_simp
  have p1: "parseDer (encodeTree (integerTree ?nb)) = Inr (nodeOf (integerTree ?nb))"
    using bound by (intro parseDer_tree) (simp_all add: MAX_DEPTH_def)
  have p2: "parseDer (encodeTree (requestTree digest ?nb)) = Inr (nodeOf (requestTree digest ?nb))"
    using bound assms one by (intro parseDer_tree) (simp_all add: MAX_DEPTH_def requestTree_def bound_arcs)
  have q: "createTimestampRequest digest (Some nonce) None rnd
      = Inr \<lparr>tq_der = encodeTree (requestTree digest ?nb), tq_nonce = toHex (stripZeros ?nb), tq_digest = digest\<rparr>"
    using p1 integerBytes_integerTree [OF nb(1)] by (simp add: request_tree [OF assms(1)] Let_def)
  have v: "integerValue (nodeOf (integerTree (let a = beBytes 1 [] in if a \<noteq> [] then a else [0]))) = Inr 1" by (rule derInteger_value) simp
  have b: "integerBytes (nodeOf (integerTree ?nb)) = Inr (stripZeros ?nb)" by (rule integerBytes_integerTree [OF nb(1)])
  let ?n = "nodeOf (requestTree digest ?nb)"
  let ?mi = "nodeOf (Constr TAG_SEQUENCE [Constr TAG_SEQUENCE [oidTree ARCS_sha256, Prim TAG_NULL []], Prim TAG_OCTET_STRING digest])"
  have n: "rbind (child ?n 0) integerValue = Inr 1" "childTagged ?n 1 TAG_SEQUENCE = Inr ?mi" "rbind (child ?n 2) integerBytes = Inr (stripZeros ?nb)"
    "map_sum id der_content (childTagged ?n 3 TAG_BOOLEAN) = Inr [0xff]"
    using v b by (simp_all add: reads_tree requestTree_def del: nodeOf.simps)
  have m: "childTagged ?mi 0 TAG_SEQUENCE = Inr (nodeOf (Constr TAG_SEQUENCE [oidTree ARCS_sha256, Prim TAG_NULL []]))"
    "oidAt (nodeOf (Constr TAG_SEQUENCE [oidTree ARCS_sha256, Prim TAG_NULL []])) 0 = Inr OID_sha256"
    "map_sum id der_content (childTagged ?mi 1 TAG_OCTET_STRING) = Inr digest"
    by (simp_all add: reads_tree del: nodeOf.simps)
  show ?thesis using q p2 n m nb(3) bigEndian_stripZeros [of ?nb]
    by (intro exI [of _ "\<lparr>tq_der = encodeTree (requestTree digest ?nb), tq_nonce = toHex (stripZeros ?nb), tq_digest = digest\<rparr>"]
        exI [of _ ?n] exI [of _ ?mi] exI [of _ "nodeOf (Constr TAG_SEQUENCE [oidTree ARCS_sha256, Prim TAG_NULL []])"]
        exI [of _ "stripZeros ?nb"]) (simp del: nodeOf.simps)
qed

theorem timestamp_request_roundtrip_witness:
  "\<exists>q n. createTimestampRequest (replicate 32 5) (Some [0xff, 1]) None [] = Inr q \<and> parseDer (tq_der q) = Inr n"
  using timestamp_request_roundtrip [of "replicate 32 5" "[0xff, 1]" "[]"] by auto

section \<open>A small token\<close>

definition toyTsa :: tsa_env where
  "toyTsa = \<lparr>x509 = (\<lambda>b. Inr \<lparr>x_raw = b, x_subject = ''CN=TSA'', x_keyUsage = Some [OID_timeStamping], x_validFrom = ''0'',
       x_validTo = ''99999999999999'', x_ca = True, x_fingerprint256 = toHex b\<rparr>),
     checkIssued = (\<lambda>c i. True), verifyIssued = (\<lambda>c i. Inr (x_raw i = [7])),
     cryptoVerify = (\<lambda>h m c s. Inr (s = [9])), sha512 = (\<lambda>b. take 64 (b @ replicate 64 0)), lower_case = (\<lambda>s. s)\<rparr>"

definition certTree :: derTree where
  "certTree = Constr TAG_SEQUENCE [Constr TAG_SEQUENCE [integerTree [5],
     Constr 0xa3 [Constr TAG_SEQUENCE [Constr TAG_SEQUENCE [oidTree ARCS_extKeyUsage, Prim TAG_BOOLEAN [0xff], Prim TAG_OCTET_STRING []]]]]]"

definition tstTree :: derTree where
  "tstTree = Constr TAG_SEQUENCE [integerTree [1], oidTree ARCS_signedData,
     Constr TAG_SEQUENCE [Constr TAG_SEQUENCE [oidTree ARCS_sha256, Prim TAG_NULL []], Prim TAG_OCTET_STRING (replicate 32 1)],
     integerTree [77], Prim TAG_GENERALIZED_TIME (utf8 ''20240101000000Z''), integerTree [0x12, 0x34]]"

definition attrTrees :: "derTree list" where
  "attrTrees = [
     Constr TAG_SEQUENCE [oidTree ARCS_contentType, Constr TAG_SET [oidTree ARCS_tstInfo]],
     Constr TAG_SEQUENCE [oidTree ARCS_messageDigest, Constr TAG_SET [Prim TAG_OCTET_STRING (toyHash (encodeTree tstTree))]],
     Constr TAG_SEQUENCE [oidTree ARCS_signingCertificateV2,
       Constr TAG_SET [Constr TAG_SEQUENCE [Constr TAG_SEQUENCE [Constr TAG_SEQUENCE [Prim TAG_OCTET_STRING (toyHash (encodeTree certTree))]]]]]]"

definition signerTree :: derTree where
  "signerTree = Constr TAG_SEQUENCE [integerTree [3], Prim 0x80 [1], Constr TAG_SEQUENCE [oidTree ARCS_sha256], Constr 0xa0 attrTrees,
     Constr TAG_SEQUENCE [oidTree ARCS_sha256WithRSA], Prim TAG_OCTET_STRING [9]]"

definition signedDataTree :: derTree where
  "signedDataTree = Constr TAG_SEQUENCE [integerTree [3], Constr TAG_SET [Constr TAG_SEQUENCE [oidTree ARCS_sha256]],
     Constr TAG_SEQUENCE [oidTree ARCS_tstInfo, Constr 0xa0 [Prim TAG_OCTET_STRING (encodeTree tstTree)]],
     Constr 0xa0 [certTree], Constr TAG_SET [signerTree]]"

definition tokenTree :: derTree where
  "tokenTree = Constr TAG_SEQUENCE [oidTree ARCS_signedData, Constr 0xa0 [signedDataTree]]"

definition toyTsaOptions :: VerifyTimestampOptions where
  "toyTsaOptions = \<lparr>vo_digest = replicate 32 1, vo_trustAnchors = [\<lparr>ta_name = ''root'', ta_der = [7]\<rparr>], vo_nonce = Some ''1234'',
     vo_intermediates = [], vo_maxBytes = None\<rparr>"

lemma integer_leaves: "treeBound (integerTree [1]) = 7" "treeBound (integerTree [3]) = 7" "treeBound (integerTree [5]) = 7"
  "treeBound (integerTree [77]) = 7" "treeBound (integerTree [0x12, 0x34]) = 8"
  "integerValue (nodeOf (integerTree [3])) = Inr 3" "integerBytes (nodeOf (integerTree [77])) = Inr [77]"
  "integerBytes (nodeOf (integerTree [0x12, 0x34])) = Inr [0x12, 0x34]"
  by code_simp+

lemma toy_bounds: "treeBound tstTree < 200" "treeBound certTree < 200"
  by (simp_all add: tstTree_def certTree_def bound_arcs integer_leaves utf8_def)

lemma toy_token_bound: "treeBound tokenTree < 2000"
proof -
  have "length (encodeTree tstTree) < 200" using length_encodeTree_le [of tstTree] toy_bounds by simp
  then show ?thesis using toy_bounds
    by (simp add: tokenTree_def signedDataTree_def signerTree_def attrTrees_def bound_arcs integer_leaves length_toyHash)
qed

lemma toy_tags: "wfTags 0 tstTree" "d \<le> 20 \<Longrightarrow> wfTags d certTree" "wfTags 0 tokenTree"
  by (auto simp add: tstTree_def certTree_def tokenTree_def signedDataTree_def signerTree_def attrTrees_def MAX_DEPTH_def)

lemma toy_parse: "parseDer (encodeTree tstTree) = Inr (nodeOf tstTree)" "parseDer (encodeTree certTree) = Inr (nodeOf certTree)"
  "parseDer (encodeTree tokenTree) = Inr (nodeOf tokenTree)"
  using toy_tags toy_bounds toy_token_bound by (simp_all add: parseDer_tree)

definition toyParsed :: ParsedToken where
  "toyParsed = \<lparr>pt_statusValue = None, pt_signedData = nodeOf signedDataTree, pt_tstInfoBytes = encodeTree tstTree, pt_tstInfo = nodeOf tstTree,
     pt_certs = [encodeTree certTree], pt_signerInfo = nodeOf signerTree\<rparr>"

lemma tree_sel:
  "tagOf tstTree = TAG_SEQUENCE" "tagOf certTree = TAG_SEQUENCE" "tagOf signerTree = TAG_SEQUENCE" "tagOf signedDataTree = TAG_SEQUENCE" "tagOf tokenTree = TAG_SEQUENCE"
  "subtrees tokenTree = [oidTree ARCS_signedData, Constr 0xa0 [signedDataTree]]"
  "subtrees signedDataTree = [integerTree [3], Constr TAG_SET [Constr TAG_SEQUENCE [oidTree ARCS_sha256]],
     Constr TAG_SEQUENCE [oidTree ARCS_tstInfo, Constr 0xa0 [Prim TAG_OCTET_STRING (encodeTree tstTree)]],
     Constr 0xa0 [certTree], Constr TAG_SET [signerTree]]"
  "subtrees signerTree = [integerTree [3], Prim 0x80 [1], Constr TAG_SEQUENCE [oidTree ARCS_sha256], Constr 0xa0 attrTrees,
     Constr TAG_SEQUENCE [oidTree ARCS_sha256WithRSA], Prim TAG_OCTET_STRING [9]]"
  "subtrees tstTree = [integerTree [1], oidTree ARCS_signedData,
     Constr TAG_SEQUENCE [Constr TAG_SEQUENCE [oidTree ARCS_sha256, Prim TAG_NULL []], Prim TAG_OCTET_STRING (replicate 32 1)],
     integerTree [77], Prim TAG_GENERALIZED_TIME (utf8 ''20240101000000Z''), integerTree [0x12, 0x34]]"
  "subtrees certTree = [Constr TAG_SEQUENCE [integerTree [5],
     Constr 0xa3 [Constr TAG_SEQUENCE [Constr TAG_SEQUENCE [oidTree ARCS_extKeyUsage, Prim TAG_BOOLEAN [0xff], Prim TAG_OCTET_STRING []]]]]]"
  by (simp_all add: tstTree_def certTree_def signerTree_def signedDataTree_def tokenTree_def)

lemma tag_differ: "TAG_OID \<noteq> TAG_SEQUENCE" "TAG_INTEGER \<noteq> TAG_SEQUENCE" "TAG_SET \<noteq> 0xa1" "TAG_OCTET_STRING \<noteq> TAG_SEQUENCE" "(0x80 :: byte) \<noteq> TAG_SEQUENCE"
  "TAG_INTEGER \<noteq> 0xa3" "TAG_OID \<noteq> TAG_INTEGER"
  by (simp_all add: TAG_defs)

lemma toy_parseToken: "parseToken (encodeTree tokenTree) = Inr toyParsed"
  by (simp add: parseToken_def toy_parse reads_tree tree_sel tag_differ parseContentInfo_def integer_leaves toyParsed_def del: nodeOf.simps encodeTree.simps)

definition toyFields :: TstFields where
  "toyFields = \<lparr>tf_policy = OID_signedData, tf_miAlg = OID_sha256, tf_miHash = replicate 32 1, tf_serial = ''4d'', tf_genTimeMs = 1704067200000,
     tf_nonce = Some ''1234''\<rparr>"

lemma toy_hex: "toHex [77] = ''4d''" "toHex [0x12, 0x34] = ''1234''"
  by code_simp+

lemma toy_time: "decodeTime toyEnv (nodeOf (Prim TAG_GENERALIZED_TIME (utf8 ''20240101000000Z''))) = Inr 1704067200000"
  by code_simp

lemma toy_readTst: "readTstInfo toyEnv (nodeOf tstTree) = Inr toyFields"
  by (simp add: readTstInfo_def reads_tree tree_sel tag_differ integer_leaves toy_hex toy_time toyFields_def del: nodeOf.simps encodeTree.simps)

definition toySigner :: SignerFields where
  "toySigner = \<lparr>sf_sid = nodeOf (Prim 0x80 [1]), sf_digestAlg = OID_sha256, sf_signedAttrs = nodeOf (Constr 0xa0 attrTrees),
     sf_sigAlg = RSA_OIDS ! 1, sf_signature = [9]\<rparr>"

lemma toy_readSigner: "readSignerInfo toyParsed = Inr toySigner"
  by (simp add: readSignerInfo_def toyParsed_def reads_tree tree_sel tag_differ integer_leaves algParamsAbsentOrNull_def toySigner_def
      del: nodeOf.simps encodeTree.simps)

definition toyAttrs :: "(string \<times> DerNode) list" where
  "toyAttrs = [(OID_contentType, nodeOf (Constr TAG_SET [oidTree ARCS_tstInfo])),
     (OID_messageDigest, nodeOf (Constr TAG_SET [Prim TAG_OCTET_STRING (toyHash (encodeTree tstTree))])),
     (OID_signingCertificateV2, nodeOf (Constr TAG_SET [Constr TAG_SEQUENCE [Constr TAG_SEQUENCE [Constr TAG_SEQUENCE
       [Prim TAG_OCTET_STRING (toyHash (encodeTree certTree))]]]]))]"

lemma oid_differ: "OID_messageDigest \<noteq> OID_contentType" "OID_signingCertificateV2 \<noteq> OID_contentType" "OID_signingCertificateV2 \<noteq> OID_messageDigest"
  by (simp_all add: OID_messageDigest_def OID_contentType_def OID_signingCertificateV2_def)

lemma toy_readAttrs: "readAttrs (map nodeOf attrTrees) [] = Inr toyAttrs"
  by (simp add: attrTrees_def reads_tree oid_differ toyAttrs_def del: nodeOf.simps encodeTree.simps)

lemma toy_ess: "essCertId toyAttrs = Inr (Some (''sha256'', toyHash (encodeTree certTree)))"
  by (simp add: essCertId_def toyAttrs_def reads_tree oid_differ oid_differ [symmetric] tag_differ del: nodeOf.simps encodeTree.simps)

lemma toy_hash_name: "HASH_BY_OID OID_sha256 = Some ''sha256''" "createHash X P ''sha256'' b = sha256 P b" "RSA_OIDS ! Suc 0 \<noteq> OID_rsassaPss" "RSA_OIDS ! Suc 0 \<in> set RSA_OIDS"
  by (simp_all add: HASH_BY_OID_def createHash_def RSA_OIDS_def OID_rsassaPss_def)

lemma toy_attrs_check: "signedAttrsCheck toyTsa toyEnv toySigner toyAttrs (encodeTree tstTree) True = Inr (check Pass ''attributes_bound'')"
  by (simp add: signedAttrsCheck_def usableHash_def toySigner_def toyAttrs_def toy_hash_name reads_tree oid_differ oid_differ [symmetric]
      del: nodeOf.simps encodeTree.simps)

lemma toy_exts: "certificateExtensions (encodeTree certTree) = Inr [(OID_extKeyUsage, \<lparr>ext_critical = True, ext_value = []\<rparr>)]"
  by (simp add: certificateExtensions_def toy_parse reads_tree tree_sel tag_differ readExtension_def del: nodeOf.simps encodeTree.simps)

lemma toy_dates: "toyDate ''0'' = Some 0" "toyDate ''99999999999999'' = Some 99999999999999"
  by code_simp+

lemma toy_sel:
  "pt_statusValue toyParsed = None" "pt_tstInfo toyParsed = nodeOf tstTree" "pt_tstInfoBytes toyParsed = encodeTree tstTree" "pt_certs toyParsed = [encodeTree certTree]"
  "der_children (sf_signedAttrs toySigner) = map nodeOf attrTrees" "sf_sid toySigner = nodeOf (Prim 0x80 [1])" "sf_sigAlg toySigner = RSA_OIDS ! 1"
  "sf_digestAlg toySigner = OID_sha256" "sf_signature toySigner = [9]" "tf_genTimeMs toyFields = 1704067200000"
  "vo_intermediates toyTsaOptions = []" "vo_trustAnchors toyTsaOptions = [\<lparr>ta_name = ''root'', ta_der = [7]\<rparr>]" "vo_maxBytes toyTsaOptions = None"
  by (simp_all add: toyParsed_def toySigner_def toyFields_def toyTsaOptions_def del: nodeOf.simps)

definition toyCert :: "bytes \<Rightarrow> X509" where
  "toyCert b = \<lparr>x_raw = b, x_subject = ''CN=TSA'', x_keyUsage = Some [OID_timeStamping], x_validFrom = ''0'',
     x_validTo = ''99999999999999'', x_ca = True, x_fingerprint256 = toHex b\<rparr>"

lemma toy_cert: "x509 toyTsa b = Inr (toyCert b)" "verifyIssued toyTsa c (toyCert b) = Inr (b = [7])" "checkIssued toyTsa c i" "cryptoVerify toyTsa h m c s = Inr (s = [9])"
  "x_validFrom (toyCert b) = ''0''" "x_validTo (toyCert b) = ''99999999999999''" "x_keyUsage (toyCert b) = Some [OID_timeStamping]"
  by (simp_all add: toyTsa_def toyCert_def)

lemma toy_checks:
  "imprintCheck toyFields toyTsaOptions = check Pass ''imprint_matches''" "nonceCheck toyTsa toyFields toyTsaOptions = check Pass ''nonce_matches''"
  "tokenSignatureCheck toyTsa toySigner (toyCert b) = check Pass ''signature_valid''"
  "signerCertificateCheck toyEnv (toyCert b) [(OID_extKeyUsage, \<lparr>ext_critical = True, ext_value = []\<rparr>)] 1704067200000 = check Pass ''tsa_certificate''"
  by (simp_all add: imprintCheck_def nonceCheck_def toyFields_def toyTsaOptions_def normHex_def tokenSignatureCheck_def toy_sel toy_hash_name usableHash_def
      toy_cert signerCertificateCheck_def toy_dates)

lemma toy_chain: "buildChain toyTsa toyEnv (toyCert b) pool [\<lparr>ta_name = ''root'', ta_der = [7]\<rparr>] 1704067200000 = Inr (check Pass ''chain_valid'', Some ''root'')"
proof -
  have p: "mapM (pinAnchor toyTsa toyEnv) [\<lparr>ta_name = ''root'', ta_der = [7]\<rparr>] = Inr [\<lparr>pa_name = ''root'', pa_cert = toyCert [7], pa_fp = fp256 toyEnv [7]\<rparr>]"
    by (simp add: pinAnchor_def toy_cert)
  have eight: "(8 :: nat) = Suc 7" by simp
  have "issuerLoop toyTsa toyEnv pool [\<lparr>pa_name = ''root'', pa_cert = toyCert [7], pa_fp = fp256 toyEnv [7]\<rparr>] 1704067200000 8 (toyCert b)
      = Inr (check Pass ''chain_valid'', Some ''root'')"
    unfolding eight issuerLoop.simps(2) by (simp add: issuedBy_def toy_cert validAt_def toy_dates)
  then show ?thesis using p by (simp add: buildChain_def)
qed

lemma toy_token_verified: "ts_outcome (verifyTimestampToken toyTsa toyEnv (encodeTree tokenTree) toyTsaOptions) = Verified"
proof -
  have len: "length (encodeTree tokenTree) \<le> 65536" using length_encodeTree_le [of tokenTree] toy_token_bound by simp
  have found: "findSigner toyTsa toyEnv (Some (''sha256'', toyHash (encodeTree certTree))) [encodeTree certTree] = Some (encodeTree certTree)"
    by (simp add: findSigner_def toy_hash_name)
  have sid: "sidNames (nodeOf (Prim 0x80 [1])) (encodeTree certTree) = Inr True" by (simp add: sidNames_def tag_differ)
  have s: "statusCheck None = check Pass ''granted''" by (simp add: statusCheck_def)
  have "\<exists>r. verifyParsed toyTsa toyEnv toyParsed toyTsaOptions = Inr r \<and> ts_outcome r = Verified"
    by (simp add: verifyParsed_def toy_sel s Let_def toy_readTst toy_readSigner toy_readAttrs toy_ess found toy_attrs_check toy_cert(1) sid toy_exts toy_chain
        toy_checks finish_verified del: nodeOf.simps encodeTree.simps)
  then show ?thesis using len by (auto simp: verifyTimestampToken_def toy_parseToken toy_sel)
qed

text \<open>The toy signer's dates can be read, and its certificate is valid at the stamped time.\<close>

theorem timestamp_verified_sound_witness:
  "\<exists>tf anchor. tokenEstablished toyTsa toyEnv (encodeTree tokenTree) toyTsaOptions tf anchor
     \<and> ts_gen_time (verifyTimestampToken toyTsa toyEnv (encodeTree tokenTree) toyTsaOptions) = Some (to_iso toyEnv (tf_genTimeMs tf))
     \<and> (\<exists>signer f u. x509 toyTsa (encodeTree certTree) = Inr signer \<and> date_parse toyEnv (x_validFrom signer) = Some f \<and> date_parse toyEnv (x_validTo signer) = Some u
          \<and> validAt toyEnv 1704067200000 signer)"
  using timestamp_verified_sound [OF toy_token_verified] toy_cert toy_dates by (auto simp: validAt_def)

end
