(* ===== verification/Vsock.thy ===== *)
theory Vsock
  imports Codec
begin

text \<open>
  \<^verbatim>\<open>src/src/nitro/vsock.ts\<close>: the frames between an enclave and its host, the incremental decoder and the forwarder of the host.  A
  stream is the list of its chunks; backpressure only delays the writes and is left out.
\<close>

section \<open>Frames\<close>

definition FRAME_VERSION :: byte where
  "FRAME_VERSION = 1"

definition MAX_FRAME_BYTES :: nat where
  "MAX_FRAME_BYTES = 1024 * 1024"

definition MAGIC0 :: byte where "MAGIC0 = 0xc0"
definition MAGIC1 :: byte where "MAGIC1 = 0x01"
definition HEADER :: nat where "HEADER = 8"

text \<open>\<^verbatim>\<open>hello\<close>, \<^verbatim>\<open>receipt\<close>, \<^verbatim>\<open>ack\<close>, \<^verbatim>\<open>register\<close> and \<^verbatim>\<open>error\<close>.\<close>

definition FrameType :: "byte list" where
  "FrameType = [1, 2, 3, 4, 5]"

datatype FrameError = BadMagic | UnsupportedVersion | FrameTooLarge | UnknownType

record Frame =
  fr_type :: byte
  fr_payload :: bytes
  fr_raw :: bytes

text \<open>\<^verbatim>\<open>setUint32(4, n, false)\<close> and \<^verbatim>\<open>getUint32(4, false)\<close>.\<close>

definition uint32BE :: "nat \<Rightarrow> bytes" where
  "uint32BE n = [of_nat (n div 2 ^ 24), of_nat (n div 2 ^ 16), of_nat (n div 2 ^ 8), of_nat n]"

definition getUint32BE :: "bytes \<Rightarrow> nat" where
  "getUint32BE b = unat (b ! 4) * 2 ^ 24 + unat (b ! 5) * 2 ^ 16 + unat (b ! 6) * 2 ^ 8 + unat (b ! 7)"

definition encodeFrame :: "byte \<Rightarrow> bytes \<Rightarrow> FrameError + bytes" where
  "encodeFrame type payload =
     (if length payload > MAX_FRAME_BYTES then Inl FrameTooLarge
      else Inr ([MAGIC0, MAGIC1, FRAME_VERSION, type] @ uint32BE (length payload) @ payload))"

section \<open>The decoder\<close>

text \<open>The loop of \<^verbatim>\<open>push\<close> on the buffer: the frames or the error, and the buffer that is kept.  An error discards the frames of
  this call.\<close>

function decodeLoop :: "bytes \<Rightarrow> (FrameError + Frame list) \<times> bytes" where
  "decodeLoop b =
     (if length b < HEADER then (Inr [], b)
      else if b ! 0 \<noteq> MAGIC0 \<or> b ! 1 \<noteq> MAGIC1 then (Inl BadMagic, b)
      else if b ! 2 \<noteq> FRAME_VERSION then (Inl UnsupportedVersion, b)
      else if b ! 3 \<notin> set FrameType then (Inl UnknownType, b)
      else let len = getUint32BE b in
        if len > MAX_FRAME_BYTES then (Inl FrameTooLarge, b)
        else if length b < HEADER + len then (Inr [], b)
        else let raw = take (HEADER + len) b;
                 (r, b') = decodeLoop (drop (HEADER + len) b)
             in (map_sum (\<lambda>e. e) (\<lambda>fs. \<lparr>fr_type = raw ! 3, fr_payload = drop HEADER raw, fr_raw = raw\<rparr> # fs) r, b'))"
  by pat_completeness auto
termination
  by (relation "measure length") (auto simp: HEADER_def)

declare decodeLoop.simps [simp del]

definition push :: "bytes \<Rightarrow> bytes \<Rightarrow> (FrameError + Frame list) \<times> bytes" where
  "push buffer chunk = decodeLoop (buffer @ chunk)"

text \<open>Successive chunks, up to an error.\<close>

fun pushAll :: "bytes list \<Rightarrow> bytes \<Rightarrow> (FrameError + Frame list) \<times> bytes" where
  "pushAll [] buffer = (Inr [], buffer)"
| "pushAll (c # cs) buffer =
     (case push buffer c of
        (Inl e, buffer') \<Rightarrow> (Inl e, buffer')
      | (Inr fs, buffer') \<Rightarrow> (case pushAll cs buffer' of (r, b) \<Rightarrow> (map_sum (\<lambda>e. e) (\<lambda>gs. fs @ gs) r, b)))"

section \<open>The forwarder\<close>

datatype ForwardError = Framing FrameError | MidFrame

text \<open>What is written to the sink, and the outcome of the promise: the counts of frames and bytes.  A framing error destroys the
  source, so that no later chunk arrives.\<close>

fun forwardLoop :: "bytes list \<Rightarrow> bytes \<Rightarrow> nat \<Rightarrow> nat \<Rightarrow> bytes list \<times> (ForwardError + nat \<times> nat)" where
  "forwardLoop [] buffer frames n = ([], if length buffer > 0 then Inl MidFrame else Inr (frames, n))"
| "forwardLoop (c # cs) buffer frames n =
     (case push buffer c of
        (Inl e, _) \<Rightarrow> ([], Inl (Framing e))
      | (Inr fs, buffer') \<Rightarrow>
          (case forwardLoop cs buffer' (frames + length fs) (n + sum_list (map (length \<circ> fr_raw) fs)) of
             (written, r) \<Rightarrow> (map fr_raw fs @ written, r)))"

definition forwardFrames :: "bytes list \<Rightarrow> bytes list \<times> (ForwardError + nat \<times> nat)" where
  "forwardFrames chunks = forwardLoop chunks [] 0 0"

section \<open>Frames read back\<close>

lemma uint32_bytes: "n < 2 ^ 32 \<Longrightarrow>
    unat (of_nat (n div 2 ^ 24) :: byte) * 2 ^ 24 + unat (of_nat (n div 2 ^ 16) :: byte) * 2 ^ 16 + unat (of_nat (n div 2 ^ 8) :: byte) * 2 ^ 8
      + unat (of_nat n :: byte) = n"
proof -
  assume n: "n < 2 ^ 32"
  have m: "unat (of_nat k :: byte) = k mod 256" for k by (simp add: unat_of_nat)
  have a: "n = 256 * (n div 256) + n mod 256" by simp
  have b: "n div 256 = 256 * (n div 65536) + n div 256 mod 256" using div_mult2_eq [of n 256 256] by simp
  have c: "n div 65536 = 256 * (n div 16777216) + n div 65536 mod 256" using div_mult2_eq [of n 65536 256] by simp
  have d: "n div 16777216 mod 256 = n div 16777216" using n by (simp add: less_mult_imp_div_less)
  have sum: "C * 16777216 + x * 65536 + y * 256 + z = N" if "N = 256 * A + z" "A = 256 * B + y" "B = 256 * C + x" for A B C N x y z :: nat
    using that by simp
  show ?thesis unfolding m using sum [OF a b c] d by simp
qed

definition frameOf :: "byte \<Rightarrow> bytes \<Rightarrow> Frame" where
  "frameOf type payload = \<lparr>fr_type = type, fr_payload = payload,
     fr_raw = [MAGIC0, MAGIC1, FRAME_VERSION, type] @ uint32BE (length payload) @ payload\<rparr>"

lemma encodeFrame_raw: "length payload \<le> MAX_FRAME_BYTES \<Longrightarrow> encodeFrame type payload = Inr (fr_raw (frameOf type payload))"
  by (simp add: encodeFrame_def frameOf_def)

text \<open>One round of the loop, as a rule.\<close>

definition nextFrame :: "bytes \<Rightarrow> Frame" where
  "nextFrame b = (let raw = take (HEADER + getUint32BE b) b in \<lparr>fr_type = raw ! 3, fr_payload = drop HEADER raw, fr_raw = raw\<rparr>)"

definition frameReady :: "bytes \<Rightarrow> bool" where
  "frameReady b = (length b \<ge> HEADER + getUint32BE b \<and> b ! 0 = MAGIC0 \<and> b ! 1 = MAGIC1 \<and> b ! 2 = FRAME_VERSION \<and> b ! 3 \<in> set FrameType
     \<and> getUint32BE b \<le> MAX_FRAME_BYTES)"

lemma decodeLoop_ready:
  "frameReady b \<Longrightarrow> decodeLoop b = (case decodeLoop (drop (HEADER + getUint32BE b) b) of (r, b') \<Rightarrow> (map_sum (\<lambda>e. e) (\<lambda>fs. nextFrame b # fs) r, b'))"
  by (subst decodeLoop.simps) (auto simp: frameReady_def nextFrame_def Let_def HEADER_def)

lemma decode_encoded:
  assumes "length payload \<le> MAX_FRAME_BYTES" "type \<in> set FrameType"
  shows "decodeLoop (fr_raw (frameOf type payload) @ rest) = (case decodeLoop rest of (r, b) \<Rightarrow> (map_sum (\<lambda>e. e) (\<lambda>fs. frameOf type payload # fs) r, b))"
proof -
  let ?b = "fr_raw (frameOf type payload) @ rest"
  have len: "length payload < 2 ^ 32" using assms(1) by (simp add: MAX_FRAME_BYTES_def)
  have g: "getUint32BE ?b = length payload" using uint32_bytes [OF len] by (simp add: getUint32BE_def frameOf_def uint32BE_def)
  have "HEADER + length payload = length (fr_raw (frameOf type payload))" by (simp add: frameOf_def HEADER_def uint32BE_def)
  then have t: "take (HEADER + length payload) ?b = fr_raw (frameOf type payload)" "drop (HEADER + length payload) ?b = rest" "length ?b \<ge> HEADER + length payload"
    by simp_all
  have n: "?b ! 0 = MAGIC0" "?b ! 1 = MAGIC1" "?b ! 2 = FRAME_VERSION" "?b ! 3 = type" by (simp_all add: frameOf_def)
  have f: "\<lparr>fr_type = fr_raw (frameOf type payload) ! 3, fr_payload = drop HEADER (fr_raw (frameOf type payload)), fr_raw = fr_raw (frameOf type payload)\<rparr> = frameOf type payload"
    by (simp add: frameOf_def HEADER_def uint32BE_def)
  have "frameReady ?b" using assms t(3) n unfolding frameReady_def g by simp
  moreover have "nextFrame ?b = frameOf type payload" unfolding nextFrame_def Let_def g t(1) by (rule f)
  ultimately show ?thesis using t(2) g by (simp add: decodeLoop_ready)
qed

lemma decode_frames:
  assumes "\<forall>(t, p)\<in>set ms. length p \<le> MAX_FRAME_BYTES \<and> t \<in> set FrameType"
  shows "decodeLoop (concat (map (\<lambda>(t, p). fr_raw (frameOf t p)) ms)) = (Inr (map (\<lambda>(t, p). frameOf t p) ms), [])"
  using assms
proof (induction ms)
  case Nil
  show ?case by (simp add: decodeLoop.simps HEADER_def)
next
  case (Cons m ms)
  then show ?case by (cases m) (simp add: decode_encoded)
qed

lemma decodeLoop_stops: "\<not> frameReady b \<Longrightarrow> decodeLoop b = (Inr [], b) \<and> (length b < HEADER \<or> length b < HEADER + getUint32BE b \<and> getUint32BE b \<le> MAX_FRAME_BYTES)
    \<or> (\<exists>e. decodeLoop b = (Inl e, b) \<and> HEADER \<le> length b)"
  by (subst (1 2) decodeLoop.simps) (auto simp: frameReady_def Let_def)

lemma decode_stop_append: "decodeLoop b = (Inl e, b) \<Longrightarrow> \<not> frameReady b \<Longrightarrow> HEADER \<le> length b \<Longrightarrow> decodeLoop (b @ c) = (Inl e, b @ c)"
proof -
  assume e: "decodeLoop b = (Inl e, b)" "\<not> frameReady b" "HEADER \<le> length b"
  have g: "getUint32BE (b @ c) = getUint32BE b" "(b @ c) ! 0 = b ! 0" "(b @ c) ! 1 = b ! 1" "(b @ c) ! 2 = b ! 2" "(b @ c) ! 3 = b ! 3"
    using e(3) by (auto simp: getUint32BE_def HEADER_def nth_append)
  show "decodeLoop (b @ c) = (Inl e, b @ c)" using e unfolding decodeLoop.simps [of b] decodeLoop.simps [of "b @ c"] Let_def g frameReady_def
    by (auto split: if_splits)
qed

lemma map_sum_prepend: "map_sum (\<lambda>x. x) (\<lambda>x. f # gs @ x) r = map_sum (\<lambda>e. e) ((@) (f # gs)) r"
  by (cases r) auto

lemma map_sum_Inr: "map_sum (\<lambda>e. e) g x = Inr y \<longleftrightarrow> (\<exists>z. x = Inr z \<and> g z = y)"
  by (cases x) auto

text \<open>What is left of a buffer is decoded again with what follows it, as if it had come in one piece; an error stays.\<close>

lemma decode_append:
  "decodeLoop (a @ c) = (case decodeLoop a of (Inl e, r) \<Rightarrow> (Inl e, r @ c)
     | (Inr fs, r) \<Rightarrow> (case decodeLoop (r @ c) of (x, b) \<Rightarrow> (map_sum (\<lambda>e. e) (\<lambda>gs. fs @ gs) x, b)))"
proof (induction a rule: length_induct)
  case (1 a)
  show ?case
  proof (cases "frameReady a")
    case True
    let ?n = "HEADER + getUint32BE a"
    have l: "?n \<le> length a" "HEADER \<le> length a" using True by (auto simp: frameReady_def)
    have g: "getUint32BE (a @ c) = getUint32BE a" "(a @ c) ! 0 = a ! 0" "(a @ c) ! 1 = a ! 1" "(a @ c) ! 2 = a ! 2" "(a @ c) ! 3 = a ! 3"
      using l(2) by (auto simp: getUint32BE_def HEADER_def nth_append)
    have r: "frameReady (a @ c)" using True unfolding frameReady_def g by simp
    have d: "drop (HEADER + getUint32BE (a @ c)) (a @ c) = drop ?n a @ c" using l g(1) by simp
    have n: "nextFrame (a @ c) = nextFrame a" using l by (simp add: nextFrame_def g(1))
    have ih: "decodeLoop (drop ?n a @ c) = (case decodeLoop (drop ?n a) of (Inl e, r) \<Rightarrow> (Inl e, r @ c)
        | (Inr fs, r) \<Rightarrow> (case decodeLoop (r @ c) of (x, b) \<Rightarrow> (map_sum (\<lambda>e. e) (\<lambda>gs. fs @ gs) x, b)))"
      using 1 l by (simp add: HEADER_def)
    show ?thesis unfolding decodeLoop_ready [OF r] d n decodeLoop_ready [OF True] ih
      by (auto simp: map_sum.compositionality comp_def map_sum_prepend split: prod.splits sum.splits)
  next
    case False
    from decodeLoop_stops [OF False] show ?thesis
    proof
      assume "decodeLoop a = (Inr [], a) \<and> (length a < HEADER \<or> length a < HEADER + getUint32BE a \<and> getUint32BE a \<le> MAX_FRAME_BYTES)"
      then show ?thesis by (cases "decodeLoop (a @ c)"; cases "fst (decodeLoop (a @ c))") auto
    next
      assume "\<exists>e. decodeLoop a = (Inl e, a) \<and> HEADER \<le> length a"
      then show ?thesis using decode_stop_append [of a _ c] False by auto
    qed
  qed
qed

lemma decode_rest: "decodeLoop a = (Inr fs, r) \<Longrightarrow> decodeLoop r = (Inr [], r) \<and> a = concat (map fr_raw fs) @ r \<and> length r < HEADER + MAX_FRAME_BYTES
    \<and> (\<forall>f\<in>set fs. length (fr_raw f) \<le> HEADER + MAX_FRAME_BYTES)"
proof (induction a arbitrary: fs rule: length_induct)
  case (1 a)
  show ?case
  proof (cases "frameReady a")
    case True
    then obtain gs where d: "decodeLoop (drop (HEADER + getUint32BE a) a) = (Inr gs, r)" and fs: "fs = nextFrame a # gs"
      using 1(2) decodeLoop_ready [OF True] by (auto simp: map_sum_Inr split: prod.splits)
    have "length (drop (HEADER + getUint32BE a) a) < length a" using True by (auto simp: frameReady_def HEADER_def)
    then have ih: "decodeLoop r = (Inr [], r) \<and> drop (HEADER + getUint32BE a) a = concat (map fr_raw gs) @ r \<and> length r < HEADER + MAX_FRAME_BYTES
        \<and> (\<forall>f\<in>set gs. length (fr_raw f) \<le> HEADER + MAX_FRAME_BYTES)"
      using 1(1) d by blast
    have short: "length (fr_raw (nextFrame a)) \<le> HEADER + MAX_FRAME_BYTES" using True by (simp add: nextFrame_def frameReady_def Let_def)
    have "a = fr_raw (nextFrame a) @ drop (HEADER + getUint32BE a) a" by (simp add: nextFrame_def Let_def)
    then have "a = concat (map fr_raw fs) @ r" using ih fs by simp
    then show ?thesis using ih fs short by simp
  next
    case False
    then show ?thesis using decodeLoop_stops [OF False] 1(2) by (auto simp: MAX_FRAME_BYTES_def HEADER_def)
  qed
qed

lemma pushAll_whole: "decodeLoop r = (Inr [], r) \<Longrightarrow> decodeLoop (r @ concat cs) = (Inr fs, b) \<Longrightarrow> pushAll cs r = (Inr fs, b)"
proof (induction cs arbitrary: r fs)
  case (Cons c cs)
  have w: "decodeLoop ((r @ c) @ concat cs) = (Inr fs, b)" using Cons.prems(2) by simp
  obtain gs r' where p: "decodeLoop (r @ c) = (Inr gs, r')"
    using w unfolding decode_append [of "r @ c" "concat cs"] by (auto split: prod.splits sum.splits)
  then obtain hs where h: "decodeLoop (r' @ concat cs) = (Inr hs, b)" "fs = gs @ hs"
    using w unfolding decode_append [of "r @ c" "concat cs"] by (auto simp: map_sum_Inr split: prod.splits)
  have "pushAll cs r' = (Inr hs, b)" using Cons.IH h(1) decode_rest [OF p] by blast
  then show ?case using p h(2) by (simp add: push_def)
qed simp

lemma decodeLoop_Nil: "decodeLoop [] = (Inr [], [])"
  by (simp add: decodeLoop.simps HEADER_def)

text \<open>\<^bold>\<open>C35.\<close> However the bytes of some frames are cut into chunks, the decoder returns exactly these frames, in order, and keeps nothing.\<close>

theorem frames_any_chunking:
  assumes "\<forall>(t, p)\<in>set ms. length p \<le> MAX_FRAME_BYTES \<and> t \<in> set FrameType"
    and "mapM (\<lambda>(t, p). map_sum (\<lambda>_. RangeError) (\<lambda>b. b) (encodeFrame t p)) ms = Inr wire" and "concat chunks = concat wire"
  shows "\<exists>fs. pushAll chunks [] = (Inr fs, []) \<and> map (\<lambda>f. (fr_type f, fr_payload f)) fs = ms \<and> map fr_raw fs = wire"
proof -
  have "mapM (\<lambda>(t, p). map_sum (\<lambda>_. RangeError) (\<lambda>b. b) (encodeFrame t p)) ms = Inr (map (\<lambda>(t, p). fr_raw (frameOf t p)) ms)"
    by (rule mapM_Inr_map) (use assms(1) in \<open>auto simp: encodeFrame_raw\<close>)
  then have w: "wire = map (\<lambda>(t, p). fr_raw (frameOf t p)) ms" using assms(2) by simp
  have "decodeLoop ([] @ concat chunks) = (Inr (map (\<lambda>(t, p). frameOf t p) ms), [])" using decode_frames [OF assms(1)] assms(3) w by simp
  then have "pushAll chunks [] = (Inr (map (\<lambda>(t, p). frameOf t p) ms), [])" by (rule pushAll_whole [OF decodeLoop_Nil])
  then show ?thesis using w by (intro exI conjI) (auto simp: frameOf_def case_prod_beta comp_def intro!: map_idI)
qed

theorem frames_any_chunking_witness:
  "\<exists>fs. pushAll [[0xc0, 1, 1], [2, 0, 0, 0, 1, 9, 0xc0], [1, 1, 3, 0, 0, 0, 0]] [] = (Inr fs, []) \<and> map fr_type fs = [2, 3]"
proof -
  have e: "mapM (\<lambda>(t, p). map_sum (\<lambda>_. RangeError) (\<lambda>b. b) (encodeFrame t p)) [(2, [9]), (3, [])]
      = Inr [[0xc0, 1, 1, 2, 0, 0, 0, 1, 9], [0xc0, 1, 1, 3, 0, 0, 0, 0]]"
    by (simp add: encodeFrame_def uint32BE_def MAGIC0_def MAGIC1_def FRAME_VERSION_def MAX_FRAME_BYTES_def)
  have ok: "\<forall>(t, p)\<in>set [(2, [9 :: byte]), (3, [])]. length p \<le> MAX_FRAME_BYTES \<and> t \<in> set FrameType"
    by (simp add: MAX_FRAME_BYTES_def FrameType_def)
  have c: "concat [[0xc0, 1, 1], [2, 0, 0, 0, 1, 9, 0xc0], [1, 1, 3, 0, 0, 0, 0]] = concat [[0xc0, 1, 1, 2, 0, 0, 0, 1, 9], [0xc0, 1, 1, 3, 0, 0, 0, 0 :: byte]]"
    by simp
  obtain fs where fs: "pushAll [[0xc0, 1, 1], [2, 0, 0, 0, 1, 9, 0xc0], [1, 1, 3, 0, 0, 0, 0]] [] = (Inr fs, [])"
      "map (\<lambda>f. (fr_type f, fr_payload f)) fs = [(2, [9]), (3, [])]"
    using frames_any_chunking [OF ok e c] by (elim exE conjE) (rule that; assumption)
  have "map fr_type fs = [2, 3]" using arg_cong [OF fs(2), of "map fst"] by (simp add: comp_def)
  then show ?thesis using fs(1) by (intro exI [of _ fs] conjI)
qed

section \<open>The forwarder\<close>

lemma forwardLoop_verbatim:
  "forwardLoop cs r k n = (written, res) \<Longrightarrow> decodeLoop r = (Inr [], r) \<Longrightarrow>
     (\<exists>rest. concat written @ rest = r @ concat cs \<and> (\<forall>x. res = Inr x \<longrightarrow> rest = [] \<and> x = (k + length written, n + length (concat written))))
     \<and> (\<forall>w\<in>set written. length w \<le> HEADER + MAX_FRAME_BYTES)"
proof (induction cs arbitrary: r k n written)
  case (Cons c cs)
  show ?case
  proof (cases "fst (push r c)")
    case (Inl e)
    then have "written = []" "res = Inl (Framing e)" using Cons.prems(1) by (auto split: prod.splits)
    then show ?thesis by simp
  next
    case (Inr fs)
    then obtain r' where p: "decodeLoop (r @ c) = (Inr fs, r')" by (cases "push r c") (simp add: push_def)
    obtain w' where f: "forwardLoop cs r' (k + length fs) (n + sum_list (map (length \<circ> fr_raw) fs)) = (w', res)" and w: "written = map fr_raw fs @ w'"
      using Cons.prems(1) p by (auto simp: push_def split: prod.splits)
    have d: "decodeLoop r' = (Inr [], r')" "r @ c = concat (map fr_raw fs) @ r'" using decode_rest [OF p] by auto
    have s: "sum_list (map (length \<circ> fr_raw) fs) = length (concat (map fr_raw fs))" by (simp add: length_concat comp_def)
    obtain rest where "concat w' @ rest = r' @ concat cs" "\<forall>x. res = Inr x \<longrightarrow> rest = [] \<and> x = (k + length fs + length w', n + sum_list (map (length \<circ> fr_raw) fs) + length (concat w'))"
      and each: "\<forall>w\<in>set w'. length w \<le> HEADER + MAX_FRAME_BYTES"
      using Cons.IH [OF f d(1)] by (elim conjE exE) (rule that; assumption)
    moreover have "r @ concat (c # cs) = concat (map fr_raw fs) @ r' @ concat cs" using d(2) by simp
    moreover have "\<forall>w\<in>set (map fr_raw fs). length w \<le> HEADER + MAX_FRAME_BYTES"
      using decode_rest [OF p] by auto
    ultimately show ?thesis unfolding w s by (intro conjI exI [of _ rest]) auto
  qed
qed (auto split: if_splits)

lemma pushAll_holds: "pushAll chunks r = (Inr fs, buffer) \<Longrightarrow> length r < HEADER + MAX_FRAME_BYTES \<Longrightarrow> length buffer < HEADER + MAX_FRAME_BYTES"
proof (induction chunks arbitrary: r fs)
  case (Cons c cs)
  obtain gs r' where d: "decodeLoop (r @ c) = (Inr gs, r')" using Cons.prems(1) by (auto simp: push_def split: prod.splits sum.splits)
  obtain hs where "pushAll cs r' = (Inr hs, buffer)"
    using Cons.prems(1) d by (auto simp: push_def map_sum_Inr split: prod.splits)
  then show ?case using Cons.IH decode_rest [OF d] by blast
qed simp

text \<open>Whatever arrives and however it is cut, the host forwards a prefix of it unchanged, in frames of bounded size, and holds
  back less than one frame; the promise resolves only if every byte was forwarded, with the counts of frames and bytes.\<close>

theorem forwarder_verbatim:
  assumes "forwardFrames chunks = (written, res)"
  shows "(\<exists>rest. concat chunks = concat written @ rest \<and> (\<forall>k n. res = Inr (k, n) \<longrightarrow> rest = [] \<and> k = length written \<and> n = length (concat written)))
    \<and> (\<forall>w\<in>set written. length w \<le> HEADER + MAX_FRAME_BYTES)
    \<and> (\<forall>fs buffer. pushAll chunks [] = (Inr fs, buffer) \<longrightarrow> length buffer < HEADER + MAX_FRAME_BYTES)"
proof -
  have v: "(\<exists>rest. concat written @ rest = [] @ concat chunks \<and> (\<forall>x. res = Inr x \<longrightarrow> rest = [] \<and> x = (0 + length written, 0 + length (concat written))))
     \<and> (\<forall>w\<in>set written. length w \<le> HEADER + MAX_FRAME_BYTES)"
    by (rule forwardLoop_verbatim [OF assms [unfolded forwardFrames_def] decodeLoop_Nil])
  then obtain rest where r: "concat written @ rest = [] @ concat chunks \<and> (\<forall>x. res = Inr x \<longrightarrow> rest = [] \<and> x = (0 + length written, 0 + length (concat written)))"
    by blast
  then have rest: "concat chunks = concat written @ rest" "\<forall>x. res = Inr x \<longrightarrow> rest = [] \<and> x = (length written, length (concat written))"
    by simp_all
  show ?thesis
  proof (intro conjI)
    show "\<exists>rest. concat chunks = concat written @ rest \<and> (\<forall>k n. res = Inr (k, n) \<longrightarrow> rest = [] \<and> k = length written \<and> n = length (concat written))"
      using rest by (intro exI [of _ rest]) simp
    show "\<forall>w\<in>set written. length w \<le> HEADER + MAX_FRAME_BYTES" using v by (rule conjunct2)
    show "\<forall>fs buffer. pushAll chunks [] = (Inr fs, buffer) \<longrightarrow> length buffer < HEADER + MAX_FRAME_BYTES"
      using pushAll_holds [of chunks "[]"] by (simp add: HEADER_def)
  qed
qed

theorem forwarder_verbatim_witness:
  "\<exists>written. forwardFrames [[0xc0, 1, 1], [2, 0, 0, 0, 0]] = (written, Inr (1, 8)) \<and> concat written = [0xc0, 1, 1, 2, 0, 0, 0, 0]"
proof -
  have "forwardFrames [[0xc0, 1, 1], [2, 0, 0, 0, 0]] = ([[0xc0, 1, 1, 2, 0, 0, 0, 0]], Inr (1, 8))"
    by (simp add: forwardFrames_def push_def decodeLoop.simps HEADER_def MAGIC0_def MAGIC1_def FRAME_VERSION_def FrameType_def getUint32BE_def MAX_FRAME_BYTES_def Let_def)
  then show ?thesis using forwarder_verbatim [of "[[0xc0, 1, 1], [2, 0, 0, 0, 0]]"] by simp
qed

end
