(* ===== verification/Nitro.thy ===== *)
theory Nitro
  imports Timestamp Envelope Receipt
begin

text \<open>
  \<^verbatim>\<open>src/src/nitro/attestation.ts\<close>, \<^verbatim>\<open>normalize.ts\<close> and \<^verbatim>\<open>receipt.ts\<close>: the offline verification of Nitro attestation documents, their
  normalised form, and the sealer inside the enclave.  The CBOR decoder with maps, the encoder of the signed structure and the P-384
  operations are parameters (record \<open>nitro_env\<close>, argument \<open>N\<close>); certificates are those of \<open>tsa_env\<close>.  Details and limitations of
  checks are left out.  The clock is an argument; the default trust bundle is one value of the argument \<open>bundle\<close>.
\<close>

section \<open>Decoding\<close>

text \<open>What the decoder returns with \<^verbatim>\<open>preferMap\<close>: \<open>CInt\<close> is an integral number, \<open>CBig\<close> a bigint, \<open>COther\<close> anything else.\<close>

datatype cval = CInt int | CBig int | CText string | CBytes bytes | CArr "cval list" | CMap "(cval \<times> cval) list" | CTag int cval
  | CNull | CUndef | COther

record nitro_env =
  n_decode :: "bytes \<Rightarrow> cval res"
  n_encode :: "cval \<Rightarrow> bytes"
  n_p384 :: "X509 \<Rightarrow> bool res"
  n_verify :: "X509 \<Rightarrow> bytes \<Rightarrow> bytes \<Rightarrow> bool res"

definition ES384 :: int where
  "ES384 = - 35"

definition KNOWN_FIELDS :: "string list" where
  "KNOWN_FIELDS = [''module_id'', ''digest'', ''timestamp'', ''pcrs'', ''certificate'', ''cabundle'', ''public_key'', ''user_data'', ''nonce'']"

record Decoded =
  dc_protectedBytes :: bytes
  dc_payloadBytes :: bytes
  dc_signature :: bytes
  dc_moduleId :: string
  dc_timestampMs :: int
  dc_pcrs :: "(nat \<times> bytes) list"
  dc_certificate :: bytes
  dc_cabundle :: "bytes list"
  dc_publicKey :: "bytes option"
  dc_userData :: "bytes option"
  dc_nonce :: "bytes option"

text \<open>\<open>Inl r\<close> is a thrown \<^verbatim>\<open>Malformed\<close> with the reason \<open>r\<close>.\<close>

type_synonym 'a decoding = "string + 'a"

definition dbind :: "'a decoding \<Rightarrow> ('a \<Rightarrow> 'b decoding) \<Rightarrow> 'b decoding" where
  "dbind r f = (case r of Inl e \<Rightarrow> Inl e | Inr x \<Rightarrow> f x)"

lemma dbind_simps [simp]: "dbind (Inl e) f = Inl e" "dbind (Inr x) f = f x"
  by (simp_all add: dbind_def)

lemma dbind_Inr_iff: "dbind r f = Inr y \<longleftrightarrow> (\<exists>x. r = Inr x \<and> f x = Inr y)"
  by (cases r) auto

definition unless :: "bool \<Rightarrow> string \<Rightarrow> unit decoding" where
  "unless b reason = (if b then Inr () else Inl reason)"

lemma unless_Inr [simp]: "unless b r = Inr u \<longleftrightarrow> b"
  by (simp add: unless_def)

definition tryDecode :: "nitro_env \<Rightarrow> bytes \<Rightarrow> cval decoding" where
  "tryDecode N b = (case n_decode N b of Inl _ \<Rightarrow> Inl ''malformed_cbor'' | Inr v \<Rightarrow> Inr v)"

text \<open>\<^verbatim>\<open>Map.get\<close>.\<close>

definition fieldOfMap :: "(cval \<times> cval) list \<Rightarrow> string \<Rightarrow> cval" where
  "fieldOfMap m k = (case map_of m (CText k) of Some v \<Rightarrow> v | None \<Rightarrow> CUndef)"

definition optionalBytes :: "(cval \<times> cval) list \<Rightarrow> string \<Rightarrow> bytes option decoding" where
  "optionalBytes payload k = (case fieldOfMap payload k of
       CUndef \<Rightarrow> Inr None
     | CNull \<Rightarrow> Inr None
     | CBytes b \<Rightarrow> if length b > 1024 then Inl ''invalid_field'' else Inr (Some b)
     | _ \<Rightarrow> Inl ''invalid_field'')"

definition untag :: "cval \<Rightarrow> cval decoding" where
  "untag v = (case v of CTag t c \<Rightarrow> if t \<noteq> 18 then Inl ''unexpected_tag'' else Inr c | _ \<Rightarrow> Inr v)"

definition coseParts :: "cval \<Rightarrow> (bytes \<times> bytes \<times> bytes) decoding" where
  "coseParts outer = (case outer of
       CArr [p, u, pl, s] \<Rightarrow>
         (case (p, pl, s) of
            (CBytes pb, CBytes plb, CBytes sb) \<Rightarrow> if u = CMap [] then Inr (pb, plb, sb) else Inl ''unexpected_header''
          | _ \<Rightarrow> Inl ''not_cose_sign1'')
     | _ \<Rightarrow> Inl ''not_cose_sign1'')"

definition headerAlgorithm :: "cval \<Rightarrow> unit decoding" where
  "headerAlgorithm header = (case header of
       CMap [(k, alg)] \<Rightarrow> if k \<noteq> CInt 1 then Inl ''unexpected_header'' else unless (alg = CInt ES384) ''unsupported_algorithm''
     | _ \<Rightarrow> Inl ''unexpected_header'')"

definition knownField :: "cval \<Rightarrow> bool" where
  "knownField k = (case k of CText s \<Rightarrow> s \<in> set KNOWN_FIELDS | _ \<Rightarrow> False)"

definition timestampOf :: "cval \<Rightarrow> int decoding" where
  "timestampOf ts = (case (case ts of CInt n \<Rightarrow> Some n | CBig n \<Rightarrow> Some n | _ \<Rightarrow> None) of
       Some n \<Rightarrow> if \<bar>n\<bar> < 2 ^ 53 \<and> n > 0 then Inr n else Inl ''invalid_field''
     | None \<Rightarrow> Inl ''invalid_field'')"

text \<open>The keys of the decoded map are distinct, so that \<^verbatim>\<open>pcrs.set\<close> appends.\<close>

fun readPcrs :: "(cval \<times> cval) list \<Rightarrow> (nat \<times> bytes) list decoding" where
  "readPcrs [] = Inr []"
| "readPcrs ((k, v) # es) = (case k of
       CInt i \<Rightarrow> if i < 0 \<or> i > 31 then Inl ''invalid_field''
         else (case v of
            CBytes b \<Rightarrow> if length b \<noteq> 48 then Inl ''invalid_field'' else dbind (readPcrs es) (\<lambda>r. Inr ((nat i, b) # r))
          | _ \<Rightarrow> Inl ''invalid_field'')
     | _ \<Rightarrow> Inl ''invalid_field'')"

definition certBytes :: "cval \<Rightarrow> bytes decoding" where
  "certBytes v = (case v of CBytes b \<Rightarrow> if length b < 1 \<or> length b > 1024 then Inl ''invalid_field'' else Inr b | _ \<Rightarrow> Inl ''invalid_field'')"

fun certList :: "cval list \<Rightarrow> bytes list decoding" where
  "certList [] = Inr []"
| "certList (v # vs) = dbind (certBytes v) (\<lambda>b. dbind (certList vs) (\<lambda>r. Inr (b # r)))"

definition decodePayload :: "(cval \<times> cval) list \<Rightarrow> bytes \<Rightarrow> bytes \<Rightarrow> bytes \<Rightarrow> Decoded decoding" where
  "decodePayload payload protectedBytes payloadBytes signature =
     dbind (unless (list_all (\<lambda>(k, _). knownField k) payload) ''unexpected_field'') (\<lambda>_.
     dbind (case fieldOfMap payload ''module_id'' of CText s \<Rightarrow> if s = [] then Inl ''invalid_field'' else Inr s | _ \<Rightarrow> Inl ''invalid_field'') (\<lambda>moduleId.
     dbind (unless (fieldOfMap payload ''digest'' = CText ''SHA384'') ''invalid_field'') (\<lambda>_.
     dbind (timestampOf (fieldOfMap payload ''timestamp'')) (\<lambda>timestampMs.
     dbind (case fieldOfMap payload ''pcrs'' of CMap es \<Rightarrow> if es = [] then Inl ''invalid_field'' else readPcrs es | _ \<Rightarrow> Inl ''invalid_field'') (\<lambda>pcrs.
     dbind (certBytes (fieldOfMap payload ''certificate'')) (\<lambda>certificate.
     dbind (case fieldOfMap payload ''cabundle'' of CArr cs \<Rightarrow> if cs = [] then Inl ''invalid_field'' else certList cs | _ \<Rightarrow> Inl ''invalid_field'') (\<lambda>cabundle.
     dbind (optionalBytes payload ''public_key'') (\<lambda>publicKey.
     dbind (optionalBytes payload ''user_data'') (\<lambda>userData.
     dbind (optionalBytes payload ''nonce'') (\<lambda>nonce.
       Inr \<lparr>dc_protectedBytes = protectedBytes, dc_payloadBytes = payloadBytes, dc_signature = signature, dc_moduleId = moduleId,
            dc_timestampMs = timestampMs, dc_pcrs = pcrs, dc_certificate = certificate, dc_cabundle = cabundle, dc_publicKey = publicKey,
            dc_userData = userData, dc_nonce = nonce\<rparr>))))))))))"

definition decodeDocument :: "nitro_env \<Rightarrow> bytes \<Rightarrow> nat \<Rightarrow> Decoded decoding" where
  "decodeDocument N raw maxBytes =
     dbind (unless (\<not> (length raw = 0 \<or> length raw > maxBytes)) ''oversized_or_empty'') (\<lambda>_.
     dbind (tryDecode N raw) (\<lambda>outer. dbind (untag outer) (\<lambda>inner.
     dbind (coseParts inner) (\<lambda>(protectedBytes, payloadBytes, signature).
     dbind (tryDecode N protectedBytes) (\<lambda>header. dbind (headerAlgorithm header) (\<lambda>_.
     dbind (unless (length signature = 96) ''invalid_signature_encoding'') (\<lambda>_.
     dbind (tryDecode N payloadBytes) (\<lambda>payload.
       case payload of
         CMap m \<Rightarrow> decodePayload m protectedBytes payloadBytes signature
       | _ \<Rightarrow> Inl ''invalid_payload''))))))))"

section \<open>Certificates and the signature\<close>

fun chainFrom :: "tsa_env \<Rightarrow> env \<Rightarrow> int \<Rightarrow> X509 option \<Rightarrow> X509 list \<Rightarrow> Check option" where
  "chainFrom X P t parent [] = None"
| "chainFrom X P t parent (c # cs) =
     (if \<not> t_ge (Some t) (date_parse P (x_validFrom c)) then Some (check Fail ''certificate_not_yet_valid'')
      else if \<not> t_ge (date_parse P (x_validTo c)) (Some t) then Some (check Fail ''certificate_expired'')
      else case parent of
        None \<Rightarrow> chainFrom X P t (Some c) cs
      | Some p \<Rightarrow>
          if \<not> x_ca p then Some (check Fail ''ca_flag_missing'')
          else if \<not> checkIssued X c p then Some (check Fail ''chain_issuer_mismatch'')
          else if \<not> catching False (verifyIssued X c p) then Some (check Fail ''chain_signature_invalid'')
          else chainFrom X P t (Some c) cs)"

definition verifyChain :: "tsa_env \<Rightarrow> env \<Rightarrow> Decoded \<Rightarrow> int \<Rightarrow> Check" where
  "verifyChain X P doc t = (case mapM (x509 X) (dc_cabundle doc @ [dc_certificate doc]) of
       Inl _ \<Rightarrow> check Fail ''invalid_certificate_encoding''
     | Inr chain \<Rightarrow> (case chainFrom X P t None chain of
           Some c \<Rightarrow> c
         | None \<Rightarrow> if x_ca (last chain) then check Fail ''leaf_is_ca'' else check Pass ''chain_valid''))"

text \<open>RFC 9052: \<^verbatim>\<open>["Signature1", protected, external_aad, payload]\<close>.\<close>

definition sigStructure :: "nitro_env \<Rightarrow> Decoded \<Rightarrow> bytes" where
  "sigStructure N doc = n_encode N (CArr [CText ''Signature1'', CBytes (dc_protectedBytes doc), CBytes [], CBytes (dc_payloadBytes doc)])"

definition verifyCoseSignature :: "tsa_env \<Rightarrow> nitro_env \<Rightarrow> Decoded \<Rightarrow> Check" where
  "verifyCoseSignature X N doc = (case x509 X (dc_certificate doc) of
       Inl _ \<Rightarrow> check Fail ''invalid_certificate_encoding''
     | Inr leaf \<Rightarrow> catching (check Fail ''invalid_certificate_key'')
         (rbind (n_p384 N leaf) (\<lambda>p384.
            if \<not> p384 then Inr (check Fail ''unsupported_algorithm'')
            else rbind (n_verify N leaf (sigStructure N doc) (dc_signature doc)) (\<lambda>ok.
              Inr (if ok then check Pass ''signature_valid'' else check Fail ''signature_invalid'')))))"

section \<open>Policy and binding\<close>

definition verifyDebug :: "Decoded \<Rightarrow> Check" where
  "verifyDebug doc =
     (if list_all (\<lambda>i. case map_of (dc_pcrs doc) i of None \<Rightarrow> False | Some v \<Rightarrow> list_all (\<lambda>b. b = 0) v) [0, 1, 2]
      then check Fail ''debug_enclave'' else check Pass ''not_debug'')"

datatype PublicKeyUse = ReceiptEd25519 | UnusedKey

text \<open>\<open>np_pcr8\<close> is a hexadecimal value or the text \<^verbatim>\<open>not_applicable\<close>.\<close>

record NitroPcrPolicy =
  np_id :: string
  np_version :: string
  np_source :: string
  np_pcrs :: "(nat \<times> string) list"
  np_pcr8 :: string
  np_publicKey :: "PublicKeyUse option"

fun pcrsMatch :: "tsa_env \<Rightarrow> (nat \<times> bytes) list \<Rightarrow> (nat \<times> string) list \<Rightarrow> Check" where
  "pcrsMatch X actual [] = check Pass ''pcrs_match''"
| "pcrsMatch X actual ((i, expected) # es) = (case map_of actual i of
       None \<Rightarrow> check Fail ''pcr_missing''
     | Some v \<Rightarrow> if toHex v \<noteq> lower_case X expected then check Fail ''pcr_mismatch'' else pcrsMatch X actual es)"

definition verifyPcrs :: "tsa_env \<Rightarrow> Decoded \<Rightarrow> NitroPcrPolicy option \<Rightarrow> Check \<times> Check" where
  "verifyPcrs X doc policy = (case policy of
       None \<Rightarrow> (check NotChecked ''no_policy'', check NotChecked ''no_policy'')
     | Some p \<Rightarrow>
         if \<exists>i\<in>set [0, 1, 2]. map_of (np_pcrs p) i = None then (check Unknown ''policy_incomplete'', check Unknown ''policy_incomplete'')
         else (pcrsMatch X (dc_pcrs doc) (np_pcrs p),
               if np_pcr8 p = ''not_applicable'' then check NotApplicable ''image_not_signed''
               else case map_of (dc_pcrs doc) 8 of
                 None \<Rightarrow> check Fail ''pcr_missing''
               | Some v \<Rightarrow> if toHex v = lower_case X (np_pcr8 p) then check Pass ''pcr8_match'' else check Fail ''pcr8_mismatch''))"

definition KEY_BINDING_CONTEXT :: string where
  "KEY_BINDING_CONTEXT = ''cool.nitro.key-binding.v1''"

definition keyBindingUserData :: "env \<Rightarrow> string \<Rightarrow> DirectoryEntry \<Rightarrow> bytes res" where
  "keyBindingUserData P kid entry =
     rbind (fromBase64Field (ml_dsa_pub entry)) (\<lambda>m. rbind (fromBase64Field (ed25519_pub entry)) (\<lambda>e.
       Inr (sha256 P (concatBytes [utf8 (KEY_BINDING_CONTEXT @ [CHR 0x00]), canonicalCbor P (JObj [
         (''ctx'', JStr KEY_BINDING_CONTEXT), (''key_id'', JStr kid),
         (''keys'', JArr [JObj [(''alg'', JStr ''ml-dsa-65''), (''pub'', JBytes m)], JObj [(''alg'', JStr ''ed25519''), (''pub'', JBytes e)]])])]))))"

definition ED25519_SPKI_PREFIX :: bytes where
  "ED25519_SPKI_PREFIX = [0x30, 0x2a, 0x30, 0x05, 0x06, 0x03, 0x2b, 0x65, 0x70, 0x03, 0x21, 0x00]"

definition ed25519Spki :: "bytes \<Rightarrow> bytes res" where
  "ed25519Spki raw = (if length raw \<noteq> 32 then Inl (Error ''Ed25519'') else Inr (concatBytes [ED25519_SPKI_PREFIX, raw]))"

datatype NitroFreshness = FNonce bytes "string list option" | FWindow int "int option"

record VerifyNitroOptions =
  no_policy :: "NitroPcrPolicy option"
  no_receiptKey :: "(string \<times> DirectoryEntry) option"
  no_freshness :: "NitroFreshness option"
  no_now :: int
  no_certAtTimestamp :: bool
  no_maxBytes :: "nat option"

definition verifyBinding :: "env \<Rightarrow> Decoded \<Rightarrow> VerifyNitroOptions \<Rightarrow> (Check \<times> Check) res" where
  "verifyBinding P doc opts =
     (let mode = (case no_policy opts of Some p \<Rightarrow> (case np_publicKey p of Some u \<Rightarrow> u | None \<Rightarrow> ReceiptEd25519) | None \<Rightarrow> ReceiptEd25519) in
      case no_receiptKey opts of
        None \<Rightarrow> Inr (check NotChecked ''no_receipt_key'',
                    if mode = UnusedKey then check NotApplicable ''public_key_unused'' else check NotChecked ''no_receipt_key'')
      | Some (kid, entry) \<Rightarrow>
          rbind (keyBindingUserData P kid entry) (\<lambda>expected.
            let binding = (case dc_userData doc of
                None \<Rightarrow> check Fail ''user_data_absent''
              | Some u \<Rightarrow> if bytesEqual u expected then check Pass ''key_bound'' else check Fail ''key_binding_mismatch'') in
            if mode = UnusedKey then Inr (binding, check NotApplicable ''public_key_unused'')
            else rbind (rbind (fromBase64Field (ed25519_pub entry)) ed25519Spki) (\<lambda>spki.
              Inr (binding, case dc_publicKey doc of
                  None \<Rightarrow> check Fail ''public_key_absent''
                | Some k \<Rightarrow> if bytesEqual k spki then check Pass ''public_key_match'' else check Fail ''public_key_mismatch''))))"

text \<open>The ledger is the list of the nonces it holds; the result carries it on.\<close>

definition ledgerOf :: "VerifyNitroOptions \<Rightarrow> string list option" where
  "ledgerOf opts = (case no_freshness opts of Some (FNonce _ l) \<Rightarrow> l | _ \<Rightarrow> None)"

definition verifyFreshness :: "Decoded \<Rightarrow> VerifyNitroOptions \<Rightarrow> Check \<times> string list option" where
  "verifyFreshness doc opts = (case no_freshness opts of
       None \<Rightarrow> (check NotChecked ''freshness_policy_absent'', None)
     | Some (FNonce expected ledger) \<Rightarrow>
         (case dc_nonce doc of
            None \<Rightarrow> (check Fail ''nonce_absent'', ledger)
          | Some n \<Rightarrow>
              if \<not> bytesEqual n expected then (check Fail ''nonce_mismatch'', ledger)
              else case ledger of
                None \<Rightarrow> (check Pass ''nonce_fresh'', None)
              | Some seen \<Rightarrow> if toHex n \<in> set seen then (check Fail ''nonce_replayed'', ledger)
                             else (check Pass ''nonce_fresh'', Some (sadd (toHex n) seen)))
     | Some (FWindow maxAgeMs clockSkewMs) \<Rightarrow>
         (let skew = (case clockSkewMs of Some s \<Rightarrow> s | None \<Rightarrow> 60000); age = no_now opts - dc_timestampMs doc in
          (if age < - skew then check Fail ''timestamp_in_future''
           else if age > maxAgeMs then check Fail ''attestation_stale''
           else check Pass ''within_window'', None)))"

section \<open>The report\<close>

record NitroTrustBundle =
  nb_id :: string
  nb_version :: string
  nb_roots :: "(string \<times> bytes) list"
  nb_expiresAt :: "string option"

record NitroClaims =
  nc_verified :: bool
  nc_module_id :: string
  nc_timestamp_ms :: int
  nc_pcrs :: "(nat \<times> string) list"
  nc_public_key :: "string option"
  nc_user_data :: "string option"
  nc_nonce :: "string option"

record NitroChecks =
  nk_structure :: Check
  nk_trust_root :: Check
  nk_certificate_chain :: Check
  nk_cose_signature :: Check
  nk_debug_mode :: Check
  nk_pcr_policy :: Check
  nk_pcr8_signing :: Check
  nk_key_binding :: Check
  nk_public_key :: Check
  nk_freshness :: Check

record NitroReport =
  nr_overall :: OverallStatus
  nr_document_sha256 :: string
  nr_root :: "string option"
  nr_policy :: "(string \<times> string \<times> string) option"
  nr_claims :: "NitroClaims option"
  nr_checks :: NitroChecks
  nr_reasons :: "string list"

text \<open>The checks by name, in the order of \<^verbatim>\<open>REQUIRED\<close>.\<close>

definition NITRO_REQUIRED :: "NitroChecks \<Rightarrow> Checks" where
  "NITRO_REQUIRED k = [(''structure'', nk_structure k), (''trust_root'', nk_trust_root k), (''certificate_chain'', nk_certificate_chain k),
     (''cose_signature'', nk_cose_signature k), (''debug_mode'', nk_debug_mode k), (''pcr_policy'', nk_pcr_policy k),
     (''pcr8_signing'', nk_pcr8_signing k), (''key_binding'', nk_key_binding k), (''public_key'', nk_public_key k), (''freshness'', nk_freshness k)]"

fun summariseStep :: "(string \<times> Check) \<Rightarrow> OverallStatus \<times> string list \<Rightarrow> OverallStatus \<times> string list" where
  "summariseStep (name, c) (overall, reasons) =
     (if c_status c = Pass \<or> c_status c = NotApplicable then (overall, reasons)
      else (if c_status c = Fail then OFail else if overall = OPass then OUnknown else overall, reasons @ [name @ '': '' @ c_reason c]))"

definition nitroSummarise :: "NitroChecks \<Rightarrow> OverallStatus \<times> string list" where
  "nitroSummarise checks = fold summariseStep (NITRO_REQUIRED checks) (OPass, [])"

definition nitroReport :: "env \<Rightarrow> bytes \<Rightarrow> VerifyNitroOptions \<Rightarrow> NitroChecks \<Rightarrow> string option \<Rightarrow> NitroClaims option \<Rightarrow> NitroReport" where
  "nitroReport P raw opts checks rootName decoded =
     (let (overall, reasons) = nitroSummarise checks in
      \<lparr>nr_overall = overall, nr_document_sha256 = toHex (sha256 P raw), nr_root = rootName,
       nr_policy = map_option (\<lambda>p. (np_id p, np_version p, np_source p)) (no_policy opts), nr_claims = decoded, nr_checks = checks, nr_reasons = reasons\<rparr>)"

definition CLAIMS_UNVERIFIED :: Check where
  "CLAIMS_UNVERIFIED = check NotChecked ''claims_unverified''"

definition trustRootCheck :: "env \<Rightarrow> NitroTrustBundle \<Rightarrow> int \<Rightarrow> (string \<times> bytes) option \<Rightarrow> Check" where
  "trustRootCheck P bundle now anchor = (case anchor of
       None \<Rightarrow> check Fail ''untrusted_root''
     | Some _ \<Rightarrow> if (case nb_expiresAt bundle of None \<Rightarrow> False | Some e \<Rightarrow> e \<noteq> [] \<and> t_gt (Some now) (date_parse P e))
         then check Unknown ''trust_bundle_stale'' else check Pass ''root_pinned'')"

definition claimsOf :: "Decoded \<Rightarrow> bool \<Rightarrow> NitroClaims" where
  "claimsOf doc verified = \<lparr>nc_verified = verified, nc_module_id = dc_moduleId doc, nc_timestamp_ms = dc_timestampMs doc,
     nc_pcrs = map (\<lambda>(i, v). (i, toHex v)) (dc_pcrs doc), nc_public_key = map_option toHex (dc_publicKey doc),
     nc_user_data = map_option toHex (dc_userData doc), nc_nonce = map_option toHex (dc_nonce doc)\<rparr>"

text \<open>\<^verbatim>\<open>new Date(t).toISOString()\<close>, which throws outside the range of a date.\<close>

definition isoTime :: "int \<Rightarrow> unit res" where
  "isoTime t = (if \<bar>t\<bar> > 8640000000000000 then Inl RangeError else Inr ())"

definition pinnedRoot :: "NitroTrustBundle \<Rightarrow> Decoded \<Rightarrow> (string \<times> bytes) option" where
  "pinnedRoot bundle doc = find (\<lambda>(_, der). bytesEqual der (hd (dc_cabundle doc))) (nb_roots bundle)"

definition certTime :: "VerifyNitroOptions \<Rightarrow> Decoded \<Rightarrow> int" where
  "certTime opts doc = (if no_certAtTimestamp opts then dc_timestampMs doc else no_now opts)"

text \<open>\<^verbatim>\<open>verified\<close>: trust root, chain and signature all passed.\<close>

definition nitroVerified :: "tsa_env \<Rightarrow> nitro_env \<Rightarrow> env \<Rightarrow> Decoded \<Rightarrow> NitroTrustBundle \<Rightarrow> VerifyNitroOptions \<Rightarrow> bool" where
  "nitroVerified X N P doc bundle opts = (c_status (trustRootCheck P bundle (no_now opts) (pinnedRoot bundle doc)) = Pass
     \<and> c_status (verifyChain X P doc (certTime opts doc)) = Pass \<and> c_status (verifyCoseSignature X N doc) = Pass)"

definition MAX_BYTES :: "VerifyNitroOptions \<Rightarrow> nat" where
  "MAX_BYTES opts = (case no_maxBytes opts of Some n \<Rightarrow> n | None \<Rightarrow> 16 * 1024)"

definition malformedChecks :: "string \<Rightarrow> NitroChecks" where
  "malformedChecks reason = (let skipped = check NotChecked ''structure_invalid'' in
     \<lparr>nk_structure = check Fail reason, nk_trust_root = skipped, nk_certificate_chain = skipped, nk_cose_signature = skipped,
      nk_debug_mode = skipped, nk_pcr_policy = skipped, nk_pcr8_signing = skipped, nk_key_binding = skipped, nk_public_key = skipped,
      nk_freshness = skipped\<rparr>)"

text \<open>The report and the nonce ledger afterwards.\<close>

definition verifyNitroAttestation :: "tsa_env \<Rightarrow> nitro_env \<Rightarrow> env \<Rightarrow> bytes \<Rightarrow> NitroTrustBundle \<Rightarrow> VerifyNitroOptions
    \<Rightarrow> (NitroReport \<times> string list option) res" where
  "verifyNitroAttestation X N P raw bundle opts = (case decodeDocument N raw (MAX_BYTES opts) of
       Inl reason \<Rightarrow> Inr (nitroReport P raw opts (malformedChecks reason) None None, ledgerOf opts)
     | Inr doc \<Rightarrow>
         (let anchor = pinnedRoot bundle doc;
              verified = nitroVerified X N P doc bundle opts
          in rbind (isoTime (certTime opts doc)) (\<lambda>_.
             rbind (if verified then verifyBinding P doc opts else Inr (CLAIMS_UNVERIFIED, CLAIMS_UNVERIFIED)) (\<lambda>(binding, publicKey).
               let (pcrs, pcr8) = (if verified then verifyPcrs X doc (no_policy opts) else (CLAIMS_UNVERIFIED, CLAIMS_UNVERIFIED));
                   debug = (if verified then verifyDebug doc else CLAIMS_UNVERIFIED);
                   (fresh, ledger) = (if verified then verifyFreshness doc opts else (CLAIMS_UNVERIFIED, ledgerOf opts))
               in Inr (nitroReport P raw opts \<lparr>nk_structure = check Pass ''well_formed'',
                    nk_trust_root = trustRootCheck P bundle (no_now opts) anchor, nk_certificate_chain = verifyChain X P doc (certTime opts doc),
                    nk_cose_signature = verifyCoseSignature X N doc, nk_debug_mode = debug, nk_pcr_policy = pcrs, nk_pcr8_signing = pcr8,
                    nk_key_binding = binding, nk_public_key = publicKey, nk_freshness = fresh\<rparr>
                    (map_option fst anchor) (Some (claimsOf doc verified)), ledger)))))"

text \<open>A verifier that answers requests in turn with one ledger: the nonce of each and its report.  A call that throws leaves the ledger as
  it is, because the ledger is the last thing a verification touches.\<close>

fun nitroSession :: "tsa_env \<Rightarrow> nitro_env \<Rightarrow> env \<Rightarrow> NitroTrustBundle \<Rightarrow> (bytes \<times> bytes \<times> VerifyNitroOptions) list \<Rightarrow> string list
    \<Rightarrow> (bytes \<times> NitroReport) list" where
  "nitroSession X N P bundle [] seen = []"
| "nitroSession X N P bundle ((raw, n, opts) # reqs) seen =
     (case verifyNitroAttestation X N P raw bundle (opts\<lparr>no_freshness := Some (FNonce n (Some seen))\<rparr>) of
        Inl _ \<Rightarrow> nitroSession X N P bundle reqs seen
      | Inr (r, l) \<Rightarrow> (n, r) # nitroSession X N P bundle reqs (case l of Some s \<Rightarrow> s | None \<Rightarrow> seen))"

section \<open>Lemmas\<close>

lemma summarise_fold:
  "fst (fold summariseStep cs (o0, rs)) =
     (if o0 = OFail \<or> (\<exists>c\<in>set cs. c_status (snd c) = Fail) then OFail
      else if o0 = OUnknown \<or> (\<exists>c\<in>set cs. \<not> fine (c_status (snd c))) then OUnknown else OPass)"
proof (induction cs arbitrary: o0 rs)
  case Nil
  show ?case by (cases o0) auto
next
  case (Cons c cs)
  obtain n d where c: "c = (n, d)" by (cases c)
  show ?case unfolding c by (cases o0; cases "c_status d") (simp_all add: Cons.IH fine_def)
qed

lemma nitroReport_simps [simp]:
  "nr_overall (nitroReport P raw opts k a d) = fst (nitroSummarise k)"
  "nr_checks (nitroReport P raw opts k a d) = k"
  "nr_claims (nitroReport P raw opts k a d) = d"
  by (simp_all add: nitroReport_def case_prod_beta Let_def)

lemma summarise_OPass: "fst (nitroSummarise k) = OPass \<longleftrightarrow> (\<forall>c\<in>set (NITRO_REQUIRED k). fine (c_status (snd c)))"
  unfolding nitroSummarise_def summarise_fold by (auto simp: fine_def)

text \<open>The path the verifier accepts: every certificate valid at the time, each issued and signed by the one before it, a CA.\<close>

definition nitroPath :: "tsa_env \<Rightarrow> env \<Rightarrow> int \<Rightarrow> X509 list \<Rightarrow> bool" where
  "nitroPath X P t chain = (list_all (validAt P t) chain
     \<and> successively (\<lambda>p c. x_ca p \<and> checkIssued X c p \<and> verifyIssued X c p = Inr True) chain \<and> \<not> x_ca (last chain))"

lemma catching_False: "catching False r \<longleftrightarrow> r = Inr True"
  by (cases r) auto

lemma chainFrom_None:
  "chainFrom X P t parent cs = None \<longleftrightarrow> list_all (validAt P t) cs
     \<and> successively (\<lambda>p c. x_ca p \<and> checkIssued X c p \<and> verifyIssued X c p = Inr True) (case parent of None \<Rightarrow> cs | Some p \<Rightarrow> p # cs)"
  by (induction cs arbitrary: parent) (auto simp: validAt_def catching_False successively_Cons split: option.split)

lemma chainFrom_status: "chainFrom X P t parent cs = Some c \<Longrightarrow> c_status c = Fail"
  by (induction cs arbitrary: parent) (auto split: option.split_asm if_split_asm)

lemma verifyChain_Pass:
  "c_status (verifyChain X P doc t) = Pass \<longleftrightarrow> (\<exists>chain. mapM (x509 X) (dc_cabundle doc @ [dc_certificate doc]) = Inr chain \<and> nitroPath X P t chain)"
proof (cases "mapM (x509 X) (dc_cabundle doc @ [dc_certificate doc])")
  case (Inr chain)
  show ?thesis
  proof (cases "chainFrom X P t None chain")
    case None
    then show ?thesis using Inr chainFrom_None [THEN iffD1, OF None] by (simp add: verifyChain_def nitroPath_def)
  next
    case (Some c)
    then have "chainFrom X P t None chain \<noteq> None" by simp
    then show ?thesis using Inr Some chainFrom_status [OF Some] unfolding chainFrom_None by (auto simp: verifyChain_def nitroPath_def)
  qed
qed (simp add: verifyChain_def)

lemma verifyCoseSignature_Pass:
  "c_status (verifyCoseSignature X N doc) = Pass \<longleftrightarrow>
     (\<exists>leaf. x509 X (dc_certificate doc) = Inr leaf \<and> n_p384 N leaf = Inr True \<and> n_verify N leaf (sigStructure N doc) (dc_signature doc) = Inr True)"
proof (cases "x509 X (dc_certificate doc)")
  case (Inr leaf)
  then show ?thesis
    by (cases "n_p384 N leaf"; cases "n_verify N leaf (sigStructure N doc) (dc_signature doc)") (simp_all add: verifyCoseSignature_def)
qed (simp add: verifyCoseSignature_def)

text \<open>What the policy asks of the measurements.\<close>

definition measured :: "tsa_env \<Rightarrow> Decoded \<Rightarrow> NitroPcrPolicy \<Rightarrow> bool" where
  "measured X doc p = ((\<forall>i\<in>{0, 1, 2}. i \<in> fst ` set (np_pcrs p))
     \<and> (\<forall>(i, expected)\<in>set (np_pcrs p). map_option toHex (map_of (dc_pcrs doc) i) = Some (lower_case X expected))
     \<and> (np_pcr8 p = ''not_applicable'' \<or> map_option toHex (map_of (dc_pcrs doc) 8) = Some (lower_case X (np_pcr8 p))))"

lemma pcrsMatch_fine:
  "fine (c_status (pcrsMatch X actual es)) \<longleftrightarrow> (\<forall>(i, expected)\<in>set es. map_option toHex (map_of actual i) = Some (lower_case X expected))"
proof (induction es)
  case Nil
  show ?case by (simp add: fine_def)
next
  case (Cons e es)
  obtain i x where e: "e = (i, x)" by (cases e)
  show ?case unfolding e by (cases "map_of actual i") (auto simp: fine_def Cons.IH [unfolded fine_def])
qed

lemma verifyPcrs_fine:
  "fine (c_status (fst (verifyPcrs X doc policy))) \<and> fine (c_status (snd (verifyPcrs X doc policy))) \<longleftrightarrow> (\<exists>p. policy = Some p \<and> measured X doc p)"
proof (cases policy)
  case None
  then show ?thesis by (simp add: verifyPcrs_def fine_def)
next
  case (Some p)
  show ?thesis
  proof (cases "\<exists>i\<in>set [0, 1, 2]. map_of (np_pcrs p) i = None")
    case True
    then show ?thesis using Some by (auto simp: verifyPcrs_def measured_def fine_def map_of_eq_None_iff)
  next
    case False
    then have "\<forall>i\<in>{0, 1, 2}. i \<in> fst ` set (np_pcrs p)" by (simp add: map_of_eq_None_iff)
    moreover have "fine (c_status (snd (verifyPcrs X doc policy))) \<longleftrightarrow>
        (np_pcr8 p = ''not_applicable'' \<or> map_option toHex (map_of (dc_pcrs doc) 8) = Some (lower_case X (np_pcr8 p)))"
      using Some False by (auto simp: verifyPcrs_def fine_def split: option.split)
    moreover have "fst (verifyPcrs X doc policy) = pcrsMatch X (dc_pcrs doc) (np_pcrs p)"
      by (simp only: verifyPcrs_def Some option.case if_not_P [OF False] fst_conv)
    ultimately show ?thesis using Some by (simp add: measured_def pcrsMatch_fine)
  qed
qed

lemma verifyDebug_fine: "fine (c_status (verifyDebug doc)) \<longleftrightarrow> (\<exists>i\<in>{0, 1, 2}. \<forall>v. map_of (dc_pcrs doc) i = Some v \<longrightarrow> (\<exists>b\<in>set v. b \<noteq> 0))"
  by (auto simp: verifyDebug_def fine_def list_all_iff split: option.split)

lemma verifyBinding_fine:
  assumes "verifyBinding P doc opts = Inr (b, k)" "fine (c_status b)"
  shows "\<exists>kid entry bound. no_receiptKey opts = Some (kid, entry) \<and> keyBindingUserData P kid entry = Inr bound \<and> dc_userData doc = Some bound
    \<and> (fine (c_status k) \<longrightarrow> (\<exists>p. no_policy opts = Some p \<and> np_publicKey p = Some UnusedKey)
        \<or> (\<exists>spki. rbind (fromBase64Field (ed25519_pub entry)) ed25519Spki = Inr spki \<and> dc_publicKey doc = Some spki))"
proof (cases "no_receiptKey opts")
  case None
  then show ?thesis using assms by (auto simp: verifyBinding_def Let_def fine_def)
next
  case (Some q)
  obtain kid entry where q: "q = (kid, entry)" by (cases q)
  obtain bound where bound: "keyBindingUserData P kid entry = Inr bound"
    using assms(1) Some q by (cases "keyBindingUserData P kid entry") (auto simp: verifyBinding_def Let_def)
  have b: "b = (case dc_userData doc of None \<Rightarrow> check Fail ''user_data_absent''
        | Some u \<Rightarrow> if bytesEqual u bound then check Pass ''key_bound'' else check Fail ''key_binding_mismatch'')"
    using assms(1) Some q bound
    by (cases "rbind (fromBase64Field (ed25519_pub entry)) ed25519Spki") (auto simp: verifyBinding_def Let_def split: if_split_asm)
  have u: "dc_userData doc = Some bound" using assms(2) unfolding b by (auto simp: fine_def split: option.split_asm if_split_asm)
  have "(\<exists>p. no_policy opts = Some p \<and> np_publicKey p = Some UnusedKey)
        \<or> (\<exists>spki. rbind (fromBase64Field (ed25519_pub entry)) ed25519Spki = Inr spki \<and> dc_publicKey doc = Some spki)" if "fine (c_status k)"
    using assms(1) that Some q bound
    by (cases "rbind (fromBase64Field (ed25519_pub entry)) ed25519Spki")
      (auto simp: verifyBinding_def Let_def fine_def split: if_split_asm option.split_asm)
  then show ?thesis using Some q bound u by blast
qed

lemma verifyFreshness_fine:
  assumes "fine (c_status (fst (verifyFreshness doc opts)))"
  shows "(\<exists>n seen. no_freshness opts = Some (FNonce n seen) \<and> dc_nonce doc = Some n \<and> (\<forall>s. seen = Some s \<longrightarrow> toHex n \<notin> set s))
    \<or> (\<exists>maxAge skew. no_freshness opts = Some (FWindow maxAge skew) \<and> no_now opts - dc_timestampMs doc \<le> maxAge
        \<and> - (case skew of Some s \<Rightarrow> s | None \<Rightarrow> 60000) \<le> no_now opts - dc_timestampMs doc)"
proof (cases "no_freshness opts")
  case None
  then show ?thesis using assms by (simp add: verifyFreshness_def fine_def)
next
  case (Some f)
  then show ?thesis using assms
    by (cases f) (auto simp: verifyFreshness_def fine_def Let_def split: option.split_asm if_split_asm)
qed

text \<open>The checks of a document that decodes.\<close>

lemma verify_decoded:
  assumes "verifyNitroAttestation X N P raw bundle opts = Inr (r, l)" and "decodeDocument N raw (MAX_BYTES opts) = Inr doc"
  shows "nr_overall r = fst (nitroSummarise (nr_checks r)) \<and> nr_claims r = Some (claimsOf doc (nitroVerified X N P doc bundle opts))
    \<and> nk_trust_root (nr_checks r) = trustRootCheck P bundle (no_now opts) (pinnedRoot bundle doc)
    \<and> nk_certificate_chain (nr_checks r) = verifyChain X P doc (certTime opts doc) \<and> nk_cose_signature (nr_checks r) = verifyCoseSignature X N doc
    \<and> nk_structure (nr_checks r) = check Pass ''well_formed''
    \<and> (if nitroVerified X N P doc bundle opts
        then verifyBinding P doc opts = Inr (nk_key_binding (nr_checks r), nk_public_key (nr_checks r))
          \<and> verifyPcrs X doc (no_policy opts) = (nk_pcr_policy (nr_checks r), nk_pcr8_signing (nr_checks r))
          \<and> nk_debug_mode (nr_checks r) = verifyDebug doc \<and> verifyFreshness doc opts = (nk_freshness (nr_checks r), l)
        else nk_key_binding (nr_checks r) = CLAIMS_UNVERIFIED \<and> nk_public_key (nr_checks r) = CLAIMS_UNVERIFIED
          \<and> nk_pcr_policy (nr_checks r) = CLAIMS_UNVERIFIED \<and> nk_pcr8_signing (nr_checks r) = CLAIMS_UNVERIFIED
          \<and> nk_debug_mode (nr_checks r) = CLAIMS_UNVERIFIED \<and> nk_freshness (nr_checks r) = CLAIMS_UNVERIFIED \<and> l = ledgerOf opts)"
proof (cases "isoTime (certTime opts doc)")
  case (Inl e)
  then show ?thesis using assms by (simp add: verifyNitroAttestation_def Let_def)
next
  case (Inr u)
  show ?thesis
    using assms Inr
    by (cases "nitroVerified X N P doc bundle opts"; cases "verifyBinding P doc opts"; cases "verifyPcrs X doc (no_policy opts)"; cases "verifyFreshness doc opts")
      (auto simp: verifyNitroAttestation_def Let_def)
qed

lemma verify_undecoded:
  assumes "verifyNitroAttestation X N P raw bundle opts = Inr (r, l)"
    and "decodeDocument N raw (MAX_BYTES opts) = Inl e"
  shows "nr_overall r = fst (nitroSummarise (nr_checks r)) \<and> nr_claims r = None \<and> l = ledgerOf opts
    \<and> nr_checks r = malformedChecks e"
  using assms unfolding verifyNitroAttestation_def by (auto simp: Let_def)

lemma find_holds: "find Q xs = Some x \<Longrightarrow> x \<in> set xs \<and> Q x"
  by (induction xs) (auto split: if_split_asm)

lemma trustRoot_Pass:
  "c_status (trustRootCheck P bundle t (pinnedRoot bundle doc)) = Pass \<Longrightarrow>
     hd (dc_cabundle doc) \<in> snd ` set (nb_roots bundle) \<and> (\<forall>e. nb_expiresAt bundle = Some e \<longrightarrow> e = [] \<or> \<not> t_gt (Some t) (date_parse P e))"
  by (cases "pinnedRoot bundle doc")
    (auto simp: trustRootCheck_def pinnedRoot_def image_iff split: option.split_asm if_split_asm dest!: find_holds intro: bexI [rotated])

text \<open>\<^bold>\<open>C36.\<close> A passing Nitro report: the document decodes, its bundle starts with a pinned root under review, the path is valid and the
  leaf signed the document with a P-384 key; the enclave is not in debug mode, the pinned measurements are those of the document, its
  user data commits to the receipt key, and its nonce or time is within what the caller asked for.\<close>

theorem nitro_pass_sound:
  assumes "verifyNitroAttestation X N P raw bundle opts = Inr (r, ledger)" and "nr_overall r = OPass"
  shows "\<exists>doc chain policy kid entry. decodeDocument N raw (MAX_BYTES opts) = Inr doc
    \<and> hd (dc_cabundle doc) \<in> snd ` set (nb_roots bundle)
    \<and> (\<forall>e. nb_expiresAt bundle = Some e \<longrightarrow> e = [] \<or> \<not> t_gt (Some (no_now opts)) (date_parse P e))
    \<and> mapM (x509 X) (dc_cabundle doc @ [dc_certificate doc]) = Inr chain
    \<and> nitroPath X P (certTime opts doc) chain
    \<and> (\<exists>leaf. x509 X (dc_certificate doc) = Inr leaf \<and> n_p384 N leaf = Inr True \<and> n_verify N leaf (sigStructure N doc) (dc_signature doc) = Inr True)
    \<and> (\<exists>i\<in>{0, 1, 2}. \<forall>v. map_of (dc_pcrs doc) i = Some v \<longrightarrow> (\<exists>b\<in>set v. b \<noteq> 0))
    \<and> no_policy opts = Some policy \<and> measured X doc policy
    \<and> no_receiptKey opts = Some (kid, entry) \<and> (\<exists>bound. keyBindingUserData P kid entry = Inr bound \<and> dc_userData doc = Some bound)
    \<and> (np_publicKey policy = Some UnusedKey
        \<or> (\<exists>spki. rbind (fromBase64Field (ed25519_pub entry)) ed25519Spki = Inr spki \<and> dc_publicKey doc = Some spki))
    \<and> ((\<exists>n seen. no_freshness opts = Some (FNonce n seen) \<and> dc_nonce doc = Some n \<and> (\<forall>s. seen = Some s \<longrightarrow> toHex n \<notin> set s))
       \<or> (\<exists>maxAge skew. no_freshness opts = Some (FWindow maxAge skew) \<and> no_now opts - dc_timestampMs doc \<le> maxAge
            \<and> - (case skew of Some s \<Rightarrow> s | None \<Rightarrow> 60000) \<le> no_now opts - dc_timestampMs doc))"
proof (cases "decodeDocument N raw (MAX_BYTES opts)")
  case (Inl e)
  have "\<forall>c\<in>set (NITRO_REQUIRED (nr_checks r)). fine (c_status (snd c))"
    using verify_undecoded [OF assms(1) Inl] assms(2) summarise_OPass by metis
  then have "fine (c_status (nk_structure (nr_checks r)))" by (simp add: NITRO_REQUIRED_def)
  then show ?thesis using verify_undecoded [OF assms(1) Inl] by (simp add: fine_def malformedChecks_def Let_def)
next
  case (Inr doc)
  note d = verify_decoded [OF assms(1) Inr]
  have "\<forall>c\<in>set (NITRO_REQUIRED (nr_checks r)). fine (c_status (snd c))" using d assms(2) summarise_OPass by metis
  then have f: "fine (c_status (nk_debug_mode (nr_checks r)))" "fine (c_status (nk_pcr_policy (nr_checks r)))" "fine (c_status (nk_pcr8_signing (nr_checks r)))"
      "fine (c_status (nk_key_binding (nr_checks r)))" "fine (c_status (nk_public_key (nr_checks r)))" "fine (c_status (nk_freshness (nr_checks r)))"
    by (simp_all add: NITRO_REQUIRED_def)
  have v: "nitroVerified X N P doc bundle opts"
    using d f(1) by (auto simp: CLAIMS_UNVERIFIED_def fine_def split: if_split_asm)
  note k = d [unfolded if_P [OF v]]
  obtain chain where chain: "mapM (x509 X) (dc_cabundle doc @ [dc_certificate doc]) = Inr chain"
      "nitroPath X P (certTime opts doc) chain"
    using v unfolding nitroVerified_def verifyChain_Pass by blast
  have leaf: "\<exists>leaf. x509 X (dc_certificate doc) = Inr leaf \<and> n_p384 N leaf = Inr True \<and> n_verify N leaf (sigStructure N doc) (dc_signature doc) = Inr True"
    using v unfolding nitroVerified_def verifyCoseSignature_Pass by blast
  have root: "hd (dc_cabundle doc) \<in> snd ` set (nb_roots bundle) \<and> (\<forall>e. nb_expiresAt bundle = Some e \<longrightarrow> e = [] \<or> \<not> t_gt (Some (no_now opts)) (date_parse P e))"
    using v unfolding nitroVerified_def by (intro trustRoot_Pass) simp
  obtain policy where policy: "no_policy opts = Some policy" "measured X doc policy"
    using verifyPcrs_fine [of X doc "no_policy opts"] k f(2,3) by auto
  have debug: "\<exists>i\<in>{0, 1, 2}. \<forall>v. map_of (dc_pcrs doc) i = Some v \<longrightarrow> (\<exists>b\<in>set v. b \<noteq> 0)"
    using verifyDebug_fine [of doc] k f(1) by simp
  have b: "verifyBinding P doc opts = Inr (nk_key_binding (nr_checks r), nk_public_key (nr_checks r))" using k by blast
  obtain kid entry bound where key: "no_receiptKey opts = Some (kid, entry)" "keyBindingUserData P kid entry = Inr bound" "dc_userData doc = Some bound"
      "(\<exists>p. no_policy opts = Some p \<and> np_publicKey p = Some UnusedKey)
        \<or> (\<exists>spki. rbind (fromBase64Field (ed25519_pub entry)) ed25519Spki = Inr spki \<and> dc_publicKey doc = Some spki)"
    using verifyBinding_fine [OF b f(4)] f(5) by blast
  have fresh: "fine (c_status (fst (verifyFreshness doc opts)))" using k f(6) by simp
  have key': "np_publicKey policy = Some UnusedKey
        \<or> (\<exists>spki. rbind (fromBase64Field (ed25519_pub entry)) ed25519Spki = Inr spki \<and> dc_publicKey doc = Some spki)"
    using key(4) policy(1) by simp
  have bound: "\<exists>bound. keyBindingUserData P kid entry = Inr bound \<and> dc_userData doc = Some bound" using key(2,3) by blast
  show ?thesis
    by (rule exI [of _ doc], rule exI [of _ chain], rule exI [of _ policy], rule exI [of _ kid], rule exI [of _ entry], intro conjI)
      (rule Inr root [THEN conjunct1] root [THEN conjunct2] chain leaf debug policy key(1) bound key' verifyFreshness_fine [OF fresh])+
qed


lemma nonce_step:
  assumes "verifyNitroAttestation X N P raw bundle (opts\<lparr>no_freshness := Some (FNonce n (Some seen))\<rparr>) = Inr (r, l)"
  shows "if c_status (nk_freshness (nr_checks r)) = Pass then toHex n \<notin> set seen \<and> l = Some (sadd (toHex n) seen) else l = Some seen"
proof (cases "decodeDocument N raw (MAX_BYTES (opts\<lparr>no_freshness := Some (FNonce n (Some seen))\<rparr>))")
  case (Inl e)
  show ?thesis using verify_undecoded [OF assms Inl] by (simp add: malformedChecks_def Let_def ledgerOf_def)
next
  case (Inr doc)
  note d = verify_decoded [OF assms Inr]
  show ?thesis
  proof (cases "nitroVerified X N P doc bundle (opts\<lparr>no_freshness := Some (FNonce n (Some seen))\<rparr>)")
    case True
    then have f: "verifyFreshness doc (opts\<lparr>no_freshness := Some (FNonce n (Some seen))\<rparr>) = (nk_freshness (nr_checks r), l)" using d by simp
    have "nk_freshness (nr_checks r) = fst (verifyFreshness doc (opts\<lparr>no_freshness := Some (FNonce n (Some seen))\<rparr>))"
      "l = snd (verifyFreshness doc (opts\<lparr>no_freshness := Some (FNonce n (Some seen))\<rparr>))" unfolding f by simp_all
    then show ?thesis by (cases "dc_nonce doc") (simp_all add: verifyFreshness_def)
  next
    case False
    then have "nk_freshness (nr_checks r) = CLAIMS_UNVERIFIED" "l = ledgerOf (opts\<lparr>no_freshness := Some (FNonce n (Some seen))\<rparr>)" using d by simp_all
    then show ?thesis by (simp add: CLAIMS_UNVERIFIED_def ledgerOf_def)
  qed
qed

lemma session_fresh:
  "distinct (map (toHex \<circ> fst) (filter (\<lambda>(n, r). c_status (nk_freshness (nr_checks r)) = Pass) (nitroSession X N P bundle reqs seen)))
   \<and> set seen \<inter> set (map (toHex \<circ> fst) (filter (\<lambda>(n, r). c_status (nk_freshness (nr_checks r)) = Pass) (nitroSession X N P bundle reqs seen))) = {}"
proof (induction reqs arbitrary: seen)
  case (Cons q reqs)
  obtain raw n opts where q: "q = (raw, n, opts)" by (cases q)
  show ?case
  proof (cases "verifyNitroAttestation X N P raw bundle (opts\<lparr>no_freshness := Some (FNonce n (Some seen))\<rparr>)")
    case (Inl e)
    then show ?thesis using Cons.IH q by simp
  next
    case (Inr x)
    obtain r l where x: "x = (r, l)" by (cases x)
    note s = nonce_step [OF Inr [unfolded x]]
    show ?thesis
    proof (cases "c_status (nk_freshness (nr_checks r)) = Pass")
      case True
      then have "toHex n \<notin> set seen" "l = Some (sadd (toHex n) seen)" using s by simp_all
      then show ?thesis using Cons.IH [of "sadd (toHex n) seen"] q x Inr True by auto
    next
      case False
      then show ?thesis using Cons.IH [of seen] q x Inr s by simp
    qed
  qed
qed simp

text \<open>\<^bold>\<open>C37.\<close> Whatever documents arrive and whatever is asked of them, with one ledger no nonce is accepted as fresh twice, nor one the
  ledger already held.\<close>

theorem nitro_nonce_once:
  "distinct (map (toHex \<circ> fst) (filter (\<lambda>(n, r). c_status (nk_freshness (nr_checks r)) = Pass) (nitroSession X N P bundle reqs seen)))
   \<and> set seen \<inter> set (map (toHex \<circ> fst) (filter (\<lambda>(n, r). c_status (nk_freshness (nr_checks r)) = Pass) (nitroSession X N P bundle reqs seen))) = {}"
  by (rule session_fresh)

text \<open>Claims that were not verified count for nothing: they are not compared, the report does not pass and no nonce is consumed.\<close>

lemma unverified_claims_unused:
  assumes "verifyNitroAttestation X N P raw bundle opts = Inr (r, l)" "nr_claims r = Some c" "\<not> nc_verified c"
  shows "nr_overall r \<noteq> OPass \<and> l = ledgerOf opts \<and> nk_pcr_policy (nr_checks r) = CLAIMS_UNVERIFIED \<and> nk_key_binding (nr_checks r) = CLAIMS_UNVERIFIED"
proof (cases "decodeDocument N raw (MAX_BYTES opts)")
  case (Inl e)
  then show ?thesis using verify_undecoded [OF assms(1) Inl] assms(2) by simp
next
  case (Inr doc)
  note d = verify_decoded [OF assms(1) Inr]
  have "\<not> nitroVerified X N P doc bundle opts" using d assms(2,3) by (simp add: claimsOf_def)
  then have k: "nk_key_binding (nr_checks r) = CLAIMS_UNVERIFIED" "l = ledgerOf opts" "nk_pcr_policy (nr_checks r) = CLAIMS_UNVERIFIED" using d by simp_all
  then have "\<not> (\<forall>c\<in>set (NITRO_REQUIRED (nr_checks r)). fine (c_status (snd c)))" by (simp add: NITRO_REQUIRED_def CLAIMS_UNVERIFIED_def fine_def)
  then show ?thesis using k d summarise_OPass by metis
qed

text \<open>A timestamp beyond the range of dates in a document nobody signed makes the verification throw, when certificates are judged at
  that timestamp.\<close>

lemma late_timestamp_throws:
  "no_certAtTimestamp opts \<Longrightarrow> decodeDocument N raw (MAX_BYTES opts) = Inr doc \<Longrightarrow> dc_timestampMs doc > 8640000000000000
     \<Longrightarrow> verifyNitroAttestation X N P raw bundle opts = Inl RangeError"
  by (simp add: verifyNitroAttestation_def certTime_def isoTime_def Let_def)

text \<open>The receipt key, if any, is a directory entry whose encodings are right.\<close>

definition usableKey :: "env \<Rightarrow> VerifyNitroOptions \<Rightarrow> bool" where
  "usableKey P opts = (case no_receiptKey opts of None \<Rightarrow> True
     | Some (kid, entry) \<Rightarrow> (\<exists>b. keyBindingUserData P kid entry = Inr b) \<and> (\<exists>s. rbind (fromBase64Field (ed25519_pub entry)) ed25519Spki = Inr s))"

text \<open>\<^bold>\<open>C38.\<close> Under a usable receipt key and a clock in the range of dates, verification at the present time reports on every byte string: it
  fails exactly at the structure with every other check unevaluated, or the document decodes and the structure passes.\<close>

theorem nitro_always_reports:
  assumes "usableKey P opts" and "\<not> no_certAtTimestamp opts" and "\<bar>no_now opts\<bar> \<le> 8640000000000000"
  shows "\<exists>r l. verifyNitroAttestation X N P raw bundle opts = Inr (r, l)
    \<and> (case decodeDocument N raw (MAX_BYTES opts) of
         Inl e \<Rightarrow> nr_overall r = OFail \<and> nr_checks r = malformedChecks e \<and> nr_claims r = None
       | Inr doc \<Rightarrow> nk_structure (nr_checks r) = check Pass ''well_formed'' \<and> nr_claims r = Some (claimsOf doc (nitroVerified X N P doc bundle opts)))"
proof (cases "decodeDocument N raw (MAX_BYTES opts)")
  case (Inl e)
  then show ?thesis
    by (auto simp: verifyNitroAttestation_def nitroSummarise_def summarise_fold NITRO_REQUIRED_def malformedChecks_def Let_def)
next
  case (Inr doc)
  have "\<exists>x. verifyBinding P doc opts = Inr x"
    using assms(1) by (cases "no_receiptKey opts") (auto simp: usableKey_def verifyBinding_def Let_def)
  then obtain x where b: "verifyBinding P doc opts = Inr x" by blast
  have t: "isoTime (certTime opts doc) = Inr ()" using assms(2,3) by (simp add: isoTime_def certTime_def)
  have "\<exists>y. verifyNitroAttestation X N P raw bundle opts = Inr y"
    using Inr t b by (cases "nitroVerified X N P doc bundle opts") (simp_all add: verifyNitroAttestation_def Let_def case_prod_beta)
  then obtain r l where v: "verifyNitroAttestation X N P raw bundle opts = Inr (r, l)" by auto
  show ?thesis using v verify_decoded [OF v Inr] Inr by auto
qed


section \<open>A small document\<close>

definition toyNitroTsa :: tsa_env where
  "toyNitroTsa = \<lparr>x509 = (\<lambda>b. Inr \<lparr>x_raw = b, x_subject = [], x_keyUsage = None, x_validFrom = ''0'', x_validTo = ''900'', x_ca = b = [7], x_fingerprint256 = []\<rparr>),
     checkIssued = (\<lambda>c i. x_raw i = [7]), verifyIssued = (\<lambda>c i. Inr (x_raw i = [7])), cryptoVerify = (\<lambda>h m c s. Inr False), sha512 = (\<lambda>b. b),
     lower_case = (\<lambda>s. s)\<rparr>"

definition toyNitroData :: bytes where
  "toyNitroData = catching [] (keyBindingUserData toyEnv ''k'' (directoryEntry (toyKey ''k'')))"

definition toyNitroPcr :: bytes where
  "toyNitroPcr = replicate 48 1"

definition toyNitroPayload :: "(cval \<times> cval) list" where
  "toyNitroPayload = [(CText ''module_id'', CText ''i-1''), (CText ''digest'', CText ''SHA384''), (CText ''timestamp'', CInt 100),
     (CText ''pcrs'', CMap [(CInt 0, CBytes toyNitroPcr), (CInt 1, CBytes toyNitroPcr), (CInt 2, CBytes toyNitroPcr)]),
     (CText ''certificate'', CBytes [8]), (CText ''cabundle'', CArr [CBytes [7]]), (CText ''user_data'', CBytes toyNitroData),
     (CText ''nonce'', CBytes [5])]"

definition toyNitro :: nitro_env where
  "toyNitro = \<lparr>n_decode = (\<lambda>b. if b = [1] then Inr (CTag 18 (CArr [CBytes [2], CMap [], CBytes [3], CBytes (replicate 96 9)]))
       else if b = [2] then Inr (CMap [(CInt 1, CInt (- 35))]) else if b = [3] then Inr (CMap toyNitroPayload) else Inl TypeError),
     n_encode = (\<lambda>v. []), n_p384 = (\<lambda>c. Inr True), n_verify = (\<lambda>c m s. Inr (s = replicate 96 9))\<rparr>"

definition toyNitroBundle :: NitroTrustBundle where
  "toyNitroBundle = \<lparr>nb_id = ''toy'', nb_version = ''1'', nb_roots = [(''root'', [7])], nb_expiresAt = Some ''500''\<rparr>"

definition toyNitroPolicy :: NitroPcrPolicy where
  "toyNitroPolicy = \<lparr>np_id = ''p'', np_version = ''1'', np_source = [], np_pcrs = [(0, toHex toyNitroPcr), (1, toHex toyNitroPcr), (2, toHex toyNitroPcr)],
     np_pcr8 = ''not_applicable'', np_publicKey = Some UnusedKey\<rparr>"

definition toyNitroOptions :: VerifyNitroOptions where
  "toyNitroOptions = \<lparr>no_policy = Some toyNitroPolicy, no_receiptKey = Some (''k'', directoryEntry (toyKey ''k'')),
     no_freshness = Some (FNonce [5] (Some [])), no_now = 200, no_certAtTimestamp = False, no_maxBytes = None\<rparr>"

definition toyNitroDoc :: Decoded where
  "toyNitroDoc = \<lparr>dc_protectedBytes = [2], dc_payloadBytes = [3], dc_signature = replicate 96 9, dc_moduleId = ''i-1'', dc_timestampMs = 100,
     dc_pcrs = [(0, toyNitroPcr), (1, toyNitroPcr), (2, toyNitroPcr)], dc_certificate = [8], dc_cabundle = [[7]], dc_publicKey = None,
     dc_userData = Some toyNitroData, dc_nonce = Some [5]\<rparr>"

definition toyNitroKey :: bytes where
  "toyNitroKey = deriveEd25519Secret toyEnv (replicate 32 7)"

lemma toyNitro_key:
  "fromBase64Field (ml_dsa_pub (directoryEntry (toyKey ''k''))) = Inr (replicate 32 7)"
  "fromBase64Field (ed25519_pub (directoryEntry (toyKey ''k''))) = Inr toyNitroKey"
  by (simp_all add: toyKey_def generateKeypair_def toyNitroKey_def Let_def) (simp_all add: toyEnv_def)

lemma length_toyNitroKey: "length toyNitroKey = 32"
  by (simp add: toyNitroKey_def deriveEd25519Secret_def Let_def)

lemma toyNitroData_binds: "keyBindingUserData toyEnv ''k'' (directoryEntry (toyKey ''k'')) = Inr toyNitroData" "length toyNitroData = 32"
  unfolding toyNitroData_def keyBindingUserData_def toyNitro_key by simp_all

lemma toyNitro_decodes: "decodeDocument toyNitro [1] (MAX_BYTES toyNitroOptions) = Inr toyNitroDoc"
  by (simp add: decodeDocument_def toyNitro_def MAX_BYTES_def toyNitroOptions_def unless_def tryDecode_def untag_def coseParts_def headerAlgorithm_def ES384_def
    decodePayload_def toyNitroPayload_def knownField_def KNOWN_FIELDS_def fieldOfMap_def timestampOf_def toyNitroPcr_def certBytes_def optionalBytes_def
    toyNitroData_binds toyNitroDoc_def)

lemma toyNitro_verified: "nitroVerified toyNitroTsa toyNitro toyEnv toyNitroDoc toyNitroBundle toyNitroOptions"
  by (simp add: nitroVerified_def trustRootCheck_def pinnedRoot_def toyNitroDoc_def toyNitroBundle_def toyNitroOptions_def certTime_def verifyChain_def
    verifyCoseSignature_def toyNitroTsa_def toyNitro_def toyDate_def t_ge_def)

theorem nitro_always_reports_witness:
  "\<exists>r l. verifyNitroAttestation toyNitroTsa toyNitro toyEnv [4] toyNitroBundle toyNitroOptions = Inr (r, l) \<and> nr_overall r = OFail"
proof -
  have k: "usableKey toyEnv toyNitroOptions"
    by (simp add: usableKey_def toyNitroOptions_def toyNitroData_binds toyNitro_key ed25519Spki_def length_toyNitroKey)
  have n: "\<not> no_certAtTimestamp toyNitroOptions" "\<bar>no_now toyNitroOptions\<bar> \<le> 8640000000000000" by (simp_all add: toyNitroOptions_def)
  have d: "decodeDocument toyNitro [4] (MAX_BYTES toyNitroOptions) = Inl ''malformed_cbor''"
    by (simp add: decodeDocument_def toyNitro_def MAX_BYTES_def toyNitroOptions_def unless_def tryDecode_def)
  show ?thesis using nitro_always_reports [OF k n, of toyNitroTsa toyNitro "[4]" toyNitroBundle] unfolding d by auto
qed

theorem nitro_pass_sound_witness:
  "\<exists>r l doc. verifyNitroAttestation toyNitroTsa toyNitro toyEnv [1] toyNitroBundle toyNitroOptions = Inr (r, l) \<and> nr_overall r = OPass
     \<and> decodeDocument toyNitro [1] (MAX_BYTES toyNitroOptions) = Inr doc \<and> hd (dc_cabundle doc) = [7] \<and> dc_userData doc = Some toyNitroData"
proof -
  have b: "verifyBinding toyEnv toyNitroDoc toyNitroOptions = Inr (check Pass ''key_bound'', check NotApplicable ''public_key_unused'')"
    by (simp add: verifyBinding_def toyNitroOptions_def toyNitroPolicy_def toyNitroData_binds toyNitroDoc_def)
  have t: "isoTime (certTime toyNitroOptions toyNitroDoc) = Inr ()" by (simp add: isoTime_def certTime_def toyNitroOptions_def)
  have c: "verifyPcrs toyNitroTsa toyNitroDoc (no_policy toyNitroOptions) = (check Pass ''pcrs_match'', check NotApplicable ''image_not_signed'')"
    by (simp add: verifyPcrs_def toyNitroOptions_def toyNitroPolicy_def toyNitroDoc_def toyNitroTsa_def)
  have f: "verifyFreshness toyNitroDoc toyNitroOptions = (check Pass ''nonce_fresh'', Some [toHex [5]])"
    by (simp add: verifyFreshness_def toyNitroOptions_def toyNitroDoc_def sadd_def)
  have g: "verifyDebug toyNitroDoc = check Pass ''not_debug''" by (simp add: verifyDebug_def toyNitroDoc_def toyNitroPcr_def list_all_iff)
  have v: "c_status (trustRootCheck toyEnv toyNitroBundle (no_now toyNitroOptions) (pinnedRoot toyNitroBundle toyNitroDoc)) = Pass"
      "c_status (verifyChain toyNitroTsa toyEnv toyNitroDoc (certTime toyNitroOptions toyNitroDoc)) = Pass"
      "c_status (verifyCoseSignature toyNitroTsa toyNitro toyNitroDoc) = Pass" using toyNitro_verified by (simp_all add: nitroVerified_def)
  obtain r l where r: "verifyNitroAttestation toyNitroTsa toyNitro toyEnv [1] toyNitroBundle toyNitroOptions = Inr (r, l)" "nr_overall r = OPass"
    unfolding verifyNitroAttestation_def toyNitro_decodes using b t c f g v toyNitro_verified
    by (auto simp: Let_def nitroSummarise_def summarise_fold NITRO_REQUIRED_def fine_def)
  have p: "hd (dc_cabundle toyNitroDoc) = [7]" "dc_userData toyNitroDoc = Some toyNitroData" by (simp_all add: toyNitroDoc_def)
  show ?thesis using nitro_pass_sound [OF r] r p toyNitro_decodes by auto
qed

end
