(* ===== verification/Tee.thy ===== *)
theory Tee
  imports Nitro
begin

text \<open>
  \<^verbatim>\<open>src/src/nitro/normalize.ts\<close> and \<^verbatim>\<open>platform/tee.ts\<close>: one result shape for the attestation paths and the adapters that return it.  The
  adapters of SEV-SNP and NVIDIA are left out, and so are the platform's own claims and the descriptive texts of a result.
\<close>

section \<open>normalize.ts\<close>

record NormalizedAttestation =
  nz_platform :: string
  nz_overall :: OverallStatus
  nz_claims :: Checks
  nz_reasons :: "string list"
  nz_source :: string

definition fromTdx :: "DomainStatusV2 \<Rightarrow> string \<Rightarrow> Check" where
  "fromTdx s name = (case s of
       DPass \<Rightarrow> check Pass (name @ ''_pass'')
     | DFail \<Rightarrow> check Fail (name @ ''_fail'')
     | DSimulated \<Rightarrow> check Unknown ''simulated_not_hardware''
     | DMock \<Rightarrow> check Unknown ''simulated_not_hardware''
     | DPending \<Rightarrow> check Unknown (name @ ''_pending'')
     | DAbsent \<Rightarrow> check Unknown (name @ ''_absent''))"

definition fromNitro :: "Check \<Rightarrow> Check" where
  "fromNitro c = check (c_status c) (c_reason c)"

definition combineChecks :: "Check list \<Rightarrow> Check" where
  "combineChecks cs = (case find (\<lambda>c. c_status c = Fail) cs of
       Some c \<Rightarrow> fromNitro c
     | None \<Rightarrow> (case find (\<lambda>c. c_status c = Unknown \<or> c_status c = NotChecked) cs of
         Some c \<Rightarrow> fromNitro c
       | None \<Rightarrow> fromNitro (case find (\<lambda>c. c_status c = Pass) cs of Some c \<Rightarrow> c | None \<Rightarrow> hd cs)))"

definition finishNormal :: "string \<Rightarrow> Checks \<Rightarrow> string \<Rightarrow> NormalizedAttestation" where
  "finishNormal platform cs source = (let (overall, reasons) = overallOf cs (map fst cs) in
     \<lparr>nz_platform = platform, nz_overall = overall, nz_claims = cs, nz_reasons = reasons, nz_source = source\<rparr>)"

definition normalizeTdx :: "VerdictV2 \<Rightarrow> string \<Rightarrow> NormalizedAttestation" where
  "normalizeTdx verdict source = finishNormal ''intel-tdx''
     [(''platform_attestation'', fromTdx (d_attestation (verdict_checks verdict)) ''attestation''),
      (''workload_measurement'', fromTdx (d_enclave (verdict_checks verdict)) ''enclave''),
      (''key_binding'', fromTdx (d_enclave (verdict_checks verdict)) ''enclave''),
      (''freshness'', check NotChecked ''no_freshness_check'')] source"

definition normalizeNitro :: "NitroReport \<Rightarrow> NormalizedAttestation" where
  "normalizeNitro report = (let c = nr_checks report in finishNormal ''aws-nitro''
     [(''platform_attestation'', combineChecks [nk_structure c, nk_trust_root c, nk_certificate_chain c, nk_cose_signature c]),
      (''workload_measurement'', combineChecks [nk_debug_mode c, nk_pcr_policy c, nk_pcr8_signing c]),
      (''key_binding'', combineChecks [nk_key_binding c, nk_public_key c]),
      (''freshness'', fromNitro (nk_freshness c))] (''nitro report '' @ nr_document_sha256 report))"

section \<open>tee.ts\<close>

datatype SupportLevel = Implemented | Experimental | Partial | SupportNone

record AdapterResult =
  ar_platform :: string
  ar_support :: SupportLevel
  ar_outcome :: Outcome
  ar_digest :: "string option"
  ar_normalized :: "NormalizedAttestation option"

definition TEE_STALE :: "string list" where
  "TEE_STALE = [''attestation_stale'', ''certificate_expired'', ''trust_bundle_stale'']"

definition teeOutcome :: "NormalizedAttestation \<Rightarrow> Outcome" where
  "teeOutcome n =
     (if nz_overall n = OPass then Verified
      else if list_ex (\<lambda>(_, c). c_status c = Fail \<and> c_reason c \<notin> set TEE_STALE) (nz_claims n) then Invalid
      else if list_ex (\<lambda>(_, c). c_reason c \<in> set TEE_STALE) (nz_claims n) then Stale
      else Indeterminate)"

text \<open>The result and the nonce ledger afterwards; the validation time is left out, but writing it may throw.\<close>

definition nitroAdapter :: "tsa_env \<Rightarrow> nitro_env \<Rightarrow> env \<Rightarrow> bytes \<Rightarrow> NitroTrustBundle \<Rightarrow> VerifyNitroOptions
    \<Rightarrow> (AdapterResult \<times> string list option) res" where
  "nitroAdapter X N P document bundle options =
     rbind (verifyNitroAttestation X N P document bundle options) (\<lambda>(report, ledger).
     rbind (isoTime (no_now options)) (\<lambda>_.
       let normalized = normalizeNitro report in
       Inr (\<lparr>ar_platform = ''aws-nitro'', ar_support = Implemented, ar_outcome = teeOutcome normalized,
             ar_digest = Some (nr_document_sha256 report), ar_normalized = Some normalized\<rparr>, ledger)))"

text \<open>\<open>stringify\<close> is \<^verbatim>\<open>JSON.stringify\<close>.\<close>

definition tdxAdapter :: "env \<Rightarrow> (jsval \<Rightarrow> string) \<Rightarrow> jsval \<Rightarrow> VerifyArgsV2 \<Rightarrow> AdapterResult run" where
  "tdxAdapter P stringify receipt options = runbind (verifyReceiptV2 P receipt options) (\<lambda>verdict.
     let normalized = normalizeTdx verdict ''cool.receipt.v2 verdict''; a = mem receipt ''attestation'' in
     Some (Inr \<lparr>ar_platform = ''intel-tdx'', ar_support = Implemented, ar_outcome = teeOutcome normalized,
       ar_digest = Some (toHex (sha256 P (utf8 (stringify (if nullish a then JNull else a))))), ar_normalized = Some normalized\<rparr>))"

definition unsupportedAdapter :: "string \<Rightarrow> AdapterResult" where
  "unsupportedAdapter platform =
     \<lparr>ar_platform = platform, ar_support = SupportNone, ar_outcome = Unsupported, ar_digest = None, ar_normalized = None\<rparr>"

section \<open>Lemmas\<close>

lemma finishNormal_simps [simp]: "nz_overall (finishNormal p cs s) = fst (overallOf cs (map fst cs))" "nz_claims (finishNormal p cs s) = cs"
  by (simp_all add: finishNormal_def case_prod_beta Let_def)

lemma fromNitro_id [simp]: "c_status (fromNitro c) = c_status c" "c_reason (fromNitro c) = c_reason c"
  by (simp_all add: fromNitro_def)

lemma overall_distinct:
  "distinct (map fst cs) \<Longrightarrow> fst (overallOf cs (map fst cs)) =
     (if \<exists>c\<in>set cs. c_status (snd c) = Fail then OFail else if \<exists>c\<in>set cs. \<not> fine (c_status (snd c)) then OUnknown else OPass)"
proof -
  assume d: "distinct (map fst cs)"
  have s: "statusOf cs (fst c) = Some (c_status (snd c))" if "c \<in> set cs" for c
    using map_of_is_SomeI [OF d, of "fst c" "snd c"] that by (simp add: statusOf_def)
  show ?thesis unfolding overall_spec by (simp add: s fine_def cong: bex_cong)
qed

lemma combine_fail: "cs \<noteq> [] \<Longrightarrow> c_status (combineChecks cs) = Fail \<longleftrightarrow> (\<exists>c\<in>set cs. c_status c = Fail)"
  unfolding combineChecks_def
  by (auto split: option.split dest!: find_holds simp: find_None_iff)

lemma combine_fine: "cs \<noteq> [] \<Longrightarrow> fine (c_status (combineChecks cs)) \<longleftrightarrow> (\<forall>c\<in>set cs. fine (c_status c))"
proof (cases "find (\<lambda>c. c_status c = Fail) cs")
  case (Some c)
  then show ?thesis by (auto simp: combineChecks_def fine_def dest!: find_holds)
next
  case None
  assume n: "cs \<noteq> []"
  show ?thesis
  proof (cases "find (\<lambda>c. c_status c = Unknown \<or> c_status c = NotChecked) cs")
    case (Some c)
    then show ?thesis using None by (auto simp: combineChecks_def fine_def dest!: find_holds)
  next
    case none: None
    have all: "\<forall>c\<in>set cs. fine (c_status c)"
    proof
      fix c assume "c \<in> set cs"
      then show "fine (c_status c)" using None none by (cases "c_status c") (auto simp: find_None_iff fine_def)
    qed
    have "fine (c_status (combineChecks cs))"
      using None none all n by (auto simp: combineChecks_def fine_def split: option.split dest!: find_holds)
    then show ?thesis using all by simp
  qed
qed

text \<open>\<^bold>\<open>C39.\<close> Normalising keeps the headline of every Nitro report, whatever its checks are; the TDX path, which has no freshness check, is
  failed exactly if its attestation or enclave domain is, and otherwise unknown: it is never reported as passed or verified.\<close>

theorem normalised_headlines:
  "nz_overall (normalizeNitro (nitroReport P raw opts k a d)) = nr_overall (nitroReport P raw opts k a d)
   \<and> nz_overall (normalizeTdx v s)
       = (if DFail \<in> {d_attestation (verdict_checks v), d_enclave (verdict_checks v)} then OFail else OUnknown)
   \<and> teeOutcome (normalizeTdx v s) \<noteq> Verified"
proof (intro conjI)
  let ?c = "[(''platform_attestation'', combineChecks [nk_structure k, nk_trust_root k, nk_certificate_chain k, nk_cose_signature k]),
      (''workload_measurement'', combineChecks [nk_debug_mode k, nk_pcr_policy k, nk_pcr8_signing k]),
      (''key_binding'', combineChecks [nk_key_binding k, nk_public_key k]), (''freshness'', fromNitro (nk_freshness k))]"
  have "fst (overallOf ?c (map fst ?c)) = fst (nitroSummarise k)"
    unfolding nitroSummarise_def summarise_fold NITRO_REQUIRED_def
    by (subst overall_distinct) (simp_all add: combine_fail combine_fine)
  then show "nz_overall (normalizeNitro (nitroReport P raw opts k a d)) = nr_overall (nitroReport P raw opts k a d)"
    by (simp only: normalizeNitro_def Let_def finishNormal_simps nitroReport_simps)
  show o: "nz_overall (normalizeTdx v s) = (if DFail \<in> {d_attestation (verdict_checks v), d_enclave (verdict_checks v)} then OFail else OUnknown)"
    unfolding normalizeTdx_def finishNormal_simps
    by (subst overall_distinct) (auto simp: fromTdx_def fine_def split: DomainStatusV2.split)
  show "teeOutcome (normalizeTdx v s) \<noteq> Verified" unfolding teeOutcome_def o by auto
qed

text \<open>A document that anyone can make is reported as stale, not as invalid: an expired certificate behind the pinned root hides that nothing
  signed it, because only the first failure of the path is kept.\<close>

lemma forged_document_is_stale:
  assumes "nk_structure k = check Pass s" "nk_trust_root k = check Pass t" "nk_certificate_chain k = check Fail ''certificate_expired''"
    and "nk_cose_signature k = check Fail ''signature_invalid''"
    and "nk_debug_mode k = CLAIMS_UNVERIFIED" "nk_pcr_policy k = CLAIMS_UNVERIFIED" "nk_pcr8_signing k = CLAIMS_UNVERIFIED"
    and "nk_key_binding k = CLAIMS_UNVERIFIED" "nk_public_key k = CLAIMS_UNVERIFIED" "nk_freshness k = CLAIMS_UNVERIFIED"
  shows "teeOutcome (normalizeNitro (nitroReport P raw opts k a d)) = Stale"
proof -
  have n: "nz_overall (normalizeNitro (nitroReport P raw opts k a d)) = OFail"
    unfolding normalizeNitro_def Let_def finishNormal_simps nitroReport_simps
    by (subst overall_distinct) (simp_all add: combine_fail assms)
  have c: "nz_claims (normalizeNitro (nitroReport P raw opts k a d)) =
      [(''platform_attestation'', check Fail ''certificate_expired''), (''workload_measurement'', CLAIMS_UNVERIFIED),
       (''key_binding'', CLAIMS_UNVERIFIED), (''freshness'', CLAIMS_UNVERIFIED)]"
    by (simp add: normalizeNitro_def Let_def combineChecks_def assms CLAIMS_UNVERIFIED_def fromNitro_def)
  show ?thesis unfolding teeOutcome_def n c by (simp add: CLAIMS_UNVERIFIED_def TEE_STALE_def)
qed

end
