(* ===== verification/Sealer.thy ===== *)
theory Sealer
  imports Nitro
begin

text \<open>
  \<^verbatim>\<open>src/src/nitro/receipt.ts\<close> and the enclave side of \<^verbatim>\<open>nitro/kit.ts\<close>: the sealer and the server that owns one, as a machine whose steps are
  the frames of any connections in the order they are handled and the answer of the security module.  The security module, random bytes
  and clocks are arguments; a frame comes with its JSON body read.  The counter is a natural number (below \<open>2 ^ 53\<close> a JavaScript number
  counts alike).  Replies too large for a frame, sockets, the helper process and the collector on the host are left out.
\<close>

section \<open>The sealer\<close>

record NitroReceiptSealer =
  sl_key :: KeyPair
  sl_attestation :: bytes
  sl_registry :: PayloadRegistry
  sl_issued :: "(string option \<times> SignedEnvelope) list"
  sl_epoch :: "jsnum option"
  sl_next :: nat

record NsmRequest =
  nsm_nonce :: "bytes option"
  nsm_user_data :: bytes
  nsm_public_key :: bytes

text \<open>\<^verbatim>\<open>start\<close> up to the request it awaits the answer of, and the sealer made from the answer.\<close>

definition sealerStart :: "env \<Rightarrow> string option \<Rightarrow> bytes \<Rightarrow> bytes \<Rightarrow> bytes option \<Rightarrow> (KeyPair \<times> NsmRequest) res" where
  "sealerStart P keyIdPrefix random6 random32 nonce =
     (let kid = (case keyIdPrefix of Some p \<Rightarrow> p | None \<Rightarrow> ''cool-nitro'') @ ''-'' @ toHex random6 in
      rbind (generateKeypair P [] kid (Some random32)) (\<lambda>key.
      rbind (keyBindingUserData P kid (directoryEntry key)) (\<lambda>user_data.
      rbind (ed25519Spki (ed25519Public key)) (\<lambda>public_key.
        Inr (key, \<lparr>nsm_nonce = nonce, nsm_user_data = user_data, nsm_public_key = public_key\<rparr>)))))"

definition newSealer :: "KeyPair \<Rightarrow> bytes \<Rightarrow> PayloadRegistry \<Rightarrow> NitroReceiptSealer" where
  "newSealer key document registry =
     \<lparr>sl_key = key, sl_attestation = document, sl_registry = registry, sl_issued = [], sl_epoch = None, sl_next = 0\<rparr>"

definition acceptEpoch :: "NitroReceiptSealer \<Rightarrow> jsnum \<Rightarrow> string \<Rightarrow> NitroReceiptSealer res" where
  "acceptEpoch s epoch key_id =
     (if key_id \<noteq> keyId (sl_key s) then Inl (Error ''registration is for a different key'')
      else if (case sl_epoch s of None \<Rightarrow> False | Some e \<Rightarrow> \<not> js_num_eq e epoch) then Inl (Error ''this key already has an epoch'')
      else Inr (s\<lparr>sl_epoch := Some epoch\<rparr>))"

text \<open>The envelope or the error, and the sealer afterwards: the number is taken before anything can throw.\<close>

definition sealerSeal :: "env \<Rightarrow> NitroReceiptSealer \<Rightarrow> EnvelopeInput \<Rightarrow> int \<Rightarrow> string \<Rightarrow> SignedEnvelope res \<times> NitroReceiptSealer" where
  "sealerSeal P s input now fresh = (case sl_epoch s of
       None \<Rightarrow> (Inl (Error ''no epoch assigned yet: register with the log first''), s)
     | Some epoch \<Rightarrow> (case map_of (sl_issued s) (ei_event_id input) of
         Some prior \<Rightarrow> (Inr prior, s)
       | None \<Rightarrow>
           (let s1 = s\<lparr>sl_next := sl_next s + 1\<rparr>;
                core = createEnvelope P (input\<lparr>ei_sequence := Some (epoch, Fin (of_nat (sl_next s))), ei_attestation := Some (sl_attestation s)\<rparr>)
                         (sl_registry s) now fresh
            in case rbind core (\<lambda>c. signEnvelope P c [EKeyPair (sl_key s)] (Some (sl_attestation s))) of
                 Inl e \<Rightarrow> (Inl e, s1)
               | Inr env \<Rightarrow> (Inr env, s1\<lparr>sl_issued := mput (ei_event_id input) env (sl_issued s1)\<rparr>))))"

section \<open>The server\<close>

record EnclaveState =
  sv_starting :: bool
  sv_pending :: "KeyPair option"
  sv_sealer :: "NitroReceiptSealer option"

text \<open>A frame with its body (and the random bytes and clock its handling reads), or the settled promise of the security module.\<close>

datatype SealerEvent =
    Hello bytes bytes bytes
  | Attested "bytes res"
  | Register jsnum
  | ReceiptFrame EnvelopeInput int string
  | OtherFrame byte

datatype SealerReply =
    RegisterReply string DirectoryEntry bytes
  | AckReply jsnum
  | ReceiptReply SignedEnvelope
  | ErrorReply

definition enclaveStart :: EnclaveState where
  "enclaveStart = \<lparr>sv_starting = False, sv_pending = None, sv_sealer = None\<rparr>"

fun enclaveStep :: "env \<Rightarrow> PayloadRegistry \<Rightarrow> EnclaveState \<Rightarrow> SealerEvent \<Rightarrow> EnclaveState \<times> SealerReply list" where
  "enclaveStep P registry st (Hello nonce random6 random32) =
     (if sv_starting st then (st, [ErrorReply])
      else if length nonce < 16 then (st, [ErrorReply])
      else case sealerStart P None random6 random32 (Some nonce) of
        Inl _ \<Rightarrow> (st\<lparr>sv_starting := True\<rparr>, [ErrorReply])
      | Inr (key, _) \<Rightarrow> (st\<lparr>sv_starting := True, sv_pending := Some key\<rparr>, []))"
| "enclaveStep P registry st (Attested answer) = (case sv_pending st of
       None \<Rightarrow> (st, [])
     | Some key \<Rightarrow> (case answer of
         Inl _ \<Rightarrow> (st\<lparr>sv_pending := None\<rparr>, [ErrorReply])
       | Inr document \<Rightarrow> (st\<lparr>sv_pending := None, sv_sealer := Some (newSealer key document registry)\<rparr>,
                          [RegisterReply (keyId key) (directoryEntry key) document])))"
| "enclaveStep P registry st (Register epoch) = (case sv_sealer st of
       None \<Rightarrow> (st, [ErrorReply])
     | Some s \<Rightarrow> (case acceptEpoch s epoch (keyId (sl_key s)) of
         Inl _ \<Rightarrow> (st, [ErrorReply])
       | Inr s' \<Rightarrow> (st\<lparr>sv_sealer := Some s'\<rparr>, [AckReply epoch])))"
| "enclaveStep P registry st (ReceiptFrame input now fresh) = (case sv_sealer st of
       None \<Rightarrow> (st, [ErrorReply])
     | Some s \<Rightarrow> (case sealerSeal P s input now fresh of
         (Inl _, s') \<Rightarrow> (st\<lparr>sv_sealer := Some s'\<rparr>, [ErrorReply])
       | (Inr env, s') \<Rightarrow> (st\<lparr>sv_sealer := Some s'\<rparr>, [ReceiptReply env])))"
| "enclaveStep P registry st (OtherFrame type) = (st, [ErrorReply])"

fun serveEnclave :: "env \<Rightarrow> PayloadRegistry \<Rightarrow> EnclaveState \<Rightarrow> SealerEvent list \<Rightarrow> EnclaveState \<times> SealerReply list" where
  "serveEnclave P registry st [] = (st, [])"
| "serveEnclave P registry st (e # es) =
     (let (st1, r) = enclaveStep P registry st e; (st2, rs) = serveEnclave P registry st1 es in (st2, r @ rs))"

section \<open>Lemmas\<close>

text \<open>What the sealer has issued: under each event id one envelope, sealed with its key over its attestation, with a number of its own
  below the counter.\<close>

definition sealedBy :: "env \<Rightarrow> NitroReceiptSealer \<Rightarrow> nat \<Rightarrow> SignedEnvelope \<Rightarrow> bool" where
  "sealedBy P s n env \<longleftrightarrow> (\<exists>epoch input now fresh core. sl_epoch s = Some epoch \<and> createEnvelope P input (sl_registry s) now fresh = Inr core
     \<and> signEnvelope P core [EKeyPair (sl_key s)] (Some (sl_attestation s)) = Inr env
     \<and> co_sequence (se_core env) = Some (epoch, Fin (of_nat n)) \<and> co_attestation_ref (se_core env) = Some (toHex (sha256 P (sl_attestation s))))"

definition sealerOk :: "env \<Rightarrow> NitroReceiptSealer \<Rightarrow> bool" where
  "sealerOk P s \<longleftrightarrow>
     (\<forall>i env. (i, env) \<in> set (sl_issued s) \<longrightarrow> map_of (sl_issued s) i = Some env \<and> (\<exists>n. n < sl_next s \<and> sealedBy P s n env))
     \<and> (\<forall>i j env env'. (i, env) \<in> set (sl_issued s) \<longrightarrow> (j, env') \<in> set (sl_issued s) \<longrightarrow> co_sequence (se_core env) = co_sequence (se_core env')
          \<longrightarrow> env = env')"

lemma sealerOkI:
  "(\<And>i env. (i, env) \<in> set (sl_issued s) \<Longrightarrow> map_of (sl_issued s) i = Some env \<and> (\<exists>n. n < sl_next s \<and> sealedBy P s n env)) \<Longrightarrow>
   (\<And>i j env env'. (i, env) \<in> set (sl_issued s) \<Longrightarrow> (j, env') \<in> set (sl_issued s) \<Longrightarrow> co_sequence (se_core env) = co_sequence (se_core env')
      \<Longrightarrow> env = env') \<Longrightarrow> sealerOk P s"
  unfolding sealerOk_def by blast

lemma sealerOkD:
  "sealerOk P s \<Longrightarrow> (i, env) \<in> set (sl_issued s) \<Longrightarrow> map_of (sl_issued s) i = Some env \<and> (\<exists>n. n < sl_next s \<and> sealedBy P s n env)"
  "sealerOk P s \<Longrightarrow> (i, env) \<in> set (sl_issued s) \<Longrightarrow> (j, env') \<in> set (sl_issued s) \<Longrightarrow> co_sequence (se_core env) = co_sequence (se_core env') \<Longrightarrow> env = env'"
  unfolding sealerOk_def by blast+

lemma signEnvelope_core:
  "signEnvelope P core ks d = Inr env \<Longrightarrow> co_sequence (se_core env) = co_sequence core \<and> co_attestation_ref (se_core env) = co_attestation_ref core"
  by (auto simp: signEnvelope_def signEnvelopeAsync_def Let_def rbind_Inr_iff split: if_split_asm)

lemma createEnvelope_sequence:
  "createEnvelope P input reg now fresh = Inr core \<Longrightarrow> co_sequence core = ei_sequence input
     \<and> co_attestation_ref core = map_option (\<lambda>d. toHex (sha256 P d)) (ei_attestation input)"
  by (auto simp: createEnvelope_def Let_def split: if_split_asm option.split_asm)

lemma acceptEpoch_Inr:
  "acceptEpoch s e kid = Inr s' \<Longrightarrow> s' = s\<lparr>sl_epoch := Some e\<rparr> \<and> (sl_epoch s = None \<or> sl_epoch s = Some e)"
  by (auto simp: acceptEpoch_def js_num_eq_def split: if_split_asm option.split_asm)

lemma sealedBy_cong:
  "sl_key s' = sl_key s \<Longrightarrow> sl_attestation s' = sl_attestation s \<Longrightarrow> sl_registry s' = sl_registry s \<Longrightarrow> sl_epoch s' = sl_epoch s
     \<Longrightarrow> sealedBy P s' n env = sealedBy P s n env"
  by (simp add: sealedBy_def)

text \<open>Both hold on when the counter moves on and when the epoch is set the first time or again.\<close>

lemma sealerOk_next: "sealerOk P s \<Longrightarrow> sealerOk P (s\<lparr>sl_next := sl_next s + 1\<rparr>)"
proof (rule sealerOkI)
  assume ok: "sealerOk P s"
  fix i env assume "(i, env) \<in> set (sl_issued (s\<lparr>sl_next := sl_next s + 1\<rparr>))"
  then have m: "(i, env) \<in> set (sl_issued s)" by simp
  obtain n where n: "n < sl_next s" "sealedBy P s n env" using sealerOkD(1) [OF ok m] by blast
  have "sealedBy P (s\<lparr>sl_next := sl_next s + 1\<rparr>) n env" using n(2) by (subst sealedBy_cong [of _ s]) simp_all
  then show "map_of (sl_issued (s\<lparr>sl_next := sl_next s + 1\<rparr>)) i = Some env
      \<and> (\<exists>n. n < sl_next (s\<lparr>sl_next := sl_next s + 1\<rparr>) \<and> sealedBy P (s\<lparr>sl_next := sl_next s + 1\<rparr>) n env)"
    using n(1) sealerOkD(1) [OF ok m] by (intro conjI exI [of _ n]) simp_all
next
  assume ok: "sealerOk P s"
  fix i j env env' assume "(i, env) \<in> set (sl_issued (s\<lparr>sl_next := sl_next s + 1\<rparr>))" "(j, env') \<in> set (sl_issued (s\<lparr>sl_next := sl_next s + 1\<rparr>))"
    "co_sequence (se_core env) = co_sequence (se_core env')"
  then show "env = env'" using sealerOkD(2) [OF ok, of i env j env'] by simp
qed

lemma sealerOk_epoch:
  assumes ok: "sealerOk P s" and e: "sl_epoch s = None \<or> sl_epoch s = Some e"
  shows "sealerOk P (s\<lparr>sl_epoch := Some e\<rparr>)"
proof (cases "sl_epoch s")
  case None
  have "sl_issued s = []"
  proof (rule ccontr)
    assume "sl_issued s \<noteq> []"
    then obtain i env where "(i, env) \<in> set (sl_issued s)" by (cases "hd (sl_issued s)") (metis hd_in_set)
    then show False using sealerOkD(1) [OF ok, of i env] None by (auto simp: sealedBy_def)
  qed
  then show ?thesis by (intro sealerOkI) simp_all
next
  case (Some e')
  then have "s\<lparr>sl_epoch := Some e\<rparr> = s" using e by simp
  then show ?thesis using ok by simp
qed

text \<open>Sealing keeps this; it answers with an envelope it holds, and forgets none.\<close>

lemma sealerSeal_keeps:
  assumes ok: "sealerOk P s" and "sealerSeal P s input now fresh = (r, s')"
  shows "sealerOk P s' \<and> sl_key s' = sl_key s \<and> sl_attestation s' = sl_attestation s \<and> sl_registry s' = sl_registry s \<and> sl_epoch s' = sl_epoch s
    \<and> set (sl_issued s) \<subseteq> set (sl_issued s') \<and> (\<forall>env. r = Inr env \<longrightarrow> (\<exists>i. (i, env) \<in> set (sl_issued s')))"
proof (cases "sl_epoch s")
  case None
  then show ?thesis using assms by (auto simp: sealerSeal_def)
next
  case (Some epoch)
  show ?thesis
  proof (cases "map_of (sl_issued s) (ei_event_id input)")
    case (Some prior)
    then show ?thesis using assms \<open>sl_epoch s = Some epoch\<close> by (auto simp: sealerSeal_def dest: map_of_SomeD)
  next
    case none: None
    let ?input = "input\<lparr>ei_sequence := Some (epoch, Fin (of_nat (sl_next s))), ei_attestation := Some (sl_attestation s)\<rparr>"
    let ?r = "rbind (createEnvelope P ?input (sl_registry s) now fresh) (\<lambda>c. signEnvelope P c [EKeyPair (sl_key s)] (Some (sl_attestation s)))"
    have keep: "sealerOk P (s\<lparr>sl_next := sl_next s + 1\<rparr>)" by (rule sealerOk_next [OF ok])
    show ?thesis
    proof (cases ?r)
      case (Inl e)
      then show ?thesis using assms none \<open>sl_epoch s = Some epoch\<close> keep by (auto simp: sealerSeal_def Let_def)
    next
      case (Inr env)
      then obtain core where core: "createEnvelope P ?input (sl_registry s) now fresh = Inr core"
          "signEnvelope P core [EKeyPair (sl_key s)] (Some (sl_attestation s)) = Inr env" by (auto simp: rbind_Inr_iff)
      have seq: "co_sequence (se_core env) = Some (epoch, Fin (of_nat (sl_next s)))"
          "co_attestation_ref (se_core env) = Some (toHex (sha256 P (sl_attestation s)))"
        using signEnvelope_core [OF core(2)] createEnvelope_sequence [OF core(1)] by simp_all
      have s': "r = Inr env" "s' = s\<lparr>sl_next := sl_next s + 1, sl_issued := mput (ei_event_id input) env (sl_issued s)\<rparr>"
        using assms(2) none \<open>sl_epoch s = Some epoch\<close> Inr by (simp_all add: sealerSeal_def Let_def)
      have new: "sl_issued s' = sl_issued s @ [(ei_event_id input, env)]"
        using none s'(2) by (simp add: mput_new map_of_eq_None_iff)
      have same: "sl_key s' = sl_key s" "sl_attestation s' = sl_attestation s" "sl_registry s' = sl_registry s" "sl_epoch s' = sl_epoch s"
          "sl_next s' = sl_next s + 1" using s'(2) by simp_all
      have by_s: "sealedBy P s (sl_next s) env"
        unfolding sealedBy_def using core seq \<open>sl_epoch s = Some epoch\<close> by blast
      have old: "co_sequence (se_core env') \<noteq> co_sequence (se_core env)" if m: "(j, env') \<in> set (sl_issued s)" for j env'
      proof -
        obtain n where "n < sl_next s" "sealedBy P s n env'" using sealerOkD(1) [OF ok m] by blast
        then show ?thesis using seq(1) by (auto simp: sealedBy_def)
      qed
      have "sealerOk P s'"
      proof (rule sealerOkI)
        fix i e assume "(i, e) \<in> set (sl_issued s')"
        then consider "(i, e) \<in> set (sl_issued s)" | "i = ei_event_id input" "e = env" unfolding new by auto
        then show "map_of (sl_issued s') i = Some e \<and> (\<exists>n. n < sl_next s' \<and> sealedBy P s' n e)"
        proof cases
          case 1
          then show ?thesis using sealerOkD(1) [OF ok 1] unfolding new same(5) sealedBy_cong [OF same(1-4)] by (auto simp: map_add_def intro: less_SucI)
        next
          case 2
          then show ?thesis using by_s none unfolding new same(5) sealedBy_cong [OF same(1-4)] by (auto simp: map_add_def intro!: exI [of _ "sl_next s"])
        qed
      next
        fix i j e e' assume "(i, e) \<in> set (sl_issued s')" "(j, e') \<in> set (sl_issued s')" and q: "co_sequence (se_core e) = co_sequence (se_core e')"
        then consider "(i, e) \<in> set (sl_issued s)" "(j, e') \<in> set (sl_issued s)" | "e = env" "e' = env"
            | "e = env" "(j, e') \<in> set (sl_issued s)" | "(i, e) \<in> set (sl_issued s)" "e' = env" unfolding new by auto
        then show "e = e'"
        proof cases
          case 1
          then show ?thesis using sealerOkD(2) [OF ok 1 q] by simp
        next
          case 3
          then show ?thesis using old [OF 3(2)] q by simp
        next
          case 4
          then show ?thesis using old [OF 4(1)] q by simp
        qed simp
      qed
      then show ?thesis using s'(1) new same by auto
    qed
  qed
qed

section \<open>The server: lemmas\<close>

text \<open>What a run has shown the outside: at most one key, and envelopes its sealer holds.\<close>

definition serverOk :: "env \<Rightarrow> PayloadRegistry \<Rightarrow> EnclaveState \<Rightarrow> SealerReply list \<Rightarrow> bool" where
  "serverOk P registry st replies \<longleftrightarrow> (case sv_sealer st of
       None \<Rightarrow> (\<forall>r\<in>set replies. r = ErrorReply) \<and> (sv_pending st \<noteq> None \<longrightarrow> sv_starting st)
     | Some s \<Rightarrow> sealerOk P s \<and> sl_registry s = registry \<and> sv_starting st \<and> sv_pending st = None
         \<and> filter (\<lambda>r. case r of RegisterReply _ _ _ \<Rightarrow> True | _ \<Rightarrow> False) replies = [RegisterReply (keyId (sl_key s)) (directoryEntry (sl_key s)) (sl_attestation s)]
         \<and> (\<forall>e. AckReply e \<in> set replies \<longleftrightarrow> sl_epoch s = Some e)
         \<and> (\<forall>env. ReceiptReply env \<in> set replies \<longrightarrow> (\<exists>i. (i, env) \<in> set (sl_issued s))))"

lemma filter_errors: "\<forall>r\<in>set replies. r = ErrorReply \<Longrightarrow> filter (\<lambda>r. case r of RegisterReply _ _ _ \<Rightarrow> True | _ \<Rightarrow> False) replies = []"
  by (auto simp: filter_empty_conv)

lemma newSealer_ok: "sealerOk P (newSealer key d reg)"
  by (intro sealerOkI) (simp_all add: newSealer_def)

lemma newSealer_simps [simp]: "sl_key (newSealer k d r) = k" "sl_attestation (newSealer k d r) = d" "sl_registry (newSealer k d r) = r"
    "sl_epoch (newSealer k d r) = None" "sl_issued (newSealer k d r) = []"
  by (simp_all add: newSealer_def)

lemma enclaveStep_keeps:
  assumes "serverOk P registry st replies" "enclaveStep P registry st e = (st', rs)"
  shows "serverOk P registry st' (replies @ rs)"
proof (cases "sv_sealer st")
  case None
  then show ?thesis using assms
    by (cases e) (auto simp: serverOk_def filter_errors newSealer_ok split: if_split_asm sum.split_asm option.split_asm)
next
  case (Some s)
  show ?thesis
  proof (cases e)
    case (Hello a b c)
    then show ?thesis using assms Some by (auto simp: serverOk_def)
  next
    case (Attested a)
    then show ?thesis using assms Some by (auto simp: serverOk_def)
  next
    case (OtherFrame t)
    then show ?thesis using assms Some by (auto simp: serverOk_def)
  next
    case (Register epoch)
    show ?thesis
    proof (cases "acceptEpoch s epoch (keyId (sl_key s))")
      case (Inl x)
      then show ?thesis using assms Some Register by (auto simp: serverOk_def)
    next
      case (Inr s')
      note a = acceptEpoch_Inr [OF Inr]
      have "sealerOk P s'" using assms(1) Some a sealerOk_epoch [of P s epoch] by (simp add: serverOk_def)
      then show ?thesis using assms Some Register Inr a by (auto simp: serverOk_def)
    qed
  next
    case (ReceiptFrame input now fresh)
    obtain r s' where r: "sealerSeal P s input now fresh = (r, s')" by (cases "sealerSeal P s input now fresh")
    have "sealerOk P s" using assms(1) Some by (simp add: serverOk_def)
    note k = sealerSeal_keeps [OF this r]
    have step: "st' = st\<lparr>sv_sealer := Some s'\<rparr>" "rs = (case r of Inl _ \<Rightarrow> [ErrorReply] | Inr env \<Rightarrow> [ReceiptReply env])"
      using assms(2) Some ReceiptFrame r by (auto split: sum.splits)
    have held: "\<exists>i. (i, env) \<in> set (sl_issued s')" if m: "ReceiptReply env \<in> set (replies @ rs)" for env
    proof (cases "ReceiptReply env \<in> set replies")
      case True
      then obtain i where "(i, env) \<in> set (sl_issued s)" using assms(1) Some by (auto simp: serverOk_def)
      then show ?thesis using k by (intro exI [of _ i]) auto
    next
      case False
      then have "r = Inr env" using m step(2) by (cases r) auto
      then show ?thesis using k by simp
    qed
    have rest: "filter (\<lambda>r. case r of RegisterReply _ _ _ \<Rightarrow> True | _ \<Rightarrow> False) rs = []" "\<And>e. AckReply e \<notin> set rs"
      unfolding step(2) by (cases r; simp)+
    show ?thesis unfolding serverOk_def step(1)
      using assms(1) [unfolded serverOk_def Some option.case] k held rest by simp
  qed
qed

lemma serveEnclave_keeps:
  "serverOk P registry st replies \<Longrightarrow> serveEnclave P registry st es = (st', rs) \<Longrightarrow> serverOk P registry st' (replies @ rs)"
proof (induction es arbitrary: st replies rs)
  case (Cons e es)
  obtain st1 r where e: "enclaveStep P registry st e = (st1, r)" by (cases "enclaveStep P registry st e")
  obtain rs' where s: "serveEnclave P registry st1 es = (st', rs')" "rs = r @ rs'" using Cons.prems(2) e by (auto split: prod.splits)
  show ?case using Cons.IH [OF enclaveStep_keeps [OF Cons.prems(1) e] s(1)] s(2) by simp
qed simp

text \<open>\<^bold>\<open>C40.\<close> Whatever frames its connections send, in whatever order and with whatever the security module answers, an enclave shows one key
  and one attestation at most and acknowledges one epoch; every receipt it returns was sealed with that key over that attestation under that
  epoch, and two receipts with one number are the same receipt.\<close>

theorem enclave_receipts_sequenced:
  assumes "serveEnclave P registry enclaveStart events = (st, replies)" and "ReceiptReply env \<in> set replies"
  shows "\<exists>s n. filter (\<lambda>r. case r of RegisterReply _ _ _ \<Rightarrow> True | _ \<Rightarrow> False) replies
        = [RegisterReply (keyId (sl_key s)) (directoryEntry (sl_key s)) (sl_attestation s)]
    \<and> (\<forall>e. AckReply e \<in> set replies \<longleftrightarrow> sl_epoch s = Some e) \<and> sl_registry s = registry \<and> sealedBy P s n env
    \<and> (\<forall>env'. ReceiptReply env' \<in> set replies \<longrightarrow> co_sequence (se_core env) = co_sequence (se_core env') \<longrightarrow> env = env')"
proof -
  have "serverOk P registry enclaveStart []" by (simp add: serverOk_def enclaveStart_def)
  from serveEnclave_keeps [OF this assms(1)] have ok: "serverOk P registry st replies" by simp
  then obtain s where s: "sv_sealer st = Some s" using assms(2) by (cases "sv_sealer st") (auto simp: serverOk_def)
  have h: "sealerOk P s" "\<And>env. ReceiptReply env \<in> set replies \<Longrightarrow> \<exists>i. (i, env) \<in> set (sl_issued s)"
    using ok s by (simp_all add: serverOk_def)
  obtain i where i: "(i, env) \<in> set (sl_issued s)" using h(2) assms(2) by blast
  obtain n where n: "sealedBy P s n env" using sealerOkD(1) [OF h(1) i] by blast
  have u: "env = env'" if m: "ReceiptReply env' \<in> set replies" and q: "co_sequence (se_core env) = co_sequence (se_core env')" for env'
  proof -
    obtain j where "(j, env') \<in> set (sl_issued s)" using h(2) [OF m] by blast
    then show ?thesis using sealerOkD(2) [OF h(1) i _ q] by blast
  qed
  show ?thesis
    by (rule exI [of _ s], rule exI [of _ n]) (use ok s n u in \<open>auto simp: serverOk_def\<close>)
qed

text \<open>A security module that fails once leaves an enclave that refuses everything: \<^verbatim>\<open>starting\<close> is never cleared, and no key was made.\<close>

lemma failed_attestation_is_final:
  assumes "sv_starting st" "sv_pending st = None" "sv_sealer st = None"
  shows "fst (serveEnclave P registry st events) = st \<and> set (snd (serveEnclave P registry st events)) \<subseteq> {ErrorReply}"
proof (induction events)
  case (Cons e es)
  have "enclaveStep P registry st e = (st, []) \<or> enclaveStep P registry st e = (st, [ErrorReply])" using assms by (cases e) simp_all
  then show ?case using Cons.IH by (auto simp: case_prod_beta)
qed simp

text \<open>An event that cannot be sealed still takes a number, which no receipt will carry.\<close>

lemma rejected_event_takes_number:
  assumes "sl_epoch s = Some epoch" "map_of (sl_issued s) (ei_event_id input) = None"
    and "createEnvelope P (input\<lparr>ei_sequence := Some (epoch, Fin (of_nat (sl_next s))), ei_attestation := Some (sl_attestation s)\<rparr>)
           (sl_registry s) now fresh = Inl e"
  shows "sealerSeal P s input now fresh = (Inl e, s\<lparr>sl_next := sl_next s + 1\<rparr>)"
  using assms by (simp add: sealerSeal_def Let_def)

section \<open>A small run\<close>

lemma signEnvelope_attested:
  assumes "digests32 P" "co_attestation_ref core = Some (toHex (sha256 P d))"
  shows "\<exists>env. signEnvelope P core [EKeyPair key] (Some d) = Inr env"
proof -
  obtain m where "signatureMessage (commit P (canonicalize P core)) = Inr m" using signatureMessage_ok [OF assms(1)] by blast
  then show ?thesis using assms(2) by (simp add: signEnvelope_def signEnvelopeAsync_def asSigner_def localSigner_def Let_def)
qed

lemma toy_start: "\<exists>key q. sealerStart toyEnv None [1] (replicate 32 7) n = Inr (key, q)"
  by (simp add: sealerStart_def generateKeypair_def keyBindingUserData_def ed25519Spki_def deriveEd25519Secret_def ML_DSA_SEED_BYTES_def Let_def)
    (simp add: toyEnv_def)

lemma toy_sealed_core:
  "\<exists>core. createEnvelope toyEnv (toyEnvelopeInput\<lparr>ei_sequence := Some q, ei_attestation := Some d\<rparr>) toyRegistry 200 [] = Inr core"
  using toyPayload_valid
  by (simp add: createEnvelope_def toyEnvelopeInput_def truthy_def rg_get_def Let_def toyDates) (simp add: toyRegistry_def familySchema_def)

theorem enclave_receipts_sequenced_witness:
  "\<exists>st replies env. serveEnclave toyEnv toyRegistry enclaveStart
       [Hello (replicate 16 1) [1] (replicate 32 7), Attested (Inr [9]), Register (Fin 1), ReceiptFrame toyEnvelopeInput 200 []] = (st, replies)
     \<and> ReceiptReply env \<in> set replies \<and> (\<exists>s n. sl_registry s = toyRegistry \<and> sealedBy toyEnv s n env)"
proof -
  obtain key q where k: "sealerStart toyEnv None [1] (replicate 32 7) (Some (replicate 16 1)) = Inr (key, q)" using toy_start by blast
  obtain core where c: "createEnvelope toyEnv (toyEnvelopeInput\<lparr>ei_sequence := Some (Fin 1, Fin 0), ei_attestation := Some [9]\<rparr>) toyRegistry 200 [] = Inr core"
    using toy_sealed_core by blast
  obtain env where e: "signEnvelope toyEnv core [EKeyPair key] (Some [9]) = Inr env"
    using signEnvelope_attested [OF digests32_toyEnv, of core "[9]"] createEnvelope_sequence [OF c] by auto
  let ?events = "[Hello (replicate 16 1) [1] (replicate 32 7), Attested (Inr [9]), Register (Fin 1), ReceiptFrame toyEnvelopeInput 200 []]"
  obtain st where r: "serveEnclave toyEnv toyRegistry enclaveStart ?events
      = (st, [RegisterReply (keyId key) (directoryEntry key) [9], AckReply (Fin 1), ReceiptReply env])"
    using k c e by (simp add: enclaveStart_def acceptEpoch_def sealerSeal_def newSealer_def Let_def)
  have m: "ReceiptReply env \<in> set [RegisterReply (keyId key) (directoryEntry key) [9], AckReply (Fin 1), ReceiptReply env]" by simp
  obtain s n where s: "sl_registry s = toyRegistry" "sealedBy toyEnv s n env"
    using enclave_receipts_sequenced [OF r m] by (elim exE conjE) (rule that; assumption)
  show ?thesis
    by (rule exI [of _ st], rule exI [of _ "[RegisterReply (keyId key) (directoryEntry key) [9], AckReply (Fin 1), ReceiptReply env]"],
        rule exI [of _ env], intro conjI, rule r, rule m, rule exI [of _ s], rule exI [of _ n], intro conjI, rule s(1), rule s(2))
qed

end
