(* ===== verification/Spec2Isabelle.thy ===== *)
theory Spec2Isabelle
  imports Log Gateway Ulid Envelope Anchor Receipt Engine History Transparency Capture Channel Disclose Bundle Packs Timestamp Vsock Tee Sealer
begin

text \<open>
  A verification library for the CooL evidence SDK (the TypeScript sources under \<^verbatim>\<open>src/src\<close>).

  \<^bold>\<open>The program.\<close>  CooL records what software did as signed, logged evidence that anybody can verify offline.  A record or an
  envelope is encoded canonically, hashed, signed under two schemes, appended to a transparency log, optionally co-signed by
  witnesses, attested by an enclave and anchored in Bitcoin; a verifier takes the bytes apart again and reports what it checked.  A
  second part authorises the actions of agents: principals, delegations, policies, signed decisions, one-time nonces and a gateway
  that executes an action at most once.

  \<^bold>\<open>Parameters.\<close>  The cryptographic packages, the CBOR package and the host's date, text and regular expression services are fields of
  the record \<open>env\<close> (theory \<open>Sign\<close>), the argument \<open>P\<close> of the definitions.  Theorems that rely on them name what they rely on:
  \<open>digests32\<close>, \<open>digests48\<close> (digests have 32 or 48 bytes), \<open>signs\<close> and \<open>generated\<close> (signatures made with a generated key verify), \<open>cbor_stable\<close> (a decoded
  value encodes to the same bytes).  Collision resistance is never assumed: binding theorems say that equal digests have equal
  preimages or that the two inputs named in the theorem collide.  Answers of networks, files and callbacks are arguments.

  \<^bold>\<open>Readings.\<close>  A string is the bytes of its UTF-8 form, so strings with lone surrogates, which the encoder does not keep apart, are outside
  the model.  A time that cannot be read is NaN, and a comparison with it is false: where the code tests \<open>t < from\<close> or \<open>t > to\<close>, an
  unreadable date excludes nothing.  The soundness theorems therefore say what they say of the dates that can be read
  (\<open>withinDates\<close>, \<open>keyAccepted\<close>), and lemmas show what the code accepts beyond that: \<open>Trust.unreadable_proof_accepted\<close>,
  \<open>Timestamp.unreadable_signer_dates_accepted\<close>, \<open>Receipt.rootless_quote_passes\<close>, \<open>Delegation.empty_action_amplifies\<close>.

  \<^bold>\<open>The theories\<close>, in the order they build on each other, with the sources they model:

  \<^item> \<open>Prelude\<close>: bytes, strings, errors, times with NaN, dynamically typed values, maps in insertion order, sorting.
  \<^item> \<open>Codec\<close> (\<^verbatim>\<open>codec.ts, multihash.ts, hash.ts\<close>): hex and base64 round trips, comparison, multihashes, salted commitments.
  \<^item> \<open>Sign\<close> (\<^verbatim>\<open>types.ts, sign.ts, keys.ts, record.ts, canonical.ts\<close>): the hybrid signature and keys.
  \<^item> \<open>Merkle\<close>, \<open>MerkleProofs\<close> (\<^verbatim>\<open>merkle.ts\<close>): RFC 6962 trees with the 32-bit shifts of the code; the root is the tree hash up to
    \<open>2\<^sup>30\<close> leaves, proofs are complete, and accepted proofs are sound up to a hash collision.
  \<^item> \<open>Log\<close> (\<^verbatim>\<open>log-memory.ts, phala/log.ts, phala/log-file.ts\<close>): the two logs as interpretations of one interface locale; recovery from a
    crash at every point of an append, a torn write included.
  \<^item> \<open>Status\<close>, \<open>Trust\<close>, \<open>Policy\<close> (\<^verbatim>\<open>platform/status.ts, outcome.ts, algorithms.ts, trust.ts, policy.ts\<close>): check results and their two
    headlines, trust snapshots, three-valued policies where the most restrictive rule wins.
  \<^item> \<open>Signed\<close>, \<open>Principal\<close>, \<open>Delegation\<close>, \<open>Request\<close>, \<open>Replay\<close>, \<open>Decision\<close>, \<open>Gateway\<close> (\<^verbatim>\<open>authz/\<close>): signed bodies, the principal directory
    and its invariant, attenuating delegation chains, committed requests, nonce stores (a locale with the in-process and the file
    store as interpretations), decisions that replay, and the gateway as a step relation over any interleaving of invocations.
  \<^item> \<open>Ulid\<close>, \<open>Payloads\<close>, \<open>Envelope\<close> (\<^verbatim>\<open>phala/ulid.ts, platform/payloads.ts, platform/envelope.ts\<close>): monotonic identifiers, payload schemas,
    and the creation, signing and verification of envelopes.
  \<^item> \<open>Anchor\<close> (\<^verbatim>\<open>phala/anchor.ts\<close>): OpenTimestamps proofs: parsing ends, written proofs read back, merging refines the union of claims,
    and a confirmed proof is a hash chain into the blocks it names.
  \<^item> \<open>Structure\<close>, \<open>Receipt\<close> (\<^verbatim>\<open>phala/structure.ts, record.ts, quote.ts, verify.ts\<close>): the shape check of receipts, equal to a declared
    schema, and the verification of receipts in seven domains on arbitrary values.

  \<^item> \<open>Dstack\<close>, \<open>Governance\<close>, \<open>Engine\<close> (\<^verbatim>\<open>phala/dstack.ts, kms.ts, diff.ts, policy.ts, engine.ts\<close>): the enclave clients and the keys they
    derive, line diffs and change rules, and the evidence plane that seals events into receipts, whose receipts verify.
  \<^item> \<open>Consistency\<close>, \<open>History\<close> (\<^verbatim>\<open>phala/consistency.ts\<close>): receipts of one log describe one history; what a plane sealed always does.
  \<^item> \<open>Transparency\<close> (\<^verbatim>\<open>phala/witness.ts, platform/transparency.ts\<close>): witness statements and the envelope log.
  \<^item> \<open>Capture\<close>, \<open>Channel\<close> (\<^verbatim>\<open>phala/capture.ts, runtime.ts, ratls.ts\<close>): the capture queue as steps in any interleaving (\<open>runs\<close>), the runtime
    status, the attestation handshake and the channel behind which the queue sends nothing unattested.
  \<^item> \<open>Disclose\<close>, \<open>Bundle\<close>, \<open>Packs\<close> (\<^verbatim>\<open>phala/disclose.ts, platform/bundle.ts, phala/query.ts, compliance.ts, pack.ts\<close>): selective disclosure,
    evidence bundles, and queries, coverage and audit packs.
  \<^item> \<open>Der\<close>, \<open>Timestamp\<close> (\<^verbatim>\<open>platform/der.ts, timestamp.ts\<close>): the DER reader, equal to a specification by trees, and RFC 3161 timestamps.
  \<^item> \<open>Nitro\<close>, \<open>Tee\<close> (\<^verbatim>\<open>nitro/attestation.ts, normalize.ts, platform/tee.ts\<close>): Nitro attestation documents, the normalised result and the
    adapters; \<open>Vsock\<close>, \<open>Sealer\<close> (\<^verbatim>\<open>nitro/vsock.ts, receipt.ts, kit.ts\<close>): the frames of an enclave and its server as a machine of frames.

  \<^bold>\<open>Fuel and bounds.\<close>  The only fuel is that of the proof reader (\<open>Anchor.readItems\<close>); as much as there are input bytes is always enough
  (\<open>readItems_total\<close>).  Loops of \<open>Merkle\<close> that do not return above \<open>2\<^sup>30\<close> leaves are partial functions into \<open>option\<close>, and so is the
  search for gaps of \<open>Bundle\<close> (\<open>gapLoop\<close>), whose counter is a double and stops at \<open>2\<^sup>53\<close> (\<open>gapLoop_stuck\<close>).  The drain of \<open>Capture\<close> ends within the bound \<open>drainWork\<close>.  The eight
  rounds of \<open>Timestamp.issuerLoop\<close> and the depth of 32 of \<open>Der.readOne\<close> are the code's own limits.

  \<^bold>\<open>Not modelled\<close>: the command line, its screens and documentation (\<^verbatim>\<open>cli/\<close>), which read and print files; the facades that pass calls on
  (\<^verbatim>\<open>client.ts, phala/client.ts, platform/client.ts\<close>); the socket of \<^verbatim>\<open>phala/unix.ts\<close>; the SEV-SNP and NVIDIA
  verifiers (\<^verbatim>\<open>snp/, nvidia/, phala/gpu.ts\<close>), whose substance is the certificate and signature code of their platforms, and the host side
  of \<^verbatim>\<open>nitro/kit.ts\<close>; adapters to key services and exporters (\<^verbatim>\<open>platform/signers.ts, connectors.ts\<close>); the
  static table \<^verbatim>\<open>platform/capabilities.ts\<close>, the legacy report and its display (\<^verbatim>\<open>platform/legacy.ts, verify.ts\<close>), and the re-exporting
  index files.  Display texts of checks are left out everywhere.
\<close>

end
